(* ===== verification/Prelude.thy ===== *)
theory Prelude
  imports Main "HOL-Library.Word" "HOL-Library.Char_ord" "HOL-Library.List_Lexorder"
    "HOL-Library.AList" "HOL-Library.Multiset"
begin

text \<open>
  What every component shares.  Machine integers are words of Go's width, a byte string is a
  list of bytes, an instant is a number of nanoseconds since Go's zero time, and a Go map is an
  association list with distinct keys, read by \<open>mget\<close> and written by \<open>mput\<close>, \<open>mdel\<close> and
  \<open>msweep\<close> (the \<open>for k, v := range m { if P { delete(m, k) } }\<close> loop).  The theory also models
  the parts of Go's standard library the sources call (\<open>sort\<close>, \<open>strings\<close>, \<open>strconv\<close>,
  \<open>encoding/binary\<close>, \<open>time\<close>), and states the four interfaces the components share as locales:
  a comparison that sorts, a table that expires, a wire format, and a system with an invariant.
\<close>

unbundle bit_operations_syntax

section \<open>Machine types\<close>

type_synonym byte = "8 word"
type_synonym u16 = "16 word"
type_synonym u32 = "32 word"
type_synonym u64 = "64 word"

text \<open>
  \<open>time.Time\<close> is an \<open>int\<close> counting nanoseconds from Go's zero time, so \<open>IsZero\<close> is equality with
  0; \<open>time.Duration\<close> is an \<open>int\<close> that the code keeps within 64 bits.  \<open>Time.Sub\<close> saturates.
\<close>

type_synonym time = int
type_synonym duration = int

definition maxDuration :: duration where
  "maxDuration = 2 ^ 63 - 1"

definition minDuration :: duration where
  "minDuration = - (2 ^ 63)"

definition Sub :: "time \<Rightarrow> time \<Rightarrow> duration" where
  "Sub t u = max minDuration (min maxDuration (t - u))"

definition IsZero :: "time \<Rightarrow> bool" where
  "IsZero t \<longleftrightarrow> t = 0"

text \<open>\<open>Duration.Truncate\<close> rounds towards zero; \<open>int64\<close> arithmetic wraps.\<close>

definition Truncate :: "duration \<Rightarrow> duration \<Rightarrow> duration" where
  "Truncate d u = d - sgn d * (\<bar>d\<bar> mod u)"

definition wrap64 :: "int \<Rightarrow> int" where
  "wrap64 x = (x + 2 ^ 63) mod 2 ^ 64 - 2 ^ 63"

lemma wrap64_id: "- (2 ^ 63) \<le> x \<Longrightarrow> x < 2 ^ 63 \<Longrightarrow> wrap64 x = x"
  by (simp add: wrap64_def)

abbreviation second :: duration where
  "second \<equiv> 1000000000"

abbreviation minute :: duration where
  "minute \<equiv> 60 * second"

abbreviation hour :: duration where
  "hour \<equiv> 60 * minute"

named_theorems go_simps \<open>evaluation rules for the modelled standard library\<close>
named_theorems table_simps \<open>what reading a Go map gives after writing it\<close>

lemma Sub_mono: "t \<le> t' \<Longrightarrow> Sub t u \<le> Sub t' u"
  by (simp add: Sub_def max_def min_def)

lemma Sub_self [simp]: "Sub t t = 0"
  by (simp add: Sub_def minDuration_def maxDuration_def)

lemma Sub_le_iff:
  assumes "minDuration \<le> d" "d < maxDuration"
  shows "Sub t u \<le> d \<longleftrightarrow> t - u \<le> d"
  using assms by (auto simp: Sub_def)

section \<open>Go maps as association lists\<close>

type_synonym ('k, 'v) gomap = "('k \<times> 'v) list"

definition mget :: "('k, 'v) gomap \<Rightarrow> 'k \<Rightarrow> 'v option" where
  "mget m k = map_of m k"

definition mput :: "'k \<Rightarrow> 'v \<Rightarrow> ('k, 'v) gomap \<Rightarrow> ('k, 'v) gomap" where
  "mput k v m = AList.update k v m"

definition mdel :: "'k \<Rightarrow> ('k, 'v) gomap \<Rightarrow> ('k, 'v) gomap" where
  "mdel k m = filter (\<lambda>kv. fst kv \<noteq> k) m"

definition msweep :: "('k \<Rightarrow> 'v \<Rightarrow> bool) \<Rightarrow> ('k, 'v) gomap \<Rightarrow> ('k, 'v) gomap" where
  "msweep P m = filter (\<lambda>kv. \<not> P (fst kv) (snd kv)) m"

definition mmap :: "('k \<Rightarrow> 'v \<Rightarrow> 'v) \<Rightarrow> ('k, 'v) gomap \<Rightarrow> ('k, 'v) gomap" where
  "mmap f m = map (\<lambda>kv. (fst kv, f (fst kv) (snd kv))) m"

definition mkeys :: "('k, 'v) gomap \<Rightarrow> 'k set" where
  "mkeys m = fst ` set m"

definition mwf :: "('k, 'v) gomap \<Rightarrow> bool" where
  "mwf m \<longleftrightarrow> distinct (map fst m)"

lemma mget_empty [simp]: "mget [] k = None"
  by (simp add: mget_def)

lemma mget_Cons: "mget ((k', v) # m) k = (if k = k' then Some v else mget m k)"
  by (simp add: mget_def)

lemma mput_empty [simp]: "mput k v [] = [(k, v)]"
  by (simp add: mput_def)

lemma mwf_empty [simp]: "mwf []"
  by (simp add: mwf_def)

lemma mget_mput [simp]: "mget (mput k v m) k' = (if k' = k then Some v else mget m k')"
  by (auto simp: mget_def mput_def update_conv')

lemma mwf_mput [simp]: "mwf m \<Longrightarrow> mwf (mput k v m)"
  by (simp add: mwf_def mput_def distinct_update)

lemma mget_mdel [simp]: "mget (mdel k m) k' = (if k' = k then None else mget m k')"
  by (induction m) (auto simp: mget_def mdel_def)

lemma mwf_filter: "mwf m \<Longrightarrow> mwf (filter P m)"
  by (simp add: mwf_def distinct_map_filter)

lemma mwf_mdel [simp]: "mwf m \<Longrightarrow> mwf (mdel k m)"
  by (simp add: mdel_def mwf_filter)

lemma mget_SomeD: "mget m k = Some v \<Longrightarrow> (k, v) \<in> set m"
  by (simp add: mget_def map_of_SomeD)

lemma mget_Some_iff: "mwf m \<Longrightarrow> mget m k = Some v \<longleftrightarrow> (k, v) \<in> set m"
  by (auto simp: mget_def mwf_def)

lemma mget_None_iff: "mget m k = None \<longleftrightarrow> k \<notin> mkeys m"
  by (simp add: mget_def mkeys_def map_of_eq_None_iff)

lemma mput_mput [simp]: "mput i a (mput i b m) = mput i a m"
  by (simp add: mput_def)

lemma mkeys_mput [simp]: "mkeys (mput k v m) = insert k (mkeys m)"
  by (force simp: mkeys_def mput_def dom_update)

lemma mkeys_mdel [simp]: "mkeys (mdel k m) = mkeys m - {k}"
  by (auto simp: mkeys_def mdel_def)

lemma mget_keys: "mget m k = Some v \<Longrightarrow> k \<in> mkeys m"
  by (metis mget_None_iff option.distinct(1))

lemma mget_msweep:
  "mwf m \<Longrightarrow> mget (msweep P m) k =
    (case mget m k of None \<Rightarrow> None | Some v \<Rightarrow> if P k v then None else Some v)"
  by (induction m) (auto simp: mget_def msweep_def mwf_def map_of_eq_None_iff rev_image_eqI
        split: option.splits)

lemma mwf_msweep [simp]: "mwf m \<Longrightarrow> mwf (msweep P m)"
  by (simp add: msweep_def mwf_filter)

lemma set_msweep: "set (msweep P m) = {kv \<in> set m. \<not> P (fst kv) (snd kv)}"
  by (auto simp: msweep_def)

lemma mget_mmap [simp]: "mget (mmap f m) k = map_option (f k) (mget m k)"
  by (induction m) (auto simp: mget_def mmap_def)

lemma mwf_mmap [simp]: "mwf (mmap f m) = mwf m"
  by (simp add: mwf_def mmap_def comp_def)

lemma mput_set_cases:
  "(k', v') \<in> set (mput k v m) \<Longrightarrow> (k', v') = (k, v) \<or> (k', v') \<in> set m"
  by (induction m) (auto simp: mput_def split: if_splits)

lemma length_mput:
  "mwf m \<Longrightarrow> length (mput k v m) = (if mget m k = None then Suc (length m) else length m)"
  by (induction m) (auto simp: mput_def mget_def mwf_def)

lemma filter_mput_new:
  "mget m k = None \<Longrightarrow> filter P (mput k v m) = filter P m @ (if P (k, v) then [(k, v)] else [])"
  by (induction m) (auto simp: mput_def mget_def split: if_splits)

lemma filter_mput_length:
  "mwf m \<Longrightarrow> mget m k = Some v0 \<Longrightarrow>
    length (filter P (mput k v m)) + (if P (k, v0) then 1 else 0) =
    length (filter P m) + (if P (k, v) then 1 else 0)"
  by (induction m) (auto simp: mput_def mget_def mwf_def split: if_splits)

lemma mdel_absent: "mget m k = None \<Longrightarrow> mdel k m = m"
  by (induction m) (auto simp: mdel_def mget_def split: if_splits)

lemma filter_mdel_length:
  "mwf m \<Longrightarrow> mget m k = Some v \<Longrightarrow>
    length (filter P (mdel k m)) + (if P (k, v) then 1 else 0) = length (filter P m)"
proof (induction m)
  case Nil
  then show ?case by simp
next
  case (Cons a m)
  show ?case
  proof (cases "fst a = k")
    case True
    then have "mget m k = None"
      using Cons.prems by (simp add: mwf_def mget_def map_of_eq_None_iff image_iff)
    then have "mdel k (a # m) = m"
      using True mdel_absent [of m k] by (simp add: mdel_def)
    moreover have "a = (k, v)"
      using True Cons.prems by (cases a) (simp add: mget_def)
    ultimately show ?thesis by simp
  next
    case False
    then have "mget m k = Some v" "mwf m" "mdel k (a # m) = a # mdel k m"
      using Cons.prems by (cases a, auto simp: mget_def mwf_def mdel_def)+
    then show ?thesis using Cons.IH by simp
  qed
qed

lemma length_mdel:
  "mwf m \<Longrightarrow> mget m k = Some v \<Longrightarrow> Suc (length (mdel k m)) = length m"
  using filter_mdel_length [of m k v "\<lambda>_. True"] by simp

lemmas [table_simps] = mget_Cons mget_msweep set_msweep


section \<open>sort.Slice and sort.Search\<close>

text \<open>
  \<open>sort.Slice\<close> takes a comparison.  Its result on elements the comparison does not separate is
  unspecified; the model inserts from the left, which is what the library does on short slices.
\<close>

fun insert_by :: "('a \<Rightarrow> 'a \<Rightarrow> bool) \<Rightarrow> 'a \<Rightarrow> 'a list \<Rightarrow> 'a list" where
  "insert_by lt x [] = [x]"
| "insert_by lt x (y # ys) = (if lt x y then x # y # ys else y # insert_by lt x ys)"

definition sort_by :: "('a \<Rightarrow> 'a \<Rightarrow> bool) \<Rightarrow> 'a list \<Rightarrow> 'a list" where
  "sort_by lt xs = fold (insert_by lt) xs []"

lemma sort_by_empty [simp]: "sort_by lt [] = []"
  by (simp add: sort_by_def)

lemma mset_insert_by: "mset (insert_by lt x ys) = add_mset x (mset ys)"
  by (induction ys) auto

lemma mset_sort_by [simp]: "mset (sort_by lt xs) = mset xs"
proof -
  have "mset (fold (insert_by lt) xs acc) = mset xs + mset acc" for acc
    by (induction xs arbitrary: acc) (auto simp: mset_insert_by)
  then show ?thesis by (simp add: sort_by_def)
qed

lemma set_sort_by [simp]: "set (sort_by lt xs) = set xs"
  by (metis mset_sort_by set_mset_mset)

lemma distinct_sort_by [simp]: "distinct (sort_by lt xs) = distinct xs"
  by (metis mset_sort_by mset_eq_imp_distinct_iff)

lemma length_sort_by [simp]: "length (sort_by lt xs) = length xs"
  by (metis mset_sort_by size_mset)

lemma sort_by_Nil_iff [simp]: "sort_by lt xs = [] \<longleftrightarrow> xs = []"
  by (metis length_0_conv length_sort_by)

text \<open>The contract of a comparison passed to \<open>sort.Slice\<close>: a strict weak order.\<close>

locale go_less =
  fixes lt :: "'a \<Rightarrow> 'a \<Rightarrow> bool"
  assumes asym: "lt x y \<Longrightarrow> \<not> lt y x"
    and neg_trans: "lt x z \<Longrightarrow> lt x y \<or> lt y z"
begin

lemma trans_not: "\<not> lt y x \<Longrightarrow> \<not> lt z y \<Longrightarrow> \<not> lt z x"
  using neg_trans by blast

lemma sorted_insert_by:
  "sorted_wrt (\<lambda>a b. \<not> lt b a) ys \<Longrightarrow> sorted_wrt (\<lambda>a b. \<not> lt b a) (insert_by lt x ys)"
proof (induction ys)
  case Nil
  then show ?case by simp
next
  case (Cons y ys)
  have "set (insert_by lt x ys) = insert x (set ys)"
    using arg_cong [OF mset_insert_by [of lt x ys], of set_mset] by simp
  then show ?case using Cons by (auto dest: asym) (meson asym neg_trans)
qed

lemma sorted_sort_by: "sorted_wrt (\<lambda>a b. \<not> lt b a) (sort_by lt xs)"
proof -
  have "sorted_wrt (\<lambda>a b. \<not> lt b a) (fold (insert_by lt) xs acc)"
    if "sorted_wrt (\<lambda>a b. \<not> lt b a) acc" for acc
    using that by (induction xs arbitrary: acc) (auto simp: sorted_insert_by)
  then show ?thesis by (simp add: sort_by_def)
qed

lemma insert_by_last:
  "\<forall>y \<in> set ys. \<not> lt x y \<Longrightarrow> insert_by lt x ys = ys @ [x]"
  by (induction ys) auto

lemma sort_by_sorted: "sorted_wrt (\<lambda>a b. \<not> lt b a) xs \<Longrightarrow> sort_by lt xs = xs"
proof -
  assume "sorted_wrt (\<lambda>a b. \<not> lt b a) xs"
  then have "sorted_wrt (\<lambda>a b. \<not> lt b a) (acc @ xs) \<Longrightarrow>
      fold (insert_by lt) xs acc = acc @ xs" for acc
    by (induction xs arbitrary: acc) (auto simp: insert_by_last sorted_wrt_append)
  with \<open>sorted_wrt _ xs\<close> show ?thesis by (simp add: sort_by_def)
qed

end

text \<open>\<open>sort.Search\<close>: the least index in \<open>[i, j)\<close> where \<open>f\<close> holds, by bisection.\<close>

function search_go :: "nat \<Rightarrow> nat \<Rightarrow> (nat \<Rightarrow> bool) \<Rightarrow> nat" where
  "search_go i j f =
     (if i < j then let h = (i + j) div 2 in
        if \<not> f h then search_go (h + 1) j f else search_go i h f
      else i)"
  by pat_completeness auto
termination
  by (relation "measure (\<lambda>(i, j, f). j - i)") auto

declare search_go.simps [simp del]

definition sort_Search :: "nat \<Rightarrow> (nat \<Rightarrow> bool) \<Rightarrow> nat" where
  "sort_Search n f = search_go 0 n f"

lemma search_go_least:
  assumes "i \<le> j" "\<And>a b. a \<le> b \<Longrightarrow> b < n \<Longrightarrow> f a \<Longrightarrow> f b" "j \<le> n"
    and "\<And>k. k < i \<Longrightarrow> \<not> f k" "\<And>k. j \<le> k \<Longrightarrow> k < n \<Longrightarrow> f k"
  shows "search_go i j f \<le> n \<and> (\<forall>k < search_go i j f. \<not> f k) \<and>
    (\<forall>k. search_go i j f \<le> k \<longrightarrow> k < n \<longrightarrow> f k)"
  using assms
proof (induction i j f rule: search_go.induct)
  case (1 i j f)
  show ?case
  proof (cases "i < j")
    case False
    then have "search_go i j f = i" by (subst search_go.simps) simp
    with False "1.prems" show ?thesis by simp
  next
    case True
    define h where "h = (i + j) div 2"
    have h: "i \<le> h" "h < j" using True by (auto simp: h_def)
    show ?thesis
    proof (cases "f h")
      case False
      then have low: "\<not> f k" if "k < h + 1" for k
        using that "1.prems"(2) [of k h] h "1.prems"(3) by auto
      have eq: "search_go i j f = search_go (h + 1) j f"
        by (subst search_go.simps) (simp add: True False flip: h_def)
      show ?thesis unfolding eq
        by (rule "1.IH"(1) [OF True h_def False]) (use "1.prems" h low in \<open>auto intro: Suc_leI\<close>)
    next
      case fh: True
      then have high: "f k" if "h \<le> k" "k < n" for k
        using that "1.prems"(2) [of h k] by auto
      have eq: "search_go i j f = search_go i h f"
        by (subst search_go.simps) (simp add: True fh flip: h_def)
      have nf: "\<not> \<not> f h" using fh by simp
      show ?thesis unfolding eq
        by (rule "1.IH"(2) [OF True h_def nf]) (use "1.prems" h high in auto)
    qed
  qed
qed

lemma sort_Search_least:
  assumes "\<forall>a b. a \<le> b \<longrightarrow> b < n \<longrightarrow> f a \<longrightarrow> f b"
  shows "sort_Search n f \<le> n" and "k < sort_Search n f \<Longrightarrow> \<not> f k"
    and "sort_Search n f \<le> k \<Longrightarrow> k < n \<Longrightarrow> f k"
  using search_go_least [of 0 n n f] assms by (auto simp: sort_Search_def)

section \<open>strings and strconv\<close>

text \<open>
  Go strings are byte strings, here \<open>string\<close>.  White space and letter case are those of ASCII, the
  only text the modelled configuration fields and link names use.
\<close>

definition is_space :: "char \<Rightarrow> bool" where
  "is_space c \<longleftrightarrow> c = CHR '' '' \<or> (CHR 0x09 \<le> c \<and> c \<le> CHR 0x0D)"

definition TrimSpace :: "string \<Rightarrow> string" where
  "TrimSpace s = rev (dropWhile is_space (rev (dropWhile is_space s)))"

definition TrimRight :: "char \<Rightarrow> string \<Rightarrow> string" where
  "TrimRight c s = rev (dropWhile (\<lambda>x. x = c) (rev s))"

definition lower_char :: "char \<Rightarrow> char" where
  "lower_char c = (if CHR ''A'' \<le> c \<and> c \<le> CHR ''Z'' then char_of (of_char c + 32 :: nat) else c)"

definition ToLower :: "string \<Rightarrow> string" where
  "ToLower s = map lower_char s"

definition EqualFold :: "string \<Rightarrow> string \<Rightarrow> bool" where
  "EqualFold s t \<longleftrightarrow> ToLower s = ToLower t"

definition Cut :: "string \<Rightarrow> char \<Rightarrow> string \<times> string \<times> bool" where
  "Cut s c = (if c \<in> set s then (takeWhile (\<lambda>x. x \<noteq> c) s, tl (dropWhile (\<lambda>x. x \<noteq> c) s), True)
              else (s, [], False))"

definition is_digit :: "char \<Rightarrow> bool" where
  "is_digit c \<longleftrightarrow> CHR ''0'' \<le> c \<and> c \<le> CHR ''9''"

definition digit_value :: "char \<Rightarrow> nat" where
  "digit_value c = of_char c - 48"

definition digit_char :: "nat \<Rightarrow> char" where
  "digit_char d = char_of (48 + d)"

definition decimal_value :: "string \<Rightarrow> nat" where
  "decimal_value s = foldl (\<lambda>n c. 10 * n + digit_value c) 0 s"

fun FormatUint :: "nat \<Rightarrow> string" where
  "FormatUint n = (if n < 10 then [digit_char n] else FormatUint (n div 10) @ [digit_char (n mod 10)])"

declare FormatUint.simps [simp del]

text \<open>\<open>strconv.Itoa\<close>, and \<open>strconv.FormatFloat(x, 'f', 4, 64)\<close> of the number \<open>m / 2 ^ k\<close>: rounded to the nearest, ties to even.\<close>

definition Itoa :: "int \<Rightarrow> string" where
  "Itoa n = (if n < 0 then CHR ''-'' # FormatUint (nat (- n)) else FormatUint (nat n))"

definition round_even :: "nat \<Rightarrow> nat \<Rightarrow> nat" where
  "round_even n d = (let q = n div d; r = n mod d in
     if 2 * r < d then q else if 2 * r > d then q + 1 else if even q then q else q + 1)"

definition pad4 :: "string \<Rightarrow> string" where
  "pad4 s = replicate (4 - length s) CHR ''0'' @ s"

definition format_fixed4 :: "int \<Rightarrow> nat \<Rightarrow> string" where
  "format_fixed4 m k = (let q = round_even (nat \<bar>m\<bar> * 10000) (2 ^ k) in
     (if m < 0 then [CHR ''-''] else []) @ FormatUint (q div 10000) @ [CHR ''.''] @ pad4 (FormatUint (q mod 10000)))"

lemma of_char_digit_char: "d < 10 \<Longrightarrow> (of_char (digit_char d) :: nat) = 48 + d"
  by (simp add: digit_char_def)

lemma char_le_iff: "(c :: char) \<le> d \<longleftrightarrow> (of_char c :: nat) \<le> of_char d"
  by (simp add: less_eq_char_def)

lemma is_digit_digit_char [simp]: "d < 10 \<Longrightarrow> is_digit (digit_char d)"
  by (simp add: is_digit_def char_le_iff of_char_digit_char)

lemma digit_value_digit_char [simp]: "d < 10 \<Longrightarrow> digit_value (digit_char d) = d"
  by (simp add: digit_value_def of_char_digit_char)

lemma FormatUint_digits: "\<forall>c \<in> set (FormatUint n). is_digit c"
proof (induction n rule: FormatUint.induct)
  case (1 n)
  then show ?case by (cases "n < 10") (auto simp: FormatUint.simps [of n])
qed

lemma FormatUint_nonempty [simp]: "FormatUint n \<noteq> []"
  by (subst FormatUint.simps) simp

lemma decimal_value_FormatUint [simp]: "decimal_value (FormatUint n) = n"
proof (induction n rule: FormatUint.induct)
  case (1 n)
  then show ?case
    by (cases "n < 10") (auto simp: FormatUint.simps [of n] decimal_value_def)
qed

lemma digit_not_space: "is_digit c \<Longrightarrow> \<not> is_space c"
  by (auto simp: is_digit_def is_space_def char_le_iff)

lemma digit_not_minus: "is_digit c \<Longrightarrow> c \<noteq> CHR ''-''"
  by (auto simp: is_digit_def char_le_iff)

lemma TrimSpace_id:
  assumes "s = [] \<or> \<not> is_space (hd s) \<and> \<not> is_space (last s)"
  shows "TrimSpace s = s"
proof (cases "s = []")
  case True
  then show ?thesis by (simp add: TrimSpace_def)
next
  case False
  with assms have "dropWhile is_space s = s" "dropWhile is_space (rev s) = rev s"
    by (auto simp: dropWhile_eq_self_iff hd_rev)
  then show ?thesis by (simp add: TrimSpace_def)
qed

lemmas [go_simps] = is_space_def is_digit_def digit_value_def digit_char_def decimal_value_def
  TrimSpace_def Cut_def char_le_iff sort_by_def

section \<open>encoding/binary: big-endian fields\<close>

definition put16 :: "u16 \<Rightarrow> byte list" where
  "put16 w = [ucast (drop_bit 8 w), ucast w]"

definition put24 :: "u32 \<Rightarrow> byte list" where
  "put24 w = [ucast (drop_bit 16 w), ucast (drop_bit 8 w), ucast w]"

definition put32 :: "u32 \<Rightarrow> byte list" where
  "put32 w = [ucast (drop_bit 24 w), ucast (drop_bit 16 w), ucast (drop_bit 8 w), ucast w]"

definition get16 :: "byte list \<Rightarrow> u16" where
  "get16 b = push_bit 8 (ucast (b ! 0)) OR ucast (b ! 1)"

definition get24 :: "byte list \<Rightarrow> u32" where
  "get24 b = push_bit 16 (ucast (b ! 0)) OR push_bit 8 (ucast (b ! 1)) OR ucast (b ! 2)"

definition get32 :: "byte list \<Rightarrow> u32" where
  "get32 b = push_bit 24 (ucast (b ! 0)) OR push_bit 16 (ucast (b ! 1)) OR
             push_bit 8 (ucast (b ! 2)) OR ucast (b ! 3)"

lemma length_put [simp]: "length (put16 w) = 2" "length (put24 v) = 3" "length (put32 v) = 4"
  by (simp_all add: put16_def put24_def put32_def)

lemma get16_put16 [simp]: "get16 (put16 w @ b) = w"
  by (rule bit_word_eqI) (auto simp: get16_def put16_def bit_simps)

lemma get24_put24: "get24 (put24 w @ b) = take_bit 24 w"
proof (rule bit_word_eqI)
  fix n :: nat
  consider "n < 8" | "8 \<le> n" "n < 16" | "16 \<le> n" "n < 24" | "24 \<le> n" by linarith
  then show "bit (get24 (put24 w @ b)) n = bit (take_bit 24 w) n"
    by cases (auto simp: get24_def put24_def bit_simps)
qed

lemma get32_put32 [simp]: "get32 (put32 w @ b) = w"
proof (rule bit_word_eqI)
  fix n :: nat
  assume "n < LENGTH(32)"
  consider "n < 8" | "8 \<le> n" "n < 16" | "16 \<le> n" "n < 24" | "24 \<le> n" by linarith
  then show "bit (get32 (put32 w @ b)) n = bit w n"
    using \<open>n < LENGTH(32)\<close> by cases (auto simp: get32_def put32_def bit_simps)
qed


lemma byte_high_bit [simp]: "8 \<le> n \<Longrightarrow> \<not> bit (x :: byte) n"
  using bit_imp_le_length [of x n] by auto

lemma list_of_length:
  "length b = 2 \<longleftrightarrow> (\<exists>x y. b = [x, y])"
  "length b = 3 \<longleftrightarrow> (\<exists>x y z. b = [x, y, z])"
  "length b = 4 \<longleftrightarrow> (\<exists>x y z u. b = [x, y, z, u])"
  by (auto simp: length_Suc_conv eval_nat_numeral)

lemma put16_get16: "length b = 2 \<Longrightarrow> put16 (get16 b) = b"
  by (auto simp: list_of_length put16_def get16_def bit_simps intro!: bit_word_eqI)

lemma put24_get24: "length b = 3 \<Longrightarrow> put24 (get24 b) = b"
  by (auto simp: list_of_length put24_def get24_def bit_simps intro!: bit_word_eqI)

lemma put32_get32: "length b = 4 \<Longrightarrow> put32 (get32 b) = b"
  by (auto simp: list_of_length put32_def get32_def bit_simps intro!: bit_word_eqI)

definition bytes_of :: "string \<Rightarrow> byte list" where
  "bytes_of s = map (\<lambda>c. word_of_nat (of_char c)) s"

definition string_of :: "byte list \<Rightarrow> string" where
  "string_of b = map (\<lambda>x. char_of (unat x)) b"

lemma string_of_bytes_of [simp]: "string_of (bytes_of s) = s"
  by (induction s) (auto simp: string_of_def bytes_of_def unat_of_nat)

lemma unat_byte_bound: "unat (x :: byte) < 256"
proof -
  have "unat x < 2 ^ LENGTH(8)" by (rule unsigned_less)
  then show ?thesis by simp
qed

lemma bytes_of_string_of [simp]: "bytes_of (string_of b) = b"
  by (induction b) (auto simp: string_of_def bytes_of_def unat_byte_bound)

lemma bytes_of_append [simp]: "bytes_of (s @ t) = bytes_of s @ bytes_of t"
  by (simp add: bytes_of_def)

lemma length_bytes_of [simp]: "length (bytes_of s) = length s"
  by (simp add: bytes_of_def)

lemma length_string_of [simp]: "length (string_of b) = length b"
  by (simp add: string_of_def)

section \<open>Interfaces shared by several components\<close>

text \<open>
  A table whose entries go stale.  \<open>stale t now k v\<close> says the entry \<open>v\<close> under \<open>k\<close> has lapsed at
  \<open>now\<close>; the sweep removes exactly the lapsed entries and once lapsed an entry stays lapsed.
\<close>

locale expiring_table =
  fixes look :: "'t \<Rightarrow> 'k \<Rightarrow> 'v option"
    and sweep :: "time \<Rightarrow> 't \<Rightarrow> 't"
    and stale :: "'t \<Rightarrow> time \<Rightarrow> 'k \<Rightarrow> 'v \<Rightarrow> bool"
    and ok :: "'t \<Rightarrow> bool"
  assumes look_sweep: "ok t \<Longrightarrow> look (sweep now t) k =
      (case look t k of None \<Rightarrow> None | Some v \<Rightarrow> if stale t now k v then None else Some v)"
    and stale_sweep: "stale (sweep now t) = stale t"
    and ok_sweep: "ok t \<Longrightarrow> ok (sweep now t)"
    and stale_mono: "stale t now k v \<Longrightarrow> now \<le> now' \<Longrightarrow> stale t now' k v"
begin

lemma sweep_gone: "ok t \<Longrightarrow> look (sweep now t) k = Some v \<Longrightarrow> \<not> stale t now k v"
  by (auto simp: look_sweep split: option.splits if_splits)

lemma sweep_keeps: "ok t \<Longrightarrow> look t k = Some v \<Longrightarrow> \<not> stale t now k v \<Longrightarrow> look (sweep now t) k = Some v"
  by (simp add: look_sweep)

lemma sweep_invents_nothing: "ok t \<Longrightarrow> look (sweep now t) k = Some v \<Longrightarrow> look t k = Some v"
  by (auto simp: look_sweep split: option.splits if_splits)

lemma sweep_later:
  "ok t \<Longrightarrow> now \<le> now' \<Longrightarrow> look (sweep now' (sweep now t)) k = look (sweep now' t) k"
  by (auto simp: look_sweep stale_sweep ok_sweep dest: stale_mono split: option.splits)

lemma sweep_idem: "ok t \<Longrightarrow> look (sweep now (sweep now t)) k = look (sweep now t) k"
  by (rule sweep_later) simp_all

end

text \<open>
  A wire format.  Messages outside \<open>covered\<close> are accepted by the parser without a promise about
  their bytes; for the others parsing and marshalling are inverse.
\<close>

locale wire_codec =
  fixes marshal :: "'m \<Rightarrow> byte list"
    and parse :: "byte list \<Rightarrow> 'e + 'm"
    and covered :: "'m \<Rightarrow> bool"
    and wf_msg :: "'m \<Rightarrow> bool"
  assumes parse_marshal: "wf_msg m \<Longrightarrow> parse (marshal m) = Inr m"
    and marshal_parse: "parse b = Inr m \<Longrightarrow> covered m \<Longrightarrow> wf_msg m \<and> marshal m = b"
begin

lemma marshal_inj: "wf_msg m \<Longrightarrow> wf_msg m' \<Longrightarrow> marshal m = marshal m' \<Longrightarrow> m = m'"
  by (metis parse_marshal sum.inject(2))

lemma parse_inj: "parse b = Inr m \<Longrightarrow> parse b' = Inr m \<Longrightarrow> covered m \<Longrightarrow> b = b'"
  by (metis marshal_parse)

lemma reparse: "parse b = Inr m \<Longrightarrow> covered m \<Longrightarrow> parse (marshal m) = Inr m"
  using marshal_parse parse_marshal by blast

lemma accepted_iff: "covered m \<Longrightarrow> (\<exists>b. parse b = Inr m) \<longleftrightarrow> wf_msg m"
  using marshal_parse parse_marshal by blast

end

text \<open>Reachability by steps, and systems whose steps keep an invariant.\<close>

inductive reachable :: "('s \<Rightarrow> bool) \<Rightarrow> ('s \<Rightarrow> 's \<Rightarrow> bool) \<Rightarrow> 's \<Rightarrow> bool"
  for init step where
  start: "init s \<Longrightarrow> reachable init step s"
| step: "reachable init step s \<Longrightarrow> step s t \<Longrightarrow> reachable init step t"

locale safe_system =
  fixes init :: "'s \<Rightarrow> bool"
    and step :: "'s \<Rightarrow> 's \<Rightarrow> bool"
    and inv :: "'s \<Rightarrow> bool"
  assumes init_inv: "init s \<Longrightarrow> inv s"
    and step_inv: "inv s \<Longrightarrow> step s t \<Longrightarrow> inv t"
begin

lemma reachable_inv: "reachable init step s \<Longrightarrow> inv s"
  by (induction rule: reachable.induct) (auto intro: init_inv step_inv)

lemma steps_inv: "step\<^sup>*\<^sup>* s t \<Longrightarrow> inv s \<Longrightarrow> inv t"
  by (induction rule: rtranclp_induct) (auto intro: step_inv)

end

end
