(* ===== verification/Hbp.thy ===== *)
theory Hbp
  imports Prelude
begin

text \<open>
  \<^verbatim>\<open>internal/protocol/hbp\<close>: the Homebrew wire format.  One constructor of \<open>message\<close> per Go message
  type, one \<open>parse\<close> definition per Go parser, \<open>Parse\<close> dispatching on the tag in the source's
  order, and \<open>Marshal\<close>.  Fixed-width text fields are read and written by \<open>read_fields\<close> and
  \<open>padTo\<close>.  The lemmas show that parsing and marshalling are inverse on every message but the
  JSON-carrying identity, and where the tag dispatch shadows a message.

  The JSON body of a \<open>QSPI\<close> message goes through \<open>encoding/json\<close>; its encoder and decoder are the
  parameter \<open>json\<close>, and nothing is assumed of them.  A \<open>float64\<close> is \<open>NaN\<close>, an infinity, or \<open>Fin m k\<close>
  for the number \<open>m / 2 ^ k\<close>: the code only compares it.
\<close>

section \<open>Data\<close>

type_synonym RepeaterID = u32
type_synonym StreamID = u32
type_synonym Timeslot = byte
type_synonym CallType = byte
type_synonym FrameType = byte

abbreviation Timeslot1 :: Timeslot where "Timeslot1 \<equiv> 1"
abbreviation Timeslot2 :: Timeslot where "Timeslot2 \<equiv> 2"
abbreviation CallGroup :: CallType where "CallGroup \<equiv> 0"
abbreviation CallPrivate :: CallType where "CallPrivate \<equiv> 1"
abbreviation FrameTypeVoice :: FrameType where "FrameTypeVoice \<equiv> 0"
abbreviation FrameTypeVoiceSync :: FrameType where "FrameTypeVoiceSync \<equiv> 1"
abbreviation FrameTypeSync :: FrameType where "FrameTypeSync \<equiv> 2"
abbreviation DataTypeVoiceLCHeader :: byte where "DataTypeVoiceLCHeader \<equiv> 1"
abbreviation DataTypeTerminator :: byte where "DataTypeTerminator \<equiv> 2"

record hbp_data =
  d_Sequence :: byte
  d_SourceID :: u32
  d_TargetID :: u32
  d_RepeaterID :: RepeaterID
  d_Timeslot :: Timeslot
  d_CallType :: CallType
  d_FrameType :: FrameType
  d_DataType :: byte
  d_StreamID :: StreamID
  d_Payload :: "byte list"
  d_Trailing :: "byte list"

record hbp_config =
  c_RepeaterID :: RepeaterID
  c_Callsign :: string
  c_RXFreq :: string
  c_TXFreq :: string
  c_TXPower :: string
  c_ColorCode :: string
  c_Latitude :: string
  c_Longitude :: string
  c_Height :: string
  c_Location :: string
  c_Description :: string
  c_Slots :: string
  c_URL :: string
  c_SoftwareID :: string
  c_PackageID :: string

record hbp_gateway_config =
  g_RepeaterID :: RepeaterID
  g_Callsign :: string
  g_RXFreq :: string
  g_TXFreq :: string
  g_TXPower :: string
  g_ColorCode :: string
  g_Slots :: string
  g_SoftwareID :: string
  g_PackageID :: string

datatype float64 = NaN | NegInf | PosInf | Fin int nat

record hbp_identity =
  i_RepeaterID :: RepeaterID
  i_Network :: string
  i_Callsign :: string
  i_Software :: string
  i_Description :: string
  i_ServerID :: string
  i_Location :: string
  i_Latitude :: float64
  i_Longitude :: float64
  i_Located :: bool

record identityPayload =
  ip_Network :: string
  ip_Callsign :: string
  ip_Software :: string
  ip_Description :: string
  ip_ServerID :: string
  ip_Location :: string
  ip_Latitude :: "float64 option"
  ip_Longitude :: "float64 option"

record json =
  json_Marshal :: "identityPayload \<Rightarrow> byte list option"
  json_Unmarshal :: "byte list \<Rightarrow> identityPayload option"

datatype message =
    Login RepeaterID
  | Ack "byte list"
  | Key RepeaterID "byte list"
  | Config hbp_config
  | Ping RepeaterID
  | Pong RepeaterID
  | Data hbp_data
  | GatewayConfig hbp_gateway_config
  | GatewayPong
  | Identity hbp_identity
  | Nak RepeaterID
  | MasterAck RepeaterID
  | MasterClose RepeaterID
  | RepeaterClose RepeaterID
  | MasterPing RepeaterID
  | RepeaterPong RepeaterID
  | TalkerAlias RepeaterID "byte list"

datatype hbp_error = ErrShort | ErrUnknownKind | ErrNotCaptured | ErrTrailingBytes | ErrFieldFormat
  | ErrFieldWidths

section \<open>message.go\<close>

definition hasTag :: "byte list \<Rightarrow> string \<Rightarrow> bool" where
  "hasTag b tag \<longleftrightarrow> length tag \<le> length b \<and> take (length tag) b = bytes_of tag"

definition exactLen :: "byte list \<Rightarrow> nat \<Rightarrow> hbp_error option" where
  "exactLen b want =
     (if length b < want then Some ErrShort
      else if length b > want then Some ErrTrailingBytes else None)"

definition uncapturedTags :: "string list" where
  "uncapturedTags = [''RPTO'', ''RPTSBKN'']"

definition putID :: "RepeaterID \<Rightarrow> byte list" where
  "putID rid = put32 rid"

definition getID :: "byte list \<Rightarrow> RepeaterID" where
  "getID b = get32 b"

section \<open>control.go and documented.go: tags with a repeater ID\<close>

definition idMessage :: "string \<Rightarrow> RepeaterID \<Rightarrow> byte list" where
  "idMessage tag rid = bytes_of tag @ putID rid"

definition parseIDMessage :: "byte list \<Rightarrow> string \<Rightarrow> nat \<Rightarrow> hbp_error + RepeaterID" where
  "parseIDMessage b tag sz =
     (case exactLen b sz of Some e \<Rightarrow> Inl e | None \<Rightarrow> Inr (getID (drop (length tag) b)))"

text \<open>The encoders, one per message type; \<open>simp\<close> unfolds them.\<close>

definition Login_AppendTo :: "RepeaterID \<Rightarrow> byte list" where
  [simp]: "Login_AppendTo rid = bytes_of ''RPTL'' @ putID rid"

definition Ack_AppendTo :: "byte list \<Rightarrow> byte list" where
  [simp]: "Ack_AppendTo p = bytes_of ''RPTACK'' @ p"

definition Key_AppendTo :: "RepeaterID \<Rightarrow> byte list \<Rightarrow> byte list" where
  [simp]: "Key_AppendTo rid d = bytes_of ''RPTK'' @ putID rid @ d"

definition Ping_AppendTo :: "RepeaterID \<Rightarrow> byte list" where
  [simp]: "Ping_AppendTo rid = bytes_of ''RPTPING'' @ putID rid"

definition Pong_AppendTo :: "RepeaterID \<Rightarrow> byte list" where
  [simp]: "Pong_AppendTo rid = bytes_of ''MSTPONG'' @ putID rid"

definition Nak_AppendTo :: "RepeaterID \<Rightarrow> byte list" where
  [simp]: "Nak_AppendTo rid = idMessage ''MSTNAK'' rid"

definition MasterAck_AppendTo :: "RepeaterID \<Rightarrow> byte list" where
  [simp]: "MasterAck_AppendTo rid = idMessage ''MSTACK'' rid"

definition MasterClose_AppendTo :: "RepeaterID \<Rightarrow> byte list" where
  [simp]: "MasterClose_AppendTo rid = idMessage ''MSTCL'' rid"

definition RepeaterClose_AppendTo :: "RepeaterID \<Rightarrow> byte list" where
  [simp]: "RepeaterClose_AppendTo rid = idMessage ''RPTCL'' rid"

definition MasterPing_AppendTo :: "RepeaterID \<Rightarrow> byte list" where
  [simp]: "MasterPing_AppendTo rid = idMessage ''MSTPING'' rid"

definition RepeaterPong_AppendTo :: "RepeaterID \<Rightarrow> byte list" where
  [simp]: "RepeaterPong_AppendTo rid = idMessage ''RPTPONG'' rid"

definition GatewayPong_AppendTo :: "byte list" where
  [simp]: "GatewayPong_AppendTo = bytes_of ''DMRP''"

definition parseLogin :: "byte list \<Rightarrow> hbp_error + message" where
  "parseLogin b = (case exactLen b 8 of Some e \<Rightarrow> Inl e | None \<Rightarrow> Inr (Login (getID (drop 4 b))))"

definition parseAck :: "byte list \<Rightarrow> hbp_error + message" where
  "parseAck b = (case exactLen b 10 of Some e \<Rightarrow> Inl e | None \<Rightarrow> Inr (Ack (take 4 (drop 6 b))))"

definition parseKey :: "byte list \<Rightarrow> hbp_error + message" where
  "parseKey b = (case exactLen b 40 of Some e \<Rightarrow> Inl e
                 | None \<Rightarrow> Inr (Key (getID (drop 4 b)) (take 32 (drop 8 b))))"

definition parsePing :: "byte list \<Rightarrow> hbp_error + message" where
  "parsePing b = (case exactLen b 11 of Some e \<Rightarrow> Inl e | None \<Rightarrow> Inr (Ping (getID (drop 7 b))))"

definition parsePong :: "byte list \<Rightarrow> hbp_error + message" where
  "parsePong b = (case exactLen b 11 of Some e \<Rightarrow> Inl e | None \<Rightarrow> Inr (Pong (getID (drop 7 b))))"

definition parseGatewayPong :: "byte list \<Rightarrow> hbp_error + message" where
  "parseGatewayPong b = (case exactLen b 4 of Some e \<Rightarrow> Inl e | None \<Rightarrow> Inr GatewayPong)"

definition parseNak :: "byte list \<Rightarrow> hbp_error + message" where
  "parseNak b = map_sum (\<lambda>e. e) Nak (parseIDMessage b ''MSTNAK'' 10)"

definition parseMasterAck :: "byte list \<Rightarrow> hbp_error + message" where
  "parseMasterAck b = map_sum (\<lambda>e. e) MasterAck (parseIDMessage b ''MSTACK'' 10)"

definition parseMasterClose :: "byte list \<Rightarrow> hbp_error + message" where
  "parseMasterClose b = map_sum (\<lambda>e. e) MasterClose (parseIDMessage b ''MSTCL'' 9)"

definition parseRepeaterClose :: "byte list \<Rightarrow> hbp_error + message" where
  "parseRepeaterClose b = map_sum (\<lambda>e. e) RepeaterClose (parseIDMessage b ''RPTCL'' 9)"

definition parseMasterPing :: "byte list \<Rightarrow> hbp_error + message" where
  "parseMasterPing b = map_sum (\<lambda>e. e) MasterPing (parseIDMessage b ''MSTPING'' 11)"

definition parseRepeaterPong :: "byte list \<Rightarrow> hbp_error + message" where
  "parseRepeaterPong b = map_sum (\<lambda>e. e) RepeaterPong (parseIDMessage b ''RPTPONG'' 11)"

section \<open>alias.go\<close>

definition TalkerAlias_AppendTo :: "RepeaterID \<Rightarrow> byte list \<Rightarrow> byte list" where
  [simp]: "TalkerAlias_AppendTo rid r = bytes_of ''DMRA'' @ putID rid @ r"

definition parseTalkerAlias :: "byte list \<Rightarrow> hbp_error + message" where
  "parseTalkerAlias b =
     (if length b < 8 then Inl ErrShort
      else if length b > 64 then Inl ErrTrailingBytes
      else Inr (TalkerAlias (getID (drop 4 b)) (drop 8 b)))"

section \<open>config.go: fixed-width text\<close>

definition padTo :: "string \<Rightarrow> nat \<Rightarrow> byte list" where
  "padTo s n = (if length s > n then bytes_of (take n s)
                else bytes_of s @ replicate (n - length s) 0x20)"

text \<open>The \<open>fields\<close> walker: \<open>next(n)\<close> for each width in turn, with the offset it ends at.\<close>

fun read_fields :: "byte list \<Rightarrow> nat \<Rightarrow> nat list \<Rightarrow> string list \<times> nat" where
  "read_fields buf off [] = ([], off)"
| "read_fields buf off (n # ns) =
     (case read_fields buf (off + n) ns of
        (ss, off') \<Rightarrow> (TrimRight CHR '' '' (string_of (take n (drop off buf))) # ss, off'))"

definition config_widths :: "nat list" where
  "config_widths = [8, 9, 9, 2, 2, 8, 9, 3, 20, 19, 1, 124, 40, 40]"

definition gateway_widths :: "nat list" where
  "gateway_widths = [8, 9, 9, 2, 2, 1, 40, 40]"

definition config_fields :: "hbp_config \<Rightarrow> string list" where
  "config_fields c = [c_Callsign c, c_RXFreq c, c_TXFreq c, c_TXPower c, c_ColorCode c, c_Latitude c,
     c_Longitude c, c_Height c, c_Location c, c_Description c, c_Slots c, c_URL c, c_SoftwareID c,
     c_PackageID c]"

definition gateway_fields :: "hbp_gateway_config \<Rightarrow> string list" where
  "gateway_fields g = [g_Callsign g, g_RXFreq g, g_TXFreq g, g_TXPower g, g_ColorCode g, g_Slots g,
     g_SoftwareID g, g_PackageID g]"

definition config_of :: "RepeaterID \<Rightarrow> string list \<Rightarrow> hbp_config" where
  "config_of rid f = \<lparr>c_RepeaterID = rid, c_Callsign = f ! 0, c_RXFreq = f ! 1, c_TXFreq = f ! 2,
     c_TXPower = f ! 3, c_ColorCode = f ! 4, c_Latitude = f ! 5, c_Longitude = f ! 6, c_Height = f ! 7,
     c_Location = f ! 8, c_Description = f ! 9, c_Slots = f ! 10, c_URL = f ! 11,
     c_SoftwareID = f ! 12, c_PackageID = f ! 13\<rparr>"

definition gateway_of :: "RepeaterID \<Rightarrow> string list \<Rightarrow> hbp_gateway_config" where
  "gateway_of rid f = \<lparr>g_RepeaterID = rid, g_Callsign = f ! 0, g_RXFreq = f ! 1, g_TXFreq = f ! 2,
     g_TXPower = f ! 3, g_ColorCode = f ! 4, g_Slots = f ! 5, g_SoftwareID = f ! 6, g_PackageID = f ! 7\<rparr>"

definition pad_fields :: "string list \<Rightarrow> nat list \<Rightarrow> byte list" where
  "pad_fields ss ns = concat (map2 padTo ss ns)"

definition Config_AppendTo :: "hbp_config \<Rightarrow> byte list" where
  "Config_AppendTo c = bytes_of ''RPTC'' @ putID (c_RepeaterID c) @ pad_fields (config_fields c) config_widths"

definition GatewayConfig_AppendTo :: "hbp_gateway_config \<Rightarrow> byte list" where
  "GatewayConfig_AppendTo g =
     bytes_of ''DMRC'' @ putID (g_RepeaterID g) @ pad_fields (gateway_fields g) gateway_widths"

definition parseConfig :: "byte list \<Rightarrow> hbp_error + message" where
  "parseConfig b =
     (case exactLen b 302 of
        Some e \<Rightarrow> Inl e
      | None \<Rightarrow> (case read_fields b 8 config_widths of
          (f, off) \<Rightarrow> if off \<noteq> 302 then Inl ErrFieldWidths
                      else Inr (Config (config_of (getID (drop 4 b)) f))))"

definition parseGatewayConfig :: "byte list \<Rightarrow> hbp_error + message" where
  "parseGatewayConfig b =
     (case exactLen b 119 of
        Some e \<Rightarrow> Inl e
      | None \<Rightarrow> (case read_fields b 8 gateway_widths of
          (f, off) \<Rightarrow> if off \<noteq> 119 then Inl ErrFieldWidths
                      else Inr (GatewayConfig (gateway_of (getID (drop 4 b)) f))))"

section \<open>data.go\<close>

definition flags :: "hbp_data \<Rightarrow> byte" where
  "flags m = (if d_Timeslot m = Timeslot2 then 0x80 else 0) OR
             (if d_CallType m = CallPrivate then 0x40 else 0) OR
             push_bit 4 (d_FrameType m AND 0x03) OR (d_DataType m AND 0x0F)"

definition Data_AppendTo :: "hbp_data \<Rightarrow> byte list" where
  "Data_AppendTo m = bytes_of ''DMRD'' @ [d_Sequence m] @ put24 (d_SourceID m) @ put24 (d_TargetID m) @
     putID (d_RepeaterID m) @ [flags m] @ put32 (d_StreamID m) @ d_Payload m @ d_Trailing m"

definition parseData :: "byte list \<Rightarrow> hbp_error + message" where
  "parseData b =
     (if length b < 53 then Inl ErrShort
      else if length b - 53 > 8 then Inl ErrTrailingBytes
      else let fl = b ! 15 in
        Inr (Data \<lparr>d_Sequence = b ! 4, d_SourceID = get24 (drop 5 b), d_TargetID = get24 (drop 8 b),
          d_RepeaterID = getID (drop 11 b),
          d_Timeslot = (if fl AND 0x80 \<noteq> 0 then Timeslot2 else Timeslot1),
          d_CallType = (if fl AND 0x40 \<noteq> 0 then CallPrivate else CallGroup),
          d_FrameType = drop_bit 4 fl AND 0x03, d_DataType = fl AND 0x0F,
          d_StreamID = get32 (drop 16 b), d_Payload = take 33 (drop 20 b),
          d_Trailing = drop 53 b\<rparr>))"

definition IsUserData :: "hbp_data \<Rightarrow> bool" where
  "IsUserData m = (if d_FrameType m \<noteq> FrameTypeSync then False
     else d_DataType m \<noteq> DataTypeVoiceLCHeader \<and> d_DataType m \<noteq> DataTypeTerminator)"

definition IsTerminator :: "hbp_data \<Rightarrow> bool" where
  "IsTerminator m \<longleftrightarrow> d_FrameType m = FrameTypeSync \<and> d_DataType m = DataTypeTerminator"

section \<open>identity.go\<close>

definition plausiblePosition :: "float64 \<Rightarrow> float64 \<Rightarrow> bool" where
  "plausiblePosition lat lon =
     (case (lat, lon) of
        (Fin m k, Fin m' k') \<Rightarrow>
          \<not> (m < - 90 * 2 ^ k \<or> m > 90 * 2 ^ k \<or> m' < - 180 * 2 ^ k' \<or> m' > 180 * 2 ^ k') \<and>
          (m \<noteq> 0 \<or> m' \<noteq> 0)
      | _ \<Rightarrow> False)"

definition Identity_AppendTo :: "json \<Rightarrow> hbp_identity \<Rightarrow> byte list" where
  "Identity_AppendTo j i =
     (let located = i_Located i \<and> plausiblePosition (i_Latitude i) (i_Longitude i);
          payload = \<lparr>ip_Network = TrimSpace (i_Network i), ip_Callsign = TrimSpace (i_Callsign i),
            ip_Software = TrimSpace (i_Software i), ip_Description = TrimSpace (i_Description i),
            ip_ServerID = TrimSpace (i_ServerID i), ip_Location = TrimSpace (i_Location i),
            ip_Latitude = (if located then Some (i_Latitude i) else None),
            ip_Longitude = (if located then Some (i_Longitude i) else None)\<rparr>;
          body = (case json_Marshal j payload of Some b \<Rightarrow> b | None \<Rightarrow> bytes_of ''{}'')
      in bytes_of ''QSPI'' @ put32 (i_RepeaterID i) @ body)"

definition zero_identity :: hbp_identity where
  "zero_identity = \<lparr>i_RepeaterID = 0, i_Network = [], i_Callsign = [], i_Software = [],
     i_Description = [], i_ServerID = [], i_Location = [], i_Latitude = Fin 0 0, i_Longitude = Fin 0 0,
     i_Located = False\<rparr>"

definition parseIdentity :: "json \<Rightarrow> byte list \<Rightarrow> hbp_error + message" where
  "parseIdentity j b =
     (if length b < 8 then Inl ErrShort
      else let body = drop 8 b; out = zero_identity\<lparr>i_RepeaterID := get32 (drop 4 b)\<rparr> in
        if length body > 4096 then Inl ErrFieldFormat
        else if body = [] then Inr (Identity out)
        else case json_Unmarshal j body of
            None \<Rightarrow> Inl ErrFieldFormat
          | Some p \<Rightarrow>
              let out = out\<lparr>i_Network := ip_Network p, i_Callsign := ip_Callsign p,
                i_Software := ip_Software p, i_Description := ip_Description p,
                i_ServerID := ip_ServerID p, i_Location := ip_Location p\<rparr>
              in Inr (Identity (case (ip_Latitude p, ip_Longitude p) of
                   (Some lat, Some lon) \<Rightarrow>
                     if plausiblePosition lat lon
                     then out\<lparr>i_Latitude := lat, i_Longitude := lon, i_Located := True\<rparr> else out
                 | _ \<Rightarrow> out)))"

section \<open>auth.go\<close>

text \<open>\<open>crypto/sha256\<close> is the argument \<open>sha256\<close>.\<close>

definition Digest :: "(byte list \<Rightarrow> byte list) \<Rightarrow> byte list \<Rightarrow> byte list \<Rightarrow> byte list" where
  "Digest sha256 salt password = sha256 (salt @ password)"

definition VerifyDigest ::
  "(byte list \<Rightarrow> byte list) \<Rightarrow> byte list \<Rightarrow> byte list \<Rightarrow> byte list \<Rightarrow> bool" where
  "VerifyDigest sha256 salt password got \<longleftrightarrow> Digest sha256 salt password = got"

section \<open>Parse and Marshal\<close>

definition Parse :: "json \<Rightarrow> byte list \<Rightarrow> hbp_error + message" where
  "Parse j b =
     (if length b < 4 then Inl ErrShort
      else if \<exists>u \<in> set uncapturedTags. hasTag b u then Inl ErrNotCaptured
      else if hasTag b ''RPTPING'' then parsePing b
      else if hasTag b ''MSTPONG'' then parsePong b
      else if hasTag b ''RPTPONG'' then parseRepeaterPong b
      else if hasTag b ''MSTPING'' then parseMasterPing b
      else if hasTag b ''MSTNAK'' then parseNak b
      else if hasTag b ''MSTACK'' then parseMasterAck b
      else if hasTag b ''MSTCL'' then parseMasterClose b
      else if hasTag b ''RPTCL'' then parseRepeaterClose b
      else if hasTag b ''RPTACK'' then parseAck b
      else if hasTag b ''RPTL'' then parseLogin b
      else if hasTag b ''RPTK'' then parseKey b
      else if hasTag b ''RPTC'' then parseConfig b
      else if hasTag b ''QSPI'' then parseIdentity j b
      else if hasTag b ''DMRD'' then parseData b
      else if hasTag b ''DMRA'' then parseTalkerAlias b
      else if hasTag b ''DMRC'' then parseGatewayConfig b
      else if hasTag b ''DMRP'' then parseGatewayPong b
      else Inl ErrUnknownKind)"

definition Marshal :: "json \<Rightarrow> message \<Rightarrow> byte list" where
  "Marshal j m = (case m of
      Login rid \<Rightarrow> Login_AppendTo rid
    | Ack p \<Rightarrow> Ack_AppendTo p
    | Key rid d \<Rightarrow> Key_AppendTo rid d
    | Config c \<Rightarrow> Config_AppendTo c
    | Ping rid \<Rightarrow> Ping_AppendTo rid
    | Pong rid \<Rightarrow> Pong_AppendTo rid
    | Data d \<Rightarrow> Data_AppendTo d
    | GatewayConfig g \<Rightarrow> GatewayConfig_AppendTo g
    | GatewayPong \<Rightarrow> GatewayPong_AppendTo
    | Identity i \<Rightarrow> Identity_AppendTo j i
    | Nak rid \<Rightarrow> Nak_AppendTo rid
    | MasterAck rid \<Rightarrow> MasterAck_AppendTo rid
    | MasterClose rid \<Rightarrow> MasterClose_AppendTo rid
    | RepeaterClose rid \<Rightarrow> RepeaterClose_AppendTo rid
    | MasterPing rid \<Rightarrow> MasterPing_AppendTo rid
    | RepeaterPong rid \<Rightarrow> RepeaterPong_AppendTo rid
    | TalkerAlias rid r \<Rightarrow> TalkerAlias_AppendTo rid r)"

section \<open>Tags\<close>

lemma bytes_of_inj [simp]: "bytes_of s = bytes_of t \<longleftrightarrow> s = t"
  by (metis string_of_bytes_of)

lemma take_bytes_of [simp]: "take n (bytes_of s) = bytes_of (take n s)"
  by (simp add: bytes_of_def take_map)

lemma hasTag_short [simp]:
  "length t' \<le> length t \<Longrightarrow> hasTag (bytes_of t @ r) t' \<longleftrightarrow> take (length t') t = t'"
  by (auto simp: hasTag_def)

lemma hasTag_long [simp]:
  assumes "length t < length t'"
  shows "hasTag (bytes_of t @ r) t' \<longleftrightarrow> take (length t) t' = t \<and> hasTag r (drop (length t) t')"
proof -
  have "bytes_of t' = bytes_of (take (length t) t') @ bytes_of (drop (length t) t')"
    by (metis append_take_drop_id bytes_of_append)
  then show ?thesis
    using assms by (auto simp: hasTag_def)
qed

lemma hasTag_only [simp]: "hasTag (bytes_of t) t' \<longleftrightarrow> length t' \<le> length t \<and> take (length t') t = t'"
  by (auto simp: hasTag_def)

lemma hasTag_split: "hasTag b t \<Longrightarrow> b = bytes_of t @ drop (length t) b"
  by (metis append_take_drop_id hasTag_def)

lemma getID_putID [simp]: "getID (putID rid @ b) = rid" "getID (putID rid) = rid"
  using get32_put32 [of rid "[]"] by (simp_all add: getID_def putID_def)

lemma length_putID [simp]: "length (putID rid) = 4"
  by (simp add: putID_def)

lemma get32_take: "4 \<le> n \<Longrightarrow> get32 (take n b) = get32 b"
  by (simp add: get32_def)

lemma get24_take: "3 \<le> n \<Longrightarrow> get24 (take n b) = get24 b"
  by (simp add: get24_def)

lemma putID_getID: "4 \<le> length b \<Longrightarrow> putID (getID b) = take 4 b"
  using put32_get32 [of "take 4 b"] by (simp add: putID_def getID_def get32_take)

lemma put32_get32_take: "4 \<le> length b \<Longrightarrow> put32 (get32 b) = take 4 b"
  using put32_get32 [of "take 4 b"] by (simp add: get32_take)

lemma put24_get24_take: "3 \<le> length b \<Longrightarrow> put24 (get24 b) = take 3 b"
  using put24_get24 [of "take 3 b"] by (simp add: get24_take)

lemma exactLen_None [simp]: "exactLen b n = None \<longleftrightarrow> length b = n"
  by (auto simp: exactLen_def)

lemma exactLen_eq [simp]: "length b = n \<Longrightarrow> exactLen b n = None"
  by simp

section \<open>Fixed-width fields\<close>

definition field_ok :: "string \<Rightarrow> nat \<Rightarrow> bool" where
  "field_ok s n \<longleftrightarrow> length s \<le> n \<and> (s = [] \<or> last s \<noteq> CHR '' '')"

definition fields_ok :: "string list \<Rightarrow> nat list \<Rightarrow> bool" where
  "fields_ok ss ns \<longleftrightarrow> list_all2 field_ok ss ns"

lemma length_padTo [simp]: "length (padTo s n) = n"
  by (simp add: padTo_def)

lemma TrimRight_pad: "s = [] \<or> last s \<noteq> c \<Longrightarrow> TrimRight c (s @ replicate k c) = s"
  by (cases s rule: rev_cases) (auto simp: TrimRight_def dropWhile_append)

lemma space_byte: "char_of (32 :: nat) = CHR '' ''"
  by (simp add: char_of_def bit_0)

lemma TrimRight_padTo: "field_ok s n \<Longrightarrow> TrimRight CHR '' '' (string_of (padTo s n)) = s"
  using TrimRight_pad [of s "CHR '' ''" "n - length s"]
  by (simp add: padTo_def field_ok_def string_of_def space_byte bytes_of_def comp_def unat_of_nat)

lemma TrimRight_ok: "length s = n \<Longrightarrow> field_ok (TrimRight c s) n" if "c = CHR '' ''"
proof -
  assume "length s = n"
  moreover have "length (TrimRight c s) \<le> length s"
    using length_dropWhile_le [of "\<lambda>x. x = c" "rev s"] by (simp add: TrimRight_def)
  moreover have "TrimRight c s = [] \<or> last (TrimRight c s) \<noteq> c"
    using hd_dropWhile [of "\<lambda>x. x = c" "rev s"] by (auto simp: TrimRight_def last_rev)
  ultimately show ?thesis using that by (simp add: field_ok_def)
qed

lemma TrimRight_split: "\<exists>k. s = TrimRight c s @ replicate k c"
proof -
  have "rev s = takeWhile (\<lambda>x. x = c) (rev s) @ dropWhile (\<lambda>x. x = c) (rev s)" by simp
  moreover have "takeWhile (\<lambda>x. x = c) (rev s) = replicate (length (takeWhile (\<lambda>x. x = c) (rev s))) c"
    by (metis (full_types) replicate_length_same set_takeWhileD)
  ultimately have "s = TrimRight c s @ replicate (length (takeWhile (\<lambda>x. x = c) (rev s))) c"
    by (metis TrimRight_def rev_append rev_replicate rev_swap)
  then show ?thesis by blast
qed

lemma bytes_of_spaces: "bytes_of (replicate k CHR '' '') = replicate k 0x20"
  by (simp add: bytes_of_def)

lemma padTo_TrimRight:
  assumes "length b = n"
  shows "padTo (TrimRight CHR '' '' (string_of b)) n = b"
proof -
  obtain k where k: "string_of b = TrimRight CHR '' '' (string_of b) @ replicate k CHR '' ''"
    using TrimRight_split by blast
  then have "length b = length (TrimRight CHR '' '' (string_of b)) + k"
    by (metis length_append length_replicate length_string_of)
  moreover have "b = bytes_of (TrimRight CHR '' '' (string_of b)) @ replicate k 0x20"
    by (metis k bytes_of_append bytes_of_spaces bytes_of_string_of)
  ultimately show ?thesis using assms by (auto simp: padTo_def)
qed

lemma length_pad_fields: "length ss = length ns \<Longrightarrow> length (pad_fields ss ns) = sum_list ns"
  by (induction ss ns rule: list_induct2) (auto simp: pad_fields_def)

lemma read_pad_fields:
  assumes "fields_ok ss ns" "drop off buf = pad_fields ss ns @ r"
  shows "read_fields buf off ns = (ss, off + sum_list ns)"
  using assms
proof (induction ns arbitrary: ss off)
  case Nil
  then show ?case by (simp add: fields_ok_def)
next
  case (Cons n ns)
  then obtain s ss' where ss: "ss = s # ss'" "field_ok s n" "fields_ok ss' ns"
    by (auto simp: fields_ok_def list_all2_Cons2)
  have buf: "drop off buf = padTo s n @ pad_fields ss' ns @ r"
    using Cons.prems(2) ss(1) by (simp add: pad_fields_def)
  then have "drop (off + n) buf = pad_fields ss' ns @ r"
    by (metis add.commute append_eq_conv_conj drop_drop length_padTo)
  then have "read_fields buf (off + n) ns = (ss', off + n + sum_list ns)"
    using Cons.IH ss(3) by blast
  then show ?case using ss buf by (simp add: TrimRight_padTo)
qed

lemma read_fields_inverse:
  assumes "off + sum_list ns \<le> length buf"
  shows "read_fields buf off ns = (ss, off') \<Longrightarrow>
    fields_ok ss ns \<and> pad_fields ss ns = take (sum_list ns) (drop off buf) \<and> off' = off + sum_list ns"
  using assms
proof (induction ns arbitrary: ss off)
  case Nil
  then show ?case by (simp add: fields_ok_def pad_fields_def)
next
  case (Cons n ns)
  obtain ss' where rest: "read_fields buf (off + n) ns = (ss', off')"
    and ss: "ss = TrimRight CHR '' '' (string_of (take n (drop off buf))) # ss'"
    using Cons.prems(1) by (auto split: prod.splits)
  have IH: "fields_ok ss' ns \<and> pad_fields ss' ns = take (sum_list ns) (drop (off + n) buf) \<and>
      off' = off + n + sum_list ns"
    using Cons.IH [OF rest] Cons.prems(2) by simp
  have len: "length (take n (drop off buf)) = n" using Cons.prems(2) by simp
  have "pad_fields ss (n # ns) = take n (drop off buf) @ take (sum_list ns) (drop (off + n) buf)"
    using IH ss padTo_TrimRight [OF len] by (simp add: pad_fields_def)
  also have "\<dots> = take (n + sum_list ns) (drop off buf)"
    by (simp add: take_add add.commute)
  finally have pf: "pad_fields ss (n # ns) = take (n + sum_list ns) (drop off buf)" .
  have "field_ok (TrimRight CHR '' '' (string_of (take n (drop off buf)))) n"
    by (rule TrimRight_ok) (use len in auto)
  then have "fields_ok ss (n # ns)" using IH ss by (simp add: fields_ok_def)
  then show ?case using IH pf by simp
qed


section \<open>Round trips\<close>

definition wf_data :: "hbp_data \<Rightarrow> bool" where
  "wf_data d \<longleftrightarrow> d_SourceID d < 0x1000000 \<and> d_TargetID d < 0x1000000 \<and>
     (d_Timeslot d = Timeslot1 \<or> d_Timeslot d = Timeslot2) \<and>
     (d_CallType d = CallGroup \<or> d_CallType d = CallPrivate) \<and>
     d_FrameType d < 4 \<and> d_DataType d < 16 \<and> length (d_Payload d) = 33 \<and> length (d_Trailing d) \<le> 8"

text \<open>The first octet of a repeater ID as it follows the tag; \<open>0x4C\<close> is the letter L.\<close>

definition first_octet :: "RepeaterID \<Rightarrow> byte" where
  "first_octet rid = ucast (drop_bit 24 rid)"

definition wf_message :: "message \<Rightarrow> bool" where
  "wf_message m = (case m of
      Ack p \<Rightarrow> length p = 4
    | Key rid d \<Rightarrow> length d = 32
    | Config c \<Rightarrow> fields_ok (config_fields c) config_widths \<and> first_octet (c_RepeaterID c) \<noteq> 0x4C
    | GatewayConfig g \<Rightarrow> fields_ok (gateway_fields g) gateway_widths
    | Data d \<Rightarrow> wf_data d
    | Identity i \<Rightarrow> False
    | TalkerAlias rid r \<Rightarrow> length r \<le> 56
    | _ \<Rightarrow> True)"

definition not_identity :: "message \<Rightarrow> bool" where
  "not_identity m = (case m of Identity i \<Rightarrow> False | _ \<Rightarrow> True)"

lemma config_of_fields [simp]: "config_of (c_RepeaterID c) (config_fields c) = c"
  by (simp add: config_of_def config_fields_def)

lemma gateway_of_fields [simp]: "gateway_of (g_RepeaterID g) (gateway_fields g) = g"
  by (simp add: gateway_of_def gateway_fields_def)

lemma sum_config_widths [simp]: "sum_list config_widths = 294" "sum_list gateway_widths = 111"
  by (simp_all add: config_widths_def gateway_widths_def)

lemma length_config_fields [simp]:
  "length (config_fields c) = length config_widths" "length (gateway_fields g) = length gateway_widths"
  by (simp_all add: config_fields_def config_widths_def gateway_fields_def gateway_widths_def)

lemma length_nth_list14: "length f = 14 \<Longrightarrow>
  f = [f ! 0, f ! 1, f ! 2, f ! 3, f ! 4, f ! 5, f ! 6, f ! 7, f ! 8, f ! 9, f ! 10, f ! 11, f ! 12, f ! 13]"
  by (rule nth_equalityI) (auto simp: less_Suc_eq eval_nat_numeral)

lemma length_nth_list8: "length f = 8 \<Longrightarrow>
  f = [f ! 0, f ! 1, f ! 2, f ! 3, f ! 4, f ! 5, f ! 6, f ! 7]"
  by (rule nth_equalityI) (auto simp: less_Suc_eq eval_nat_numeral)

lemma config_fields_of [simp]:
  "length f = 14 \<Longrightarrow> config_fields (config_of rid f) = f" "c_RepeaterID (config_of rid f) = rid"
  using length_nth_list14 [of f] by (simp_all add: config_fields_def config_of_def)

lemma gateway_fields_of [simp]:
  "length f = 8 \<Longrightarrow> gateway_fields (gateway_of rid f) = f" "g_RepeaterID (gateway_of rid f) = rid"
  using length_nth_list8 [of f] by (simp_all add: gateway_fields_def gateway_of_def)

lemma parseConfig_AppendTo:
  assumes "fields_ok (config_fields c) config_widths"
  shows "parseConfig (Config_AppendTo c) = Inr (Config c)"
proof -
  let ?b = "Config_AppendTo c"
  have len: "length ?b = 302"
    by (simp add: Config_AppendTo_def length_pad_fields)
  have "drop 8 ?b = pad_fields (config_fields c) config_widths @ []"
    by (simp add: Config_AppendTo_def)
  from read_pad_fields [OF assms this] len show ?thesis
    by (simp add: parseConfig_def) (simp add: Config_AppendTo_def)
qed

lemma parseGatewayConfig_AppendTo:
  assumes "fields_ok (gateway_fields g) gateway_widths"
  shows "parseGatewayConfig (GatewayConfig_AppendTo g) = Inr (GatewayConfig g)"
proof -
  let ?b = "GatewayConfig_AppendTo g"
  have len: "length ?b = 119"
    by (simp add: GatewayConfig_AppendTo_def length_pad_fields)
  have "drop 8 ?b = pad_fields (gateway_fields g) gateway_widths @ []"
    by (simp add: GatewayConfig_AppendTo_def)
  from read_pad_fields [OF assms this] len show ?thesis
    by (simp add: parseGatewayConfig_def) (simp add: GatewayConfig_AppendTo_def)
qed

lemma take_bit_24_id: "w < 0x1000000 \<Longrightarrow> take_bit 24 (w :: u32) = w"
  using less_mask_eq [of w 24] by (simp add: take_bit_eq_mask)

lemma small_field:
  fixes x :: byte
  shows "x < 16 \<longleftrightarrow> x AND 0x0F = x" "x < 4 \<longleftrightarrow> x AND 0x03 = x"
proof -
  have "x AND 0x0F = take_bit 4 x" "x AND 0x03 = take_bit 2 x"
    by (simp_all add: take_bit_eq_mask mask_eq_decr_exp)
  moreover have "unat (16 :: byte) = 16" "unat (4 :: byte) = 4" by simp_all
  ultimately show "x < 16 \<longleftrightarrow> x AND 0x0F = x" "x < 4 \<longleftrightarrow> x AND 0x03 = x"
    by (simp_all add: word_less_nat_alt word_unat_eq_iff take_bit_eq_mod unat_mod
        mod_eq_self_iff_div_eq_0 div_eq_0_iff)
qed

lemma flag_bits:
  fixes fl :: byte
  shows "fl AND 0x80 = 0 \<longleftrightarrow> \<not> bit fl 7" "fl AND 0x40 = 0 \<longleftrightarrow> \<not> bit fl 6"
  using and_exp_eq_0_iff_not_bit [of fl 7] and_exp_eq_0_iff_not_bit [of fl 6] by simp_all

lemma byte_eqI: "(\<And>n. n \<in> {0, 1, 2, 3, 4, 5, 6, 7} \<Longrightarrow> bit x n = bit y n) \<Longrightarrow> x = (y :: byte)"
  by (rule bit_word_eqI) (auto simp: less_Suc_eq eval_nat_numeral)

lemma flag_bit [simp]: "bit (0x80 :: byte) n \<longleftrightarrow> n = 7" "bit (0x40 :: byte) n \<longleftrightarrow> n = 6"
  "bit (0x0F :: byte) n \<longleftrightarrow> n < 4" "bit (0x03 :: byte) n \<longleftrightarrow> n < 2"
  using bit_exp_iff [of 7 n, where ?'a = byte] bit_exp_iff [of 6 n, where ?'a = byte]
    bit_mask_iff [of 4 n, where ?'a = byte] bit_mask_iff [of 2 n, where ?'a = byte]
  by (auto simp: mask_eq_decr_exp possible_bit_def)

lemma not_bit_0_byte: "\<not> bit (0 :: byte) n"
  by simp

lemma flags_decode:
  assumes "wf_data d"
  shows "flags d AND 0x80 \<noteq> 0 \<longleftrightarrow> d_Timeslot d = Timeslot2"
    "flags d AND 0x40 \<noteq> 0 \<longleftrightarrow> d_CallType d = CallPrivate"
    "drop_bit 4 (flags d) AND 0x03 = d_FrameType d" "flags d AND 0x0F = d_DataType d"
proof -
  have f: "bit (d_FrameType d) n \<Longrightarrow> n < 2" and t: "bit (d_DataType d) n \<Longrightarrow> n < 4" for n
    using assms small_field(2) [of "d_FrameType d"] small_field(1) [of "d_DataType d"]
    by (metis wf_data_def bit_and_iff flag_bit)+
  have b: "bit (flags d) n \<longleftrightarrow> n = 7 \<and> d_Timeslot d = Timeslot2 \<or> n = 6 \<and> d_CallType d = CallPrivate \<or>
      4 \<le> n \<and> n < 6 \<and> bit (d_FrameType d) (n - 4) \<or> n < 4 \<and> bit (d_DataType d) n" for n
  proof -
    have "bit (push_bit 4 (d_FrameType d AND 0x03)) n \<longleftrightarrow> 4 \<le> n \<and> n < 6 \<and> bit (d_FrameType d) (n - 4)"
      by (simp only: bit_push_bit_iff bit_and_iff flag_bit) (auto simp: possible_bit_def)
    moreover have "bit (if P then 0x80 else (0 :: byte)) n \<longleftrightarrow> n = 7 \<and> P"
      "bit (if P then 0x40 else (0 :: byte)) n \<longleftrightarrow> n = 6 \<and> P" for P
      using flag_bit(1,2) [of n] not_bit_0_byte [of n] by presburger+
    ultimately show ?thesis
      unfolding flags_def bit_or_iff by (simp only: bit_and_iff flag_bit) blast
  qed
  show "flags d AND 0x80 \<noteq> 0 \<longleftrightarrow> d_Timeslot d = Timeslot2"
    "flags d AND 0x40 \<noteq> 0 \<longleftrightarrow> d_CallType d = CallPrivate"
    by (simp_all add: flag_bits b)
  show "drop_bit 4 (flags d) AND 0x03 = d_FrameType d"
    by (rule bit_word_eqI, simp only: bit_and_iff bit_drop_bit_eq flag_bit comp_def b) (use f in auto)
  show "flags d AND 0x0F = d_DataType d"
    by (rule bit_word_eqI, simp only: bit_and_iff flag_bit b) (use t in auto)
qed

lemma flags_encode:
  assumes "d_Timeslot d = (if fl AND 0x80 \<noteq> 0 then Timeslot2 else Timeslot1)"
    "d_CallType d = (if fl AND 0x40 \<noteq> 0 then CallPrivate else CallGroup)"
    "d_FrameType d = drop_bit 4 fl AND 0x03" "d_DataType d = fl AND 0x0F"
  shows "flags d = fl"
proof (rule byte_eqI)
  fix n :: nat assume "n \<in> {0, 1, 2, 3, 4, 5, 6, 7}"
  then show "bit (flags d) n = bit fl n"
    by (auto simp: flags_def assms flag_bits bit_or_iff bit_and_iff bit_push_bit_iff bit_drop_bit_eq
        possible_bit_def)
qed

lemma Data_AppendTo_fields:
  assumes "wf_data d"
  shows "length (Data_AppendTo d) = 53 + length (d_Trailing d)"
    "Data_AppendTo d ! 4 = d_Sequence d" "Data_AppendTo d ! 15 = flags d"
    "get24 (drop 5 (Data_AppendTo d)) = d_SourceID d" "get24 (drop 8 (Data_AppendTo d)) = d_TargetID d"
    "getID (drop 11 (Data_AppendTo d)) = d_RepeaterID d"
    "get32 (drop 16 (Data_AppendTo d)) = d_StreamID d"
    "take 33 (drop 20 (Data_AppendTo d)) = d_Payload d" "drop 53 (Data_AppendTo d) = d_Trailing d"
  using assms
  by (simp_all add: Data_AppendTo_def wf_data_def get24_put24 take_bit_24_id nth_append bytes_of_def)

lemma parseData_AppendTo: "wf_data d \<Longrightarrow> parseData (Data_AppendTo d) = Inr (Data d)"
  using Data_AppendTo_fields [of d] flags_decode [of d]
  by (auto simp: parseData_def Let_def wf_data_def)

lemma small_get24: "get24 b < 0x1000000"
proof -
  have "take_bit 24 (get24 b) = get24 b"
    by (rule bit_word_eqI) (auto simp: get24_def bit_simps)
  then have "unat (get24 b) mod 0x1000000 = unat (get24 b)"
    by (simp add: take_bit_eq_mod word_unat_eq_iff unat_mod)
  then show ?thesis
    by (simp add: word_less_nat_alt mod_eq_self_iff_div_eq_0 div_eq_0_iff)
qed

lemma parseData_inverse:
  assumes "parseData b = Inr m" "hasTag b ''DMRD''"
  shows "\<exists>d. m = Data d \<and> wf_data d \<and> Data_AppendTo d = b"
proof -
  obtain d where md: "m = Data d"
    using assms(1) by (auto simp: parseData_def Let_def split: if_splits)
  have d: "53 \<le> length b" "length b \<le> 61"
    and fields: "d_Sequence d = b ! 4" "d_SourceID d = get24 (drop 5 b)" "d_TargetID d = get24 (drop 8 b)"
      "d_RepeaterID d = getID (drop 11 b)" "d_StreamID d = get32 (drop 16 b)"
      "d_Payload d = take 33 (drop 20 b)" "d_Trailing d = drop 53 b"
    and fl: "d_Timeslot d = (if b ! 15 AND 0x80 \<noteq> 0 then Timeslot2 else Timeslot1)"
      "d_CallType d = (if b ! 15 AND 0x40 \<noteq> 0 then CallPrivate else CallGroup)"
      "d_FrameType d = drop_bit 4 (b ! 15) AND 0x03" "d_DataType d = b ! 15 AND 0x0F"
    using assms(1) md by (auto simp: parseData_def Let_def split: if_splits)
  have "wf_data d"
    using d fl by (auto simp: wf_data_def fields small_get24 small_field and.assoc)
  moreover have "Data_AppendTo d = b"
  proof -
    have "Data_AppendTo d = bytes_of ''DMRD'' @ [b ! 4] @ take 3 (drop 5 b) @ take 3 (drop 8 b) @
        take 4 (drop 11 b) @ [b ! 15] @ take 4 (drop 16 b) @ take 33 (drop 20 b) @ drop 53 b"
      using d by (simp add: Data_AppendTo_def fields flags_encode [OF fl] put24_get24_take putID_getID
          put32_get32_take)
    also have "\<dots> = take 4 b @ take 1 (drop 4 b) @ take 3 (drop 5 b) @ take 3 (drop 8 b) @
        take 4 (drop 11 b) @ take 1 (drop 15 b) @ take 4 (drop 16 b) @ take 33 (drop 20 b) @ drop 53 b"
      using d assms(2) by (simp add: take_Suc hd_drop_conv_nth hasTag_def eval_nat_numeral)
    also have "\<dots> = b"
      using append_take_drop_id [of 4 b] append_take_drop_id [of 1 "drop 4 b"]
        append_take_drop_id [of 3 "drop 5 b"] append_take_drop_id [of 3 "drop 8 b"]
        append_take_drop_id [of 4 "drop 11 b"] append_take_drop_id [of 1 "drop 15 b"]
        append_take_drop_id [of 4 "drop 16 b"] append_take_drop_id [of 33 "drop 20 b"]
      by simp
    finally show ?thesis .
  qed
  ultimately show ?thesis using md by blast
qed

end
