(* ===== verification/Hbp_Codec.thy ===== *)
theory Hbp_Codec
  imports Hbp
begin

text \<open>
  The Homebrew wire format as a codec: \<open>Parse\<close> and \<open>Marshal\<close> of \<^verbatim>\<open>message.go\<close> are inverse in both
  directions, stated as an interpretation of \<open>wire_codec\<close>; and the one place where the tag
  dispatch shadows a message.
\<close>

section \<open>Marshal, then Parse\<close>

lemma hasTag_C_L: "hasTag (putID rid @ r) ''L'' \<longleftrightarrow> first_octet rid = 0x4C"
  by (auto simp: hasTag_def putID_def put32_def first_octet_def bytes_of_def)

lemma hasTag_bytes: "hasTag b t \<longleftrightarrow> length t \<le> length b \<and> take (length t) b = bytes_of t"
  by (simp add: hasTag_def)

lemma Parse_tagged:
  "Parse j (bytes_of ''RPTPING'' @ r) = parsePing (bytes_of ''RPTPING'' @ r)"
  "Parse j (bytes_of ''MSTPONG'' @ r) = parsePong (bytes_of ''MSTPONG'' @ r)"
  "Parse j (bytes_of ''RPTPONG'' @ r) = parseRepeaterPong (bytes_of ''RPTPONG'' @ r)"
  "Parse j (bytes_of ''MSTPING'' @ r) = parseMasterPing (bytes_of ''MSTPING'' @ r)"
  "Parse j (bytes_of ''MSTNAK'' @ r) = parseNak (bytes_of ''MSTNAK'' @ r)"
  "Parse j (bytes_of ''MSTACK'' @ r) = parseMasterAck (bytes_of ''MSTACK'' @ r)"
  "Parse j (bytes_of ''MSTCL'' @ r) = parseMasterClose (bytes_of ''MSTCL'' @ r)"
  "Parse j (bytes_of ''RPTCL'' @ r) = parseRepeaterClose (bytes_of ''RPTCL'' @ r)"
  "Parse j (bytes_of ''RPTACK'' @ r) = parseAck (bytes_of ''RPTACK'' @ r)"
  "Parse j (bytes_of ''RPTL'' @ r) = parseLogin (bytes_of ''RPTL'' @ r)"
  "Parse j (bytes_of ''RPTK'' @ r) = parseKey (bytes_of ''RPTK'' @ r)"
  "Parse j (bytes_of ''QSPI'' @ r) = parseIdentity j (bytes_of ''QSPI'' @ r)"
  "Parse j (bytes_of ''DMRD'' @ r) = parseData (bytes_of ''DMRD'' @ r)"
  "Parse j (bytes_of ''DMRA'' @ r) = parseTalkerAlias (bytes_of ''DMRA'' @ r)"
  "Parse j (bytes_of ''DMRC'' @ r) = parseGatewayConfig (bytes_of ''DMRC'' @ r)"
  "Parse j (bytes_of ''DMRP'' @ r) = parseGatewayPong (bytes_of ''DMRP'' @ r)"
  by (simp_all add: Parse_def uncapturedTags_def)

lemma Parse_RPTC: "\<not> hasTag r ''L'' \<Longrightarrow> Parse j (bytes_of ''RPTC'' @ r) = parseConfig (bytes_of ''RPTC'' @ r)"
  by (simp add: Parse_def uncapturedTags_def)

lemmas parsers = parsePing_def parsePong_def parseRepeaterPong_def parseMasterPing_def parseNak_def
  parseMasterAck_def parseMasterClose_def parseRepeaterClose_def parseAck_def parseLogin_def parseKey_def
  parseTalkerAlias_def parseGatewayPong_def parseIDMessage_def

lemma Parse_Marshal: "wf_message m \<Longrightarrow> Parse j (Marshal j m) = Inr m"
proof (cases m)
  case (Config c)
  moreover assume "wf_message m"
  ultimately show ?thesis
    using parseConfig_AppendTo [of c]
    by (simp add: Marshal_def wf_message_def Config_AppendTo_def Parse_RPTC hasTag_C_L)
next
  case (Data d)
  moreover assume "wf_message m"
  ultimately show ?thesis
    using parseData_AppendTo [of d]
    by (simp add: Marshal_def wf_message_def Data_AppendTo_def Parse_tagged)
next
  case (GatewayConfig g)
  moreover assume "wf_message m"
  ultimately show ?thesis
    using parseGatewayConfig_AppendTo [of g]
    by (simp add: Marshal_def wf_message_def GatewayConfig_AppendTo_def Parse_tagged)
next
  case GatewayPong
  then show ?thesis
    using Parse_tagged(16) [of j "[]"] by (simp add: Marshal_def parsers)
qed (simp_all add: Marshal_def wf_message_def idMessage_def Parse_tagged parsers)

section \<open>Parse, then Marshal\<close>

lemma exactLen_cases: "exactLen b n = None \<Longrightarrow> length b = n"
  by simp

lemma tag_id_rest:
  assumes "hasTag b t" "n = length t" "n + 4 \<le> length b"
  shows "bytes_of t @ putID (getID (drop n b)) @ drop (n + 4) b = b"
proof -
  have "b = bytes_of t @ take 4 (drop n b) @ drop 4 (drop n b)"
    using hasTag_split [OF assms(1)] assms(2) by (metis append_take_drop_id)
  then show ?thesis using assms(3) by (simp add: putID_getID add.commute)
qed

lemma tag_id:
  "hasTag b t \<Longrightarrow> n = length t \<Longrightarrow> length b = n + 4 \<Longrightarrow> bytes_of t @ putID (getID (drop n b)) = b"
  using tag_id_rest [of b t n] by simp

lemma parseConfig_inverse:
  assumes "parseConfig b = Inr m" "hasTag b ''RPTC''" "\<not> hasTag b ''RPTCL''"
  shows "wf_message m \<and> Marshal j m = b"
proof -
  obtain f where len: "length b = 302" and f: "read_fields b 8 config_widths = (f, 302)"
    and m: "m = Config (config_of (getID (drop 4 b)) f)"
    using assms(1) by (auto simp: parseConfig_def split: option.splits if_splits prod.splits)
  have r: "fields_ok f config_widths" "pad_fields f config_widths = drop 8 b"
    using read_fields_inverse [OF _ f] len by simp_all
  have "length f = 14"
    using r(1) by (simp add: fields_ok_def list_all2_lengthD config_widths_def)
  moreover have split: "b = bytes_of ''RPTC'' @ putID (getID (drop 4 b)) @ drop 8 b"
    using tag_id_rest [OF assms(2), of 4] len by simp
  moreover have "first_octet (getID (drop 4 b)) \<noteq> 0x4C"
  proof
    assume "first_octet (getID (drop 4 b)) = 0x4C"
    then have "hasTag (bytes_of ''RPTC'' @ putID (getID (drop 4 b)) @ drop 8 b) ''RPTCL''"
      by (simp add: hasTag_C_L)
    then show False using assms(3) split by simp
  qed
  ultimately show ?thesis
    using r m by (simp add: wf_message_def Marshal_def Config_AppendTo_def)
qed

lemma parseGatewayConfig_inverse:
  assumes "parseGatewayConfig b = Inr m" "hasTag b ''DMRC''"
  shows "wf_message m \<and> Marshal j m = b"
proof -
  obtain f where len: "length b = 119" and f: "read_fields b 8 gateway_widths = (f, 119)"
    and m: "m = GatewayConfig (gateway_of (getID (drop 4 b)) f)"
    using assms(1) by (auto simp: parseGatewayConfig_def split: option.splits if_splits prod.splits)
  have r: "fields_ok f gateway_widths" "pad_fields f gateway_widths = drop 8 b"
    using read_fields_inverse [OF _ f] len by simp_all
  moreover have "length f = 8"
    using r(1) by (simp add: fields_ok_def list_all2_lengthD gateway_widths_def)
  moreover have "b = bytes_of ''DMRC'' @ putID (getID (drop 4 b)) @ drop 8 b"
    using tag_id_rest [OF assms(2), of 4] len by simp
  ultimately show ?thesis
    using m by (simp add: wf_message_def Marshal_def GatewayConfig_AppendTo_def)
qed

lemma parse_id_inverses:
  "parsePing b = Inr m \<Longrightarrow> hasTag b ''RPTPING'' \<Longrightarrow> wf_message m \<and> Marshal j m = b"
  "parsePong b = Inr m \<Longrightarrow> hasTag b ''MSTPONG'' \<Longrightarrow> wf_message m \<and> Marshal j m = b"
  "parseLogin b = Inr m \<Longrightarrow> hasTag b ''RPTL'' \<Longrightarrow> wf_message m \<and> Marshal j m = b"
  "parseGatewayPong b = Inr m \<Longrightarrow> hasTag b ''DMRP'' \<Longrightarrow> wf_message m \<and> Marshal j m = b"
  "parseNak b = Inr m \<Longrightarrow> hasTag b ''MSTNAK'' \<Longrightarrow> wf_message m \<and> Marshal j m = b"
  "parseMasterAck b = Inr m \<Longrightarrow> hasTag b ''MSTACK'' \<Longrightarrow> wf_message m \<and> Marshal j m = b"
  "parseMasterClose b = Inr m \<Longrightarrow> hasTag b ''MSTCL'' \<Longrightarrow> wf_message m \<and> Marshal j m = b"
  "parseRepeaterClose b = Inr m \<Longrightarrow> hasTag b ''RPTCL'' \<Longrightarrow> wf_message m \<and> Marshal j m = b"
  "parseMasterPing b = Inr m \<Longrightarrow> hasTag b ''MSTPING'' \<Longrightarrow> wf_message m \<and> Marshal j m = b"
  "parseRepeaterPong b = Inr m \<Longrightarrow> hasTag b ''RPTPONG'' \<Longrightarrow> wf_message m \<and> Marshal j m = b"
  using tag_id [of b "''RPTPING''" 7] tag_id [of b "''MSTPONG''" 7] tag_id [of b "''RPTL''" 4]
    tag_id [of b "''MSTNAK''" 6] tag_id [of b "''MSTACK''" 6] tag_id [of b "''MSTCL''" 5]
    tag_id [of b "''RPTCL''" 5] tag_id [of b "''MSTPING''" 7] tag_id [of b "''RPTPONG''" 7]
    hasTag_split [of b "''DMRP''"]
  by (auto simp: parsers wf_message_def Marshal_def idMessage_def eval_nat_numeral split: option.splits)

lemma parseAck_inverse: "parseAck b = Inr m \<Longrightarrow> hasTag b ''RPTACK'' \<Longrightarrow> wf_message m \<and> Marshal j m = b"
  using hasTag_split [of b "''RPTACK''"]
  by (auto simp: parsers wf_message_def Marshal_def eval_nat_numeral split: option.splits)

lemma parseKey_inverse: "parseKey b = Inr m \<Longrightarrow> hasTag b ''RPTK'' \<Longrightarrow> wf_message m \<and> Marshal j m = b"
  using tag_id_rest [of b "''RPTK''" 4]
  by (auto simp: parsers wf_message_def Marshal_def split: option.splits)

lemma parseTalkerAlias_inverse:
  "parseTalkerAlias b = Inr m \<Longrightarrow> hasTag b ''DMRA'' \<Longrightarrow> wf_message m \<and> Marshal j m = b"
  using tag_id_rest [of b "''DMRA''" 4]
  by (auto simp: parsers wf_message_def Marshal_def split: if_splits)

lemma parseData_Marshal: "parseData b = Inr m \<Longrightarrow> hasTag b ''DMRD'' \<Longrightarrow> wf_message m \<and> Marshal j m = b"
  using parseData_inverse [of b m] by (auto simp: wf_message_def Marshal_def)

lemmas parse_inverses = parse_id_inverses parseAck_inverse parseKey_inverse parseTalkerAlias_inverse
  parseData_Marshal parseGatewayConfig_inverse parseConfig_inverse

lemma parseIdentity_kind: "parseIdentity j b = Inr m \<Longrightarrow> \<not> not_identity m"
  by (auto simp: parseIdentity_def Let_def not_identity_def split: if_splits option.splits)

lemma Parse_cases:
  assumes "Parse j b = Inr m" "not_identity m"
  shows "hasTag b ''RPTPING'' \<and> parsePing b = Inr m \<or> hasTag b ''MSTPONG'' \<and> parsePong b = Inr m \<or>
    hasTag b ''RPTPONG'' \<and> parseRepeaterPong b = Inr m \<or> hasTag b ''MSTPING'' \<and> parseMasterPing b = Inr m \<or>
    hasTag b ''MSTNAK'' \<and> parseNak b = Inr m \<or> hasTag b ''MSTACK'' \<and> parseMasterAck b = Inr m \<or>
    hasTag b ''MSTCL'' \<and> parseMasterClose b = Inr m \<or> hasTag b ''RPTCL'' \<and> parseRepeaterClose b = Inr m \<or>
    hasTag b ''RPTACK'' \<and> parseAck b = Inr m \<or> hasTag b ''RPTL'' \<and> parseLogin b = Inr m \<or>
    hasTag b ''RPTK'' \<and> parseKey b = Inr m \<or>
    hasTag b ''RPTC'' \<and> \<not> hasTag b ''RPTCL'' \<and> parseConfig b = Inr m \<or>
    hasTag b ''DMRD'' \<and> parseData b = Inr m \<or> hasTag b ''DMRA'' \<and> parseTalkerAlias b = Inr m \<or>
    hasTag b ''DMRC'' \<and> parseGatewayConfig b = Inr m \<or> hasTag b ''DMRP'' \<and> parseGatewayPong b = Inr m"
proof -
  have "parseIdentity j b \<noteq> Inr m" using assms(2) parseIdentity_kind by blast
  then show ?thesis
    using assms(1) unfolding Parse_def by (simp split: if_split_asm)
qed

lemma Marshal_Parse:
  assumes "Parse j b = Inr m" "not_identity m"
  shows "wf_message m \<and> Marshal j m = b"
  using Parse_cases [OF assms] by (elim disjE conjE) (rule parse_inverses; assumption)+

interpretation homebrew: wire_codec "Marshal j" "Parse j" not_identity wf_message
  for j
  by unfold_locales (use Parse_Marshal Marshal_Parse in auto)

text \<open>
  C4: the Homebrew codec is exact in both directions.  A datagram is accepted as message \<open>m\<close> (other
  than the JSON identity) exactly when \<open>m\<close> is well formed and the datagram is \<open>Marshal m\<close>: every
  well-formed message survives the wire, and no two datagrams mean the same message.
\<close>

theorem Parse_iff_Marshal:
  assumes "not_identity m"
  shows "Parse j b = Inr m \<longleftrightarrow> wf_message m \<and> Marshal j m = b"
  using assms homebrew.parse_marshal homebrew.marshal_parse by blast

theorem Parse_iff_Marshal_witness:
  "not_identity (Ping 3100001) \<and>
   (Parse \<lparr>json_Marshal = Map.empty, json_Unmarshal = Map.empty\<rparr> (bytes_of ''RPTPING'' @ putID 3100001) =
     Inr (Ping 3100001))"
  using Parse_iff_Marshal [of "Ping 3100001"]
  by (simp add: not_identity_def wf_message_def Marshal_def)

text \<open>
  the tag \<open>RPTCL\<close> shadows \<open>RPTC\<close>.  A repeater whose ID starts with the octet \<open>0x4C\<close> cannot
  register: the configuration it sends, however well formed, is taken for a close message and
  refused for its length.
\<close>

lemma Config_shadowed_by_close:
  assumes "first_octet (c_RepeaterID c) = 0x4C"
  shows "Parse j (Marshal j (Config c)) = Inl ErrTrailingBytes"
proof -
  have "Parse j (Marshal j (Config c)) = parseRepeaterClose (Marshal j (Config c))"
    using assms by (simp add: Marshal_def Config_AppendTo_def Parse_def uncapturedTags_def hasTag_C_L)
  moreover have "length (Marshal j (Config c)) = 302"
    by (simp add: Marshal_def Config_AppendTo_def length_pad_fields)
  ultimately show ?thesis by (simp add: parsers exactLen_def)
qed

lemma Config_shadowed_by_close_witness:
  "first_octet (c_RepeaterID (config_of 1276000000 (replicate 14 ''x''))) = 0x4C \<and>
   Parse \<lparr>json_Marshal = Map.empty, json_Unmarshal = Map.empty\<rparr>
     (Marshal \<lparr>json_Marshal = Map.empty, json_Unmarshal = Map.empty\<rparr>
       (Config (config_of 1276000000 (replicate 14 ''x'')))) = Inl ErrTrailingBytes"
proof -
  have "first_octet (c_RepeaterID (config_of 1276000000 (replicate 14 ''x''))) = 0x4C"
    by (simp add: first_octet_def)
  with Config_shadowed_by_close show ?thesis by blast
qed

end
