(* ===== verification/Routing_Table.thy ===== *)
theory Routing_Table
  imports Hbp
begin

text \<open>
  \<^verbatim>\<open>internal/routing/routing.go\<close>: endpoints, bridges, the routing table and \<open>Route\<close>, the pure
  decision where a call goes.  \<open>Route\<close> is the source's loop over the bridges (\<open>route_loop\<close>) followed
  by the opt-in filter for transcoded audio and the sorting.  The specification is the relation
  \<open>joined\<close> (some enabled bridge joins the two endpoints) and \<open>opted_in\<close>; the lemmas show that the
  targets are exactly the joined endpoints that opted in, and that the reason given for an empty
  result is the true one.  Error and reason texts are values of \<open>datatype\<close>s holding what the text
  names.
\<close>

section \<open>Endpoints\<close>

definition AnyPeer :: RepeaterID where
  "AnyPeer = 0"

definition ServerOrigin :: RepeaterID where
  "ServerOrigin = 0xFFFFFFFF"

record endpoint =
  ep_Peer :: RepeaterID
  ep_Upstream :: string
  ep_Transcoder :: string
  ep_Talkgroup :: u32
  ep_Timeslot :: Timeslot

datatype endpointKind = kindPeer | kindUpstream | kindTranscoder

definition kind :: "endpoint \<Rightarrow> endpointKind" where
  "kind e = (if ep_Transcoder e \<noteq> [] then kindTranscoder
             else if ep_Upstream e \<noteq> [] then kindUpstream else kindPeer)"

definition Matches :: "endpoint \<Rightarrow> endpoint \<Rightarrow> bool" where
  "Matches e actual =
     (if ep_Talkgroup e \<noteq> ep_Talkgroup actual \<or> ep_Timeslot e \<noteq> ep_Timeslot actual then False
      else if kind e \<noteq> kind actual then False
      else if ep_Transcoder e \<noteq> [] then ep_Transcoder e = ep_Transcoder actual
      else if ep_Upstream e \<noteq> [] then ep_Upstream e = ep_Upstream actual
      else ep_Peer e = AnyPeer \<or> ep_Peer e = ep_Peer actual)"

datatype endpoint_error = UpstreamAndTranscoder string string | TranscoderAndPeer string RepeaterID
  | UpstreamAndPeer string RepeaterID | TalkgroupZero | NoSuchTimeslot Timeslot

definition Endpoint_Validate :: "endpoint \<Rightarrow> endpoint_error option" where
  "Endpoint_Validate e =
     (if ep_Upstream e \<noteq> [] \<and> ep_Transcoder e \<noteq> [] then
        Some (UpstreamAndTranscoder (ep_Upstream e) (ep_Transcoder e))
      else if ep_Transcoder e \<noteq> [] \<and> ep_Peer e \<noteq> AnyPeer then
        Some (TranscoderAndPeer (ep_Transcoder e) (ep_Peer e))
      else if ep_Upstream e \<noteq> [] \<and> ep_Peer e \<noteq> AnyPeer then
        Some (UpstreamAndPeer (ep_Upstream e) (ep_Peer e))
      else if ep_Talkgroup e = 0 then Some TalkgroupZero
      else if ep_Timeslot e \<noteq> Timeslot1 \<and> ep_Timeslot e \<noteq> Timeslot2 then
        Some (NoSuchTimeslot (ep_Timeslot e))
      else None)"

section \<open>Permissions, bridges, tables\<close>

record permission =
  perm_Peers :: "RepeaterID list"
  perm_All :: bool

definition zero_permission :: permission where
  "zero_permission = \<lparr>perm_Peers = [], perm_All = False\<rparr>"

definition Permits :: "permission \<Rightarrow> RepeaterID \<Rightarrow> bool" where
  "Permits p peer = (if perm_All p then True
                     else list_ex (\<lambda>i. i \<noteq> 0 \<and> i = peer) (perm_Peers p))"

record bridge =
  br_Name :: string
  br_Enabled :: bool
  br_Endpoints :: "endpoint list"

datatype bridge_error = BridgeUnnamed | TooFewEndpoints string nat
  | BadEndpoint string nat endpoint_error | DuplicateEndpoint string endpoint

fun validate_endpoints ::
  "string \<Rightarrow> nat \<Rightarrow> endpoint list \<Rightarrow> endpoint list \<Rightarrow> bridge_error option" where
  "validate_endpoints name i seen [] = None"
| "validate_endpoints name i seen (e # es) =
     (case Endpoint_Validate e of
        Some err \<Rightarrow> Some (BadEndpoint name i err)
      | None \<Rightarrow> if e \<in> set seen then Some (DuplicateEndpoint name e)
                else validate_endpoints name (i + 1) (e # seen) es)"

definition Bridge_Validate :: "bridge \<Rightarrow> bridge_error option" where
  "Bridge_Validate b =
     (if TrimSpace (br_Name b) = [] then Some BridgeUnnamed
      else if length (br_Endpoints b) < 2 then
        Some (TooFewEndpoints (br_Name b) (length (br_Endpoints b)))
      else validate_endpoints (br_Name b) 0 [] (br_Endpoints b))"

definition bridge_matches :: "bridge \<Rightarrow> endpoint \<Rightarrow> bool" where
  "bridge_matches b from = list_ex (\<lambda>e. Matches e from) (br_Endpoints b)"

record table =
  tb_bridges :: "bridge list"
  tb_permissions :: "(string, permission) gomap"

datatype table_problem = BadBridge bridge_error | DuplicateName string

fun table_problems :: "string list \<Rightarrow> bridge list \<Rightarrow> table_problem list" where
  "table_problems names [] = []"
| "table_problems names (b # bs) =
     (case Bridge_Validate b of
        Some err \<Rightarrow> BadBridge err # table_problems names bs
      | None \<Rightarrow> let key = ToLower (TrimSpace (br_Name b)) in
          if key \<in> set names then DuplicateName (br_Name b) # table_problems names bs
          else table_problems (key # names) bs)"

text \<open>\<open>NewTable\<close> with the one option the code has, \<open>WithPermissions\<close>; without it the map is nil.\<close>

definition NewTable ::
  "bridge list \<Rightarrow> (string, permission) gomap \<Rightarrow> table_problem list + table" where
  "NewTable bridges perms =
     (let problems = table_problems [] bridges in
      if problems \<noteq> [] then Inl problems
      else Inr \<lparr>tb_bridges = bridges, tb_permissions = perms\<rparr>)"

definition permissions_of :: "table \<Rightarrow> string \<Rightarrow> permission" where
  "permissions_of t name = (case mget (tb_permissions t) name of Some p \<Rightarrow> p | None \<Rightarrow> zero_permission)"

section \<open>Ordering\<close>

definition endpointBefore :: "endpoint \<Rightarrow> endpoint \<Rightarrow> bool" where
  "endpointBefore a b =
     (if ep_Peer a \<noteq> ep_Peer b then ep_Peer a < ep_Peer b
      else if ep_Talkgroup a \<noteq> ep_Talkgroup b then ep_Talkgroup a < ep_Talkgroup b
      else ep_Timeslot a < ep_Timeslot b)"

definition sortEndpoints :: "endpoint list \<Rightarrow> endpoint list" where
  "sortEndpoints e = sort_by endpointBefore e"

definition sort_Strings :: "string list \<Rightarrow> string list" where
  "sort_Strings s = sort_by (\<lambda>a b. a < b) s"

section \<open>Route\<close>

datatype route_reason = NoReason | NoBridges | NoneOptedIn string "endpoint list"
  | NoBridgeIncludes endpoint | OnlyDisabled endpoint "string list" | OnlySource endpoint

record decision =
  dc_Targets :: "endpoint list"
  dc_Bridges :: "string list"
  dc_Reason :: route_reason
  dc_Withheld :: "endpoint list"

definition Routed :: "decision \<Rightarrow> bool" where
  "Routed d \<longleftrightarrow> length (dc_Targets d) > 0"

record route_state =
  rs_targets :: "endpoint list"
  rs_used :: "string list"
  rs_matchedAny :: bool
  rs_disabled :: "string list"

text \<open>The inner loop; \<open>seen[e]\<close> holds exactly for the targets already added.\<close>

fun add_targets :: "endpoint \<Rightarrow> endpoint list \<Rightarrow> bool \<times> endpoint list \<Rightarrow> bool \<times> endpoint list" where
  "add_targets from [] acc = acc"
| "add_targets from (e # es) (carries, targets) =
     (if Matches e from then add_targets from es (carries, targets)
      else if e \<in> set targets then add_targets from es (True, targets)
      else add_targets from es (True, targets @ [e]))"

fun route_loop :: "endpoint \<Rightarrow> bridge list \<Rightarrow> route_state \<Rightarrow> route_state" where
  "route_loop from [] s = s"
| "route_loop from (b # bs) s =
     (if \<not> bridge_matches b from then route_loop from bs s
      else let s = s\<lparr>rs_matchedAny := True\<rparr> in
        if \<not> br_Enabled b then route_loop from bs (s\<lparr>rs_disabled := rs_disabled s @ [br_Name b]\<rparr>)
        else case add_targets from (br_Endpoints b) (False, rs_targets s) of
          (carries, targets) \<Rightarrow>
            route_loop from bs (s\<lparr>rs_targets := targets,
              rs_used := (if carries then rs_used s @ [br_Name b] else rs_used s)\<rparr>))"

definition withhold :: "permission \<Rightarrow> endpoint \<Rightarrow> bool" where
  "withhold p e \<longleftrightarrow> ep_Transcoder e = [] \<and> ep_Upstream e = [] \<and> \<not> Permits p (ep_Peer e)"

definition empty_reason :: "endpoint \<Rightarrow> endpoint list \<Rightarrow> route_state \<Rightarrow> route_reason" where
  "empty_reason from withheld s =
     (if withheld \<noteq> [] then NoneOptedIn (ep_Transcoder from) withheld
      else if \<not> rs_matchedAny s then NoBridgeIncludes from
      else if rs_disabled s \<noteq> [] then OnlyDisabled from (sort_Strings (rs_disabled s))
      else OnlySource from)"

definition Route :: "table option \<Rightarrow> endpoint \<Rightarrow> decision" where
  "Route tbl from =
     (case tbl of
        None \<Rightarrow> \<lparr>dc_Targets = [], dc_Bridges = [], dc_Reason = NoBridges, dc_Withheld = []\<rparr>
      | Some t \<Rightarrow>
        if tb_bridges t = [] then \<lparr>dc_Targets = [], dc_Bridges = [], dc_Reason = NoBridges, dc_Withheld = []\<rparr>
        else let s = route_loop from (tb_bridges t)
                   \<lparr>rs_targets = [], rs_used = [], rs_matchedAny = False, rs_disabled = []\<rparr>;
                 permitted = permissions_of t (ep_Transcoder from);
                 check = (ep_Transcoder from \<noteq> []);
                 withheld = sortEndpoints (if check then filter (withhold permitted) (rs_targets s) else []);
                 targets = sortEndpoints (if check then filter (\<lambda>e. \<not> withhold permitted e) (rs_targets s)
                                          else rs_targets s)
             in \<lparr>dc_Targets = targets, dc_Bridges = sort_Strings (rs_used s),
                 dc_Reason = (if length targets > 0 then NoReason else empty_reason from withheld s),
                 dc_Withheld = withheld\<rparr>)"

definition Bridges :: "table option \<Rightarrow> bridge list" where
  "Bridges tbl = (case tbl of None \<Rightarrow> [] | Some t \<Rightarrow> sort_by (\<lambda>a b. br_Name a < br_Name b) (tb_bridges t))"

fun count_enabled :: "bridge list \<Rightarrow> nat" where
  "count_enabled [] = 0"
| "count_enabled (b # bs) = (if br_Enabled b then 1 else 0) + count_enabled bs"

definition EnabledCount :: "table option \<Rightarrow> nat" where
  "EnabledCount tbl = (case tbl of None \<Rightarrow> 0 | Some t \<Rightarrow> count_enabled (tb_bridges t))"

section \<open>The specification\<close>

definition joined :: "table \<Rightarrow> endpoint \<Rightarrow> endpoint \<Rightarrow> bool" where
  "joined t from e \<longleftrightarrow> \<not> Matches e from \<and>
     list_ex (\<lambda>b. br_Enabled b \<and> bridge_matches b from \<and> e \<in> set (br_Endpoints b)) (tb_bridges t)"

definition opted_in :: "table \<Rightarrow> endpoint \<Rightarrow> endpoint \<Rightarrow> bool" where
  "opted_in t from e \<longleftrightarrow> kind from = kindTranscoder \<longrightarrow> kind e = kindPeer \<longrightarrow>
     Permits (permissions_of t (ep_Transcoder from)) (ep_Peer e)"

definition carrying_bridge :: "endpoint \<Rightarrow> bridge \<Rightarrow> bool" where
  "carrying_bridge from b \<longleftrightarrow> br_Enabled b \<and> bridge_matches b from \<and>
     list_ex (\<lambda>e. \<not> Matches e from) (br_Endpoints b)"

section \<open>Ordering lemmas\<close>

interpretation endpoint_order: go_less endpointBefore
  by unfold_locales (auto simp: endpointBefore_def split: if_splits)

interpretation string_order: go_less "\<lambda>a b :: string. a < b"
  by unfold_locales auto

interpretation bridge_order: go_less "\<lambda>a b. br_Name a < br_Name b"
  by unfold_locales auto

lemma sortEndpoints_simps [simp]: "set (sortEndpoints es) = set es"
  "distinct (sortEndpoints es) = distinct es" "sortEndpoints es = [] \<longleftrightarrow> es = []"
  by (simp_all add: sortEndpoints_def)

lemma sorted_sortEndpoints: "sorted_wrt (\<lambda>a b. \<not> endpointBefore b a) (sortEndpoints es)"
  unfolding sortEndpoints_def by (rule endpoint_order.sorted_sort_by)

section \<open>The loops\<close>

lemma add_targets_carries:
  "fst (add_targets from es (c, ts)) \<longleftrightarrow> c \<or> list_ex (\<lambda>e. \<not> Matches e from) es"
  by (induction "from" es "(c, ts)" arbitrary: c ts rule: add_targets.induct) auto

lemma add_targets_set:
  "set (snd (add_targets from es (c, ts))) = set ts \<union> {e \<in> set es. \<not> Matches e from}"
  by (induction "from" es "(c, ts)" arbitrary: c ts rule: add_targets.induct) auto

lemma add_targets_distinct: "distinct ts \<Longrightarrow> distinct (snd (add_targets from es (c, ts)))"
  by (induction "from" es "(c, ts)" arbitrary: c ts rule: add_targets.induct) auto

definition joined_by :: "endpoint \<Rightarrow> bridge list \<Rightarrow> endpoint set" where
  "joined_by from bs = {e. \<not> Matches e from \<and>
     (\<exists>b \<in> set bs. br_Enabled b \<and> bridge_matches b from \<and> e \<in> set (br_Endpoints b))}"

lemma joined_by_Cons: "joined_by from (b # bs) =
    (if br_Enabled b \<and> bridge_matches b from then {e \<in> set (br_Endpoints b). \<not> Matches e from} else {}) \<union>
    joined_by from bs"
  by (auto simp: joined_by_def)

lemma route_loop_targets: "set (rs_targets (route_loop from bs s)) = set (rs_targets s) \<union> joined_by from bs"
proof (induction bs arbitrary: s)
  case Nil
  then show ?case by (simp add: joined_by_def)
next
  case (Cons b bs)
  then show ?case
    using add_targets_set [of "from" "br_Endpoints b" False "rs_targets s"]
    by (auto simp: joined_by_Cons Let_def split: prod.splits)
qed

lemma route_loop_distinct: "distinct (rs_targets s) \<Longrightarrow> distinct (rs_targets (route_loop from bs s))"
proof (induction bs arbitrary: s)
  case (Cons b bs)
  then show ?case
    using add_targets_distinct [of "rs_targets s" "from" "br_Endpoints b" False]
    by (auto simp: Let_def split: prod.splits)
qed simp

lemma route_loop_used: "rs_used (route_loop from bs s) =
    rs_used s @ map br_Name (filter (carrying_bridge from) bs)"
proof (induction bs arbitrary: s)
  case (Cons b bs)
  then show ?case
    using add_targets_carries [of "from" "br_Endpoints b" False "rs_targets s"]
    by (auto simp: Let_def carrying_bridge_def split: prod.splits)
qed simp

lemma route_loop_matched: "rs_matchedAny (route_loop from bs s) \<longleftrightarrow>
    rs_matchedAny s \<or> list_ex (\<lambda>b. bridge_matches b from) bs"
  by (induction bs arbitrary: s) (auto simp: Let_def split: prod.splits)

lemma route_loop_disabled: "rs_disabled (route_loop from bs s) =
    rs_disabled s @ map br_Name (filter (\<lambda>b. bridge_matches b from \<and> \<not> br_Enabled b) bs)"
  by (induction bs arbitrary: s) (auto simp: Let_def split: prod.splits)

lemmas route_loop_facts = route_loop_targets route_loop_distinct route_loop_used route_loop_matched
  route_loop_disabled

lemma joined_iff: "joined t from e \<longleftrightarrow> e \<in> joined_by from (tb_bridges t)"
  by (auto simp: joined_def joined_by_def list_ex_iff)

lemma withhold_iff: "withhold p e \<longleftrightarrow> kind e = kindPeer \<and> \<not> Permits p (ep_Peer e)"
  by (auto simp: withhold_def kind_def)

lemma opted_in_iff: "opted_in t from e \<longleftrightarrow>
    ep_Transcoder from = [] \<or> \<not> withhold (permissions_of t (ep_Transcoder from)) e"
  by (auto simp: opted_in_def withhold_iff kind_def)

section \<open>What Route promises\<close>

lemma Route_targets: "set (dc_Targets (Route (Some t) from)) = {e. joined t from e \<and> opted_in t from e}"
  by (auto simp: Route_def Let_def route_loop_targets joined_iff opted_in_iff joined_by_def)

lemma Route_withheld: "set (dc_Withheld (Route (Some t) from)) = {e. joined t from e \<and> \<not> opted_in t from e}"
  by (auto simp: Route_def Let_def route_loop_targets joined_iff opted_in_iff joined_by_def)

lemma Route_nil [simp]: "Route None from = \<lparr>dc_Targets = [], dc_Bridges = [], dc_Reason = NoBridges, dc_Withheld = []\<rparr>"
  by (simp add: Route_def)

lemma Route_distinct: "distinct (dc_Targets (Route tbl from))" "distinct (dc_Withheld (Route tbl from))"
  by (auto simp: Route_def Let_def route_loop_distinct split: option.splits)

lemma Route_sorted: "sorted_wrt (\<lambda>a b. \<not> endpointBefore b a) (dc_Targets (Route tbl from))"
  by (auto simp: Route_def Let_def sorted_sortEndpoints split: option.splits)

lemma Route_not_source: "e \<in> set (dc_Targets (Route tbl from)) \<Longrightarrow> \<not> Matches e from"
  using Route_targets by (cases tbl) (auto simp: joined_def)

text \<open>
  C3: \<open>Route\<close> computes the joined relation.  Its targets are exactly the endpoints that some enabled
  bridge joins to the source and that permission allows, without duplicates and in endpoint order;
  what permission refuses is in \<open>Withheld\<close>, nothing else is; and the source itself is in neither.
\<close>

theorem Route_exact:
  "set (dc_Targets (Route (Some t) from)) = {e. joined t from e \<and> opted_in t from e} \<and>
   set (dc_Withheld (Route (Some t) from)) = {e. joined t from e \<and> \<not> opted_in t from e} \<and>
   distinct (dc_Targets (Route (Some t) from)) \<and>
   sorted_wrt (\<lambda>a b. \<not> endpointBefore b a) (dc_Targets (Route (Some t) from)) \<and>
   from \<notin> set (dc_Targets (Route (Some t) from)) \<and> from \<notin> set (dc_Withheld (Route (Some t) from))"
proof -
  have "Matches from from" by (simp add: Matches_def)
  then have "\<not> joined t from from" by (simp add: joined_def)
  then show ?thesis
    using Route_targets [of t "from"] Route_withheld [of t "from"] Route_distinct Route_sorted by auto
qed

text \<open>
  transcoded audio reaches a repeater only by its owner's word.  A peer endpoint is a target of a
  call from a transcoder only if the permission for that transcoder says all, or lists that very
  peer; an \<open>AnyPeer\<close> endpoint needs all, and a zero in the list grants nothing.
\<close>

lemma transcoded_needs_opt_in:
  assumes "e \<in> set (dc_Targets (Route (Some t) from))" "kind from = kindTranscoder" "kind e = kindPeer"
  shows "perm_All (permissions_of t (ep_Transcoder from)) \<or>
    ep_Peer e \<noteq> AnyPeer \<and> ep_Peer e \<in> set (perm_Peers (permissions_of t (ep_Transcoder from)))"
  using assms Route_targets [of t "from"]
  by (auto simp: opted_in_def Permits_def AnyPeer_def list_ex_iff split: if_splits)

definition demo_transcoder :: endpoint where
  "demo_transcoder = \<lparr>ep_Peer = 0, ep_Upstream = [], ep_Transcoder = ''zello'', ep_Talkgroup = 91, ep_Timeslot = 2\<rparr>"

definition demo_peer :: "RepeaterID \<Rightarrow> endpoint" where
  "demo_peer p = \<lparr>ep_Peer = p, ep_Upstream = [], ep_Transcoder = [], ep_Talkgroup = 91, ep_Timeslot = 2\<rparr>"

definition demo_table :: table where
  "demo_table = \<lparr>tb_bridges = [\<lparr>br_Name = ''net'', br_Enabled = True,
       br_Endpoints = [demo_transcoder, demo_peer 7, demo_peer 8]\<rparr>],
     tb_permissions = [(''zello'', \<lparr>perm_Peers = [0, 7], perm_All = False\<rparr>)]\<rparr>"

lemmas demo_table_simps = demo_table_def demo_peer_def demo_transcoder_def joined_def opted_in_def
  bridge_matches_def Matches_def kind_def Permits_def permissions_of_def mget_Cons AnyPeer_def

lemma demo_table_targets: "demo_peer 7 \<in> set (dc_Targets (Route (Some demo_table) demo_transcoder))"
  by (simp add: Route_targets) (simp add: demo_table_simps)

lemma transcoded_needs_opt_in_witness:
  "demo_peer 7 \<in> set (dc_Targets (Route (Some demo_table) demo_transcoder)) \<and>
   (perm_All (permissions_of demo_table (ep_Transcoder demo_transcoder)) \<or>
    ep_Peer (demo_peer 7) \<noteq> AnyPeer \<and>
    ep_Peer (demo_peer 7) \<in> set (perm_Peers (permissions_of demo_table (ep_Transcoder demo_transcoder))))"
proof -
  have "demo_peer 7 \<in> set (dc_Targets (Route (Some demo_table) demo_transcoder))"
    by (simp add: demo_table_targets)
  moreover have "kind demo_transcoder = kindTranscoder" "kind (demo_peer 7) = kindPeer"
    by (simp_all add: demo_table_simps)
  ultimately show ?thesis using transcoded_needs_opt_in by blast
qed

section \<open>Reasons\<close>

text \<open>What each reason claims of the table and the source.\<close>

definition reason_holds :: "table option \<Rightarrow> endpoint \<Rightarrow> route_reason \<Rightarrow> bool" where
  "reason_holds tbl from r =
     (let bs = (case tbl of None \<Rightarrow> [] | Some t \<Rightarrow> tb_bridges t);
          nowhere = (\<not> Routed (Route tbl from)) in
      case r of
        NoReason \<Rightarrow> \<not> nowhere
      | NoBridges \<Rightarrow> nowhere \<and> bs = []
      | NoneOptedIn name es \<Rightarrow> nowhere \<and> name = ep_Transcoder from \<and> es \<noteq> [] \<and> es = dc_Withheld (Route tbl from)
      | NoBridgeIncludes f \<Rightarrow> nowhere \<and> f = from \<and> \<not> list_ex (\<lambda>b. bridge_matches b from) bs
      | OnlyDisabled f names \<Rightarrow> nowhere \<and> f = from \<and> names \<noteq> [] \<and> \<not> list_ex (carrying_bridge from) bs \<and>
          set names = br_Name ` {b \<in> set bs. bridge_matches b from \<and> \<not> br_Enabled b}
      | OnlySource f \<Rightarrow> nowhere \<and> f = from \<and> list_ex (\<lambda>b. bridge_matches b from) bs \<and>
          list_all (\<lambda>b. bridge_matches b from \<longrightarrow> br_Enabled b \<and> list_all (\<lambda>e. Matches e from) (br_Endpoints b)) bs)"

lemma carrying_joined: "list_ex (carrying_bridge from) (tb_bridges t) \<longleftrightarrow> (\<exists>e. joined t from e)"
  by (auto simp: carrying_bridge_def joined_def list_ex_iff)

lemma Route_empty_iff:
  assumes "dc_Targets (Route (Some t) from) = []" "dc_Withheld (Route (Some t) from) = []"
  shows "\<not> list_ex (carrying_bridge from) (tb_bridges t)"
  using assms Route_targets [of t "from"] Route_withheld [of t "from"] by (auto simp: carrying_joined)

lemma set_sort_Strings [simp]: "set (sort_Strings xs) = set xs" "sort_Strings xs = [] \<longleftrightarrow> xs = []"
  by (simp_all add: sort_Strings_def)

text \<open>
  the reason is true.  Whatever \<open>Route\<close> answers to "why did this call not route" holds of the
  table: a call with targets has no reason, and each of the five reasons is given only when what it
  says is so.
\<close>

lemma Route_reason_true: "reason_holds tbl from (dc_Reason (Route tbl from))"
proof (cases tbl)
  case None
  then show ?thesis by (simp add: reason_holds_def Routed_def)
next
  case (Some t)
  define s where "s = route_loop from (tb_bridges t)
    \<lparr>rs_targets = [], rs_used = [], rs_matchedAny = False, rs_disabled = []\<rparr>"
  let ?d = "Route tbl from"
  have r: "dc_Reason ?d = (if tb_bridges t = [] then NoBridges else if Routed ?d then NoReason
      else empty_reason from (dc_Withheld ?d) s)"
    using Some by (simp add: Route_def Let_def Routed_def s_def)
  have m: "rs_matchedAny s = list_ex (\<lambda>b. bridge_matches b from) (tb_bridges t)"
    and d: "rs_disabled s = map br_Name (filter (\<lambda>b. bridge_matches b from \<and> \<not> br_Enabled b) (tb_bridges t))"
    by (simp_all add: s_def route_loop_matched route_loop_disabled)
  have c: "\<not> Routed ?d \<Longrightarrow> dc_Withheld ?d = [] \<Longrightarrow> \<not> list_ex (carrying_bridge from) (tb_bridges t)"
    using Route_empty_iff [of t "from"] Some by (simp add: Routed_def)
  have e: "tb_bridges t = [] \<Longrightarrow> \<not> Routed ?d"
    using Some by (simp add: Route_def Routed_def)
  show ?thesis
  proof (cases "tb_bridges t = [] \<or> Routed ?d \<or> dc_Withheld ?d \<noteq> []")
    case True
    then show ?thesis using r e Some by (auto simp: reason_holds_def empty_reason_def)
  next
    case False
    then have "\<not> list_ex (carrying_bridge from) (tb_bridges t)" using c by blast
    with False show ?thesis
      using r m d Some
      by (auto simp: reason_holds_def empty_reason_def list_ex_iff list_all_iff carrying_bridge_def
          filter_empty_conv)
  qed
qed

section \<open>NewTable\<close>

definition bridge_ok :: "bridge \<Rightarrow> bool" where
  "bridge_ok b \<longleftrightarrow> TrimSpace (br_Name b) \<noteq> [] \<and> 2 \<le> length (br_Endpoints b) \<and>
     distinct (br_Endpoints b) \<and> list_all (\<lambda>e. Endpoint_Validate e = None) (br_Endpoints b)"

definition name_key :: "bridge \<Rightarrow> string" where
  "name_key b = ToLower (TrimSpace (br_Name b))"

lemma validate_endpoints_None: "validate_endpoints name i seen es = None \<longleftrightarrow>
    list_all (\<lambda>e. Endpoint_Validate e = None) es \<and> distinct es \<and> set es \<inter> set seen = {}"
  by (induction name i seen es rule: validate_endpoints.induct) (auto split: option.splits)

lemma Bridge_Validate_None: "Bridge_Validate b = None \<longleftrightarrow> bridge_ok b"
  by (auto simp: Bridge_Validate_def bridge_ok_def validate_endpoints_None)

lemma table_problems_none: "table_problems names bs = [] \<longleftrightarrow>
    list_all bridge_ok bs \<and> distinct (map name_key bs) \<and> set (map name_key bs) \<inter> set names = {}"
  by (induction names bs rule: table_problems.induct)
    (auto simp: Let_def Bridge_Validate_None [symmetric] name_key_def split: option.splits)

text \<open>
  \<open>NewTable\<close> accepts a list of bridges exactly when every one is valid (named, at least two
  distinct valid endpoints) and no two names are equal up to case and surrounding blanks, and the
  table it builds is those bridges and those permissions.
\<close>

lemma NewTable_accepts_iff:
  "NewTable bs perms = Inr t \<longleftrightarrow>
     list_all bridge_ok bs \<and> distinct (map name_key bs) \<and> t = \<lparr>tb_bridges = bs, tb_permissions = perms\<rparr>"
  by (auto simp: NewTable_def Let_def table_problems_none)

lemma EnabledCount_length: "EnabledCount (Some t) = length (filter br_Enabled (tb_bridges t))"
proof -
  have "count_enabled bs = length (filter br_Enabled bs)" for bs by (induction bs) auto
  then show ?thesis by (simp add: EnabledCount_def)
qed

lemma Bridges_sorted: "sorted_wrt (\<lambda>a b. \<not> br_Name b < br_Name a) (Bridges tbl)"
  by (auto simp: Bridges_def bridge_order.sorted_sort_by split: option.splits)

end
