(* ===== verification/Access.thy ===== *)
theory Access
  imports Prelude
begin

text \<open>
  \<^verbatim>\<open>internal/access/access.go\<close>: the registration, subscriber and talkgroup lists.  A list is parsed
  from entries (single IDs and ranges) into sorted spans that neither touch nor overlap, and
  \<open>Allows\<close> finds an ID in them by bisection.  The lemmas show that the bisection decides
  membership in the written entries, that \<open>Entries\<close> round-trips through \<open>access_Parse\<close>, and which inputs are
  refused.  Error values keep the offending text; their wording for the operator is not modelled.
\<close>

section \<open>Data\<close>

datatype access_kind = Registration | Subscriber | Talkgroup

definition Kind_String :: "access_kind \<Rightarrow> string" where
  "Kind_String k = (case k of Registration \<Rightarrow> ''registration'' | Subscriber \<Rightarrow> ''subscriber''
                    | Talkgroup \<Rightarrow> ''talkgroup'')"

definition Ceiling :: "access_kind \<Rightarrow> u32" where
  "Ceiling k = (if k = Registration then 0xFFFFFFFF else 0xFFFFFF)"

type_synonym access_mode = string

definition ModePermit :: access_mode where
  "ModePermit = ''permit''"

definition ModeDeny :: access_mode where
  "ModeDeny = ''deny''"

record span =
  span_lo :: u32
  span_hi :: u32

record acl =
  acl_mode :: access_mode
  acl_spans :: "span list"

text \<open>The zero value of \<open>List\<close>.\<close>

definition zero_acl :: acl where
  "zero_acl = \<lparr>acl_mode = [], acl_spans = []\<rparr>"

datatype access_error =
    BadMode string
  | PermitNothing
  | EmptyEntry
  | MissingNumber string
  | NotANumber string
  | AboveCeiling string u32
  | ZeroStation
  | BackwardsRange string u32 u32

section \<open>Parsing\<close>

definition parseID :: "string \<Rightarrow> access_kind \<Rightarrow> string \<Rightarrow> string \<Rightarrow> (string \<times> access_error) + u32" where
  "parseID field kind num entry =
     (if num = [] then Inl (field, MissingNumber entry)
      else if \<not> (\<forall>r \<in> set num. is_digit r) then Inl (field, NotANumber entry)
      else if decimal_value num \<ge> 2 ^ 64 \<or> decimal_value num > unat (Ceiling kind)
        then Inl (field, AboveCeiling num (Ceiling kind))
      else if decimal_value num = 0 then Inl (field, ZeroStation)
      else Inr (word_of_nat (decimal_value num)))"

definition parseEntry :: "string \<Rightarrow> access_kind \<Rightarrow> string \<Rightarrow> (string \<times> access_error) + span" where
  "parseEntry field kind raw =
     (let entry = TrimSpace raw in
      if entry = [] then Inl (field, EmptyEntry)
      else case Cut entry CHR ''-'' of (lo, hi, isRange) \<Rightarrow>
        if \<not> isRange then
          (case parseID field kind entry entry of
             Inl e \<Rightarrow> Inl e
           | Inr i \<Rightarrow> Inr \<lparr>span_lo = i, span_hi = i\<rparr>)
        else case parseID field kind lo entry of
            Inl e \<Rightarrow> Inl e
          | Inr low \<Rightarrow>
             (case parseID field kind hi entry of
                Inl e \<Rightarrow> Inl e
              | Inr high \<Rightarrow>
                  if low > high then Inl (field, BackwardsRange entry high low)
                  else Inr \<lparr>span_lo = low, span_hi = high\<rparr>))"

fun parseEntries :: "string \<Rightarrow> access_kind \<Rightarrow> string list \<Rightarrow> (string \<times> access_error) + span list" where
  "parseEntries field kind [] = Inr []"
| "parseEntries field kind (raw # entries) =
     (case parseEntry field kind raw of
        Inl e \<Rightarrow> Inl e
      | Inr s \<Rightarrow> (case parseEntries field kind entries of Inl e \<Rightarrow> Inl e | Inr ss \<Rightarrow> Inr (s # ss)))"

definition span_before :: "span \<Rightarrow> span \<Rightarrow> bool" where
  "span_before s t = (if span_lo s \<noteq> span_lo t then span_lo s < span_lo t else span_hi s < span_hi t)"

text \<open>The loop of \<open>merge\<close>: \<open>cur\<close> is the last element of \<open>out\<close>; \<open>+ 1\<close> wraps at 32 bits as in Go.\<close>

fun merge_loop :: "span \<Rightarrow> span list \<Rightarrow> span list" where
  "merge_loop cur [] = [cur]"
| "merge_loop cur (s # ss) =
     (if span_lo s \<le> span_hi cur \<or> span_lo s = span_hi cur + 1
      then merge_loop (if span_hi s > span_hi cur then cur\<lparr>span_hi := span_hi s\<rparr> else cur) ss
      else cur # merge_loop s ss)"

definition merge :: "span list \<Rightarrow> span list" where
  "merge spans = (case sort_by span_before spans of [] \<Rightarrow> [] | s # ss \<Rightarrow> merge_loop s ss)"

definition access_Parse ::
  "string \<Rightarrow> access_kind \<Rightarrow> access_mode \<Rightarrow> string list \<Rightarrow> (string \<times> access_error) + acl" where
  "access_Parse field kind mode entries =
     (if mode \<noteq> [] \<and> mode \<noteq> ModeDeny \<and> mode \<noteq> ModePermit then Inl (field, BadMode mode)
      else let mode' = (if mode = ModePermit then ModePermit else ModeDeny) in
        if mode' = ModePermit \<and> entries = [] then Inl (field, PermitNothing)
        else case parseEntries field kind entries of
            Inl e \<Rightarrow> Inl e
          | Inr spans \<Rightarrow> Inr \<lparr>acl_mode = mode', acl_spans = merge spans\<rparr>)"

section \<open>Queries\<close>

definition acl_names :: "acl \<Rightarrow> u32 \<Rightarrow> bool" where
  "acl_names l rid =
     (let i = sort_Search (length (acl_spans l)) (\<lambda>i. span_hi (acl_spans l ! i) \<ge> rid)
      in i < length (acl_spans l) \<and> span_lo (acl_spans l ! i) \<le> rid)"

definition Allows :: "acl \<Rightarrow> u32 \<Rightarrow> bool" where
  "Allows l rid = (let named = acl_names l rid in if acl_mode l = ModePermit then named else \<not> named)"

definition Permissive :: "acl \<Rightarrow> bool" where
  "Permissive l \<longleftrightarrow> acl_mode l \<noteq> ModePermit \<and> acl_spans l = []"

definition Mode :: "acl \<Rightarrow> access_mode" where
  "Mode l = (if acl_mode l = [] then ModeDeny else acl_mode l)"

definition entry_of :: "span \<Rightarrow> string" where
  "entry_of s = (if span_lo s = span_hi s then FormatUint (unat (span_lo s))
     else FormatUint (unat (span_lo s)) @ ''-'' @ FormatUint (unat (span_hi s)))"

definition Entries :: "acl \<Rightarrow> string list" where
  "Entries l = map entry_of (acl_spans l)"

fun Join :: "string list \<Rightarrow> string \<Rightarrow> string" where
  "Join [] sep = []"
| "Join [s] sep = s"
| "Join (s # t # ss) sep = s @ sep @ Join (t # ss) sep"

definition acl_String :: "acl \<Rightarrow> string" where
  "acl_String l = (if Permissive l then ''permit everything''
                   else Mode l @ '' '' @ Join (Entries l) '','')"

definition digits :: "u32 \<Rightarrow> nat" where
  "digits rid = length (FormatUint (unat rid))"

text \<open>An advisory is the ID it names; the sentence around it is fixed text.\<close>

definition Advisories :: "acl \<Rightarrow> access_kind \<Rightarrow> u32 list" where
  "Advisories l kind =
     (if kind \<noteq> Registration then []
      else map span_lo (filter (\<lambda>s. span_lo s = span_hi s \<and> digits (span_lo s) = 8) (acl_spans l)))"

record access_lists =
  al_Registration :: acl
  al_Subscriber :: acl
  al_Talkgroup1 :: acl
  al_Talkgroup2 :: acl

definition Talkgroups :: "access_lists \<Rightarrow> int \<Rightarrow> acl" where
  "Talkgroups l timeslot =
     (if timeslot = 1 then al_Talkgroup1 l else if timeslot = 2 then al_Talkgroup2 l else zero_acl)"

definition Lists_Permissive :: "access_lists \<Rightarrow> bool" where
  "Lists_Permissive l \<longleftrightarrow> Permissive (al_Registration l) \<and> Permissive (al_Subscriber l) \<and>
     Permissive (al_Talkgroup1 l) \<and> Permissive (al_Talkgroup2 l)"

definition zero_lists :: access_lists where
  "zero_lists = \<lparr>al_Registration = zero_acl, al_Subscriber = zero_acl,
                 al_Talkgroup1 = zero_acl, al_Talkgroup2 = zero_acl\<rparr>"

section \<open>What a parsed list holds\<close>

definition in_span :: "u32 \<Rightarrow> span \<Rightarrow> bool" where
  "in_span rid s \<longleftrightarrow> span_lo s \<le> rid \<and> rid \<le> span_hi s"

definition span_ok :: "span \<Rightarrow> bool" where
  "span_ok s \<longleftrightarrow> span_lo s \<le> span_hi s"

text \<open>Sorted, and separated by at least one ID that is in neither neighbour.\<close>

definition spans_ok :: "span list \<Rightarrow> bool" where
  "spans_ok ss \<longleftrightarrow> (\<forall>s \<in> set ss. span_ok s) \<and>
     sorted_wrt (\<lambda>s t. unat (span_hi s) + 1 < unat (span_lo t)) ss"

interpretation span_order: go_less span_before
proof
  show "span_before x y \<Longrightarrow> \<not> span_before y x" for x y
    by (auto simp: span_before_def split: if_splits)
  show "span_before x z \<Longrightarrow> span_before x y \<or> span_before y z" for x y z
    by (auto simp: span_before_def split: if_splits)
qed

lemma joins_iff:
  "span_lo s \<le> span_hi cur \<or> span_lo s = span_hi cur + 1 \<longleftrightarrow> unat (span_lo s) \<le> unat (span_hi cur) + 1"
proof (cases "span_hi cur = - 1")
  case True
  then have "span_lo s \<le> span_hi cur" by simp
  then show ?thesis by (simp add: word_le_nat_alt)
next
  case False
  then have "unat (span_hi cur + 1) = unat (span_hi cur) + 1"
    by (metis Suc_eq_plus1 add.commute eq_neg_iff_add_eq_0 unatSuc)
  then show ?thesis by (auto simp: word_le_nat_alt word_unat_eq_iff)
qed

lemma merge_loop_ok:
  assumes "span_ok cur" "\<forall>s \<in> set ss. span_ok s" "sorted_wrt (\<lambda>s t. span_lo s \<le> span_lo t) (cur # ss)"
  shows "spans_ok (merge_loop cur ss) \<and> (\<forall>t \<in> set (merge_loop cur ss). span_lo cur \<le> span_lo t) \<and>
    (\<forall>n. (\<exists>t \<in> set (merge_loop cur ss). in_span n t) \<longleftrightarrow> (\<exists>t \<in> set (cur # ss). in_span n t))"
  using assms
proof (induction cur ss rule: merge_loop.induct)
  case (1 cur)
  then show ?case by (simp add: spans_ok_def)
next
  case (2 cur s ss)
  define cur' where "cur' = (if span_hi s > span_hi cur then cur\<lparr>span_hi := span_hi s\<rparr> else cur)"
  have lo': "span_lo cur' = span_lo cur" by (simp add: cur'_def)
  show ?case
  proof (cases "unat (span_lo s) \<le> unat (span_hi cur) + 1")
    case True
    have hi': "unat (span_hi cur') = max (unat (span_hi cur)) (unat (span_hi s))"
      by (auto simp: cur'_def word_less_nat_alt)
    have ok': "span_ok cur'"
      using "2.prems"(1) hi' lo' by (simp add: span_ok_def word_le_nat_alt)
    have merged: "in_span n cur' \<longleftrightarrow> in_span n cur \<or> in_span n s" for n
      using True "2.prems" hi' lo'
      by (auto simp: in_span_def span_ok_def word_le_nat_alt)
    have eq: "merge_loop cur (s # ss) = merge_loop cur' ss"
      using True by (simp add: joins_iff cur'_def)
    have IH: "spans_ok (merge_loop cur' ss) \<and> (\<forall>t \<in> set (merge_loop cur' ss). span_lo cur' \<le> span_lo t) \<and>
      (\<forall>n. (\<exists>t \<in> set (merge_loop cur' ss). in_span n t) \<longleftrightarrow> (\<exists>t \<in> set (cur' # ss). in_span n t))"
      unfolding cur'_def by (rule "2.IH"(1)) (use True "2.prems" ok' lo' in \<open>simp_all add: joins_iff flip: cur'_def\<close>)
    show ?thesis unfolding eq using IH merged lo' by auto
  next
    case False
    have eq: "merge_loop cur (s # ss) = cur # merge_loop s ss"
      using False by (simp add: joins_iff)
    have IH: "spans_ok (merge_loop s ss) \<and> (\<forall>t \<in> set (merge_loop s ss). span_lo s \<le> span_lo t) \<and>
      (\<forall>n. (\<exists>t \<in> set (merge_loop s ss). in_span n t) \<longleftrightarrow> (\<exists>t \<in> set (s # ss). in_span n t))"
      by (rule "2.IH"(2)) (use False "2.prems" in \<open>simp_all add: joins_iff\<close>)
    have "unat (span_hi cur) + 1 < unat (span_lo t)" if "t \<in> set (merge_loop s ss)" for t
      using IH that False by (force simp: word_le_nat_alt)
    then show ?thesis unfolding eq using IH "2.prems" by (auto simp: spans_ok_def)
  qed
qed

lemma merge_spec:
  assumes "\<forall>s \<in> set ss. span_ok s"
  shows "spans_ok (merge ss) \<and> ((\<exists>t \<in> set (merge ss). in_span n t) \<longleftrightarrow> (\<exists>t \<in> set ss. in_span n t)) \<and>
    (merge ss = [] \<longleftrightarrow> ss = [])"
proof (cases "sort_by span_before ss")
  case Nil
  then show ?thesis by (simp add: merge_def spans_ok_def)
next
  case (Cons c cs)
  have sorted: "sorted_wrt (\<lambda>s t. span_lo s \<le> span_lo t) (c # cs)"
    unfolding Cons [symmetric]
    by (rule sorted_wrt_mono_rel [OF _ span_order.sorted_sort_by])
       (auto simp: span_before_def split: if_splits)
  have set_eq: "set ss = set (c # cs)" using Cons set_sort_by [of span_before ss] by simp
  have "spans_ok (merge_loop c cs) \<and> (\<forall>t \<in> set (merge_loop c cs). span_lo c \<le> span_lo t) \<and>
    (\<forall>n. (\<exists>t \<in> set (merge_loop c cs). in_span n t) \<longleftrightarrow> (\<exists>t \<in> set (c # cs). in_span n t))"
    by (rule merge_loop_ok) (use assms set_eq sorted in auto)
  moreover have "merge_loop c cs \<noteq> []" by (induction c cs rule: merge_loop.induct) auto
  moreover have "ss \<noteq> []" using Cons by auto
  ultimately show ?thesis by (simp add: merge_def Cons set_eq)
qed

lemma merge_loop_separated:
  "spans_ok (cur # ss) \<Longrightarrow> merge_loop cur ss = cur # ss"
  by (induction ss arbitrary: cur) (auto simp: spans_ok_def joins_iff not_le)

lemma merge_separated:
  assumes "spans_ok ss"
  shows "merge ss = ss"
proof -
  have "\<not> span_before t s"
    if "s \<in> set ss" "unat (span_hi s) + 1 < unat (span_lo t)" for s t
  proof -
    have "unat (span_lo s) < unat (span_lo t)"
      using assms that by (auto simp: spans_ok_def span_ok_def word_le_nat_alt dest!: bspec)
    then show ?thesis by (auto simp: span_before_def word_less_nat_alt)
  qed
  note nb = this
  have "sorted_wrt (\<lambda>a b. \<not> span_before b a) ss"
  proof (rule sorted_wrt_mono_rel)
    show "sorted_wrt (\<lambda>s t. unat (span_hi s) + 1 < unat (span_lo t)) ss"
      using assms by (simp add: spans_ok_def)
  qed (rule nb)
  then have "sort_by span_before ss = ss" by (rule span_order.sort_by_sorted)
  then show ?thesis using assms by (cases ss) (auto simp: merge_def merge_loop_separated)
qed

text \<open>The bisection of \<open>names\<close> decides membership in a well-formed list of spans.\<close>

lemma acl_names_iff:
  assumes "spans_ok (acl_spans l)"
  shows "acl_names l rid \<longleftrightarrow> (\<exists>s \<in> set (acl_spans l). in_span rid s)"
proof -
  let ?ss = "acl_spans l"
  let ?f = "\<lambda>i. span_hi (?ss ! i) \<ge> rid"
  define i where "i = sort_Search (length ?ss) ?f"
  have hi: "span_hi (?ss ! a) < span_lo (?ss ! b)" if "a < b" "b < length ?ss" for a b
    using assms that by (auto simp: spans_ok_def word_less_nat_alt dest: sorted_wrt_nth_less)
  have ok: "span_lo (?ss ! a) \<le> span_hi (?ss ! a)" if "a < length ?ss" for a
    using assms that by (simp add: spans_ok_def span_ok_def)
  have mono: "?f b" if "a \<le> b" "b < length ?ss" "?f a" for a b
    using that hi [of a b] ok [of b] by (cases "a = b") (auto intro: order.trans dest: less_imp_le)
  then have "\<forall>a b. a \<le> b \<longrightarrow> b < length ?ss \<longrightarrow> ?f a \<longrightarrow> ?f b" by blast
  note least = sort_Search_least [OF this, folded i_def]
  show ?thesis
  proof
    assume "acl_names l rid"
    then have "i < length ?ss" "span_lo (?ss ! i) \<le> rid"
      by (simp_all add: acl_names_def Let_def i_def)
    then show "\<exists>s \<in> set ?ss. in_span rid s"
      using least(3) [where k = i] by (auto simp: in_span_def intro!: bexI [of _ "?ss ! i"])
  next
    assume "\<exists>s \<in> set ?ss. in_span rid s"
    then obtain k where k: "k < length ?ss" "in_span rid (?ss ! k)" by (auto simp: in_set_conv_nth)
    then have "\<not> k < i" using least(2) [where k = k] by (auto simp: in_span_def)
    moreover have "\<not> i < k"
      using hi [of i k] k least(3) [where k = i] by (auto simp: in_span_def)
    ultimately have "i = k" by simp
    then show "acl_names l rid" using k by (simp add: acl_names_def Let_def in_span_def flip: i_def)
  qed
qed


section \<open>Parsing, evaluating and printing agree\<close>

lemma unat_Ceiling: "unat (Ceiling k) < 2 ^ 32"
  using unsigned_less [of "Ceiling k"] by simp

lemma parseID_value:
  assumes "parseID field kind num entry = Inr i"
  shows "unat i = decimal_value num" and "i \<noteq> 0" and "i \<le> Ceiling kind"
proof -
  have num: "decimal_value num \<le> unat (Ceiling kind)" "decimal_value num \<noteq> 0"
    and i: "i = word_of_nat (decimal_value num)"
    using assms by (auto simp: parseID_def split: if_splits)
  then show v: "unat i = decimal_value num"
    using unat_Ceiling [of kind] by (simp add: unat_of_nat)
  show "i \<noteq> 0" using v num(2) by auto
  show "i \<le> Ceiling kind" using v num(1) by (simp add: word_le_nat_alt)
qed

definition span_in_range :: "access_kind \<Rightarrow> span \<Rightarrow> bool" where
  "span_in_range kind s \<longleftrightarrow> 0 < span_lo s \<and> span_lo s \<le> span_hi s \<and> span_hi s \<le> Ceiling kind"

lemma parseEntry_in_range: "parseEntry field kind raw = Inr s \<Longrightarrow> span_in_range kind s"
  by (auto simp: parseEntry_def Let_def span_in_range_def word_neq_0_conv [symmetric] not_less
        split: if_splits prod.splits sum.splits dest: parseID_value)

lemma parseEntries_Inr_iff:
  "parseEntries field kind entries = Inr ss \<longleftrightarrow> map (parseEntry field kind) entries = map Inr ss"
proof (induction entries arbitrary: ss)
  case Nil
  then show ?case by auto
next
  case (Cons raw entries)
  then show ?case by (cases ss; cases "parseEntries field kind entries") (auto split: sum.splits)
qed

lemma parseEntries_Inl_iff:
  "(\<exists>e. parseEntries field kind entries = Inl e) \<longleftrightarrow>
    (\<exists>raw \<in> set entries. \<exists>e. parseEntry field kind raw = Inl e)"
  by (induction entries) (auto split: sum.splits)

lemma parseID_FormatUint:
  assumes "0 < i" "i \<le> Ceiling kind"
  shows "parseID field kind (FormatUint (unat i)) entry = Inr i"
proof -
  have "unat i \<le> unat (Ceiling kind)" "unat i \<noteq> 0"
    using assms by (auto simp: word_le_nat_alt unat_eq_0)
  then show ?thesis
    using FormatUint_digits [of "unat i"] unat_Ceiling [of kind] by (auto simp: parseID_def)
qed

lemma digits_no_minus: "\<forall>c \<in> set s. is_digit c \<Longrightarrow> CHR ''-'' \<notin> set s"
  using digit_not_minus by blast

lemma Cut_FormatUint:
  "Cut (FormatUint m) CHR ''-'' = (FormatUint m, [], False)"
  "Cut (FormatUint m @ CHR ''-'' # FormatUint n) CHR ''-'' = (FormatUint m, FormatUint n, True)"
proof -
  have m: "CHR ''-'' \<notin> set (FormatUint m)"
    by (rule digits_no_minus) (rule FormatUint_digits)
  then show "Cut (FormatUint m) CHR ''-'' = (FormatUint m, [], False)" by (simp add: Cut_def)
  have "takeWhile (\<lambda>x. x \<noteq> CHR ''-'') (FormatUint m @ CHR ''-'' # FormatUint n) = FormatUint m"
    "dropWhile (\<lambda>x. x \<noteq> CHR ''-'') (FormatUint m @ CHR ''-'' # FormatUint n) = CHR ''-'' # FormatUint n"
    using m by (auto simp: takeWhile_append dropWhile_append)
  then show "Cut (FormatUint m @ CHR ''-'' # FormatUint n) CHR ''-'' = (FormatUint m, FormatUint n, True)"
    by (simp add: Cut_def)
qed

lemma FormatUint_ends:
  "\<not> is_space (hd (FormatUint m @ s))" "\<not> is_space (last (s @ FormatUint m))"
  using FormatUint_digits [of m] digit_not_space
  by (cases "FormatUint m"; simp)+

lemma entry_of_trim: "TrimSpace (entry_of s) = entry_of s"
proof -
  have "\<not> is_space (hd (entry_of s))" "\<not> is_space (last (entry_of s))"
    using FormatUint_ends(1) [of "unat (span_lo s)" "[]"] FormatUint_ends(1) [of "unat (span_lo s)"]
      FormatUint_ends(2) [of "[]"] FormatUint_ends(2) [of "FormatUint (unat (span_lo s)) @ ''-''"]
    by (auto simp: entry_of_def)
  then show ?thesis by (auto intro: TrimSpace_id)
qed

lemma parseEntry_entry_of:
  assumes "span_in_range kind s"
  shows "parseEntry field kind (entry_of s) = Inr s"
proof -
  have lo: "0 < span_lo s" "span_lo s \<le> Ceiling kind" and hi: "0 < span_hi s" "span_hi s \<le> Ceiling kind"
    and ord: "\<not> span_hi s < span_lo s"
    using assms by (auto simp: span_in_range_def)
  show ?thesis
  proof (cases "span_lo s = span_hi s")
    case True
    then show ?thesis
      using parseID_FormatUint [OF hi] entry_of_trim [of s]
      by (simp add: parseEntry_def entry_of_def Cut_FormatUint)
  next
    case False
    then show ?thesis
      using parseID_FormatUint [OF lo] parseID_FormatUint [OF hi] ord entry_of_trim [of s]
      by (simp add: parseEntry_def entry_of_def Cut_FormatUint)
  qed
qed


text \<open>Everything a successful parse guarantees of its list.\<close>

lemma access_Parse_list:
  assumes "access_Parse field kind mode entries = Inr l"
  shows "spans_ok (acl_spans l)" and "\<forall>s \<in> set (acl_spans l). span_in_range kind s"
    and "(\<exists>s \<in> set (acl_spans l). in_span n s) \<longleftrightarrow>
         (\<exists>raw \<in> set entries. \<exists>s. parseEntry field kind raw = Inr s \<and> in_span n s)"
    and "acl_mode l = ModePermit \<longleftrightarrow> mode = ModePermit"
    and "acl_mode l = ModePermit \<Longrightarrow> acl_spans l \<noteq> []"
    and "acl_mode l = ModePermit \<or> acl_mode l = ModeDeny"
proof -
  obtain ss where ss: "parseEntries field kind entries = Inr ss" and l: "acl_spans l = merge ss"
    and m: "acl_mode l = (if mode = ModePermit then ModePermit else ModeDeny)"
    and pm: "mode = ModePermit \<Longrightarrow> entries \<noteq> []"
    using assms by (auto simp: access_Parse_def Let_def ModePermit_def ModeDeny_def
        split: if_splits sum.splits)
  have eq: "map (parseEntry field kind) entries = map Inr ss"
    using ss by (simp add: parseEntries_Inr_iff)
  have from_entry: "s \<in> set ss \<longleftrightarrow> (\<exists>raw \<in> set entries. parseEntry field kind raw = Inr s)" for s
  proof -
    have "parseEntry field kind ` set entries = Inr ` set ss"
      using arg_cong [OF eq, of set] by simp
    then show ?thesis by (metis image_iff sum.inject(2))
  qed
  have range: "span_in_range kind s" if "s \<in> set ss" for s
    using that from_entry parseEntry_in_range by blast
  then have ok: "\<forall>s \<in> set ss. span_ok s" by (auto simp: span_in_range_def span_ok_def)
  note spec = merge_spec [OF ok]
  show "spans_ok (acl_spans l)" using spec l by simp
  show "(\<exists>s \<in> set (acl_spans l). in_span n s) \<longleftrightarrow>
         (\<exists>raw \<in> set entries. \<exists>s. parseEntry field kind raw = Inr s \<and> in_span n s)"
    using spec [of n] l unfolding from_entry [symmetric] by (metis from_entry)
  show pmode: "acl_mode l = ModePermit \<longleftrightarrow> mode = ModePermit"
    using m by (auto simp: ModePermit_def ModeDeny_def)
  show "acl_mode l = ModePermit \<or> acl_mode l = ModeDeny" using m by simp
  show "acl_mode l = ModePermit \<Longrightarrow> acl_spans l \<noteq> []"
  proof -
    assume "acl_mode l = ModePermit"
    then have "entries \<noteq> []" using pmode pm by blast
    then have "ss \<noteq> []" using eq by auto
    then show ?thesis using spec l by simp
  qed
  show "\<forall>s \<in> set (acl_spans l). span_in_range kind s"
  proof
    fix s assume s: "s \<in> set (acl_spans l)"
    then have le: "span_lo s \<le> span_hi s" using spec l by (auto simp: spans_ok_def span_ok_def)
    have "\<exists>t \<in> set ss. in_span n t" if "span_lo s \<le> n" "n \<le> span_hi s" for n
      using spec [of n] s l that by (auto simp: in_span_def)
    from this [of "span_lo s"] this [of "span_hi s"] le range show "span_in_range kind s"
      by (auto simp: span_in_range_def in_span_def intro: order.trans less_le_trans)
  qed
qed

text \<open>
  a list accepts exactly what its entries say.  When \<open>Parse\<close> accepts a mode and a set of
  entries, \<open>Allows\<close> (sorting, merging with 32-bit arithmetic and bisection included) answers for
  every ID whether some written entry covers it, inverted unless the mode is permit.
\<close>

lemma Allows_iff_listed:
  assumes "access_Parse field kind mode entries = Inr l"
  shows "Allows l n \<longleftrightarrow>
    (mode = ModePermit \<longleftrightarrow>
      (\<exists>raw \<in> set entries. \<exists>s. parseEntry field kind raw = Inr s \<and> span_lo s \<le> n \<and> n \<le> span_hi s))"
proof -
  have "acl_names l n \<longleftrightarrow> (\<exists>raw \<in> set entries. \<exists>s. parseEntry field kind raw = Inr s \<and> in_span n s)"
    using access_Parse_list [OF assms] by (simp add: acl_names_iff)
  then show ?thesis
    using access_Parse_list(4) [OF assms] by (auto simp: Allows_def Let_def in_span_def)
qed


lemma Allows_iff_listed_witness:
  "\<exists>l. access_Parse ''dmr.access.talkgroups'' Talkgroup ''permit'' [''3100-3199'', '' 9 ''] = Inr l \<and>
     Allows l 3150 \<and> Allows l 9 \<and> \<not> Allows l 3200"
proof -
  let ?es = "[''3100-3199'', '' 9 '']"
  have e1: "parseEntry ''dmr.access.talkgroups'' Talkgroup ''3100-3199'' = Inr \<lparr>span_lo = 3100, span_hi = 3199\<rparr>"
    and e2: "parseEntry ''dmr.access.talkgroups'' Talkgroup '' 9 '' = Inr \<lparr>span_lo = 9, span_hi = 9\<rparr>"
    by (simp_all add: parseEntry_def parseID_def Ceiling_def go_simps)
  obtain l where l: "access_Parse ''dmr.access.talkgroups'' Talkgroup ''permit'' ?es = Inr l"
    by (simp add: access_Parse_def ModePermit_def e1 e2)
  have "Allows l n \<longleftrightarrow> 3100 \<le> n \<and> n \<le> 3199 \<or> n = 9" for n
    using Allows_iff_listed [OF l, of n] by (auto simp: ModePermit_def e1 e2)
  then show ?thesis using l by auto
qed

text \<open>
  a loaded list re-saves as itself.  The mode and entries a parsed list prints are accepted by
  \<open>Parse\<close> again and give the same list, whatever order, overlap or spacing the operator wrote.
\<close>

lemma Entries_roundtrip:
  assumes "access_Parse field kind mode entries = Inr l"
  shows "access_Parse field' kind (Mode l) (Entries l) = Inr l"
proof -
  note facts = access_Parse_list [OF assms]
  have mode: "Mode l = acl_mode l"
    using facts(6) by (auto simp: Mode_def ModePermit_def ModeDeny_def)
  have "map (parseEntry field' kind) (Entries l) = map Inr (acl_spans l)"
    using facts(2) parseEntry_entry_of by (simp add: Entries_def)
  then have es: "parseEntries field' kind (Entries l) = Inr (acl_spans l)"
    by (simp add: parseEntries_Inr_iff)
  have m: "merge (acl_spans l) = acl_spans l" by (rule merge_separated) (rule facts(1))
  have "Entries l = [] \<longleftrightarrow> acl_spans l = []" by (simp add: Entries_def)
  then show ?thesis
    using es m mode facts(5,6) by (auto simp: access_Parse_def Let_def ModePermit_def ModeDeny_def)
qed

lemma Entries_roundtrip_witness:
  "\<exists>l. access_Parse ''f'' Registration ''deny'' [''20-29'', ''10'', ''25-40''] = Inr l \<and>
     Entries l = [''10'', ''20-40''] \<and> access_Parse ''g'' Registration (Mode l) (Entries l) = Inr l"
proof -
  let ?l = "\<lparr>acl_mode = ''deny'', acl_spans = [\<lparr>span_lo = 10, span_hi = 10\<rparr>, \<lparr>span_lo = 20, span_hi = 40\<rparr>]\<rparr>"
  have l: "access_Parse ''f'' Registration ''deny'' [''20-29'', ''10'', ''25-40''] = Inr ?l"
    by (simp add: access_Parse_def parseEntry_def parseID_def Ceiling_def merge_def span_before_def
        ModePermit_def ModeDeny_def go_simps)
  moreover have "Entries ?l = [''10'', ''20-40'']"
    by (simp add: Entries_def entry_of_def FormatUint.simps char_of_def bit_0 go_simps)
  ultimately show ?thesis using Entries_roundtrip [OF l, of "''g''"] by blast
qed

text \<open>
  when a list is refused.  \<open>Parse\<close> fails exactly when the mode is not one of the two (or
  empty), when a permit list names nobody, or when some entry is not an ID or a forward range of
  IDs from 1 to the ceiling of the field the ID travels in.
\<close>

lemma access_Parse_fails_iff:
  "(\<exists>e. access_Parse field kind mode entries = Inl e) \<longleftrightarrow>
    mode \<notin> {[], ModeDeny, ModePermit} \<or> mode = ModePermit \<and> entries = [] \<or>
    (\<exists>raw \<in> set entries. \<forall>s. parseEntry field kind raw \<noteq> Inr s)"
proof -
  have "(\<exists>raw \<in> set entries. \<forall>s. parseEntry field kind raw \<noteq> Inr s) \<longleftrightarrow>
      (\<exists>e. parseEntries field kind entries = Inl e)"
    unfolding parseEntries_Inl_iff by (metis Inl_Inr_False sum.exhaust)
  then show ?thesis
    by (cases "parseEntries field kind entries")
       (auto simp: access_Parse_def Let_def ModePermit_def ModeDeny_def)
qed

lemma zero_acl_allows [simp]: "Allows zero_acl n"
  by (simp add: Allows_def acl_names_def zero_acl_def ModePermit_def)

lemma Permissive_allows: "Permissive l \<Longrightarrow> Allows l n"
  by (simp add: Permissive_def Allows_def acl_names_def)

lemma Permissive_iff:
  assumes "access_Parse field kind mode entries = Inr l"
  shows "Permissive l \<longleftrightarrow> (\<forall>n. 0 < n \<longrightarrow> n \<le> Ceiling kind \<longrightarrow> Allows l n) \<and> acl_mode l \<noteq> ModePermit"
proof
  assume "Permissive l"
  then show "(\<forall>n. 0 < n \<longrightarrow> n \<le> Ceiling kind \<longrightarrow> Allows l n) \<and> acl_mode l \<noteq> ModePermit"
    using Permissive_allows [of l] by (simp add: Permissive_def)
next
  assume r: "(\<forall>n. 0 < n \<longrightarrow> n \<le> Ceiling kind \<longrightarrow> Allows l n) \<and> acl_mode l \<noteq> ModePermit"
  have "acl_spans l = []"
  proof (rule ccontr)
    assume "acl_spans l \<noteq> []"
    then obtain s where s: "s \<in> set (acl_spans l)" by (meson last_in_set)
    then have range: "span_in_range kind s" using access_Parse_list(2) [OF assms] by blast
    then have "in_span (span_lo s) s" by (simp add: in_span_def span_in_range_def)
    then have "acl_names l (span_lo s)"
      using s access_Parse_list(1) [OF assms] by (auto simp: acl_names_iff)
    then have "\<not> Allows l (span_lo s)" using r by (simp add: Allows_def)
    then show False using r range by (auto simp: span_in_range_def)
  qed
  then show "Permissive l" using r by (simp add: Permissive_def)
qed

lemma access_Parse_fails_iff_witness:
  "\<exists>e. access_Parse ''dmr.access.talkgroups'' Talkgroup ModePermit [] = Inl e"
  using access_Parse_fails_iff [of "''dmr.access.talkgroups''" Talkgroup ModePermit "[]"] by simp

end
