(* ===== verification/Routing_Core.thy ===== *)
theory Routing_Core
  imports Routing_Table Access
begin

text \<open>
  \<^verbatim>\<open>internal/routing/core.go\<close>: the routing core, which applies the table to live traffic.  The state
  is \<open>core\<close>: the maps \<open>carrying\<close> (which path brought a transmission here) and \<open>busy\<close> (which
  transmission holds a destination), with the table and the access lists.  The collaborators the
  Go core holds as interfaces (\<open>PeerLookup\<close>, \<open>SubscriberLookup\<close>, \<open>LinkedServers\<close>,
  \<open>Subscriptions\<close>) are the fields of \<open>env\<close>: their answers at the moment of the call, \<open>None\<close> for a
  nil interface.  \<open>routeScoped\<close> is the source's function: the target list (\<open>route_targets\<close>), the
  deduplication, the reservation of the origin, the loop over the targets (\<open>deliver_target\<close>, with
  \<open>deliverTranscoder\<close>, \<open>deliverUpstream\<close> and the loop over resolved peers), the release at a
  terminator and the reason of an empty result.  The contention switch, which the source writes
  three times, is \<open>contest\<close>.

  The mutex makes each call one step, so the calls are functions on the state.  A reservation is
  reached through one map entry only, so an update through its pointer is an update of that entry.
\<close>

section \<open>Data\<close>

definition StreamTimeout :: duration where
  "StreamTimeout = 2 * second"

record delivery =
  dv_Peer :: RepeaterID
  dv_Frame :: hbp_data
  dv_Bridge :: string

record upstream_delivery =
  ud_Upstream :: string
  ud_Frame :: hbp_data
  ud_Bridge :: string

record transcoder_delivery =
  td_Transcoder :: string
  td_Frame :: hbp_data
  td_Bridge :: string

record routeTarget =
  rt_Endpoint :: endpoint
  rt_repeat :: bool

record sourceKey =
  sk_peer :: RepeaterID
  sk_stream :: StreamID
  sk_slot :: Timeslot
  sk_upstream :: string
  sk_transcoder :: string

text \<open>What \<open>sourceKey.String\<close> names.\<close>

datatype path_name = LinkPath string | TranscoderPath string | ThisServer | PeerPath RepeaterID

definition path_of :: "sourceKey \<Rightarrow> path_name" where
  "path_of s = (if sk_upstream s \<noteq> [] then LinkPath (sk_upstream s)
     else if sk_transcoder s \<noteq> [] then TranscoderPath (sk_transcoder s)
     else if sk_peer s = ServerOrigin then ThisServer else PeerPath (sk_peer s))"

record contention =
  cn_Holder :: path_name
  cn_Refused :: path_name
  cn_Talkgroup :: u32

datatype drop_reason = NotOptedIn RepeaterID string | BackToLink string | ToForeignNetwork string
  | TalkgroupNotPermitted u32 Timeslot | NotAttached RepeaterID u32 Timeslot
  | SlotCarrying u32 path_name | LinkCarrying path_name | ChipCarrying string u32 path_name

record drop =
  dr_To :: endpoint
  dr_Reason :: drop_reason
  dr_NotAJudgement :: bool
  dr_NotACollision :: bool
  dr_Contention :: "contention option"

datatype result_reason = NoResultReason | IngressRefused u32 Timeslot | PrivateNotRouted
  | RadioNotHeard u32 | TableReason route_reason | NothingConfigured | AlreadyCarried path_name
  | EveryDestinationRefused | NothingOnHomebrewSide

record result =
  rs_Deliveries :: "delivery list"
  rs_Upstreams :: "upstream_delivery list"
  rs_Transcoders :: "transcoder_delivery list"
  rs_Drops :: "drop list"
  rs_StartedStreams :: "endpoint list"
  rs_Reason :: result_reason
  rs_NoHomebrewDestination :: bool

definition zero_result :: result where
  "zero_result = \<lparr>rs_Deliveries = [], rs_Upstreams = [], rs_Transcoders = [], rs_Drops = [],
     rs_StartedStreams = [], rs_Reason = NoResultReason, rs_NoHomebrewDestination = False\<rparr>"

record reservation =
  rv_source :: sourceKey
  rv_lastSeen :: time
  rv_bridge :: string
  rv_voice :: bool
  rv_endpoint :: endpoint

record streamKey =
  st_source :: u32
  st_stream :: StreamID

record carrier =
  ca_origin :: sourceKey
  ca_lastSeen :: time

record core =
  co_repeat :: bool
  co_access :: access_lists
  co_table :: "table option"
  co_timeout :: duration
  co_qspLinks :: "(string, string) gomap"
  co_carrying :: "(streamKey, carrier) gomap"
  co_busy :: "(endpoint, reservation) gomap"

record env =
  en_Ready :: "RepeaterID \<Rightarrow> bool"
  en_ReadyPeers :: "RepeaterID list"
  en_LocateFor :: "(u32 \<Rightarrow> (RepeaterID \<times> Timeslot) option) option"
  en_LinkedServerPeers :: "RepeaterID list option"
  en_Attached :: "(RepeaterID \<Rightarrow> u32 \<Rightarrow> Timeslot \<Rightarrow> bool) option"

section \<open>Helpers\<close>

definition contend :: "endpoint \<Rightarrow> endpoint" where
  "contend e = (if ep_Transcoder e \<noteq> [] then e\<lparr>ep_Talkgroup := 0, ep_Timeslot := 0\<rparr>
                else if ep_Upstream e \<noteq> [] then e
                else e\<lparr>ep_Talkgroup := 0\<rparr>)"

definition contendsForSlot :: "hbp_data \<Rightarrow> bool" where
  "contendsForSlot frame \<longleftrightarrow> d_FrameType frame = FrameTypeVoice \<or> d_FrameType frame = FrameTypeVoiceSync"

definition sameOrigin :: "sourceKey \<Rightarrow> sourceKey \<Rightarrow> bool" where
  "sameOrigin a b \<longleftrightarrow> sk_peer a = sk_peer b \<and> sk_slot a = sk_slot b \<and> sk_upstream a = sk_upstream b \<and>
     sk_transcoder a = sk_transcoder b"

definition keyOver :: "endpoint \<Rightarrow> reservation \<Rightarrow> sourceKey \<Rightarrow> drop_reason \<Rightarrow> drop" where
  "keyOver to held refused reason =
     \<lparr>dr_To = to, dr_Reason = reason, dr_NotAJudgement = False, dr_NotACollision = False,
      dr_Contention = Some \<lparr>cn_Holder = path_of (rv_source held), cn_Refused = path_of refused,
        cn_Talkgroup = ep_Talkgroup (rv_endpoint held)\<rparr>\<rparr>"

definition plain_drop :: "endpoint \<Rightarrow> drop_reason \<Rightarrow> drop" where
  "plain_drop to reason = \<lparr>dr_To = to, dr_Reason = reason, dr_NotAJudgement = False,
     dr_NotACollision = False, dr_Contention = None\<rparr>"

definition linkSet :: "string list \<Rightarrow> (string, string) gomap" where
  "linkSet names = fold (\<lambda>n out. let name = TrimSpace n; k = ToLower name in
     if k \<noteq> [] then mput k name out else out) names []"

definition sortedQSPLinks :: "core \<Rightarrow> string list" where
  "sortedQSPLinks c = sort_Strings (map snd (co_qspLinks c))"

record core_options =
  op_NoRepeat :: bool
  op_Access :: access_lists
  op_Table :: "table option"
  op_Timeout :: duration
  op_QSPLinks :: "string list"

definition NewCore :: "core_options \<Rightarrow> core" where
  "NewCore opts = \<lparr>co_repeat = (\<not> op_NoRepeat opts), co_access = op_Access opts, co_table = op_Table opts,
     co_timeout = (if op_Timeout opts \<le> 0 then StreamTimeout else op_Timeout opts),
     co_qspLinks = linkSet (op_QSPLinks opts), co_carrying = [], co_busy = []\<rparr>"

definition SetTable :: "core \<Rightarrow> table option \<Rightarrow> core" where
  "SetTable c t = c\<lparr>co_table := t\<rparr>"

definition Core_SetAccess :: "core \<Rightarrow> access_lists \<Rightarrow> core" where
  "Core_SetAccess c l = c\<lparr>co_access := l\<rparr>"

definition TranscoderPermission :: "core \<Rightarrow> string \<Rightarrow> permission" where
  "TranscoderPermission c name = (case co_table c of None \<Rightarrow> zero_permission | Some t \<Rightarrow> permissions_of t name)"

definition talkgroupAllowed :: "core \<Rightarrow> hbp_data \<Rightarrow> Timeslot \<Rightarrow> u32 \<Rightarrow> bool" where
  "talkgroupAllowed c frame slot talkgroup =
     (if d_CallType frame = CallPrivate then True
      else Allows (Talkgroups (co_access c) (uint slot)) talkgroup)"

definition resolve :: "env \<Rightarrow> endpoint \<Rightarrow> RepeaterID list" where
  "resolve en target =
     (if ep_Peer target \<noteq> AnyPeer then if en_Ready en (ep_Peer target) then [ep_Peer target] else []
      else en_ReadyPeers en)"

definition holdsAnyFor :: "core \<Rightarrow> sourceKey \<Rightarrow> bool" where
  "holdsAnyFor c src = list_ex (\<lambda>kv. rv_source (snd kv) = src) (co_busy c)"

definition release :: "core \<Rightarrow> sourceKey \<Rightarrow> core" where
  "release c src = c\<lparr>co_busy := msweep (\<lambda>k held. rv_source held = src) (co_busy c)\<rparr>"

definition expireCarried :: "core \<Rightarrow> time \<Rightarrow> core" where
  "expireCarried c now =
     c\<lparr>co_carrying := msweep (\<lambda>k held. Sub now (ca_lastSeen held) > co_timeout c) (co_carrying c)\<rparr>"

definition stream_key :: "hbp_data \<Rightarrow> streamKey" where
  "stream_key frame = \<lparr>st_source = d_SourceID frame, st_stream = d_StreamID frame\<rparr>"

definition duplicate :: "core \<Rightarrow> hbp_data \<Rightarrow> sourceKey \<Rightarrow> time \<Rightarrow> core \<times> path_name option" where
  "duplicate c frame src now =
     (let key = stream_key frame;
          claimed = expireCarried
            (c\<lparr>co_carrying := mput key \<lparr>ca_origin = src, ca_lastSeen = now\<rparr> (co_carrying c)\<rparr>) now
      in case mget (co_carrying c) key of
           None \<Rightarrow> (claimed, None)
         | Some held \<Rightarrow>
             if ca_origin held = src then
               (c\<lparr>co_carrying := mput key (held\<lparr>ca_lastSeen := now\<rparr>) (co_carrying c)\<rparr>, None)
             else if Sub now (ca_lastSeen held) \<le> co_timeout c then (c, Some (path_of (ca_origin held)))
             else (claimed, None))"

section \<open>Contention\<close>

datatype contest_outcome = Exempt | Held reservation | Started | Continued

definition new_reservation :: "endpoint \<Rightarrow> hbp_data \<Rightarrow> sourceKey \<Rightarrow> string \<Rightarrow> time \<Rightarrow> reservation" where
  "new_reservation dest frame src bridge now = \<lparr>rv_source = src, rv_lastSeen = now, rv_bridge = bridge,
     rv_voice = contendsForSlot frame, rv_endpoint = dest\<rparr>"

definition touch :: "reservation \<Rightarrow> hbp_data \<Rightarrow> time \<Rightarrow> reservation" where
  "touch held frame now = held\<lparr>rv_lastSeen := now, rv_voice := rv_voice held \<or> contendsForSlot frame\<rparr>"

definition contest ::
  "core \<Rightarrow> endpoint \<Rightarrow> hbp_data \<Rightarrow> sourceKey \<Rightarrow> string \<Rightarrow> time \<Rightarrow> core \<times> contest_outcome" where
  "contest c dest frame src bridge now =
     (let key = contend dest;
          started = (c\<lparr>co_busy := mput key (new_reservation dest frame src bridge now) (co_busy c)\<rparr>, Started)
      in case mget (co_busy c) key of
           None \<Rightarrow> started
         | Some held \<Rightarrow>
             if rv_source held \<noteq> src \<and> sameOrigin (rv_source held) src \<and> \<not> contendsForSlot frame then (c, Exempt)
             else if rv_source held \<noteq> src then
               if Sub now (rv_lastSeen held) \<le> co_timeout c then (c, Held held) else started
             else (c\<lparr>co_busy := mput key (touch held frame now) (co_busy c)\<rparr>, Continued))"

definition rewrite :: "hbp_data \<Rightarrow> endpoint \<Rightarrow> hbp_data" where
  "rewrite frame target = frame\<lparr>d_TargetID := ep_Talkgroup target, d_Timeslot := ep_Timeslot target\<rparr>"

section \<open>Delivery\<close>

text \<open>What the loop over the targets reads, and what it changes.\<close>

record route_ctx =
  cx_origin :: endpoint
  cx_frame :: hbp_data
  cx_src :: sourceKey
  cx_bridge :: string
  cx_now :: time
  cx_linkedPeers :: "RepeaterID list"

record route_acc =
  ra_core :: core
  ra_res :: result
  ra_delivered :: "RepeaterID list"

definition add_drop :: "drop \<Rightarrow> route_acc \<Rightarrow> route_acc" where
  "add_drop d a = a\<lparr>ra_res := (ra_res a)\<lparr>rs_Drops := rs_Drops (ra_res a) @ [d]\<rparr>\<rparr>"

definition add_started :: "contest_outcome \<Rightarrow> endpoint \<Rightarrow> result \<Rightarrow> result" where
  "add_started oc dest r =
     (if oc = Started then r\<lparr>rs_StartedStreams := rs_StartedStreams r @ [dest]\<rparr> else r)"

definition deliverUpstream :: "route_ctx \<Rightarrow> endpoint \<Rightarrow> route_acc \<Rightarrow> route_acc" where
  "deliverUpstream cx target a =
     (if \<not> talkgroupAllowed (ra_core a) (cx_frame cx) (ep_Timeslot target) (ep_Talkgroup target) then
        add_drop (plain_drop target (TalkgroupNotPermitted (ep_Talkgroup target) (ep_Timeslot target))) a
      else case contest (ra_core a) target (cx_frame cx) (cx_src cx) (cx_bridge cx) (cx_now cx) of
        (c, Held held) \<Rightarrow>
          add_drop (keyOver target held (cx_src cx) (LinkCarrying (path_of (rv_source held)))) a
      | (c, _) \<Rightarrow>
          a\<lparr>ra_core := c, ra_res := (ra_res a)\<lparr>rs_Upstreams := rs_Upstreams (ra_res a) @
              [\<lparr>ud_Upstream = ep_Upstream target, ud_Frame = rewrite (cx_frame cx) target,
                ud_Bridge = cx_bridge cx\<rparr>]\<rparr>\<rparr>)"

definition deliverTranscoder :: "route_ctx \<Rightarrow> endpoint \<Rightarrow> route_acc \<Rightarrow> route_acc" where
  "deliverTranscoder cx target a =
     (if \<not> talkgroupAllowed (ra_core a) (cx_frame cx) (ep_Timeslot target) (ep_Talkgroup target) then
        add_drop (plain_drop target (TalkgroupNotPermitted (ep_Talkgroup target) (ep_Timeslot target))) a
      else case contest (ra_core a) target (cx_frame cx) (cx_src cx) (cx_bridge cx) (cx_now cx) of
        (c, Held held) \<Rightarrow>
          add_drop (keyOver target held (cx_src cx)
            (ChipCarrying (ep_Transcoder target) (ep_Talkgroup (rv_endpoint held)) (path_of (rv_source held)))) a
      | (c, oc) \<Rightarrow>
          let r = add_started oc target (ra_res a) in
          a\<lparr>ra_core := c, ra_res := r\<lparr>rs_Transcoders := rs_Transcoders r @
              [\<lparr>td_Transcoder = ep_Transcoder target, td_Frame = rewrite (cx_frame cx) target,
                td_Bridge = cx_bridge cx\<rparr>]\<rparr>\<rparr>)"

text \<open>The body of the loop over the peers a target resolves to.\<close>

definition dest_of :: "RepeaterID \<Rightarrow> endpoint \<Rightarrow> endpoint" where
  "dest_of peer target = \<lparr>ep_Peer = peer, ep_Upstream = [], ep_Transcoder = [],
     ep_Talkgroup = ep_Talkgroup target, ep_Timeslot = ep_Timeslot target\<rparr>"

definition deliver_peer :: "env \<Rightarrow> route_ctx \<Rightarrow> routeTarget \<Rightarrow> RepeaterID \<Rightarrow> route_acc \<Rightarrow> route_acc" where
  "deliver_peer en cx t peer a =
     (let target = rt_Endpoint t; dest = dest_of peer target; frame = cx_frame cx in
      if rt_repeat t \<and> peer = ep_Peer (cx_origin cx) then a
      else if peer \<in> set (cx_linkedPeers cx) then a
      else if \<not> talkgroupAllowed (ra_core a) frame (ep_Timeslot dest) (ep_Talkgroup dest) then
        add_drop (plain_drop dest (TalkgroupNotPermitted (ep_Talkgroup dest) (ep_Timeslot dest))) a
      else if rt_repeat t \<and> d_CallType frame \<noteq> CallPrivate \<and>
          (case en_Attached en of None \<Rightarrow> False
           | Some att \<Rightarrow> \<not> att peer (ep_Talkgroup dest) (ep_Timeslot dest)) then
        add_drop (plain_drop dest (NotAttached peer (ep_Talkgroup dest) (ep_Timeslot dest))) a
      else case contest (ra_core a) dest frame (cx_src cx) (cx_bridge cx) (cx_now cx) of
        (c, Held held) \<Rightarrow>
          add_drop (keyOver dest held (cx_src cx)
            (SlotCarrying (ep_Talkgroup (rv_endpoint held)) (path_of (rv_source held)))) a
      | (c, oc) \<Rightarrow>
          let r = add_started oc dest (ra_res a);
              out = (rewrite frame target)\<lparr>d_RepeaterID := peer\<rparr> in
          if peer \<in> set (ra_delivered a) then a\<lparr>ra_core := c, ra_res := r\<rparr>
          else a\<lparr>ra_core := c, ra_delivered := peer # ra_delivered a,
            ra_res := r\<lparr>rs_Deliveries := rs_Deliveries r @
              [\<lparr>dv_Peer = peer, dv_Frame = out, dv_Bridge = cx_bridge cx\<rparr>]\<rparr>\<rparr>)"

definition isQSP :: "core \<Rightarrow> string \<Rightarrow> bool" where
  "isQSP c name \<longleftrightarrow> mget (co_qspLinks c) (ToLower name) \<noteq> None"

definition deliver_target :: "env \<Rightarrow> route_ctx \<Rightarrow> routeTarget \<Rightarrow> route_acc \<Rightarrow> route_acc" where
  "deliver_target en cx t a =
     (let target = rt_Endpoint t; fromUpstream = (ep_Upstream (cx_origin cx) \<noteq> []) in
      if ep_Transcoder target \<noteq> [] then deliverTranscoder cx target a
      else if ep_Upstream target \<noteq> [] then
        if fromUpstream \<and> EqualFold (ep_Upstream target) (ep_Upstream (cx_origin cx)) then
          add_drop ((plain_drop target (BackToLink (ep_Upstream (cx_origin cx))))\<lparr>dr_NotAJudgement := True\<rparr>) a
        else if fromUpstream \<and> \<not> isQSP (ra_core a) (ep_Upstream target) then
          add_drop ((plain_drop target (ToForeignNetwork (ep_Upstream (cx_origin cx))))\<lparr>dr_NotAJudgement := True\<rparr>) a
        else deliverUpstream cx target a
      else fold (deliver_peer en cx t) (resolve en target) a)"

section \<open>Targets\<close>

definition peer_endpoint :: "RepeaterID \<Rightarrow> u32 \<Rightarrow> Timeslot \<Rightarrow> endpoint" where
  "peer_endpoint p tg ts = \<lparr>ep_Peer = p, ep_Upstream = [], ep_Transcoder = [], ep_Talkgroup = tg, ep_Timeslot = ts\<rparr>"

definition link_endpoint :: "string \<Rightarrow> u32 \<Rightarrow> Timeslot \<Rightarrow> endpoint" where
  "link_endpoint n tg ts = \<lparr>ep_Peer = 0, ep_Upstream = n, ep_Transcoder = [], ep_Talkgroup = tg, ep_Timeslot = ts\<rparr>"

definition transcoder_endpoint :: "string \<Rightarrow> u32 \<Rightarrow> Timeslot \<Rightarrow> endpoint" where
  "transcoder_endpoint n tg ts = \<lparr>ep_Peer = 0, ep_Upstream = [], ep_Transcoder = n, ep_Talkgroup = tg, ep_Timeslot = ts\<rparr>"

definition repeat_targets :: "core \<Rightarrow> hbp_data \<Rightarrow> routeTarget list" where
  "repeat_targets c frame =
     \<lparr>rt_Endpoint = peer_endpoint AnyPeer (d_TargetID frame) (d_Timeslot frame), rt_repeat = True\<rparr> #
     map (\<lambda>n. \<lparr>rt_Endpoint = link_endpoint n (d_TargetID frame) (d_Timeslot frame), rt_repeat = True\<rparr>)
       (sortedQSPLinks c)"

definition neighbour_targets :: "core \<Rightarrow> env \<Rightarrow> RepeaterID \<Rightarrow> hbp_data \<Rightarrow> routeTarget list" where
  "neighbour_targets c en from frame =
     map (\<lambda>n. \<lparr>rt_Endpoint = link_endpoint n (d_TargetID frame) (d_Timeslot frame), rt_repeat = False\<rparr>)
       (sortedQSPLinks c) @
     (case en_LinkedServerPeers en of None \<Rightarrow> []
      | Some ps \<Rightarrow> map (\<lambda>p. \<lparr>rt_Endpoint = peer_endpoint p (d_TargetID frame) (d_Timeslot frame), rt_repeat = False\<rparr>)
          (filter (\<lambda>p. p \<noteq> from) ps))"

definition unlocatedResult :: "hbp_data \<Rightarrow> result \<Rightarrow> result" where
  "unlocatedResult frame partial =
     partial\<lparr>rs_Reason := RadioNotHeard (d_TargetID frame), rs_NoHomebrewDestination := True\<rparr>"

text \<open>The targets before the local filter, with \<open>unlocated\<close>; \<open>Inl\<close> is an early return.\<close>

definition route_targets ::
  "core \<Rightarrow> env \<Rightarrow> endpoint \<Rightarrow> hbp_data \<Rightarrow> decision \<Rightarrow> result + routeTarget list \<times> bool" where
  "route_targets c en origin frame decision =
     (let bridged = map (\<lambda>e. \<lparr>rt_Endpoint = e, rt_repeat = False\<rparr>) (dc_Targets decision);
          group = (if co_repeat c \<and> d_CallType frame = CallGroup then bridged @ repeat_targets c frame else bridged)
      in if co_repeat c \<and> d_CallType frame = CallPrivate then
           case en_LocateFor en of
             None \<Rightarrow> Inl (zero_result\<lparr>rs_Reason := PrivateNotRouted\<rparr>)
           | Some locate \<Rightarrow>
             (case locate (d_TargetID frame) of
                Some (peer, slot) \<Rightarrow>
                  Inr (group @ [\<lparr>rt_Endpoint = peer_endpoint peer (d_TargetID frame) slot, rt_repeat = True\<rparr>], False)
              | None \<Rightarrow>
                  let targets = group @ neighbour_targets c en (ep_Peer origin) frame in
                  if targets = [] then Inl (unlocatedResult frame zero_result) else Inr (targets, True))
         else Inr (group, False))"

section \<open>routeScoped\<close>

definition source_key :: "endpoint \<Rightarrow> hbp_data \<Rightarrow> sourceKey" where
  "source_key origin frame = \<lparr>sk_peer = ep_Peer origin, sk_stream = d_StreamID frame, sk_slot = d_Timeslot frame,
     sk_upstream = ep_Upstream origin, sk_transcoder = ep_Transcoder origin\<rparr>"

definition reserve_origin ::
  "core \<Rightarrow> bool \<Rightarrow> endpoint \<Rightarrow> hbp_data \<Rightarrow> sourceKey \<Rightarrow> string \<Rightarrow> time \<Rightarrow> core" where
  "reserve_origin c opening origin frame src bridge now =
     (let key = contend origin in
      if opening then
        if (case mget (co_busy c) key of None \<Rightarrow> True | Some held \<Rightarrow> Sub now (rv_lastSeen held) > co_timeout c)
        then c\<lparr>co_busy := mput key (new_reservation origin frame src bridge now) (co_busy c)\<rparr> else c
      else (case mget (co_busy c) key of
              Some held \<Rightarrow> if rv_source held = src
                then c\<lparr>co_busy := mput key (touch held frame now) (co_busy c)\<rparr> else c
            | None \<Rightarrow> c))"

definition withheld_drops :: "endpoint \<Rightarrow> endpoint list \<Rightarrow> drop list" where
  "withheld_drops origin es =
     map (\<lambda>e. (plain_drop e (NotOptedIn (ep_Peer e) (ep_Transcoder origin)))\<lparr>dr_NotACollision := True\<rparr>) es"

definition finish :: "hbp_data \<Rightarrow> bool \<Rightarrow> result \<Rightarrow> result" where
  "finish frame unlocated res =
     (if rs_Deliveries res = [] \<and> rs_Upstreams res = [] \<and> rs_Transcoders res = [] \<and>
         rs_Reason res = NoResultReason then
        if unlocated then unlocatedResult frame res
        else if list_ex (\<lambda>d. \<not> dr_NotAJudgement d) (rs_Drops res) then
          res\<lparr>rs_Reason := EveryDestinationRefused\<rparr>
        else res\<lparr>rs_Reason := NothingOnHomebrewSide, rs_NoHomebrewDestination := True\<rparr>
      else res)"

text \<open>The second half of \<open>routeScoped\<close>: the frame has targets and is not a duplicate.\<close>

definition carry ::
  "env \<Rightarrow> endpoint \<Rightarrow> hbp_data \<Rightarrow> time \<Rightarrow> decision \<Rightarrow> RepeaterID list \<Rightarrow> bool \<Rightarrow> routeTarget list \<Rightarrow> core \<Rightarrow>
   core \<times> result" where
  "carry en origin frame now decision linked unlocated targets c =
     (let src = source_key origin frame;
          opening = (\<not> holdsAnyFor c src);
          bridge = (case dc_Bridges decision of [] \<Rightarrow> [] | b # _ \<Rightarrow> b);
          c1 = reserve_origin c opening origin frame src bridge now;
          cx = \<lparr>cx_origin = origin, cx_frame = frame, cx_src = src, cx_bridge = bridge, cx_now = now,
                cx_linkedPeers = linked\<rparr>;
          a = fold (deliver_target en cx) targets
            \<lparr>ra_core = c1, ra_res = zero_result\<lparr>rs_Drops := withheld_drops origin (dc_Withheld decision)\<rparr>,
             ra_delivered = []\<rparr>;
          c2 = (if IsTerminator frame \<and> \<not> opening then release (ra_core a) src else ra_core a)
      in (c2, finish frame unlocated (ra_res a)))"

definition routeScoped :: "core \<Rightarrow> env \<Rightarrow> endpoint \<Rightarrow> hbp_data \<Rightarrow> time \<Rightarrow> bool \<Rightarrow> core \<times> result" where
  "routeScoped c en origin frame now local =
     (if \<not> talkgroupAllowed c frame (ep_Timeslot origin) (ep_Talkgroup origin) then
        (c, zero_result\<lparr>rs_Reason := IngressRefused (ep_Talkgroup origin) (ep_Timeslot origin)\<rparr>)
      else let decision = Route (co_table c) origin in
        case route_targets c en origin frame decision of
          Inl r \<Rightarrow> (c, r)
        | Inr (targets0, unlocated) \<Rightarrow>
            let targets = (if local
                  then filter (\<lambda>t. ep_Upstream (rt_Endpoint t) = [] \<and> ep_Transcoder (rt_Endpoint t) = []) targets0
                  else targets0);
                linked = (if local then case en_LinkedServerPeers en of None \<Rightarrow> [] | Some ps \<Rightarrow> ps else []) in
            if targets = [] then
              (c, zero_result\<lparr>rs_Reason := (if dc_Reason decision \<noteq> NoReason then TableReason (dc_Reason decision)
                                            else NothingConfigured)\<rparr>)
            else case duplicate c frame (source_key origin frame) now of
                (c', Some holder) \<Rightarrow> (c', zero_result\<lparr>rs_Reason := AlreadyCarried holder\<rparr>)
              | (c', None) \<Rightarrow> carry en origin frame now decision linked unlocated targets c')"

definition Core_Route :: "core \<Rightarrow> env \<Rightarrow> RepeaterID \<Rightarrow> hbp_data \<Rightarrow> time \<Rightarrow> core \<times> result" where
  "Core_Route c en from frame now =
     routeScoped c en (peer_endpoint from (d_TargetID frame) (d_Timeslot frame)) frame now False"

definition RouteFromUpstream :: "core \<Rightarrow> env \<Rightarrow> string \<Rightarrow> hbp_data \<Rightarrow> time \<Rightarrow> core \<times> result" where
  "RouteFromUpstream c en name frame now =
     routeScoped c en (link_endpoint name (d_TargetID frame) (d_Timeslot frame)) frame now False"

definition RouteFromTranscoder :: "core \<Rightarrow> env \<Rightarrow> string \<Rightarrow> hbp_data \<Rightarrow> time \<Rightarrow> core \<times> result" where
  "RouteFromTranscoder c en name frame now =
     routeScoped c en (transcoder_endpoint name (d_TargetID frame) (d_Timeslot frame)) frame now False"

definition RouteFromServer :: "core \<Rightarrow> env \<Rightarrow> hbp_data \<Rightarrow> time \<Rightarrow> core \<times> result" where
  "RouteFromServer c en frame now =
     routeScoped c en (peer_endpoint ServerOrigin (d_TargetID frame) (d_Timeslot frame)) frame now False"

definition RouteLocalFromServer :: "core \<Rightarrow> env \<Rightarrow> hbp_data \<Rightarrow> time \<Rightarrow> core \<times> result" where
  "RouteLocalFromServer c en frame now =
     routeScoped c en (peer_endpoint ServerOrigin (d_TargetID frame) (d_Timeslot frame)) frame now True"

section \<open>Expiry and observation\<close>

record freed =
  fr_Endpoint :: endpoint
  fr_Voice :: bool

definition abandoned :: "core \<Rightarrow> time \<Rightarrow> reservation \<Rightarrow> bool" where
  "abandoned c now held \<longleftrightarrow> Sub now (rv_lastSeen held) > co_timeout c"

definition Core_Expire :: "core \<Rightarrow> time \<Rightarrow> core \<times> freed list" where
  "Core_Expire c now =
     (c\<lparr>co_busy := msweep (\<lambda>k held. abandoned c now held) (co_busy c)\<rparr>,
      sort_by (\<lambda>x y. endpointBefore (fr_Endpoint x) (fr_Endpoint y))
        (map (\<lambda>kv. \<lparr>fr_Endpoint = rv_endpoint (snd kv), fr_Voice = rv_voice (snd kv)\<rparr>)
          (filter (\<lambda>kv. abandoned c now (snd kv)) (co_busy c))))"

definition BusyCount :: "core \<Rightarrow> nat" where
  "BusyCount c = length (co_busy c)"

definition Busy :: "core \<Rightarrow> endpoint list" where
  "Busy c = sortEndpoints (map (\<lambda>kv. rv_endpoint (snd kv)) (co_busy c))"

end
