(* ===== verification/Triggers.thy ===== *)
theory Triggers
  imports Routing_Table
begin

text \<open>
  \<^verbatim>\<open>internal/routing/trigger.go\<close>: bridges held open by activity.  The state is the map \<open>lastUsed\<close>;
  \<open>Observe\<close> writes it, \<open>Expire\<close> forgets, \<open>ActiveAt\<close> and \<open>OpenFor\<close> read.  A nil receiver answers
  every operation as the set built from no triggers does, and is not modelled apart.  The lemmas
  show when a bridge is open, that \<open>Observe\<close> reports exactly the bridges it opened, and, through
  the \<open>expiring_table\<close> interface, that forgetting never closes an open bridge as long as no two
  triggers name one bridge; where two do, it can.
\<close>

section \<open>Model\<close>

definition DefaultHangTime :: duration where
  "DefaultHangTime = 3 * minute"

definition MaxHangTime :: duration where
  "MaxHangTime = 30 * minute"

record trigger =
  tr_Bridge :: string
  tr_On :: "endpoint list"
  tr_HangTime :: duration
  tr_Enabled :: bool

datatype trigger_error = TriggerUnnamed | TriggerNoEndpoints string
  | TriggerEndpoint string nat endpoint_error | TriggerNegative string | TriggerTooLong string duration

fun trigger_endpoints :: "string \<Rightarrow> nat \<Rightarrow> endpoint list \<Rightarrow> trigger_error option" where
  "trigger_endpoints name i [] = None"
| "trigger_endpoints name i (e # es) =
     (case Endpoint_Validate e of Some err \<Rightarrow> Some (TriggerEndpoint name i err)
      | None \<Rightarrow> trigger_endpoints name (i + 1) es)"

definition Trigger_Validate :: "trigger \<Rightarrow> trigger_error option" where
  "Trigger_Validate t =
     (if tr_Bridge t = [] then Some TriggerUnnamed
      else if tr_On t = [] then Some (TriggerNoEndpoints (tr_Bridge t))
      else case trigger_endpoints (tr_Bridge t) 0 (tr_On t) of
          Some err \<Rightarrow> Some err
        | None \<Rightarrow> if tr_HangTime t < 0 then Some (TriggerNegative (tr_Bridge t))
                  else if tr_HangTime t > MaxHangTime then
                    Some (TriggerTooLong (tr_Bridge t) (tr_HangTime t))
                  else None)"

definition hangTime :: "trigger \<Rightarrow> duration" where
  "hangTime t = (if tr_HangTime t \<le> 0 then DefaultHangTime else tr_HangTime t)"

definition trigger_matches :: "trigger \<Rightarrow> endpoint \<Rightarrow> bool" where
  "trigger_matches t from = list_ex (\<lambda>e. Matches e from) (tr_On t)"

record triggers =
  tg_triggers :: "trigger list"
  tg_lastUsed :: "(string, time) gomap"

fun check_triggers :: "trigger list \<Rightarrow> trigger list \<Rightarrow> trigger_error + trigger list" where
  "check_triggers [] acc = Inr acc"
| "check_triggers (t # ts) acc =
     (case Trigger_Validate t of Some err \<Rightarrow> Inl err | None \<Rightarrow> check_triggers ts (acc @ [t]))"

definition NewTriggers :: "trigger list \<Rightarrow> trigger_error + triggers" where
  "NewTriggers ts = map_sum (\<lambda>e. e) (\<lambda>out. \<lparr>tg_triggers = out, tg_lastUsed = []\<rparr>) (check_triggers ts [])"

fun observe_loop :: "endpoint \<Rightarrow> time \<Rightarrow> trigger list \<Rightarrow> string list \<times> (string, time) gomap \<Rightarrow>
    string list \<times> (string, time) gomap" where
  "observe_loop from now [] acc = acc"
| "observe_loop from now (t # ts) (opened, used) =
     (if \<not> tr_Enabled t \<or> \<not> trigger_matches t from then observe_loop from now ts (opened, used)
      else let closed = (case mget used (tr_Bridge t) of None \<Rightarrow> True | Some prev \<Rightarrow> Sub now prev > hangTime t)
           in observe_loop from now ts
                (if closed then opened @ [tr_Bridge t] else opened, mput (tr_Bridge t) now used))"

definition Observe :: "triggers \<Rightarrow> endpoint \<Rightarrow> time \<Rightarrow> string list \<times> triggers" where
  "Observe t from now =
     (case observe_loop from now (tg_triggers t) ([], tg_lastUsed t) of
        (opened, used) \<Rightarrow> (sort_Strings opened, t\<lparr>tg_lastUsed := used\<rparr>))"

fun active_loop :: "(string, time) gomap \<Rightarrow> time \<Rightarrow> trigger list \<Rightarrow> (string, bool) gomap \<Rightarrow> (string, bool) gomap" where
  "active_loop used now [] active = active"
| "active_loop used now (t # ts) active =
     (if \<not> tr_Enabled t then active_loop used now ts active
      else case mget used (tr_Bridge t) of
          Some prev \<Rightarrow> active_loop used now ts
            (if Sub now prev \<le> hangTime t then mput (tr_Bridge t) True active else active)
        | None \<Rightarrow> active_loop used now ts active)"

definition ActiveAt :: "triggers \<Rightarrow> time \<Rightarrow> (string, bool) gomap" where
  "ActiveAt t now = active_loop (tg_lastUsed t) now (tg_triggers t) []"

text \<open>The map \<open>hang\<close> that \<open>Expire\<close> builds: the prev trigger naming a bridge decides, enabled or not.\<close>

definition hang_limits :: "trigger list \<Rightarrow> (string, duration) gomap" where
  "hang_limits ts = fold (\<lambda>t. mput (tr_Bridge t) (hangTime t)) ts []"

definition lapsed :: "triggers \<Rightarrow> time \<Rightarrow> string \<Rightarrow> time \<Rightarrow> bool" where
  "lapsed t now b prev =
     (case mget (hang_limits (tg_triggers t)) b of None \<Rightarrow> True | Some limit \<Rightarrow> Sub now prev > limit)"

definition Triggers_Expire :: "triggers \<Rightarrow> time \<Rightarrow> string list \<times> triggers" where
  "Triggers_Expire t now =
     (let closed = map fst (filter (\<lambda>kv. lapsed t now (fst kv) (snd kv)) (tg_lastUsed t))
      in (sort_Strings closed, t\<lparr>tg_lastUsed := msweep (lapsed t now) (tg_lastUsed t)\<rparr>))"

definition Triggers_Bridges :: "triggers \<Rightarrow> string list" where
  "Triggers_Bridges t = sort_Strings (rev (remdups (rev (map tr_Bridge (tg_triggers t)))))"

fun open_loop :: "(string, time) gomap \<Rightarrow> string \<Rightarrow> time \<Rightarrow> trigger list \<Rightarrow> duration" where
  "open_loop used b now [] = 0"
| "open_loop used b now (t # ts) =
     (if tr_Bridge t \<noteq> b \<or> \<not> tr_Enabled t then open_loop used b now ts
      else case mget used b of
          Some prev \<Rightarrow> (let remaining = hangTime t - Sub now prev in
             if remaining > 0 then remaining else open_loop used b now ts)
        | None \<Rightarrow> open_loop used b now ts)"

definition OpenFor :: "triggers \<Rightarrow> string \<Rightarrow> time \<Rightarrow> duration" where
  "OpenFor t b now = open_loop (tg_lastUsed t) b now (tg_triggers t)"

definition EndpointOf :: "RepeaterID \<Rightarrow> hbp_data \<Rightarrow> endpoint" where
  "EndpointOf peer frame = \<lparr>ep_Peer = peer, ep_Upstream = [], ep_Transcoder = [],
     ep_Talkgroup = d_TargetID frame, ep_Timeslot = d_Timeslot frame\<rparr>"

section \<open>When a bridge is open\<close>

text \<open>One trigger holds its bridge open at \<open>now\<close>; a bridge is open when one of its enabled triggers does.\<close>

definition holds_open :: "(string, time) gomap \<Rightarrow> time \<Rightarrow> trigger \<Rightarrow> bool" where
  "holds_open used now t \<longleftrightarrow> tr_Enabled t \<and>
     (case mget used (tr_Bridge t) of None \<Rightarrow> False | Some prev \<Rightarrow> Sub now prev \<le> hangTime t)"

definition is_open :: "triggers \<Rightarrow> string \<Rightarrow> time \<Rightarrow> bool" where
  "is_open t b now \<longleftrightarrow> mget (ActiveAt t now) b = Some True"

definition trig_ok :: "triggers \<Rightarrow> bool" where
  "trig_ok t \<longleftrightarrow> mwf (tg_lastUsed t)"

definition one_each :: "triggers \<Rightarrow> bool" where
  "one_each t \<longleftrightarrow> distinct (map tr_Bridge (tg_triggers t))"

lemma hangTime_pos: "0 < hangTime t"
  by (simp add: hangTime_def DefaultHangTime_def)

lemma active_loop_iff: "mget (active_loop used now ts act) b = Some True \<longleftrightarrow>
    mget act b = Some True \<or> (\<exists>t \<in> set ts. tr_Bridge t = b \<and> holds_open used now t)"
  by (induction used now ts act rule: active_loop.induct) (auto simp: holds_open_def split: option.splits)

lemma is_open_iff: "is_open t b now \<longleftrightarrow>
    (\<exists>tr \<in> set (tg_triggers t). tr_Bridge tr = b \<and> holds_open (tg_lastUsed t) now tr)"
  by (simp add: is_open_def ActiveAt_def active_loop_iff)

lemma is_open_single:
  assumes "one_each t" "tr \<in> set (tg_triggers t)"
  shows "is_open t (tr_Bridge tr) now \<longleftrightarrow> holds_open (tg_lastUsed t) now tr"
proof -
  have "tr' = tr" if "tr' \<in> set (tg_triggers t)" "tr_Bridge tr' = tr_Bridge tr" for tr'
    using assms that by (auto simp: one_each_def distinct_map dest: inj_onD)
  then show ?thesis using assms by (auto simp: is_open_iff)
qed

lemma open_loop_le: "open_loop used b now ts > 0 \<longleftrightarrow>
    (\<exists>t \<in> set ts. tr_Bridge t = b \<and> tr_Enabled t \<and>
      (case mget used b of None \<Rightarrow> False | Some prev \<Rightarrow> hangTime t - Sub now prev > 0))"
  by (induction used b now ts rule: open_loop.induct) (auto simp: Let_def split: option.splits)

lemma OpenFor_open: "OpenFor t b now > 0 \<Longrightarrow> is_open t b now"
  unfolding OpenFor_def open_loop_le is_open_iff holds_open_def by (fastforce split: option.splits)

section \<open>Observe\<close>

definition touches :: "endpoint \<Rightarrow> trigger \<Rightarrow> bool" where
  "touches from t \<longleftrightarrow> tr_Enabled t \<and> trigger_matches t from"

lemma observe_step: "observe_loop from now (t # ts) (acc, used) =
    (if touches from t then observe_loop from now ts
       (if holds_open used now t then acc else acc @ [tr_Bridge t], mput (tr_Bridge t) now used)
     else observe_loop from now ts (acc, used))"
  by (auto simp: touches_def holds_open_def Let_def split: option.splits)

lemma observe_used: "mget (snd (observe_loop from now ts (acc, used))) b =
    (if \<exists>t \<in> set ts. touches from t \<and> tr_Bridge t = b then Some now else mget used b)"
proof (induction ts arbitrary: acc used)
  case (Cons t ts)
  then show ?case unfolding observe_step by (auto simp del: observe_loop.simps)
qed simp

lemma observe_wf: "mwf used \<Longrightarrow> mwf (snd (observe_loop from now ts (acc, used)))"
proof (induction ts arbitrary: acc used)
  case (Cons t ts)
  then show ?case unfolding observe_step by (simp del: observe_loop.simps)
qed simp

lemma holds_open_mput: "tr_Bridge t \<noteq> b \<Longrightarrow> holds_open (mput b x used) now t = holds_open used now t"
  by (simp add: holds_open_def)

lemma observe_opened:
  assumes "distinct (map tr_Bridge ts)"
  shows "b \<in> set (fst (observe_loop from now ts (acc, used))) \<longleftrightarrow>
    b \<in> set acc \<or> (\<exists>t \<in> set ts. tr_Bridge t = b \<and> touches from t \<and> \<not> holds_open used now t)"
  using assms
proof (induction ts arbitrary: acc used)
  case (Cons t ts)
  have same: "holds_open (mput (tr_Bridge t) now used) now t' = holds_open used now t'"
    if "t' \<in> set ts" for t'
    using that Cons.prems by (intro holds_open_mput) (auto simp: image_iff)
  have ex: "(\<exists>t' \<in> set ts. tr_Bridge t' = b \<and> touches from t' \<and> \<not> holds_open (mput (tr_Bridge t) now used) now t') \<longleftrightarrow>
      (\<exists>t' \<in> set ts. tr_Bridge t' = b \<and> touches from t' \<and> \<not> holds_open used now t')"
    using same by blast
  show ?case
    using Cons by (cases "touches from t") (auto simp: observe_step ex simp del: observe_loop.simps)
qed simp

lemma Observe_used: "tg_lastUsed (snd (Observe t from now)) =
    snd (observe_loop from now (tg_triggers t) ([], tg_lastUsed t))"
  "tg_triggers (snd (Observe t from now)) = tg_triggers t"
  "set (fst (Observe t from now)) = set (fst (observe_loop from now (tg_triggers t) ([], tg_lastUsed t)))"
  by (simp_all add: Observe_def split: prod.splits)

lemma trig_ok_Observe: "trig_ok t \<Longrightarrow> trig_ok (snd (Observe t from now))"
  by (simp add: trig_ok_def Observe_used observe_wf)

lemma one_each_Observe: "one_each (snd (Observe t from now)) = one_each t"
  by (simp add: one_each_def Observe_used)

lemma Observe_mget: "mget (tg_lastUsed (snd (Observe t from now))) b =
    (if \<exists>tr \<in> set (tg_triggers t). touches from tr \<and> tr_Bridge tr = b then Some now
     else mget (tg_lastUsed t) b)"
  by (simp add: Observe_used observe_used)

section \<open>Expire\<close>

lemma hang_limits_mget:
  assumes "distinct (map tr_Bridge ts)" "tr \<in> set ts"
  shows "mget (hang_limits ts) (tr_Bridge tr) = Some (hangTime tr)"
proof -
  have "mget (fold (\<lambda>t. mput (tr_Bridge t) (hangTime t)) ts m) b =
      (case map_of (map (\<lambda>t. (tr_Bridge t, hangTime t)) ts) b of Some d \<Rightarrow> Some d | None \<Rightarrow> mget m b)"
    if "distinct (map tr_Bridge ts)" for m b
    using that
  proof (induction ts arbitrary: m)
    case (Cons t ts)
    have "map_of (map (\<lambda>t. (tr_Bridge t, hangTime t)) ts) (tr_Bridge t) = None"
      using Cons.prems by (simp add: map_of_eq_None_iff image_image)
    with Cons show ?case by (auto split: option.splits)
  qed simp
  moreover have "map_of (map (\<lambda>t. (tr_Bridge t, hangTime t)) ts) (tr_Bridge tr) = Some (hangTime tr)"
    using assms by (intro map_of_is_SomeI) (auto simp: comp_def)
  ultimately show ?thesis using assms(1) by (simp add: hang_limits_def)
qed

lemma Expire_fields: "tg_triggers (snd (Triggers_Expire t now)) = tg_triggers t"
  "tg_lastUsed (snd (Triggers_Expire t now)) = msweep (lapsed t now) (tg_lastUsed t)"
  by (simp_all add: Triggers_Expire_def Let_def)

interpretation triggered: expiring_table
  "\<lambda>t. mget (tg_lastUsed t)" "\<lambda>now t. snd (Triggers_Expire t now)" lapsed trig_ok
proof
  fix t now k
  assume "trig_ok t"
  then show "mget (tg_lastUsed (snd (Triggers_Expire t now))) k =
      (case mget (tg_lastUsed t) k of None \<Rightarrow> None | Some v \<Rightarrow> if lapsed t now k v then None else Some v)"
    by (simp add: Expire_fields trig_ok_def mget_msweep)
next
  fix t now
  show "lapsed (snd (Triggers_Expire t now)) = lapsed t"
    by (simp add: lapsed_def Expire_fields fun_eq_iff)
next
  fix t now
  assume "trig_ok t"
  then show "trig_ok (snd (Triggers_Expire t now))" by (simp add: trig_ok_def Expire_fields)
next
  fix t now now' k v
  assume "lapsed t now k v" "now \<le> now'"
  then show "lapsed t now' k v"
    using Sub_mono [of now now' v] by (auto simp: lapsed_def split: option.splits)
qed

lemma holds_open_Expire:
  assumes "trig_ok t" "one_each t" "tr \<in> set (tg_triggers t)" "now \<le> now'"
  shows "holds_open (tg_lastUsed (snd (Triggers_Expire t now))) now' tr = holds_open (tg_lastUsed t) now' tr"
proof (cases "mget (tg_lastUsed t) (tr_Bridge tr)")
  case None
  then show ?thesis using assms(1) triggered.look_sweep [of t now] by (simp add: holds_open_def)
next
  case (Some prev)
  have "lapsed t now (tr_Bridge tr) prev \<longleftrightarrow> hangTime tr < Sub now prev"
    using assms by (simp add: lapsed_def one_each_def hang_limits_mget)
  then show ?thesis
    using assms(1,4) Some triggered.look_sweep [of t now "tr_Bridge tr"] Sub_mono [of now now' prev]
    by (auto simp: holds_open_def)
qed

text \<open>
  the hang timer.  After a transmission at \<open>from\<close> an enabled trigger that listens there holds its
  bridge open from that instant for exactly its hang time, whatever happened before; and
  \<open>Observe\<close> reports exactly the bridges that were closed at that instant and are open because of it.
\<close>

lemma Observe_opens:
  assumes "one_each t" "tr \<in> set (tg_triggers t)" "tr_Enabled tr" "trigger_matches tr from"
  shows "(is_open (snd (Observe t from now)) (tr_Bridge tr) now' \<longleftrightarrow> Sub now' now \<le> hangTime tr) \<and>
    (tr_Bridge tr \<in> set (fst (Observe t from now)) \<longleftrightarrow> \<not> is_open t (tr_Bridge tr) now)"
proof
  have touch: "touches from tr" using assms by (simp add: touches_def)
  have "mget (tg_lastUsed (snd (Observe t from now))) (tr_Bridge tr) = Some now"
    using touch assms(2) by (auto simp: Observe_mget)
  moreover have "one_each (snd (Observe t from now))" using assms(1) by (simp add: one_each_Observe)
  ultimately show "is_open (snd (Observe t from now)) (tr_Bridge tr) now' \<longleftrightarrow> Sub now' now \<le> hangTime tr"
    using assms is_open_single [of "snd (Observe t from now)" tr] by (simp add: Observe_used holds_open_def)
  have same: "tr' = tr" if "tr' \<in> set (tg_triggers t)" "tr_Bridge tr' = tr_Bridge tr" for tr'
    using assms that by (auto simp: one_each_def distinct_map dest: inj_onD)
  have "tr_Bridge tr \<in> set (fst (Observe t from now)) \<longleftrightarrow> \<not> holds_open (tg_lastUsed t) now tr"
    using assms(1,2) touch same unfolding one_each_def Observe_used(3) by (subst observe_opened) auto
  then show "tr_Bridge tr \<in> set (fst (Observe t from now)) \<longleftrightarrow> \<not> is_open t (tr_Bridge tr) now"
    using assms by (simp add: is_open_single)
qed

definition demo_trigger :: "duration \<Rightarrow> bool \<Rightarrow> trigger" where
  "demo_trigger d en = \<lparr>tr_Bridge = ''net'', tr_On = [demo_peer 0], tr_HangTime = d, tr_Enabled = en\<rparr>"

definition demo_triggers :: triggers where
  "demo_triggers = \<lparr>tg_triggers = [demo_trigger (10 * minute) True], tg_lastUsed = []\<rparr>"

lemma Observe_opens_witness:
  "is_open (snd (Observe demo_triggers (demo_peer 7) second)) ''net'' (5 * minute) \<and>
   \<not> is_open (snd (Observe demo_triggers (demo_peer 7) second)) ''net'' (11 * minute)"
proof -
  have "one_each demo_triggers" "demo_trigger (10 * minute) True \<in> set (tg_triggers demo_triggers)"
    "tr_Enabled (demo_trigger (10 * minute) True)"
    "trigger_matches (demo_trigger (10 * minute) True) (demo_peer 7)"
    by (simp_all add: one_each_def demo_triggers_def demo_trigger_def trigger_matches_def demo_table_simps)
  from Observe_opens [OF this, of second] show ?thesis
    by (simp add: demo_trigger_def hangTime_def Sub_def minDuration_def maxDuration_def)
qed

text \<open>
  forgetting is invisible.  When no two triggers name the same bridge, \<open>Expire\<close> at an instant
  changes no answer of \<open>ActiveAt\<close> at that instant or later: it forgets only bridges that are closed
  and would stay closed.
\<close>

lemma Expire_keeps_open:
  assumes "trig_ok t" "one_each t" "now \<le> now'"
  shows "is_open (snd (Triggers_Expire t now)) b now' = is_open t b now'"
proof -
  have "holds_open (tg_lastUsed (snd (Triggers_Expire t now))) now' tr = holds_open (tg_lastUsed t) now' tr"
    if "tr \<in> set (tg_triggers t)" for tr
    using holds_open_Expire [OF assms(1,2) that assms(3)] .
  then show ?thesis by (auto simp: is_open_iff Expire_fields)
qed

lemma Expire_keeps_open_witness:
  "trig_ok (demo_triggers\<lparr>tg_lastUsed := [(''net'', second)]\<rparr>) \<and>
   is_open (snd (Triggers_Expire (demo_triggers\<lparr>tg_lastUsed := [(''net'', second)]\<rparr>) minute)) ''net'' (2 * minute)"
proof -
  let ?t = "demo_triggers\<lparr>tg_lastUsed := [(''net'', second)]\<rparr>"
  have "trig_ok ?t" "one_each ?t"
    by (simp_all add: trig_ok_def mwf_def one_each_def demo_triggers_def)
  moreover have "is_open ?t ''net'' (2 * minute)"
    by (simp add: is_open_iff holds_open_def demo_triggers_def demo_trigger_def mget_Cons hangTime_def
        Sub_def minDuration_def maxDuration_def)
  ultimately show ?thesis using Expire_keeps_open [of ?t minute "2 * minute" "''net''"] by simp
qed

definition clashing_triggers :: "trigger list" where
  "clashing_triggers = [demo_trigger (10 * minute) True, demo_trigger minute False]"

text \<open>
  the exception.  \<open>NewTriggers\<close> accepts two triggers for one bridge, and \<open>Expire\<close> then applies
  the last one's hang time even when that trigger is disabled: a bridge in use, which \<open>ActiveAt\<close>
  reports open for another eight minutes, is closed by the sweep.
\<close>

lemma Expire_closes_open_bridge:
  "NewTriggers clashing_triggers = Inr \<lparr>tg_triggers = clashing_triggers, tg_lastUsed = []\<rparr> \<and>
   is_open \<lparr>tg_triggers = clashing_triggers, tg_lastUsed = [(''net'', second)]\<rparr> ''net'' (2 * minute) \<and>
   \<not> is_open (snd (Triggers_Expire \<lparr>tg_triggers = clashing_triggers, tg_lastUsed = [(''net'', second)]\<rparr>
       (2 * minute))) ''net'' (2 * minute)"
  by (simp add: clashing_triggers_def NewTriggers_def Trigger_Validate_def demo_trigger_def
      Endpoint_Validate_def demo_peer_def MaxHangTime_def is_open_iff holds_open_def mget_Cons
      hangTime_def Triggers_Expire_def lapsed_def hang_limits_def msweep_def Let_def
      Sub_def minDuration_def maxDuration_def AnyPeer_def)

end
