(* ===== verification/Routing_Laws.thy ===== *)
theory Routing_Laws
  imports Routing_Core Triggers
begin

text \<open>
  What the routing core guarantees.  Every law is an invariant of the loop over the targets
  (\<open>deliver_all_inv\<close>) that the four kinds of loop step keep; the contention laws rest on the four
  outcomes of \<open>contest\<close> (\<open>contest_cases\<close>).  The system of all operations is \<open>core_step\<close>.
\<close>

section \<open>Contention\<close>

lemma contest_cases:
  obtains (Exempt) held where "contest c dest frame src bridge now = (c, Exempt)"
      "mget (co_busy c) (contend dest) = Some held" "rv_source held \<noteq> src" "sameOrigin (rv_source held) src"
      "\<not> contendsForSlot frame"
  | (Held) held where "contest c dest frame src bridge now = (c, Held held)"
      "mget (co_busy c) (contend dest) = Some held" "rv_source held \<noteq> src"
      "Sub now (rv_lastSeen held) \<le> co_timeout c"
      "\<not> (sameOrigin (rv_source held) src \<and> \<not> contendsForSlot frame)"
  | (Started) "contest c dest frame src bridge now =
        (c\<lparr>co_busy := mput (contend dest) (new_reservation dest frame src bridge now) (co_busy c)\<rparr>, Started)"
      "\<And>held. mget (co_busy c) (contend dest) = Some held \<Longrightarrow>
        rv_source held \<noteq> src \<and> Sub now (rv_lastSeen held) > co_timeout c"
  | (Continued) held where "contest c dest frame src bridge now =
        (c\<lparr>co_busy := mput (contend dest) (touch held frame now) (co_busy c)\<rparr>, Continued)"
      "mget (co_busy c) (contend dest) = Some held" "rv_source held = src"
proof (cases "mget (co_busy c) (contend dest)")
  case None
  then show ?thesis by (intro Started) (simp_all add: contest_def Let_def)
next
  case (Some held)
  consider "rv_source held \<noteq> src" "sameOrigin (rv_source held) src" "\<not> contendsForSlot frame"
    | "rv_source held \<noteq> src" "\<not> (sameOrigin (rv_source held) src \<and> \<not> contendsForSlot frame)"
      "Sub now (rv_lastSeen held) \<le> co_timeout c"
    | "rv_source held \<noteq> src" "\<not> (sameOrigin (rv_source held) src \<and> \<not> contendsForSlot frame)"
      "\<not> Sub now (rv_lastSeen held) \<le> co_timeout c"
    | "rv_source held = src"
    by blast
  then show ?thesis
  proof cases
    case 1
    then show ?thesis using Some by (intro Exempt) (simp_all add: contest_def Let_def)
  next
    case 2
    then show ?thesis using Some by (intro Held) (auto simp: contest_def Let_def)
  next
    case 3
    then show ?thesis using Some by (intro Started) (auto simp: contest_def Let_def)
  next
    case 4
    then show ?thesis using Some by (intro Continued) (simp_all add: contest_def Let_def)
  qed
qed

text \<open>Everything but \<open>busy\<close> is untouched.\<close>

definition same_config :: "core \<Rightarrow> core \<Rightarrow> bool" where
  "same_config c c' \<longleftrightarrow> co_repeat c' = co_repeat c \<and> co_access c' = co_access c \<and> co_table c' = co_table c \<and>
     co_timeout c' = co_timeout c \<and> co_qspLinks c' = co_qspLinks c"

lemma same_config_refl [simp]: "same_config c c"
  by (simp add: same_config_def)

lemma same_config_trans: "same_config a b \<Longrightarrow> same_config b c \<Longrightarrow> same_config a c"
  by (simp add: same_config_def)

lemma contest_config: "contest c dest frame src bridge now = (c', oc) \<Longrightarrow>
    same_config c c' \<and> co_carrying c' = co_carrying c"
  by (rule contest_cases [of c dest frame src bridge now]) (auto simp: same_config_def)

text \<open>The reservation lets the transmission through: it is its own, or its station's and this is data.\<close>

definition granted :: "core \<Rightarrow> hbp_data \<Rightarrow> sourceKey \<Rightarrow> time \<Rightarrow> endpoint \<Rightarrow> bool" where
  "granted c frame src now k \<longleftrightarrow> (case mget (co_busy c) k of None \<Rightarrow> False | Some r \<Rightarrow>
     rv_source r = src \<and> rv_lastSeen r = now \<or> sameOrigin (rv_source r) src \<and> \<not> contendsForSlot frame)"

lemma contest_grants:
  assumes "contest c dest frame src bridge now = (c', oc)"
  shows "(\<forall>h. oc \<noteq> Held h) \<Longrightarrow> granted c' frame src now (contend dest)"
    and "granted c frame src now k \<Longrightarrow> granted c' frame src now k"
  by (rule contest_cases [of c dest frame src bridge now];
      use assms in \<open>auto simp: granted_def new_reservation_def touch_def split: option.splits\<close>)+

text \<open>Somebody else holds the destination, and this frame has no exemption.\<close>

definition blocked_by :: "core \<Rightarrow> hbp_data \<Rightarrow> sourceKey \<Rightarrow> time \<Rightarrow> endpoint \<Rightarrow> reservation \<Rightarrow> bool" where
  "blocked_by c frame src now k r \<longleftrightarrow> mget (co_busy c) k = Some r \<and> rv_source r \<noteq> src \<and>
     Sub now (rv_lastSeen r) \<le> co_timeout c \<and> (contendsForSlot frame \<or> \<not> sameOrigin (rv_source r) src)"

lemma contest_blocked:
  assumes "contest c dest frame src bridge now = (c', oc)" "blocked_by c frame src now k r"
  shows "blocked_by c' frame src now k r"
  by (rule contest_cases [of c dest frame src bridge now])
    (use assms in \<open>auto simp: blocked_by_def\<close>)

lemma granted_not_blocked: "granted c frame src now k \<Longrightarrow> \<not> blocked_by c frame src now k r"
  by (auto simp: granted_def blocked_by_def)

text \<open>The transmission \<open>s\<close> has held the destination since \<open>l\<close> or later.\<close>

definition held_since :: "core \<Rightarrow> endpoint \<Rightarrow> sourceKey \<Rightarrow> time \<Rightarrow> bool" where
  "held_since c k s l \<longleftrightarrow>
     (case mget (co_busy c) k of None \<Rightarrow> False | Some r \<Rightarrow> rv_source r = s \<and> l \<le> rv_lastSeen r)"

lemma Sub_antimono: "l \<le> l' \<Longrightarrow> Sub now l' \<le> Sub now l"
  by (simp add: Sub_def max_def min_def)

lemma contest_held_since:
  assumes "contest c dest frame src bridge now = (c', oc)" "held_since c k s l" "l \<le> now"
    "Sub now l \<le> co_timeout c"
  shows "held_since c' k s l"
proof (rule contest_cases [of c dest frame src bridge now])
  assume st: "contest c dest frame src bridge now =
        (c\<lparr>co_busy := mput (contend dest) (new_reservation dest frame src bridge now) (co_busy c)\<rparr>, Started)"
    and stale: "\<And>held. mget (co_busy c) (contend dest) = Some held \<Longrightarrow>
        rv_source held \<noteq> src \<and> Sub now (rv_lastSeen held) > co_timeout c"
  have "contend dest \<noteq> k"
    using assms(2,4) stale Sub_antimono [of l _ now] by (force simp: held_since_def split: option.splits)
  then show ?thesis using assms st by (auto simp: held_since_def)
qed (use assms in \<open>auto simp: held_since_def touch_def\<close>)

section \<open>The invariant of the reservations\<close>

definition busy_ok :: "(endpoint, reservation) gomap \<Rightarrow> bool" where
  "busy_ok m \<longleftrightarrow> mwf m \<and> list_all (\<lambda>kv. fst kv = contend (rv_endpoint (snd kv))) m"

definition links_ok :: "core \<Rightarrow> bool" where
  "links_ok c \<longleftrightarrow> list_all (\<lambda>kv. snd kv \<noteq> [] \<and> fst kv = ToLower (snd kv)) (co_qspLinks c)"

definition core_ok :: "core \<Rightarrow> bool" where
  "core_ok c \<longleftrightarrow> busy_ok (co_busy c) \<and> mwf (co_carrying c) \<and> 0 < co_timeout c \<and> links_ok c"

lemma busy_ok_mput: "busy_ok m \<Longrightarrow> k = contend (rv_endpoint r) \<Longrightarrow> busy_ok (mput k r m)"
  by (auto simp: busy_ok_def list_all_iff dest!: mput_set_cases)

lemma busy_ok_sweep: "busy_ok m \<Longrightarrow> busy_ok (msweep P m)"
  by (auto simp: busy_ok_def list_all_iff set_msweep)

lemma busy_ok_key: "busy_ok m \<Longrightarrow> mget m k = Some r \<Longrightarrow> k = contend (rv_endpoint r)"
  by (auto simp: busy_ok_def list_all_iff dest!: mget_SomeD)

lemma contest_busy_ok:
  assumes "contest c dest frame src bridge now = (c', oc)" "busy_ok (co_busy c)"
  shows "busy_ok (co_busy c')"
  by (rule contest_cases [of c dest frame src bridge now])
    (use assms busy_ok_key in \<open>auto simp: new_reservation_def touch_def intro!: busy_ok_mput\<close>)

section \<open>The loop over the targets\<close>

definition loop_allows :: "core \<Rightarrow> endpoint \<Rightarrow> endpoint \<Rightarrow> bool" where
  "loop_allows c origin target \<longleftrightarrow> ep_Upstream origin = [] \<or>
     \<not> EqualFold (ep_Upstream target) (ep_Upstream origin) \<and> isQSP c (ep_Upstream target)"

lemma deliver_all_inv:
  assumes "P a"
    and drop: "\<And>a d. P a \<Longrightarrow> P (add_drop d a)"
    and chip: "\<And>a t. t \<in> set targets \<Longrightarrow> kind (rt_Endpoint t) = kindTranscoder \<Longrightarrow> P a \<Longrightarrow>
      P (deliverTranscoder cx (rt_Endpoint t) a)"
    and link: "\<And>a t. t \<in> set targets \<Longrightarrow> kind (rt_Endpoint t) = kindUpstream \<Longrightarrow>
      loop_allows (ra_core a) (cx_origin cx) (rt_Endpoint t) \<Longrightarrow> P a \<Longrightarrow> P (deliverUpstream cx (rt_Endpoint t) a)"
    and peer: "\<And>a t p. t \<in> set targets \<Longrightarrow> kind (rt_Endpoint t) = kindPeer \<Longrightarrow>
      p \<in> set (resolve en (rt_Endpoint t)) \<Longrightarrow> P a \<Longrightarrow> P (deliver_peer en cx t p a)"
  shows "P (fold (deliver_target en cx) targets a)"
proof (rule fold_invariant [where Q = "\<lambda>t. t \<in> set targets"])
  fix t a
  assume t: "t \<in> set targets" and P: "P a"
  consider "kind (rt_Endpoint t) = kindTranscoder" | "kind (rt_Endpoint t) = kindUpstream"
    | "kind (rt_Endpoint t) = kindPeer" by (cases "kind (rt_Endpoint t)") auto
  then show "P (deliver_target en cx t a)"
  proof cases
    case 1
    then have "ep_Transcoder (rt_Endpoint t) \<noteq> []" by (auto simp: kind_def split: if_splits)
    then show ?thesis using chip [OF t 1 P] by (simp add: deliver_target_def Let_def)
  next
    case 2
    then have "ep_Transcoder (rt_Endpoint t) = []" "ep_Upstream (rt_Endpoint t) \<noteq> []"
      by (auto simp: kind_def split: if_splits)
    then show ?thesis using link [OF t 2 _ P] drop [OF P]
      by (auto simp: deliver_target_def Let_def loop_allows_def)
  next
    case 3
    then have k: "ep_Transcoder (rt_Endpoint t) = []" "ep_Upstream (rt_Endpoint t) = []"
      by (auto simp: kind_def split: if_splits)
    have "P (fold (deliver_peer en cx t) (resolve en (rt_Endpoint t)) a)"
      by (rule fold_invariant [where Q = "\<lambda>p. p \<in> set (resolve en (rt_Endpoint t))"])
        (use P peer [OF t 3] in auto)
    then show ?thesis using k by (simp add: deliver_target_def Let_def)
  qed
qed (use assms in auto)

section \<open>What one delivery does\<close>

definition claimed :: "route_ctx \<Rightarrow> endpoint \<Rightarrow> core \<Rightarrow> core \<Rightarrow> bool" where
  "claimed cx dest c c' \<longleftrightarrow> (\<exists>oc. (\<forall>h. oc \<noteq> Held h) \<and>
     contest c dest (cx_frame cx) (cx_src cx) (cx_bridge cx) (cx_now cx) = (c', oc)) \<and>
     talkgroupAllowed c (cx_frame cx) (ep_Timeslot dest) (ep_Talkgroup dest)"

lemma deliverUpstream_cases:
  obtains (Dropped) d where "deliverUpstream cx target a = add_drop d a"
  | (Sent) c' where "claimed cx target (ra_core a) c'" "ra_core (deliverUpstream cx target a) = c'"
      "rs_Upstreams (ra_res (deliverUpstream cx target a)) = rs_Upstreams (ra_res a) @
        [\<lparr>ud_Upstream = ep_Upstream target, ud_Frame = rewrite (cx_frame cx) target, ud_Bridge = cx_bridge cx\<rparr>]"
      "rs_Deliveries (ra_res (deliverUpstream cx target a)) = rs_Deliveries (ra_res a)"
      "rs_Transcoders (ra_res (deliverUpstream cx target a)) = rs_Transcoders (ra_res a)"
      "rs_Drops (ra_res (deliverUpstream cx target a)) = rs_Drops (ra_res a)"
      "rs_Reason (ra_res (deliverUpstream cx target a)) = rs_Reason (ra_res a)"
      "ra_delivered (deliverUpstream cx target a) = ra_delivered a"
proof -
  obtain c' oc where con: "contest (ra_core a) target (cx_frame cx) (cx_src cx) (cx_bridge cx) (cx_now cx) = (c', oc)"
    by fastforce
  show ?thesis
  proof (cases "talkgroupAllowed (ra_core a) (cx_frame cx) (ep_Timeslot target) (ep_Talkgroup target) \<and> (\<forall>h. oc \<noteq> Held h)")
    case True
    then show ?thesis using con
      by (intro Sent [of c']) (auto simp: deliverUpstream_def claimed_def split: contest_outcome.splits)
  next
    case False
    then have "\<exists>d. deliverUpstream cx target a = add_drop d a"
      using con by (cases oc) (auto simp: deliverUpstream_def)
    then show ?thesis using Dropped by blast
  qed
qed

lemma deliverTranscoder_cases:
  obtains (Dropped) d where "deliverTranscoder cx target a = add_drop d a"
  | (Sent) c' where "claimed cx target (ra_core a) c'" "ra_core (deliverTranscoder cx target a) = c'"
      "rs_Transcoders (ra_res (deliverTranscoder cx target a)) = rs_Transcoders (ra_res a) @
        [\<lparr>td_Transcoder = ep_Transcoder target, td_Frame = rewrite (cx_frame cx) target, td_Bridge = cx_bridge cx\<rparr>]"
      "rs_Deliveries (ra_res (deliverTranscoder cx target a)) = rs_Deliveries (ra_res a)"
      "rs_Upstreams (ra_res (deliverTranscoder cx target a)) = rs_Upstreams (ra_res a)"
      "rs_Drops (ra_res (deliverTranscoder cx target a)) = rs_Drops (ra_res a)"
      "rs_Reason (ra_res (deliverTranscoder cx target a)) = rs_Reason (ra_res a)"
      "ra_delivered (deliverTranscoder cx target a) = ra_delivered a"
proof -
  obtain c' oc where con: "contest (ra_core a) target (cx_frame cx) (cx_src cx) (cx_bridge cx) (cx_now cx) = (c', oc)"
    by fastforce
  show ?thesis
  proof (cases "talkgroupAllowed (ra_core a) (cx_frame cx) (ep_Timeslot target) (ep_Talkgroup target) \<and> (\<forall>h. oc \<noteq> Held h)")
    case True
    then show ?thesis using con
      by (intro Sent [of c'])
        (auto simp: deliverTranscoder_def claimed_def add_started_def Let_def split: contest_outcome.splits)
  next
    case False
    then have "\<exists>d. deliverTranscoder cx target a = add_drop d a"
      using con by (cases oc) (auto simp: deliverTranscoder_def)
    then show ?thesis using Dropped by blast
  qed
qed

definition peer_wants :: "env \<Rightarrow> route_ctx \<Rightarrow> routeTarget \<Rightarrow> RepeaterID \<Rightarrow> bool" where
  "peer_wants en cx t peer \<longleftrightarrow> rt_repeat t \<longrightarrow> d_CallType (cx_frame cx) \<noteq> CallPrivate \<longrightarrow>
     (case en_Attached en of None \<Rightarrow> True
      | Some att \<Rightarrow> att peer (ep_Talkgroup (rt_Endpoint t)) (ep_Timeslot (rt_Endpoint t)))"

definition peer_frame :: "route_ctx \<Rightarrow> routeTarget \<Rightarrow> RepeaterID \<Rightarrow> hbp_data" where
  "peer_frame cx t peer = (rewrite (cx_frame cx) (rt_Endpoint t))\<lparr>d_RepeaterID := peer\<rparr>"

definition may_reach :: "env \<Rightarrow> route_ctx \<Rightarrow> routeTarget \<Rightarrow> RepeaterID \<Rightarrow> bool" where
  "may_reach en cx t peer \<longleftrightarrow> \<not> (rt_repeat t \<and> peer = ep_Peer (cx_origin cx)) \<and>
     peer \<notin> set (cx_linkedPeers cx) \<and> peer_wants en cx t peer"

lemma deliver_peer_cases:
  obtains (Skipped) "deliver_peer en cx t peer a = a"
  | (Dropped) d where "deliver_peer en cx t peer a = add_drop d a"
  | (Sent) c' where "claimed cx (dest_of peer (rt_Endpoint t)) (ra_core a) c'" "may_reach en cx t peer"
      "ra_core (deliver_peer en cx t peer a) = c'"
      "rs_Deliveries (ra_res (deliver_peer en cx t peer a)) = rs_Deliveries (ra_res a) @
        (if peer \<in> set (ra_delivered a) then [] else
          [\<lparr>dv_Peer = peer, dv_Frame = peer_frame cx t peer, dv_Bridge = cx_bridge cx\<rparr>])"
      "ra_delivered (deliver_peer en cx t peer a) =
        (if peer \<in> set (ra_delivered a) then ra_delivered a else peer # ra_delivered a)"
      "rs_Upstreams (ra_res (deliver_peer en cx t peer a)) = rs_Upstreams (ra_res a)"
      "rs_Transcoders (ra_res (deliver_peer en cx t peer a)) = rs_Transcoders (ra_res a)"
      "rs_Drops (ra_res (deliver_peer en cx t peer a)) = rs_Drops (ra_res a)"
      "rs_Reason (ra_res (deliver_peer en cx t peer a)) = rs_Reason (ra_res a)"
proof -
  let ?dest = "dest_of peer (rt_Endpoint t)"
  obtain c' oc where con: "contest (ra_core a) ?dest (cx_frame cx) (cx_src cx) (cx_bridge cx) (cx_now cx) = (c', oc)"
    by fastforce
  consider "rt_repeat t \<and> peer = ep_Peer (cx_origin cx) \<or> peer \<in> set (cx_linkedPeers cx)"
    | "\<not> (rt_repeat t \<and> peer = ep_Peer (cx_origin cx))" "peer \<notin> set (cx_linkedPeers cx)"
      "\<not> (talkgroupAllowed (ra_core a) (cx_frame cx) (ep_Timeslot ?dest) (ep_Talkgroup ?dest) \<and>
         peer_wants en cx t peer)"
    | h where "\<not> (rt_repeat t \<and> peer = ep_Peer (cx_origin cx))" "peer \<notin> set (cx_linkedPeers cx)"
      "talkgroupAllowed (ra_core a) (cx_frame cx) (ep_Timeslot ?dest) (ep_Talkgroup ?dest)"
      "peer_wants en cx t peer" "oc = Held h"
    | "talkgroupAllowed (ra_core a) (cx_frame cx) (ep_Timeslot ?dest) (ep_Talkgroup ?dest)"
      "may_reach en cx t peer" "\<forall>h. oc \<noteq> Held h"
    unfolding may_reach_def by blast
  then show ?thesis
  proof cases
    case 1
    then show ?thesis by (intro Skipped) (auto simp: deliver_peer_def Let_def)
  next
    case 2
    then have "\<exists>d. deliver_peer en cx t peer a = add_drop d a"
      by (auto simp: deliver_peer_def Let_def peer_wants_def dest_of_def split: option.splits)
    then show ?thesis using Dropped by blast
  next
    case 3
    then have "\<exists>d. deliver_peer en cx t peer a = add_drop d a"
      using con by (auto simp: deliver_peer_def Let_def peer_wants_def dest_of_def split: option.splits)
    then show ?thesis using Dropped by blast
  next
    case 4
    have "deliver_peer en cx t peer a =
        (let r = add_started oc ?dest (ra_res a) in
         if peer \<in> set (ra_delivered a) then a\<lparr>ra_core := c', ra_res := r\<rparr>
         else a\<lparr>ra_core := c', ra_delivered := peer # ra_delivered a,
            ra_res := r\<lparr>rs_Deliveries := rs_Deliveries r @
              [\<lparr>dv_Peer = peer, dv_Frame = peer_frame cx t peer, dv_Bridge = cx_bridge cx\<rparr>]\<rparr>\<rparr>)"
      using 4 con
      by (cases oc) (auto simp: deliver_peer_def Let_def may_reach_def peer_wants_def dest_of_def
          peer_frame_def split: option.splits)
    then show ?thesis
      using 4 con by (intro Sent [of c']) (auto simp: claimed_def Let_def add_started_def)
  qed
qed

section \<open>The invariant of the loop\<close>

definition grant :: "route_ctx \<Rightarrow> core \<Rightarrow> endpoint \<Rightarrow> bool" where
  "grant cx c dest \<longleftrightarrow> granted c (cx_frame cx) (cx_src cx) (cx_now cx) (contend dest) \<and>
     talkgroupAllowed c (cx_frame cx) (ep_Timeslot dest) (ep_Talkgroup dest)"

definition good_delivery :: "env \<Rightarrow> route_ctx \<Rightarrow> routeTarget list \<Rightarrow> core \<Rightarrow> delivery \<Rightarrow> bool" where
  "good_delivery en cx targets c d \<longleftrightarrow> (\<exists>t \<in> set targets. kind (rt_Endpoint t) = kindPeer \<and>
     dv_Peer d \<in> set (resolve en (rt_Endpoint t)) \<and> may_reach en cx t (dv_Peer d) \<and>
     dv_Frame d = peer_frame cx t (dv_Peer d) \<and> grant cx c (dest_of (dv_Peer d) (rt_Endpoint t)))"

definition good_upstream :: "route_ctx \<Rightarrow> routeTarget list \<Rightarrow> core \<Rightarrow> upstream_delivery \<Rightarrow> bool" where
  "good_upstream cx targets c u \<longleftrightarrow> (\<exists>t \<in> set targets. kind (rt_Endpoint t) = kindUpstream \<and>
     loop_allows c (cx_origin cx) (rt_Endpoint t) \<and> ud_Upstream u = ep_Upstream (rt_Endpoint t) \<and>
     ud_Frame u = rewrite (cx_frame cx) (rt_Endpoint t) \<and> grant cx c (rt_Endpoint t))"

definition good_transcoder :: "route_ctx \<Rightarrow> routeTarget list \<Rightarrow> core \<Rightarrow> transcoder_delivery \<Rightarrow> bool" where
  "good_transcoder cx targets c x \<longleftrightarrow> (\<exists>t \<in> set targets. kind (rt_Endpoint t) = kindTranscoder \<and>
     td_Transcoder x = ep_Transcoder (rt_Endpoint t) \<and>
     td_Frame x = rewrite (cx_frame cx) (rt_Endpoint t) \<and> grant cx c (rt_Endpoint t))"

text \<open>How one step of the loop may change the core.\<close>

definition core_grows :: "route_ctx \<Rightarrow> core \<Rightarrow> core \<Rightarrow> bool" where
  "core_grows cx c c' \<longleftrightarrow> same_config c c' \<and> co_carrying c' = co_carrying c \<and>
     (busy_ok (co_busy c) \<longrightarrow> busy_ok (co_busy c')) \<and>
     (\<forall>k. granted c (cx_frame cx) (cx_src cx) (cx_now cx) k \<longrightarrow> granted c' (cx_frame cx) (cx_src cx) (cx_now cx) k) \<and>
     (\<forall>k r. blocked_by c (cx_frame cx) (cx_src cx) (cx_now cx) k r \<longrightarrow>
       blocked_by c' (cx_frame cx) (cx_src cx) (cx_now cx) k r) \<and>
     (\<forall>k s l. l \<le> cx_now cx \<longrightarrow> Sub (cx_now cx) l \<le> co_timeout c \<longrightarrow> held_since c k s l \<longrightarrow> held_since c' k s l)"

lemma core_grows_refl [simp]: "core_grows cx c c"
  by (simp add: core_grows_def)

lemma core_grows_trans: "core_grows cx a b \<Longrightarrow> core_grows cx b c \<Longrightarrow> core_grows cx a c"
  unfolding core_grows_def by (auto simp: same_config_def)

lemma claimed_grows:
  assumes "claimed cx dest c c'"
  shows "core_grows cx c c'"
proof -
  obtain oc where "contest c dest (cx_frame cx) (cx_src cx) (cx_bridge cx) (cx_now cx) = (c', oc)"
    using assms by (auto simp: claimed_def)
  note con = contest_config [OF this] contest_busy_ok [OF this] contest_grants(2) [OF this] contest_blocked [OF this]
    contest_held_since [OF this]
  show ?thesis unfolding core_grows_def using con by auto
qed

lemma talkgroupAllowed_config: "same_config c c' \<Longrightarrow> talkgroupAllowed c' f s g = talkgroupAllowed c f s g"
  by (simp add: talkgroupAllowed_def same_config_def)

lemma claimed_grant:
  assumes "claimed cx dest c c'"
  shows "grant cx c' dest"
proof -
  obtain oc where con: "contest c dest (cx_frame cx) (cx_src cx) (cx_bridge cx) (cx_now cx) = (c', oc)"
    and oc: "\<forall>h. oc \<noteq> Held h"
    and tg: "talkgroupAllowed c (cx_frame cx) (ep_Timeslot dest) (ep_Talkgroup dest)"
    using assms by (auto simp: claimed_def)
  have "same_config c c'" using claimed_grows [OF assms] by (simp add: core_grows_def)
  then show ?thesis
    using contest_grants(1) [OF con oc] tg by (simp add: grant_def talkgroupAllowed_config)
qed

lemma grant_grows: "core_grows cx c c' \<Longrightarrow> grant cx c dest \<Longrightarrow> grant cx c' dest"
  by (auto simp: grant_def core_grows_def talkgroupAllowed_config)

lemma loop_allows_config: "same_config c c' \<Longrightarrow> loop_allows c' og t = loop_allows c og t"
  by (simp add: loop_allows_def isQSP_def same_config_def)

lemma good_grows:
  assumes "core_grows cx c c'"
  shows "good_delivery en cx ts c d \<Longrightarrow> good_delivery en cx ts c' d"
    and "good_upstream cx ts c u \<Longrightarrow> good_upstream cx ts c' u"
    and "good_transcoder cx ts c x \<Longrightarrow> good_transcoder cx ts c' x"
  using assms grant_grows [OF assms] loop_allows_config [of c c']
  by (auto simp: good_delivery_def good_upstream_def good_transcoder_def core_grows_def)

record loop_view =
  lv_core :: core
  lv_Deliveries :: "delivery list"
  lv_Upstreams :: "upstream_delivery list"
  lv_Transcoders :: "transcoder_delivery list"
  lv_delivered :: "RepeaterID list"
  lv_Reason :: result_reason

definition view :: "route_acc \<Rightarrow> loop_view" where
  "view a = \<lparr>lv_core = ra_core a, lv_Deliveries = rs_Deliveries (ra_res a), lv_Upstreams = rs_Upstreams (ra_res a),
     lv_Transcoders = rs_Transcoders (ra_res a), lv_delivered = ra_delivered a, lv_Reason = rs_Reason (ra_res a)\<rparr>"

definition loop_inv :: "env \<Rightarrow> route_ctx \<Rightarrow> routeTarget list \<Rightarrow> core \<Rightarrow> loop_view \<Rightarrow> bool" where
  "loop_inv en cx targets c0 v \<longleftrightarrow> core_grows cx c0 (lv_core v) \<and>
     distinct (map dv_Peer (lv_Deliveries v)) \<and> set (lv_delivered v) = dv_Peer ` set (lv_Deliveries v) \<and>
     list_all (good_delivery en cx targets (lv_core v)) (lv_Deliveries v) \<and>
     list_all (good_upstream cx targets (lv_core v)) (lv_Upstreams v) \<and>
     list_all (good_transcoder cx targets (lv_core v)) (lv_Transcoders v) \<and>
     lv_Reason v = NoResultReason"

lemma view_drop [simp]: "view (add_drop d a) = view a"
  by (simp add: view_def add_drop_def)

lemma loop_inv_core:
  assumes "loop_inv en cx targets c0 v" "core_grows cx (lv_core v) c'"
  shows "loop_inv en cx targets c0 (v\<lparr>lv_core := c'\<rparr>)"
  using assms core_grows_trans good_grows [OF assms(2)]
  by (auto simp: loop_inv_def list_all_iff)

lemma loop_inv_link:
  assumes "t \<in> set targets" "kind (rt_Endpoint t) = kindUpstream"
    "loop_allows (ra_core a) (cx_origin cx) (rt_Endpoint t)" "loop_inv en cx targets c0 (view a)"
  shows "loop_inv en cx targets c0 (view (deliverUpstream cx (rt_Endpoint t) a))"
proof (rule deliverUpstream_cases [of cx "rt_Endpoint t" a])
  fix c'
  assume cl: "claimed cx (rt_Endpoint t) (ra_core a) c'"
    and eq: "ra_core (deliverUpstream cx (rt_Endpoint t) a) = c'"
      "rs_Upstreams (ra_res (deliverUpstream cx (rt_Endpoint t) a)) = rs_Upstreams (ra_res a) @
        [\<lparr>ud_Upstream = ep_Upstream (rt_Endpoint t), ud_Frame = rewrite (cx_frame cx) (rt_Endpoint t),
          ud_Bridge = cx_bridge cx\<rparr>]"
      "rs_Deliveries (ra_res (deliverUpstream cx (rt_Endpoint t) a)) = rs_Deliveries (ra_res a)"
      "rs_Transcoders (ra_res (deliverUpstream cx (rt_Endpoint t) a)) = rs_Transcoders (ra_res a)"
      "rs_Reason (ra_res (deliverUpstream cx (rt_Endpoint t) a)) = rs_Reason (ra_res a)"
      "ra_delivered (deliverUpstream cx (rt_Endpoint t) a) = ra_delivered a"
  have g: "core_grows cx (ra_core a) c'" "grant cx c' (rt_Endpoint t)"
    using cl claimed_grows claimed_grant by blast+
  have "loop_allows c' (cx_origin cx) (rt_Endpoint t)"
    using assms(3) g(1) loop_allows_config by (auto simp: core_grows_def)
  then have "good_upstream cx targets c'
      \<lparr>ud_Upstream = ep_Upstream (rt_Endpoint t), ud_Frame = rewrite (cx_frame cx) (rt_Endpoint t), ud_Bridge = cx_bridge cx\<rparr>"
    using assms(1,2) g(2) by (auto simp: good_upstream_def)
  then show ?thesis
    using loop_inv_core [OF assms(4), of c'] g(1) by (auto simp: loop_inv_def view_def eq)
qed (use assms in simp)

lemma loop_inv_chip:
  assumes "t \<in> set targets" "kind (rt_Endpoint t) = kindTranscoder" "loop_inv en cx targets c0 (view a)"
  shows "loop_inv en cx targets c0 (view (deliverTranscoder cx (rt_Endpoint t) a))"
proof (rule deliverTranscoder_cases [of cx "rt_Endpoint t" a])
  fix c'
  assume cl: "claimed cx (rt_Endpoint t) (ra_core a) c'"
    and eq: "ra_core (deliverTranscoder cx (rt_Endpoint t) a) = c'"
      "rs_Transcoders (ra_res (deliverTranscoder cx (rt_Endpoint t) a)) = rs_Transcoders (ra_res a) @
        [\<lparr>td_Transcoder = ep_Transcoder (rt_Endpoint t), td_Frame = rewrite (cx_frame cx) (rt_Endpoint t),
          td_Bridge = cx_bridge cx\<rparr>]"
      "rs_Deliveries (ra_res (deliverTranscoder cx (rt_Endpoint t) a)) = rs_Deliveries (ra_res a)"
      "rs_Upstreams (ra_res (deliverTranscoder cx (rt_Endpoint t) a)) = rs_Upstreams (ra_res a)"
      "rs_Reason (ra_res (deliverTranscoder cx (rt_Endpoint t) a)) = rs_Reason (ra_res a)"
      "ra_delivered (deliverTranscoder cx (rt_Endpoint t) a) = ra_delivered a"
  have g: "core_grows cx (ra_core a) c'" "grant cx c' (rt_Endpoint t)"
    using cl claimed_grows claimed_grant by blast+
  then have "good_transcoder cx targets c'
      \<lparr>td_Transcoder = ep_Transcoder (rt_Endpoint t), td_Frame = rewrite (cx_frame cx) (rt_Endpoint t), td_Bridge = cx_bridge cx\<rparr>"
    using assms(1,2) by (auto simp: good_transcoder_def)
  then show ?thesis
    using loop_inv_core [OF assms(3), of c'] g(1) by (auto simp: loop_inv_def view_def eq)
qed (use assms in simp)

lemma loop_inv_peer:
  assumes "t \<in> set targets" "kind (rt_Endpoint t) = kindPeer" "p \<in> set (resolve en (rt_Endpoint t))"
    "loop_inv en cx targets c0 (view a)"
  shows "loop_inv en cx targets c0 (view (deliver_peer en cx t p a))"
proof (rule deliver_peer_cases [of en cx t p a])
  fix c'
  assume cl: "claimed cx (dest_of p (rt_Endpoint t)) (ra_core a) c'" "may_reach en cx t p"
    and eq: "ra_core (deliver_peer en cx t p a) = c'"
      "rs_Deliveries (ra_res (deliver_peer en cx t p a)) = rs_Deliveries (ra_res a) @
        (if p \<in> set (ra_delivered a) then [] else
          [\<lparr>dv_Peer = p, dv_Frame = peer_frame cx t p, dv_Bridge = cx_bridge cx\<rparr>])"
      "ra_delivered (deliver_peer en cx t p a) =
        (if p \<in> set (ra_delivered a) then ra_delivered a else p # ra_delivered a)"
      "rs_Upstreams (ra_res (deliver_peer en cx t p a)) = rs_Upstreams (ra_res a)"
      "rs_Transcoders (ra_res (deliver_peer en cx t p a)) = rs_Transcoders (ra_res a)"
      "rs_Reason (ra_res (deliver_peer en cx t p a)) = rs_Reason (ra_res a)"
  have g: "core_grows cx (ra_core a) c'" "grant cx c' (dest_of p (rt_Endpoint t))"
    using cl claimed_grows claimed_grant by blast+
  then have "good_delivery en cx targets c' \<lparr>dv_Peer = p, dv_Frame = peer_frame cx t p, dv_Bridge = cx_bridge cx\<rparr>"
    using assms(1-3) cl(2) by (auto simp: good_delivery_def)
  then show ?thesis
    using loop_inv_core [OF assms(4), of c'] g(1) by (auto simp: loop_inv_def view_def eq)
qed (use assms in simp_all)

lemma deliver_all_loop_inv:
  assumes "loop_inv en cx targets c0 (view a)"
  shows "loop_inv en cx targets c0 (view (fold (deliver_target en cx) targets a))"
  by (rule deliver_all_inv [where P = "\<lambda>a. loop_inv en cx targets c0 (view a)"])
    (use assms loop_inv_link loop_inv_chip loop_inv_peer in auto)

section \<open>One call of routeScoped\<close>

definition nothing_sent :: "result \<Rightarrow> bool" where
  "nothing_sent r \<longleftrightarrow> rs_Deliveries r = [] \<and> rs_Upstreams r = [] \<and> rs_Transcoders r = []"

definition ctx_of :: "endpoint \<Rightarrow> hbp_data \<Rightarrow> time \<Rightarrow> decision \<Rightarrow> RepeaterID list \<Rightarrow> route_ctx" where
  "ctx_of origin frame now decision linked = \<lparr>cx_origin = origin, cx_frame = frame,
     cx_src = source_key origin frame, cx_bridge = (case dc_Bridges decision of [] \<Rightarrow> [] | b # _ \<Rightarrow> b),
     cx_now = now, cx_linkedPeers = linked\<rparr>"

lemma ctx_of_simps [simp]:
  "cx_origin (ctx_of og f now d l) = og" "cx_frame (ctx_of og f now d l) = f"
  "cx_src (ctx_of og f now d l) = source_key og f" "cx_now (ctx_of og f now d l) = now"
  "cx_linkedPeers (ctx_of og f now d l) = l"
  by (simp_all add: ctx_of_def)

definition linked_peers :: "env \<Rightarrow> bool \<Rightarrow> RepeaterID list" where
  "linked_peers en local = (if local then case en_LinkedServerPeers en of None \<Rightarrow> [] | Some ps \<Rightarrow> ps else [])"

definition keep_local :: "bool \<Rightarrow> routeTarget list \<Rightarrow> routeTarget list" where
  "keep_local local ts = (if local
     then filter (\<lambda>t. ep_Upstream (rt_Endpoint t) = [] \<and> ep_Transcoder (rt_Endpoint t) = []) ts else ts)"

lemma duplicate_unchanged: "duplicate c f src now = (c', Some h) \<Longrightarrow> c' = c"
  by (auto simp: duplicate_def Let_def split: option.splits if_splits)

lemma routeScoped_cases:
  obtains (Early) r where "routeScoped c en origin frame now local = (c, r)" "nothing_sent r"
      "rs_Reason r \<noteq> NoResultReason"
  | (Carried) targets unlocated c' where
      "route_targets c en origin frame (Route (co_table c) origin) = Inr (targets, unlocated)"
      "duplicate c frame (source_key origin frame) now = (c', None)"
      "routeScoped c en origin frame now local = carry en origin frame now (Route (co_table c) origin)
        (linked_peers en local) unlocated (keep_local local targets) c'"
proof (cases "talkgroupAllowed c frame (ep_Timeslot origin) (ep_Talkgroup origin)")
  case False
  then show ?thesis
    by (intro Early) (auto simp: routeScoped_def zero_result_def nothing_sent_def)
next
  case True
  show ?thesis
  proof (cases "route_targets c en origin frame (Route (co_table c) origin)")
    case (Inl r)
    moreover from Inl have "nothing_sent r" "rs_Reason r \<noteq> NoResultReason"
      by (auto simp: route_targets_def Let_def zero_result_def unlocatedResult_def nothing_sent_def
          split: if_splits option.splits)
    ultimately show ?thesis using True by (intro Early [of r]) (auto simp: routeScoped_def)
  next
    case (Inr tu)
    obtain targets unlocated where tu: "tu = (targets, unlocated)" by fastforce
    obtain c' dup where d: "duplicate c frame (source_key origin frame) now = (c', dup)" by fastforce
    show ?thesis
    proof (cases "keep_local local targets = [] \<or> dup \<noteq> None")
      case empty: True
      then show ?thesis using True Inr tu d duplicate_unchanged
        by (intro Early [of "snd (routeScoped c en origin frame now local)"])
          (auto simp: routeScoped_def keep_local_def zero_result_def nothing_sent_def Let_def split: if_splits)
    next
      case False
      then show ?thesis using True Inr tu d
        by (intro Carried [of targets unlocated c'])
          (auto simp: routeScoped_def keep_local_def linked_peers_def Let_def split: if_splits)
    qed
  qed
qed

lemma finish_lists [simp]:
  "rs_Deliveries (finish f u r) = rs_Deliveries r" "rs_Upstreams (finish f u r) = rs_Upstreams r"
  "rs_Transcoders (finish f u r) = rs_Transcoders r"
  by (simp_all add: finish_def unlocatedResult_def)

lemma finish_reason:
  "rs_Reason r = NoResultReason \<Longrightarrow> rs_Reason (finish f u r) = NoResultReason \<longleftrightarrow> \<not> nothing_sent r"
  by (auto simp: finish_def unlocatedResult_def nothing_sent_def)

lemma reserve_origin_config: "same_config c (reserve_origin c op og f src b now) \<and>
    co_carrying (reserve_origin c op og f src b now) = co_carrying c"
  by (auto simp: reserve_origin_def Let_def same_config_def split: option.splits)

lemma reserve_origin_busy_ok: "busy_ok (co_busy c) \<Longrightarrow> busy_ok (co_busy (reserve_origin c op og f src b now))"
  using busy_ok_key [of "co_busy c"]
  by (auto simp: reserve_origin_def Let_def new_reservation_def touch_def split: option.splits
      intro!: busy_ok_mput)

lemma reserve_origin_blocked: "blocked_by c f src now k r \<Longrightarrow>
    blocked_by (reserve_origin c op og f src b now) f src now k r"
  by (auto simp: reserve_origin_def Let_def blocked_by_def split: option.splits)

lemma reserve_origin_held_since:
  assumes "held_since c k s l" "l \<le> now" "Sub now l \<le> co_timeout c"
  shows "held_since (reserve_origin c op og f src b now) k s l"
proof -
  obtain r where r: "mget (co_busy c) k = Some r" "rv_source r = s" "l \<le> rv_lastSeen r"
    using assms(1) by (auto simp: held_since_def split: option.splits)
  then have "\<not> Sub now (rv_lastSeen r) > co_timeout c"
    using assms(3) Sub_antimono [of l "rv_lastSeen r" now] by simp
  with r assms(2) show ?thesis
    by (auto simp: reserve_origin_def Let_def held_since_def touch_def split: option.splits)
qed

text \<open>What the second half of \<open>routeScoped\<close> gives: a core and a result that satisfy the loop invariant.\<close>

lemma carry_facts:
  assumes "carry en origin frame now decision linked unlocated targets c = (c2, r)"
  obtains c1 v where
    "loop_inv en (ctx_of origin frame now decision linked) targets c1 v"
    "same_config c c1" "co_carrying c1 = co_carrying c" "busy_ok (co_busy c) \<Longrightarrow> busy_ok (co_busy c1)"
    "\<And>k rv. blocked_by c frame (source_key origin frame) now k rv \<Longrightarrow>
      blocked_by c1 frame (source_key origin frame) now k rv"
    "\<And>k s l. held_since c k s l \<Longrightarrow> l \<le> now \<Longrightarrow> Sub now l \<le> co_timeout c \<Longrightarrow> held_since c1 k s l"
    "rs_Deliveries r = lv_Deliveries v" "rs_Upstreams r = lv_Upstreams v" "rs_Transcoders r = lv_Transcoders v"
    "rs_Reason r = NoResultReason \<longleftrightarrow> \<not> nothing_sent r"
    "c2 = (if IsTerminator frame \<and> holdsAnyFor c (source_key origin frame)
           then release (lv_core v) (source_key origin frame) else lv_core v)"
proof -
  define cx where "cx = ctx_of origin frame now decision linked"
  define src where "src = source_key origin frame"
  define c1 where "c1 = reserve_origin c (\<not> holdsAnyFor c src) origin frame src (cx_bridge cx) now"
  define a0 where "a0 = \<lparr>ra_core = c1, ra_res = zero_result\<lparr>rs_Drops := withheld_drops origin (dc_Withheld decision)\<rparr>,
             ra_delivered = []\<rparr>"
  define a where "a = fold (deliver_target en cx) targets a0"
  have eq: "c2 = (if IsTerminator frame \<and> holdsAnyFor c src then release (ra_core a) src else ra_core a)"
    "r = finish frame unlocated (ra_res a)"
    using assms by (auto simp: carry_def Let_def a_def a0_def c1_def cx_def ctx_of_def src_def)
  have "loop_inv en cx targets c1 (view a0)"
    by (simp add: a0_def view_def loop_inv_def zero_result_def)
  then have inv: "loop_inv en cx targets c1 (view a)"
    unfolding a_def by (rule deliver_all_loop_inv)
  then have reason: "rs_Reason (ra_res a) = NoResultReason"
    by (simp add: loop_inv_def view_def)
  show ?thesis
  proof (rule that [of c1 "view a"])
    show "loop_inv en (ctx_of origin frame now decision linked) targets c1 (view a)"
      using inv by (simp add: cx_def)
    show "same_config c c1" "co_carrying c1 = co_carrying c"
      unfolding c1_def using reserve_origin_config by blast+
    show "busy_ok (co_busy c) \<Longrightarrow> busy_ok (co_busy c1)"
      unfolding c1_def by (rule reserve_origin_busy_ok)
    show "blocked_by c frame (source_key origin frame) now k rv \<Longrightarrow>
        blocked_by c1 frame (source_key origin frame) now k rv" for k rv
      unfolding c1_def src_def by (rule reserve_origin_blocked)
    show "held_since c k s l \<Longrightarrow> l \<le> now \<Longrightarrow> Sub now l \<le> co_timeout c \<Longrightarrow> held_since c1 k s l" for k s l
      unfolding c1_def by (rule reserve_origin_held_since)
    show "rs_Reason r = NoResultReason \<longleftrightarrow> \<not> nothing_sent r"
      using finish_reason [OF reason] by (simp add: eq(2) nothing_sent_def)
  qed (simp_all add: eq view_def src_def)
qed

section \<open>Laws of the result\<close>

text \<open>Both halves of \<open>routeScoped\<close> at once: either nothing was sent, or the loop invariant holds.\<close>

lemma routeScoped_sent:
  assumes "routeScoped c en origin frame now local = (c2, r)" "\<not> nothing_sent r"
  obtains targets0 unlocated cx c1 v where
    "route_targets c en origin frame (Route (co_table c) origin) = Inr (targets0, unlocated)"
    "cx = ctx_of origin frame now (Route (co_table c) origin) (linked_peers en local)"
    "loop_inv en cx (keep_local local targets0) c1 v" "same_config c (lv_core v)"
    "rs_Deliveries r = lv_Deliveries v" "rs_Upstreams r = lv_Upstreams v" "rs_Transcoders r = lv_Transcoders v"
    "c2 = (if IsTerminator frame \<and> holdsAnyFor c (source_key origin frame)
           then release (lv_core v) (source_key origin frame) else lv_core v)"
proof (rule routeScoped_cases [of c en origin frame now local])
  fix r'
  assume "routeScoped c en origin frame now local = (c, r')" "nothing_sent r'"
  then show thesis using assms by simp
next
  fix targets0 unlocated c'
  assume t: "route_targets c en origin frame (Route (co_table c) origin) = Inr (targets0, unlocated)"
    and d: "duplicate c frame (source_key origin frame) now = (c', None)"
    and eq: "routeScoped c en origin frame now local = carry en origin frame now (Route (co_table c) origin)
        (linked_peers en local) unlocated (keep_local local targets0) c'"
  have dup: "same_config c c'" "holdsAnyFor c' = holdsAnyFor c"
    using d by (auto simp: duplicate_def expireCarried_def Let_def same_config_def holdsAnyFor_def fun_eq_iff
        split: option.splits if_splits)
  have "carry en origin frame now (Route (co_table c) origin) (linked_peers en local) unlocated
      (keep_local local targets0) c' = (c2, r)" using eq assms(1) by simp
  then show thesis
  proof (rule carry_facts)
    fix c1 v
    assume inv: "loop_inv en (ctx_of origin frame now (Route (co_table c) origin) (linked_peers en local))
        (keep_local local targets0) c1 v"
      and cfg: "same_config c' c1"
      and lists: "rs_Deliveries r = lv_Deliveries v" "rs_Upstreams r = lv_Upstreams v"
        "rs_Transcoders r = lv_Transcoders v"
      and c2: "c2 = (if IsTerminator frame \<and> holdsAnyFor c' (source_key origin frame)
           then release (lv_core v) (source_key origin frame) else lv_core v)"
    have "same_config c (lv_core v)"
      using inv cfg dup(1) by (auto simp: loop_inv_def core_grows_def intro: same_config_trans)
    then show thesis using that [OF t refl inv _ lists] c2 dup(2) by simp
  qed
qed

definition delivery_lawful :: "core \<Rightarrow> env \<Rightarrow> hbp_data \<Rightarrow> delivery \<Rightarrow> bool" where
  "delivery_lawful c en frame d \<longleftrightarrow> (en_Ready en (dv_Peer d) \<or> dv_Peer d \<in> set (en_ReadyPeers en)) \<and>
     talkgroupAllowed c frame (d_Timeslot (dv_Frame d)) (d_TargetID (dv_Frame d)) \<and>
     dv_Frame d = frame\<lparr>d_TargetID := d_TargetID (dv_Frame d), d_Timeslot := d_Timeslot (dv_Frame d),
       d_RepeaterID := dv_Peer d\<rparr>"

lemma good_delivery_lawful:
  assumes "good_delivery en cx targets c' d" "same_config c c'"
  shows "delivery_lawful c en (cx_frame cx) d"
proof -
  obtain t where t: "dv_Peer d \<in> set (resolve en (rt_Endpoint t))" "dv_Frame d = peer_frame cx t (dv_Peer d)"
    "talkgroupAllowed c' (cx_frame cx) (ep_Timeslot (rt_Endpoint t)) (ep_Talkgroup (rt_Endpoint t))"
    using assms(1) by (auto simp: good_delivery_def grant_def dest_of_def)
  then show ?thesis
    using talkgroupAllowed_config [OF assms(2)]
    by (auto simp: delivery_lawful_def resolve_def peer_frame_def rewrite_def split: if_splits)
qed

text \<open>
  C5: what reaches a peer.  However a frame is routed, every peer gets at most one copy; each copy goes
  to a peer that is ready, on a talkgroup and timeslot the access lists let through on the way out;
  and it is the frame that came in, with only target, timeslot and repeater ID rewritten.
\<close>

theorem routed_deliveries_lawful:
  "distinct (map dv_Peer (rs_Deliveries (snd (routeScoped c en origin frame now local)))) \<and>
   list_all (delivery_lawful c en frame) (rs_Deliveries (snd (routeScoped c en origin frame now local)))"
proof (cases "nothing_sent (snd (routeScoped c en origin frame now local))")
  case True
  then show ?thesis by (simp add: nothing_sent_def)
next
  case False
  obtain c2 r where r: "routeScoped c en origin frame now local = (c2, r)" by fastforce
  then obtain targets0 unlocated cx c1 v where
    "cx = ctx_of origin frame now (Route (co_table c) origin) (linked_peers en local)"
    "loop_inv en cx (keep_local local targets0) c1 v" "same_config c (lv_core v)" "rs_Deliveries r = lv_Deliveries v"
    using False by (auto elim: routeScoped_sent)
  then show ?thesis
    using r good_delivery_lawful [of en cx _ "lv_core v"] by (auto simp: loop_inv_def list_all_iff)
qed

text \<open>
  nothing is dropped in silence.  Routing a frame either sends it somewhere or gives a reason, and
  never both.
\<close>

lemma routed_or_explained:
  "rs_Reason (snd (routeScoped c en origin frame now local)) = NoResultReason \<longleftrightarrow>
   \<not> nothing_sent (snd (routeScoped c en origin frame now local))"
proof (rule routeScoped_cases [of c en origin frame now local])
  fix targets unlocated c'
  assume "routeScoped c en origin frame now local = carry en origin frame now (Route (co_table c) origin)
        (linked_peers en local) unlocated (keep_local local targets) c'"
  then show ?thesis
    by (cases "carry en origin frame now (Route (co_table c) origin)
        (linked_peers en local) unlocated (keep_local local targets) c'") (auto elim!: carry_facts)
qed simp

text \<open>
  The contract of the collaborators, in the states \<open>good\<close> of the directory: \<open>PeerLookup\<close> answers consistently, no registered peer has the ID
  that means any peer, and a linked server is a ready peer.
\<close>

locale peer_directory =
  fixes dir :: "'s \<Rightarrow> env"
    and good :: "'s \<Rightarrow> bool"
  assumes ready_iff: "good s \<Longrightarrow> en_Ready (dir s) p \<longleftrightarrow> p \<in> set (en_ReadyPeers (dir s))"
    and no_wildcard: "good s \<Longrightarrow> AnyPeer \<notin> set (en_ReadyPeers (dir s))"
    and linked_ready: "good s \<Longrightarrow> en_LinkedServerPeers (dir s) = Some ps \<Longrightarrow> set ps \<subseteq> set (en_ReadyPeers (dir s))"
begin

lemma resolve_ready: "good s \<Longrightarrow> set (resolve (dir s) e) \<subseteq> set (en_ReadyPeers (dir s))"
  by (auto simp: resolve_def ready_iff)

lemma resolve_exact: "ep_Peer e \<noteq> AnyPeer \<Longrightarrow> set (resolve (dir s) e) \<subseteq> {ep_Peer e}"
  by (auto simp: resolve_def)

lemma linked_not_any: "good s \<Longrightarrow> en_LinkedServerPeers (dir s) = Some ps \<Longrightarrow> p \<in> set ps \<Longrightarrow> p \<noteq> AnyPeer"
  using linked_ready no_wildcard by blast

end

lemma sortedQSPLinks_named: "links_ok c \<Longrightarrow> n \<in> set (sortedQSPLinks c) \<Longrightarrow> n \<noteq> []"
  by (auto simp: links_ok_def sortedQSPLinks_def list_all_iff)

lemma kind_of_endpoint [simp]:
  "kind (peer_endpoint p g s) = kindPeer" "n \<noteq> [] \<Longrightarrow> kind (link_endpoint n g s) = kindUpstream"
  "n \<noteq> [] \<Longrightarrow> kind (transcoder_endpoint n g s) = kindTranscoder"
  by (simp_all add: kind_def peer_endpoint_def link_endpoint_def transcoder_endpoint_def)

lemma repeat_target_cases: "t \<in> set (repeat_targets c frame) \<Longrightarrow>
    (rt_repeat t \<and> kind (rt_Endpoint t) = kindPeer) \<or>
    (\<exists>n \<in> set (sortedQSPLinks c). rt_Endpoint t = link_endpoint n (d_TargetID frame) (d_Timeslot frame))"
  by (auto simp: repeat_targets_def)

lemma neighbour_target_cases: "t \<in> set (neighbour_targets c en from frame) \<Longrightarrow>
    (\<exists>n \<in> set (sortedQSPLinks c). rt_Endpoint t = link_endpoint n (d_TargetID frame) (d_Timeslot frame)) \<or>
    (\<exists>ps p. en_LinkedServerPeers en = Some ps \<and> p \<in> set ps \<and> p \<noteq> from \<and>
      rt_Endpoint t = peer_endpoint p (d_TargetID frame) (d_Timeslot frame))"
  by (cases "en_LinkedServerPeers en") (auto simp: neighbour_targets_def)

lemma target_sources:
  assumes "route_targets c en origin frame d = Inr (ts, u)" "t \<in> set ts" "links_ok c"
  obtains (Bridged) "rt_Endpoint t \<in> set (dc_Targets d)" "\<not> rt_repeat t"
  | (Repeated) "rt_repeat t" "co_repeat c" "kind (rt_Endpoint t) = kindPeer"
  | (Link) n where "rt_Endpoint t = link_endpoint n (d_TargetID frame) (d_Timeslot frame)" "n \<noteq> []" "co_repeat c"
  | (Neighbour) ps p where "en_LinkedServerPeers en = Some ps" "p \<in> set ps" "p \<noteq> ep_Peer origin" "co_repeat c"
      "rt_Endpoint t = peer_endpoint p (d_TargetID frame) (d_Timeslot frame)" "d_CallType frame = CallPrivate"
proof -
  have "t \<in> set (map (\<lambda>e. \<lparr>rt_Endpoint = e, rt_repeat = False\<rparr>) (dc_Targets d)) \<or>
      co_repeat c \<and> (t \<in> set (repeat_targets c frame) \<or>
      (d_CallType frame = CallPrivate \<and> t \<in> set (neighbour_targets c en (ep_Peer origin) frame)) \<or>
      rt_repeat t \<and> kind (rt_Endpoint t) = kindPeer)"
    using assms(1,2) by (auto simp: route_targets_def Let_def split: if_splits option.splits)
  moreover have "n \<noteq> []" if "n \<in> set (sortedQSPLinks c)" for n
    using sortedQSPLinks_named assms(3) that by blast
  moreover have "t \<in> set (map (\<lambda>e. \<lparr>rt_Endpoint = e, rt_repeat = False\<rparr>) (dc_Targets d)) \<Longrightarrow>
      rt_Endpoint t \<in> set (dc_Targets d) \<and> \<not> rt_repeat t" by auto
  ultimately show ?thesis
    using repeat_target_cases [of t c frame] neighbour_target_cases [of t c en "ep_Peer origin" frame]
      Bridged Repeated Link Neighbour by metis
qed

context peer_directory
begin

lemma no_echo_in_loop:
  assumes "route_targets c (dir w) (peer_endpoint p g s) frame d = Inr (ts, u)" "links_ok c" "dc_Targets d = []"
    and "good_delivery (dir w) cx (keep_local local ts) c' dv" "cx_origin cx = peer_endpoint p g s" "good w"
  shows "dv_Peer dv \<noteq> p"
proof -
  obtain t where t: "t \<in> set ts" "kind (rt_Endpoint t) = kindPeer" "dv_Peer dv \<in> set (resolve (dir w) (rt_Endpoint t))"
    "may_reach (dir w) cx t (dv_Peer dv)"
    using assms(4) by (auto simp: good_delivery_def keep_local_def split: if_splits)
  show ?thesis
  proof (rule target_sources [OF assms(1) t(1) assms(2)])
    assume "rt_repeat t"
    then show ?thesis using t(4) assms(5) by (simp add: may_reach_def peer_endpoint_def)
  next
    fix ps q
    assume "en_LinkedServerPeers (dir w) = Some ps" "q \<in> set ps" "q \<noteq> ep_Peer (peer_endpoint p g s)"
      "rt_Endpoint t = peer_endpoint q (d_TargetID frame) (d_Timeslot frame)"
    then show ?thesis
      using t(3) resolve_exact [of "rt_Endpoint t"] linked_not_any [OF assms(6), of ps q] by (auto simp: peer_endpoint_def)
  qed (use assms(3) t(2) in auto)
qed

lemma no_echo:
  assumes "good w" "core_ok c" "dc_Targets (Route (co_table c) (peer_endpoint p (d_TargetID frame) (d_Timeslot frame))) = []"
  shows "p \<notin> dv_Peer ` set (rs_Deliveries (snd (Core_Route c (dir w) p frame now)))"
proof (cases "nothing_sent (snd (Core_Route c (dir w) p frame now))")
  case True
  then show ?thesis by (simp add: nothing_sent_def)
next
  case False
  let ?og = "peer_endpoint p (d_TargetID frame) (d_Timeslot frame)"
  obtain c2 r where r: "routeScoped c (dir w) ?og frame now False = (c2, r)" by fastforce
  with False obtain targets0 unlocated cx c1 v where
    t: "route_targets c (dir w) ?og frame (Route (co_table c) ?og) = Inr (targets0, unlocated)"
    "cx = ctx_of ?og frame now (Route (co_table c) ?og) (linked_peers (dir w) False)"
    "loop_inv (dir w) cx (keep_local False targets0) c1 v" "rs_Deliveries r = lv_Deliveries v"
    by (auto simp: Core_Route_def elim: routeScoped_sent)
  have "dv_Peer dv \<noteq> p" if "dv \<in> set (rs_Deliveries r)" for dv
    by (rule no_echo_in_loop [OF t(1) _ assms(3)])
      (use t assms(1,2) that in \<open>auto simp: core_ok_def loop_inv_def list_all_iff\<close>)
  then show ?thesis using r by (auto simp: Core_Route_def)
qed

lemma deliveries_ready:
  assumes "good w"
  shows "dv_Peer ` set (rs_Deliveries (snd (routeScoped c (dir w) origin frame now local))) \<subseteq> set (en_ReadyPeers (dir w))"
proof (cases "nothing_sent (snd (routeScoped c (dir w) origin frame now local))")
  case True
  then show ?thesis by (simp add: nothing_sent_def)
next
  case False
  obtain c2 r where r: "routeScoped c (dir w) origin frame now local = (c2, r)" by fastforce
  with False obtain targets0 unlocated cx c1 v where
    "loop_inv (dir w) cx (keep_local local targets0) c1 v" "rs_Deliveries r = lv_Deliveries v"
    by (auto elim: routeScoped_sent)
  then show ?thesis
    using r resolve_ready [OF assms] by (fastforce simp: loop_inv_def list_all_iff good_delivery_def)
qed

end

end
