(* ===== verification/Routing_Safety.thy ===== *)
theory Routing_Safety
  imports Routing_Laws
begin

text \<open>
  The safety properties of the routing core: the loop rule for links, local transmissions, one
  transmission per destination, one path per transmission, release and expiry, and the invariant of
  the reachable states; and where repeat goes past the opt-in for transcoded audio.
\<close>

section \<open>Links and local traffic\<close>

text \<open>
  C31: the loop rule.  A frame that came over a link is never sent back over that link, under any
  spelling of its name, and never to a link that does not speak QSP.
\<close>

theorem link_loop_rule:
  assumes "name \<noteq> []"
  shows "list_all (\<lambda>u. \<not> EqualFold (ud_Upstream u) name \<and> isQSP c (ud_Upstream u))
    (rs_Upstreams (snd (RouteFromUpstream c en name frame now)))"
proof (cases "nothing_sent (snd (RouteFromUpstream c en name frame now))")
  case True
  then show ?thesis by (simp add: nothing_sent_def)
next
  case False
  let ?og = "link_endpoint name (d_TargetID frame) (d_Timeslot frame)"
  obtain c2 r where r: "routeScoped c en ?og frame now False = (c2, r)" by fastforce
  with False obtain targets0 unlocated cx c1 v where
    t: "cx = ctx_of ?og frame now (Route (co_table c) ?og) (linked_peers en False)"
    "loop_inv en cx (keep_local False targets0) c1 v" "same_config c (lv_core v)" "rs_Upstreams r = lv_Upstreams v"
    by (auto simp: RouteFromUpstream_def elim: routeScoped_sent)
  then have "good_upstream cx (keep_local False targets0) (lv_core v) u" if "u \<in> set (rs_Upstreams r)" for u
    using that by (auto simp: loop_inv_def list_all_iff)
  then show ?thesis
    using r t(1,3) assms
    by (force simp: RouteFromUpstream_def list_all_iff good_upstream_def loop_allows_def isQSP_def
        same_config_def link_endpoint_def)
qed

text \<open>
  a local transmission stays here.  What the server composes for its own stations goes over no
  link and into no transcoder, and to no peer that is another QSP server.
\<close>

lemma local_stays_local:
  "rs_Upstreams (snd (RouteLocalFromServer c en frame now)) = [] \<and>
   rs_Transcoders (snd (RouteLocalFromServer c en frame now)) = [] \<and>
   list_all (\<lambda>d. dv_Peer d \<notin> set (linked_peers en True)) (rs_Deliveries (snd (RouteLocalFromServer c en frame now)))"
proof (cases "nothing_sent (snd (RouteLocalFromServer c en frame now))")
  case True
  then show ?thesis by (simp add: nothing_sent_def)
next
  case False
  let ?og = "peer_endpoint ServerOrigin (d_TargetID frame) (d_Timeslot frame)"
  obtain c2 r where r: "routeScoped c en ?og frame now True = (c2, r)" by fastforce
  with False obtain targets0 unlocated cx c1 v where
    t: "cx = ctx_of ?og frame now (Route (co_table c) ?og) (linked_peers en True)"
    "loop_inv en cx (keep_local True targets0) c1 v"
    "rs_Deliveries r = lv_Deliveries v" "rs_Upstreams r = lv_Upstreams v" "rs_Transcoders r = lv_Transcoders v"
    by (auto simp: RouteLocalFromServer_def elim: routeScoped_sent)
  have "kind (rt_Endpoint x) = kindPeer" if "x \<in> set (keep_local True targets0)" for x
    using that by (auto simp: keep_local_def kind_def)
  then have "\<not> good_upstream cx (keep_local True targets0) (lv_core v) u"
    "\<not> good_transcoder cx (keep_local True targets0) (lv_core v) x" for u x
    by (auto simp: good_upstream_def good_transcoder_def)
  then have "lv_Upstreams v = []" "lv_Transcoders v = []"
    using t(2) by (auto simp: loop_inv_def list_all_iff)
  moreover have "dv_Peer d \<notin> set (linked_peers en True)" if "d \<in> set (lv_Deliveries v)" for d
    using t(1,2) that by (auto simp: loop_inv_def list_all_iff good_delivery_def may_reach_def)
  ultimately show ?thesis using r t by (auto simp: RouteLocalFromServer_def list_all_iff)
qed

section \<open>One transmission per destination\<close>

definition delivery_key :: "delivery \<Rightarrow> endpoint" where
  "delivery_key d = contend (peer_endpoint (dv_Peer d) (d_TargetID (dv_Frame d)) (d_Timeslot (dv_Frame d)))"

definition upstream_key :: "upstream_delivery \<Rightarrow> endpoint \<Rightarrow> bool" where
  "upstream_key u k \<longleftrightarrow> ep_Upstream k = ud_Upstream u \<and> ep_Talkgroup k = d_TargetID (ud_Frame u) \<and>
     ep_Timeslot k = d_Timeslot (ud_Frame u)"

lemma good_delivery_key:
  "good_delivery en cx targets c d \<Longrightarrow> granted c (cx_frame cx) (cx_src cx) (cx_now cx) (delivery_key d)"
  by (auto simp: good_delivery_def grant_def delivery_key_def peer_frame_def rewrite_def dest_of_def peer_endpoint_def)

lemma duplicate_busy:
  "duplicate c frame src now = (c', x) \<Longrightarrow> same_config c c' \<and> co_busy c' = co_busy c"
  by (auto simp: duplicate_def expireCarried_def Let_def same_config_def split: option.splits if_splits)

lemma blocked_by_busy:
  "co_busy c' = co_busy c \<Longrightarrow> co_timeout c' = co_timeout c \<Longrightarrow> blocked_by c' f src now k r = blocked_by c f src now k r"
  by (simp add: blocked_by_def)

lemma release_other: "mwf (co_busy c) \<Longrightarrow> mget (co_busy (release c src)) k =
    (case mget (co_busy c) k of None \<Rightarrow> None | Some r \<Rightarrow> if rv_source r = src then None else Some r)"
  by (simp add: release_def mget_msweep)

lemma held_destination_refuses:
  assumes "routeScoped c en origin frame now local = (c2, r)" "busy_ok (co_busy c)"
    and "blocked_by c frame (source_key origin frame) now k rv"
  shows "mget (co_busy c2) k = Some rv \<and> list_all (\<lambda>d. delivery_key d \<noteq> k) (rs_Deliveries r)"
proof (rule routeScoped_cases [of c en origin frame now local])
  fix r' assume "routeScoped c en origin frame now local = (c, r')" "nothing_sent r'"
  then show ?thesis using assms by (simp add: nothing_sent_def blocked_by_def)
next
  let ?src = "source_key origin frame"
  fix targets unlocated c'
  assume d: "duplicate c frame ?src now = (c', None)"
    and eq: "routeScoped c en origin frame now local = carry en origin frame now (Route (co_table c) origin)
        (linked_peers en local) unlocated (keep_local local targets) c'"
  have b': "blocked_by c' frame ?src now k rv" "busy_ok (co_busy c')"
    using duplicate_busy [OF d] assms(2,3) by (simp_all add: blocked_by_def same_config_def)
  from eq assms(1) have "carry en origin frame now (Route (co_table c) origin)
        (linked_peers en local) unlocated (keep_local local targets) c' = (c2, r)" by simp
  then show ?thesis
  proof (rule carry_facts)
    fix c1 v
    let ?cx = "ctx_of origin frame now (Route (co_table c) origin) (linked_peers en local)"
    assume inv: "loop_inv en ?cx (keep_local local targets) c1 v"
      and b1: "\<And>k rv. blocked_by c' frame ?src now k rv \<Longrightarrow> blocked_by c1 frame ?src now k rv"
      and ok1: "busy_ok (co_busy c') \<Longrightarrow> busy_ok (co_busy c1)"
      and lists: "rs_Deliveries r = lv_Deliveries v"
      and c2: "c2 = (if IsTerminator frame \<and> holdsAnyFor c' ?src then release (lv_core v) ?src else lv_core v)"
    have b2: "blocked_by (lv_core v) frame ?src now k rv" "busy_ok (co_busy (lv_core v))"
      using inv b1 [OF b'(1)] ok1 [OF b'(2)] by (auto simp: loop_inv_def core_grows_def)
    have "\<not> granted (lv_core v) frame ?src now k" using b2(1) granted_not_blocked by blast
    moreover have "granted (lv_core v) frame ?src now (delivery_key d)" if "d \<in> set (lv_Deliveries v)" for d
      using inv that good_delivery_key [of en ?cx _ "lv_core v" d] by (auto simp: loop_inv_def list_all_iff)
    ultimately have "list_all (\<lambda>d. delivery_key d \<noteq> k) (rs_Deliveries r)"
      using lists by (auto simp: list_all_iff)
    moreover have "mget (co_busy c2) k = Some rv"
      using b2 c2 by (auto simp: blocked_by_def busy_ok_def release_other)
    ultimately show ?thesis by blast
  qed
qed

lemma routeScoped_held_since:
  assumes "routeScoped c en origin frame now local = (c2, r)" "busy_ok (co_busy c)"
    and "held_since c k s l" "l \<le> now" "Sub now l \<le> co_timeout c"
    and "\<not> (source_key origin frame = s \<and> IsTerminator frame)"
  shows "held_since c2 k s l"
proof (rule routeScoped_cases [of c en origin frame now local])
  fix r' assume "routeScoped c en origin frame now local = (c, r')"
  then show ?thesis using assms by simp
next
  let ?src = "source_key origin frame"
  fix targets unlocated c'
  assume d: "duplicate c frame ?src now = (c', None)"
    and eq: "routeScoped c en origin frame now local = carry en origin frame now (Route (co_table c) origin)
        (linked_peers en local) unlocated (keep_local local targets) c'"
  note dup = duplicate_busy [OF d]
  from eq assms(1) have "carry en origin frame now (Route (co_table c) origin)
        (linked_peers en local) unlocated (keep_local local targets) c' = (c2, r)" by simp
  then show ?thesis
  proof (rule carry_facts)
    fix c1 v
    assume inv: "loop_inv en (ctx_of origin frame now (Route (co_table c) origin) (linked_peers en local))
        (keep_local local targets) c1 v"
      and cfg: "same_config c' c1" and ok1: "busy_ok (co_busy c') \<Longrightarrow> busy_ok (co_busy c1)"
      and h1: "\<And>k s l. held_since c' k s l \<Longrightarrow> l \<le> now \<Longrightarrow> Sub now l \<le> co_timeout c' \<Longrightarrow> held_since c1 k s l"
      and c2: "c2 = (if IsTerminator frame \<and> holdsAnyFor c' ?src then release (lv_core v) ?src else lv_core v)"
    have "held_since c1 k s l"
      using h1 assms dup by (simp add: held_since_def same_config_def)
    then have h2: "held_since (lv_core v) k s l" and ok2: "busy_ok (co_busy (lv_core v))"
      using inv cfg ok1 assms dup by (auto simp: loop_inv_def core_grows_def same_config_def)
    show ?thesis
      using h2 ok2 c2 assms(6) by (auto simp: held_since_def busy_ok_def release_other split: option.splits)
  qed
qed

lemma voice_not_terminator: "contendsForSlot f \<Longrightarrow> \<not> IsTerminator f"
  by (auto simp: contendsForSlot_def IsTerminator_def)

lemma voice_delivery_holds:
  assumes "routeScoped c en origin frame now local = (c2, r)" "contendsForSlot frame" "d \<in> set (rs_Deliveries r)"
  shows "held_since c2 (delivery_key d) (source_key origin frame) now"
proof -
  have "\<not> nothing_sent r" using assms(3) by (auto simp: nothing_sent_def)
  then show ?thesis
  proof (rule routeScoped_sent [OF assms(1)])
    fix targets0 unlocated cx c1 v
    assume a: "cx = ctx_of origin frame now (Route (co_table c) origin) (linked_peers en local)"
      "loop_inv en cx (keep_local local targets0) c1 v" "rs_Deliveries r = lv_Deliveries v"
      "c2 = (if IsTerminator frame \<and> holdsAnyFor c (source_key origin frame)
           then release (lv_core v) (source_key origin frame) else lv_core v)"
    then have "good_delivery en cx (keep_local local targets0) (lv_core v) d"
      using assms(3) by (simp add: loop_inv_def list_all_iff)
    then have "granted (lv_core v) frame (source_key origin frame) now (delivery_key d)"
      using good_delivery_key a(1) by fastforce
    then show ?thesis
      using a(4) assms(2) voice_not_terminator [OF assms(2)]
      by (auto simp: granted_def held_since_def split: option.splits)
  qed
qed

section \<open>Runs\<close>

record event =
  ev_env :: env
  ev_origin :: endpoint
  ev_frame :: hbp_data
  ev_now :: time
  ev_local :: bool

definition ev_source :: "event \<Rightarrow> sourceKey" where
  "ev_source e = source_key (ev_origin e) (ev_frame e)"

definition route_event :: "core \<Rightarrow> event \<Rightarrow> core \<times> result" where
  "route_event c e = routeScoped c (ev_env e) (ev_origin e) (ev_frame e) (ev_now e) (ev_local e)"

fun route_run :: "core \<Rightarrow> event list \<Rightarrow> core \<times> (event \<times> result) list" where
  "route_run c [] = (c, [])"
| "route_run c (e # es) =
     (case route_event c e of (c1, r) \<Rightarrow> (case route_run c1 es of (c2, rs) \<Rightarrow> (c2, (e, r) # rs)))"

lemma routeScoped_keeps:
  assumes "routeScoped c en origin frame now local = (c2, r)"
  shows "same_config c c2" "busy_ok (co_busy c) \<Longrightarrow> busy_ok (co_busy c2)"
proof -
  have "same_config c c2 \<and> (busy_ok (co_busy c) \<longrightarrow> busy_ok (co_busy c2))"
  proof (rule routeScoped_cases [of c en origin frame now local])
    fix targets unlocated c'
    assume d: "duplicate c frame (source_key origin frame) now = (c', None)"
      and eq: "routeScoped c en origin frame now local = carry en origin frame now (Route (co_table c) origin)
        (linked_peers en local) unlocated (keep_local local targets) c'"
    from eq assms(1) have "carry en origin frame now (Route (co_table c) origin)
        (linked_peers en local) unlocated (keep_local local targets) c' = (c2, r)" by simp
    then show ?thesis
      by (rule carry_facts) (use duplicate_busy [OF d] in
        \<open>auto simp: loop_inv_def core_grows_def release_def same_config_def busy_ok_sweep\<close>)
  qed (use assms in simp)
  then show "same_config c c2" "busy_ok (co_busy c) \<Longrightarrow> busy_ok (co_busy c2)" by blast+
qed

definition within :: "core \<Rightarrow> time \<Rightarrow> event \<Rightarrow> bool" where
  "within c l e \<longleftrightarrow> l \<le> ev_now e \<and> Sub (ev_now e) l \<le> co_timeout c"

lemma run_excludes:
  assumes "busy_ok (co_busy c)" "held_since c k s l"
    and "list_all (\<lambda>e. within c l e \<and> \<not> (ev_source e = s \<and> IsTerminator (ev_frame e))) es"
    and "(e, r) \<in> set (snd (route_run c es))" "ev_source e \<noteq> s" "contendsForSlot (ev_frame e)"
  shows "list_all (\<lambda>d. delivery_key d \<noteq> k) (rs_Deliveries r)"
  using assms
proof (induction es arbitrary: c)
  case Nil
  then show ?case by simp
next
  case (Cons e0 es)
  obtain c1 r0 where r0: "route_event c e0 = (c1, r0)" by fastforce
  then have rt: "routeScoped c (ev_env e0) (ev_origin e0) (ev_frame e0) (ev_now e0) (ev_local e0) = (c1, r0)"
    by (simp add: route_event_def)
  note keeps = routeScoped_keeps [OF rt]
  have h1: "held_since c1 k s l"
    by (rule routeScoped_held_since [OF rt]) (use Cons.prems in \<open>auto simp: within_def ev_source_def\<close>)
  show ?case
  proof (cases "(e, r) = (e0, r0)")
    case True
    obtain rv where rv: "mget (co_busy c) k = Some rv" "rv_source rv = s" "l \<le> rv_lastSeen rv"
      using Cons.prems(2) by (auto simp: held_since_def split: option.splits)
    have "blocked_by c (ev_frame e0) (source_key (ev_origin e0) (ev_frame e0)) (ev_now e0) k rv"
      using rv Cons.prems True Sub_antimono [OF rv(3), of "ev_now e0"]
      by (auto simp: blocked_by_def within_def ev_source_def)
    then show ?thesis using held_destination_refuses [OF rt Cons.prems(1)] True by blast
  next
    case False
    then have "(e, r) \<in> set (snd (route_run c1 es))"
      using Cons.prems(4) r0 by (auto split: prod.splits)
    moreover have "list_all (\<lambda>e. within c1 l e \<and> \<not> (ev_source e = s \<and> IsTerminator (ev_frame e))) es"
      using Cons.prems(3) keeps(1) by (simp add: within_def same_config_def)
    ultimately show ?thesis using Cons.IH [of c1] keeps(2) Cons.prems h1 by blast
  qed
qed

text \<open>
  C1: no two voices on one timeslot.  After a voice frame of one transmission was delivered to a peer's
  timeslot, then for as long as the stream timeout, whatever else arrives from wherever and until
  that transmission's own terminator, no voice frame of any other transmission is delivered to
  that peer on that timeslot, on any talkgroup.
\<close>

theorem one_voice_per_slot:
  assumes "core_ok c" "route_event c e1 = (c1, r1)" "contendsForSlot (ev_frame e1)" "d \<in> set (rs_Deliveries r1)"
    and "list_all (\<lambda>e. within c (ev_now e1) e \<and> \<not> (ev_source e = ev_source e1 \<and> IsTerminator (ev_frame e))) es"
    and "(e2, r2) \<in> set (snd (route_run c1 es))" "ev_source e2 \<noteq> ev_source e1" "contendsForSlot (ev_frame e2)"
  shows "list_all (\<lambda>d2. delivery_key d2 \<noteq> delivery_key d) (rs_Deliveries r2)"
proof -
  have rt: "routeScoped c (ev_env e1) (ev_origin e1) (ev_frame e1) (ev_now e1) (ev_local e1) = (c1, r1)"
    using assms(2) by (simp add: route_event_def)
  have "held_since c1 (delivery_key d) (ev_source e1) (ev_now e1)"
    using voice_delivery_holds [OF rt assms(3,4)] by (simp add: ev_source_def)
  moreover have "busy_ok (co_busy c1)" "same_config c c1"
    using routeScoped_keeps [OF rt] assms(1) by (auto simp: core_ok_def)
  moreover from this(2) have "list_all (\<lambda>e. within c1 (ev_now e1) e \<and>
      \<not> (ev_source e = ev_source e1 \<and> IsTerminator (ev_frame e))) es"
    using assms(5) by (simp add: within_def same_config_def)
  ultimately show ?thesis using run_excludes assms(6-8) by blast
qed

section \<open>One path per transmission\<close>

definition carried_since :: "core \<Rightarrow> streamKey \<Rightarrow> sourceKey \<Rightarrow> time \<Rightarrow> bool" where
  "carried_since c k s l \<longleftrightarrow>
     (case mget (co_carrying c) k of None \<Rightarrow> False | Some h \<Rightarrow> ca_origin h = s \<and> l \<le> ca_lastSeen h)"

lemma duplicate_carries:
  assumes "duplicate c frame src now = (c', None)" "0 \<le> co_timeout c" "mwf (co_carrying c)"
  shows "carried_since c' (stream_key frame) src now"
  using assms
  by (auto simp: duplicate_def expireCarried_def carried_since_def Let_def mget_msweep
      split: option.splits if_splits)

lemma duplicate_keeps_wf: "duplicate c frame src now = (c', x) \<Longrightarrow> mwf (co_carrying c) \<Longrightarrow> mwf (co_carrying c')"
  by (auto simp: duplicate_def expireCarried_def Let_def split: option.splits if_splits)

lemma duplicate_carried_since:
  assumes "duplicate c frame src now = (c', x)" "carried_since c k s l" "l \<le> now" "Sub now l \<le> co_timeout c"
    "mwf (co_carrying c)"
  shows "carried_since c' k s l"
proof -
  obtain h where h: "mget (co_carrying c) k = Some h" "ca_origin h = s" "l \<le> ca_lastSeen h"
    using assms(2) by (auto simp: carried_since_def split: option.splits)
  have "Sub now (ca_lastSeen h) \<le> co_timeout c"
    using Sub_antimono [OF h(3), of now] assms(4) by simp
  then show ?thesis
    using assms(1,3,5) h
    by (auto simp: duplicate_def expireCarried_def carried_since_def Let_def mget_msweep
        split: option.splits if_splits)
qed

lemma carry_carrying: "carry en og f now d l u ts c = (c2, r) \<Longrightarrow> co_carrying c2 = co_carrying c"
  by (erule carry_facts) (auto simp: loop_inv_def core_grows_def release_def)

lemma routeScoped_carrying:
  assumes "routeScoped c en origin frame now local = (c2, r)"
  obtains "c2 = c" "nothing_sent r"
  | c' where "duplicate c frame (source_key origin frame) now = (c', None)" "co_carrying c2 = co_carrying c'"
proof (rule routeScoped_cases [of c en origin frame now local])
  fix targets unlocated c'
  assume d: "duplicate c frame (source_key origin frame) now = (c', None)"
    and eq: "routeScoped c en origin frame now local = carry en origin frame now (Route (co_table c) origin)
        (linked_peers en local) unlocated (keep_local local targets) c'"
  then have "co_carrying c2 = co_carrying c'" using assms carry_carrying by metis
  with d show thesis using that(2) by blast
qed (use assms that in auto)

lemma run_dedups:
  assumes "carried_since c k s l" "mwf (co_carrying c)" "list_all (within c l) es"
    and "(e, r) \<in> set (snd (route_run c es))" "stream_key (ev_frame e) = k" "ev_source e \<noteq> s"
  shows "nothing_sent r"
  using assms
proof (induction es arbitrary: c)
  case Nil
  then show ?case by simp
next
  case (Cons e0 es)
  obtain c1 r0 where r0: "route_event c e0 = (c1, r0)" by fastforce
  then have rt: "routeScoped c (ev_env e0) (ev_origin e0) (ev_frame e0) (ev_now e0) (ev_local e0) = (c1, r0)"
    by (simp add: route_event_def)
  have w: "l \<le> ev_now e0" "Sub (ev_now e0) l \<le> co_timeout c" using Cons.prems(3) by (auto simp: within_def)
  have c1: "carried_since c1 k s l \<and> mwf (co_carrying c1)"
  proof (rule routeScoped_carrying [OF rt])
    fix c'
    assume d: "duplicate c (ev_frame e0) (source_key (ev_origin e0) (ev_frame e0)) (ev_now e0) = (c', None)"
      and "co_carrying c1 = co_carrying c'"
    then show ?thesis
      using duplicate_carried_since [OF d Cons.prems(1) w] duplicate_keeps_wf [OF d] Cons.prems(2)
      by (simp add: carried_since_def)
  qed (use Cons.prems in simp)
  show ?case
  proof (cases "(e, r) = (e0, r0)")
    case True
    obtain h where h: "mget (co_carrying c) k = Some h" "ca_origin h = s" "l \<le> ca_lastSeen h"
      using Cons.prems(1) by (auto simp: carried_since_def split: option.splits)
    have "Sub (ev_now e0) (ca_lastSeen h) \<le> co_timeout c" using Sub_antimono [OF h(3), of "ev_now e0"] w(2) by simp
    then have no: "duplicate c (ev_frame e0) (source_key (ev_origin e0) (ev_frame e0)) (ev_now e0) \<noteq> (c', None)" for c'
      using h Cons.prems True by (auto simp: duplicate_def Let_def ev_source_def)
    show ?thesis
      by (rule routeScoped_carrying [OF rt]) (use no True in auto)
  next
    case False
    then have "(e, r) \<in> set (snd (route_run c1 es))"
      using Cons.prems(4) r0 by (auto split: prod.splits)
    moreover have "list_all (within c1 l) es"
      using Cons.prems(3) routeScoped_keeps(1) [OF rt]
      by (simp add: within_def [abs_def] same_config_def)
    ultimately show ?thesis using Cons.IH [of c1] Cons.prems c1 by blast
  qed
qed

text \<open>
  C2: the first path wins.  Once any frame of a transmission (a radio and a stream ID) has been sent
  on, then for as long as the stream timeout no frame of that transmission that arrives by another
  path is sent anywhere, whatever arrives in between.  This is what lets links relay without loops:
  a copy that comes back around dies at its first repetition.
\<close>

theorem first_path_wins:
  assumes "core_ok c" "route_event c e1 = (c1, r1)" "\<not> nothing_sent r1"
    and "list_all (within c (ev_now e1)) es"
    and "(e2, r2) \<in> set (snd (route_run c1 es))" "stream_key (ev_frame e2) = stream_key (ev_frame e1)"
      "ev_source e2 \<noteq> ev_source e1"
  shows "nothing_sent r2"
proof -
  have rt: "routeScoped c (ev_env e1) (ev_origin e1) (ev_frame e1) (ev_now e1) (ev_local e1) = (c1, r1)"
    using assms(2) by (simp add: route_event_def)
  have "carried_since c1 (stream_key (ev_frame e1)) (ev_source e1) (ev_now e1) \<and> mwf (co_carrying c1)"
  proof (rule routeScoped_carrying [OF rt])
    fix c'
    assume d: "duplicate c (ev_frame e1) (source_key (ev_origin e1) (ev_frame e1)) (ev_now e1) = (c', None)"
      and "co_carrying c1 = co_carrying c'"
    then show ?thesis
      using duplicate_carries [OF d] duplicate_keeps_wf [OF d] assms(1)
      by (simp add: core_ok_def carried_since_def ev_source_def)
  qed (use assms in simp)
  moreover have "list_all (within c1 (ev_now e1)) es"
    using assms(4) routeScoped_keeps(1) [OF rt] by (simp add: within_def [abs_def] same_config_def)
  ultimately show ?thesis using run_dedups assms(5-7) by blast
qed

section \<open>A concrete network\<close>

definition demo_core :: core where
  "demo_core = NewCore \<lparr>op_NoRepeat = False, op_Access = zero_lists, op_Table = None, op_Timeout = 0, op_QSPLinks = []\<rparr>"

definition demo_env :: env where
  "demo_env = \<lparr>en_Ready = (\<lambda>p. p \<in> {1, 2, 3}), en_ReadyPeers = [1, 2, 3], en_LocateFor = None,
     en_LinkedServerPeers = None, en_Attached = None\<rparr>"

definition demo_frame :: "u32 \<Rightarrow> u32 \<Rightarrow> StreamID \<Rightarrow> hbp_data" where
  "demo_frame src tg stream = \<lparr>d_Sequence = 0, d_SourceID = src, d_TargetID = tg, d_RepeaterID = 0,
     d_Timeslot = 1, d_CallType = CallGroup, d_FrameType = FrameTypeVoice, d_DataType = 0,
     d_StreamID = stream, d_Payload = [], d_Trailing = []\<rparr>"

definition demo_event :: "RepeaterID \<Rightarrow> hbp_data \<Rightarrow> time \<Rightarrow> event" where
  "demo_event p f t = \<lparr>ev_env = demo_env, ev_origin = peer_endpoint p (d_TargetID f) (d_Timeslot f),
     ev_frame = f, ev_now = t, ev_local = False\<rparr>"

abbreviation demo_first :: event where
  "demo_first \<equiv> demo_event 1 (demo_frame 3100001 9 7) second"

abbreviation demo_second :: event where
  "demo_second \<equiv> demo_event 2 (demo_frame 3100002 91 8) (second + 60000000)"

abbreviation demo_copy :: event where
  "demo_copy \<equiv> demo_event 2 (demo_frame 3100001 9 7) (second + 60000000)"

lemma linkSet_ok: "list_all (\<lambda>kv. snd kv \<noteq> [] \<and> fst kv = ToLower (snd kv)) (linkSet names)"
  unfolding linkSet_def
proof (rule fold_invariant [where Q = "\<lambda>_. True"])
  fix n :: string and acc :: "(string, string) gomap"
  assume "list_all (\<lambda>kv. snd kv \<noteq> [] \<and> fst kv = ToLower (snd kv)) acc"
  moreover have "ToLower m = [] \<longleftrightarrow> m = []" for m by (simp add: ToLower_def)
  ultimately show "list_all (\<lambda>kv. snd kv \<noteq> [] \<and> fst kv = ToLower (snd kv))
      (let name = TrimSpace n; k = ToLower name in if k \<noteq> [] then mput k name acc else acc)"
    using mput_set_cases [of _ _ "ToLower (TrimSpace n)" "TrimSpace n" acc]
    by (fastforce simp: Let_def list_all_iff)
qed simp_all

lemma core_ok_NewCore: "core_ok (NewCore opts)"
  using linkSet_ok by (simp add: core_ok_def NewCore_def StreamTimeout_def busy_ok_def links_ok_def)

lemma core_ok_routeScoped:
  assumes "routeScoped c en origin frame now local = (c2, r)" "core_ok c"
  shows "core_ok c2"
proof -
  have "mwf (co_carrying c2)"
    by (rule routeScoped_carrying [OF assms(1)])
      (use assms(2) duplicate_keeps_wf in \<open>auto simp: core_ok_def\<close>)
  then show ?thesis
    using routeScoped_keeps [OF assms(1)] assms(2) by (simp add: core_ok_def same_config_def links_ok_def)
qed

lemma core_ok_route_event: "core_ok c \<Longrightarrow> core_ok (fst (route_event c e))"
  using core_ok_routeScoped by (metis prod.collapse route_event_def)

lemma core_ok_demo: "core_ok demo_core"
  unfolding demo_core_def by (rule core_ok_NewCore)

theorem one_voice_per_slot_witness:
  "rs_Deliveries (snd (route_event demo_core demo_first)) \<noteq> [] \<and>
   list_all (\<lambda>d2. delivery_key d2 \<noteq> delivery_key (hd (rs_Deliveries (snd (route_event demo_core demo_first)))))
     (rs_Deliveries (snd (route_event (fst (route_event demo_core demo_first)) demo_second)))"
proof -
  let ?r1 = "snd (route_event demo_core demo_first)" and ?c1 = "fst (route_event demo_core demo_first)"
  let ?r2 = "snd (route_event ?c1 demo_second)"
  have ne: "rs_Deliveries ?r1 \<noteq> []" by code_simp
  have "list_all (\<lambda>e. within demo_core (ev_now demo_first) e \<and>
      \<not> (ev_source e = ev_source demo_first \<and> IsTerminator (ev_frame e))) [demo_second]"
    "contendsForSlot (ev_frame demo_first)" "contendsForSlot (ev_frame demo_second)"
    "ev_source demo_second \<noteq> ev_source demo_first" by code_simp+
  moreover have "(demo_second, ?r2) \<in> set (snd (route_run ?c1 [demo_second]))"
    by (simp split: prod.splits)
  moreover note core_ok_demo
  moreover have "hd (rs_Deliveries ?r1) \<in> set (rs_Deliveries ?r1)" using ne by simp
  ultimately show ?thesis
    using ne one_voice_per_slot [of demo_core demo_first ?c1 ?r1 "hd (rs_Deliveries ?r1)" "[demo_second]"]
    by simp
qed

theorem first_path_wins_witness:
  "\<not> nothing_sent (snd (route_event demo_core demo_first)) \<and>
   nothing_sent (snd (route_event (fst (route_event demo_core demo_first)) demo_copy))"
proof -
  let ?r1 = "snd (route_event demo_core demo_first)" and ?c1 = "fst (route_event demo_core demo_first)"
  have sent: "\<not> nothing_sent ?r1" by code_simp
  have "list_all (within demo_core (ev_now demo_first)) [demo_copy]"
    "stream_key (ev_frame demo_copy) = stream_key (ev_frame demo_first)"
    "ev_source demo_copy \<noteq> ev_source demo_first" by code_simp+
  moreover have "(demo_copy, snd (route_event ?c1 demo_copy)) \<in> set (snd (route_run ?c1 [demo_copy]))"
    by (simp split: prod.splits)
  moreover note core_ok_demo
  ultimately show ?thesis
    using sent first_path_wins [of demo_core demo_first ?c1 ?r1 "[demo_copy]"] by simp
qed

section \<open>Release and expiry\<close>

text \<open>
  a terminator frees what it held.  When the terminator of a transmission that holds destinations
  is sent anywhere, the transmission holds no destination afterwards.
\<close>

lemma terminator_releases:
  assumes "routeScoped c en origin frame now local = (c2, r)" "core_ok c" "IsTerminator frame"
    "holdsAnyFor c (source_key origin frame)" "\<not> nothing_sent r"
  shows "\<not> holdsAnyFor c2 (source_key origin frame)"
  by (rule routeScoped_sent [OF assms(1,5)])
    (use assms in \<open>auto simp: holdsAnyFor_def release_def list_ex_iff set_msweep\<close>)

definition demo_terminator :: event where
  "demo_terminator = demo_event 1 ((demo_frame 3100001 9 7)\<lparr>d_FrameType := FrameTypeSync, d_DataType := DataTypeTerminator\<rparr>)
     (second + 120000000)"

lemma terminator_releases_witness:
  "holdsAnyFor (fst (route_event demo_core demo_first)) (ev_source demo_first) \<and>
   \<not> holdsAnyFor (fst (route_event (fst (route_event demo_core demo_first)) demo_terminator)) (ev_source demo_first)"
proof -
  let ?c1 = "fst (route_event demo_core demo_first)"
  have h: "holdsAnyFor ?c1 (ev_source demo_first)" "\<not> nothing_sent (snd (route_event ?c1 demo_terminator))"
    "IsTerminator (ev_frame demo_terminator)" "ev_source demo_terminator = ev_source demo_first"
    by code_simp+
  have ok: "core_ok ?c1" by (rule core_ok_route_event [OF core_ok_demo])
  have "routeScoped ?c1 (ev_env demo_terminator) (ev_origin demo_terminator) (ev_frame demo_terminator)
      (ev_now demo_terminator) (ev_local demo_terminator) =
      (fst (route_event ?c1 demo_terminator), snd (route_event ?c1 demo_terminator))"
    by (simp add: route_event_def)
  from terminator_releases [OF this ok h(3)] h show ?thesis by (simp add: ev_source_def)
qed

interpretation reservations: expiring_table
  "\<lambda>c. mget (co_busy c)" "\<lambda>now c. fst (Core_Expire c now)" "\<lambda>c now k held. abandoned c now held"
  "\<lambda>c. mwf (co_busy c)"
proof
  fix c :: core and now k
  assume "mwf (co_busy c)"
  then show "mget (co_busy (fst (Core_Expire c now))) k =
      (case mget (co_busy c) k of None \<Rightarrow> None | Some v \<Rightarrow> if abandoned c now v then None else Some v)"
    by (simp add: Core_Expire_def mget_msweep)
next
  fix c now now' k v
  assume "abandoned c now v" "now \<le> now'"
  then show "abandoned c now' v"
    using Sub_mono [of now now' "rv_lastSeen v"] by (simp add: abandoned_def)
qed (simp_all add: Core_Expire_def abandoned_def fun_eq_iff)

interpretation carried: expiring_table
  "\<lambda>c. mget (co_carrying c)" "\<lambda>now c. expireCarried c now"
  "\<lambda>c now k held. Sub now (ca_lastSeen held) > co_timeout c" "\<lambda>c. mwf (co_carrying c)"
proof
  fix c :: core and now k
  assume "mwf (co_carrying c)"
  then show "mget (co_carrying (expireCarried c now)) k =
      (case mget (co_carrying c) k of None \<Rightarrow> None
       | Some v \<Rightarrow> if Sub now (ca_lastSeen v) > co_timeout c then None else Some v)"
    by (simp add: expireCarried_def mget_msweep)
next
  fix c :: core and now now' :: time and k :: streamKey and v :: carrier
  assume "Sub now (ca_lastSeen v) > co_timeout c" "now \<le> now'"
  then show "Sub now' (ca_lastSeen v) > co_timeout c"
    using Sub_mono [of now now' "ca_lastSeen v"] by simp
qed (simp_all add: expireCarried_def fun_eq_iff)

text \<open>
  expiry frees exactly what was abandoned.  After \<open>Expire\<close> at an instant no reservation has been
  silent for longer than the timeout, every other reservation is untouched, and the report lists
  the freed destinations, as many as were freed.
\<close>

lemma Expire_frees_abandoned:
  assumes "core_ok c"
  shows "(mget (co_busy (fst (Core_Expire c now))) k = Some r \<longleftrightarrow>
      mget (co_busy c) k = Some r \<and> Sub now (rv_lastSeen r) \<le> co_timeout c) \<and>
    length (snd (Core_Expire c now)) + BusyCount (fst (Core_Expire c now)) = BusyCount c"
proof
  have "mwf (co_busy c)" using assms by (simp add: core_ok_def busy_ok_def)
  from reservations.look_sweep [OF this, of now k]
  show "mget (co_busy (fst (Core_Expire c now))) k = Some r \<longleftrightarrow>
      mget (co_busy c) k = Some r \<and> Sub now (rv_lastSeen r) \<le> co_timeout c"
    by (auto simp: abandoned_def split: option.splits)
  show "length (snd (Core_Expire c now)) + BusyCount (fst (Core_Expire c now)) = BusyCount c"
    using sum_length_filter_compl [of "\<lambda>kv. abandoned c now (snd kv)" "co_busy c"]
    by (simp add: Core_Expire_def BusyCount_def msweep_def)
qed

lemma Expire_frees_abandoned_witness:
  "BusyCount (fst (route_event demo_core demo_first)) = 3 \<and>
   BusyCount (fst (Core_Expire (fst (route_event demo_core demo_first)) (4 * second))) = 0"
proof -
  let ?c = "fst (route_event demo_core demo_first)"
  have "BusyCount ?c = 3" "length (snd (Core_Expire ?c (4 * second))) = 3" by code_simp+
  with Expire_frees_abandoned [of ?c "4 * second"] core_ok_route_event [OF core_ok_demo] show ?thesis by force
qed

section \<open>Every reachable state\<close>

inductive core_step :: "core \<Rightarrow> core \<Rightarrow> bool" where
  route: "core_step c (fst (route_event c e))"
| set_table: "core_step c (SetTable c t)"
| set_access: "core_step c (Core_SetAccess c l)"
| expire: "core_step c (fst (Core_Expire c now))"

inductive_cases core_stepE: "core_step c c'"

definition core_init :: "core \<Rightarrow> bool" where
  "core_init c \<longleftrightarrow> (\<exists>opts. c = NewCore opts)"

interpretation core_system: safe_system core_init core_step core_ok
proof
  fix s assume "core_init s"
  then show "core_ok s" by (auto simp: core_init_def core_ok_NewCore)
next
  fix s t assume ok: "core_ok s" and "core_step s t"
  from this(2) show "core_ok t"
    by cases (use ok core_ok_route_event in \<open>auto simp: SetTable_def Core_SetAccess_def Core_Expire_def core_ok_def
        links_ok_def busy_ok_sweep\<close>)
qed

text \<open>
  C32: in every state the core can reach, by any sequence of frames, table and access changes and
  expiries, each destination that can carry one transmission at a time carries one: two
  reservations that contend for the same thing are the same reservation.
\<close>

theorem one_holder_per_destination:
  assumes "reachable core_init core_step c"
    and "mget (co_busy c) k1 = Some r1" "mget (co_busy c) k2 = Some r2"
    and "contend (rv_endpoint r1) = contend (rv_endpoint r2)"
  shows "k1 = k2 \<and> r1 = r2"
proof -
  have "core_ok c" using core_system.reachable_inv assms(1) .
  then have "busy_ok (co_busy c)" by (simp add: core_ok_def)
  from busy_ok_key [OF this assms(2)] busy_ok_key [OF this assms(3)] assms(2-4) show ?thesis by simp
qed

theorem one_holder_per_destination_witness:
  "reachable core_init core_step (fst (route_event demo_core demo_first)) \<and>
   (\<exists>r1 r2. mget (co_busy (fst (route_event demo_core demo_first))) (contend (peer_endpoint 2 9 1)) = Some r1 \<and>
     mget (co_busy (fst (route_event demo_core demo_first))) (contend (peer_endpoint 2 91 1)) = Some r2 \<and> r1 = r2)"
proof -
  let ?c = "fst (route_event demo_core demo_first)"
  have "core_init demo_core" by (auto simp: core_init_def demo_core_def)
  then have "reachable core_init core_step demo_core" by (rule reachable.start)
  then have r: "reachable core_init core_step ?c"
    using core_step.route [of demo_core demo_first] by (rule reachable.step)
  have "mget (co_busy ?c) (contend (peer_endpoint 2 9 1)) \<noteq> None" by code_simp
  then obtain r1 where r1: "mget (co_busy ?c) (contend (peer_endpoint 2 9 1)) = Some r1" by blast
  moreover have "contend (peer_endpoint 2 91 1) = contend (peer_endpoint 2 9 1)"
    by (simp add: contend_def peer_endpoint_def)
  ultimately show ?thesis using r one_holder_per_destination [OF r r1 r1] by simp
qed

definition demo_linked :: core where
  "demo_linked = NewCore \<lparr>op_NoRepeat = False, op_Access = zero_lists, op_Table = None, op_Timeout = 0,
     op_QSPLinks = [''BCARA'', ''North'']\<rparr>"

theorem link_loop_rule_witness:
  "map ud_Upstream (rs_Upstreams (snd (RouteFromUpstream demo_linked demo_env ''bcara'' (demo_frame 3100001 9 7) second))) =
     [''North''] \<and> \<not> EqualFold ''North'' ''bcara''"
proof -
  have m: "map ud_Upstream (rs_Upstreams (snd (RouteFromUpstream demo_linked demo_env ''bcara'' (demo_frame 3100001 9 7) second))) =
     [''North'']" by code_simp
  have "''bcara'' \<noteq> []" by simp
  from link_loop_rule [OF this, of demo_linked demo_env "demo_frame 3100001 9 7" second] m show ?thesis
    by (auto simp: list_all_iff map_eq_Cons_conv)
qed

section \<open>Transcoded audio and repeat\<close>

text \<open>
  opt-in holds without repeat.  On a core that does not repeat, whatever comes out of a transcoder
  is delivered only to peers that the permission for that transcoder covers, however the bridge
  names them.
\<close>

lemma transcoder_opt_in_without_repeat:
  assumes "core_ok c" "\<not> co_repeat c" "name \<noteq> []"
  shows "list_all (\<lambda>d. Permits (TranscoderPermission c name) (dv_Peer d))
    (rs_Deliveries (snd (RouteFromTranscoder c en name frame now)))"
proof (cases "nothing_sent (snd (RouteFromTranscoder c en name frame now))")
  case True
  then show ?thesis by (simp add: nothing_sent_def)
next
  case False
  let ?og = "transcoder_endpoint name (d_TargetID frame) (d_Timeslot frame)"
  obtain c2 r where r: "routeScoped c en ?og frame now False = (c2, r)" by fastforce
  with False obtain targets0 unlocated cx c1 v where
    t: "route_targets c en ?og frame (Route (co_table c) ?og) = Inr (targets0, unlocated)"
    "loop_inv en cx (keep_local False targets0) c1 v" "rs_Deliveries r = lv_Deliveries v"
    by (auto simp: RouteFromTranscoder_def elim: routeScoped_sent)
  have "Permits (TranscoderPermission c name) (dv_Peer d)" if d: "d \<in> set (rs_Deliveries r)" for d
  proof -
    obtain x where x: "x \<in> set targets0" "kind (rt_Endpoint x) = kindPeer" "dv_Peer d \<in> set (resolve en (rt_Endpoint x))"
      using d t(2,3) by (auto simp: loop_inv_def list_all_iff good_delivery_def keep_local_def)
    have "rt_Endpoint x \<in> set (dc_Targets (Route (co_table c) ?og))"
      by (rule target_sources [OF t(1) x(1)]) (use assms in \<open>auto simp: core_ok_def\<close>)
    then obtain tb where tb: "co_table c = Some tb" "rt_Endpoint x \<in> set (dc_Targets (Route (Some tb) ?og))"
      by (cases "co_table c") auto
    have "Permits (permissions_of tb name) (ep_Peer (rt_Endpoint x))"
      using tb(2) x(2) assms(3) Route_targets [of tb ?og]
      by (auto simp: opted_in_def kind_def transcoder_endpoint_def split: if_splits)
    then show ?thesis
      using x(3) tb(1)
      by (auto simp: TranscoderPermission_def Permits_def AnyPeer_def resolve_def list_ex_iff split: if_splits)
  qed
  then show ?thesis using r by (auto simp: RouteFromTranscoder_def list_all_iff)
qed

definition demo_chip :: "bool \<Rightarrow> core" where
  "demo_chip norepeat = NewCore \<lparr>op_NoRepeat = norepeat, op_Access = zero_lists,
     op_Table = Some \<lparr>tb_bridges = [\<lparr>br_Name = ''zello'', br_Enabled = True,
         br_Endpoints = [peer_endpoint 1 9 1, peer_endpoint 2 9 1, transcoder_endpoint ''dvstick'' 9 1]\<rparr>],
       tb_permissions = [(''dvstick'', \<lparr>perm_Peers = [1], perm_All = False\<rparr>)]\<rparr>,
     op_Timeout = 0, op_QSPLinks = []\<rparr>"

lemma transcoder_opt_in_without_repeat_witness:
  "map dv_Peer (rs_Deliveries (snd (RouteFromTranscoder (demo_chip True) demo_env ''dvstick'' (demo_frame 3100001 9 7) second))) = [1] \<and>
   Permits (TranscoderPermission (demo_chip True) ''dvstick'') 1"
proof -
  have m: "map dv_Peer (rs_Deliveries (snd (RouteFromTranscoder (demo_chip True) demo_env ''dvstick'' (demo_frame 3100001 9 7) second))) = [1]"
    by code_simp
  have "core_ok (demo_chip True)" "\<not> co_repeat (demo_chip True)" "''dvstick'' \<noteq> []"
    unfolding demo_chip_def by (rule core_ok_NewCore) (simp_all add: NewCore_def)
  from transcoder_opt_in_without_repeat [OF this, of demo_env "demo_frame 3100001 9 7" second] m show ?thesis
    by (auto simp: list_all_iff map_eq_Cons_conv)
qed

section \<open>Repeat does not ask\<close>

text \<open>A destination no other transmission holds, and what the loop over the targets keeps of it.\<close>

definition unblocked :: "core \<Rightarrow> hbp_data \<Rightarrow> sourceKey \<Rightarrow> time \<Rightarrow> endpoint \<Rightarrow> bool" where
  "unblocked c frame src now k \<longleftrightarrow> (\<forall>r. \<not> blocked_by c frame src now k r)"

lemma contest_unblocked:
  assumes "contest c dest frame src bridge now = (c', oc)" "unblocked c frame src now k"
  shows "unblocked c' frame src now k"
  by (rule contest_cases [of c dest frame src bridge now])
    (use assms in \<open>auto simp: unblocked_def blocked_by_def new_reservation_def touch_def\<close>)

lemma contest_free:
  assumes "contest c dest frame src bridge now = (c', oc)" "unblocked c frame src now (contend dest)"
  shows "oc \<noteq> Held h"
  by (rule contest_cases [of c dest frame src bridge now])
    (use assms in \<open>auto simp: unblocked_def blocked_by_def\<close>)

lemma reserve_origin_unblocked:
  "unblocked c frame src now k \<Longrightarrow> unblocked (reserve_origin c op og frame src b now) frame src now k"
  by (auto simp: reserve_origin_def Let_def unblocked_def blocked_by_def new_reservation_def touch_def split: option.splits)

definition repeat_inv :: "core \<Rightarrow> route_ctx \<Rightarrow> endpoint \<Rightarrow> route_acc \<Rightarrow> bool" where
  "repeat_inv c cx k a \<longleftrightarrow> same_config c (ra_core a) \<and> unblocked (ra_core a) (cx_frame cx) (cx_src cx) (cx_now cx) k \<and>
     set (ra_delivered a) \<subseteq> dv_Peer ` set (rs_Deliveries (ra_res a))"

lemma claimed_repeat:
  "claimed cx dest c0 c' \<Longrightarrow> same_config c c0 \<Longrightarrow> unblocked c0 (cx_frame cx) (cx_src cx) (cx_now cx) k \<Longrightarrow>
    same_config c c' \<and> unblocked c' (cx_frame cx) (cx_src cx) (cx_now cx) k"
  using claimed_grows [of cx dest c0 c'] contest_unblocked
  by (auto simp: claimed_def core_grows_def intro: same_config_trans)

lemma deliver_peer_repeat: "repeat_inv c cx k a \<Longrightarrow> repeat_inv c cx k (deliver_peer en cx t q a)"
  by (rule deliver_peer_cases [of en cx t q a]) (auto simp: repeat_inv_def add_drop_def dest: claimed_repeat)

lemma deliver_peer_keeps: "p \<in> dv_Peer ` set (rs_Deliveries (ra_res a)) \<Longrightarrow> p \<in> dv_Peer ` set (rs_Deliveries (ra_res (deliver_peer en cx t q a)))"
  by (rule deliver_peer_cases [of en cx t q a]) (auto simp: add_drop_def)

lemma deliver_all_repeat: "repeat_inv c cx k a \<Longrightarrow> repeat_inv c cx k (fold (deliver_target en cx) ts a)"
proof (rule deliver_all_inv [where P = "repeat_inv c cx k"])
  show "repeat_inv c cx k (deliverTranscoder cx (rt_Endpoint t) a)" if "repeat_inv c cx k a" for a t
    by (rule deliverTranscoder_cases [of cx "rt_Endpoint t" a]) (use that in \<open>auto simp: repeat_inv_def add_drop_def dest: claimed_repeat\<close>)
  show "repeat_inv c cx k (deliverUpstream cx (rt_Endpoint t) a)" if "repeat_inv c cx k a" for a t
    by (rule deliverUpstream_cases [of cx "rt_Endpoint t" a]) (use that in \<open>auto simp: repeat_inv_def add_drop_def dest: claimed_repeat\<close>)
  show "repeat_inv c cx k (add_drop d a)" if "repeat_inv c cx k a" for a d using that by (simp add: repeat_inv_def add_drop_def)
qed (auto simp: deliver_peer_repeat)

lemma deliver_all_keeps:
  "p \<in> dv_Peer ` set (rs_Deliveries (ra_res a)) \<Longrightarrow> p \<in> dv_Peer ` set (rs_Deliveries (ra_res (fold (deliver_target en cx) ts a)))"
proof (rule deliver_all_inv [where P = "\<lambda>a. p \<in> dv_Peer ` set (rs_Deliveries (ra_res a))"])
  show "p \<in> dv_Peer ` set (rs_Deliveries (ra_res (deliverTranscoder cx (rt_Endpoint t) a)))" if "p \<in> dv_Peer ` set (rs_Deliveries (ra_res a))" for a t
    by (rule deliverTranscoder_cases [of cx "rt_Endpoint t" a]) (use that in \<open>auto simp: add_drop_def\<close>)
  show "p \<in> dv_Peer ` set (rs_Deliveries (ra_res (deliverUpstream cx (rt_Endpoint t) a)))" if "p \<in> dv_Peer ` set (rs_Deliveries (ra_res a))" for a t
    by (rule deliverUpstream_cases [of cx "rt_Endpoint t" a]) (use that in \<open>auto simp: add_drop_def\<close>)
qed (auto simp: deliver_peer_keeps add_drop_def)

lemma deliver_peer_reaches:
  assumes "repeat_inv c cx (contend (dest_of p (rt_Endpoint t))) a" "may_reach en cx t p"
    and "talkgroupAllowed c (cx_frame cx) (ep_Timeslot (rt_Endpoint t)) (ep_Talkgroup (rt_Endpoint t))"
  shows "p \<in> dv_Peer ` set (rs_Deliveries (ra_res (deliver_peer en cx t p a)))"
proof -
  obtain c' oc where con: "contest (ra_core a) (dest_of p (rt_Endpoint t)) (cx_frame cx) (cx_src cx) (cx_bridge cx) (cx_now cx) = (c', oc)"
    by fastforce
  have "\<forall>h. oc \<noteq> Held h" using contest_free [OF con] assms(1) by (simp add: repeat_inv_def)
  moreover have "talkgroupAllowed (ra_core a) (cx_frame cx) (ep_Timeslot (rt_Endpoint t)) (ep_Talkgroup (rt_Endpoint t))"
    using assms(1,3) talkgroupAllowed_config by (auto simp: repeat_inv_def)
  ultimately show ?thesis
    using con assms(1,2)
    by (cases oc) (auto simp: deliver_peer_def Let_def may_reach_def peer_wants_def dest_of_def repeat_inv_def add_started_def split: option.splits)
qed

lemma deliver_any_reaches:
  assumes "repeat_inv c cx (contend (dest_of p (rt_Endpoint t))) a" "may_reach en cx t p" "p \<in> set ps"
    and "talkgroupAllowed c (cx_frame cx) (ep_Timeslot (rt_Endpoint t)) (ep_Talkgroup (rt_Endpoint t))"
  shows "p \<in> dv_Peer ` set (rs_Deliveries (ra_res (fold (deliver_peer en cx t) ps a)))"
  using assms(1,3)
proof (induction ps arbitrary: a)
  case (Cons q ps)
  have keeps: "p \<in> dv_Peer ` set (rs_Deliveries (ra_res (fold (deliver_peer en cx t) ps a)))"
    if "p \<in> dv_Peer ` set (rs_Deliveries (ra_res a))" for a
    using that by (induction ps arbitrary: a) (simp_all add: deliver_peer_keeps)
  show ?case
  proof (cases "q = p")
    case True
    then show ?thesis using keeps deliver_peer_reaches [OF Cons.prems(1) assms(2,4)] by simp
  next
    case False
    then show ?thesis using Cons.IH [OF deliver_peer_repeat [OF Cons.prems(1)]] Cons.prems(2) by simp
  qed
qed simp

lemma carry_repeats:
  assumes "t \<in> set targets" "rt_Endpoint t = peer_endpoint AnyPeer tg ts" "p \<in> set (en_ReadyPeers en)"
    and "may_reach en (ctx_of origin frame now decision linked) t p" "talkgroupAllowed c frame ts tg"
    and "unblocked c frame (source_key origin frame) now (contend (peer_endpoint p tg ts))"
  shows "p \<in> dv_Peer ` set (rs_Deliveries (snd (carry en origin frame now decision linked unlocated targets c)))"
proof -
  define cx where "cx = ctx_of origin frame now decision linked"
  define src where "src = source_key origin frame"
  define c1 where "c1 = reserve_origin c (\<not> holdsAnyFor c src) origin frame src (cx_bridge cx) now"
  define a0 where "a0 = \<lparr>ra_core = c1, ra_res = zero_result\<lparr>rs_Drops := withheld_drops origin (dc_Withheld decision)\<rparr>, ra_delivered = []\<rparr>"
  have eq: "rs_Deliveries (snd (carry en origin frame now decision linked unlocated targets c)) =
      rs_Deliveries (ra_res (fold (deliver_target en cx) targets a0))"
    by (simp add: carry_def Let_def a0_def c1_def cx_def ctx_of_def src_def)
  obtain xs ys where split: "targets = xs @ t # ys" using assms(1) by (meson split_list)
  have d: "dest_of p (rt_Endpoint t) = peer_endpoint p tg ts" by (simp add: assms(2) dest_of_def peer_endpoint_def)
  have "repeat_inv c cx (contend (peer_endpoint p tg ts)) a0"
    using reserve_origin_config reserve_origin_unblocked assms(6) by (simp add: repeat_inv_def a0_def c1_def src_def cx_def)
  note r = deliver_all_repeat [OF this, of en xs]
  have "deliver_target en cx t a = fold (deliver_peer en cx t) (en_ReadyPeers en) a" for a
    by (simp add: deliver_target_def assms(2) peer_endpoint_def resolve_def)
  then have "p \<in> dv_Peer ` set (rs_Deliveries (ra_res (deliver_target en cx t (fold (deliver_target en cx) xs a0))))"
    using deliver_any_reaches [where t = t and p = p and cx = cx and en = en, unfolded d, OF r _ assms(3)] assms(2,4,5)
    by (simp add: cx_def peer_endpoint_def)
  from deliver_all_keeps [OF this, of en cx ys] show ?thesis unfolding eq by (simp add: split)
qed

text \<open>
  C33: the exception to the opt-in.  With repeat on, which is the default, a group call out of a transcoder that its access lists let
  in and that is not already carried by another path is sent to every ready peer that is attached to its talkgroup and on whose
  timeslot no other transmission is: repeat does not ask whether the owner opted in to transcoded audio.
\<close>

theorem repeat_ignores_opt_in:
  assumes "co_repeat c" "d_CallType frame = CallGroup" "talkgroupAllowed c frame (d_Timeslot frame) (d_TargetID frame)"
    and "origin = transcoder_endpoint name (d_TargetID frame) (d_Timeslot frame)"
    and "snd (duplicate c frame (source_key origin frame) now) = None"
    and "p \<in> set (en_ReadyPeers en)" "p \<noteq> 0" "en_Attached en = None \<or> the (en_Attached en) p (d_TargetID frame) (d_Timeslot frame)"
    and "unblocked c frame (source_key origin frame) now (contend (peer_endpoint p (d_TargetID frame) (d_Timeslot frame)))"
  shows "p \<in> dv_Peer ` set (rs_Deliveries (snd (RouteFromTranscoder c en name frame now)))"
proof -
  let ?d = "Route (co_table c) origin" and ?t = "\<lparr>rt_Endpoint = peer_endpoint AnyPeer (d_TargetID frame) (d_Timeslot frame), rt_repeat = True\<rparr>"
  obtain c' where dup: "duplicate c frame (source_key origin frame) now = (c', None)" using assms(5) by (metis prod.collapse)
  have c': "same_config c c'" "co_busy c' = co_busy c"
    using dup by (auto simp: duplicate_def expireCarried_def Let_def same_config_def split: option.splits if_splits)
  define targets where "targets = map (\<lambda>e. \<lparr>rt_Endpoint = e, rt_repeat = False\<rparr>) (dc_Targets ?d) @ repeat_targets c frame"
  have t: "?t \<in> set targets" by (simp add: targets_def repeat_targets_def)
  have o: "ep_Timeslot origin = d_Timeslot frame" "ep_Talkgroup origin = d_TargetID frame" "ep_Peer origin = 0"
    by (simp_all add: assms(4) transcoder_endpoint_def)
  have "route_targets c en origin frame ?d = Inr (targets, False)" using assms(1,2) by (simp add: route_targets_def targets_def Let_def)
  then have "RouteFromTranscoder c en name frame now = carry en origin frame now ?d [] False targets c'"
    using assms(3) t dup by (auto simp: RouteFromTranscoder_def routeScoped_def assms(4) [symmetric] o Let_def)
  moreover have "may_reach en (ctx_of origin frame now ?d []) ?t p"
    using assms(7,8) o(3) by (auto simp: may_reach_def peer_wants_def peer_endpoint_def split: option.split)
  moreover have "talkgroupAllowed c' frame (d_Timeslot frame) (d_TargetID frame)" using assms(3) talkgroupAllowed_config [OF c'(1)] by simp
  moreover have "unblocked c' frame (source_key origin frame) now (contend (peer_endpoint p (d_TargetID frame) (d_Timeslot frame)))"
    using assms(9) c' by (simp add: unblocked_def blocked_by_def same_config_def)
  ultimately show ?thesis using carry_repeats [OF t _ assms(6), of "d_TargetID frame" "d_Timeslot frame"] by simp
qed

text \<open>
  Peer 1 opted in, peer 2 is bridged and withheld: it is sent the audio, while the drop list says it was refused.
\<close>

theorem repeat_ignores_opt_in_witness:
  "let r = snd (RouteFromTranscoder (demo_chip False) demo_env ''dvstick'' (demo_frame 3100001 9 7) second) in
   2 \<in> dv_Peer ` set (rs_Deliveries r) \<and>
   map (\<lambda>d. (ep_Peer (dr_To d), dr_Reason d)) (rs_Drops r) = [(2, NotOptedIn 2 ''dvstick'')] \<and>
   \<not> Permits (TranscoderPermission (demo_chip False) ''dvstick'') 2"
proof -
  let ?f = "demo_frame 3100001 9 7" and ?c = "demo_chip False"
  have a: "co_repeat ?c" "d_CallType ?f = CallGroup" "talkgroupAllowed ?c ?f (d_Timeslot ?f) (d_TargetID ?f)"
    "snd (duplicate ?c ?f (source_key (transcoder_endpoint ''dvstick'' (d_TargetID ?f) (d_Timeslot ?f)) ?f) second) = None"
    "2 \<in> set (en_ReadyPeers demo_env)" "en_Attached demo_env = None" "co_busy ?c = []"
    by code_simp+
  have u: "unblocked ?c ?f src second k" for src k by (simp add: unblocked_def blocked_by_def a(7))
  have r: "map (\<lambda>d. (ep_Peer (dr_To d), dr_Reason d)) (rs_Drops (snd (RouteFromTranscoder ?c demo_env ''dvstick'' ?f second))) =
      [(2, NotOptedIn 2 ''dvstick'')]" "\<not> Permits (TranscoderPermission ?c ''dvstick'') 2"
    by code_simp+
  show ?thesis using repeat_ignores_opt_in [OF a(1-3) refl a(4,5) _ _ u] a(6) r by (simp add: Let_def)
qed

end
