(* ===== verification/Peer_Throttle.thy ===== *)
theory Peer_Throttle
  imports Prelude
begin

text \<open>
  \<^verbatim>\<open>internal/peers/throttle.go\<close>: failed logins counted per source address.  \<open>fail\<close> records one, and
  only a failure that proves its address counts towards the lockout; \<open>makeRoom\<close> frees a place in a
  full table; \<open>expire\<close> forgets.  The log line of a lockout is a \<open>lock_report\<close>.  Where the Go code
  ranges over the map and several entries tie for the quietest, the model takes the first.  The
  lemmas show that a forged failure never locks anybody, that guessing is stopped at the limit
  whatever the table holds, and that the table stays bounded.
\<close>

section \<open>Addresses\<close>

datatype ip_addr = IPv4 u32 | IPv6 "128 word" string

record addr_port =
  ap_Addr :: ip_addr
  ap_Port :: u16

section \<open>Model\<close>

definition DefaultMaxLoginFailures :: int where
  "DefaultMaxLoginFailures = 6"

definition DefaultLoginLockout :: duration where
  "DefaultLoginLockout = 5 * minute"

definition loginFailureWindow :: duration where
  "loginFailureWindow = 15 * minute"

definition maxTrackedSources :: nat where
  "maxTrackedSources = 4096"

datatype failure_reason = ReasonWrongPassword | ReasonUnknownID | ReasonWrongAddress | ReasonUnsolicited

definition provesAddress :: "failure_reason \<Rightarrow> bool" where
  "provesAddress r \<longleftrightarrow> r \<noteq> ReasonUnsolicited \<and> r \<noteq> ReasonWrongAddress"

record login_attempts =
  la_failures :: int
  la_first :: time
  la_last :: time
  la_until :: time
  la_reasons :: "(failure_reason, int) gomap"
  la_warned :: bool

record throttle =
  th_max :: int
  th_lockout :: duration
  th_attempts :: "(ip_addr, login_attempts) gomap"

definition newThrottle :: "int \<Rightarrow> duration \<Rightarrow> throttle" where
  "newThrottle mx lockout = \<lparr>th_max = (if mx \<le> 0 then DefaultMaxLoginFailures else mx),
     th_lockout = (if lockout \<le> 0 then DefaultLoginLockout else lockout), th_attempts = []\<rparr>"

definition lock_running :: "login_attempts \<Rightarrow> time \<Rightarrow> bool" where
  "lock_running a now \<longleftrightarrow> \<not> IsZero (la_until a) \<and> now < la_until a"

definition locked :: "throttle \<Rightarrow> addr_port \<Rightarrow> time \<Rightarrow> bool" where
  "locked t from now = (case mget (th_attempts t) (ap_Addr from) of None \<Rightarrow> False | Some a \<Rightarrow> lock_running a now)"

definition lapsed_attempts :: "time \<Rightarrow> login_attempts \<Rightarrow> bool" where
  "lapsed_attempts now a \<longleftrightarrow> \<not> lock_running a now \<and> \<not> Sub now (la_last a) \<le> loginFailureWindow"

definition expire :: "throttle \<Rightarrow> time \<Rightarrow> throttle" where
  "expire t now = t\<lparr>th_attempts := msweep (\<lambda>addr a. lapsed_attempts now a) (th_attempts t)\<rparr>"

text \<open>The quietest entry a key function picks among those that satisfy \<open>P\<close>.\<close>

fun quietest :: "(login_attempts \<Rightarrow> bool) \<Rightarrow> (login_attempts \<Rightarrow> time) \<Rightarrow>
    (ip_addr, login_attempts) gomap \<Rightarrow> (ip_addr \<times> time) option \<Rightarrow> (ip_addr \<times> time) option" where
  "quietest P key [] best = best"
| "quietest P key ((addr, a) # m) best =
     (if \<not> P a then quietest P key m best
      else case best of
          None \<Rightarrow> quietest P key m (Some (addr, key a))
        | Some (_, t) \<Rightarrow> quietest P key m (if key a < t then Some (addr, key a) else best))"

definition makeRoom :: "throttle \<Rightarrow> failure_reason \<Rightarrow> time \<Rightarrow> throttle \<times> bool" where
  "makeRoom t reason now =
     (if \<not> provesAddress reason then (t, False)
      else let t = expire t now in
        if length (th_attempts t) < maxTrackedSources then (t, True)
        else let unproven = quietest (\<lambda>a. la_failures a = 0) la_last (th_attempts t) None;
                 unlocked = quietest (\<lambda>a. la_failures a \<noteq> 0 \<and> \<not> lock_running a now) la_last (th_attempts t) None;
                 lockd = quietest (\<lambda>a. la_failures a \<noteq> 0 \<and> lock_running a now) la_until (th_attempts t) None;
                 remove = (\<lambda>addr. (t\<lparr>th_attempts := mdel addr (th_attempts t)\<rparr>, True))
             in case unproven of Some (addr, _) \<Rightarrow> remove addr
              | None \<Rightarrow> (case unlocked of Some (addr, _) \<Rightarrow> remove addr
                | None \<Rightarrow> (case lockd of Some (addr, _) \<Rightarrow> remove addr | None \<Rightarrow> (t, False))))"

definition describeReasons :: "(failure_reason, int) gomap \<Rightarrow> (failure_reason \<times> int) list" where
  "describeReasons reasons =
     filter (\<lambda>rn. snd rn \<noteq> 0) (map (\<lambda>r. (r, case mget reasons r of None \<Rightarrow> 0 | Some n \<Rightarrow> n))
       [ReasonWrongPassword, ReasonUnknownID, ReasonWrongAddress, ReasonUnsolicited])"

record lock_report =
  lk_failures :: int
  lk_addr :: ip_addr
  lk_elapsed :: duration
  lk_reasons :: "(failure_reason \<times> int) list"
  lk_lockout :: duration

definition new_attempts :: "time \<Rightarrow> login_attempts" where
  "new_attempts now = \<lparr>la_failures = 0, la_first = now, la_last = 0, la_until = 0, la_reasons = [], la_warned = False\<rparr>"

definition count_reason :: "failure_reason \<Rightarrow> (failure_reason, int) gomap \<Rightarrow> (failure_reason, int) gomap" where
  "count_reason r m = mput r ((case mget m r of None \<Rightarrow> 0 | Some n \<Rightarrow> n) + 1) m"

text \<open>\<open>fail\<close> after the entry has been found or made.\<close>

definition record_failure :: "throttle \<Rightarrow> ip_addr \<Rightarrow> login_attempts \<Rightarrow> failure_reason \<Rightarrow> time \<Rightarrow>
    throttle \<times> bool \<times> lock_report option" where
  "record_failure t addr a reason now =
     (let put = (\<lambda>a. t\<lparr>th_attempts := mput addr a (th_attempts t)\<rparr>);
          a1 = a\<lparr>la_last := now, la_reasons := count_reason reason (la_reasons a)\<rparr> in
      if \<not> provesAddress reason then (put a1, False, None)
      else let a2 = a1\<lparr>la_failures := la_failures a1 + 1\<rparr> in
        if la_failures a2 < th_max t then (put a2, False, None)
        else let a3 = a2\<lparr>la_until := now + th_lockout t\<rparr> in
          if la_warned a3 then (put a3, True, None)
          else (put (a3\<lparr>la_warned := True\<rparr>), True,
            Some \<lparr>lk_failures = la_failures a3, lk_addr = addr, lk_elapsed = Sub now (la_first a3),
              lk_reasons = describeReasons (la_reasons a3), lk_lockout = th_lockout t\<rparr>))"

definition fail :: "throttle \<Rightarrow> addr_port \<Rightarrow> failure_reason \<Rightarrow> time \<Rightarrow> throttle \<times> bool \<times> lock_report option" where
  "fail t from reason now =
     (let addr = ap_Addr from in
      case mget (th_attempts t) addr of
        Some a \<Rightarrow> record_failure t addr (if Sub now (la_last a) > loginFailureWindow then new_attempts now else a) reason now
      | None \<Rightarrow>
          if length (th_attempts t) \<ge> maxTrackedSources then
            (case makeRoom t reason now of
               (t', False) \<Rightarrow> (t', False, None)
             | (t', True) \<Rightarrow> record_failure t' addr (new_attempts now) reason now)
          else record_failure t addr (new_attempts now) reason now)"

definition succeed :: "throttle \<Rightarrow> addr_port \<Rightarrow> throttle" where
  "succeed t from = t\<lparr>th_attempts := mdel (ap_Addr from) (th_attempts t)\<rparr>"

definition tracked :: "throttle \<Rightarrow> ip_addr \<Rightarrow> bool" where
  "tracked t addr \<longleftrightarrow> mget (th_attempts t) addr \<noteq> None"

definition blocked :: "throttle \<Rightarrow> time \<Rightarrow> nat" where
  "blocked t now = length (filter (\<lambda>kv. lock_running (snd kv) now) (th_attempts t))"

record login_failure =
  lf_Address :: ip_addr
  lf_RepeaterID :: u32
  lf_Reason :: "(failure_reason \<times> int) list"
  lf_Failures :: int
  lf_Since :: time
  lf_LockedUntil :: time

definition recentFailures :: "throttle \<Rightarrow> time \<Rightarrow> (ip_addr, u32) gomap \<Rightarrow> login_failure list" where
  "recentFailures t now claimed =
     map (\<lambda>(addr, a). \<lparr>lf_Address = addr,
         lf_RepeaterID = (case mget claimed addr of None \<Rightarrow> 0 | Some rid \<Rightarrow> rid),
         lf_Reason = describeReasons (la_reasons a), lf_Failures = la_failures a, lf_Since = la_first a,
         lf_LockedUntil = (if lock_running a now then la_until a else 0)\<rparr>)
       (filter (\<lambda>(addr, a). \<not> Sub now (la_last a) > loginFailureWindow) (th_attempts t))"

section \<open>The invariant\<close>

definition throttle_ok :: "throttle \<Rightarrow> bool" where
  "throttle_ok t \<longleftrightarrow> mwf (th_attempts t) \<and> length (th_attempts t) \<le> maxTrackedSources \<and> 0 < th_max t \<and>
     0 < th_lockout t \<and> list_all (\<lambda>kv. 0 \<le> la_failures (snd kv)) (th_attempts t)"

lemma throttle_ok_new: "throttle_ok (newThrottle mx lockout)"
  by (simp add: throttle_ok_def newThrottle_def maxTrackedSources_def DefaultMaxLoginFailures_def DefaultLoginLockout_def)

lemma length_msweep: "length (msweep P m) \<le> length m"
  by (simp add: msweep_def)

lemma throttle_ok_expire: "throttle_ok t \<Longrightarrow> throttle_ok (expire t now)"
  using length_msweep [of "\<lambda>addr a. lapsed_attempts now a" "th_attempts t"]
  by (auto simp: throttle_ok_def expire_def list_all_iff set_msweep)

lemma length_mdel_le: "length (mdel k m) \<le> length m"
  by (simp add: mdel_def)

lemma list_all_mdel: "list_all P m \<Longrightarrow> list_all P (mdel k m)"
  by (auto simp: list_all_iff mdel_def)

lemma throttle_ok_succeed: "throttle_ok t \<Longrightarrow> throttle_ok (succeed t from)"
  using length_mdel_le [of "ap_Addr from" "th_attempts t"]
  by (simp add: throttle_ok_def succeed_def list_all_mdel)

lemma quietest_mem:
  "quietest P key m best = Some (addr, x) \<Longrightarrow> best = Some (addr, x) \<or> addr \<in> mkeys m"
proof (induction m arbitrary: best)
  case (Cons kv m)
  obtain k a where kv: "kv = (k, a)" by fastforce
  show ?case
  proof (cases "P a")
    case True
    then show ?thesis
      using Cons.IH [of "Some (k, key a)"] Cons.IH [of best] Cons.prems kv
      by (cases best) (auto simp: mkeys_def split: if_splits)
  next
    case False
    then show ?thesis using Cons kv by (auto simp: mkeys_def)
  qed
qed simp

lemma quietest_found: "quietest P key m best = None \<longleftrightarrow> best = None \<and> (\<forall>kv \<in> set m. \<not> P (snd kv))"
  by (induction P key m best rule: quietest.induct) (auto split: option.splits)

text \<open>A failure that proves its address always gets a place.\<close>

lemma quietest_key: "quietest P key m None = Some (addr, x) \<Longrightarrow> mget m addr \<noteq> None"
  using quietest_mem [of P key m None addr x] by (auto simp: mget_None_iff)

lemma makeRoom_room:
  assumes "throttle_ok t" "provesAddress reason" "makeRoom t reason now = (t', ok)"
  shows "ok \<and> length (th_attempts t') < maxTrackedSources \<and> mwf (th_attempts t') \<and>
    th_max t' = th_max t \<and> th_lockout t' = th_lockout t \<and>
    list_all (\<lambda>kv. 0 \<le> la_failures (snd kv)) (th_attempts t') \<and>
    (\<forall>addr. mget (th_attempts t) addr = None \<longrightarrow> mget (th_attempts t') addr = None)"
proof -
  define te where "te = expire t now"
  have te: "throttle_ok te" "th_max te = th_max t" "th_lockout te = th_lockout t"
    "\<And>addr. mget (th_attempts t) addr = None \<Longrightarrow> mget (th_attempts te) addr = None"
    using throttle_ok_expire [OF assms(1)] assms(1)
    by (auto simp: te_def expire_def throttle_ok_def mget_msweep)
  show ?thesis
  proof (cases "length (th_attempts te) < maxTrackedSources")
    case True
    then show ?thesis using assms te by (auto simp: makeRoom_def Let_def te_def [symmetric] throttle_ok_def)
  next
    case False
    then have full: "length (th_attempts te) = maxTrackedSources" using te(1) by (simp add: throttle_ok_def)
    then have "th_attempts te \<noteq> []" by (auto simp: maxTrackedSources_def)
    then obtain kv where kv: "kv \<in> set (th_attempts te)" by (meson last_in_set)
    let ?u = "quietest (\<lambda>a. la_failures a = 0) la_last (th_attempts te) None"
    let ?n = "quietest (\<lambda>a. la_failures a \<noteq> 0 \<and> \<not> lock_running a now) la_last (th_attempts te) None"
    let ?l = "quietest (\<lambda>a. la_failures a \<noteq> 0 \<and> lock_running a now) la_until (th_attempts te) None"
    have some: "\<not> (?u = None \<and> ?n = None \<and> ?l = None)"
      using kv by (auto simp: quietest_found)
    obtain addr x where a: "?u = Some (addr, x) \<or> ?n = Some (addr, x) \<or> ?l = Some (addr, x)"
      and eq: "t' = te\<lparr>th_attempts := mdel addr (th_attempts te)\<rparr>" "ok"
      using assms(2,3) False some
      by (auto simp: makeRoom_def Let_def te_def [symmetric] split: option.splits)
    have "mget (th_attempts te) addr \<noteq> None" using a quietest_key by blast
    then obtain v where "mget (th_attempts te) addr = Some v" by blast
    then have "Suc (length (mdel addr (th_attempts te))) = length (th_attempts te)"
      using te(1) length_mdel by (fastforce simp: throttle_ok_def)
    moreover have "list_all (\<lambda>kv. 0 \<le> la_failures (snd kv)) (mdel addr (th_attempts te))"
      using te(1) by (simp add: throttle_ok_def list_all_mdel)
    ultimately show ?thesis using eq te full by (simp add: throttle_ok_def)
  qed
qed

lemma record_failure_fields:
  assumes "record_failure t addr a reason now = (t', l, s)"
  obtains a' where "t' = t\<lparr>th_attempts := mput addr a' (th_attempts t)\<rparr>" "la_last a' = now" "la_first a' = la_first a"
    "la_failures a' = (if provesAddress reason then la_failures a + 1 else la_failures a)"
    "la_until a' = (if provesAddress reason \<and> th_max t \<le> la_failures a + 1 then now + th_lockout t else la_until a)"
    "l \<longleftrightarrow> provesAddress reason \<and> th_max t \<le> la_failures a + 1"
  using assms by (auto simp: record_failure_def Let_def split: if_splits)

lemma throttle_ok_record:
  assumes "record_failure t addr a reason now = (t', l, s)" "throttle_ok t" "0 \<le> la_failures a"
    "mget (th_attempts t) addr \<noteq> None \<or> length (th_attempts t) < maxTrackedSources"
  shows "throttle_ok t'"
proof (rule record_failure_fields [OF assms(1)])
  fix a'
  assume t': "t' = t\<lparr>th_attempts := mput addr a' (th_attempts t)\<rparr>"
    "la_failures a' = (if provesAddress reason then la_failures a + 1 else la_failures a)"
  have "0 \<le> la_failures a'" using t'(2) assms(3) by simp
  then have "list_all (\<lambda>kv. 0 \<le> la_failures (snd kv)) (mput addr a' (th_attempts t))"
    using assms(2) by (auto simp: throttle_ok_def list_all_iff dest!: mput_set_cases)
  then show ?thesis using t' assms(2,4) by (auto simp: throttle_ok_def length_mput)
qed

text \<open>\<open>fail\<close> in one piece: the entry it extends, if it records at all.\<close>

definition current_run :: "throttle \<Rightarrow> ip_addr \<Rightarrow> time \<Rightarrow> login_attempts" where
  "current_run t addr now = (case mget (th_attempts t) addr of None \<Rightarrow> new_attempts now
     | Some a \<Rightarrow> if Sub now (la_last a) > loginFailureWindow then new_attempts now else a)"

lemma current_run_nonneg: "throttle_ok t \<Longrightarrow> 0 \<le> la_failures (current_run t addr now)"
  by (auto simp: current_run_def new_attempts_def throttle_ok_def list_all_iff dest!: mget_SomeD split: option.splits)

lemma fail_cases:
  assumes "throttle_ok t"
  obtains (Ignored) "fail t from reason now = (t, False, None)" "\<not> provesAddress reason"
      "mget (th_attempts t) (ap_Addr from) = None"
  | (Recorded) t1 where "fail t from reason now = record_failure t1 (ap_Addr from) (current_run t (ap_Addr from) now) reason now"
      "throttle_ok t1" "th_max t1 = th_max t" "th_lockout t1 = th_lockout t"
      "mget (th_attempts t1) (ap_Addr from) \<noteq> None \<or> length (th_attempts t1) < maxTrackedSources"
      "\<not> provesAddress reason \<Longrightarrow> t1 = t"
proof (cases "mget (th_attempts t) (ap_Addr from)")
  case (Some a)
  then show ?thesis using assms
    by (intro Recorded [of t]) (auto simp: fail_def current_run_def Let_def)
next
  case None
  show ?thesis
  proof (cases "length (th_attempts t) \<ge> maxTrackedSources")
    case False
    then show ?thesis using None assms
      by (intro Recorded [of t]) (auto simp: fail_def current_run_def Let_def)
  next
    case full: True
    obtain t' ok where mr: "makeRoom t reason now = (t', ok)" by fastforce
    show ?thesis
    proof (cases "provesAddress reason")
      case True
      note room = makeRoom_room [OF assms True mr]
      show ?thesis using None full mr room assms True
        by (intro Recorded [of t']) (auto simp: fail_def current_run_def Let_def throttle_ok_def)
    next
      case False
      then show ?thesis using None full by (intro Ignored) (auto simp: fail_def makeRoom_def Let_def)
    qed
  qed
qed

lemma throttle_ok_fail:
  assumes "throttle_ok t"
  shows "throttle_ok (fst (fail t from reason now))"
proof (rule fail_cases [OF assms, of "from" reason now])
  fix t1
  assume f: "fail t from reason now = record_failure t1 (ap_Addr from) (current_run t (ap_Addr from) now) reason now"
    and t1: "throttle_ok t1" "mget (th_attempts t1) (ap_Addr from) \<noteq> None \<or> length (th_attempts t1) < maxTrackedSources"
  obtain t' l s where rf: "record_failure t1 (ap_Addr from) (current_run t (ap_Addr from) now) reason now = (t', l, s)"
    by (metis prod_cases3)
  show ?thesis
    using throttle_ok_record [OF rf t1(1) current_run_nonneg [OF assms] t1(2)] f rf by simp
qed (use assms in simp)

inductive throttle_step :: "throttle \<Rightarrow> throttle \<Rightarrow> bool" where
  "throttle_step t (fst (fail t from reason now))"
| "throttle_step t (succeed t from)"
| "throttle_step t (expire t now)"

interpretation throttle_system: safe_system "\<lambda>t. \<exists>mx lockout. t = newThrottle mx lockout" throttle_step throttle_ok
proof
  fix s t assume ok: "throttle_ok s" and "throttle_step s t"
  from this(2) show "throttle_ok t"
    by cases (use ok throttle_ok_fail throttle_ok_succeed throttle_ok_expire in auto)
qed (auto simp: throttle_ok_new)

interpretation failed_logins: expiring_table
  "\<lambda>t. mget (th_attempts t)" "\<lambda>now t. expire t now" "\<lambda>t now addr a. lapsed_attempts now a" throttle_ok
proof
  fix t :: throttle and now k
  assume "throttle_ok t"
  then show "mget (th_attempts (expire t now)) k =
      (case mget (th_attempts t) k of None \<Rightarrow> None | Some v \<Rightarrow> if lapsed_attempts now v then None else Some v)"
    by (simp add: expire_def mget_msweep throttle_ok_def)
next
  fix t :: throttle and now now' :: time and k :: ip_addr and v :: login_attempts
  assume "lapsed_attempts now v" "now \<le> now'"
  then show "lapsed_attempts now' v"
    using Sub_mono [of now now' "la_last v"] by (auto simp: lapsed_attempts_def lock_running_def)
qed (use throttle_ok_expire in simp_all)

section \<open>Properties\<close>

text \<open>
  the table of failing addresses is bounded.  In every reachable state of the throttle it tracks at
  most 4096 addresses, each once, however many datagrams from however many addresses came in.
\<close>

lemma throttle_bounded:
  assumes "reachable (\<lambda>t. \<exists>mx lockout. t = newThrottle mx lockout) throttle_step t"
  shows "length (th_attempts t) \<le> maxTrackedSources \<and> distinct (map fst (th_attempts t))"
  using throttle_system.reachable_inv [OF assms] by (simp add: throttle_ok_def mwf_def)

definition failures_of :: "throttle \<Rightarrow> ip_addr \<Rightarrow> int" where
  "failures_of t addr = (case mget (th_attempts t) addr of None \<Rightarrow> 0 | Some a \<Rightarrow> la_failures a)"

text \<open>
  a forged failure locks nobody.  A failure that does not prove its address (a digest nobody asked
  for, or one from another address than the challenge went to) never locks the address it claims
  or any other, at any later time, and adds to nobody's count.
\<close>

lemma forged_failure_locks_nobody:
  assumes "throttle_ok t" "\<not> provesAddress reason"
  shows "(locked (fst (fail t from reason now)) who later \<longrightarrow> locked t who later) \<and>
    failures_of (fst (fail t from reason now)) addr \<le> failures_of t addr"
proof (rule fail_cases [OF assms(1), of "from" reason now])
  fix t1
  assume f: "fail t from reason now = record_failure t1 (ap_Addr from) (current_run t (ap_Addr from) now) reason now"
    and t1: "\<not> provesAddress reason \<Longrightarrow> t1 = t"
  obtain t' l s where rf: "record_failure t (ap_Addr from) (current_run t (ap_Addr from) now) reason now = (t', l, s)"
    by (metis prod_cases3)
  have old: "mget (th_attempts t) (ap_Addr from) = Some a \<Longrightarrow> 0 \<le> la_failures a" for a
    using assms(1) by (auto simp: throttle_ok_def list_all_iff dest!: mget_SomeD)
  show ?thesis
  proof (rule record_failure_fields [OF rf])
    fix a'
    assume "t' = t\<lparr>th_attempts := mput (ap_Addr from) a' (th_attempts t)\<rparr>"
      "la_failures a' = (if provesAddress reason then la_failures (current_run t (ap_Addr from) now) + 1
         else la_failures (current_run t (ap_Addr from) now))"
      "la_until a' = (if provesAddress reason \<and> th_max t \<le> la_failures (current_run t (ap_Addr from) now) + 1
         then now + th_lockout t else la_until (current_run t (ap_Addr from) now))"
    then show ?thesis
      using f t1 rf assms(2) old
      by (auto simp: locked_def failures_of_def lock_running_def current_run_def new_attempts_def IsZero_def
          split: if_splits option.splits)
  qed
qed (use assms in simp)

definition demo_source :: addr_port where
  "demo_source = \<lparr>ap_Addr = IPv4 0x0A000001, ap_Port = 62031\<rparr>"

lemma forged_failure_locks_nobody_witness:
  "throttle_ok (newThrottle 1 0) \<and>
   \<not> locked (fst (fail (newThrottle 1 0) demo_source ReasonUnsolicited second)) demo_source (2 * second)"
proof -
  have "\<not> locked (newThrottle 1 0) demo_source (2 * second)" by (simp add: locked_def newThrottle_def)
  moreover have "\<not> provesAddress ReasonUnsolicited" by (simp add: provesAddress_def)
  ultimately show ?thesis using forged_failure_locks_nobody [OF throttle_ok_new] throttle_ok_new by blast
qed

datatype throttle_event = Fails addr_port failure_reason time | Succeeds addr_port | Sweeps time

fun throttle_happens :: "throttle_event \<Rightarrow> throttle \<Rightarrow> throttle" where
  "throttle_happens (Fails who r now) t = fst (fail t who r now)"
| "throttle_happens (Succeeds who) t = succeed t who"
| "throttle_happens (Sweeps now) t = expire t now"

fun fail_all :: "throttle \<Rightarrow> addr_port \<Rightarrow> (failure_reason \<times> time) list \<Rightarrow> throttle" where
  "fail_all t from [] = t"
| "fail_all t from ((r, now) # es) = fail_all (fst (fail t from r now)) from es"

text \<open>
  An address that goes on guessing: each of its failures proves it and follows the one before within the failure window.
  Meanwhile other addresses fail and succeed and the table is swept within the window, and no address that is new to the table finds it full.
\<close>

fun goes_on :: "ip_addr \<Rightarrow> time \<Rightarrow> throttle_event list \<Rightarrow> throttle \<Rightarrow> bool" where
  "goes_on addr prev [] t \<longleftrightarrow> True"
| "goes_on addr prev (Fails who r now # evs) t \<longleftrightarrow>
     (if ap_Addr who = addr then provesAddress r \<and> prev \<le> now \<and> Sub now prev \<le> loginFailureWindow
      else mget (th_attempts t) (ap_Addr who) \<noteq> None \<or> length (th_attempts t) < maxTrackedSources) \<and>
     goes_on addr (if ap_Addr who = addr then now else prev) evs (throttle_happens (Fails who r now) t)"
| "goes_on addr prev (Succeeds who # evs) t \<longleftrightarrow> ap_Addr who \<noteq> addr \<and> goes_on addr prev evs (succeed t who)"
| "goes_on addr prev (Sweeps now # evs) t \<longleftrightarrow> Sub now prev \<le> loginFailureWindow \<and> goes_on addr prev evs (expire t now)"

fun own_times :: "ip_addr \<Rightarrow> throttle_event list \<Rightarrow> time list" where
  "own_times addr [] = []"
| "own_times addr (Fails who r now # evs) = (if ap_Addr who = addr then now # own_times addr evs else own_times addr evs)"
| "own_times addr (_ # evs) = own_times addr evs"

definition run_state :: "throttle \<Rightarrow> addr_port \<Rightarrow> int \<Rightarrow> time \<Rightarrow> bool" where
  "run_state t from n prev \<longleftrightarrow> (\<exists>a. mget (th_attempts t) (ap_Addr from) = Some a \<and> la_last a = prev \<and>
     n \<le> la_failures a \<and> (th_max t \<le> la_failures a \<longrightarrow> la_until a = prev + th_lockout t))"

lemma fail_proven:
  assumes "throttle_ok t" "provesAddress r"
  shows "th_max (fst (fail t from r now)) = th_max t \<and> th_lockout (fst (fail t from r now)) = th_lockout t \<and>
    run_state (fst (fail t from r now)) from (la_failures (current_run t (ap_Addr from) now) + 1) now"
proof (rule fail_cases [OF assms(1), of "from" r now])
  fix t1
  assume f: "fail t from r now = record_failure t1 (ap_Addr from) (current_run t (ap_Addr from) now) r now"
    and t1: "th_max t1 = th_max t" "th_lockout t1 = th_lockout t"
  obtain t' l s where rf: "record_failure t1 (ap_Addr from) (current_run t (ap_Addr from) now) r now = (t', l, s)"
    by (metis prod_cases3)
  show ?thesis
    by (rule record_failure_fields [OF rf]) (use f t1 rf assms(2) in \<open>auto simp: run_state_def\<close>)
qed (use assms in simp)

lemma run_state_addr: "ap_Addr who = ap_Addr from \<Longrightarrow> run_state t who n prev = run_state t from n prev"
  by (simp add: run_state_def)

lemma fail_other:
  assumes "ap_Addr who \<noteq> addr" "mget (th_attempts t) (ap_Addr who) \<noteq> None \<or> length (th_attempts t) < maxTrackedSources"
  shows "mget (th_attempts (fst (fail t who r now))) addr = mget (th_attempts t) addr \<and>
    th_max (fst (fail t who r now)) = th_max t \<and> th_lockout (fst (fail t who r now)) = th_lockout t"
proof -
  have "mget (th_attempts (fst (record_failure t (ap_Addr who) a r now))) addr = mget (th_attempts t) addr \<and>
      th_max (fst (record_failure t (ap_Addr who) a r now)) = th_max t \<and>
      th_lockout (fst (record_failure t (ap_Addr who) a r now)) = th_lockout t" for a
    using assms(1) by (auto simp: record_failure_def Let_def)
  then show ?thesis using assms(2) by (auto simp: fail_def Let_def split: option.splits)
qed

lemma goes_on_run:
  assumes "throttle_ok t" "run_state t from n prev" "goes_on (ap_Addr from) prev evs t"
  defines "own \<equiv> own_times (ap_Addr from) evs"
  shows "th_max (fold throttle_happens evs t) = th_max t \<and> th_lockout (fold throttle_happens evs t) = th_lockout t \<and>
    run_state (fold throttle_happens evs t) from (n + int (length own)) (last (prev # own))"
  using assms(1-3) unfolding own_def
proof (induction evs arbitrary: t n prev)
  case (Cons ev evs)
  obtain a where a: "mget (th_attempts t) (ap_Addr from) = Some a" "la_last a = prev" "n \<le> la_failures a"
    using Cons.prems(2) by (auto simp: run_state_def)
  show ?case
  proof (cases ev)
    case (Fails who r now)
    let ?t = "fst (fail t who r now)"
    have ok: "throttle_ok ?t" by (rule throttle_ok_fail [OF Cons.prems(1)])
    show ?thesis
    proof (cases "ap_Addr who = ap_Addr from")
      case True
      have p: "provesAddress r" "Sub now prev \<le> loginFailureWindow" "goes_on (ap_Addr from) now evs ?t"
        using Cons.prems(3) by (simp_all add: Fails True)
      have "n \<le> la_failures (current_run t (ap_Addr who) now)" using a p(2) by (simp add: current_run_def True)
      then have r: "th_max ?t = th_max t" "th_lockout ?t = th_lockout t" "run_state ?t from (n + 1) now"
        using fail_proven [OF Cons.prems(1) p(1), of who now] run_state_addr [OF True] by (auto simp: run_state_def)
      show ?thesis using Cons.IH [OF ok r(3) p(3)] r(1,2) by (simp add: Fails True add.assoc)
    next
      case False
      then have o: "mget (th_attempts ?t) (ap_Addr from) = mget (th_attempts t) (ap_Addr from)" "th_max ?t = th_max t" "th_lockout ?t = th_lockout t"
        using fail_other [OF False, of t r now] Cons.prems(3) by (simp_all add: Fails)
      then have "run_state ?t from n prev" using Cons.prems(2) by (simp add: run_state_def)
      then show ?thesis using Cons.IH [OF ok] Cons.prems(3) o False by (simp add: Fails)
    qed
  next
    case (Succeeds who)
    have "run_state (succeed t who) from n prev" using Cons.prems(2,3) by (auto simp: Succeeds run_state_def succeed_def)
    then show ?thesis using Cons.IH [OF throttle_ok_succeed [OF Cons.prems(1)]] Cons.prems(3) by (simp add: Succeeds succeed_def)
  next
    case (Sweeps now)
    have "mget (th_attempts (expire t now)) (ap_Addr from) = Some a"
      using failed_logins.look_sweep [OF Cons.prems(1), of now "ap_Addr from"] a Cons.prems(3) by (simp add: Sweeps lapsed_attempts_def)
    then have "run_state (expire t now) from n prev" using Cons.prems(2) a by (auto simp: run_state_def expire_def)
    then show ?thesis using Cons.IH [OF throttle_ok_expire [OF Cons.prems(1)]] Cons.prems(3) by (simp add: Sweeps expire_def)
  qed
qed simp

lemma goes_on_later: "goes_on addr prev evs t \<Longrightarrow> prev \<le> last (prev # own_times addr evs)"
proof (induction addr prev evs t rule: goes_on.induct)
  case (2 addr prev who r now evs t)
  then show ?case by (cases "ap_Addr who = addr") auto
qed auto

text \<open>
  C34: guessing stops at the limit.  However full the table is and whatever it holds when it begins, once an address has
  sent as many failures that prove it as the limit allows, each within the failure window of the one before, it is locked for the whole
  lockout after the last of them, whatever failures and successes of other addresses and sweeps come between, as long as no
  address new to the table finds it full meanwhile.
\<close>

theorem guessing_is_locked_out:
  assumes "throttle_ok t" "provesAddress r" "0 < t0" "goes_on (ap_Addr from) t0 evs (fst (fail t from r t0))"
    and "own = t0 # own_times (ap_Addr from) evs" "th_max t \<le> int (length own)" "now < last own + th_lockout t"
  shows "locked (fold throttle_happens evs (fst (fail t from r t0))) from now"
proof -
  let ?t = "fst (fail t from r t0)"
  note fp = fail_proven [OF assms(1,2), of "from" t0]
  have "run_state ?t from 1 t0"
    using fp current_run_nonneg [OF assms(1), of "ap_Addr from" t0] by (auto simp: run_state_def)
  from goes_on_run [OF throttle_ok_fail [OF assms(1)] this assms(4)]
  have run: "run_state (fold throttle_happens evs ?t) from (int (length own)) (last own)"
    and mx: "th_max (fold throttle_happens evs ?t) = th_max t" "th_lockout (fold throttle_happens evs ?t) = th_lockout t"
    using fp by (simp_all add: assms(5))
  have "0 < last own" using goes_on_later [OF assms(4)] assms(3) unfolding assms(5) by linarith
  then show ?thesis
    using run mx assms(1,6,7) by (auto simp: locked_def run_state_def lock_running_def IsZero_def throttle_ok_def)
qed

definition other_source :: addr_port where
  "other_source = \<lparr>ap_Addr = IPv4 0x0A000002, ap_Port = 62031\<rparr>"

theorem guessing_is_locked_out_witness:
  "locked (fold throttle_happens [Fails demo_source ReasonUnknownID minute, Fails other_source ReasonWrongPassword minute, Sweeps (2 * minute),
      Fails demo_source ReasonWrongPassword (2 * minute)] (fst (fail (newThrottle 3 0) demo_source ReasonWrongPassword second))) demo_source (6 * minute)"
proof -
  let ?evs = "[Fails demo_source ReasonUnknownID minute, Fails other_source ReasonWrongPassword minute, Sweeps (2 * minute),
      Fails demo_source ReasonWrongPassword (2 * minute)]"
  have g: "goes_on (ap_Addr demo_source) second ?evs (fst (fail (newThrottle 3 0) demo_source ReasonWrongPassword second))"
    by code_simp
  have o: "own_times (ap_Addr demo_source) ?evs = [minute, 2 * minute]" by (simp add: demo_source_def other_source_def)
  show ?thesis
    by (rule guessing_is_locked_out [OF throttle_ok_new _ _ g refl])
      (simp_all add: o provesAddress_def newThrottle_def DefaultLoginLockout_def)
qed

lemma throttle_bounded_witness:
  "reachable (\<lambda>t. \<exists>mx lockout. t = newThrottle mx lockout) throttle_step (fst (fail (newThrottle 6 0) demo_source ReasonUnsolicited second)) \<and>
   length (th_attempts (fst (fail (newThrottle 6 0) demo_source ReasonUnsolicited second))) \<le> maxTrackedSources"
proof -
  have "reachable (\<lambda>t. \<exists>mx lockout. t = newThrottle mx lockout) throttle_step (newThrottle 6 0)"
    by (rule reachable.start) blast
  then have "reachable (\<lambda>t. \<exists>mx lockout. t = newThrottle mx lockout) throttle_step
      (fst (fail (newThrottle 6 0) demo_source ReasonUnsolicited second))"
    using throttle_step.intros(1) by (rule reachable.step)
  with throttle_bounded show ?thesis by blast
qed

text \<open>
  how long a failure counts.  A failure is documented to count for the failure window; but a failure
  that proves nothing, though not counted itself, keeps the run alive.  Here one wrong password
  from an honest address is still counted twenty-eight minutes later because somebody sent a
  digest nobody asked for in its name in between, and the second one locks it.
\<close>

lemma forged_failure_keeps_run_alive:
  "locked (fail_all (newThrottle 2 0) demo_source [(ReasonWrongPassword, minute), (ReasonWrongPassword, 29 * minute)])
     demo_source (30 * minute) = False \<and>
   locked (fail_all (newThrottle 2 0) demo_source
     [(ReasonWrongPassword, minute), (ReasonUnsolicited, 15 * minute), (ReasonWrongPassword, 29 * minute)])
     demo_source (30 * minute) = True"
  by (simp add: newThrottle_def DefaultLoginLockout_def loginFailureWindow_def Sub_def minDuration_def maxDuration_def
      fail_def record_failure_def new_attempts_def provesAddress_def count_reason_def mget_Cons locked_def lock_running_def
      IsZero_def maxTrackedSources_def demo_source_def Let_def mput_def)

end
