(* ===== verification/Peers.thy ===== *)
theory Peers
  imports Hbp Access Routing_Core Peer_Throttle "HOL-Library.Sublist"
begin

text \<open>
  \<^verbatim>\<open>internal/peers/peer.go\<close> and \<^verbatim>\<open>continuation.go\<close>: one connected station.  Its login state, the
  challenges issued beside a working registration (\<open>relogins\<close>), and the calls in progress on each of
  its two timeslots, into which \<open>continuing\<close> puts a transmission that restarted without a header.
  An operation on \<open>*Peer\<close> is a function from the old record to the new one.
\<close>

section \<open>Data\<close>

datatype peer_state = StateChallenged | StateAuthenticated | StateConfigured

definition CanPassTraffic :: "peer_state \<Rightarrow> bool" where
  "CanPassTraffic s \<longleftrightarrow> s = StateConfigured"

record openCall =
  oc_stream :: StreamID
  oc_source :: u32
  oc_target :: u32
  oc_callType :: CallType
  oc_lastSeen :: time
  oc_open :: bool
  oc_adopted :: StreamID
  oc_adopting :: bool

record relogin =
  rl_addr :: addr_port
  rl_salt :: "byte list"
  rl_at :: time

record refusedStreamID =
  rf_source :: u32
  rf_stream :: StreamID
  rf_slot :: Timeslot

record refusedStream =
  rf_id :: refusedStreamID
  rf_frames :: int

record peer =
  pe_ID :: RepeaterID
  pe_Addr :: addr_port
  pe_State :: peer_state
  pe_Config :: "hbp_config option"
  pe_Salt :: "byte list"
  pe_FirstSeen :: time
  pe_LastHeard :: time
  pe_ConfiguredAt :: time
  pe_calls1 :: "openCall list"
  pe_calls2 :: "openCall list"
  pe_relogins :: "relogin list"
  pe_Received :: u64
  pe_Sent :: u64
  pe_Refused :: u64
  pe_LastTraffic :: time
  pe_refused :: refusedStream

definition zero_refused :: refusedStream where
  "zero_refused = \<lparr>rf_id = \<lparr>rf_source = 0, rf_stream = 0, rf_slot = 0\<rparr>, rf_frames = 0\<rparr>"

section \<open>peer.go\<close>

definition Callsign :: "peer \<Rightarrow> string" where
  "Callsign p = (case pe_Config p of None \<Rightarrow> [] | Some c \<Rightarrow> c_Callsign c)"

definition Idle :: "peer \<Rightarrow> time \<Rightarrow> duration" where
  "Idle p now = Sub now (pe_LastHeard p)"

definition clone :: "peer \<Rightarrow> peer" where
  "clone p = p\<lparr>pe_relogins := [], pe_calls1 := [], pe_calls2 := []\<rparr>"

definition maxRelogins :: nat where
  "maxRelogins = 4"

definition offerRelogin :: "peer \<Rightarrow> addr_port \<Rightarrow> byte list \<Rightarrow> time \<Rightarrow> duration \<Rightarrow> peer" where
  "offerRelogin p from salt now timeout =
     (let kept = filter (\<lambda>r. rl_addr r \<noteq> from \<and> Sub now (rl_at r) \<le> timeout) (pe_relogins p);
          kept = (if length kept \<ge> maxRelogins then tl kept else kept)
      in p\<lparr>pe_relogins := kept @ [\<lparr>rl_addr = from, rl_salt = salt, rl_at = now\<rparr>]\<rparr>)"

definition hasRelogin :: "peer \<Rightarrow> addr_port \<Rightarrow> bool" where
  "hasRelogin p from = list_ex (\<lambda>r. rl_addr r = from) (pe_relogins p)"

fun take_relogin :: "relogin list \<Rightarrow> addr_port \<Rightarrow> (relogin \<times> relogin list) option" where
  "take_relogin [] from = None"
| "take_relogin (r # rs) from =
     (if rl_addr r \<noteq> from then map_option (\<lambda>(x, rest). (x, r # rest)) (take_relogin rs from)
      else Some (r, rs))"

definition takeRelogin :: "peer \<Rightarrow> addr_port \<Rightarrow> time \<Rightarrow> duration \<Rightarrow> peer \<times> relogin option" where
  "takeRelogin p from now timeout =
     (case take_relogin (pe_relogins p) from of
        None \<Rightarrow> (p, None)
      | Some (r, rest) \<Rightarrow> (p\<lparr>pe_relogins := rest\<rparr>, if Sub now (rl_at r) \<le> timeout then Some r else None))"

section \<open>continuation.go\<close>

definition maxOpenCalls :: nat where
  "maxOpenCalls = 16"

definition relabel :: "openCall \<Rightarrow> hbp_data \<Rightarrow> hbp_data" where
  "relabel c f = f\<lparr>d_StreamID := oc_stream c, d_SourceID := oc_source c, d_TargetID := oc_target c,
     d_CallType := oc_callType c\<rparr>"

text \<open>The search for the call a stream belongs to: its index, and whether the stream was adopted.\<close>

fun find_call :: "StreamID \<Rightarrow> nat \<Rightarrow> openCall list \<Rightarrow> (nat \<times> bool) option" where
  "find_call s i [] = None"
| "find_call s i (c # cs) =
     (if oc_stream c = s then Some (i, False)
      else if oc_adopting c \<and> oc_adopted c = s then Some (i, True)
      else find_call s (i + 1) cs)"

definition calls_of :: "peer \<Rightarrow> Timeslot \<Rightarrow> openCall list" where
  "calls_of p slot = (if slot = Timeslot1 then pe_calls1 p else pe_calls2 p)"

definition set_calls :: "peer \<Rightarrow> Timeslot \<Rightarrow> openCall list \<Rightarrow> peer" where
  "set_calls p slot cs = (if slot = Timeslot1 then p\<lparr>pe_calls1 := cs\<rparr> else p\<lparr>pe_calls2 := cs\<rparr>)"

definition is_header :: "hbp_data \<Rightarrow> bool" where
  "is_header f \<longleftrightarrow> d_FrameType f = FrameTypeSync \<and> d_DataType f = DataTypeVoiceLCHeader"

text \<open>The end of \<open>continuing\<close>: the call at index \<open>i\<close> was heard now, and a terminator ends it.\<close>

definition heard_call :: "openCall list \<Rightarrow> nat \<Rightarrow> hbp_data \<Rightarrow> time \<Rightarrow> openCall list" where
  "heard_call cs i f now =
     cs[i := (cs ! i)\<lparr>oc_lastSeen := now, oc_open := (if IsTerminator f then False else oc_open (cs ! i))\<rparr>]"

definition continuing :: "peer \<Rightarrow> hbp_data \<Rightarrow> time \<Rightarrow> bool \<Rightarrow> peer \<times> hbp_data \<times> bool" where
  "continuing p f now join =
     (if IsUserData f \<or> (d_Timeslot f \<noteq> Timeslot1 \<and> d_Timeslot f \<noteq> Timeslot2) then (p, f, False)
      else let slot = d_Timeslot f;
               open_calls = filter (\<lambda>c. oc_open c \<and> Sub now (oc_lastSeen c) \<le> StreamTimeout) (calls_of p slot);
               put = set_calls p slot in
        case find_call (d_StreamID f) 0 open_calls of
          Some (i, adopted) \<Rightarrow>
            let f' = (if adopted then relabel (open_calls ! i) f else f)
            in (put (heard_call open_calls i f' now), f', False)
        | None \<Rightarrow>
            if join \<and> \<not> is_header f \<and> length open_calls = 1 then
              let c = (open_calls ! 0)\<lparr>oc_adopted := d_StreamID f, oc_adopting := True\<rparr>; f' = relabel c f
              in (put (heard_call [c] 0 f' now), f', True)
            else if length open_calls \<ge> maxOpenCalls then (put open_calls, f, False)
            else let cs = open_calls @ [\<lparr>oc_stream = d_StreamID f, oc_source = d_SourceID f,
                   oc_target = d_TargetID f, oc_callType = d_CallType f, oc_lastSeen = 0, oc_open = True,
                   oc_adopted = 0, oc_adopting = False\<rparr>]
                 in (put (heard_call cs (length open_calls) f now), f, False))"

section \<open>Relogins\<close>

lemma offerRelogin_fields [simp]:
  "pe_ID (offerRelogin p from salt now tmo) = pe_ID p" "pe_Addr (offerRelogin p from salt now tmo) = pe_Addr p"
  "pe_State (offerRelogin p from salt now tmo) = pe_State p"
  "pe_Config (offerRelogin p from salt now tmo) = pe_Config p"
  "pe_Salt (offerRelogin p from salt now tmo) = pe_Salt p"
  "pe_LastHeard (offerRelogin p from salt now tmo) = pe_LastHeard p"
  "pe_FirstSeen (offerRelogin p from salt now tmo) = pe_FirstSeen p"
  "pe_calls1 (offerRelogin p from salt now tmo) = pe_calls1 p" "pe_calls2 (offerRelogin p from salt now tmo) = pe_calls2 p"
  by (simp_all add: offerRelogin_def Let_def)

lemma takeRelogin_fields [simp]:
  "pe_ID (fst (takeRelogin p from now tmo)) = pe_ID p" "pe_Addr (fst (takeRelogin p from now tmo)) = pe_Addr p"
  "pe_State (fst (takeRelogin p from now tmo)) = pe_State p"
  "pe_Config (fst (takeRelogin p from now tmo)) = pe_Config p"
  "pe_FirstSeen (fst (takeRelogin p from now tmo)) = pe_FirstSeen p"
  "pe_LastHeard (fst (takeRelogin p from now tmo)) = pe_LastHeard p"
  by (auto simp: takeRelogin_def split: option.splits prod.splits)

lemma take_relogin_mem: "take_relogin rs from = Some (r, rest) \<Longrightarrow>
    r \<in> set rs \<and> rl_addr r = from \<and> set rest \<subseteq> set rs \<and> length rs = Suc (length rest)"
proof (induction rs arbitrary: r rest)
  case (Cons x xs)
  show ?case
  proof (cases "rl_addr x = from")
    case True
    then show ?thesis using Cons.prems by auto
  next
    case False
    then obtain rest' where "take_relogin xs from = Some (r, rest')" "rest = x # rest'"
      using Cons.prems by auto
    then show ?thesis using Cons.IH [of r rest'] by auto
  qed
qed simp

lemma take_relogin_None: "take_relogin rs from = None \<longleftrightarrow> (\<forall>r \<in> set rs. rl_addr r \<noteq> from)"
  by (induction rs) auto

lemma takeRelogin_Some: "takeRelogin p from now tmo = (p', Some r) \<Longrightarrow>
    r \<in> set (pe_relogins p) \<and> rl_addr r = from \<and> Sub now (rl_at r) \<le> tmo"
  by (auto simp: takeRelogin_def split: option.splits if_splits dest!: take_relogin_mem)

lemma offerRelogin_bounded: "length (pe_relogins p) \<le> maxRelogins \<Longrightarrow>
    length (pe_relogins (offerRelogin p from salt now tmo)) \<le> maxRelogins"
proof -
  assume "length (pe_relogins p) \<le> maxRelogins"
  then have "length (filter (\<lambda>r. rl_addr r \<noteq> from \<and> Sub now (rl_at r) \<le> tmo) (pe_relogins p)) \<le> maxRelogins"
    using length_filter_le [of "\<lambda>r. rl_addr r \<noteq> from \<and> Sub now (rl_at r) \<le> tmo" "pe_relogins p"] by linarith
  then show ?thesis by (simp add: offerRelogin_def Let_def maxRelogins_def)
qed

text \<open>A challenge just offered is there to be answered, once.\<close>

lemma takeRelogin_offer:
  assumes "Sub later now \<le> tmo"
  shows "\<exists>p'. takeRelogin (offerRelogin p from salt now tmo) from later tmo =
      (p', Some \<lparr>rl_addr = from, rl_salt = salt, rl_at = now\<rparr>) \<and> \<not> hasRelogin p' from"
proof -
  have app: "\<forall>r \<in> set rs. rl_addr r \<noteq> from \<Longrightarrow> take_relogin (rs @ [x]) from = Some (x, rs)"
    if "rl_addr x = from" for rs x
    using that by (induction rs) auto
  let ?x = "\<lparr>rl_addr = from, rl_salt = salt, rl_at = now\<rparr>"
  let ?kept = "filter (\<lambda>r. rl_addr r \<noteq> from \<and> Sub now (rl_at r) \<le> tmo) (pe_relogins p)"
  obtain ks where ks: "ks = (if length ?kept \<ge> maxRelogins then tl ?kept else ?kept)" by blast
  then have far: "\<forall>r \<in> set ks. rl_addr r \<noteq> from"
    using set_mono_suffix [OF suffix_tl [of ?kept]] by (auto split: if_splits)
  have off: "offerRelogin p from salt now tmo = p\<lparr>pe_relogins := ks @ [?x]\<rparr>"
    unfolding offerRelogin_def Let_def ks ..
  have "take_relogin (ks @ [?x]) from = Some (?x, ks)" by (rule app [OF _ far]) simp
  then show ?thesis
    using assms far by (simp add: off takeRelogin_def hasRelogin_def list_ex_iff)
qed

section \<open>Continuation\<close>

abbreviation live_calls :: "openCall list \<Rightarrow> time \<Rightarrow> openCall list" where
  "live_calls cs now \<equiv> filter (\<lambda>c. oc_open c \<and> Sub now (oc_lastSeen c) \<le> StreamTimeout) cs"

lemma length_heard_call [simp]: "length (heard_call cs i f now) = length cs"
  by (simp add: heard_call_def)

lemma calls_set_calls [simp]: "calls_of (set_calls p slot cs) slot = cs"
  by (simp add: calls_of_def set_calls_def)

text \<open>The four things \<open>continuing\<close> can do with a voice frame.\<close>

lemma continuing_cases:
  obtains (Data) "continuing p f now join = (p, f, False)"
      "IsUserData f \<or> (d_Timeslot f \<noteq> Timeslot1 \<and> d_Timeslot f \<noteq> Timeslot2)"
  | (Known) i adopted where "find_call (d_StreamID f) 0 (live_calls (calls_of p (d_Timeslot f)) now) = Some (i, adopted)"
      "continuing p f now join = (let f' = (if adopted then relabel (live_calls (calls_of p (d_Timeslot f)) now ! i) f else f)
        in (set_calls p (d_Timeslot f) (heard_call (live_calls (calls_of p (d_Timeslot f)) now) i f' now), f', False))"
  | (Joined) c where "join" "\<not> is_header f" "live_calls (calls_of p (d_Timeslot f)) now = [c]"
      "find_call (d_StreamID f) 0 (live_calls (calls_of p (d_Timeslot f)) now) = None"
      "continuing p f now join = (set_calls p (d_Timeslot f)
        (heard_call [c\<lparr>oc_adopted := d_StreamID f, oc_adopting := True\<rparr>] 0 (relabel c f) now), relabel c f, True)"
  | (Full) "length (live_calls (calls_of p (d_Timeslot f)) now) \<ge> maxOpenCalls"
      "continuing p f now join = (set_calls p (d_Timeslot f) (live_calls (calls_of p (d_Timeslot f)) now), f, False)"
  | (New) c where "length (live_calls (calls_of p (d_Timeslot f)) now) < maxOpenCalls"
      "continuing p f now join = (set_calls p (d_Timeslot f)
        (heard_call (live_calls (calls_of p (d_Timeslot f)) now @ [c]) (length (live_calls (calls_of p (d_Timeslot f)) now)) f now),
        f, False)"
proof (cases "IsUserData f \<or> (d_Timeslot f \<noteq> Timeslot1 \<and> d_Timeslot f \<noteq> Timeslot2)")
  case True
  then show ?thesis by (intro Data) (auto simp: continuing_def)
next
  case voice: False
  let ?cs = "live_calls (calls_of p (d_Timeslot f)) now"
  show ?thesis
  proof (cases "find_call (d_StreamID f) 0 ?cs")
    case (Some x)
    then show ?thesis using voice
      by (cases x, intro Known [of "fst x" "snd x"]) (auto simp: continuing_def Let_def)
  next
    case None
    consider "join" "\<not> is_header f" "length ?cs = 1" | "\<not> (join \<and> \<not> is_header f \<and> length ?cs = 1)" "length ?cs \<ge> maxOpenCalls"
      | "\<not> (join \<and> \<not> is_header f \<and> length ?cs = 1)" "length ?cs < maxOpenCalls" by linarith
    then show ?thesis
    proof cases
      case 1
      then obtain c where c: "?cs = [c]" by (metis One_nat_def length_0_conv length_Suc_conv)
      then show ?thesis using 1 voice None
        by (intro Joined [of c]) (auto simp: continuing_def Let_def relabel_def)
    next
      case 2
      then show ?thesis using voice None by (intro Full) (auto simp: continuing_def Let_def)
    next
      case 3
      then show ?thesis using voice None
        by (intro New [of "\<lparr>oc_stream = d_StreamID f, oc_source = d_SourceID f, oc_target = d_TargetID f,
            oc_callType = d_CallType f, oc_lastSeen = 0, oc_open = True, oc_adopted = 0, oc_adopting = False\<rparr>"])
          (auto simp: continuing_def Let_def)
    qed
  qed
qed

lemma continuing_calls_bounded:
  assumes "length (calls_of p (d_Timeslot f)) \<le> maxOpenCalls"
  shows "length (calls_of (fst (continuing p f now join)) (d_Timeslot f)) \<le> maxOpenCalls"
proof -
  have "length (live_calls (calls_of p (d_Timeslot f)) now) \<le> maxOpenCalls"
    using assms length_filter_le le_trans by blast
  then show ?thesis
    using assms by (rule_tac continuing_cases [of p f now join]) (auto simp: Let_def maxOpenCalls_def)
qed

text \<open>\<open>continuing\<close> changes nothing of a peer but its open calls, and keeps those bounded on both slots.\<close>

lemma continuing_frame:
  assumes "continuing p f now join = (q, f', b)"
  shows "\<exists>c1 c2. q = p\<lparr>pe_calls1 := c1, pe_calls2 := c2\<rparr> \<and>
    (length (pe_calls1 p) \<le> maxOpenCalls \<longrightarrow> length c1 \<le> maxOpenCalls) \<and>
    (length (pe_calls2 p) \<le> maxOpenCalls \<longrightarrow> length c2 \<le> maxOpenCalls)"
proof -
  have "q = p \<or> (\<exists>cs. q = set_calls p (d_Timeslot f) cs)"
    using assms by (cases rule: continuing_cases [of p f now join]) (auto simp: Let_def)
  moreover have "length (calls_of p (d_Timeslot f)) \<le> maxOpenCalls \<longrightarrow> length (calls_of q (d_Timeslot f)) \<le> maxOpenCalls"
    using continuing_calls_bounded [of p f now join] assms by simp
  moreover have "p = p\<lparr>pe_calls1 := pe_calls1 p, pe_calls2 := pe_calls2 p\<rparr>" by simp
  ultimately show ?thesis
    by (cases p, cases "d_Timeslot f = Timeslot1") (auto simp: set_calls_def calls_of_def)
qed

lemma find_call_index: "find_call s k cs = Some (i, a) \<Longrightarrow>
    k \<le> i \<and> i - k < length cs \<and> (a \<longrightarrow> oc_adopting (cs ! (i - k)) \<and> oc_adopted (cs ! (i - k)) = s)"
proof (induction cs arbitrary: k)
  case (Cons c cs)
  show ?case
  proof (cases "oc_stream c = s \<or> oc_adopting c \<and> oc_adopted c = s")
    case True
    then show ?thesis using Cons.prems by (auto split: if_splits)
  next
    case False
    then have "find_call s (k + 1) cs = Some (i, a)" using Cons.prems by (auto split: if_splits)
    from Cons.IH [OF this] have ih: "k < i" "i - Suc k < length cs"
      "a \<longrightarrow> oc_adopting (cs ! (i - Suc k)) \<and> oc_adopted (cs ! (i - Suc k)) = s" by auto
    moreover from ih(1) have "i - k = Suc (i - Suc k)" by simp
    ultimately show ?thesis by simp
  qed
qed simp

text \<open>
  A frame leaves \<open>continuing\<close> as it came, unless it carries no user data and is put into a call
  that is open on its own timeslot of that peer and was heard within the stream timeout.  It joins a
  call for the first time only if joining is allowed, it is not a header, and that call is the only
  one live on the slot; after that only the stream that joined is carried into it.
\<close>

lemma restarted_frame_joins_its_call:
  assumes "continuing p d now join = (p', f, rejoined)"
  shows "(f = d \<and> \<not> rejoined) \<or>
    (\<not> IsUserData d \<and> (\<exists>c. c \<in> set (calls_of p (d_Timeslot d)) \<and> oc_open c \<and> Sub now (oc_lastSeen c) \<le> StreamTimeout \<and>
      f = relabel c d \<and>
      (if rejoined then join \<and> \<not> is_header d \<and>
         filter (\<lambda>c. oc_open c \<and> Sub now (oc_lastSeen c) \<le> StreamTimeout) (calls_of p (d_Timeslot d)) = [c]
       else oc_adopting c \<and> oc_adopted c = d_StreamID d)))"
proof (cases rule: continuing_cases [of p d now join])
  case (Known i a)
  let ?cs = "live_calls (calls_of p (d_Timeslot d)) now"
  have i: "i < length ?cs" "a \<longrightarrow> oc_adopting (?cs ! i) \<and> oc_adopted (?cs ! i) = d_StreamID d"
    using find_call_index [OF Known(1)] by auto
  obtain c where c: "c = ?cs ! i" "c \<in> set ?cs" using nth_mem [OF i(1)] by blast
  have "f = (if a then relabel c d else d) \<and> \<not> rejoined" using Known(2) assms c(1) by (auto simp: Let_def)
  moreover have "\<not> IsUserData d" if "f \<noteq> d" using assms that by (auto simp: continuing_def)
  ultimately show ?thesis using c(2) i(2) [folded c(1)] by (cases "f = d") auto
next
  case (Joined c)
  then have "c \<in> set (live_calls (calls_of p (d_Timeslot d)) now)" by simp
  then have "c \<in> set (calls_of p (d_Timeslot d))" "oc_open c" "Sub now (oc_lastSeen c) \<le> StreamTimeout"
    by (simp_all only: set_filter mem_Collect_eq)
  moreover have "\<not> IsUserData d" using assms Joined(5) by (auto simp: continuing_def)
  ultimately show ?thesis using assms Joined(1-3,5) by auto
qed (use assms in auto)

text \<open>A peer in the middle of one call on timeslot 2, for the witness.\<close>

definition demo_call :: openCall where
  "demo_call = \<lparr>oc_stream = 5, oc_source = 3120001, oc_target = 91, oc_callType = CallGroup, oc_lastSeen = second,
     oc_open = True, oc_adopted = 0, oc_adopting = False\<rparr>"

definition demo_caller :: peer where
  "demo_caller = \<lparr>pe_ID = 7, pe_Addr = \<lparr>ap_Addr = IPv4 1, ap_Port = 62030\<rparr>, pe_State = StateConfigured, pe_Config = None,
     pe_Salt = [0, 0, 0, 0], pe_FirstSeen = 0, pe_LastHeard = 0, pe_ConfiguredAt = 0, pe_calls1 = [],
     pe_calls2 = [demo_call], pe_relogins = [], pe_Received = 0, pe_Sent = 0, pe_Refused = 0, pe_LastTraffic = 0,
     pe_refused = zero_refused\<rparr>"

definition demo_restart :: hbp_data where
  "demo_restart = \<lparr>d_Sequence = 0, d_SourceID = 1, d_TargetID = 2, d_RepeaterID = 7, d_Timeslot = Timeslot2,
     d_CallType = CallPrivate, d_FrameType = FrameTypeVoice, d_DataType = 0, d_StreamID = 6,
     d_Payload = replicate 33 0, d_Trailing = []\<rparr>"

lemma restarted_frame_joins_its_call_witness:
  "d_TargetID (fst (snd (continuing demo_caller demo_restart (2 * second) True))) = 91 \<and>
   fst (snd (continuing demo_caller demo_restart (2 * second) True)) = relabel demo_call demo_restart"
proof -
  have c: "snd (snd (continuing demo_caller demo_restart (2 * second) True))"
    "calls_of demo_caller (d_Timeslot demo_restart) = [demo_call]" by code_simp+
  have "fst (snd (continuing demo_caller demo_restart (2 * second) True)) = relabel demo_call demo_restart"
    using restarted_frame_joins_its_call [of demo_caller demo_restart "2 * second" True
        "fst (continuing demo_caller demo_restart (2 * second) True)"
        "fst (snd (continuing demo_caller demo_restart (2 * second) True))"
        "snd (snd (continuing demo_caller demo_restart (2 * second) True))"] c by auto
  then show ?thesis by (simp add: relabel_def demo_call_def)
qed

end
