(* ===== verification/Master.thy ===== *)
theory Master
  imports Peers Hbp_Codec
begin

text \<open>
  \<^verbatim>\<open>internal/peers/master.go\<close>, \<^verbatim>\<open>subscribers.go\<close> and \<^verbatim>\<open>attachments.go\<close>: the Homebrew master.  \<open>Handle\<close>
  takes one datagram through the parser and the handler of its message; each handler is a function
  from the registry to the registry and an \<open>outcome\<close> (datagrams to send, events, an accepted frame,
  the reason a datagram was dropped).  The clock is the argument \<open>now\<close>, what \<open>cfg.Salt\<close> returns is the
  argument \<open>salt\<close> (\<open>None\<close> for its error), and SHA-256 and JSON are the arguments \<open>sha256\<close> and \<open>j\<close>.  The
  configured callbacks are functions of the instant they are called at, so they may change their
  answer.  The text of a reason is a constructor; log lines and the mutex are not modelled.  A loop
  over a Go map runs in the order of the association list.
\<close>

section \<open>Data\<close>

record location =
  lo_Subscriber :: u32
  lo_Peer :: RepeaterID
  lo_Timeslot :: Timeslot
  lo_FirstSeen :: time
  lo_LastHeard :: time

record attachment =
  at_Peer :: RepeaterID
  at_Talkgroup :: u32
  at_Timeslot :: Timeslot
  at_Static :: bool
  at_LastUsed :: time

record attachmentKey =
  ak_peer :: RepeaterID
  ak_talkgroup :: u32
  ak_slot :: Timeslot

record subscription_config =
  su_Enabled :: bool
  su_Timeout :: duration
  su_Static :: "attachment list"

record master_config =
  mc_Password :: "(time \<Rightarrow> RepeaterID \<Rightarrow> byte list option) option"
  mc_PeerTimeout :: duration
  mc_MaxLoginFailures :: int
  mc_LoginLockout :: duration
  mc_LoginTimeout :: duration
  mc_MaxPeers :: int
  mc_SubscriberTimeout :: duration
  mc_Subscription :: subscription_config
  mc_Access :: access_lists
  mc_Identity :: "(time \<Rightarrow> hbp_identity) option"
  mc_IsQSPLink :: "(hbp_config \<Rightarrow> bool) option"
  mc_OwnPassword :: "(time \<Rightarrow> RepeaterID \<Rightarrow> bool) option"

record response =
  re_To :: addr_port
  re_Payload :: "byte list"

datatype event_kind = EventConnected | EventDisconnected | EventRebound

datatype event_reason = NoEventReason | NoLongerPermitted | PeerClosed | NoTrafficFor duration
  | LoginNotCompleted duration

record peer_event =
  ev_Kind :: event_kind
  ev_Peer :: peer
  ev_Reason :: event_reason

datatype dropped_reason = Unparseable hbp_error | NotForMaster | TooManyFailures | IDZero | IDReserved
  | RegistrationRefused | NoPassword | PeerLimitReached int | NoChallenge | NotLoggedIn
  | ChallengeElsewhere addr_port | WrongPassword | NoLoginInProgress peer_state | NotRegistered
  | RegisteredElsewhere addr_port | NotAuthenticated peer_state | NotReady peer_state
  | SubscriberNotPermitted u32 int | ClosedEarly

record outcome =
  ou_Responses :: "response list"
  ou_Events :: "peer_event list"
  ou_Data :: "hbp_data option"
  ou_From :: RepeaterID
  ou_Dropped :: "dropped_reason option"

record halfOpenLogin =
  ho_id :: RepeaterID
  ho_began :: time

record master =
  ma_cfg :: master_config
  ma_peers :: "(RepeaterID, peer) gomap"
  ma_waiting :: int
  ma_halfOpen :: "halfOpenLogin list"
  ma_subscribers :: "(u32, location) gomap"
  ma_attachments :: "(attachmentKey, attachment) gomap"
  ma_logins :: throttle
  ma_claimedIDs :: "(ip_addr, RepeaterID) gomap"
  ma_evicted :: "peer_event list"
  ma_answeredUnregistered :: "(RepeaterID, time) gomap"

definition DefaultPeerTimeout :: duration where
  "DefaultPeerTimeout = 60 * second"

definition DefaultLoginTimeout :: duration where
  "DefaultLoginTimeout = 30 * second"

definition DefaultMaxPeers :: int where
  "DefaultMaxPeers = 200"

definition DefaultSubscriberTimeout :: duration where
  "DefaultSubscriberTimeout = 2 * hour"

definition DefaultAttachmentTimeout :: duration where
  "DefaultAttachmentTimeout = 15 * minute"

definition unregisteredFrameInterval :: duration where
  "unregisteredFrameInterval = 5 * second"

definition maxUnregisteredTracked :: nat where
  "maxUnregisteredTracked = 256"

definition maxHalfOpen :: nat where
  "maxHalfOpen = 4096"

text \<open>The zero \<open>Outcome\<close>, and the ones the handlers build.\<close>

definition zero_outcome :: outcome where
  "zero_outcome = \<lparr>ou_Responses = [], ou_Events = [], ou_Data = None, ou_From = 0, ou_Dropped = None\<rparr>"

definition dropped :: "dropped_reason \<Rightarrow> outcome" where
  "dropped r = zero_outcome\<lparr>ou_Dropped := Some r\<rparr>"

definition answer :: "addr_port \<Rightarrow> byte list \<Rightarrow> outcome" where
  "answer from b = zero_outcome\<lparr>ou_Responses := [\<lparr>re_To = from, re_Payload = b\<rparr>]\<rparr>"

definition reject :: "RepeaterID \<Rightarrow> addr_port \<Rightarrow> dropped_reason \<Rightarrow> outcome" where
  "reject rid from r = zero_outcome\<lparr>ou_Responses := [\<lparr>re_To = from, re_Payload = Nak_AppendTo rid\<rparr>],
     ou_Dropped := Some r\<rparr>"

definition putRepeaterID :: "RepeaterID \<Rightarrow> byte list" where
  "putRepeaterID rid = [ucast (drop_bit 24 rid), ucast (drop_bit 16 rid), ucast (drop_bit 8 rid), ucast rid]"

text \<open>\<open>cfg.Password\<close>, which \<open>NewMaster\<close> requires; \<open>put_peer\<close> is an assignment through \<open>*Peer\<close>.\<close>

definition password_of :: "master_config \<Rightarrow> time \<Rightarrow> RepeaterID \<Rightarrow> byte list option" where
  "password_of cfg now rid = (case mc_Password cfg of None \<Rightarrow> None | Some f \<Rightarrow> f now rid)"

definition put_peer :: "peer \<Rightarrow> master \<Rightarrow> master" where
  "put_peer p m = m\<lparr>ma_peers := mput (pe_ID p) p (ma_peers m)\<rparr>"

section \<open>subscribers.go\<close>

definition Location_Idle :: "location \<Rightarrow> time \<Rightarrow> duration" where
  "Location_Idle l now = Sub now (lo_LastHeard l)"

definition observe :: "master \<Rightarrow> u32 \<Rightarrow> RepeaterID \<Rightarrow> Timeslot \<Rightarrow> time \<Rightarrow> master" where
  "observe m subscriber pid slot now =
     (if subscriber = 0 then m
      else m\<lparr>ma_subscribers := mput subscriber
        (case mget (ma_subscribers m) subscriber of
           Some l \<Rightarrow> l\<lparr>lo_Peer := pid, lo_Timeslot := slot, lo_LastHeard := now\<rparr>
         | None \<Rightarrow> \<lparr>lo_Subscriber = subscriber, lo_Peer = pid, lo_Timeslot = slot, lo_FirstSeen = now,
             lo_LastHeard = now\<rparr>) (ma_subscribers m)\<rparr>)"

definition locate :: "master \<Rightarrow> time \<Rightarrow> u32 \<Rightarrow> location option" where
  "locate m now subscriber =
     (case mget (ma_subscribers m) subscriber of
        None \<Rightarrow> None
      | Some l \<Rightarrow>
          if Location_Idle l now > mc_SubscriberTimeout (ma_cfg m) then None
          else case mget (ma_peers m) (lo_Peer l) of
              None \<Rightarrow> None
            | Some p \<Rightarrow> if CanPassTraffic (pe_State p) then Some l else None)"

definition Locations :: "master \<Rightarrow> location list" where
  "Locations m = sort_by (\<lambda>a b. lo_Subscriber a < lo_Subscriber b) (map snd (ma_subscribers m))"

definition SubscriberCount :: "master \<Rightarrow> nat" where
  "SubscriberCount m = length (ma_subscribers m)"

definition expireSubscribers :: "master \<Rightarrow> time \<Rightarrow> master \<times> location list" where
  "expireSubscribers m now =
     (let lapsed = (\<lambda>_ l. Location_Idle l now > mc_SubscriberTimeout (ma_cfg m)) in
      (m\<lparr>ma_subscribers := msweep lapsed (ma_subscribers m)\<rparr>,
       sort_by (\<lambda>a b. lo_Subscriber a < lo_Subscriber b)
         (map snd (filter (\<lambda>(k, l). lapsed k l) (ma_subscribers m)))))"

definition LocateFor :: "master \<Rightarrow> time \<Rightarrow> u32 \<Rightarrow> (RepeaterID \<times> Timeslot) option" where
  "LocateFor m now subscriber = map_option (\<lambda>l. (lo_Peer l, lo_Timeslot l)) (locate m now subscriber)"

definition isLinkedServer :: "master \<Rightarrow> peer \<Rightarrow> bool" where
  "isLinkedServer m p = (case mc_IsQSPLink (ma_cfg m) of None \<Rightarrow> False
     | Some f \<Rightarrow> (case pe_Config p of None \<Rightarrow> False | Some c \<Rightarrow> f c))"

definition LinkedServerPeers :: "master \<Rightarrow> RepeaterID list" where
  "LinkedServerPeers m =
     (case mc_IsQSPLink (ma_cfg m) of None \<Rightarrow> []
      | Some _ \<Rightarrow> sort_by (\<lambda>a b. a < b) (map fst
          (filter (\<lambda>(rid, p). CanPassTraffic (pe_State p) \<and> isLinkedServer m p) (ma_peers m))))"

section \<open>attachments.go\<close>

definition attach :: "master \<Rightarrow> RepeaterID \<Rightarrow> u32 \<Rightarrow> Timeslot \<Rightarrow> time \<Rightarrow> master" where
  "attach m pid talkgroup slot now =
     (if \<not> su_Enabled (mc_Subscription (ma_cfg m)) then m
      else let key = \<lparr>ak_peer = pid, ak_talkgroup = talkgroup, ak_slot = slot\<rparr> in
        m\<lparr>ma_attachments := mput key
          (case mget (ma_attachments m) key of
             Some a \<Rightarrow> a\<lparr>at_LastUsed := now\<rparr>
           | None \<Rightarrow> \<lparr>at_Peer = pid, at_Talkgroup = talkgroup, at_Timeslot = slot, at_Static = False,
               at_LastUsed = now\<rparr>) (ma_attachments m)\<rparr>)"

definition Attached :: "master \<Rightarrow> time \<Rightarrow> RepeaterID \<Rightarrow> u32 \<Rightarrow> Timeslot \<Rightarrow> bool" where
  "Attached m now pid talkgroup slot =
     (if \<not> su_Enabled (mc_Subscription (ma_cfg m)) then True
      else case mget (ma_attachments m) \<lparr>ak_peer = pid, ak_talkgroup = talkgroup, ak_slot = slot\<rparr> of
          None \<Rightarrow> False
        | Some a \<Rightarrow> at_Static a \<or> Sub now (at_LastUsed a) \<le> su_Timeout (mc_Subscription (ma_cfg m)))"

definition attachment_before :: "attachment \<Rightarrow> attachment \<Rightarrow> bool" where
  "attachment_before a b =
     (if at_Peer a \<noteq> at_Peer b then at_Peer a < at_Peer b
      else if at_Timeslot a \<noteq> at_Timeslot b then at_Timeslot a < at_Timeslot b
      else at_Talkgroup a < at_Talkgroup b)"

definition Attachments :: "master \<Rightarrow> attachment list" where
  "Attachments m = sort_by attachment_before (map snd (ma_attachments m))"

definition DropAttachments :: "master \<Rightarrow> RepeaterID \<Rightarrow> master \<times> nat" where
  "DropAttachments m pid =
     (let gone = (\<lambda>k a. ak_peer k = pid \<and> \<not> at_Static a) in
      (m\<lparr>ma_attachments := msweep gone (ma_attachments m)\<rparr>,
       length (filter (\<lambda>(k, a). gone k a) (ma_attachments m))))"

definition SubscriptionEnabled :: "master \<Rightarrow> bool" where
  "SubscriptionEnabled m = su_Enabled (mc_Subscription (ma_cfg m))"

definition AttachmentCount :: "master \<Rightarrow> nat" where
  "AttachmentCount m = length (ma_attachments m)"

definition lapsed_before :: "attachment \<Rightarrow> attachment \<Rightarrow> bool" where
  "lapsed_before a b =
     (if at_Peer a \<noteq> at_Peer b then at_Peer a < at_Peer b else at_Talkgroup a < at_Talkgroup b)"

definition expireAttachments :: "master \<Rightarrow> time \<Rightarrow> master \<times> attachment list" where
  "expireAttachments m now =
     (let lapsed = (\<lambda>_ a. \<not> at_Static a \<and> Sub now (at_LastUsed a) > su_Timeout (mc_Subscription (ma_cfg m))) in
      (m\<lparr>ma_attachments := msweep lapsed (ma_attachments m)\<rparr>,
       sort_by lapsed_before (map snd (filter (\<lambda>(k, a). lapsed k a) (ma_attachments m)))))"

definition static_of :: "attachment \<Rightarrow> attachmentKey \<times> attachment" where
  "static_of a = (\<lparr>ak_peer = at_Peer a, ak_talkgroup = at_Talkgroup a, ak_slot = at_Timeslot a\<rparr>,
     \<lparr>at_Peer = at_Peer a, at_Talkgroup = at_Talkgroup a, at_Timeslot = at_Timeslot a, at_Static = True,
      at_LastUsed = 0\<rparr>)"

definition seedStaticAttachments :: "master \<Rightarrow> master" where
  "seedStaticAttachments m = m\<lparr>ma_attachments :=
     fold (\<lambda>a t. mput (fst (static_of a)) (snd (static_of a)) t)
       (su_Static (mc_Subscription (ma_cfg m))) (ma_attachments m)\<rparr>"

definition SetSubscription :: "master \<Rightarrow> subscription_config \<Rightarrow> master" where
  "SetSubscription m cfg =
     (let cfg = (if su_Timeout cfg \<le> 0 then cfg\<lparr>su_Timeout := DefaultAttachmentTimeout\<rparr> else cfg) in
      seedStaticAttachments (m\<lparr>ma_cfg := (ma_cfg m)\<lparr>mc_Subscription := cfg\<rparr>,
        ma_attachments := mmap (\<lambda>_ a. a\<lparr>at_Static := False\<rparr>) (ma_attachments m)\<rparr>))"

section \<open>master.go: the registry\<close>

definition shouldAnswerUnregistered :: "master \<Rightarrow> RepeaterID \<Rightarrow> time \<Rightarrow> master \<times> bool" where
  "shouldAnswerUnregistered m rid now =
     (let seen = ma_answeredUnregistered m;
          recently = (case mget seen rid of None \<Rightarrow> False | Some t \<Rightarrow> Sub now t < unregisteredFrameInterval) in
      if recently then (m, False)
      else let pruned = (if length seen \<ge> maxUnregisteredTracked
             then msweep (\<lambda>_ t. Sub now t \<ge> unregisteredFrameInterval) seen else seen)
           in (m\<lparr>ma_answeredUnregistered := mput rid now pruned\<rparr>, True))"

definition with_defaults :: "master_config \<Rightarrow> master_config" where
  "with_defaults cfg = cfg\<lparr>
     mc_PeerTimeout := (if mc_PeerTimeout cfg \<le> 0 then DefaultPeerTimeout else mc_PeerTimeout cfg),
     mc_LoginTimeout := (if mc_LoginTimeout cfg \<le> 0 then DefaultLoginTimeout else mc_LoginTimeout cfg),
     mc_MaxPeers := (if mc_MaxPeers cfg \<le> 0 then DefaultMaxPeers else mc_MaxPeers cfg),
     mc_SubscriberTimeout :=
       (if mc_SubscriberTimeout cfg \<le> 0 then DefaultSubscriberTimeout else mc_SubscriberTimeout cfg),
     mc_Subscription := (if su_Timeout (mc_Subscription cfg) \<le> 0
       then (mc_Subscription cfg)\<lparr>su_Timeout := DefaultAttachmentTimeout\<rparr> else mc_Subscription cfg)\<rparr>"

definition NewMaster :: "master_config \<Rightarrow> master option" where
  "NewMaster cfg =
     (case mc_Password cfg of None \<Rightarrow> None
      | Some _ \<Rightarrow> Some (seedStaticAttachments \<lparr>ma_cfg = with_defaults cfg, ma_peers = [], ma_waiting = 0,
          ma_halfOpen = [], ma_subscribers = [], ma_attachments = [],
          ma_logins = newThrottle (mc_MaxLoginFailures cfg) (mc_LoginLockout cfg), ma_claimedIDs = [],
          ma_evicted = [], ma_answeredUnregistered = []\<rparr>))"

definition noteFailure :: "master \<Rightarrow> RepeaterID \<Rightarrow> addr_port \<Rightarrow> failure_reason \<Rightarrow> time \<Rightarrow> master" where
  "noteFailure m rid from reason now =
     m\<lparr>ma_claimedIDs := mput (ap_Addr from) rid (ma_claimedIDs m),
       ma_logins := fst (fail (ma_logins m) from reason now)\<rparr>"

definition LoginFailures :: "master \<Rightarrow> time \<Rightarrow> login_failure list" where
  "LoginFailures m now = recentFailures (ma_logins m) now (ma_claimedIDs m)"

definition BlockedSources :: "master \<Rightarrow> time \<Rightarrow> nat" where
  "BlockedSources m now = blocked (ma_logins m) now"

definition stations :: "master \<Rightarrow> int" where
  "stations m = int (length (ma_peers m)) - ma_waiting m"

definition forget :: "master \<Rightarrow> RepeaterID \<Rightarrow> master" where
  "forget m rid =
     m\<lparr>ma_waiting := (case mget (ma_peers m) rid of None \<Rightarrow> ma_waiting m
         | Some p \<Rightarrow> if pe_State p = StateChallenged then ma_waiting m - 1 else ma_waiting m),
       ma_peers := mdel rid (ma_peers m)\<rparr>"

definition still_waiting :: "(RepeaterID, peer) gomap \<Rightarrow> halfOpenLogin \<Rightarrow> bool" where
  "still_waiting ps h = (case mget ps (ho_id h) of None \<Rightarrow> False
     | Some p \<Rightarrow> pe_State p = StateChallenged \<and> pe_FirstSeen p = ho_began h)"

definition tidyHalfOpen :: "master \<Rightarrow> master" where
  "tidyHalfOpen m = m\<lparr>ma_halfOpen := filter (still_waiting (ma_peers m)) (ma_halfOpen m)\<rparr>"

definition abandon :: "master \<Rightarrow> peer \<Rightarrow> master" where
  "abandon m p = (case pe_relogins p of
       [] \<Rightarrow> forget m (pe_ID p)
     | r # rs \<Rightarrow> put_peer (p\<lparr>pe_relogins := rs, pe_Addr := rl_addr r, pe_Salt := rl_salt r,
         pe_LastHeard := rl_at r\<rparr>) m)"

fun first_waiting :: "(RepeaterID, peer) gomap \<Rightarrow> halfOpenLogin list \<Rightarrow> RepeaterID option \<times> halfOpenLogin list" where
  "first_waiting ps [] = (None, [])"
| "first_waiting ps (h # hs) = (if still_waiting ps h then (Some (ho_id h), hs) else first_waiting ps hs)"

definition evictHalfOpen :: "master \<Rightarrow> master \<times> bool" where
  "evictHalfOpen m =
     (case first_waiting (ma_peers m) (ma_halfOpen m) of
        (None, rest) \<Rightarrow> (m\<lparr>ma_halfOpen := rest\<rparr>, False)
      | (Some rid, rest) \<Rightarrow> (forget (m\<lparr>ma_halfOpen := rest\<rparr>) rid, True))"

section \<open>master.go: login\<close>

definition zero_salt :: "byte list" where
  "zero_salt = [0, 0, 0, 0]"

definition new_peer :: "RepeaterID \<Rightarrow> addr_port \<Rightarrow> byte list \<Rightarrow> time \<Rightarrow> peer" where
  "new_peer rid from salt now = \<lparr>pe_ID = rid, pe_Addr = from, pe_State = StateChallenged, pe_Config = None,
     pe_Salt = salt, pe_FirstSeen = now, pe_LastHeard = now, pe_ConfiguredAt = 0, pe_calls1 = [],
     pe_calls2 = [], pe_relogins = [], pe_Received = 0, pe_Sent = 0, pe_Refused = 0, pe_LastTraffic = 0,
     pe_refused = zero_refused\<rparr>"

text \<open>The end of \<open>handleLogin\<close> for an ID with no entry, and for an ID that has one.\<close>

definition begin_login :: "master \<Rightarrow> RepeaterID \<Rightarrow> addr_port \<Rightarrow> time \<Rightarrow> byte list \<Rightarrow> master \<times> outcome" where
  "begin_login m rid from now salt =
     (let m1 = m\<lparr>ma_waiting := ma_waiting m + 1,
            ma_halfOpen := ma_halfOpen m @ [\<lparr>ho_id = rid, ho_began = now\<rparr>]\<rparr>;
          m2 = (if length (ma_halfOpen m1) > 4 * maxHalfOpen then tidyHalfOpen m1 else m1)
      in (put_peer (new_peer rid from salt now) m2, answer from (Ack_AppendTo salt)))"

definition repeat_login :: "master \<Rightarrow> peer \<Rightarrow> addr_port \<Rightarrow> time \<Rightarrow> byte list \<Rightarrow> master \<times> outcome" where
  "repeat_login m p from now salt =
     (if pe_State p \<noteq> StateChallenged \<or> pe_Addr p \<noteq> from
      then (put_peer (offerRelogin p from salt now (mc_LoginTimeout (ma_cfg m))) m, answer from (Ack_AppendTo salt))
      else (put_peer ((new_peer (pe_ID p) from salt now)\<lparr>pe_FirstSeen := pe_FirstSeen p, pe_Config := pe_Config p,
              pe_ConfiguredAt := pe_ConfiguredAt p, pe_relogins := pe_relogins p\<rparr>) m,
            answer from (Ack_AppendTo salt)))"

definition handleLogin ::
  "master \<Rightarrow> RepeaterID \<Rightarrow> addr_port \<Rightarrow> time \<Rightarrow> byte list option \<Rightarrow> master \<times> outcome" where
  "handleLogin m rid from now salt =
     (if locked (ma_logins m) from now then (m, dropped TooManyFailures)
      else if rid = 0 then (m, dropped IDZero)
      else if rid = ServerOrigin then (m, dropped IDReserved)
      else if \<not> Allows (al_Registration (mc_Access (ma_cfg m))) rid then (m, reject rid from RegistrationRefused)
      else case password_of (ma_cfg m) now rid of None \<Rightarrow> (m, reject rid from NoPassword)
      | Some _ \<Rightarrow> (case mget (ma_peers m) rid of
          Some p \<Rightarrow> (case salt of None \<Rightarrow> (m, dropped NoChallenge) | Some s \<Rightarrow> repeat_login m p from now s)
        | None \<Rightarrow>
            if stations m \<ge> mc_MaxPeers (ma_cfg m)
            then (m, reject rid from (PeerLimitReached (mc_MaxPeers (ma_cfg m))))
            else let m1 = (if ma_waiting m \<ge> int maxHalfOpen then fst (evictHalfOpen m) else m) in
              case salt of None \<Rightarrow> (m1, dropped NoChallenge) | Some s \<Rightarrow> begin_login m1 rid from now s))"

text \<open>A login whose digest was right; \<open>handleKey\<close> and \<open>handleReloginKey\<close> end alike but for the address.\<close>

definition authenticated :: "peer \<Rightarrow> time \<Rightarrow> peer" where
  "authenticated p now = p\<lparr>pe_State := StateAuthenticated, pe_LastHeard := now, pe_Salt := zero_salt\<rparr>"

definition handleReloginKey :: "(byte list \<Rightarrow> byte list) \<Rightarrow> master \<Rightarrow> peer \<Rightarrow> RepeaterID \<Rightarrow> byte list \<Rightarrow>
    addr_port \<Rightarrow> time \<Rightarrow> master \<times> outcome" where
  "handleReloginKey sha256 m p rid dg from now =
     (case takeRelogin p from now (mc_LoginTimeout (ma_cfg m)) of
        (p1, None) \<Rightarrow> (put_peer p1 m, dropped (NoLoginInProgress (pe_State p)))
      | (p1, Some r) \<Rightarrow> (let m1 = put_peer p1 m in
          case password_of (ma_cfg m) now rid of
            None \<Rightarrow> (noteFailure m1 rid from ReasonUnknownID now, dropped NoPassword)
          | Some pw \<Rightarrow>
              if \<not> VerifyDigest sha256 (rl_salt r) pw dg
              then (noteFailure m1 rid from ReasonWrongPassword now, reject rid from WrongPassword)
              else if pe_State p1 = StateChallenged \<and> stations m1 \<ge> mc_MaxPeers (ma_cfg m)
              then (m1, reject rid from (PeerLimitReached (mc_MaxPeers (ma_cfg m))))
              else let m2 = (if pe_State p1 = StateChallenged then m1\<lparr>ma_waiting := ma_waiting m1 - 1\<rparr> else m1)
                   in (put_peer ((authenticated p1 now)\<lparr>pe_Addr := from, pe_relogins := []\<rparr>) m2,
                       answer from (Ack_AppendTo (putRepeaterID rid)))))"

definition handleKey :: "(byte list \<Rightarrow> byte list) \<Rightarrow> master \<Rightarrow> RepeaterID \<Rightarrow> byte list \<Rightarrow>
    addr_port \<Rightarrow> time \<Rightarrow> master \<times> outcome" where
  "handleKey sha256 m rid dg from now =
     (if locked (ma_logins m) from now then (m, dropped TooManyFailures)
      else case mget (ma_peers m) rid of
        None \<Rightarrow> (noteFailure m rid from ReasonUnsolicited now, dropped NotLoggedIn)
      | Some p \<Rightarrow>
          if pe_State p \<noteq> StateChallenged then handleReloginKey sha256 m p rid dg from now
          else if pe_Addr p \<noteq> from then
            (if hasRelogin p from then handleReloginKey sha256 m p rid dg from now
             else (noteFailure m rid from ReasonWrongAddress now, dropped (ChallengeElsewhere (pe_Addr p))))
          else case password_of (ma_cfg m) now rid of
            None \<Rightarrow> (noteFailure (abandon m p) rid from ReasonUnknownID now, dropped NoPassword)
          | Some pw \<Rightarrow>
              if \<not> VerifyDigest sha256 (pe_Salt p) pw dg
              then (noteFailure (abandon m p) rid from ReasonWrongPassword now, reject rid from WrongPassword)
              else if stations m \<ge> mc_MaxPeers (ma_cfg m)
              then (abandon m p, reject rid from (PeerLimitReached (mc_MaxPeers (ma_cfg m))))
              else (put_peer (authenticated p now) (m\<lparr>ma_waiting := ma_waiting m - 1\<rparr>),
                    answer from (Ack_AppendTo (putRepeaterID rid))))"

section \<open>master.go: a registered peer\<close>

definition identity_reply :: "json \<Rightarrow> master_config \<Rightarrow> hbp_config \<Rightarrow> addr_port \<Rightarrow> time \<Rightarrow> response list" where
  "identity_reply j cfg msg from now =
     (case (mc_Identity cfg, mc_IsQSPLink cfg, mc_OwnPassword cfg) of
        (Some ident, Some isLink, Some own) \<Rightarrow>
          if isLink msg \<and> own now (c_RepeaterID msg)
          then [\<lparr>re_To = from, re_Payload = Identity_AppendTo j ((ident now)\<lparr>i_RepeaterID := c_RepeaterID msg\<rparr>)\<rparr>]
          else []
      | _ \<Rightarrow> [])"

definition handleConfig :: "json \<Rightarrow> master \<Rightarrow> hbp_config \<Rightarrow> addr_port \<Rightarrow> time \<Rightarrow> master \<times> outcome" where
  "handleConfig j m msg from now =
     (case mget (ma_peers m) (c_RepeaterID msg) of
        None \<Rightarrow> (m, dropped NotLoggedIn)
      | Some p \<Rightarrow>
          if pe_Addr p \<noteq> from then (m, dropped (RegisteredElsewhere (pe_Addr p)))
          else if pe_State p \<noteq> StateAuthenticated \<and> pe_State p \<noteq> StateConfigured
          then (m, dropped (NotAuthenticated (pe_State p)))
          else let first = pe_State p \<noteq> StateConfigured;
                   p' = p\<lparr>pe_Config := Some msg, pe_State := StateConfigured, pe_LastHeard := now,
                     pe_ConfiguredAt := (if first then now else pe_ConfiguredAt p)\<rparr>
               in (put_peer p' (m\<lparr>ma_logins := succeed (ma_logins m) from\<rparr>),
                   zero_outcome\<lparr>ou_Responses := \<lparr>re_To = from,
                       re_Payload = Ack_AppendTo (putRepeaterID (c_RepeaterID msg))\<rparr> # identity_reply j (ma_cfg m) msg from now,
                     ou_Events := (if first then [\<lparr>ev_Kind = EventConnected, ev_Peer = clone p',
                       ev_Reason = NoEventReason\<rparr>] else [])\<rparr>))"

definition handlePing :: "master \<Rightarrow> RepeaterID \<Rightarrow> addr_port \<Rightarrow> time \<Rightarrow> master \<times> outcome" where
  "handlePing m rid from now =
     (case mget (ma_peers m) rid of
        None \<Rightarrow> (m, reject rid from NotRegistered)
      | Some p \<Rightarrow>
          if \<not> CanPassTraffic (pe_State p) then (m, dropped (NotReady (pe_State p)))
          else if pe_Addr p \<noteq> from then (m, reject rid from (RegisteredElsewhere (pe_Addr p)))
          else (put_peer (p\<lparr>pe_LastHeard := now\<rparr>) m, answer from (Pong_AppendTo rid)))"

definition refuseSubscriber :: "master \<Rightarrow> peer \<Rightarrow> hbp_data \<Rightarrow> master \<times> outcome" where
  "refuseSubscriber m p msg =
     (let current = \<lparr>rf_source = d_SourceID msg, rf_stream = d_StreamID msg, rf_slot = d_Timeslot msg\<rparr>;
          frames = (if rf_id (pe_refused p) = current then rf_frames (pe_refused p) + 1 else 1)
      in (put_peer (p\<lparr>pe_Refused := pe_Refused p + 1, pe_refused := \<lparr>rf_id = current, rf_frames = frames\<rparr>\<rparr>) m,
          dropped (SubscriberNotPermitted (d_SourceID msg) frames)))"

text \<open>The end of \<open>handleData\<close>, once the frame is permitted: what is learned from it.\<close>

definition accept_frame :: "master \<Rightarrow> peer \<Rightarrow> hbp_data \<Rightarrow> time \<Rightarrow> master \<times> outcome" where
  "accept_frame m p msg now =
     (case continuing p msg now (\<not> isLinkedServer m p) of
        (p1, f, _) \<Rightarrow>
          let p2 = p1\<lparr>pe_refused := zero_refused, pe_Received := pe_Received p1 + 1, pe_LastTraffic := now\<rparr>;
              m1 = observe (put_peer p2 m) (d_SourceID f) (pe_ID p) (d_Timeslot f) now;
              m2 = (if d_CallType f = CallGroup then attach m1 (pe_ID p) (d_TargetID f) (d_Timeslot f) now else m1)
          in (m2, zero_outcome\<lparr>ou_Data := Some f, ou_From := pe_ID p\<rparr>))"

definition handleData :: "master \<Rightarrow> hbp_data \<Rightarrow> addr_port \<Rightarrow> time \<Rightarrow> master \<times> outcome" where
  "handleData m msg from now =
     (case mget (ma_peers m) (d_RepeaterID msg) of
        None \<Rightarrow> (case shouldAnswerUnregistered m (d_RepeaterID msg) now of
            (m1, True) \<Rightarrow> (m1, reject (d_RepeaterID msg) from NotRegistered)
          | (m1, False) \<Rightarrow> (m1, dropped NotRegistered))
      | Some p \<Rightarrow>
          if \<not> CanPassTraffic (pe_State p) then (m, dropped (NotReady (pe_State p)))
          else if pe_Addr p \<noteq> from then (m, dropped (RegisteredElsewhere (pe_Addr p)))
          else let p1 = p\<lparr>pe_LastHeard := now\<rparr> in
            if \<not> Allows (al_Subscriber (mc_Access (ma_cfg m))) (d_SourceID msg) then refuseSubscriber m p1 msg
            else accept_frame m p1 msg now)"

definition handleTalkerAlias :: "master \<Rightarrow> RepeaterID \<Rightarrow> addr_port \<Rightarrow> time \<Rightarrow> master \<times> outcome" where
  "handleTalkerAlias m rid from now =
     (case mget (ma_peers m) rid of
        None \<Rightarrow> (m, dropped NotRegistered)
      | Some p \<Rightarrow>
          if \<not> CanPassTraffic (pe_State p) then (m, dropped (NotReady (pe_State p)))
          else if pe_Addr p \<noteq> from then (m, dropped (RegisteredElsewhere (pe_Addr p)))
          else (put_peer (p\<lparr>pe_LastHeard := now\<rparr>) m, zero_outcome))"

definition handleClose :: "master \<Rightarrow> RepeaterID \<Rightarrow> addr_port \<Rightarrow> master \<times> outcome" where
  "handleClose m rid from =
     (case mget (ma_peers m) rid of
        None \<Rightarrow> (m, dropped NotRegistered)
      | Some p \<Rightarrow>
          if pe_Addr p \<noteq> from then (m, dropped (RegisteredElsewhere (pe_Addr p)))
          else (forget m rid,
                if pe_State p \<noteq> StateConfigured then dropped ClosedEarly
                else zero_outcome\<lparr>ou_Events := [\<lparr>ev_Kind = EventDisconnected, ev_Peer = clone p,
                  ev_Reason = PeerClosed\<rparr>]\<rparr>))"

definition Handle :: "(byte list \<Rightarrow> byte list) \<Rightarrow> json \<Rightarrow> master \<Rightarrow> byte list \<Rightarrow> addr_port \<Rightarrow> time \<Rightarrow>
    byte list option \<Rightarrow> master \<times> outcome" where
  "Handle sha256 j m datagram from now salt =
     (case Parse j datagram of
        Inl e \<Rightarrow> (m, dropped (Unparseable e))
      | Inr (Login rid) \<Rightarrow> handleLogin m rid from now salt
      | Inr (Key rid dg) \<Rightarrow> handleKey sha256 m rid dg from now
      | Inr (Config c) \<Rightarrow> handleConfig j m c from now
      | Inr (Ping rid) \<Rightarrow> handlePing m rid from now
      | Inr (Data d) \<Rightarrow> handleData m d from now
      | Inr (RepeaterClose rid) \<Rightarrow> handleClose m rid from
      | Inr (TalkerAlias rid _) \<Rightarrow> handleTalkerAlias m rid from now
      | Inr _ \<Rightarrow> (m, dropped NotForMaster))"

section \<open>master.go: configuration, expiry and views\<close>

definition SubscriberAllowed :: "master \<Rightarrow> u32 \<Rightarrow> bool" where
  "SubscriberAllowed m rid = Allows (al_Subscriber (mc_Access (ma_cfg m))) rid"

text \<open>Removing a peer and saying so, in \<open>SetAccess\<close> and in \<open>Expire\<close>.\<close>

definition gone_event :: "peer \<Rightarrow> event_reason \<Rightarrow> peer_event list" where
  "gone_event p r = (if pe_State p = StateConfigured
     then [\<lparr>ev_Kind = EventDisconnected, ev_Peer = clone p, ev_Reason = r\<rparr>] else [])"

definition evict_banned :: "acl \<Rightarrow> RepeaterID \<times> peer \<Rightarrow> master \<Rightarrow> master" where
  "evict_banned l kv m = (case kv of (rid, p) \<Rightarrow>
     if Allows l rid then m
     else (let m1 = forget m rid in m1\<lparr>ma_evicted := ma_evicted m1 @ gone_event p NoLongerPermitted\<rparr>))"

definition Master_SetAccess :: "master \<Rightarrow> access_lists \<Rightarrow> master" where
  "Master_SetAccess m l = fold (evict_banned (al_Registration l)) (ma_peers m)
     (m\<lparr>ma_cfg := (ma_cfg m)\<lparr>mc_Access := l\<rparr>\<rparr>)"

definition peer_stale :: "master_config \<Rightarrow> time \<Rightarrow> peer \<Rightarrow> bool" where
  "peer_stale cfg now p \<longleftrightarrow>
     Idle p now > (if pe_State p = StateConfigured then mc_PeerTimeout cfg else mc_LoginTimeout cfg)"

definition remove_stale :: "time \<Rightarrow> RepeaterID \<Rightarrow> master \<times> peer_event list \<Rightarrow> master \<times> peer_event list" where
  "remove_stale now rid s = (case s of (m, evs) \<Rightarrow>
     (case mget (ma_peers m) rid of None \<Rightarrow> s
      | Some p \<Rightarrow> (forget m rid, evs @ gone_event p
          (if pe_State p = StateConfigured then NoTrafficFor (Truncate (Idle p now) second)
           else LoginNotCompleted (mc_LoginTimeout (ma_cfg m))))))"

definition Master_Expire :: "master \<Rightarrow> time \<Rightarrow> master \<times> peer_event list" where
  "Master_Expire m now =
     (let logins = expire (ma_logins m) now;
          m1 = m\<lparr>ma_logins := logins, ma_claimedIDs := msweep (\<lambda>a _. \<not> tracked logins a) (ma_claimedIDs m)\<rparr>;
          m2 = fst (expireAttachments m1 now);
          m3 = fst (expireSubscribers m2 now);
          stale = sort_by (\<lambda>a b. a < b) (map fst (filter (\<lambda>(rid, p). peer_stale (ma_cfg m3) now p) (ma_peers m3)))
      in fold (remove_stale now) stale (m3\<lparr>ma_evicted := []\<rparr>, ma_evicted m3))"

definition Master_Peers :: "master \<Rightarrow> peer list" where
  "Master_Peers m = sort_by (\<lambda>a b. pe_ID a < pe_ID b) (map (clone \<circ> snd) (ma_peers m))"

definition Lookup :: "master \<Rightarrow> RepeaterID \<Rightarrow> peer option" where
  "Lookup m rid = map_option clone (mget (ma_peers m) rid)"

definition Count :: "master \<Rightarrow> nat" where
  "Count m = length (ma_peers m)"

definition ConfiguredCount :: "master \<Rightarrow> nat" where
  "ConfiguredCount m = length (filter (\<lambda>(rid, p). CanPassTraffic (pe_State p)) (ma_peers m))"

definition CountSent :: "master \<Rightarrow> RepeaterID \<Rightarrow> master" where
  "CountSent m rid = (case mget (ma_peers m) rid of None \<Rightarrow> m
     | Some p \<Rightarrow> put_peer (p\<lparr>pe_Sent := pe_Sent p + 1\<rparr>) m)"

end
