(* ===== verification/Master_Login.thy ===== *)
theory Master_Login
  imports Master
begin

text \<open>
  The login of one station as a state machine, and the master as an implementation of it.
  \<open>login_step\<close> says how the entry of one repeater ID may change when one message is handled; every
  handler refines it for every ID.  From it follow what a stranger can and cannot do to a
  registration, and, over whole histories, that a station is registered at an address only after
  that address answered a challenge sent to it with the right digest.
\<close>

section \<open>The login state machine\<close>

text \<open>Fields that traffic and keepalives change; the others make up the registration.\<close>

definition same_login :: "peer \<Rightarrow> peer \<Rightarrow> bool" where
  "same_login p q \<longleftrightarrow> pe_ID q = pe_ID p \<and> pe_Addr q = pe_Addr p \<and> pe_State q = pe_State p \<and>
     pe_Config q = pe_Config p \<and> pe_Salt q = pe_Salt p \<and> pe_FirstSeen q = pe_FirstSeen p \<and>
     pe_ConfiguredAt q = pe_ConfiguredAt p \<and> pe_relogins q = pe_relogins p"

definition challenge :: "addr_port \<Rightarrow> byte list \<Rightarrow> outcome \<Rightarrow> bool" where
  "challenge from salt out \<longleftrightarrow> ou_Responses out = [\<lparr>re_To = from, re_Payload = Ack_AppendTo salt\<rparr>]"

inductive login_step :: "(byte list \<Rightarrow> byte list) \<Rightarrow> master_config \<Rightarrow> message \<Rightarrow> addr_port \<Rightarrow> time \<Rightarrow> outcome \<Rightarrow>
    RepeaterID \<Rightarrow> peer option \<Rightarrow> peer option \<Rightarrow> bool"
  for sha256 cfg msg "from" now out rid where
  Same: "login_step sha256 cfg msg from now out rid e e"
| Begun: "msg = Login rid \<Longrightarrow> challenge from s out \<Longrightarrow>
    login_step sha256 cfg msg from now out rid None (Some (new_peer rid from s now))"
| Evicted: "msg = Login other \<Longrightarrow> pe_State p = StateChallenged \<Longrightarrow>
    login_step sha256 cfg msg from now out rid (Some p) None"
| Offered: "msg = Login rid \<Longrightarrow> challenge from s out \<Longrightarrow> pe_State p \<noteq> StateChallenged \<or> pe_Addr p \<noteq> from \<Longrightarrow>
    login_step sha256 cfg msg from now out rid (Some p) (Some (offerRelogin p from s now (mc_LoginTimeout cfg)))"
| Restarted: "msg = Login rid \<Longrightarrow> challenge from s out \<Longrightarrow> pe_State p = StateChallenged \<Longrightarrow> pe_Addr p = from \<Longrightarrow>
    pe_State q = StateChallenged \<Longrightarrow> pe_Addr q = from \<Longrightarrow> pe_Salt q = s \<Longrightarrow> pe_ID q = pe_ID p \<Longrightarrow>
    pe_relogins q = pe_relogins p \<Longrightarrow> login_step sha256 cfg msg from now out rid (Some p) (Some q)"
| Proved: "msg = Key rid (Digest sha256 (pe_Salt p) pw) \<Longrightarrow> password_of cfg now rid = Some pw \<Longrightarrow>
    pe_State p = StateChallenged \<Longrightarrow> pe_Addr p = from \<Longrightarrow>
    login_step sha256 cfg msg from now out rid (Some p) (Some (authenticated p now))"
| Dropped: "msg = Key rid dg \<Longrightarrow> pe_State p = StateChallenged \<Longrightarrow> pe_Addr p = from \<Longrightarrow> pe_relogins p = [] \<Longrightarrow>
    login_step sha256 cfg msg from now out rid (Some p) None"
| Succeeded: "msg = Key rid dg \<Longrightarrow> pe_State p = StateChallenged \<Longrightarrow> pe_Addr p = from \<Longrightarrow> pe_relogins p = r # rs \<Longrightarrow>
    login_step sha256 cfg msg from now out rid (Some p) (Some (p\<lparr>pe_relogins := rs, pe_Addr := rl_addr r,
      pe_Salt := rl_salt r, pe_LastHeard := rl_at r\<rparr>))"
| Spent: "msg = Key rid dg \<Longrightarrow> set rs \<subseteq> set (pe_relogins p) \<Longrightarrow> length rs \<le> length (pe_relogins p) \<Longrightarrow>
    login_step sha256 cfg msg from now out rid (Some p) (Some (p\<lparr>pe_relogins := rs\<rparr>))"
| Moved: "msg = Key rid (Digest sha256 (rl_salt r) pw) \<Longrightarrow> password_of cfg now rid = Some pw \<Longrightarrow>
    r \<in> set (pe_relogins p) \<Longrightarrow> rl_addr r = from \<Longrightarrow> Sub now (rl_at r) \<le> mc_LoginTimeout cfg \<Longrightarrow>
    login_step sha256 cfg msg from now out rid (Some p)
      (Some ((authenticated p now)\<lparr>pe_Addr := from, pe_relogins := []\<rparr>))"
| Configured: "msg = Config c \<Longrightarrow> c_RepeaterID c = rid \<Longrightarrow> pe_State p \<noteq> StateChallenged \<Longrightarrow> pe_Addr p = from \<Longrightarrow>
    q = p\<lparr>pe_Config := Some c, pe_State := StateConfigured, pe_LastHeard := now, pe_ConfiguredAt := at\<rparr> \<Longrightarrow>
    login_step sha256 cfg msg from now out rid (Some p) (Some q)"
| Heard: "pe_State p = StateConfigured \<Longrightarrow> pe_Addr p = from \<Longrightarrow> same_login p q \<Longrightarrow> pe_LastHeard q = now \<Longrightarrow>
    login_step sha256 cfg msg from now out rid (Some p) (Some q)"
| Closed: "msg = RepeaterClose rid \<Longrightarrow> pe_Addr p = from \<Longrightarrow>
    login_step sha256 cfg msg from now out rid (Some p) None"

section \<open>The invariant\<close>

text \<open>
  \<open>registry_ok\<close> is about the peer table and its count of challenged logins; \<open>master_ok\<close> adds the
  other tables.  The key of an entry is its ID, which is what makes \<open>put_peer\<close> the assignment
  through the pointer that it stands for.
\<close>

definition is_challenged :: "RepeaterID \<times> peer \<Rightarrow> bool" where
  "is_challenged kv \<longleftrightarrow> pe_State (snd kv) = StateChallenged"

definition peer_ok :: "acl \<Rightarrow> RepeaterID \<times> peer \<Rightarrow> bool" where
  "peer_ok l kv \<longleftrightarrow> pe_ID (snd kv) = fst kv \<and> fst kv \<noteq> 0 \<and> fst kv \<noteq> ServerOrigin \<and> Allows l (fst kv) \<and>
     length (pe_relogins (snd kv)) \<le> maxRelogins \<and> length (pe_calls1 (snd kv)) \<le> maxOpenCalls \<and>
     length (pe_calls2 (snd kv)) \<le> maxOpenCalls"

definition registry_ok :: "acl \<Rightarrow> int \<Rightarrow> (RepeaterID, peer) gomap \<Rightarrow> int \<Rightarrow> bool" where
  "registry_ok l mx ps w \<longleftrightarrow> mwf ps \<and> list_all (peer_ok l) ps \<and> w = int (length (filter is_challenged ps)) \<and>
     int (length ps) - w \<le> mx"

definition master_ok :: "master \<Rightarrow> bool" where
  "master_ok m \<longleftrightarrow>
     registry_ok (al_Registration (mc_Access (ma_cfg m))) (mc_MaxPeers (ma_cfg m)) (ma_peers m) (ma_waiting m) \<and>
     0 < mc_MaxPeers (ma_cfg m) \<and> mwf (ma_subscribers m) \<and> mwf (ma_attachments m) \<and>
     mwf (ma_answeredUnregistered m) \<and> throttle_ok (ma_logins m)"

lemma list_all_mput: "list_all P m \<Longrightarrow> P (k, v) \<Longrightarrow> list_all P (mput k v m)"
  by (auto simp: list_all_iff dest!: mput_set_cases)

lemma registry_update:
  assumes ok: "registry_ok l mx ps w" and p: "mget ps rid = Some p" and q: "peer_ok l (rid, q)"
    and w': "w' = w - (if pe_State p = StateChallenged then 1 else 0) + (if pe_State q = StateChallenged then 1 else 0)"
    and room: "pe_State p = StateChallenged \<Longrightarrow> pe_State q \<noteq> StateChallenged \<Longrightarrow> int (length ps) - w < mx"
  shows "registry_ok l mx (mput rid q ps) w'"
proof -
  have wf: "mwf ps" and w: "w = int (length (filter is_challenged ps))" using ok by (auto simp: registry_ok_def)
  have "length (mput rid q ps) = length ps" using length_mput [OF wf] p by simp
  moreover have "length (filter is_challenged (mput rid q ps)) + (if pe_State p = StateChallenged then 1 else 0) =
      length (filter is_challenged ps) + (if pe_State q = StateChallenged then 1 else 0)"
    using filter_mput_length [OF wf p, of is_challenged q] by (simp add: is_challenged_def)
  ultimately show ?thesis
    using ok q w w' room list_all_mput [of "peer_ok l" ps rid q]
    by (auto simp: registry_ok_def split: if_splits)
qed

lemma registry_new:
  assumes ok: "registry_ok l mx ps w" and p: "mget ps rid = None" and q: "peer_ok l (rid, q)"
    and "pe_State q = StateChallenged"
  shows "registry_ok l mx (mput rid q ps) (w + 1)"
proof -
  have "length (mput rid q ps) = Suc (length ps)" using ok length_mput p by (force simp: registry_ok_def)
  then show ?thesis
    using assms filter_mput_new [OF p, of is_challenged q] list_all_mput [of "peer_ok l" ps rid q]
    by (simp add: registry_ok_def is_challenged_def)
qed

lemma registry_forget:
  assumes ok: "registry_ok l mx ps w"
  shows "registry_ok l mx (mdel rid ps) (case mget ps rid of None \<Rightarrow> w
    | Some p \<Rightarrow> if pe_State p = StateChallenged then w - 1 else w)"
proof (cases "mget ps rid")
  case None
  then show ?thesis using ok by (simp add: mdel_absent)
next
  case (Some p)
  have wf: "mwf ps" using ok by (simp add: registry_ok_def)
  have "list_all (peer_ok l) (mdel rid ps)" using ok by (auto simp: registry_ok_def list_all_mdel)
  then show ?thesis
    using ok Some length_mdel [OF wf Some] filter_mdel_length [OF wf Some, of is_challenged]
    by (auto simp: registry_ok_def is_challenged_def)
qed

lemma registry_peer:
  assumes "registry_ok l mx ps w" "mget ps rid = Some p"
  shows "peer_ok l (rid, p)" "pe_ID p = rid"
proof -
  have "(rid, p) \<in> set ps" using assms(2) by (rule mget_SomeD)
  then show "peer_ok l (rid, p)" "pe_ID p = rid"
    using assms(1) by (auto simp: registry_ok_def list_all_iff peer_ok_def)
qed

lemma master_peer:
  assumes "master_ok m" "mget (ma_peers m) rid = Some p"
  shows "peer_ok (al_Registration (mc_Access (ma_cfg m))) (rid, p)" "pe_ID p = rid"
  using registry_peer assms by (auto simp: master_ok_def)

text \<open>What the registry primitives leave alone.\<close>

named_theorems master_frame \<open>the fields an operation of the master does not touch\<close>

lemma put_peer_frame [simp, master_frame]:
  "ma_cfg (put_peer p m) = ma_cfg m" "ma_peers (put_peer p m) = mput (pe_ID p) p (ma_peers m)"
  "ma_waiting (put_peer p m) = ma_waiting m" "ma_subscribers (put_peer p m) = ma_subscribers m"
  "ma_attachments (put_peer p m) = ma_attachments m" "ma_logins (put_peer p m) = ma_logins m"
  "ma_answeredUnregistered (put_peer p m) = ma_answeredUnregistered m" "ma_halfOpen (put_peer p m) = ma_halfOpen m"
  "ma_evicted (put_peer p m) = ma_evicted m"
  by (simp_all add: put_peer_def)

lemma forget_frame [simp, master_frame]:
  "ma_cfg (forget m rid) = ma_cfg m" "ma_peers (forget m rid) = mdel rid (ma_peers m)"
  "ma_subscribers (forget m rid) = ma_subscribers m" "ma_attachments (forget m rid) = ma_attachments m"
  "ma_logins (forget m rid) = ma_logins m" "ma_answeredUnregistered (forget m rid) = ma_answeredUnregistered m"
  "ma_halfOpen (forget m rid) = ma_halfOpen m" "ma_evicted (forget m rid) = ma_evicted m"
  by (simp_all add: forget_def)

lemma noteFailure_frame [simp, master_frame]:
  "ma_cfg (noteFailure m rid from r now) = ma_cfg m" "ma_peers (noteFailure m rid from r now) = ma_peers m"
  "ma_waiting (noteFailure m rid from r now) = ma_waiting m" "ma_halfOpen (noteFailure m rid from r now) = ma_halfOpen m"
  "ma_subscribers (noteFailure m rid from r now) = ma_subscribers m"
  "ma_attachments (noteFailure m rid from r now) = ma_attachments m"
  "ma_logins (noteFailure m rid from r now) = fst (fail (ma_logins m) from r now)"
  "ma_answeredUnregistered (noteFailure m rid from r now) = ma_answeredUnregistered m"
  by (simp_all add: noteFailure_def)

text \<open>And what they keep of the invariant.\<close>

lemma ok_put_peer:
  assumes "master_ok m" "mget (ma_peers m) rid = Some p" "pe_ID q = rid" "pe_State q = pe_State p"
    "length (pe_relogins q) \<le> maxRelogins" "length (pe_calls1 q) \<le> maxOpenCalls" "length (pe_calls2 q) \<le> maxOpenCalls"
  shows "master_ok (put_peer q m)"
proof -
  have "peer_ok (al_Registration (mc_Access (ma_cfg m))) (rid, q)"
    using master_peer(1) [OF assms(1,2)] assms(3-) by (simp add: peer_ok_def)
  then show ?thesis
    using assms registry_update [of _ _ "ma_peers m" "ma_waiting m" rid p q "ma_waiting m"]
    by (auto simp: master_ok_def)
qed

lemma ok_promote:
  assumes "master_ok m" "mget (ma_peers m) rid = Some p" "pe_ID q = rid" "pe_State q \<noteq> StateChallenged"
    "length (pe_relogins q) \<le> maxRelogins" "length (pe_calls1 q) \<le> maxOpenCalls" "length (pe_calls2 q) \<le> maxOpenCalls"
    and "pe_State p = StateChallenged \<Longrightarrow> stations m < mc_MaxPeers (ma_cfg m)"
    and w: "w = (if pe_State p = StateChallenged then ma_waiting m - 1 else ma_waiting m)"
  shows "master_ok (put_peer q (m\<lparr>ma_waiting := w\<rparr>))"
proof -
  have "peer_ok (al_Registration (mc_Access (ma_cfg m))) (rid, q)"
    using master_peer(1) [OF assms(1,2)] assms(3-7) by (simp add: peer_ok_def)
  then show ?thesis
    using assms registry_update [of _ _ "ma_peers m" "ma_waiting m" rid p q w]
    by (auto simp: master_ok_def stations_def)
qed

lemma ok_forget: "master_ok m \<Longrightarrow> master_ok (forget m rid)"
  using registry_forget [of _ _ "ma_peers m" "ma_waiting m" rid]
  by (auto simp: master_ok_def forget_def)

lemma ok_noteFailure: "master_ok m \<Longrightarrow> master_ok (noteFailure m rid from r now)"
  using throttle_ok_fail [of "ma_logins m" "from" r now] by (simp add: master_ok_def)

lemma ok_abandon:
  assumes "master_ok m" "mget (ma_peers m) rid = Some p"
  shows "master_ok (abandon m p)"
proof (cases "pe_relogins p")
  case Nil
  then show ?thesis using assms by (simp add: abandon_def ok_forget)
next
  case (Cons r rs)
  then show ?thesis
    using master_peer [OF assms] by (auto simp: abandon_def peer_ok_def intro!: ok_put_peer [OF assms])
qed

section \<open>The handlers keep the invariant\<close>

lemma put_peer_of [simp]: "master_ok m \<Longrightarrow> mget (ma_peers m) rid = Some p \<Longrightarrow> pe_ID p = rid"
  by (rule master_peer(2))

lemma first_waiting_challenged:
  "first_waiting ps hs = (Some rid, rest) \<Longrightarrow> \<exists>p. mget ps rid = Some p \<and> pe_State p = StateChallenged"
  by (induction hs) (auto simp: still_waiting_def split: if_splits option.splits)

lemma evictHalfOpen_cases:
  obtains (None) rest where "fst (evictHalfOpen m) = m\<lparr>ma_halfOpen := rest\<rparr>"
  | (Some) rest rid p where "fst (evictHalfOpen m) = forget (m\<lparr>ma_halfOpen := rest\<rparr>) rid"
      "mget (ma_peers m) rid = Some p" "pe_State p = StateChallenged"
proof (cases "first_waiting (ma_peers m) (ma_halfOpen m)")
  case (Pair r rest)
  show ?thesis
  proof (cases r)
    case None
    then show ?thesis using Pair that(1) by (simp add: evictHalfOpen_def)
  next
    case (Some rid)
    then show ?thesis using Pair that(2) first_waiting_challenged [of "ma_peers m" "ma_halfOpen m" rid rest]
      by (auto simp: evictHalfOpen_def)
  qed
qed

lemma ok_halfOpen [simp]: "master_ok (m\<lparr>ma_halfOpen := hs\<rparr>) = master_ok m"
  by (simp add: master_ok_def)

lemma ok_evict: "master_ok m \<Longrightarrow> master_ok (fst (evictHalfOpen m))"
  by (cases rule: evictHalfOpen_cases [of m]) (auto intro: ok_forget)

lemma evict_cfg [simp]: "ma_cfg (fst (evictHalfOpen m)) = ma_cfg m"
  by (cases rule: evictHalfOpen_cases [of m]) auto

lemma evict_absent: "mget (ma_peers m) rid = None \<Longrightarrow> mget (ma_peers (fst (evictHalfOpen m))) rid = None"
  by (cases rule: evictHalfOpen_cases [of m]) auto

lemma tidy_frame [simp]: "ma_peers (tidyHalfOpen m) = ma_peers m" "ma_cfg (tidyHalfOpen m) = ma_cfg m"
  "ma_waiting (tidyHalfOpen m) = ma_waiting m" "ma_subscribers (tidyHalfOpen m) = ma_subscribers m"
  "ma_attachments (tidyHalfOpen m) = ma_attachments m" "ma_logins (tidyHalfOpen m) = ma_logins m"
  "ma_answeredUnregistered (tidyHalfOpen m) = ma_answeredUnregistered m"
  by (simp_all add: tidyHalfOpen_def)

lemma ok_begin_login:
  assumes "master_ok m" "mget (ma_peers m) rid = None" "rid \<noteq> 0" "rid \<noteq> ServerOrigin"
    "Allows (al_Registration (mc_Access (ma_cfg m))) rid"
  shows "master_ok (fst (begin_login m rid from now s))"
proof -
  have "peer_ok (al_Registration (mc_Access (ma_cfg m))) (rid, new_peer rid from s now)"
    using assms by (simp add: peer_ok_def new_peer_def)
  then show ?thesis
    using assms registry_new [of _ _ "ma_peers m" "ma_waiting m" rid "new_peer rid from s now"]
    by (auto simp: master_ok_def begin_login_def Let_def new_peer_def)
qed

lemma ok_repeat_login:
  assumes "master_ok m" "mget (ma_peers m) rid = Some p"
  shows "master_ok (fst (repeat_login m p from now s))"
  using master_peer [OF assms]
  by (auto simp: repeat_login_def peer_ok_def new_peer_def offerRelogin_bounded
      intro!: ok_put_peer [OF assms])

lemma ok_handleLogin:
  assumes "master_ok m"
  shows "master_ok (fst (handleLogin m rid from now salt))"
  using assms ok_begin_login [of "fst (evictHalfOpen m)" rid "from" now] ok_begin_login [of m rid "from" now]
    ok_repeat_login [of m rid _ "from" now] ok_evict [of m] evict_absent [of m rid]
  by (auto simp: handleLogin_def Let_def split: option.splits)

lemma takeRelogin_shape:
  "takeRelogin p from now tmo = (q, r) \<Longrightarrow>
    \<exists>rs. q = p\<lparr>pe_relogins := rs\<rparr> \<and> set rs \<subseteq> set (pe_relogins p) \<and> length rs \<le> length (pe_relogins p)"
proof (cases "take_relogin (pe_relogins p) from")
  case None
  then show "takeRelogin p from now tmo = (q, r) \<Longrightarrow> ?thesis"
    by (auto simp: takeRelogin_def intro!: exI [of _ "pe_relogins p"])
next
  case (Some x)
  then show "takeRelogin p from now tmo = (q, r) \<Longrightarrow> ?thesis"
    by (cases x) (auto simp: takeRelogin_def dest!: take_relogin_mem)
qed

lemma stations_put_peer: "master_ok m \<Longrightarrow> mget (ma_peers m) rid = Some p \<Longrightarrow> pe_ID q = rid \<Longrightarrow>
    stations (put_peer q m) = stations m"
  by (auto simp: stations_def length_mput master_ok_def registry_ok_def)

lemma put_peer_waiting [simp]: "(put_peer q m)\<lparr>ma_waiting := ma_waiting m\<rparr> = put_peer q m"
  by (simp add: put_peer_def)

text \<open>The ways \<open>handleReloginKey\<close> ends: the challenge is spent and nothing else changes, or the entry moves.\<close>

lemma handleReloginKey_cases:
  assumes ok: "master_ok m" "mget (ma_peers m) rid = Some p"
    and "handleReloginKey sha256 m p rid dg from now = (m', out)"
  obtains (Kept) rs where "set rs \<subseteq> set (pe_relogins p)" "length rs \<le> length (pe_relogins p)"
      "m' = put_peer (p\<lparr>pe_relogins := rs\<rparr>) m"
  | (Failed) rs reason where "set rs \<subseteq> set (pe_relogins p)" "length rs \<le> length (pe_relogins p)"
      "m' = noteFailure (put_peer (p\<lparr>pe_relogins := rs\<rparr>) m) rid from reason now"
  | (Moved) r pw where "r \<in> set (pe_relogins p)" "rl_addr r = from" "Sub now (rl_at r) \<le> mc_LoginTimeout (ma_cfg m)"
      "password_of (ma_cfg m) now rid = Some pw" "dg = Digest sha256 (rl_salt r) pw"
      "pe_State p = StateChallenged \<longrightarrow> stations m < mc_MaxPeers (ma_cfg m)"
      "m' = put_peer ((authenticated p now)\<lparr>pe_Addr := from, pe_relogins := []\<rparr>) (m\<lparr>ma_waiting :=
          (if pe_State p = StateChallenged then ma_waiting m - 1 else ma_waiting m)\<rparr>)"
proof -
  obtain q ro where t: "takeRelogin p from now (mc_LoginTimeout (ma_cfg m)) = (q, ro)" by fastforce
  then obtain rs where q: "q = p\<lparr>pe_relogins := rs\<rparr>" and rs: "set rs \<subseteq> set (pe_relogins p)"
      "length rs \<le> length (pe_relogins p)" using takeRelogin_shape by blast
  have st: "stations (put_peer q m) = stations m" by (rule stations_put_peer [OF ok]) (use ok q in simp)
  have twice: "put_peer ((authenticated q now)\<lparr>pe_Addr := from, pe_relogins := []\<rparr>) ((put_peer q m)\<lparr>ma_waiting := w\<rparr>) =
      put_peer ((authenticated p now)\<lparr>pe_Addr := from, pe_relogins := []\<rparr>) (m\<lparr>ma_waiting := w\<rparr>)" for w
    by (simp add: put_peer_def mput_def authenticated_def q)
  show ?thesis
  proof (cases ro)
    case None
    then show ?thesis using assms(3) t q rs Kept [of rs] by (simp add: handleReloginKey_def)
  next
    case (Some r)
    have r: "r \<in> set (pe_relogins p)" "rl_addr r = from" "Sub now (rl_at r) \<le> mc_LoginTimeout (ma_cfg m)"
      using takeRelogin_Some t Some by blast+
    show ?thesis
    proof (cases "password_of (ma_cfg m) now rid")
      case None
      then show ?thesis using assms(3) t q rs Failed [of rs] Some by (auto simp: handleReloginKey_def Let_def)
    next
      case pw: (Some pw)
      consider "\<not> VerifyDigest sha256 (rl_salt r) pw dg"
        | "VerifyDigest sha256 (rl_salt r) pw dg" "pe_State p = StateChallenged \<and> stations m \<ge> mc_MaxPeers (ma_cfg m)"
        | "VerifyDigest sha256 (rl_salt r) pw dg" "\<not> (pe_State p = StateChallenged \<and> stations m \<ge> mc_MaxPeers (ma_cfg m))"
        by blast
      then show ?thesis
      proof cases
        case 1
        then show ?thesis using assms(3) t q rs Failed [of rs] Some pw by (auto simp: handleReloginKey_def Let_def)
      next
        case 2
        then show ?thesis using assms(3) t q rs Kept [of rs] Some pw st by (auto simp: handleReloginKey_def Let_def)
      next
        case 3
        then have "m' = put_peer ((authenticated q now)\<lparr>pe_Addr := from, pe_relogins := []\<rparr>) ((put_peer q m)\<lparr>ma_waiting :=
            (if pe_State p = StateChallenged then ma_waiting m - 1 else ma_waiting m)\<rparr>)"
          using assms(3) t Some pw st q by (auto simp: handleReloginKey_def Let_def)
        then show ?thesis using 3 r pw Moved [of r pw] twice by (auto simp: VerifyDigest_def)
      qed
    qed
  qed
qed

lemma ok_handleReloginKey:
  assumes "master_ok m" "mget (ma_peers m) rid = Some p"
  shows "master_ok (fst (handleReloginKey sha256 m p rid dg from now))"
proof (cases "handleReloginKey sha256 m p rid dg from now")
  case (Pair m' out)
  have put: "master_ok (put_peer (p\<lparr>pe_relogins := rs\<rparr>) m)" if "length rs \<le> length (pe_relogins p)" for rs
    using master_peer [OF assms] that by (auto simp: peer_ok_def intro!: ok_put_peer [OF assms])
  show ?thesis
    using assms Pair
  proof (cases rule: handleReloginKey_cases)
    case Moved
    have "master_ok m'" unfolding Moved(7)
      by (rule ok_promote [OF assms]) (use Moved master_peer [OF assms] in \<open>auto simp: peer_ok_def authenticated_def\<close>)
    then show ?thesis using Pair by simp
  qed (use Pair put ok_noteFailure in auto)
qed

lemma ok_handleKey:
  assumes "master_ok m"
  shows "master_ok (fst (handleKey sha256 m rid dg from now))"
proof (cases "mget (ma_peers m) rid")
  case None
  then show ?thesis using assms by (simp add: handleKey_def ok_noteFailure)
next
  case (Some p)
  have "master_ok (put_peer (authenticated p now) (m\<lparr>ma_waiting := ma_waiting m - 1\<rparr>))"
    if "pe_State p = StateChallenged" "stations m < mc_MaxPeers (ma_cfg m)"
    using master_peer [OF assms Some] that
    by (intro ok_promote [OF assms Some]) (auto simp: peer_ok_def authenticated_def)
  then show ?thesis
    using assms Some ok_handleReloginKey [OF assms Some] ok_abandon [OF assms Some]
    by (auto simp: handleKey_def ok_noteFailure split: option.splits)
qed

lemma ok_logins: "master_ok m \<Longrightarrow> throttle_ok t \<Longrightarrow> master_ok (m\<lparr>ma_logins := t\<rparr>)"
  by (simp add: master_ok_def)

lemma ok_handleConfig: "master_ok m \<Longrightarrow> master_ok (fst (handleConfig j m c from now))"
proof (cases "mget (ma_peers m) (c_RepeaterID c)")
  case (Some p)
  assume ok: "master_ok m"
  let ?m = "m\<lparr>ma_logins := succeed (ma_logins m) from\<rparr>"
  let ?q = "\<lambda>at. p\<lparr>pe_Config := Some c, pe_State := StateConfigured, pe_LastHeard := now, pe_ConfiguredAt := at\<rparr>"
  have ok': "master_ok ?m" using ok by (auto simp: master_ok_def throttle_ok_succeed)
  have put: "master_ok (put_peer (?q at) (?m\<lparr>ma_waiting := ma_waiting ?m\<rparr>))" if "pe_State p \<noteq> StateChallenged" for at
    by (rule ok_promote [OF ok']) (use Some that master_peer [OF ok Some] in \<open>auto simp: peer_ok_def\<close>)
  show ?thesis using ok Some put [of now] put [of "pe_ConfiguredAt p"] by (auto simp: handleConfig_def Let_def)
qed (simp add: handleConfig_def)

lemma ok_heard:
  assumes "master_ok m" "mget (ma_peers m) rid = Some p" "same_login p q"
    "length (pe_calls1 q) \<le> maxOpenCalls" "length (pe_calls2 q) \<le> maxOpenCalls"
  shows "master_ok (put_peer q m)"
  using master_peer [OF assms(1,2)] assms(3-)
  by (auto simp: peer_ok_def same_login_def intro!: ok_put_peer [OF assms(1,2)])

lemma master_calls:
  assumes "master_ok m" "mget (ma_peers m) rid = Some p"
  shows "length (pe_calls1 p) \<le> maxOpenCalls" "length (pe_calls2 p) \<le> maxOpenCalls"
  using master_peer [OF assms] by (auto simp: peer_ok_def)

lemma same_login_heard [simp]: "same_login p (p\<lparr>pe_LastHeard := now\<rparr>)"
  by (simp add: same_login_def)

lemma ok_handlePing: "master_ok m \<Longrightarrow> master_ok (fst (handlePing m rid from now))"
  by (auto simp: handlePing_def split: option.splits intro!: ok_heard intro: master_calls)

lemma ok_handleTalkerAlias: "master_ok m \<Longrightarrow> master_ok (fst (handleTalkerAlias m rid from now))"
  by (auto simp: handleTalkerAlias_def split: option.splits intro!: ok_heard intro: master_calls)

lemma ok_handleClose: "master_ok m \<Longrightarrow> master_ok (fst (handleClose m rid from))"
  by (auto simp: handleClose_def ok_forget split: option.splits)

lemma observe_frame [simp, master_frame]:
  "ma_cfg (observe m s pid t now) = ma_cfg m" "ma_peers (observe m s pid t now) = ma_peers m"
  "ma_attachments (observe m s pid t now) = ma_attachments m"
  by (simp_all add: observe_def)

lemma attach_frame [simp, master_frame]:
  "ma_cfg (attach m pid g t now) = ma_cfg m" "ma_peers (attach m pid g t now) = ma_peers m"
  "ma_subscribers (attach m pid g t now) = ma_subscribers m"
  by (simp_all add: attach_def Let_def)

lemma ok_observe: "master_ok m \<Longrightarrow> master_ok (observe m s pid t now)"
  by (simp add: observe_def master_ok_def)

lemma ok_attach: "master_ok m \<Longrightarrow> master_ok (attach m pid g t now)"
  by (simp add: attach_def master_ok_def Let_def)

text \<open>What \<open>accept_frame\<close> leaves behind: the peer it heard, and where the frame's source is.\<close>

lemma accept_frame_shape:
  assumes "continuing p msg now (\<not> isLinkedServer m p) = (p1, f, b)"
  shows "accept_frame m p msg now =
    (let p2 = p1\<lparr>pe_refused := zero_refused, pe_Received := pe_Received p1 + 1, pe_LastTraffic := now\<rparr>;
         m1 = observe (put_peer p2 m) (d_SourceID f) (pe_ID p) (d_Timeslot f) now
     in (if d_CallType f = CallGroup then attach m1 (pe_ID p) (d_TargetID f) (d_Timeslot f) now else m1,
         zero_outcome\<lparr>ou_Data := Some f, ou_From := pe_ID p\<rparr>))"
  using assms by (simp add: accept_frame_def)

lemma accept_frame_peer:
  assumes "master_ok m" "mget (ma_peers m) rid = Some p"
  obtains q where "same_login p q" "pe_LastHeard q = now" "master_ok (put_peer q m)"
    "ma_peers (fst (accept_frame m (p\<lparr>pe_LastHeard := now\<rparr>) msg now)) = mput rid q (ma_peers m)"
    "master_ok (fst (accept_frame m (p\<lparr>pe_LastHeard := now\<rparr>) msg now))"
proof -
  let ?p = "p\<lparr>pe_LastHeard := now\<rparr>"
  obtain p1 f b where c: "continuing ?p msg now (\<not> isLinkedServer m ?p) = (p1, f, b)"
    by (cases "continuing ?p msg now (\<not> isLinkedServer m ?p)") auto
  then obtain c1 c2 where p1: "p1 = ?p\<lparr>pe_calls1 := c1, pe_calls2 := c2\<rparr>" "length c1 \<le> maxOpenCalls" "length c2 \<le> maxOpenCalls"
    using continuing_frame [OF c] master_calls [OF assms] by auto
  obtain q where q: "q = p1\<lparr>pe_refused := zero_refused, pe_Received := pe_Received p1 + 1, pe_LastTraffic := now\<rparr>"
    by blast
  have s: "same_login p q" "pe_LastHeard q = now" using p1 by (simp_all add: same_login_def q)
  have ok: "master_ok (put_peer q m)" by (rule ok_heard [OF assms s(1)]) (use p1 q in simp_all)
  have rid: "pe_ID q = rid" using p1 q assms by simp
  have eq: "fst (accept_frame m ?p msg now) = (let m1 = observe (put_peer q m) (d_SourceID f) (pe_ID p) (d_Timeslot f) now
      in if d_CallType f = CallGroup then attach m1 (pe_ID p) (d_TargetID f) (d_Timeslot f) now else m1)"
    by (simp only: accept_frame_shape [OF c] Let_def q fst_conv) simp
  have ok2: "master_ok (fst (accept_frame m ?p msg now))" by (simp add: eq Let_def ok ok_attach ok_observe)
  have "ma_peers (fst (accept_frame m ?p msg now)) = mput rid q (ma_peers m)" by (simp add: eq Let_def rid)
  with that [OF s ok] ok2 show ?thesis by blast
qed

lemma ok_refuseSubscriber:
  assumes "master_ok m" "mget (ma_peers m) rid = Some p"
  shows "master_ok (fst (refuseSubscriber m (p\<lparr>pe_LastHeard := now\<rparr>) msg))"
  using master_calls [OF assms]
  by (auto simp: refuseSubscriber_def Let_def same_login_def intro!: ok_heard [OF assms])

lemma ok_handleData:
  assumes "master_ok m"
  shows "master_ok (fst (handleData m msg from now))"
proof (cases "mget (ma_peers m) (d_RepeaterID msg)")
  case None
  have "master_ok (fst (shouldAnswerUnregistered m (d_RepeaterID msg) now))"
    using assms by (simp add: shouldAnswerUnregistered_def Let_def master_ok_def)
  then show ?thesis using None
    by (auto simp: handleData_def split: prod.splits bool.splits)
next
  case (Some p)
  show ?thesis
    using accept_frame_peer [OF assms Some] ok_refuseSubscriber [OF assms Some] assms Some
    by (auto simp: handleData_def Let_def)
qed

lemma ok_Handle: "master_ok m \<Longrightarrow> master_ok (fst (Handle sha256 j m b from now salt))"
  by (auto simp: Handle_def ok_handleLogin ok_handleKey ok_handleConfig ok_handlePing ok_handleData
      ok_handleClose ok_handleTalkerAlias split: sum.splits message.splits)

section \<open>The handlers refine the machine\<close>

lemma answer_challenge [simp]: "challenge from s (answer from (Ack_AppendTo s))"
  by (simp add: challenge_def answer_def)

lemma step_evict:
  "login_step sha256 cfg (Login i) from now out rid (mget (ma_peers m) rid) (mget (ma_peers (fst (evictHalfOpen m))) rid)"
  by (cases rule: evictHalfOpen_cases [of m]) (auto intro: login_step.intros)

lemma step_begin_login:
  assumes "mget (ma_peers m) i = None"
  shows "login_step sha256 cfg (Login i) from now (snd (begin_login m i from now s)) i None
      (mget (ma_peers (fst (begin_login m i from now s))) i)"
    "rid \<noteq> i \<Longrightarrow> mget (ma_peers (fst (begin_login m i from now s))) rid = mget (ma_peers m) rid"
  using answer_challenge [of "from" s]
  by (auto simp: begin_login_def Let_def new_peer_def [of i] intro: login_step.Begun [unfolded new_peer_def])

lemma step_repeat_login:
  assumes "master_ok m" "mget (ma_peers m) i = Some p"
  shows "login_step sha256 (ma_cfg m) (Login i) from now (snd (repeat_login m p from now s)) rid (mget (ma_peers m) rid)
    (mget (ma_peers (fst (repeat_login m p from now s))) rid)"
proof (cases "rid = i")
  case True
  show ?thesis
  proof (cases "pe_State p \<noteq> StateChallenged \<or> pe_Addr p \<noteq> from")
    case False
    show ?thesis
      using True False assms answer_challenge [of "from" s]
      by (simp add: repeat_login_def new_peer_def del: Ack_AppendTo_def) (rule login_step.Restarted, simp_all add: challenge_def answer_def)
  qed (use True assms answer_challenge [of "from" s] in
      \<open>auto simp: repeat_login_def simp del: Ack_AppendTo_def intro: login_step.Offered\<close>)
next
  case False
  then show ?thesis using assms by (auto simp: repeat_login_def new_peer_def intro: login_step.Same)
qed

lemma step_handleLogin:
  assumes "master_ok m"
  shows "login_step sha256 (ma_cfg m) (Login i) from now (snd (handleLogin m i from now salt)) rid (mget (ma_peers m) rid)
    (mget (ma_peers (fst (handleLogin m i from now salt))) rid)"
proof (cases "mget (ma_peers m) i")
  case (Some p)
  then show ?thesis using step_repeat_login [OF assms Some]
    by (auto simp: handleLogin_def intro: login_step.Same split: option.splits)
next
  case None
  let ?m = "if ma_waiting m \<ge> int maxHalfOpen then fst (evictHalfOpen m) else m"
  have absent: "mget (ma_peers ?m) i = None" using None evict_absent by simp
  have evict: "login_step sha256 (ma_cfg m) (Login i) from now out rid (mget (ma_peers m) rid) (mget (ma_peers ?m) rid)" for out
    using step_evict by (auto intro: login_step.Same)
  have "fst (handleLogin m i from now salt) = m \<or> fst (handleLogin m i from now salt) = ?m \<or>
      (\<exists>s. handleLogin m i from now salt = begin_login ?m i from now s)"
    using None by (cases salt) (auto simp: handleLogin_def Let_def split: option.splits)
  then consider "fst (handleLogin m i from now salt) = m" | "fst (handleLogin m i from now salt) = ?m"
    | s where "handleLogin m i from now salt = begin_login ?m i from now s" by blast
  then show ?thesis
  proof cases
    case 3
    then show ?thesis
      using step_begin_login(1) [OF absent, of sha256 "ma_cfg m" "from" now s] None
        step_begin_login(2) [OF absent, of rid "from" now s] evict
      by (cases "rid = i") auto
  qed (use evict in \<open>auto intro: login_step.Same\<close>)
qed

lemma step_handleReloginKey:
  assumes "master_ok m" "mget (ma_peers m) i = Some p" "handleReloginKey sha256 m p i dg from now = (m', out)"
  shows "login_step sha256 (ma_cfg m) (Key i dg) from now out rid (mget (ma_peers m) rid) (mget (ma_peers m') rid)"
  using assms
proof (cases rule: handleReloginKey_cases)
  case (Kept rs)
  then show ?thesis using assms(1,2)
    by (cases "rid = i") (auto intro: login_step.Spent login_step.Same)
next
  case (Failed rs reason)
  then show ?thesis using assms(1,2)
    by (cases "rid = i") (auto intro: login_step.Spent login_step.Same)
next
  case (Moved r pw)
  then have eq: "mget (ma_peers m') rid = (if rid = i then Some ((authenticated p now)\<lparr>pe_Addr := from, pe_relogins := []\<rparr>)
      else mget (ma_peers m) rid)" using assms(1,2) by (simp add: authenticated_def)
  show ?thesis
  proof (cases "rid = i")
    case True
    then show ?thesis using eq assms(2) Moved login_step.Moved [of "Key i dg" i sha256 r pw "ma_cfg m" now p "from" out] by simp
  qed (use eq in \<open>simp add: login_step.Same\<close>)
qed

lemma step_abandon:
  assumes "master_ok m" "mget (ma_peers m) i = Some p" "pe_State p = StateChallenged" "pe_Addr p = from"
    "ma_peers m' = ma_peers (abandon m p)"
  shows "login_step sha256 cfg (Key i dg) from now out rid (mget (ma_peers m) rid) (mget (ma_peers m') rid)"
proof (cases "pe_relogins p")
  case Nil
  then show ?thesis using assms
    by (cases "rid = i") (auto simp: abandon_def intro: login_step.Dropped login_step.Same)
next
  case (Cons r rs)
  have eq: "mget (ma_peers m') rid = (if rid = i then Some (p\<lparr>pe_relogins := rs, pe_Addr := rl_addr r, pe_Salt := rl_salt r,
      pe_LastHeard := rl_at r\<rparr>) else mget (ma_peers m) rid)"
    using assms Cons by (simp add: abandon_def)
  show ?thesis
  proof (cases "rid = i")
    case True
    then show ?thesis using eq assms Cons login_step.Succeeded [of "Key i dg" i dg p "from" r rs sha256 cfg now out] by simp
  qed (use eq in \<open>simp add: login_step.Same\<close>)
qed

lemma step_handleKey:
  assumes "master_ok m"
  shows "login_step sha256 (ma_cfg m) (Key i dg) from now (snd (handleKey sha256 m i dg from now)) rid (mget (ma_peers m) rid)
    (mget (ma_peers (fst (handleKey sha256 m i dg from now))) rid)"
proof (cases "mget (ma_peers m) i")
  case None
  then show ?thesis by (simp add: handleKey_def login_step.Same)
next
  case (Some p)
  have prove: "login_step sha256 (ma_cfg m) (Key i dg) from now out rid (mget (ma_peers m) rid)
      (mget (mput i (authenticated p now) (ma_peers m)) rid)"
    if "pe_State p = StateChallenged" "pe_Addr p = from" "password_of (ma_cfg m) now i = Some pw"
      "VerifyDigest sha256 (pe_Salt p) pw dg" for pw out
    using that Some login_step.Proved [of "Key i dg" i sha256 p pw "ma_cfg m" now "from" out]
    by (cases "rid = i") (auto simp: VerifyDigest_def login_step.Same)
  have relogin: "login_step sha256 (ma_cfg m) (Key i dg) from now (snd (handleReloginKey sha256 m p i dg from now)) rid
      (mget (ma_peers m) rid) (mget (ma_peers (fst (handleReloginKey sha256 m p i dg from now))) rid)"
    by (rule step_handleReloginKey [OF assms Some]) simp
  have "ma_peers (fst (handleKey sha256 m i dg from now)) = ma_peers m \<or>
      handleKey sha256 m i dg from now = handleReloginKey sha256 m p i dg from now \<or>
      pe_State p = StateChallenged \<and> pe_Addr p = from \<and>
        (ma_peers (fst (handleKey sha256 m i dg from now)) = ma_peers (abandon m p) \<or>
         (\<exists>pw. password_of (ma_cfg m) now i = Some pw \<and> VerifyDigest sha256 (pe_Salt p) pw dg \<and>
           ma_peers (fst (handleKey sha256 m i dg from now)) = mput (pe_ID p) (authenticated p now) (ma_peers m)))"
    using Some by (simp add: handleKey_def split: option.split) (auto simp: authenticated_def)
  then show ?thesis
    using prove relogin step_abandon [OF assms Some] assms Some by (fastforce simp: login_step.Same)
qed

lemma step_handleConfig:
  assumes "master_ok m"
  shows "login_step sha256 (ma_cfg m) (Config c) from now (snd (handleConfig j m c from now)) rid (mget (ma_peers m) rid)
    (mget (ma_peers (fst (handleConfig j m c from now))) rid)"
proof (cases "mget (ma_peers m) (c_RepeaterID c)")
  case None
  then show ?thesis by (simp add: handleConfig_def login_step.Same)
next
  case (Some p)
  obtain q where q: "q = p\<lparr>pe_Config := Some c, pe_State := StateConfigured, pe_LastHeard := now,
      pe_ConfiguredAt := (if pe_State p \<noteq> StateConfigured then now else pe_ConfiguredAt p)\<rparr>" by blast
  have conf: "login_step sha256 (ma_cfg m) (Config c) from now out rid (mget (ma_peers m) rid)
      (mget (mput (c_RepeaterID c) q (ma_peers m)) rid)"
    if "pe_State p \<noteq> StateChallenged" "pe_Addr p = from" for out
    using that Some login_step.Configured [OF refl refl that q]
    by (cases "rid = c_RepeaterID c") (auto intro: login_step.Same)
  have "pe_ID q = c_RepeaterID c" using q assms Some by simp
  then have "ma_peers (fst (handleConfig j m c from now)) = ma_peers m \<or>
      pe_State p \<noteq> StateChallenged \<and> pe_Addr p = from \<and>
        ma_peers (fst (handleConfig j m c from now)) = mput (c_RepeaterID c) q (ma_peers m)"
    unfolding handleConfig_def Some Let_def option.case q [symmetric] by auto
  then show ?thesis using conf by (auto simp: login_step.Same)
qed

lemma step_heard:
  assumes "mget (ma_peers m) i = Some p" "pe_State p = StateConfigured" "pe_Addr p = from"
    "same_login p q" "pe_LastHeard q = now" "ma_peers m' = mput i q (ma_peers m)"
  shows "login_step sha256 cfg msg from now out rid (mget (ma_peers m) rid) (mget (ma_peers m') rid)"
  using assms by (cases "rid = i") (auto intro: login_step.Heard login_step.Same)

lemma step_handlePing:
  "master_ok m \<Longrightarrow> login_step sha256 cfg msg from now out rid (mget (ma_peers m) rid)
    (mget (ma_peers (fst (handlePing m i from now))) rid)"
  by (cases "rid = i") (auto simp: handlePing_def CanPassTraffic_def split: option.splits
      intro: login_step.Same login_step.Heard)

lemma step_handleTalkerAlias:
  "master_ok m \<Longrightarrow> login_step sha256 cfg msg from now out rid (mget (ma_peers m) rid)
    (mget (ma_peers (fst (handleTalkerAlias m i from now))) rid)"
  by (cases "rid = i") (auto simp: handleTalkerAlias_def CanPassTraffic_def split: option.splits
      intro: login_step.Same login_step.Heard)

lemma step_handleClose:
  "login_step sha256 cfg (RepeaterClose i) from now out rid (mget (ma_peers m) rid)
    (mget (ma_peers (fst (handleClose m i from))) rid)"
  by (cases "rid = i") (auto simp: handleClose_def split: option.splits intro: login_step.Same login_step.Closed)

lemma unregistered_peers [simp]: "ma_peers (fst (shouldAnswerUnregistered m i now)) = ma_peers m"
  by (simp add: shouldAnswerUnregistered_def Let_def)

lemma step_handleData:
  assumes "master_ok m"
  shows "login_step sha256 cfg msg from now out rid (mget (ma_peers m) rid)
    (mget (ma_peers (fst (handleData m d from now))) rid)"
proof (cases "mget (ma_peers m) (d_RepeaterID d)")
  case None
  have "ma_peers (fst (handleData m d from now)) = ma_peers m"
    using None unregistered_peers [of m "d_RepeaterID d" now]
    by (cases "shouldAnswerUnregistered m (d_RepeaterID d) now") (auto simp: handleData_def split: bool.splits)
  then show ?thesis by (simp add: login_step.Same)
next
  case (Some p)
  obtain q where q: "same_login p q" "pe_LastHeard q = now"
    "ma_peers (fst (accept_frame m (p\<lparr>pe_LastHeard := now\<rparr>) d now)) = mput (d_RepeaterID d) q (ma_peers m)"
    by (rule accept_frame_peer [OF assms Some, of now d])
  obtain q' where q': "same_login p q'" "pe_LastHeard q' = now"
    "ma_peers (fst (refuseSubscriber m (p\<lparr>pe_LastHeard := now\<rparr>) d)) = mput (d_RepeaterID d) q' (ma_peers m)"
    using assms Some that [of "p\<lparr>pe_LastHeard := now, pe_Refused := pe_Refused p + 1, pe_refused := rf\<rparr>" for rf]
    by (simp add: refuseSubscriber_def Let_def same_login_def)
  have "ma_peers (fst (handleData m d from now)) = ma_peers m \<or>
      pe_State p = StateConfigured \<and> pe_Addr p = from \<and>
      (ma_peers (fst (handleData m d from now)) = mput (d_RepeaterID d) q (ma_peers m) \<or>
       ma_peers (fst (handleData m d from now)) = mput (d_RepeaterID d) q' (ma_peers m))"
    using Some q(3) q'(3) by (simp add: handleData_def Let_def CanPassTraffic_def)
  then show ?thesis
    using step_heard [OF Some _ _ q(1,2)] step_heard [OF Some _ _ q'(1,2)] by (metis login_step.Same)
qed

lemma step_Handle:
  assumes "master_ok m" "Parse j b = Inr msg" "Handle sha256 j m b from now salt = (m', out)"
  shows "login_step sha256 (ma_cfg m) msg from now out rid (mget (ma_peers m) rid) (mget (ma_peers m') rid)"
proof -
  have "login_step sha256 (ma_cfg m) msg from now (snd (Handle sha256 j m b from now salt)) rid (mget (ma_peers m) rid)
      (mget (ma_peers (fst (Handle sha256 j m b from now salt))) rid)"
    using assms(1,2)
    by (cases msg) (simp_all add: Handle_def step_handleLogin step_handleKey step_handleConfig step_handlePing
        step_handleData step_handleClose step_handleTalkerAlias login_step.Same)
  then show ?thesis using assms(3) by simp
qed

end
