(* ===== verification/Master_System.thy ===== *)
theory Master_System
  imports Master_Login
begin

text \<open>
  The master over time.  \<open>master_step\<close> is one call on a running master, with the history of the
  datagrams handled and what each gave; \<open>SetAccess\<close> and \<open>Expire\<close> are computed in closed form first.
  The system keeps two invariants: the tables are well formed and within their limits, and every
  challenge on record was sent, and every registration proved, at the address it is filed under.
\<close>

section \<open>SetAccess and Expire in closed form\<close>

lemma evict_banned_one [simp]:
  "ma_peers (evict_banned l kv m) = (if Allows l (fst kv) then ma_peers m else mdel (fst kv) (ma_peers m))"
  "ma_evicted (evict_banned l kv m) =
     ma_evicted m @ (if Allows l (fst kv) then [] else gone_event (snd kv) NoLongerPermitted)"
  by (cases kv; simp add: evict_banned_def Let_def)+

lemma evict_banned_peers:
  "ma_peers (fold (evict_banned l) kvs m) =
    filter (\<lambda>kv. Allows l (fst kv) \<or> fst kv \<notin> fst ` set kvs) (ma_peers m)"
proof (induction kvs arbitrary: m)
  case (Cons kv kvs)
  show ?case
    by (cases "Allows l (fst kv)") (auto simp: Cons.IH mdel_def filter_filter intro!: filter_cong)
qed simp

lemma evict_banned_events:
  "ma_evicted (fold (evict_banned l) kvs m) =
    ma_evicted m @ concat (map (\<lambda>kv. if Allows l (fst kv) then [] else gone_event (snd kv) NoLongerPermitted) kvs)"
  by (induction kvs arbitrary: m) auto

lemma evict_banned_frame [simp]:
  "ma_cfg (fold (evict_banned l) kvs m) = ma_cfg m" "ma_subscribers (fold (evict_banned l) kvs m) = ma_subscribers m"
  "ma_attachments (fold (evict_banned l) kvs m) = ma_attachments m" "ma_logins (fold (evict_banned l) kvs m) = ma_logins m"
  "ma_answeredUnregistered (fold (evict_banned l) kvs m) = ma_answeredUnregistered m"
  by (induction kvs arbitrary: m; auto simp: evict_banned_def Let_def split: prod.splits)+

lemma evict_banned_registry:
  "registry_ok l0 mx (ma_peers m) (ma_waiting m) \<Longrightarrow>
    registry_ok l0 mx (ma_peers (fold (evict_banned l) kvs m)) (ma_waiting (fold (evict_banned l) kvs m))"
proof (induction kvs arbitrary: m)
  case (Cons kv kvs)
  have "registry_ok l0 mx (ma_peers (evict_banned l kv m)) (ma_waiting (evict_banned l kv m))"
    using registry_forget [OF Cons.prems, of "fst kv"] Cons.prems
    by (cases kv) (simp add: evict_banned_def Let_def forget_def)
  then show ?case using Cons.IH by simp
qed simp

lemma SetAccess_peers: "ma_peers (Master_SetAccess m l) = filter (\<lambda>kv. Allows (al_Registration l) (fst kv)) (ma_peers m)"
  by (simp add: Master_SetAccess_def evict_banned_peers) (rule filter_cong, auto)

lemma SetAccess_cfg [simp]: "ma_cfg (Master_SetAccess m l) = (ma_cfg m)\<lparr>mc_Access := l\<rparr>"
  by (simp add: Master_SetAccess_def)

lemma registry_relist:
  assumes "registry_ok l0 mx ps w" "\<forall>kv \<in> set ps. Allows l (fst kv)"
  shows "registry_ok l mx ps w"
  using assms by (auto simp: registry_ok_def list_all_iff peer_ok_def)

lemma ok_SetAccess:
  assumes "master_ok m"
  shows "master_ok (Master_SetAccess m l)"
proof -
  let ?m = "m\<lparr>ma_cfg := (ma_cfg m)\<lparr>mc_Access := l\<rparr>\<rparr>"
  have "registry_ok (al_Registration (mc_Access (ma_cfg m))) (mc_MaxPeers (ma_cfg m)) (ma_peers ?m) (ma_waiting ?m)"
    using assms by (simp add: master_ok_def)
  from evict_banned_registry [OF this, of "al_Registration l" "ma_peers m", folded Master_SetAccess_def]
  have "registry_ok (al_Registration l) (mc_MaxPeers (ma_cfg m)) (ma_peers (Master_SetAccess m l))
      (ma_waiting (Master_SetAccess m l))"
    by (rule registry_relist) (auto simp: SetAccess_peers)
  then show ?thesis
    using assms by (simp add: master_ok_def) (simp add: Master_SetAccess_def)
qed

lemma remove_stale_peers:
  "ma_peers (fst (fold (remove_stale now) ids s)) = filter (\<lambda>kv. fst kv \<notin> set ids) (ma_peers (fst s))"
proof (induction ids arbitrary: s)
  case (Cons rid ids)
  have "ma_peers (fst (remove_stale now rid s)) = mdel rid (ma_peers (fst s))"
    by (cases s) (auto simp: remove_stale_def mdel_absent split: option.splits)
  then show ?case by (auto simp: Cons.IH mdel_def filter_filter intro!: filter_cong)
qed simp

lemma remove_stale_frame [simp]:
  "ma_cfg (fst (fold (remove_stale now) ids s)) = ma_cfg (fst s)"
  "ma_subscribers (fst (fold (remove_stale now) ids s)) = ma_subscribers (fst s)"
  "ma_attachments (fst (fold (remove_stale now) ids s)) = ma_attachments (fst s)"
  "ma_evicted (fst (fold (remove_stale now) ids s)) = ma_evicted (fst s)"
  by (induction ids arbitrary: s; auto simp: remove_stale_def split: prod.splits option.splits)+

lemma remove_stale_ok: "master_ok (fst s) \<Longrightarrow> master_ok (fst (fold (remove_stale now) ids s))"
proof (induction ids arbitrary: s)
  case (Cons rid ids)
  have "master_ok (fst (remove_stale now rid s))"
    using Cons.prems by (cases s) (auto simp: remove_stale_def ok_forget split: option.splits)
  then show ?case using Cons.IH by simp
qed simp

definition stale_reason :: "time \<Rightarrow> peer \<Rightarrow> event_reason" where
  "stale_reason now p = NoTrafficFor (Truncate (Idle p now) second)"

lemma remove_stale_events:
  "distinct ids \<Longrightarrow> snd (fold (remove_stale now) ids s) = snd s @ concat (map (\<lambda>rid. case mget (ma_peers (fst s)) rid of
     None \<Rightarrow> [] | Some p \<Rightarrow> gone_event p (stale_reason now p)) ids)"
proof (induction ids arbitrary: s)
  case (Cons rid ids)
  have "snd (remove_stale now rid s) = snd s @ (case mget (ma_peers (fst s)) rid of None \<Rightarrow> []
      | Some p \<Rightarrow> gone_event p (stale_reason now p))"
    by (cases s) (auto simp: remove_stale_def gone_event_def stale_reason_def split: option.splits)
  moreover have "mget (ma_peers (fst (remove_stale now rid s))) x = mget (ma_peers (fst s)) x" if "x \<in> set ids" for x
    using that Cons.prems by (cases s) (auto simp: remove_stale_def split: option.splits)
  ultimately show ?case using Cons by (simp cong: map_cong)
qed simp

text \<open>The sweep before the peers: lapsed lockouts, attachments and locations.\<close>

definition swept :: "master \<Rightarrow> time \<Rightarrow> master" where
  "swept m now = (let logins = expire (ma_logins m) now;
      m1 = m\<lparr>ma_logins := logins, ma_claimedIDs := msweep (\<lambda>a _. \<not> tracked logins a) (ma_claimedIDs m)\<rparr>
    in (fst (expireSubscribers (fst (expireAttachments m1 now)) now))\<lparr>ma_evicted := []\<rparr>)"

definition stale_ids :: "master \<Rightarrow> time \<Rightarrow> RepeaterID list" where
  "stale_ids m now = sort_by (\<lambda>a b. a < b) (map fst (filter (\<lambda>kv. peer_stale (ma_cfg m) now (snd kv)) (ma_peers m)))"

lemma swept_frame [simp]: "ma_cfg (swept m now) = ma_cfg m" "ma_peers (swept m now) = ma_peers m"
  "ma_waiting (swept m now) = ma_waiting m" "ma_evicted (swept m now) = []"
  "ma_answeredUnregistered (swept m now) = ma_answeredUnregistered m"
  by (simp_all add: swept_def Let_def expireSubscribers_def expireAttachments_def)

lemma Expire_shape: "Master_Expire m now = fold (remove_stale now) (stale_ids m now) (swept m now, ma_evicted m)"
  by (simp add: Master_Expire_def swept_def stale_ids_def Let_def expireSubscribers_def expireAttachments_def
      case_prod_unfold)

lemma ok_swept: "master_ok m \<Longrightarrow> master_ok (swept m now)"
  by (simp add: master_ok_def swept_def Let_def expireSubscribers_def expireAttachments_def throttle_ok_expire)

lemma ok_Expire: "master_ok m \<Longrightarrow> master_ok (fst (Master_Expire m now))"
  by (simp add: Expire_shape remove_stale_ok ok_swept)

lemma Expire_peers:
  assumes "mwf (ma_peers m)"
  shows "mget (ma_peers (fst (Master_Expire m now))) rid = (case mget (ma_peers m) rid of None \<Rightarrow> None
    | Some p \<Rightarrow> if peer_stale (ma_cfg m) now p then None else Some p)"
proof -
  have "rid \<in> set (stale_ids m now) \<longleftrightarrow> (\<exists>p. mget (ma_peers m) rid = Some p \<and> peer_stale (ma_cfg m) now p)"
    using mget_Some_iff [OF assms] by (force simp: stale_ids_def)
  moreover have "mget (filter (\<lambda>kv. fst kv \<notin> X) ps) rid = (if rid \<in> X then None else mget ps rid)" for X and ps :: "(RepeaterID, peer) gomap"
    by (induction ps) (auto simp: mget_def)
  ultimately show ?thesis by (auto simp: Expire_shape remove_stale_peers split: option.splits)
qed

section \<open>Steps and histories\<close>

record exchange =
  ex_Datagram :: "byte list"
  ex_From :: addr_port
  ex_Now :: time
  ex_Out :: outcome

inductive master_step :: "(byte list \<Rightarrow> byte list) \<Rightarrow> json \<Rightarrow> master \<times> exchange list \<Rightarrow> master \<times> exchange list \<Rightarrow> bool"
  for sha256 j where
  Handled: "Handle sha256 j m b from now salt = (m', out) \<Longrightarrow>
    master_step sha256 j (m, h) (m', \<lparr>ex_Datagram = b, ex_From = from, ex_Now = now, ex_Out = out\<rparr> # h)"
| Expired: "master_step sha256 j (m, h) (fst (Master_Expire m now), h)"
| AccessSet: "master_step sha256 j (m, h) (Master_SetAccess m l, h)"
| SubscriptionSet: "master_step sha256 j (m, h) (SetSubscription m cfg, h)"
| AttachmentsDropped: "master_step sha256 j (m, h) (fst (DropAttachments m rid), h)"
| Sent: "master_step sha256 j (m, h) (CountSent m rid, h)"

inductive_cases master_stepE: "master_step sha256 j (m, h) t"

definition master_init :: "master_config \<Rightarrow> master \<times> exchange list \<Rightarrow> bool" where
  "master_init cfg s \<longleftrightarrow> NewMaster cfg = Some (fst s) \<and> snd s = []"

text \<open>A challenge for an ID that was sent to an address, and an answer to one, later in the history.\<close>

definition challenged_in :: "json \<Rightarrow> exchange list \<Rightarrow> RepeaterID \<Rightarrow> addr_port \<Rightarrow> byte list \<Rightarrow> bool" where
  "challenged_in j h rid a s \<longleftrightarrow>
     (\<exists>x \<in> set h. ex_From x = a \<and> Parse j (ex_Datagram x) = Inr (Login rid) \<and> challenge a s (ex_Out x))"

fun proved :: "(byte list \<Rightarrow> byte list) \<Rightarrow> json \<Rightarrow> (time \<Rightarrow> RepeaterID \<Rightarrow> byte list option) \<Rightarrow> exchange list \<Rightarrow>
    RepeaterID \<Rightarrow> addr_port \<Rightarrow> bool" where
  "proved sha256 j pwd [] rid a = False"
| "proved sha256 j pwd (x # h) rid a \<longleftrightarrow> proved sha256 j pwd h rid a \<or>
     ex_From x = a \<and> (\<exists>s pw. challenged_in j h rid a s \<and> pwd (ex_Now x) rid = Some pw \<and>
       Parse j (ex_Datagram x) = Inr (Key rid (Digest sha256 s pw)))"

definition entry_ok :: "(byte list \<Rightarrow> byte list) \<Rightarrow> json \<Rightarrow> (time \<Rightarrow> RepeaterID \<Rightarrow> byte list option) \<Rightarrow> exchange list \<Rightarrow>
    RepeaterID \<Rightarrow> peer \<Rightarrow> bool" where
  "entry_ok sha256 j pwd h rid p \<longleftrightarrow>
     (if pe_State p = StateChallenged then challenged_in j h rid (pe_Addr p) (pe_Salt p)
      else proved sha256 j pwd h rid (pe_Addr p)) \<and>
     (\<forall>r \<in> set (pe_relogins p). challenged_in j h rid (rl_addr r) (rl_salt r))"

definition auth_inv :: "(byte list \<Rightarrow> byte list) \<Rightarrow> json \<Rightarrow> (time \<Rightarrow> RepeaterID \<Rightarrow> byte list option) \<Rightarrow>
    master \<times> exchange list \<Rightarrow> bool" where
  "auth_inv sha256 j pwd s \<longleftrightarrow> password_of (ma_cfg (fst s)) = pwd \<and>
     (\<forall>rid p. mget (ma_peers (fst s)) rid = Some p \<longrightarrow> entry_ok sha256 j pwd (snd s) rid p)"

lemma challenged_in_mono: "challenged_in j h rid a s \<Longrightarrow> challenged_in j (x # h) rid a s"
  by (auto simp: challenged_in_def)

lemma entry_ok_mono: "entry_ok sha256 j pwd h rid p \<Longrightarrow> entry_ok sha256 j pwd (x # h) rid p"
  by (auto simp: entry_ok_def challenged_in_mono split: if_splits)

lemma entry_ok_same: "same_login p q \<Longrightarrow> entry_ok sha256 j pwd h rid q = entry_ok sha256 j pwd h rid p"
  by (simp add: same_login_def entry_ok_def)

lemma set_offerRelogin: "r \<in> set (pe_relogins (offerRelogin p from s now tmo)) \<Longrightarrow>
    r \<in> set (pe_relogins p) \<or> r = \<lparr>rl_addr = from, rl_salt = s, rl_at = now\<rparr>"
  using set_mono_suffix [OF suffix_tl [of "filter (\<lambda>r. rl_addr r \<noteq> from \<and> Sub now (rl_at r) \<le> tmo) (pe_relogins p)"]]
  by (auto simp: offerRelogin_def Let_def split: if_splits)

lemma entry_ok_step:
  assumes "login_step sha256 cfg msg from now out rid e (Some q)"
    and e: "\<And>p. e = Some p \<Longrightarrow> entry_ok sha256 j (password_of cfg) h rid p"
    and x: "x = \<lparr>ex_Datagram = b, ex_From = from, ex_Now = now, ex_Out = out\<rparr>" "Parse j b = Inr msg"
  shows "entry_ok sha256 j (password_of cfg) (x # h) rid q"
proof -
  have new: "challenged_in j (x # h) rid from s" if "msg = Login rid" "challenge from s out" for s
    using that x by (auto simp: challenged_in_def)
  have old: "entry_ok sha256 j (password_of cfg) (x # h) rid p" if "e = Some p" for p
    using entry_ok_mono e that by blast
  have key: "proved sha256 j (password_of cfg) (x # h) rid from"
    if "msg = Key rid (Digest sha256 s pw)" "password_of cfg now rid = Some pw" "challenged_in j h rid from s" for s pw
    using that x by auto
  show ?thesis
    using assms(1)
  proof cases
    case (Begun s)
    then show ?thesis using new by (simp add: entry_ok_def new_peer_def)
  next
    case (Offered s p)
    then show ?thesis using new old [of p] by (auto simp: entry_ok_def dest!: set_offerRelogin)
  next
    case (Restarted s p)
    then show ?thesis using new old [of p] by (simp add: entry_ok_def)
  next
    case (Proved p pw)
    then show ?thesis using key [of "pe_Salt p" pw] e [of p] old [of p] by (simp add: entry_ok_def authenticated_def)
  next
    case (Succeeded dg p r rs)
    then show ?thesis using old [of p] by (simp add: entry_ok_def)
  next
    case (Spent dg rs p)
    then show ?thesis using old [of p] by (auto simp: entry_ok_def)
  next
    case (Moved r pw p)
    then have "challenged_in j h rid from (rl_salt r)" using e [of p] by (auto simp: entry_ok_def)
    then have "proved sha256 j (password_of cfg) (x # h) rid from" using Moved key by blast
    then show ?thesis using Moved by (simp add: entry_ok_def authenticated_def)
  next
    case (Configured c p at)
    then show ?thesis using old [of p] by (simp add: entry_ok_def)
  next
    case (Heard p)
    then show ?thesis using old [of p] entry_ok_same by blast
  qed (use old in auto)
qed

lemma master_init_ok:
  assumes "NewMaster cfg = Some m"
  shows "master_ok m" "ma_peers m = []" "password_of (ma_cfg m) = password_of cfg"
    "mc_MaxPeers (ma_cfg m) = (if mc_MaxPeers cfg \<le> 0 then DefaultMaxPeers else mc_MaxPeers cfg)"
proof -
  have "mwf (fold (\<lambda>a t. mput (fst (static_of a)) (snd (static_of a)) t) as t)" if "mwf t" for as t
    using that by (induction as arbitrary: t) auto
  then show "master_ok m" "ma_peers m = []" "password_of (ma_cfg m) = password_of cfg"
    "mc_MaxPeers (ma_cfg m) = (if mc_MaxPeers cfg \<le> 0 then DefaultMaxPeers else mc_MaxPeers cfg)"
    using assms throttle_ok_new
    by (auto simp: NewMaster_def seedStaticAttachments_def master_ok_def registry_ok_def with_defaults_def
        DefaultMaxPeers_def password_of_def fun_eq_iff split: option.splits)
qed

text \<open>What the other operations do to the entries: some go, the others stay as they were but for a count.\<close>

lemma ok_SetSubscription: "master_ok m \<Longrightarrow> master_ok (SetSubscription m cfg)"
proof -
  have "mwf (fold (\<lambda>a t. mput (fst (static_of a)) (snd (static_of a)) t) as t)" if "mwf t" for as t
    using that by (induction as arbitrary: t) auto
  then show "master_ok m \<Longrightarrow> master_ok (SetSubscription m cfg)"
    by (simp add: master_ok_def SetSubscription_def seedStaticAttachments_def Let_def)
qed

lemma ok_DropAttachments: "master_ok m \<Longrightarrow> master_ok (fst (DropAttachments m rid))"
  by (simp add: DropAttachments_def master_ok_def Let_def)

lemma same_login_sent [simp]: "same_login p (p\<lparr>pe_Sent := n\<rparr>)"
  by (simp add: same_login_def)

lemma ok_CountSent: "master_ok m \<Longrightarrow> master_ok (CountSent m rid)"
  by (auto simp: CountSent_def split: option.splits intro!: ok_heard intro: master_calls)

lemma quiet_step:
  assumes "master_step sha256 j (m, h) (m', h)" "master_ok m"
  shows "master_ok m'" "\<And>rid q. mget (ma_peers m') rid = Some q \<Longrightarrow>
      \<exists>p. mget (ma_peers m) rid = Some p \<and> same_login p q \<and> pe_LastHeard q = pe_LastHeard p"
    "password_of (ma_cfg m') = password_of (ma_cfg m)" "mc_MaxPeers (ma_cfg m') = mc_MaxPeers (ma_cfg m)"
proof -
  have wf: "mwf (ma_peers m)" using assms(2) by (simp add: master_ok_def registry_ok_def)
  have refl: "same_login p p" for p by (simp add: same_login_def)
  have filt: "mget (filter (\<lambda>kv. P (fst kv)) ps) rid = (if P rid then mget ps rid else None)" for P rid
    and ps :: "(RepeaterID, peer) gomap" by (induction ps) (auto simp: mget_def)
  have pw: "password_of (c\<lparr>mc_Access := l\<rparr>) = password_of c" "password_of (c\<lparr>mc_Subscription := su\<rparr>) = password_of c"
    for c l su by (auto simp: password_of_def fun_eq_iff)
  show "master_ok m'" using assms
    by (auto elim!: master_stepE simp: ok_Expire ok_SetAccess ok_SetSubscription ok_DropAttachments ok_CountSent)
  show "\<exists>p. mget (ma_peers m) rid = Some p \<and> same_login p q \<and> pe_LastHeard q = pe_LastHeard p"
    if "mget (ma_peers m') rid = Some q" for rid q
    using assms that
    by (auto elim!: master_stepE simp: Expire_peers [OF wf] SetAccess_peers filt refl SetSubscription_def Let_def
        seedStaticAttachments_def DropAttachments_def CountSent_def split: option.splits if_splits)
  show "password_of (ma_cfg m') = password_of (ma_cfg m)" "mc_MaxPeers (ma_cfg m') = mc_MaxPeers (ma_cfg m)"
    using assms(1)
    by (auto elim!: master_stepE simp: Expire_shape pw SetSubscription_def Let_def seedStaticAttachments_def
        DropAttachments_def CountSent_def split: option.splits)
qed

section \<open>The invariants hold in every reachable state\<close>

lemma frame_cfg [simp]:
  "ma_cfg (fst (begin_login m rid from now s)) = ma_cfg m" "ma_cfg (fst (repeat_login m p from now s)) = ma_cfg m"
  "ma_cfg (abandon m p) = ma_cfg m" "ma_cfg (m\<lparr>ma_waiting := w\<rparr>) = ma_cfg m"
  "ma_cfg (fst (accept_frame m p d now)) = ma_cfg m" "ma_cfg (fst (refuseSubscriber m p d)) = ma_cfg m"
  "ma_cfg (fst (shouldAnswerUnregistered m rid now)) = ma_cfg m"
  by (simp_all add: begin_login_def repeat_login_def abandon_def accept_frame_def refuseSubscriber_def
      shouldAnswerUnregistered_def Let_def case_prod_unfold split: list.split)

lemma handleReloginKey_cfg [simp]: "ma_cfg (fst (handleReloginKey sha256 m p rid dg from now)) = ma_cfg m"
  by (simp add: handleReloginKey_def Let_def case_prod_unfold split: option.split)

lemma Handle_cfg [simp]: "ma_cfg (fst (Handle sha256 j m b from now salt)) = ma_cfg m"
proof -
  have "ma_cfg (fst (handleData m d from now)) = ma_cfg m" for d
    using frame_cfg(7) [of m "d_RepeaterID d" now]
    by (auto simp: handleData_def Let_def simp del: frame_cfg(7) split: option.splits prod.splits bool.splits)
  moreover have "ma_cfg (fst (handleLogin m rid from now salt)) = ma_cfg m" for rid
    by (simp add: handleLogin_def Let_def split: option.split)
  ultimately show ?thesis
    by (simp add: Handle_def handleKey_def handleConfig_def handlePing_def handleClose_def handleTalkerAlias_def
        Let_def split: sum.split message.split option.split)
qed

definition master_inv :: "(byte list \<Rightarrow> byte list) \<Rightarrow> json \<Rightarrow> master_config \<Rightarrow> master \<times> exchange list \<Rightarrow> bool" where
  "master_inv sha256 j cfg s \<longleftrightarrow> master_ok (fst s) \<and> auth_inv sha256 j (password_of cfg) s \<and>
     mc_MaxPeers (ma_cfg (fst s)) = (if mc_MaxPeers cfg \<le> 0 then DefaultMaxPeers else mc_MaxPeers cfg)"

lemma auth_Handle:
  assumes "master_ok m" "auth_inv sha256 j pwd (m, h)" "Handle sha256 j m b from now salt = (m', out)"
  shows "auth_inv sha256 j pwd (m', \<lparr>ex_Datagram = b, ex_From = from, ex_Now = now, ex_Out = out\<rparr> # h)"
proof -
  have cfg: "ma_cfg m' = ma_cfg m" using Handle_cfg [of sha256 j m b "from" now salt] assms(3) by simp
  have pwd: "password_of (ma_cfg m) = pwd" using assms(2) by (simp add: auth_inv_def)
  have "entry_ok sha256 j pwd (\<lparr>ex_Datagram = b, ex_From = from, ex_Now = now, ex_Out = out\<rparr> # h) rid q"
    if q: "mget (ma_peers m') rid = Some q" for rid q
  proof (cases "Parse j b")
    case (Inl e)
    then have "m' = m" using assms(3) by (simp add: Handle_def)
    then show ?thesis using assms(2) q by (auto simp: auth_inv_def entry_ok_mono)
  next
    case (Inr msg)
    show ?thesis
      using entry_ok_step [OF step_Handle [OF assms(1) Inr assms(3), of rid, unfolded q], of j h] assms(2) Inr pwd
      by (auto simp: auth_inv_def)
  qed
  then show ?thesis using cfg pwd by (simp add: auth_inv_def)
qed

interpretation master_system: safe_system "master_init cfg" "master_step sha256 j" "master_inv sha256 j cfg"
  for cfg sha256 j
proof
  show "master_inv sha256 j cfg s" if "master_init cfg s" for s
    using that master_init_ok [of cfg "fst s"] by (simp add: master_init_def master_inv_def auth_inv_def)
next
  fix s t assume inv: "master_inv sha256 j cfg s" and st: "master_step sha256 j s t"
  obtain m h where s: "s = (m, h)" by fastforce
  have ok: "master_ok m" using inv s by (simp add: master_inv_def)
  show "master_inv sha256 j cfg t"
  proof (cases "snd t = h")
    case True
    then obtain m' where t: "t = (m', h)" by (cases t) auto
    note q = quiet_step [OF st [unfolded s t] ok]
    show ?thesis
      using inv q entry_ok_same unfolding s t master_inv_def auth_inv_def by fastforce
  next
    case False
    then obtain b "from" now salt m' out where
      hd: "Handle sha256 j m b from now salt = (m', out)"
      "t = (m', \<lparr>ex_Datagram = b, ex_From = from, ex_Now = now, ex_Out = out\<rparr> # h)"
      using st s by (auto elim!: master_stepE)
    then show ?thesis
      using inv auth_Handle [OF ok _ hd(1), of "password_of cfg" h] ok_Handle [OF ok, of sha256 j b "from" now salt]
        Handle_cfg [of sha256 j m b "from" now salt] by (simp add: master_inv_def s)
  qed
qed

section \<open>A run\<close>

text \<open>
  A concrete master for the witnesses: one shared password, at most two stations, and a stand-in for
  SHA-256 that pads to 32 bytes.  Station 7 logs in, and answers its challenge.
\<close>

definition demo_sha :: "byte list \<Rightarrow> byte list" where
  "demo_sha b = take 32 (b @ replicate 32 0)"

definition demo_json :: json where
  "demo_json = \<lparr>json_Marshal = (\<lambda>_. None), json_Unmarshal = (\<lambda>_. None)\<rparr>"

definition demo_lists :: access_lists where
  "demo_lists = \<lparr>al_Registration = zero_acl, al_Subscriber = zero_acl, al_Talkgroup1 = zero_acl, al_Talkgroup2 = zero_acl\<rparr>"

definition demo_cfg :: master_config where
  "demo_cfg = \<lparr>mc_Password = Some (\<lambda>_ _. Some [1, 2, 3]), mc_PeerTimeout = 0, mc_MaxLoginFailures = 0,
     mc_LoginLockout = 0, mc_LoginTimeout = 0, mc_MaxPeers = 2, mc_SubscriberTimeout = 0,
     mc_Subscription = \<lparr>su_Enabled = True, su_Timeout = 0, su_Static = []\<rparr>, mc_Access = demo_lists,
     mc_Identity = None, mc_IsQSPLink = None, mc_OwnPassword = None\<rparr>"

definition demo_addr :: "u32 \<Rightarrow> addr_port" where
  "demo_addr a = \<lparr>ap_Addr = IPv4 a, ap_Port = 62030\<rparr>"

fun serve :: "(byte list \<times> addr_port \<times> time \<times> byte list option) list \<Rightarrow> master \<times> exchange list \<Rightarrow> master \<times> exchange list" where
  "serve [] s = s"
| "serve ((b, a, now, salt) # ds) (m, h) =
     (case Handle demo_sha demo_json m b a now salt of
        (m', out) \<Rightarrow> serve ds (m', \<lparr>ex_Datagram = b, ex_From = a, ex_Now = now, ex_Out = out\<rparr> # h))"

definition demo_start :: "master \<times> exchange list" where
  "demo_start = (the (NewMaster demo_cfg), [])"

definition demo_login :: "(byte list \<times> addr_port \<times> time \<times> byte list option) list" where
  "demo_login = [(Login_AppendTo 7, demo_addr 1, 10, Some [9, 8, 7, 6]),
     (Key_AppendTo 7 (demo_sha [9, 8, 7, 6, 1, 2, 3]), demo_addr 1, 20, None)]"

definition demo_system :: "master \<times> exchange list" where
  "demo_system = serve demo_login demo_start"

lemma serve_reachable: "reachable init (master_step demo_sha demo_json) s \<Longrightarrow>
    reachable init (master_step demo_sha demo_json) (serve ds s)"
proof (induction ds s rule: serve.induct)
  case (2 b a now salt ds m h)
  obtain m' out where "Handle demo_sha demo_json m b a now salt = (m', out)" by fastforce
  with 2 show ?case by (auto intro: reachable.step master_step.Handled)
qed simp

lemma demo_reachable: "reachable (master_init demo_cfg) (master_step demo_sha demo_json) demo_system"
  unfolding demo_system_def
  by (intro serve_reachable reachable.start) (simp add: master_init_def demo_start_def NewMaster_def demo_cfg_def)

lemma demo_entry: "map_option (\<lambda>p. (pe_State p, pe_Addr p)) (mget (ma_peers (fst demo_system)) 7) =
    Some (StateAuthenticated, demo_addr 1)"
  by code_simp

lemma Parse_Login: "Parse j (Login_AppendTo rid) = Inr (Login rid)"
  using homebrew.parse_marshal [of "Login rid" j] by (simp add: wf_message_def Marshal_def)

section \<open>Properties\<close>

text \<open>
  C9: In every reachable state of a master the number of stations it counts is the number of entries
  past their challenge, and it is within the configured limit (or the default); every entry is filed
  under its own ID, that ID is neither 0 nor the server's own, the registration list permits it, and
  the challenges and open calls kept for it are bounded.
\<close>

theorem registry_within_limits:
  assumes "reachable (master_init cfg) (master_step sha256 j) (m, h)"
  shows "stations m = int (length (filter (\<lambda>kv. pe_State (snd kv) \<noteq> StateChallenged) (ma_peers m))) \<and>
    stations m \<le> (if mc_MaxPeers cfg \<le> 0 then DefaultMaxPeers else mc_MaxPeers cfg) \<and>
    list_all (\<lambda>(rid, p). pe_ID p = rid \<and> rid \<noteq> 0 \<and> rid \<noteq> ServerOrigin \<and>
      Allows (al_Registration (mc_Access (ma_cfg m))) rid \<and> length (pe_relogins p) \<le> maxRelogins \<and>
      length (pe_calls1 p) \<le> maxOpenCalls \<and> length (pe_calls2 p) \<le> maxOpenCalls) (ma_peers m)"
proof -
  have inv: "registry_ok (al_Registration (mc_Access (ma_cfg m))) (mc_MaxPeers (ma_cfg m)) (ma_peers m) (ma_waiting m)"
    "mc_MaxPeers (ma_cfg m) = (if mc_MaxPeers cfg \<le> 0 then DefaultMaxPeers else mc_MaxPeers cfg)"
    using master_system.reachable_inv [OF assms] by (auto simp: master_inv_def master_ok_def)
  have "length (filter is_challenged ps) + length (filter (\<lambda>kv. pe_State (snd kv) \<noteq> StateChallenged) ps) = length ps" for ps
    using sum_length_filter_compl [of is_challenged ps] by (simp add: is_challenged_def)
  from this [of "ma_peers m"] show ?thesis
    using inv by (auto simp: registry_ok_def stations_def list_all_iff peer_ok_def)
qed

theorem registry_within_limits_witness:
  "stations (fst demo_system) \<le> 2 \<and>
    list_all (\<lambda>(rid, p). Allows (al_Registration (mc_Access (ma_cfg (fst demo_system)))) rid) (ma_peers (fst demo_system))"
  using registry_within_limits [of demo_cfg demo_sha demo_json "fst demo_system" "snd demo_system"] demo_reachable
  by (auto simp: demo_cfg_def list_all_iff)

text \<open>
  C8: Handling a datagram refines the login state machine: a datagram that does not parse changes
  nothing, and any other takes the entry of every repeater ID through one transition of
  \<open>login_step\<close>, for the message it carries and the address it came from.
\<close>

theorem Handle_refines_login_machine:
  assumes "reachable (master_init cfg) (master_step sha256 j) (m, h)"
    and "Handle sha256 j m b from now salt = (m', out)"
  shows "case Parse j b of Inl e \<Rightarrow> m' = m \<and> out = dropped (Unparseable e)
    | Inr msg \<Rightarrow> \<forall>rid. login_step sha256 (ma_cfg m) msg from now out rid (mget (ma_peers m) rid) (mget (ma_peers m') rid)"
proof (cases "Parse j b")
  case (Inl e)
  then show ?thesis using assms(2) by (simp add: Handle_def)
next
  case (Inr msg)
  have "master_ok m" using master_system.reachable_inv [OF assms(1)] by (simp add: master_inv_def)
  then show ?thesis using step_Handle Inr assms(2) by simp
qed

theorem Handle_refines_login_machine_witness:
  "\<exists>out. login_step demo_sha (ma_cfg (fst demo_system)) (Login 9) (demo_addr 2) 40 out 9
    (mget (ma_peers (fst demo_system)) 9)
    (mget (ma_peers (fst (Handle demo_sha demo_json (fst demo_system) (Login_AppendTo 9) (demo_addr 2) 40 (Some [1, 1, 1, 1])))) 9)"
proof -
  obtain m' out where h: "Handle demo_sha demo_json (fst demo_system) (Login_AppendTo 9) (demo_addr 2) 40 (Some [1, 1, 1, 1]) = (m', out)"
    by fastforce
  from demo_reachable have "reachable (master_init demo_cfg) (master_step demo_sha demo_json) (fst demo_system, snd demo_system)"
    by simp
  from Handle_refines_login_machine [OF this h] show ?thesis
    unfolding h Parse_Login by auto
qed

text \<open>
  C7: A registration past its challenge is out of reach of every other address.  A datagram from
  elsewhere leaves all of it as it was but for the list of challenges issued beside it, unless it
  answers, with the right digest, a challenge for that ID that was sent to that very address.
\<close>

theorem registration_stands:
  assumes "reachable (master_init cfg) (master_step sha256 j) (m, h)"
    and "mget (ma_peers m) rid = Some p" "pe_State p \<noteq> StateChallenged" "pe_Addr p \<noteq> from"
    and "Handle sha256 j m b from now salt = (m', out)"
  shows "(\<exists>rs. mget (ma_peers m') rid = Some (p\<lparr>pe_relogins := rs\<rparr>)) \<or>
    (\<exists>s pw. challenged_in j h rid from s \<and> password_of cfg now rid = Some pw \<and>
      Parse j b = Inr (Key rid (Digest sha256 s pw)) \<and>
      mget (ma_peers m') rid = Some ((authenticated p now)\<lparr>pe_Addr := from, pe_relogins := []\<rparr>))"
proof -
  have same: "p = p\<lparr>pe_relogins := pe_relogins p\<rparr>" by simp
  have inv: "master_ok m" "entry_ok sha256 j (password_of cfg) h rid p" "password_of (ma_cfg m) = password_of cfg"
    using master_system.reachable_inv [OF assms(1)] assms(2) by (auto simp: master_inv_def auth_inv_def)
  show ?thesis
  proof (cases "Parse j b")
    case (Inl e)
    then have "m' = m" using assms(5) by (simp add: Handle_def)
    then show ?thesis using assms(2) same by metis
  next
    case (Inr msg)
    have offer: "\<exists>rs. offerRelogin p from s now tmo = p\<lparr>pe_relogins := rs\<rparr>" for s tmo
      by (auto simp: offerRelogin_def Let_def)
    show ?thesis
      using step_Handle [OF inv(1) Inr assms(5), of rid] unfolding assms(2)
    proof cases
      case Same
      then show ?thesis using same by metis
    next
      case (Offered s)
      then show ?thesis using offer by metis
    next
      case (Moved r pw)
      then show ?thesis using inv(2,3) Inr by (auto simp: entry_ok_def split: if_splits)
    qed (use assms(3,4) in auto)
  qed
qed

theorem registration_stands_witness:
  "\<exists>p rs. mget (ma_peers (fst demo_system)) 7 = Some p \<and> mget (ma_peers (fst (Handle demo_sha demo_json (fst demo_system)
    (Login_AppendTo 7) (demo_addr 2) 40 (Some [1, 1, 1, 1])))) 7 = Some (p\<lparr>pe_relogins := rs\<rparr>)"
proof -
  obtain p where p: "mget (ma_peers (fst demo_system)) 7 = Some p" "pe_State p = StateAuthenticated" "pe_Addr p = demo_addr 1"
    using demo_entry by auto
  obtain m' out where h: "Handle demo_sha demo_json (fst demo_system) (Login_AppendTo 7) (demo_addr 2) 40 (Some [1, 1, 1, 1]) = (m', out)"
    by fastforce
  have "demo_addr 1 \<noteq> demo_addr 2" by (simp add: demo_addr_def)
  then have "\<exists>rs. mget (ma_peers m') 7 = Some (p\<lparr>pe_relogins := rs\<rparr>)"
    using registration_stands [of demo_cfg demo_sha demo_json "fst demo_system" "snd demo_system", OF _ p(1) _ _ h] demo_reachable p
    unfolding Parse_Login by simp
  then show ?thesis unfolding h using p(1) by simp
qed

text \<open>
  C6: In every reachable state, an entry past its challenge stands at an address that answered a
  challenge for that very ID, issued to that very address earlier in the history, with the digest of
  that challenge's salt and the password configured for the ID at the time of the answer.
\<close>

theorem registered_address_proved:
  assumes "reachable (master_init cfg) (master_step sha256 j) (m, h)"
    and "mget (ma_peers m) rid = Some p" "pe_State p \<noteq> StateChallenged"
  shows "proved sha256 j (password_of cfg) h rid (pe_Addr p)"
  using master_system.reachable_inv [OF assms(1)] assms(2,3)
  by (auto simp: master_inv_def auth_inv_def entry_ok_def)

theorem registered_address_proved_witness:
  "proved demo_sha demo_json (password_of demo_cfg) (snd demo_system) 7 (demo_addr 1)"
proof -
  obtain p where p: "mget (ma_peers (fst demo_system)) 7 = Some p" "pe_State p = StateAuthenticated" "pe_Addr p = demo_addr 1"
    using demo_entry by auto
  show ?thesis
    using registered_address_proved [of demo_cfg demo_sha demo_json "fst demo_system" "snd demo_system", OF _ p(1)]
      demo_reachable p by simp
qed

end
