(* ===== verification/Master_Tables.thy ===== *)
theory Master_Tables
  imports Master_System
begin

text \<open>
  What the master answers and what it learns: where its responses go, which frames it accepts, the
  location and the attachment a frame leaves behind, and what the sweep, a ban and an unlink remove.
\<close>

section \<open>Interfaces\<close>

interpretation locations: go_less "\<lambda>a b. lo_Subscriber a < lo_Subscriber b"
  by unfold_locales auto

interpretation repeaters: go_less "\<lambda>a b :: RepeaterID. a < b"
  by unfold_locales auto

interpretation peer_views: go_less "\<lambda>a b. pe_ID a < pe_ID b"
  by unfold_locales auto

interpretation attachment_order: go_less attachment_before
  by unfold_locales (auto simp: attachment_before_def split: if_splits)

interpretation lapsed_order: go_less lapsed_before
  by unfold_locales (auto simp: lapsed_before_def split: if_splits)

interpretation attached: expiring_table "\<lambda>m k. mget (ma_attachments m) k" "\<lambda>now m. fst (expireAttachments m now)"
  "\<lambda>m now k a. \<not> at_Static a \<and> Sub now (at_LastUsed a) > su_Timeout (mc_Subscription (ma_cfg m))" "\<lambda>m. mwf (ma_attachments m)"
  by unfold_locales
    (auto simp: expireAttachments_def Let_def mget_msweep fun_eq_iff dest: Sub_mono intro: less_le_trans split: option.split)

interpretation located: expiring_table "\<lambda>m k. mget (ma_subscribers m) k" "\<lambda>now m. fst (expireSubscribers m now)"
  "\<lambda>m now k l. Location_Idle l now > mc_SubscriberTimeout (ma_cfg m)" "\<lambda>m. mwf (ma_subscribers m)"
  by unfold_locales
    (auto simp: expireSubscribers_def Let_def Location_Idle_def mget_msweep fun_eq_iff dest: Sub_mono intro: less_le_trans
      split: option.split)

section \<open>Responses\<close>

definition to_sender :: "addr_port \<Rightarrow> outcome \<Rightarrow> bool" where
  "to_sender a out \<longleftrightarrow> list_all (\<lambda>r. re_To r = a) (ou_Responses out) \<and> length (ou_Responses out) \<le> 1"

lemma to_sender_simps [simp]: "to_sender a (dropped r)" "to_sender a (answer a b)" "to_sender a (reject rid a r)"
  "to_sender a zero_outcome" "to_sender a (zero_outcome\<lparr>ou_Data := d, ou_From := f\<rparr>)"
  "to_sender a (zero_outcome\<lparr>ou_Events := es\<rparr>)"
  by (simp_all add: to_sender_def dropped_def answer_def reject_def zero_outcome_def)

lemma to_sender_login: "to_sender from (snd (handleLogin m rid from now salt))"
  by (simp add: handleLogin_def begin_login_def repeat_login_def Let_def split: option.split)

lemma to_sender_key: "to_sender from (snd (handleKey sha256 m rid dg from now))"
  by (simp add: handleKey_def handleReloginKey_def Let_def case_prod_unfold split: option.split)

lemma to_sender_data: "to_sender from (snd (handleData m d from now))"
  by (simp add: handleData_def accept_frame_def refuseSubscriber_def Let_def case_prod_unfold split: option.split bool.split)

lemma to_sender_others: "to_sender from (snd (handlePing m rid from now))" "to_sender from (snd (handleTalkerAlias m rid from now))"
  "to_sender from (snd (handleClose m rid from))"
  by (simp_all add: handlePing_def handleTalkerAlias_def handleClose_def split: option.split)

section \<open>Frames\<close>

lemma handleData_accepts:
  assumes "master_ok m"
  shows "ou_Data (snd (handleData m d from now)) \<noteq> None \<longleftrightarrow> (\<exists>p. mget (ma_peers m) (d_RepeaterID d) = Some p \<and>
      pe_State p = StateConfigured \<and> pe_Addr p = from \<and> Allows (al_Subscriber (mc_Access (ma_cfg m))) (d_SourceID d))"
  by (auto simp: handleData_def accept_frame_def refuseSubscriber_def Let_def case_prod_unfold CanPassTraffic_def
      dropped_def reject_def zero_outcome_def split: option.split bool.split)

lemma no_data: "ou_Data (snd (handleLogin m rid from now salt)) = None" "ou_Data (snd (handleKey sha256 m rid dg from now)) = None"
  "ou_Data (snd (handleConfig j m c from now)) = None" "ou_Data (snd (handlePing m rid from now)) = None"
  "ou_Data (snd (handleTalkerAlias m rid from now)) = None" "ou_Data (snd (handleClose m rid from)) = None"
  by (simp_all add: handleLogin_def begin_login_def repeat_login_def handleKey_def handleReloginKey_def handleConfig_def
      handlePing_def handleTalkerAlias_def handleClose_def Let_def case_prod_unfold dropped_def reject_def answer_def
      zero_outcome_def split: option.split)

text \<open>What an accepted frame leaves in the tables.\<close>

lemma attach_Attached: "0 \<le> su_Timeout (mc_Subscription (ma_cfg m)) \<Longrightarrow> Attached (attach m pid g t now) now pid g t"
  by (simp add: Attached_def attach_def Let_def split: option.split)

lemma accept_frame_learns:
  assumes ok: "master_ok m" and p: "mget (ma_peers m) rid = Some p" "pe_State p = StateConfigured"
    and "0 \<le> mc_SubscriberTimeout (ma_cfg m)" "0 \<le> su_Timeout (mc_Subscription (ma_cfg m))"
    and acc: "accept_frame m (p\<lparr>pe_LastHeard := now\<rparr>) d now = (m', out)"
  shows "\<exists>f. ou_Data out = Some f \<and> ou_From out = rid \<and>
    (d_SourceID f \<noteq> 0 \<longrightarrow> LocateFor m' now (d_SourceID f) = Some (rid, d_Timeslot f)) \<and>
    (d_CallType f = CallGroup \<longrightarrow> Attached m' now rid (d_TargetID f) (d_Timeslot f))"
proof -
  let ?p = "p\<lparr>pe_LastHeard := now\<rparr>"
  obtain p1 f b where c: "continuing ?p d now (\<not> isLinkedServer m ?p) = (p1, f, b)"
    by (cases "continuing ?p d now (\<not> isLinkedServer m ?p)") auto
  have rid: "pe_ID p = rid" using ok p by simp
  obtain q where q: "same_login p q" "ma_peers m' = mput rid q (ma_peers m)"
    using accept_frame_peer [OF ok p(1), of now d] acc by (metis fst_conv)
  have out: "ou_Data out = Some f" "ou_From out = rid"
    using acc rid unfolding accept_frame_shape [OF c] Let_def by auto
  have subs: "\<exists>l. mget (ma_subscribers m') (d_SourceID f) = Some l \<and>
      lo_Peer l = rid \<and> lo_Timeslot l = d_Timeslot f \<and> lo_LastHeard l = now" if "d_SourceID f \<noteq> 0"
    using acc rid that unfolding accept_frame_shape [OF c] Let_def
    by (auto simp: observe_def attach_def Let_def split: if_splits option.splits)
  have cfg: "ma_cfg m' = ma_cfg m" using frame_cfg(5) [of m ?p d now] acc by simp
  have "LocateFor m' now (d_SourceID f) = Some (rid, d_Timeslot f)" if "d_SourceID f \<noteq> 0"
    using subs that assms(4) q p(2) cfg
    by (auto simp: LocateFor_def locate_def Location_Idle_def same_login_def CanPassTraffic_def split: option.splits)
  moreover have "Attached m' now rid (d_TargetID f) (d_Timeslot f)" if "d_CallType f = CallGroup"
    using acc rid that assms(5) unfolding accept_frame_shape [OF c] Let_def by (auto intro!: attach_Attached)
  ultimately show ?thesis using out by blast
qed

section \<open>Properties\<close>

text \<open>
  Every response goes to the address the datagram came from, so nobody can have the master write
  to a third party.  A datagram draws at most one response, unless it completes the registration of
  a peer that announces itself as a QSP server and logged in with a password of its own: then the
  acknowledgement is followed by this server's identity, and that is the only time it is sent.
\<close>

lemma responses_to_sender:
  assumes "Handle sha256 j m b from now salt = (m', out)"
  shows "list_all (\<lambda>r. re_To r = from) (ou_Responses out) \<and>
    (length (ou_Responses out) \<le> 1 \<or>
     (\<exists>c p isLink own ident. Parse j b = Inr (Config c) \<and> mget (ma_peers m) (c_RepeaterID c) = Some p \<and>
       pe_State p \<noteq> StateChallenged \<and> pe_Addr p = from \<and> mc_IsQSPLink (ma_cfg m) = Some isLink \<and> isLink c \<and>
       mc_OwnPassword (ma_cfg m) = Some own \<and> own now (c_RepeaterID c) \<and> mc_Identity (ma_cfg m) = Some ident \<and>
       map re_Payload (ou_Responses out) = [Ack_AppendTo (putRepeaterID (c_RepeaterID c)),
         Identity_AppendTo j ((ident now)\<lparr>i_RepeaterID := c_RepeaterID c\<rparr>)]))"
proof (cases "\<exists>c. Parse j b = Inr (Config c)")
  case True
  then obtain c where "Parse j b = Inr (Config c)" by blast
  then show ?thesis using assms
    by (auto simp: Handle_def handleConfig_def identity_reply_def Let_def dropped_def zero_outcome_def
        split: option.splits if_splits)
next
  case False
  then have "to_sender from (snd (Handle sha256 j m b from now salt))"
    by (auto simp: Handle_def to_sender_login to_sender_key to_sender_data to_sender_others split: sum.split message.split)
  then show ?thesis using assms by (simp add: to_sender_def)
qed

lemma responses_to_sender_witness:
  "list_all (\<lambda>r. re_To r = demo_addr 2)
    (ou_Responses (snd (Handle demo_sha demo_json (fst demo_system) (Ping_AppendTo 7) (demo_addr 2) 40 None)))"
  using responses_to_sender [of demo_sha demo_json "fst demo_system" "Ping_AppendTo 7" "demo_addr 2" 40 None
      "fst (Handle demo_sha demo_json (fst demo_system) (Ping_AppendTo 7) (demo_addr 2) 40 None)"
      "snd (Handle demo_sha demo_json (fst demo_system) (Ping_AppendTo 7) (demo_addr 2) 40 None)"]
  unfolding prod.collapse by blast

text \<open>A master with station 7 configured, for the witnesses about frames.\<close>

definition demo_station :: peer where
  "demo_station = (new_peer 7 (demo_addr 1) zero_salt 10)\<lparr>pe_State := StateConfigured\<rparr>"

definition demo_master :: master where
  "demo_master = put_peer demo_station (the (NewMaster demo_cfg))"

definition station_frame :: hbp_data where
  "station_frame = \<lparr>d_Sequence = 0, d_SourceID = 3120001, d_TargetID = 91, d_RepeaterID = 7, d_Timeslot = Timeslot2,
     d_CallType = CallGroup, d_FrameType = FrameTypeVoice, d_DataType = 0, d_StreamID = 5,
     d_Payload = replicate 33 0, d_Trailing = []\<rparr>"

lemma demo_Parse: "Parse j (Data_AppendTo station_frame) = Inr (Data station_frame)"
  using homebrew.parse_marshal [of "Data station_frame" j] by (simp add: wf_message_def Marshal_def wf_data_def station_frame_def)

lemma demo_master_ok: "master_ok demo_master"
  by code_simp

text \<open>
  C21: The frames a master accepts are exactly the data frames that name a configured peer, come
  from the address that peer registered from, and carry a source the subscriber list permits when
  they arrive; an accepted frame is attributed to that peer.
\<close>

theorem frames_only_from_registered:
  assumes "master_ok m" "Handle sha256 j m b from now salt = (m', out)"
  shows "(ou_Data out \<noteq> None \<longleftrightarrow> (\<exists>d p. Parse j b = Inr (Data d) \<and> mget (ma_peers m) (d_RepeaterID d) = Some p \<and>
      pe_State p = StateConfigured \<and> pe_Addr p = from \<and> Allows (al_Subscriber (mc_Access (ma_cfg m))) (d_SourceID d))) \<and>
    (ou_Data out = None \<or> (\<exists>d. Parse j b = Inr (Data d) \<and> ou_From out = d_RepeaterID d \<and> ou_Dropped out = None))"
proof (cases "\<exists>d. Parse j b = Inr (Data d)")
  case True
  then obtain d where d: "Parse j b = Inr (Data d)" by blast
  then have hd: "handleData m d from now = (m', out)" using assms(2) by (simp add: Handle_def)
  have "ou_From out = d_RepeaterID d \<and> ou_Dropped out = None" if acc: "ou_Data out \<noteq> None"
  proof -
    obtain p where p: "mget (ma_peers m) (d_RepeaterID d) = Some p" "pe_State p = StateConfigured" "pe_Addr p = from"
        "Allows (al_Subscriber (mc_Access (ma_cfg m))) (d_SourceID d)"
      using handleData_accepts [OF assms(1), of d "from" now] hd acc by auto
    then show ?thesis using hd assms(1)
      by (auto simp: handleData_def accept_frame_def CanPassTraffic_def Let_def case_prod_unfold zero_outcome_def)
  qed
  then show ?thesis using handleData_accepts [OF assms(1), of d "from" now] hd d by auto
next
  case False
  then have "ou_Data (snd (Handle sha256 j m b from now salt)) = None"
    by (auto simp: Handle_def no_data dropped_def zero_outcome_def split: sum.split message.split)
  then show ?thesis using False assms(2) by auto
qed

theorem frames_only_from_registered_witness:
  "ou_Data (snd (Handle demo_sha demo_json demo_master (Data_AppendTo station_frame) (demo_addr 1) 40 None)) \<noteq> None \<and>
   ou_Data (snd (Handle demo_sha demo_json demo_master (Data_AppendTo station_frame) (demo_addr 2) 40 None)) = None"
proof -
  have p: "mget (ma_peers demo_master) 7 = Some demo_station" "Allows (al_Subscriber (mc_Access (ma_cfg demo_master))) 3120001"
    by code_simp+
  have a: "pe_State demo_station = StateConfigured" "pe_Addr demo_station = demo_addr 1" "demo_addr 1 \<noteq> demo_addr 2"
    by (simp_all add: demo_station_def new_peer_def demo_addr_def)
  have f: "d_RepeaterID station_frame = 7" "d_SourceID station_frame = 3120001" by (simp_all add: station_frame_def)
  show ?thesis
    using frames_only_from_registered [OF demo_master_ok surjective_pairing, of demo_sha demo_json "Data_AppendTo station_frame" "demo_addr 1" 40 None]
      frames_only_from_registered [OF demo_master_ok surjective_pairing, of demo_sha demo_json "Data_AppendTo station_frame" "demo_addr 2" 40 None]
    unfolding demo_Parse by (simp add: p a f)
qed

text \<open>
  What a frame teaches takes effect at once: as soon as a frame is accepted, the radio it came
  from is located at the peer and the slot it was heard on, and, for a group call, that peer
  receives that talkgroup on that slot.
\<close>

lemma accepted_frame_is_learned:
  assumes "master_ok m" "Handle sha256 j m b from now salt = (m', out)" "ou_Data out = Some f"
    and "0 \<le> mc_SubscriberTimeout (ma_cfg m)" "0 \<le> su_Timeout (mc_Subscription (ma_cfg m))"
  shows "(d_SourceID f = 0 \<or> LocateFor m' now (d_SourceID f) = Some (ou_From out, d_Timeslot f)) \<and>
    (d_CallType f = CallGroup \<longrightarrow> Attached m' now (ou_From out) (d_TargetID f) (d_Timeslot f))"
proof -
  obtain d p where d: "Parse j b = Inr (Data d)" and p: "mget (ma_peers m) (d_RepeaterID d) = Some p"
      "pe_State p = StateConfigured" "pe_Addr p = from" "Allows (al_Subscriber (mc_Access (ma_cfg m))) (d_SourceID d)"
  proof (cases "\<exists>d. Parse j b = Inr (Data d)")
    case True
    then show ?thesis using that handleData_accepts [OF assms(1), of _ "from" now] assms(2,3)
      by (fastforce simp: Handle_def)
  next
    case False
    then have "ou_Data (snd (Handle sha256 j m b from now salt)) = None"
      by (auto simp: Handle_def no_data dropped_def zero_outcome_def split: sum.split message.split)
    then show ?thesis using assms(2,3) by simp
  qed
  have "accept_frame m (p\<lparr>pe_LastHeard := now\<rparr>) d now = (m', out)"
    using assms(2) d p by (simp add: Handle_def handleData_def CanPassTraffic_def Let_def)
  from accept_frame_learns [OF assms(1) p(1,2) assms(4,5) this] assms(3) show ?thesis by auto
qed

lemma accepted_frame_is_learned_witness:
  "LocateFor (fst (Handle demo_sha demo_json demo_master (Data_AppendTo station_frame) (demo_addr 1) 40 None)) 40 3120001 =
    Some (7, Timeslot2)"
proof -
  have h: "map_option (\<lambda>f. (d_SourceID f, d_Timeslot f)) (ou_Data (snd (Handle demo_sha demo_json demo_master
      (Data_AppendTo station_frame) (demo_addr 1) 40 None))) = Some (3120001, Timeslot2)"
    "ou_From (snd (Handle demo_sha demo_json demo_master (Data_AppendTo station_frame) (demo_addr 1) 40 None)) = 7"
    "0 \<le> mc_SubscriberTimeout (ma_cfg demo_master)" "0 \<le> su_Timeout (mc_Subscription (ma_cfg demo_master))"
    by code_simp+
  then obtain f where f: "ou_Data (snd (Handle demo_sha demo_json demo_master (Data_AppendTo station_frame) (demo_addr 1) 40 None)) = Some f"
      "d_SourceID f = 3120001" "d_Timeslot f = Timeslot2" by auto
  show ?thesis
    using accepted_frame_is_learned [OF demo_master_ok surjective_pairing f(1) h(3,4)] f h(2) by simp
qed

text \<open>
  One sweep removes exactly the registrations that have been silent for longer than they may
  (the peer timeout once configured, the login timeout before), touches no other, and reports
  exactly the configured ones among them, together with the peers a ban has removed since the last
  sweep, once.
\<close>

lemma Master_Expire_exact:
  assumes "master_ok m" "Master_Expire m now = (m', evs)"
  shows "(\<forall>rid. mget (ma_peers m') rid = (case mget (ma_peers m) rid of None \<Rightarrow> None
      | Some p \<Rightarrow> if Sub now (pe_LastHeard p) > (if pe_State p = StateConfigured then mc_PeerTimeout (ma_cfg m)
          else mc_LoginTimeout (ma_cfg m)) then None else Some p)) \<and>
    set evs = set (ma_evicted m) \<union> {\<lparr>ev_Kind = EventDisconnected, ev_Peer = clone p,
        ev_Reason = NoTrafficFor (Truncate (Sub now (pe_LastHeard p)) second)\<rparr> | rid p.
      mget (ma_peers m) rid = Some p \<and> pe_State p = StateConfigured \<and> Sub now (pe_LastHeard p) > mc_PeerTimeout (ma_cfg m)} \<and>
    ma_evicted m' = []"
proof -
  have wf: "mwf (ma_peers m)" using assms(1) by (simp add: master_ok_def registry_ok_def)
  have ids: "rid \<in> set (stale_ids m now) \<longleftrightarrow> (\<exists>p. mget (ma_peers m) rid = Some p \<and> peer_stale (ma_cfg m) now p)" for rid
    using mget_Some_iff [OF wf] by (force simp: stale_ids_def)
  have "distinct (stale_ids m now)"
    using wf by (simp add: stale_ids_def mwf_def distinct_map_filter)
  then have "evs = ma_evicted m @ concat (map (\<lambda>rid. case mget (ma_peers m) rid of None \<Rightarrow> []
      | Some p \<Rightarrow> gone_event p (stale_reason now p)) (stale_ids m now))"
    using assms(2) remove_stale_events [of "stale_ids m now" now "(swept m now, ma_evicted m)"] by (simp add: Expire_shape)
  then have "set evs = set (ma_evicted m) \<union> {e. \<exists>rid p. mget (ma_peers m) rid = Some p \<and> peer_stale (ma_cfg m) now p \<and>
      e \<in> set (gone_event p (stale_reason now p))}"
    using ids by (force split: option.splits)
  moreover have "ma_evicted m' = []" using assms(2) by (metis Expire_shape fst_conv remove_stale_frame(4) swept_frame(4))
  ultimately show ?thesis
    using Expire_peers [OF wf, of now] assms(2)
    by (auto simp: peer_stale_def Idle_def gone_event_def stale_reason_def split: option.split)
qed

lemma Master_Expire_exact_witness:
  "mget (ma_peers (fst (Master_Expire demo_master (120 * second)))) 7 = None \<and>
   mget (ma_peers (fst (Master_Expire demo_master (60 * second)))) 7 = Some demo_station"
proof -
  have p: "mget (ma_peers demo_master) 7 = Some demo_station" "mc_PeerTimeout (ma_cfg demo_master) = 60 * second"
    "pe_LastHeard demo_station = 10" "pe_State demo_station = StateConfigured" by code_simp+
  show ?thesis
    using Master_Expire_exact [OF demo_master_ok surjective_pairing, of "120 * second"]
      Master_Expire_exact [OF demo_master_ok surjective_pairing, of "60 * second"]
    by (simp add: p Sub_def minDuration_def maxDuration_def)
qed

text \<open>
  A new registration list takes effect when it is set, not at the next login: the entries it
  bans are gone, every other entry is untouched, and each banned station that was configured is
  reported as disconnected by the next sweep.
\<close>

lemma ban_takes_effect:
  assumes "master_ok m"
  shows "(\<forall>rid. mget (ma_peers (Master_SetAccess m l)) rid =
      (if Allows (al_Registration l) rid then mget (ma_peers m) rid else None)) \<and>
    (\<forall>rid p. mget (ma_peers m) rid = Some p \<and> pe_State p = StateConfigured \<and> \<not> Allows (al_Registration l) rid \<longrightarrow>
      \<lparr>ev_Kind = EventDisconnected, ev_Peer = clone p, ev_Reason = NoLongerPermitted\<rparr>
        \<in> set (snd (Master_Expire (Master_SetAccess m l) now)))"
proof -
  let ?m = "Master_SetAccess m l"
  have filt: "mget (filter (\<lambda>kv. P (fst kv)) ps) rid = (if P rid then mget ps rid else None)" for P rid
    and ps :: "(RepeaterID, peer) gomap" by (induction ps) (auto simp: mget_def)
  have wf: "mwf (ma_peers ?m)" using ok_SetAccess [OF assms] by (simp add: master_ok_def registry_ok_def)
  then have "distinct (stale_ids ?m now)" by (simp add: stale_ids_def mwf_def distinct_map_filter)
  then have reported: "set (ma_evicted ?m) \<subseteq> set (snd (Master_Expire ?m now))"
    using remove_stale_events [of "stale_ids ?m now" now "(swept ?m now, ma_evicted ?m)"] by (auto simp: Expire_shape)
  have "\<lparr>ev_Kind = EventDisconnected, ev_Peer = clone p, ev_Reason = NoLongerPermitted\<rparr> \<in> set (ma_evicted ?m)"
    if "mget (ma_peers m) rid = Some p" "pe_State p = StateConfigured" "\<not> Allows (al_Registration l) rid" for rid p
    using mget_SomeD [OF that(1)] that(2,3)
    by (force simp: Master_SetAccess_def evict_banned_events gone_event_def)
  then show ?thesis using reported by (auto simp: SetAccess_peers filt)
qed

lemma ban_takes_effect_witness:
  "mget (ma_peers (Master_SetAccess demo_master (demo_lists\<lparr>al_Registration := \<lparr>acl_mode = ModePermit, acl_spans = []\<rparr>\<rparr>))) 7 = None"
  using ban_takes_effect [OF demo_master_ok, of "demo_lists\<lparr>al_Registration := \<lparr>acl_mode = ModePermit, acl_spans = []\<rparr>\<rparr>"]
  by (simp add: Allows_def acl_names_def sort_Search_def search_go.simps)

text \<open>
  Unlinking stops what a member asked to hear and nothing an administrator set: afterwards the
  peer receives exactly the talkgroups statically attached to it, and what every other peer
  receives has not changed.
\<close>

lemma unlink_keeps_static:
  assumes "master_ok m" "SubscriptionEnabled m"
  shows "Attached (fst (DropAttachments m pid)) now q g t =
    (if q = pid then case mget (ma_attachments m) \<lparr>ak_peer = q, ak_talkgroup = g, ak_slot = t\<rparr> of
         None \<Rightarrow> False | Some a \<Rightarrow> at_Static a
     else Attached m now q g t)"
proof -
  have "mwf (ma_attachments m)" using assms(1) by (simp add: master_ok_def)
  then show ?thesis
    using assms(2) by (auto simp: Attached_def DropAttachments_def SubscriptionEnabled_def Let_def mget_msweep split: option.split)
qed

lemma unlink_keeps_static_witness:
  "Attached (attach demo_master 7 91 Timeslot2 40) 40 7 91 Timeslot2 \<and>
    \<not> Attached (fst (DropAttachments (attach demo_master 7 91 Timeslot2 40) 7)) 40 7 91 Timeslot2"
proof -
  have a: "SubscriptionEnabled (attach demo_master 7 91 Timeslot2 40)" "Attached (attach demo_master 7 91 Timeslot2 40) 40 7 91 Timeslot2"
    "map_option at_Static (mget (ma_attachments (attach demo_master 7 91 Timeslot2 40)) \<lparr>ak_peer = 7, ak_talkgroup = 91, ak_slot = Timeslot2\<rparr>) = Some False"
    by code_simp+
  then show ?thesis
    using unlink_keeps_static [OF ok_attach [OF demo_master_ok] a(1), of 7 40 7 91 Timeslot2] by auto
qed

text \<open>
  A defect of \<open>handleLogin\<close>: the login that makes the list of half-open logins too long is dropped
  from that list by its own tidying, which runs before the login is in the registry.  It waits on its
  challenge, but no entry of the list names it, so \<open>evictHalfOpen\<close> can never choose it.
\<close>

lemma tidied_login_is_unlisted:
  assumes "\<not> locked (ma_logins m) from now" "rid \<noteq> 0" "rid \<noteq> ServerOrigin"
    and "Allows (al_Registration (mc_Access (ma_cfg m))) rid" "password_of (ma_cfg m) now rid = Some pw"
    and "mget (ma_peers m) rid = None" "stations m < mc_MaxPeers (ma_cfg m)" "ma_waiting m < int maxHalfOpen"
    and "length (ma_halfOpen m) \<ge> 4 * maxHalfOpen"
    and "handleLogin m rid from now (Some s) = (m', out)"
  shows "mget (ma_peers m') rid = Some (new_peer rid from s now) \<and> pe_State (new_peer rid from s now) = StateChallenged \<and>
    list_all (\<lambda>h. ho_id h \<noteq> rid) (ma_halfOpen m')"
proof -
  have "m' = fst (begin_login m rid from now s)"
    using assms by (simp add: handleLogin_def Let_def)
  then have m': "m' = put_peer (new_peer rid from s now) (tidyHalfOpen (m\<lparr>ma_waiting := ma_waiting m + 1,
      ma_halfOpen := ma_halfOpen m @ [\<lparr>ho_id = rid, ho_began = now\<rparr>]\<rparr>))"
    using assms(9) by (simp add: begin_login_def Let_def)
  then have "ma_halfOpen m' = filter (still_waiting (ma_peers m)) (ma_halfOpen m @ [\<lparr>ho_id = rid, ho_began = now\<rparr>])"
    by (simp add: tidyHalfOpen_def)
  then show ?thesis
    using m' assms(6) by (auto simp: new_peer_def list_all_iff still_waiting_def)
qed

lemma tidied_login_is_unlisted_witness:
  "list_all (\<lambda>h. ho_id h \<noteq> 9) (ma_halfOpen (fst (handleLogin (demo_master\<lparr>ma_halfOpen :=
    replicate (4 * maxHalfOpen) \<lparr>ho_id = 8, ho_began = 0\<rparr>\<rparr>) 9 (demo_addr 2) 40 (Some [1, 1, 1, 1]))))"
proof -
  let ?m = "demo_master\<lparr>ma_halfOpen := replicate (4 * maxHalfOpen) \<lparr>ho_id = 8, ho_began = 0\<rparr>\<rparr>"
  have "\<not> locked (ma_logins demo_master) (demo_addr 2) 40" "(9 :: RepeaterID) \<noteq> 0" "9 \<noteq> ServerOrigin"
    "Allows (al_Registration (mc_Access (ma_cfg demo_master))) 9" "password_of (ma_cfg demo_master) 40 9 = Some [1, 2, 3]"
    "mget (ma_peers demo_master) 9 = None" "stations demo_master < mc_MaxPeers (ma_cfg demo_master)"
    "ma_waiting demo_master < int maxHalfOpen" by code_simp+
  then show ?thesis
    using tidied_login_is_unlisted [of ?m "demo_addr 2" 40 9 "[1, 2, 3]" "[1, 1, 1, 1]"
        "fst (handleLogin ?m 9 (demo_addr 2) 40 (Some [1, 1, 1, 1]))" "snd (handleLogin ?m 9 (demo_addr 2) 40 (Some [1, 1, 1, 1]))"]
    by (simp add: stations_def)
qed

end
