(* ===== verification/Master_Directory.thy ===== *)
theory Master_Directory
  imports Master_Tables Routing_Safety
begin

text \<open>
  How \<^verbatim>\<open>cmd/qsp/app.go\<close> wires the master to the routing core: \<open>readyPeers\<close> adapts the registry to the
  core's \<open>PeerLookup\<close>, and the master itself answers where a radio is, which peers are linked servers
  and what each peer receives.  The master satisfies the directory contract the routing laws rest on.
\<close>

definition readyPeers_Ready :: "master \<Rightarrow> RepeaterID \<Rightarrow> bool" where
  "readyPeers_Ready m rid = (case Lookup m rid of None \<Rightarrow> False | Some p \<Rightarrow> CanPassTraffic (pe_State p))"

definition readyPeers_ReadyPeers :: "master \<Rightarrow> RepeaterID list" where
  "readyPeers_ReadyPeers m = map pe_ID (filter (\<lambda>p. CanPassTraffic (pe_State p)) (Master_Peers m))"

definition master_env :: "master \<Rightarrow> time \<Rightarrow> env" where
  "master_env m now = \<lparr>en_Ready = readyPeers_Ready m, en_ReadyPeers = readyPeers_ReadyPeers m,
     en_LocateFor = Some (LocateFor m now), en_LinkedServerPeers = Some (LinkedServerPeers m),
     en_Attached = Some (Attached m now)\<rparr>"

lemma clone_fields [simp]: "pe_ID (clone p) = pe_ID p" "pe_State (clone p) = pe_State p" "pe_Addr (clone p) = pe_Addr p"
  by (simp_all add: clone_def)

lemma mem_ReadyPeers:
  assumes "master_ok m"
  shows "rid \<in> set (readyPeers_ReadyPeers m) \<longleftrightarrow> (\<exists>p. mget (ma_peers m) rid = Some p \<and> pe_State p = StateConfigured)"
proof -
  have wf: "mwf (ma_peers m)" using assms by (simp add: master_ok_def registry_ok_def)
  have key: "pe_ID p = k" if "(k, p) \<in> set (ma_peers m)" for k p
    using master_peer(2) [OF assms] mget_Some_iff [OF wf] that by blast
  have "{p \<in> (clone \<circ> snd) ` set (ma_peers m). pe_State p = StateConfigured} =
      (clone \<circ> snd) ` {kv \<in> set (ma_peers m). pe_State (snd kv) = StateConfigured}" by auto
  then have "set (readyPeers_ReadyPeers m) = pe_ID ` snd ` {kv \<in> set (ma_peers m). pe_State (snd kv) = StateConfigured}"
    by (simp add: readyPeers_ReadyPeers_def Master_Peers_def CanPassTraffic_def image_comp)
  then show ?thesis using key by (force simp: mget_Some_iff [OF wf] image_iff)
qed

interpretation directory: peer_directory "\<lambda>s. master_env (fst s) (snd s)" "\<lambda>s. master_ok (fst s)"
proof
  fix s :: "master \<times> time" and p ps
  assume ok: "master_ok (fst s)"
  have wf: "mwf (ma_peers (fst s))" using ok by (simp add: master_ok_def registry_ok_def)
  show "en_Ready (master_env (fst s) (snd s)) p \<longleftrightarrow> p \<in> set (en_ReadyPeers (master_env (fst s) (snd s)))"
    using mem_ReadyPeers [OF ok, of p]
    by (auto simp: master_env_def readyPeers_Ready_def Lookup_def CanPassTraffic_def split: option.split)
  show "AnyPeer \<notin> set (en_ReadyPeers (master_env (fst s) (snd s)))"
    using mem_ReadyPeers [OF ok] master_peer [OF ok] by (auto simp: master_env_def peer_ok_def AnyPeer_def)
  show "set ps \<subseteq> set (en_ReadyPeers (master_env (fst s) (snd s)))"
    if "en_LinkedServerPeers (master_env (fst s) (snd s)) = Some ps"
    using that mem_ReadyPeers [OF ok]
    by (force simp: master_env_def LinkedServerPeers_def CanPassTraffic_def mget_Some_iff [OF wf] split: option.splits)
qed

end
