(* ===== verification/Homebrew_Link.thy ===== *)
theory Homebrew_Link
  imports Hbp_Codec
begin

text \<open>
  \<^verbatim>\<open>internal/protocol/homebrew/link.go\<close>: the peer side of the Homebrew handshake, a link this server dials.
  \<open>link_Handle\<close> and \<open>Tick\<close> are the two ways it moves; the clock is the argument \<open>now\<close>, and what
  \<open>rand.Int64N\<close> returns is \<open>rnd\<close> reduced to its range.  The text of a note is a constructor.  Durations
  that are multiplied keep their 64 bits.
\<close>

section \<open>Data\<close>

definition DefaultKeepalive :: duration where
  "DefaultKeepalive = 10 * second"

definition DefaultTimeout :: duration where
  "DefaultTimeout = 60 * second"

definition DefaultMinBackoff :: duration where
  "DefaultMinBackoff = 5 * second"

definition DefaultMaxBackoff :: duration where
  "DefaultMaxBackoff = 2 * minute"

datatype link_state = StateIdle | StateLoggingIn | StateAuthenticating | StateConfiguring | StateConnected
  | StateBackoff

definition CanSend :: "link_state \<Rightarrow> bool" where
  "CanSend s \<longleftrightarrow> s = StateConnected"

record link_identity =
  li_Callsign :: string
  li_RXFrequency :: u32
  li_TXFrequency :: u32
  li_ColourCode :: int
  li_Latitude :: float64
  li_Longitude :: float64
  li_Height :: int
  li_Location :: string
  li_Description :: string
  li_URL :: string
  li_Timeslots :: int
  li_SoftwareID :: string
  li_PackageID :: string

record link_cfg =
  lg_Name :: string
  lg_RepeaterID :: RepeaterID
  lg_Password :: "byte list"
  lg_Identity :: link_identity
  lg_Keepalive :: duration
  lg_Timeout :: duration
  lg_MinBackoff :: duration
  lg_MaxBackoff :: duration

datatype fail_cause = RefusedByFarEnd | ClosedByFarEnd | NoAnswerFor duration | NoAnswerWhile link_state

datatype link_note = NoNote | LoggingInAgain bool | LinkFailed fail_cause duration | LinkUnparseable hbp_error
  | PongWhile link_state | FarEndIs string | FrameWhile link_state | UnexpectedWhile link_state | ChallengeAnswered
  | SendingConfiguration | LinkConnected | LinkReconnected | AckWhile link_state | LinkClosing

record link_outcome =
  lo_Send :: "byte list list"
  lo_Data :: "hbp_data option"
  lo_Changed :: bool
  lo_Note :: link_note

record far_end =
  fe_Network :: string
  fe_Callsign :: string
  fe_Software :: string
  fe_Description :: string
  fe_ServerID :: string
  fe_Location :: string
  fe_Latitude :: float64
  fe_Longitude :: float64
  fe_Located :: bool
  fe_Known :: bool

record link =
  hl_cfg :: link_cfg
  hl_state :: link_state
  hl_since :: time
  hl_lastHeard :: time
  hl_lastPing :: time
  hl_farEnd :: far_end
  hl_salt :: "byte list"
  hl_backoff :: duration
  hl_retryAt :: time
  hl_everConnected :: bool

datatype link_error = NoRepeaterID | NoLinkPassword | NoCallsign | BackoffOrder

section \<open>Construction\<close>

definition zero_far_end :: far_end where
  "zero_far_end = \<lparr>fe_Network = [], fe_Callsign = [], fe_Software = [], fe_Description = [], fe_ServerID = [],
     fe_Location = [], fe_Latitude = Fin 0 0, fe_Longitude = Fin 0 0, fe_Located = False, fe_Known = False\<rparr>"

definition link_defaults :: "link_cfg \<Rightarrow> link_cfg" where
  "link_defaults cfg = cfg\<lparr>
     lg_Keepalive := (if lg_Keepalive cfg \<le> 0 then DefaultKeepalive else lg_Keepalive cfg),
     lg_Timeout := (if lg_Timeout cfg \<le> 0 then DefaultTimeout else lg_Timeout cfg),
     lg_MinBackoff := (if lg_MinBackoff cfg \<le> 0 then DefaultMinBackoff else lg_MinBackoff cfg),
     lg_MaxBackoff := (if lg_MaxBackoff cfg \<le> 0 then DefaultMaxBackoff else lg_MaxBackoff cfg)\<rparr>"

definition New :: "link_cfg \<Rightarrow> link_error + link" where
  "New cfg =
     (if lg_RepeaterID cfg = 0 then Inl NoRepeaterID
      else if lg_Password cfg = [] then Inl NoLinkPassword
      else if li_Callsign (lg_Identity cfg) = [] then Inl NoCallsign
      else let cfg = link_defaults cfg in
        if lg_MaxBackoff cfg < lg_MinBackoff cfg then Inl BackoffOrder
        else Inr \<lparr>hl_cfg = cfg, hl_state = StateIdle, hl_since = 0, hl_lastHeard = 0, hl_lastPing = 0,
          hl_farEnd = zero_far_end, hl_salt = [0, 0, 0, 0], hl_backoff = lg_MinBackoff cfg, hl_retryAt = 0,
          hl_everConnected = False\<rparr>)"

section \<open>Operations\<close>

definition enter :: "link \<Rightarrow> link_state \<Rightarrow> time \<Rightarrow> link" where
  "enter l s now = l\<lparr>hl_state := s, hl_since := now\<rparr>"

definition no_outcome :: link_outcome where
  "no_outcome = \<lparr>lo_Send = [], lo_Data = None, lo_Changed = False, lo_Note = NoNote\<rparr>"

definition noted :: "link_note \<Rightarrow> link_outcome" where
  "noted n = no_outcome\<lparr>lo_Note := n\<rparr>"

definition moved :: "byte list list \<Rightarrow> link_note \<Rightarrow> link_outcome" where
  "moved send n = no_outcome\<lparr>lo_Send := send, lo_Changed := True, lo_Note := n\<rparr>"

definition login :: "link \<Rightarrow> time \<Rightarrow> bool \<Rightarrow> link \<times> link_outcome" where
  "login l now retrying = ((enter l StateLoggingIn now)\<lparr>hl_lastHeard := now\<rparr>,
     moved [Login_AppendTo (lg_RepeaterID (hl_cfg l))] (LoggingInAgain retrying))"

definition Start :: "link \<Rightarrow> time \<Rightarrow> link \<times> link_outcome" where
  "Start l now = login l now False"

definition jittered :: "duration \<Rightarrow> int \<Rightarrow> duration" where
  "jittered d rnd = (let spread = d div 5 in if spread \<le> 0 then d else d - rnd mod spread)"

definition doubled :: "duration \<Rightarrow> duration \<Rightarrow> duration" where
  "doubled b mx = (if b < mx then let b2 = wrap64 (2 * b) in if b2 > mx then mx else b2 else b)"

definition link_fail :: "link \<Rightarrow> time \<Rightarrow> fail_cause \<Rightarrow> int \<Rightarrow> link \<times> link_outcome" where
  "link_fail l now why rnd =
     (let wait = jittered (hl_backoff l) rnd
      in ((enter l StateBackoff now)\<lparr>hl_retryAt := now + wait,
            hl_backoff := doubled (hl_backoff l) (lg_MaxBackoff (hl_cfg l))\<rparr>,
          moved [] (LinkFailed why wait)))"

definition FormatFloat4 :: "float64 \<Rightarrow> string" where
  "FormatFloat4 x = (case x of NaN \<Rightarrow> ''NaN'' | NegInf \<Rightarrow> ''-Inf'' | PosInf \<Rightarrow> ''+Inf'' | Fin m k \<Rightarrow> format_fixed4 m k)"

definition or_QSP :: "string \<Rightarrow> string" where
  "or_QSP s = (if s = [] then ''QSP'' else s)"

definition link_config :: "link \<Rightarrow> hbp_config" where
  "link_config l =
     (let i = lg_Identity (hl_cfg l); slots = (if li_Timeslots i = 0 then 2 else li_Timeslots i)
      in \<lparr>c_RepeaterID = lg_RepeaterID (hl_cfg l), c_Callsign = li_Callsign i,
          c_RXFreq = FormatUint (unat (li_RXFrequency i)), c_TXFreq = FormatUint (unat (li_TXFrequency i)),
          c_TXPower = ''0'', c_ColorCode = Itoa (li_ColourCode i), c_Latitude = FormatFloat4 (li_Latitude i),
          c_Longitude = FormatFloat4 (li_Longitude i), c_Height = Itoa (li_Height i), c_Location = li_Location i,
          c_Description = li_Description i, c_Slots = Itoa slots, c_URL = li_URL i,
          c_SoftwareID = or_QSP (li_SoftwareID i), c_PackageID = or_QSP (li_PackageID i)\<rparr>)"

definition handleAck :: "(byte list \<Rightarrow> byte list) \<Rightarrow> link \<Rightarrow> byte list \<Rightarrow> time \<Rightarrow> link \<times> link_outcome" where
  "handleAck sha256 l payload now = (case hl_state l of
       StateLoggingIn \<Rightarrow> (enter (l\<lparr>hl_salt := payload\<rparr>) StateAuthenticating now,
         moved [Key_AppendTo (lg_RepeaterID (hl_cfg l)) (Digest sha256 payload (lg_Password (hl_cfg l)))] ChallengeAnswered)
     | StateAuthenticating \<Rightarrow> (enter l StateConfiguring now, moved [Config_AppendTo (link_config l)] SendingConfiguration)
     | StateConfiguring \<Rightarrow> ((enter l StateConnected now)\<lparr>hl_lastPing := now, hl_backoff := lg_MinBackoff (hl_cfg l),
           hl_everConnected := True\<rparr>,
         moved [] (if hl_everConnected l then LinkReconnected else LinkConnected))
     | s \<Rightarrow> (l, noted (AckWhile s)))"

definition farEndLabel :: "far_end \<Rightarrow> string" where
  "farEndLabel f =
     (if fe_Network f \<noteq> [] \<and> fe_Callsign f \<noteq> [] then fe_Network f @ '' ('' @ fe_Callsign f @ '')''
      else if fe_Network f \<noteq> [] then fe_Network f
      else if fe_Callsign f \<noteq> [] then fe_Callsign f
      else ''a QSP server that announced no name'')"

definition far_end_of :: "hbp_identity \<Rightarrow> far_end" where
  "far_end_of v = \<lparr>fe_Network = i_Network v, fe_Callsign = i_Callsign v, fe_Software = i_Software v,
     fe_Description = i_Description v, fe_ServerID = i_ServerID v, fe_Location = i_Location v,
     fe_Latitude = i_Latitude v, fe_Longitude = i_Longitude v, fe_Located = i_Located v, fe_Known = True\<rparr>"

definition link_Handle :: "(byte list \<Rightarrow> byte list) \<Rightarrow> json \<Rightarrow> link \<Rightarrow> byte list \<Rightarrow> time \<Rightarrow> int \<Rightarrow> link \<times> link_outcome" where
  "link_Handle sha256 j l0 datagram now rnd =
     (case Parse j datagram of
        Inl e \<Rightarrow> (l0, noted (LinkUnparseable e))
      | Inr msg \<Rightarrow> (let l = l0\<lparr>hl_lastHeard := now\<rparr> in case msg of
            Ack p \<Rightarrow> handleAck sha256 l p now
          | Nak _ \<Rightarrow> link_fail l now RefusedByFarEnd rnd
          | MasterClose _ \<Rightarrow> link_fail l now ClosedByFarEnd rnd
          | Pong _ \<Rightarrow> (l, if hl_state l \<noteq> StateConnected then noted (PongWhile (hl_state l)) else no_outcome)
          | Identity v \<Rightarrow> (l\<lparr>hl_farEnd := far_end_of v\<rparr>, noted (FarEndIs (farEndLabel (far_end_of v))))
          | Data d \<Rightarrow> (l, if \<not> CanSend (hl_state l) then noted (FrameWhile (hl_state l)) else no_outcome\<lparr>lo_Data := Some d\<rparr>)
          | _ \<Rightarrow> (l, noted (UnexpectedWhile (hl_state l)))))"

definition Tick :: "link \<Rightarrow> time \<Rightarrow> int \<Rightarrow> link \<times> link_outcome" where
  "Tick l now rnd = (case hl_state l of
       StateIdle \<Rightarrow> (l, no_outcome)
     | StateBackoff \<Rightarrow> if now < hl_retryAt l then (l, no_outcome) else login l now True
     | StateConnected \<Rightarrow>
         if Sub now (hl_lastHeard l) > lg_Timeout (hl_cfg l)
         then link_fail l now (NoAnswerFor (Truncate (Sub now (hl_lastHeard l)) second)) rnd
         else if Sub now (hl_lastPing l) < lg_Keepalive (hl_cfg l) then (l, no_outcome)
         else (l\<lparr>hl_lastPing := now\<rparr>, no_outcome\<lparr>lo_Send := [Ping_AppendTo (lg_RepeaterID (hl_cfg l))]\<rparr>)
     | s \<Rightarrow> if Sub now (hl_since l) > lg_Timeout (hl_cfg l) then link_fail l now (NoAnswerWhile s) rnd
            else (l, no_outcome))"

definition link_Send :: "link \<Rightarrow> hbp_data \<Rightarrow> byte list option" where
  "link_Send l frame = (if \<not> CanSend (hl_state l) then None
     else Some (Data_AppendTo (frame\<lparr>d_RepeaterID := lg_RepeaterID (hl_cfg l)\<rparr>)))"

definition Close :: "link \<Rightarrow> time \<Rightarrow> link \<times> link_outcome" where
  "Close l now = (if hl_state l = StateIdle then (l, no_outcome)
     else (enter l StateIdle now, moved [RepeaterClose_AppendTo (lg_RepeaterID (hl_cfg l))] LinkClosing))"

end
