(* ===== verification/Link_Handshake.thy ===== *)
theory Link_Handshake
  imports Homebrew_Link Master_Tables
begin

text \<open>
  The link as a system, and the link talking to the master.  The link's backoff stays between its
  bounds and no state but idle and connected outlasts the timeouts; and a link that has the
  password and may register completes its handshake with a master, whatever else that master holds.
\<close>

section \<open>The link as a system\<close>

definition link_ok :: "link \<Rightarrow> bool" where
  "link_ok l \<longleftrightarrow> 0 < lg_MinBackoff (hl_cfg l) \<and> lg_MinBackoff (hl_cfg l) \<le> hl_backoff l \<and>
     hl_backoff l \<le> lg_MaxBackoff (hl_cfg l) \<and> lg_MaxBackoff (hl_cfg l) < 2 ^ 62 \<and> 0 < lg_Timeout (hl_cfg l) \<and>
     (hl_state l = StateBackoff \<longrightarrow> hl_retryAt l \<le> hl_since l + lg_MaxBackoff (hl_cfg l))"

inductive link_step :: "(byte list \<Rightarrow> byte list) \<Rightarrow> json \<Rightarrow> link \<Rightarrow> link \<Rightarrow> bool" for sha256 j where
  Started: "link_step sha256 j l (fst (Start l now))"
| Received: "link_step sha256 j l (fst (link_Handle sha256 j l b now rnd))"
| Ticked: "link_step sha256 j l (fst (Tick l now rnd))"
| Stopped: "link_step sha256 j l (fst (Close l now))"

definition link_init :: "link_cfg \<Rightarrow> link \<Rightarrow> bool" where
  "link_init cfg l \<longleftrightarrow> New cfg = Inr l \<and> lg_MaxBackoff (link_defaults cfg) < 2 ^ 62"

lemma jittered_le: "0 < d \<Longrightarrow> jittered d rnd \<le> d"
  by (simp add: jittered_def Let_def)

lemma jittered_gt: "0 < d \<Longrightarrow> 4 * d < 5 * jittered d rnd"
proof -
  assume d: "0 < d"
  show ?thesis
  proof (cases "0 < d div 5")
    case True
    then have "rnd mod (d div 5) + 1 \<le> d div 5" using pos_mod_bound [of "d div 5" rnd] by linarith
    then show ?thesis using True d by (simp add: jittered_def Let_def)
  qed (use d in \<open>simp add: jittered_def Let_def\<close>)
qed

lemma doubled_bounds: "0 < b \<Longrightarrow> b \<le> mx \<Longrightarrow> mx < 2 ^ 62 \<Longrightarrow> b \<le> doubled b mx \<and> doubled b mx \<le> mx"
  by (auto simp: doubled_def Let_def wrap64_id)

lemma link_fail_ok: "link_ok l \<Longrightarrow> link_ok (fst (link_fail l now why rnd))"
  using doubled_bounds [of "hl_backoff l" "lg_MaxBackoff (hl_cfg l)"] jittered_le [of "hl_backoff l" rnd]
  by (auto simp: link_ok_def link_fail_def enter_def Let_def)

lemma login_ok: "link_ok l \<Longrightarrow> link_ok (fst (login l now r))"
  by (simp add: link_ok_def login_def enter_def)

lemma handleAck_ok: "link_ok l \<Longrightarrow> link_ok (fst (handleAck sha256 l p now))"
  by (cases "hl_state l") (auto simp: link_ok_def handleAck_def enter_def)

lemma link_Handle_ok: "link_ok l \<Longrightarrow> link_ok (fst (link_Handle sha256 j l b now rnd))"
proof -
  assume "link_ok l"
  moreover from this have "link_ok (l\<lparr>hl_lastHeard := now\<rparr>)" "link_ok (l\<lparr>hl_lastHeard := now, hl_farEnd := f\<rparr>)" for f
    by (simp_all add: link_ok_def)
  ultimately show ?thesis
    by (simp add: link_Handle_def Let_def handleAck_ok link_fail_ok split: sum.split message.split)
qed

lemma Tick_ok: "link_ok l \<Longrightarrow> link_ok (fst (Tick l now rnd))"
  by (cases "hl_state l") (auto simp: Tick_def link_fail_ok login_ok link_ok_def [of "l\<lparr>hl_lastPing := now\<rparr>"] link_ok_def [of l])

interpretation dialled: safe_system "link_init cfg" "link_step sha256 j" link_ok
  for cfg sha256 j
proof
  show "link_ok l" if "link_init cfg l" for l
    using that
    by (auto simp: link_init_def New_def Let_def link_ok_def link_defaults_def DefaultMinBackoff_def DefaultTimeout_def
        split: if_splits)
  show "link_ok t" if "link_ok l" "link_step sha256 j l t" for l t
    using that(2,1)
    by cases (auto simp: Start_def login_ok link_Handle_ok Tick_ok Close_def, auto simp: link_ok_def enter_def)
qed

text \<open>
  C30: A link is never stuck.  In every reachable state, whatever the random delays were, a link that
  is waiting, on an answer or on a retry, moves on by itself: once more than the timeout and more
  than the longest backoff have passed since it entered the state, a tick changes the state; the
  backoff never leaves its bounds, and a failed link waits more than four fifths of it.
\<close>

theorem link_never_stuck:
  assumes "reachable (link_init cfg) (link_step sha256 j) l"
  shows "lg_MinBackoff (hl_cfg l) \<le> hl_backoff l \<and> hl_backoff l \<le> lg_MaxBackoff (hl_cfg l) \<and>
    4 * hl_backoff l < 5 * (hl_retryAt (fst (link_fail l now why rnd)) - now) \<and>
    (hl_state l = StateIdle \<or> hl_state l = StateConnected \<or>
     Sub now (hl_since l) \<le> lg_Timeout (hl_cfg l) \<or> now \<le> hl_since l + lg_MaxBackoff (hl_cfg l) \<or>
     lo_Changed (snd (Tick l now rnd)) \<and> hl_state (fst (Tick l now rnd)) \<noteq> hl_state l)"
proof -
  have ok: "link_ok l" by (rule dialled.reachable_inv [OF assms])
  then have "4 * hl_backoff l < 5 * jittered (hl_backoff l) rnd"
    by (intro jittered_gt) (simp add: link_ok_def)
  then show ?thesis
    using ok
    by (cases "hl_state l") (auto simp: link_ok_def Tick_def link_fail_def login_def moved_def enter_def Let_def no_outcome_def)
qed

text \<open>A link for the witnesses, as \<open>New\<close> makes it from a configuration with every duration left to its default.\<close>

definition dialled_cfg :: link_cfg where
  "dialled_cfg = \<lparr>lg_Name = ''up'', lg_RepeaterID = 9, lg_Password = [1, 2, 3],
     lg_Identity = \<lparr>li_Callsign = ''K9MLS'', li_RXFrequency = 0, li_TXFrequency = 0, li_ColourCode = 1,
       li_Latitude = Fin 0 0, li_Longitude = Fin 0 0, li_Height = 0, li_Location = [], li_Description = [], li_URL = [],
       li_Timeslots = 3, li_SoftwareID = [], li_PackageID = []\<rparr>,
     lg_Keepalive = 0, lg_Timeout = 0, lg_MinBackoff = 0, lg_MaxBackoff = 0\<rparr>"

definition dialled_link :: link where
  "dialled_link = projr (New dialled_cfg)"

lemma dialled_init: "link_init dialled_cfg dialled_link"
  by code_simp

theorem link_never_stuck_witness:
  "reachable (link_init dialled_cfg) (link_step demo_sha demo_json) (fst (Start dialled_link 5)) \<and>
   hl_state (fst (Tick (fst (Start dialled_link 5)) 999999999999 3)) \<noteq> StateLoggingIn"
proof -
  have r: "reachable (link_init dialled_cfg) (link_step demo_sha demo_json) (fst (Start dialled_link 5))"
    using dialled_init by (blast intro: reachable.intros link_step.Started)
  have "hl_state (fst (Start dialled_link 5)) = StateLoggingIn \<and> hl_since (fst (Start dialled_link 5)) = 5 \<and>
      lg_Timeout (hl_cfg (fst (Start dialled_link 5))) < 999999999000 \<and>
      lg_MaxBackoff (hl_cfg (fst (Start dialled_link 5))) < 999999999000" by code_simp
  then show ?thesis
    using r link_never_stuck [OF r, of 999999999999 RefusedByFarEnd 3] by (auto simp: Sub_def minDuration_def maxDuration_def)
qed

section \<open>The master's side of a handshake\<close>

text \<open>What a station needs to be let in: its address is not locked out, its ID is permitted, and there is room.\<close>

definition admissible :: "master \<Rightarrow> RepeaterID \<Rightarrow> addr_port \<Rightarrow> time \<Rightarrow> bool" where
  "admissible m rid a now \<longleftrightarrow> \<not> locked (ma_logins m) a now \<and> rid \<noteq> 0 \<and> rid \<noteq> ServerOrigin \<and>
     Allows (al_Registration (mc_Access (ma_cfg m))) rid \<and>
     (case mget (ma_peers m) rid of None \<Rightarrow> stations m < mc_MaxPeers (ma_cfg m)
      | Some p \<Rightarrow> pe_State p = StateChallenged \<longrightarrow> stations m < mc_MaxPeers (ma_cfg m))"

text \<open>A challenge with salt \<open>s\<close> is out to \<open>a\<close> for \<open>rid\<close>, and may still be answered at \<open>t\<close>.\<close>

definition awaited :: "master \<Rightarrow> RepeaterID \<Rightarrow> addr_port \<Rightarrow> byte list \<Rightarrow> time \<Rightarrow> bool" where
  "awaited m rid a s t \<longleftrightarrow> (\<exists>p. mget (ma_peers m) rid = Some p \<and>
     (pe_State p = StateChallenged \<longrightarrow> stations m < mc_MaxPeers (ma_cfg m)) \<and>
     (if pe_State p = StateChallenged \<and> pe_Addr p = a then pe_Salt p = s
      else \<exists>p' r. takeRelogin p a t (mc_LoginTimeout (ma_cfg m)) = (p', Some r) \<and> rl_salt r = s))"

lemma locked_later: "\<not> locked l a now \<Longrightarrow> now \<le> later \<Longrightarrow> \<not> locked l a later"
  by (auto simp: locked_def lock_running_def split: option.splits)

lemma stations_evict: "master_ok m \<Longrightarrow> stations (fst (evictHalfOpen m)) = stations m"
proof (cases rule: evictHalfOpen_cases [of m])
  case (Some rest rid p)
  assume "master_ok m"
  then have "mwf (ma_peers m)" by (simp add: master_ok_def registry_ok_def)
  from length_mdel [OF this Some(2)] Some show ?thesis by (simp add: stations_def forget_def)
qed (simp add: stations_def)

lemma evict_logins [simp]: "ma_logins (fst (evictHalfOpen m)) = ma_logins m"
  by (cases rule: evictHalfOpen_cases [of m]) auto

lemma awaited_begin:
  assumes "master_ok m" "mget (ma_peers m) rid = None" "stations m < mc_MaxPeers (ma_cfg m)"
  shows "awaited (fst (begin_login m rid a t1 s)) rid a s t2"
    "snd (begin_login m rid a t1 s) = answer a (Ack_AppendTo s)" "ma_logins (fst (begin_login m rid a t1 s)) = ma_logins m"
proof -
  have "length (mput rid (new_peer rid a s t1) (ma_peers m)) = Suc (length (ma_peers m))"
    using assms(1,2) length_mput by (force simp: master_ok_def registry_ok_def)
  moreover have entry: "mget (ma_peers (fst (begin_login m rid a t1 s))) rid = Some (new_peer rid a s t1)"
    by (simp add: begin_login_def Let_def new_peer_def)
  ultimately have "stations (fst (begin_login m rid a t1 s)) = stations m"
    by (simp add: stations_def begin_login_def Let_def new_peer_def)
  then show "awaited (fst (begin_login m rid a t1 s)) rid a s t2"
    using assms(3) entry by (simp add: awaited_def new_peer_def)
  show "snd (begin_login m rid a t1 s) = answer a (Ack_AppendTo s)" "ma_logins (fst (begin_login m rid a t1 s)) = ma_logins m"
    by (simp_all add: begin_login_def Let_def)
qed

lemma awaited_repeat:
  assumes "master_ok m" "mget (ma_peers m) rid = Some p" "Sub t2 t1 \<le> mc_LoginTimeout (ma_cfg m)"
    and "pe_State p = StateChallenged \<longrightarrow> stations m < mc_MaxPeers (ma_cfg m)"
  shows "awaited (fst (repeat_login m p a t1 s)) rid a s t2"
    "snd (repeat_login m p a t1 s) = answer a (Ack_AppendTo s)" "ma_logins (fst (repeat_login m p a t1 s)) = ma_logins m"
proof -
  obtain p' where "takeRelogin (offerRelogin p a s t1 (mc_LoginTimeout (ma_cfg m))) a t2 (mc_LoginTimeout (ma_cfg m)) =
      (p', Some \<lparr>rl_addr = a, rl_salt = s, rl_at = t1\<rparr>)" using takeRelogin_offer [OF assms(3)] by blast
  moreover have "stations (put_peer q m) = stations m" if "pe_ID q = rid" for q
    using stations_put_peer [OF assms(1,2) that] .
  ultimately show "awaited (fst (repeat_login m p a t1 s)) rid a s t2"
    using assms(1,2,4) by (auto simp: awaited_def repeat_login_def new_peer_def)
  show "snd (repeat_login m p a t1 s) = answer a (Ack_AppendTo s)" "ma_logins (fst (repeat_login m p a t1 s)) = ma_logins m"
    by (simp_all add: repeat_login_def)
qed

lemma handleLogin_challenges:
  assumes ok: "master_ok m" and adm: "admissible m rid a t1" and pw: "password_of (ma_cfg m) t1 rid = Some pw"
    and t: "Sub t2 t1 \<le> mc_LoginTimeout (ma_cfg m)"
  shows "awaited (fst (handleLogin m rid a t1 (Some s))) rid a s t2 \<and>
    snd (handleLogin m rid a t1 (Some s)) = answer a (Ack_AppendTo s) \<and>
    ma_logins (fst (handleLogin m rid a t1 (Some s))) = ma_logins m"
proof (cases "mget (ma_peers m) rid")
  case (Some p)
  then have "handleLogin m rid a t1 (Some s) = repeat_login m p a t1 s"
    using adm pw by (simp add: handleLogin_def admissible_def)
  then show ?thesis using awaited_repeat [OF ok Some t] adm Some by (simp add: admissible_def)
next
  case None
  let ?m = "if ma_waiting m \<ge> int maxHalfOpen then fst (evictHalfOpen m) else m"
  have "handleLogin m rid a t1 (Some s) = begin_login ?m rid a t1 s"
    using adm pw None by (simp add: handleLogin_def admissible_def Let_def)
  moreover have "master_ok ?m" "mget (ma_peers ?m) rid = None" "stations ?m < mc_MaxPeers (ma_cfg ?m)" "ma_logins ?m = ma_logins m"
    using ok None adm ok_evict evict_absent stations_evict [OF ok] by (auto simp: admissible_def)
  ultimately show ?thesis using awaited_begin [of ?m rid] by metis
qed

text \<open>The entry of \<open>rid\<close> stands at \<open>a\<close>, in state \<open>s\<close>.\<close>

definition stands :: "master \<Rightarrow> RepeaterID \<Rightarrow> addr_port \<Rightarrow> peer_state \<Rightarrow> bool" where
  "stands m rid a s \<longleftrightarrow> (\<exists>p. mget (ma_peers m) rid = Some p \<and> pe_Addr p = a \<and> pe_State p = s)"

lemma handleKey_admits:
  assumes ok: "master_ok m" and aw: "awaited m rid a s t2" and lk: "\<not> locked (ma_logins m) a t2"
    and pw: "password_of (ma_cfg m) t2 rid = Some pw"
  shows "stands (fst (handleKey sha256 m rid (Digest sha256 s pw) a t2)) rid a StateAuthenticated \<and>
    snd (handleKey sha256 m rid (Digest sha256 s pw) a t2) = answer a (Ack_AppendTo (putRepeaterID rid))"
proof -
  obtain p where p: "mget (ma_peers m) rid = Some p" and room: "pe_State p = StateChallenged \<longrightarrow> stations m < mc_MaxPeers (ma_cfg m)"
    and c: "if pe_State p = StateChallenged \<and> pe_Addr p = a then pe_Salt p = s
      else \<exists>p' r. takeRelogin p a t2 (mc_LoginTimeout (ma_cfg m)) = (p', Some r) \<and> rl_salt r = s"
    using aw by (auto simp: awaited_def)
  have rid: "pe_ID p = rid" using ok p by simp
  show ?thesis
  proof (cases "pe_State p = StateChallenged \<and> pe_Addr p = a")
    case True
    then show ?thesis
      using p c room lk pw rid by (simp add: handleKey_def VerifyDigest_def stands_def authenticated_def)
  next
    case False
    then obtain p' r where r: "takeRelogin p a t2 (mc_LoginTimeout (ma_cfg m)) = (p', Some r)" "rl_salt r = s" using c by auto
    then obtain rs where p': "p' = p\<lparr>pe_relogins := rs\<rparr>" using takeRelogin_shape by blast
    have "r \<in> set (pe_relogins p) \<and> rl_addr r = a" using takeRelogin_Some [OF r(1)] by blast
    then have "hasRelogin p a" by (auto simp: hasRelogin_def list_ex_iff)
    then have eq: "handleKey sha256 m rid dg a t2 = handleReloginKey sha256 m p rid dg a t2" for dg
      using p lk False by (auto simp: handleKey_def)
    have st: "stations (put_peer p' m) = stations m" by (rule stations_put_peer [OF ok p]) (simp add: p' rid)
    show ?thesis unfolding eq
      using r pw room st rid by (auto simp: handleReloginKey_def Let_def VerifyDigest_def p' stands_def authenticated_def)
  qed
qed

lemma handleConfig_registers:
  assumes "stands m rid a StateAuthenticated" "c_RepeaterID c = rid" "master_ok m"
  shows "stands (fst (handleConfig j m c a t)) rid a StateConfigured \<and>
    ou_Responses (snd (handleConfig j m c a t)) = \<lparr>re_To = a, re_Payload = Ack_AppendTo (putRepeaterID rid)\<rparr> #
      identity_reply j (ma_cfg m) c a t"
  using assms by (auto simp: stands_def handleConfig_def Let_def zero_outcome_def)

section \<open>The two together\<close>

text \<open>
  Datagrams in flight: what the link sent reaches the master from the link's address, and what the
  master answers to that address reaches the link, in order and without loss.
\<close>

fun master_hear :: "(byte list \<Rightarrow> byte list) \<Rightarrow> json \<Rightarrow> addr_port \<Rightarrow> time \<Rightarrow> byte list \<Rightarrow> master \<Rightarrow> byte list list \<Rightarrow>
    master \<times> byte list list" where
  "master_hear sha256 j a now salt m [] = (m, [])"
| "master_hear sha256 j a now salt m (b # bs) =
     (let (m1, out) = Handle sha256 j m b a now (Some salt); (m2, rs) = master_hear sha256 j a now salt m1 bs
      in (m2, map re_Payload (filter (\<lambda>r. re_To r = a) (ou_Responses out)) @ rs))"

fun link_hear :: "(byte list \<Rightarrow> byte list) \<Rightarrow> json \<Rightarrow> time \<Rightarrow> link \<Rightarrow> byte list list \<Rightarrow> link \<times> byte list list" where
  "link_hear sha256 j now l [] = (l, [])"
| "link_hear sha256 j now l (b # bs) =
     (let (l1, out) = link_Handle sha256 j l b now 0; (l2, ss) = link_hear sha256 j now l1 bs in (l2, lo_Send out @ ss))"

definition exchange_round :: "(byte list \<Rightarrow> byte list) \<Rightarrow> json \<Rightarrow> addr_port \<Rightarrow> byte list \<Rightarrow> time \<Rightarrow>
    link \<times> master \<times> byte list list \<Rightarrow> link \<times> master \<times> byte list list" where
  "exchange_round sha256 j a salt now s = (case s of (l, m, sent) \<Rightarrow>
     let (m1, rs) = master_hear sha256 j a now salt m sent; (l1, ss) = link_hear sha256 j now l rs in (l1, m1, ss))"

definition dial :: "(byte list \<Rightarrow> byte list) \<Rightarrow> json \<Rightarrow> addr_port \<Rightarrow> byte list \<Rightarrow> time list \<Rightarrow> link \<Rightarrow> time \<Rightarrow> master \<Rightarrow>
    link \<times> master \<times> byte list list" where
  "dial sha256 j a salt ts l t0 m =
     (let (l0, out) = Start l t0 in fold (exchange_round sha256 j a salt) ts (l0, m, lo_Send out))"

lemma Parse_Ack: "length p = 4 \<Longrightarrow> Parse j (Ack_AppendTo p) = Inr (Ack p)"
  using homebrew.parse_marshal [of "Ack p" j] by (simp add: wf_message_def Marshal_def)

lemma Parse_Key: "length d = 32 \<Longrightarrow> Parse j (Key_AppendTo rid d) = Inr (Key rid d)"
  using homebrew.parse_marshal [of "Key rid d" j] by (simp add: wf_message_def Marshal_def)

lemma Parse_any_config:
  assumes "first_octet (c_RepeaterID c) \<noteq> 0x4C"
  shows "\<exists>c'. Parse j (Config_AppendTo c) = Inr (Config c') \<and> c_RepeaterID c' = c_RepeaterID c"
proof -
  let ?b = "Config_AppendTo c"
  have len: "length ?b = 302" by (simp add: Config_AppendTo_def length_pad_fields config_fields_def config_widths_def)
  have "Parse j ?b = parseConfig ?b" using assms by (simp add: Config_AppendTo_def Parse_RPTC hasTag_C_L)
  moreover obtain f off where f: "read_fields ?b 8 config_widths = (f, off)" by fastforce
  moreover have "off = 302" using read_fields_inverse [OF _ f] len by (simp add: config_widths_def)
  moreover have "getID (drop 4 ?b) = c_RepeaterID c" by (simp add: Config_AppendTo_def getID_def putID_def)
  ultimately show ?thesis using len by (simp add: parseConfig_def config_of_def)
qed

lemma length_putRepeaterID [simp]: "length (putRepeaterID rid) = 4"
  by (simp add: putRepeaterID_def)

lemma link_Handle_bad: "Parse j b = Inl e \<Longrightarrow> hl_state (fst (link_Handle sha256 j l b now r)) = hl_state l \<and>
    lo_Send (snd (link_Handle sha256 j l b now r)) = []"
  by (simp add: link_Handle_def noted_def no_outcome_def)

lemma link_Handle_Identity: "Parse j b = Inr (Identity v) \<Longrightarrow> hl_state (fst (link_Handle sha256 j l b now r)) = hl_state l \<and>
    lo_Send (snd (link_Handle sha256 j l b now r)) = []"
  by (simp add: link_Handle_def noted_def no_outcome_def Let_def)

lemma identity_keeps_state:
  "hl_state (fst (link_hear sha256 j now l (map re_Payload (identity_reply j cfg c a t)))) = hl_state l \<and>
   snd (link_hear sha256 j now l (map re_Payload (identity_reply j cfg c a t))) = []"
proof -
  have "hl_state (fst (link_Handle sha256 j l (Identity_AppendTo j i) now 0)) = hl_state l \<and>
      lo_Send (snd (link_Handle sha256 j l (Identity_AppendTo j i) now 0)) = []" for i
  proof -
    have "Parse j (Identity_AppendTo j i) = parseIdentity j (Identity_AppendTo j i)"
      by (simp add: Identity_AppendTo_def Let_def Parse_tagged)
    moreover have "(\<exists>e. parseIdentity j b = Inl e) \<or> (\<exists>v. parseIdentity j b = Inr (Identity v))" for b
      by (auto simp: parseIdentity_def Let_def split: option.split)
    ultimately show ?thesis
      by (metis (no_types, lifting) link_Handle_Identity link_Handle_bad)
  qed
  then show ?thesis
    by (auto simp: identity_reply_def case_prod_unfold Let_def split: option.split)
qed

text \<open>The link's answer to an acknowledgement, in each state of the handshake.\<close>

lemma link_ack:
  assumes "length p = 4" "link_Handle sha256 j l (Ack_AppendTo p) now r = (l1, out)"
  shows "hl_cfg l1 = hl_cfg l"
    "hl_state l = StateLoggingIn \<Longrightarrow> hl_state l1 = StateAuthenticating \<and>
      lo_Send out = [Key_AppendTo (lg_RepeaterID (hl_cfg l)) (Digest sha256 p (lg_Password (hl_cfg l)))]"
    "hl_state l = StateAuthenticating \<Longrightarrow> hl_state l1 = StateConfiguring \<and> lo_Send out = [Config_AppendTo (link_config l)]"
    "hl_state l = StateConfiguring \<Longrightarrow> hl_state l1 = StateConnected \<and> lo_Send out = []"
proof -
  have "link_Handle sha256 j l (Ack_AppendTo p) now r = handleAck sha256 (l\<lparr>hl_lastHeard := now\<rparr>) p now"
    using Parse_Ack [OF assms(1)] by (simp add: link_Handle_def Let_def del: Ack_AppendTo_def)
  then have "handleAck sha256 (l\<lparr>hl_lastHeard := now\<rparr>) p now = (l1, out)" using assms(2) by simp
  moreover have "link_config (l\<lparr>hl_lastHeard := now\<rparr>) = link_config l" by (simp add: link_config_def)
  ultimately show "hl_cfg l1 = hl_cfg l"
    "hl_state l = StateLoggingIn \<Longrightarrow> hl_state l1 = StateAuthenticating \<and>
      lo_Send out = [Key_AppendTo (lg_RepeaterID (hl_cfg l)) (Digest sha256 p (lg_Password (hl_cfg l)))]"
    "hl_state l = StateAuthenticating \<Longrightarrow> hl_state l1 = StateConfiguring \<and> lo_Send out = [Config_AppendTo (link_config l)]"
    "hl_state l = StateConfiguring \<Longrightarrow> hl_state l1 = StateConnected \<and> lo_Send out = []"
    by (auto simp: handleAck_def enter_def moved_def noted_def no_outcome_def split: link_state.splits)
qed

lemma link_config_rid: "c_RepeaterID (link_config l) = lg_RepeaterID (hl_cfg l)"
  by (simp add: link_config_def Let_def)

lemma link_config_cfg: "hl_cfg l = hl_cfg l' \<Longrightarrow> link_config l = link_config l'"
  by (simp add: link_config_def)

text \<open>One exchange: the link sent one datagram and the master answers it.\<close>

lemma exchange_answer:
  assumes "Handle sha256 j m b a t (Some s) = (m1, answer a (Ack_AppendTo p))"
    and "link_Handle sha256 j l (Ack_AppendTo p) t 0 = (l1, out)"
  shows "exchange_round sha256 j a s t (l, m, [b]) = (l1, m1, lo_Send out)"
  using assms by (simp add: exchange_round_def answer_def zero_outcome_def del: Ack_AppendTo_def)

lemma exchange_config:
  assumes "Handle sha256 j m b a t (Some s) = (m1, out)" "hl_state l = StateConfiguring"
    and "ou_Responses out = \<lparr>re_To = a, re_Payload = Ack_AppendTo (putRepeaterID rid)\<rparr> # identity_reply j cfg c a t"
    and "exchange_round sha256 j a s t (l, m, [b]) = (l', m', sent)"
  shows "hl_state l' = StateConnected \<and> m' = m1 \<and> sent = []"
proof -
  have "filter (\<lambda>r. re_To r = a) (identity_reply j cfg c a t) = identity_reply j cfg c a t"
    by (auto simp: identity_reply_def split: option.split)
  moreover obtain l1 o1 where "link_Handle sha256 j l (Ack_AppendTo (putRepeaterID rid)) t 0 = (l1, o1)" by fastforce
  moreover from link_ack(4) [OF _ this] have "hl_state l1 = StateConnected" "lo_Send o1 = []" using assms(2) by simp_all
  moreover obtain l2 ss where "link_hear sha256 j t l1 (map re_Payload (identity_reply j cfg c a t)) = (l2, ss)" by fastforce
  ultimately show ?thesis
    using assms(1,3,4) identity_keeps_state [of sha256 j t l1 cfg c a t]
    by (auto simp: exchange_round_def simp del: Ack_AppendTo_def)
qed

text \<open>
  C22: The handshake completes.  A link with the password of its ID, whose ID is permitted and is not
  one the close tag shadows, whose address is not locked out, and for which the master has room,
  is connected after three exchanges, and the master then has that ID configured at the link's
  address, whatever the registry held before: another session of that ID, logins in progress for
  it from other addresses, or a table full of half-open logins.
\<close>

theorem handshake_completes:
  assumes ok: "master_ok m" and adm: "admissible m (lg_RepeaterID (hl_cfg l)) a t1"
    and pw: "\<forall>t. password_of (ma_cfg m) t (lg_RepeaterID (hl_cfg l)) = Some (lg_Password (hl_cfg l))"
    and tag: "first_octet (lg_RepeaterID (hl_cfg l)) \<noteq> 0x4C"
    and t: "t1 \<le> t2" "Sub t2 t1 \<le> mc_LoginTimeout (ma_cfg m)"
    and sha: "\<forall>b. length (sha256 b) = 32" and salt: "length s = 4"
    and run: "dial sha256 j a s [t1, t2, t3] l t0 m = (l', m', sent)"
  shows "hl_state l' = StateConnected \<and> sent = [] \<and>
    (\<exists>p. mget (ma_peers m') (lg_RepeaterID (hl_cfg l)) = Some p \<and> pe_State p = StateConfigured \<and> pe_Addr p = a)"
proof -
  let ?rid = "lg_RepeaterID (hl_cfg l)" and ?pw = "lg_Password (hl_cfg l)"
  define m1 where "m1 = fst (handleLogin m ?rid a t1 (Some s))"
  define dg where "dg = Digest sha256 s ?pw"
  define m2 where "m2 = fst (handleKey sha256 m1 ?rid dg a t2)"
  have h1: "awaited m1 ?rid a s t2" "Handle sha256 j m (Login_AppendTo ?rid) a t1 (Some s) = (m1, answer a (Ack_AppendTo s))"
    "ma_logins m1 = ma_logins m"
    using handleLogin_challenges [OF ok adm pw [rule_format] t(2), of s]
    by (auto simp: m1_def Handle_def Parse_Login [unfolded Login_AppendTo_def] intro!: prod_eqI)
  have ok1: "master_ok m1" and cfg1: "ma_cfg m1 = ma_cfg m"
    using ok_Handle [OF ok] Handle_cfg h1(2) by (metis fst_conv)+
  have "\<not> locked (ma_logins m1) a t2" using adm h1(3) locked_later [OF _ t(1)] by (simp add: admissible_def)
  from handleKey_admits [OF ok1 h1(1) this, of ?pw sha256]
  have h2: "stands m2 ?rid a StateAuthenticated"
    "Handle sha256 j m1 (Key_AppendTo ?rid dg) a t2 (Some s) = (m2, answer a (Ack_AppendTo (putRepeaterID ?rid)))"
    using pw cfg1 sha
    by (auto simp: m2_def dg_def Handle_def Parse_Key [unfolded Key_AppendTo_def] Digest_def intro!: prod_eqI)
  have ok2: "master_ok m2" using ok_Handle [OF ok1] h2(2) by (metis fst_conv)
  obtain l0 where l0: "Start l t0 = (l0, moved [Login_AppendTo ?rid] (LoggingInAgain False))" "hl_state l0 = StateLoggingIn"
    "hl_cfg l0 = hl_cfg l" by (simp add: Start_def login_def enter_def)
  obtain l1 o1 where l1: "link_Handle sha256 j l0 (Ack_AppendTo s) t1 0 = (l1, o1)" by fastforce
  note a1 = link_ack(1) [OF salt l1] link_ack(2) [OF salt l1 l0(2)]
  obtain l2 o2 where l2: "link_Handle sha256 j l1 (Ack_AppendTo (putRepeaterID ?rid)) t2 0 = (l2, o2)" by fastforce
  have a2: "hl_state l2 = StateConfiguring" "lo_Send o2 = [Config_AppendTo (link_config l)]"
    using link_ack(3) [OF _ l2] a1 link_config_cfg [of l1 l] l0(3) by auto
  obtain c where c: "Parse j (Config_AppendTo (link_config l)) = Inr (Config c)" "c_RepeaterID c = ?rid"
    using Parse_any_config [of "link_config l" j] tag link_config_rid [of l] by metis
  have h3: "Handle sha256 j m2 (Config_AppendTo (link_config l)) a t3 (Some s) = handleConfig j m2 c a t3"
    using c by (simp add: Handle_def)
  have conf: "stands (fst (handleConfig j m2 c a t3)) ?rid a StateConfigured"
    "ou_Responses (snd (handleConfig j m2 c a t3)) = \<lparr>re_To = a, re_Payload = Ack_AppendTo (putRepeaterID ?rid)\<rparr> #
      identity_reply j (ma_cfg m2) c a t3"
    using handleConfig_registers [OF h2(1) c(2) ok2] by auto
  have "exchange_round sha256 j a s t3 (l2, m2, [Config_AppendTo (link_config l)]) = (l', m', sent)"
    using run exchange_answer [OF h1(2) l1] exchange_answer [OF h2(2) l2] a1 a2 l0
    by (simp add: dial_def moved_def no_outcome_def dg_def del: Ack_AppendTo_def Key_AppendTo_def Login_AppendTo_def)
  from exchange_config [OF h3 [THEN trans, OF prod.collapse [symmetric]] a2(1) conf(2) this] conf(1)
  show ?thesis by (auto simp: stands_def)
qed

lemma demo_master_password: "password_of (ma_cfg demo_master) t rid = Some [1, 2, 3]"
proof -
  have "mc_Password (ma_cfg demo_master) = mc_Password demo_cfg"
    by (simp add: demo_master_def NewMaster_def demo_cfg_def seedStaticAttachments_def with_defaults_def)
  then show ?thesis by (simp add: password_of_def demo_cfg_def)
qed

theorem handshake_completes_witness:
  "\<exists>l' m'. dial demo_sha demo_json (demo_addr 5) [9, 8, 7, 6] [30, 31, 32] dialled_link 29 demo_master = (l', m', []) \<and>
     hl_state l' = StateConnected \<and> map_option pe_Addr (mget (ma_peers m') 9) = Some (demo_addr 5)"
proof -
  obtain l' m' sent where run:
    "dial demo_sha demo_json (demo_addr 5) [9, 8, 7, 6] [30, 31, 32] dialled_link 29 demo_master = (l', m', sent)"
    using prod_cases3 by blast
  have rid: "lg_RepeaterID (hl_cfg dialled_link) = 9" by code_simp
  have "admissible demo_master (lg_RepeaterID (hl_cfg dialled_link)) (demo_addr 5) 30" by code_simp
  moreover have "\<forall>t. password_of (ma_cfg demo_master) t (lg_RepeaterID (hl_cfg dialled_link)) = Some (lg_Password (hl_cfg dialled_link))"
    unfolding demo_master_password by (rule allI) code_simp
  moreover have "first_octet (lg_RepeaterID (hl_cfg dialled_link)) \<noteq> 0x4C" by code_simp
  moreover have "Sub 31 30 \<le> mc_LoginTimeout (ma_cfg demo_master)" by code_simp
  moreover have "\<forall>b. length (demo_sha b) = 32" by (auto simp: demo_sha_def min_def)
  ultimately show ?thesis
    using handshake_completes [OF demo_master_ok _ _ _ _ _ _ _ run] run rid by (force simp: rid)
qed

end
