(* ===== verification/Dmr_Bits.thy ===== *)
theory Dmr_Bits
  imports Prelude
begin

text \<open>
  The bit-level helpers of \<^verbatim>\<open>internal/dmrfec\<close>: octets to bits and back (\<^verbatim>\<open>burst.go\<close>), bits to a word and
  back (\<^verbatim>\<open>ambe.go\<close>), and the bit fields of an octet string (\<^verbatim>\<open>ipsc.go\<close>).  As in the code, a string of
  bits is a list of bytes that are 0 or 1 (\<open>is_bits\<close>).

  Every lemma about them says which bit of the result is which bit of the argument: \<open>get_bit\<close> numbers
  the bits of an octet string the way the air does, most significant first, and \<open>octets_eqI\<close> reduces
  an equation between octet strings to their bits.
\<close>

section \<open>Definitions\<close>

definition BurstBits :: nat where
  "BurstBits = 264"

definition BurstBytes :: nat where
  "BurstBytes = 33"

definition SyncOffset :: nat where
  "SyncOffset = 108"

definition SyncBits :: nat where
  "SyncBits = 48"

definition VoiceSyncBS :: u64 where
  "VoiceSyncBS = 0x755FD7DF75F7"

definition octet_bits :: "byte \<Rightarrow> byte list" where
  "octet_bits b = map (\<lambda>i. drop_bit i b AND 1) [7, 6, 5, 4, 3, 2, 1, 0]"

definition BurstBitsFrom :: "byte list \<Rightarrow> byte list" where
  "BurstBitsFrom burst = concat (map octet_bits burst)"

text \<open>
  \<open>or_bit\<close> is the statement \<^verbatim>\<open>out[i/8] |= 1 << uint(7-i%8)\<close>.  The code never runs it past the end of
  \<open>out\<close>, where Go would panic and a list update does nothing.
\<close>

definition or_bit :: "nat \<Rightarrow> byte list \<Rightarrow> byte list" where
  "or_bit i out = out[i div 8 := out ! (i div 8) OR push_bit (7 - i mod 8) 1]"

definition pack_octets :: "(byte \<Rightarrow> bool) \<Rightarrow> nat \<Rightarrow> byte list \<Rightarrow> byte list" where
  "pack_octets on n bits =
     fold (\<lambda>ib out. if on (snd ib) then or_bit (fst ib) out else out) (enumerate 0 bits) (replicate n 0)"

definition BurstBytesFrom :: "byte list \<Rightarrow> byte list" where
  "BurstBytesFrom bits = pack_octets (\<lambda>b. b AND 1 = 1) BurstBytes bits"

text \<open>\<open>pack_word\<close> is the loop \<^verbatim>\<open>v = v<<1 | uint(x&1)\<close>, at the width of its result.\<close>

definition pack_word :: "byte list \<Rightarrow> 'a::len word" where
  "pack_word bs = foldl (\<lambda>v x. push_bit 1 v OR ucast (x AND 1)) 0 bs"

definition packBits :: "byte list \<Rightarrow> u32" where
  "packBits b = pack_word b"

text \<open>\<open>unpack_word\<close> is the loop \<^verbatim>\<open>byte(v>>uint(n-1-i)) & 1\<close> for \<open>i\<close> from 0 to \<open>n - 1\<close>.\<close>

definition unpack_word :: "'a::len word \<Rightarrow> nat \<Rightarrow> byte list" where
  "unpack_word v n = map (\<lambda>i. ucast (drop_bit (n - 1 - i) v) AND 1) [0..<n]"

definition unpackBits :: "u32 \<Rightarrow> nat \<Rightarrow> byte list" where
  "unpackBits v n = unpack_word v n"

definition readBits :: "byte list \<Rightarrow> nat \<Rightarrow> nat \<Rightarrow> u64" where
  "readBits b off n =
     foldl (\<lambda>v i. push_bit 1 v OR ucast (drop_bit (7 - (off + i) mod 8) (b ! ((off + i) div 8)) AND 1)) 0 [0..<n]"

definition writeBits :: "byte list \<Rightarrow> nat \<Rightarrow> nat \<Rightarrow> u64 \<Rightarrow> byte list" where
  "writeBits b off n v = fold (\<lambda>i b. if drop_bit (n - 1 - i) v AND 1 = 1 then or_bit (off + i) b else b) [0..<n] b"

text \<open>Go's \<^verbatim>\<open>xs[a:b]\<close>.\<close>

definition subslice :: "nat \<Rightarrow> nat \<Rightarrow> 'a list \<Rightarrow> 'a list" where
  "subslice a b xs = take (b - a) (drop a xs)"

section \<open>Which bit is which\<close>

definition is_bits :: "byte list \<Rightarrow> bool" where
  "is_bits bs \<longleftrightarrow> (\<forall>x \<in> set bs. x = 0 \<or> x = 1)"

definition get_bit :: "byte list \<Rightarrow> nat \<Rightarrow> bool" where
  "get_bit b i = bit (b ! (i div 8)) (7 - i mod 8)"

named_theorems nth_bit \<open>which bit of the argument a bit of the result is\<close>

lemma and_one_bit [simp]: "(w AND 1 = (1 :: 'a::len word)) \<longleftrightarrow> bit w 0" "(1 = w AND 1) \<longleftrightarrow> bit w 0"
  by (auto simp: and_one_eq bit_0 mod2_eq_if)

lemma and_one_of_bool: "w AND 1 = (of_bool (bit w 0) :: 'a::len word)"
  by (simp add: and_one_eq bit_0 mod2_eq_if)

lemma bit0_of_bool [simp]: "bit (of_bool P :: 'a::len word) 0 = P"
  by simp

lemma is_bits_append [simp]: "is_bits (a @ b) \<longleftrightarrow> is_bits a \<and> is_bits b"
  by (auto simp: is_bits_def)

lemma is_bits_Nil [simp]: "is_bits []"
  by (simp add: is_bits_def)

lemma is_bits_Cons [simp]: "is_bits (x # xs) \<longleftrightarrow> (x = 0 \<or> x = 1) \<and> is_bits xs"
  by (simp add: is_bits_def)

lemma is_bits_take [simp]: "is_bits a \<Longrightarrow> is_bits (take n a)"
  by (auto simp: is_bits_def dest: in_set_takeD)

lemma is_bits_drop [simp]: "is_bits a \<Longrightarrow> is_bits (drop n a)"
  by (auto simp: is_bits_def dest: in_set_dropD)

lemma is_bits_of_bool [simp]: "is_bits (map (\<lambda>i. of_bool (P i)) xs)"
  by (auto simp: is_bits_def)

lemma is_bits_nth: "is_bits a \<Longrightarrow> i < length a \<Longrightarrow> a ! i = of_bool (bit (a ! i) 0)"
  by (auto simp: is_bits_def) (metis bit_0 nth_mem odd_one of_bool_eq(1,2) bit_0_eq bot_apply bot_bool_def)

lemma is_bits_neq:
  assumes "is_bits f" "is_bits g" "i < length f" "j < length g"
  shows "f ! i \<noteq> g ! j \<longleftrightarrow> bit (f ! i) 0 \<and> \<not> bit (g ! j) 0 \<or> bit (g ! j) 0 \<and> \<not> bit (f ! i) 0"
proof -
  have "f ! i = 0 \<or> f ! i = 1" "g ! j = 0 \<or> g ! j = 1" using assms nth_mem by (auto simp: is_bits_def)
  then show ?thesis by auto
qed

lemma octets_eqI:
  assumes "length a = length b" "\<And>i. i < 8 * length a \<Longrightarrow> get_bit a i = get_bit b i"
  shows "a = b"
proof (rule nth_equalityI)
  fix k assume k: "k < length a"
  show "a ! k = b ! k"
  proof (rule bit_word_eqI)
    fix n assume "n < LENGTH(8)"
    then have "7 - n < 8" "n = 7 - (7 - n)" by auto
    then obtain m where m: "m < 8" "n = 7 - m" by blast
    with assms(2) [of "8 * k + m"] k show "bit (a ! k) n = bit (b ! k) n" by (simp add: get_bit_def)
  qed
qed (rule assms(1))

lemma bits_eqI:
  assumes "length a = length b" "is_bits a" "is_bits b" "\<And>i. i < length a \<Longrightarrow> bit (a ! i) 0 = bit (b ! i) 0"
  shows "a = b"
proof (rule nth_equalityI)
  show "a ! i = b ! i" if "i < length a" for i
    using that assms is_bits_nth [of a i] is_bits_nth [of b i] by simp
qed (rule assms(1))

lemma octet_bits_eq: "octet_bits b = map (\<lambda>i. of_bool (bit b (7 - i))) [0..<8]"
  by (simp add: octet_bits_def and_one_of_bool bit_drop_bit_eq upt_rec)

lemma BurstBitsFrom_eq: "BurstBitsFrom b = map (\<lambda>i. of_bool (get_bit b i)) [0..<8 * length b]"
proof (induction b rule: rev_induct)
  case (snoc x xs)
  have "[0..<8 * length (xs @ [x])] = [0..<8 * length xs] @ map (\<lambda>i. 8 * length xs + i) [0..<8]"
    using upt_add_eq_append [of 0 "8 * length xs" 8] map_add_upt [of "8 * length xs" 8] by (simp add: add.commute)
  then show ?case
    using snoc by (auto simp: BurstBitsFrom_def octet_bits_eq get_bit_def nth_append cong: map_cong)
qed (simp add: BurstBitsFrom_def)

lemma length_BurstBitsFrom [simp]: "length (BurstBitsFrom b) = 8 * length b"
  by (simp add: BurstBitsFrom_eq)

lemma is_bits_BurstBitsFrom [simp]: "is_bits (BurstBitsFrom b)"
  by (simp add: BurstBitsFrom_eq)

lemma nth_BurstBitsFrom [nth_bit]: "i < 8 * length b \<Longrightarrow> BurstBitsFrom b ! i = of_bool (get_bit b i)"
  by (simp add: BurstBitsFrom_eq)

lemma length_or_bit [simp]: "length (or_bit i out) = length out"
  by (simp add: or_bit_def)

lemma bit_exp_word [simp]: "bit (2 ^ n :: 'a::len word) m \<longleftrightarrow> m = n \<and> n < LENGTH('a)"
  by (auto simp: bit_simps)

lemma get_bit_or_bit [nth_bit]:
  assumes "i < 8 * length out" "j < 8 * length out"
  shows "get_bit (or_bit i out) j \<longleftrightarrow> j = i \<or> get_bit out j"
proof (cases "j div 8 = i div 8")
  case True
  have "7 - j mod 8 = 7 - i mod 8 \<longleftrightarrow> j mod 8 = i mod 8"
    using mod_less_divisor [of 8 i] mod_less_divisor [of 8 j] by linarith
  also have "\<dots> \<longleftrightarrow> j = i" using True by (metis div_mult_mod_eq)
  finally have *: "7 - j mod 8 = 7 - i mod 8 \<longleftrightarrow> j = i" .
  have "j div 8 < length out" using assms(2) by (simp add: div_less_iff_less_mult)
  then show ?thesis using True * by (auto simp: get_bit_def or_bit_def bit_or_iff)
next
  case False
  then show ?thesis by (auto simp: get_bit_def or_bit_def)
qed

lemma fold_or_bit:
  assumes "\<forall>i \<in> set is. P i \<longrightarrow> f i < 8 * length out"
  shows "length (fold (\<lambda>i out. if P i then or_bit (f i) out else out) is out) = length out \<and>
    (\<forall>j < 8 * length out. get_bit (fold (\<lambda>i out. if P i then or_bit (f i) out else out) is out) j \<longleftrightarrow>
       get_bit out j \<or> (\<exists>i \<in> set is. P i \<and> f i = j))"
  using assms
proof (induction "is" arbitrary: out)
  case (Cons a "is")
  show ?case
    using Cons.IH [of "if P a then or_bit (f a) out else out"] Cons.prems by (auto simp: get_bit_or_bit)
qed simp

lemma get_bit_zeros [simp]: "i < 8 * n \<Longrightarrow> \<not> get_bit (replicate n 0) i"
  by (simp add: get_bit_def div_less_iff_less_mult mult.commute)

lemma pack_octets_bits:
  assumes "length bits \<le> 8 * n"
  shows "length (pack_octets on n bits) = n \<and>
    (\<forall>i < 8 * n. get_bit (pack_octets on n bits) i \<longleftrightarrow> i < length bits \<and> on (bits ! i))"
proof -
  have "\<forall>ib \<in> set (enumerate 0 bits). on (snd ib) \<longrightarrow> fst ib < 8 * length (replicate n (0 :: byte))"
    using assms by (auto simp: in_set_enumerate_eq)
  from fold_or_bit [OF this] show ?thesis
    unfolding pack_octets_def by (auto simp: in_set_enumerate_eq intro: bexI [of _ "(i, bits ! i)" for i])
qed

lemma length_pack_octets [simp]: "length bits \<le> 8 * n \<Longrightarrow> length (pack_octets on n bits) = n"
  using pack_octets_bits by blast

lemma get_bit_pack_octets [nth_bit]:
  "length bits \<le> 8 * n \<Longrightarrow> i < 8 * n \<Longrightarrow> get_bit (pack_octets on n bits) i \<longleftrightarrow> i < length bits \<and> on (bits ! i)"
  using pack_octets_bits by blast

lemma length_BurstBytesFrom [simp]: "length bits \<le> 264 \<Longrightarrow> length (BurstBytesFrom bits) = 33"
  by (simp add: BurstBytesFrom_def BurstBytes_def)

lemma get_bit_BurstBytesFrom [nth_bit]:
  "length bits \<le> 264 \<Longrightarrow> i < 264 \<Longrightarrow> get_bit (BurstBytesFrom bits) i \<longleftrightarrow> i < length bits \<and> bit (bits ! i) 0"
  by (simp add: BurstBytesFrom_def BurstBytes_def get_bit_pack_octets)

lemma BurstBytesFrom_BurstBitsFrom: "length b = 33 \<Longrightarrow> BurstBytesFrom (BurstBitsFrom b) = b"
  by (rule octets_eqI) (simp_all add: nth_bit)

lemma BurstBitsFrom_BurstBytesFrom: "length bs = 264 \<Longrightarrow> is_bits bs \<Longrightarrow> BurstBitsFrom (BurstBytesFrom bs) = bs"
  by (rule bits_eqI) (simp_all add: nth_bit)

lemma pack_word_Nil [simp]: "pack_word [] = 0"
  by (simp add: pack_word_def)

lemma pack_word_snoc: "pack_word (xs @ [x]) = push_bit 1 (pack_word xs) OR of_bool (bit x 0)"
  by (simp add: pack_word_def and_one_of_bool)

lemma bit_pack_word [nth_bit]:
  "bit (pack_word bs :: 'a::len word) k \<longleftrightarrow> k < length bs \<and> k < LENGTH('a) \<and> bit (bs ! (length bs - 1 - k)) 0"
proof (induction bs arbitrary: k rule: rev_induct)
  case (snoc x xs)
  show ?case
    unfolding pack_word_snoc bit_or_iff bit_push_bit_iff snoc
    by (cases k) (auto simp: nth_append bit_of_bool_iff possible_bit_def Suc_diff_Suc)
qed simp

lemma length_unpack_word [simp]: "length (unpack_word v n) = n"
  by (simp add: unpack_word_def)

lemma unpack_word_eq: "unpack_word v n = map (\<lambda>i. of_bool (bit v (n - 1 - i))) [0..<n]"
  by (simp add: unpack_word_def and_one_of_bool bit_drop_bit_eq bit_ucast_iff)

lemma is_bits_unpack_word [simp]: "is_bits (unpack_word v n)"
  by (simp add: unpack_word_eq)

lemma nth_unpack_word [nth_bit]: "i < n \<Longrightarrow> unpack_word v n ! i = of_bool (bit v (n - 1 - i))"
  by (simp add: unpack_word_eq)

lemma pack_unpack_word: "n \<le> LENGTH('a) \<Longrightarrow> pack_word (unpack_word (v :: 'a::len word) n) = take_bit n v"
  by (rule bit_word_eqI) (auto simp: nth_bit bit_take_bit_iff)

lemma unpack_pack_word:
  "is_bits bs \<Longrightarrow> length bs \<le> LENGTH('a) \<Longrightarrow> unpack_word (pack_word bs :: 'a::len word) (length bs) = bs"
  by (rule bits_eqI) (auto simp: nth_bit)

lemma readBits_eq: "readBits b off n = pack_word (map (\<lambda>i. of_bool (get_bit b (off + i))) [0..<n])"
  by (simp add: readBits_def pack_word_def foldl_map get_bit_def and_one_of_bool bit_drop_bit_eq)

lemma bit_readBits [nth_bit]: "n \<le> 64 \<Longrightarrow> bit (readBits b off n) k \<longleftrightarrow> k < n \<and> get_bit b (off + (n - 1 - k))"
  by (auto simp: readBits_eq nth_bit)

lemma length_writeBits [simp]: "off + n \<le> 8 * length b \<Longrightarrow> length (writeBits b off n v) = length b"
  using fold_or_bit [of "[0..<n]" "\<lambda>i. drop_bit (n - 1 - i) v AND 1 = 1" "\<lambda>i. off + i" b] by (simp add: writeBits_def)

lemma get_bit_writeBits [nth_bit]:
  assumes "off + n \<le> 8 * length b" "j < 8 * length b"
  shows "get_bit (writeBits b off n v) j \<longleftrightarrow> get_bit b j \<or> off \<le> j \<and> j < off + n \<and> bit v (n - 1 - (j - off))"
proof -
  have "get_bit (writeBits b off n v) j \<longleftrightarrow> get_bit b j \<or> (\<exists>i \<in> set [0..<n]. bit v (n - 1 - i) \<and> off + i = j)"
    using fold_or_bit [of "[0..<n]" "\<lambda>i. drop_bit (n - 1 - i) v AND 1 = 1" "\<lambda>i. off + i" b] assms
    by (simp add: writeBits_def bit_drop_bit_eq)
  then show ?thesis by (auto simp: le_iff_add)
qed

section \<open>Slices, widths and write-once loops\<close>

lemma length_subslice [simp]: "b \<le> length xs \<Longrightarrow> length (subslice a b xs) = b - a"
  by (simp add: subslice_def)

lemma nth_subslice [simp]: "i < b - a \<Longrightarrow> b \<le> length xs \<Longrightarrow> subslice a b xs ! i = xs ! (a + i)"
  by (simp add: subslice_def)

lemma is_bits_subslice [simp]: "is_bits xs \<Longrightarrow> is_bits (subslice a b xs)"
  by (simp add: subslice_def)

lemma subslice_append_skip: "length xs \<le> a \<Longrightarrow> subslice a b (xs @ ys) = subslice (a - length xs) (b - length xs) ys"
  by (simp add: subslice_def)

lemma subslice_append_take: "a \<le> b \<Longrightarrow> b \<le> length xs \<Longrightarrow> subslice a b (xs @ ys) = subslice a b xs"
  by (simp add: subslice_def)

lemma subslice_whole: "length xs = b \<Longrightarrow> subslice 0 b xs = xs"
  by (simp add: subslice_def)

lemma subslice_subslice: "a \<le> c \<Longrightarrow> d \<le> b \<Longrightarrow> subslice a b xs = subslice a b ys \<Longrightarrow> subslice c d xs = subslice c d ys"
proof -
  assume h: "a \<le> c" "d \<le> b" "subslice a b xs = subslice a b ys"
  have "subslice c d zs = subslice (c - a) (d - a) (subslice a b zs)" for zs :: "'a list"
    using h(1,2) by (simp add: subslice_def drop_take take_take min_def)
  with h(3) show ?thesis by simp
qed

lemma bit_small: "bit s n \<Longrightarrow> take_bit m s = s \<Longrightarrow> n < m" for s :: "'a::len word"
  by (metis bit_take_bit_iff)

lemma small_iff: "take_bit n w = w \<longleftrightarrow> (\<forall>k. bit w k \<longrightarrow> k < n)" for w :: "'a::len word"
  by (auto dest: bit_small intro!: bit_word_eqI simp: bit_take_bit_iff)

text \<open>A loop that writes each element of a result once.\<close>

lemma fold_list_update:
  assumes "distinct is" "inj_on f (set is)" "\<forall>i \<in> set is. f i < length out"
  shows "length (fold (\<lambda>i out. out[f i := h i]) is out) = length out \<and>
    (\<forall>i \<in> set is. fold (\<lambda>i out. out[f i := h i]) is out ! f i = h i) \<and>
    (\<forall>j. j \<notin> f ` set is \<longrightarrow> fold (\<lambda>i out. out[f i := h i]) is out ! j = out ! j)"
  using assms
proof (induction "is" arbitrary: out)
  case (Cons a "is")
  have "f a \<notin> f ` set is" using Cons.prems by (auto simp: inj_on_def)
  then show ?case using Cons.IH [of "out[f a := h a]"] Cons.prems by auto
qed simp

lemma and_push_bit_iff: "(r AND push_bit i 1 \<noteq> (0 :: 'a::len word)) \<longleftrightarrow> bit r i"
proof -
  have "r AND push_bit i 1 = push_bit i (of_bool (bit r i))"
    by (rule bit_word_eqI) (auto simp: bit_simps)
  then show ?thesis by (auto dest: bit_imp_le_length)
qed

lemma small_unat: "unat w < 2 ^ n \<longleftrightarrow> take_bit n w = w" for w :: "'a::len word"
  by (metis take_bit_nat_eq_self_iff unsigned_take_bit_eq unsigned_word_eqI)

lemma nibble: "\<not> (15 < b) \<longleftrightarrow> take_bit 4 b = b" for b :: byte
  unfolding small_unat [symmetric] word_less_nat_alt by simp linarith

lemma pack_word_foldl:
  "is_bits (map f is) \<Longrightarrow> foldl (\<lambda>v i. push_bit 1 v OR ucast (f i)) (pack_word xs :: 'a::len word) is = pack_word (xs @ map f is)"
proof (induction "is" arbitrary: xs)
  case (Cons i "is")
  have "push_bit 1 (pack_word xs) OR ucast (f i) = (pack_word (xs @ [f i]) :: 'a word)"
    using Cons.prems by (auto simp: pack_word_def)
  then show ?case using Cons.IH [of "xs @ [f i]"] Cons.prems by simp
qed simp

end
