(* ===== verification/Linear_Codes.thy ===== *)
theory Linear_Codes
  imports Dmr_Bits
begin

text \<open>
  What the block codes of \<^verbatim>\<open>internal/dmrfec\<close> have in common.  \<open>popcount\<close> is the code's own loop, proved
  to count the bits that are set; \<open>linear_code\<close> is the contract of an encoder that is linear over XOR,
  and inside it the minimum distance of a code follows from a check of its rows (\<open>min_weight\<close>) that
  the kernel evaluates: it walks every combination of the rows of the generator matrix.
\<close>

section \<open>popcount\<close>

lemma and_minus_one_less: "v \<noteq> 0 \<Longrightarrow> unat (v AND (v - 1) :: u32) < unat v"
proof -
  assume v: "v \<noteq> 0"
  have "unat (v AND (v - 1)) \<le> unat (v - 1)" using word_and_le1 [of v "v - 1"] by (simp add: word_le_nat_alt and.commute)
  also have "\<dots> < unat v" using v unat_minus_one [of v] by (simp add: unat_gt_0)
  finally show ?thesis .
qed

function popcount :: "u32 \<Rightarrow> nat" where
  "popcount v = (if v = 0 then 0 else Suc (popcount (v AND (v - 1))))"
  by pat_completeness auto
termination
  by (relation "measure unat") (auto simp: and_minus_one_less)

declare popcount.simps [simp del]

definition ones :: "u32 \<Rightarrow> nat set" where
  "ones v = {k. bit v k}"

fun nweight :: "nat \<Rightarrow> nat" where
  "nweight n = (if n = 0 then 0 else n mod 2 + nweight (n div 2))"

declare nweight.simps [simp del]

lemma nweight_0 [simp]: "nweight 0 = 0"
  by (subst nweight.simps) simp

lemma nweight_double [simp]: "nweight (2 * n) = nweight n" "nweight (Suc (2 * n)) = Suc (nweight n)"
  using nweight.simps [of "2 * n"] nweight.simps [of "Suc (2 * n)"] by (cases "n = 0"; simp)+

lemma nweight_clear: "0 < n \<Longrightarrow> Suc (nweight (n AND (n - 1))) = nweight n"
proof (induction n rule: less_induct)
  case (less n)
  show ?case
  proof (cases "even n")
    case True
    then obtain m where m: "n = 2 * m" "0 < m" using less.prems by (auto elim: evenE)
    then have "(n - 1) div 2 = m - 1" by linarith
    then have "n AND (n - 1) = 2 * (m AND (m - 1))"
      by (subst and_nat_rec) (use m in simp)
    then show ?thesis using less.IH [of m] m by simp
  next
    case False
    then obtain m where m: "n = Suc (2 * m)" by (auto elim: oddE)
    have "n AND (n - 1) = 2 * (m AND m)"
      by (subst and_nat_rec) (use m in simp)
    then show ?thesis using m by simp
  qed
qed

lemma nweight_card: "nweight n = card {k. bit n k} \<and> finite {k. bit n k}"
proof (induction n rule: less_induct)
  case (less n)
  show ?case
  proof (cases "n = 0")
    case False
    have "{k. bit n k} = (if odd n then {0} else {}) \<union> Suc ` {k. bit (n div 2) k}"
      by (auto simp: bit_Suc bit_0 image_iff split: if_splits) (metis bit_0 bit_Suc not0_implies_Suc)+
    moreover have "nweight n = n mod 2 + nweight (n div 2)" using False by (subst nweight.simps) simp
    ultimately show ?thesis
      using less [of "n div 2"] False by (auto simp: card_image card_insert_if odd_iff_mod_2_eq_one even_iff_mod_2_eq_zero)
  qed simp
qed

lemma finite_ones [simp]: "finite (ones v)"
  by (rule finite_subset [of _ "{..<32}"]) (auto simp: ones_def dest: bit_imp_le_length)

lemma popcount_nweight: "popcount v = nweight (unat v)"
proof (induction v rule: popcount.induct)
  case (1 v)
  show ?case
  proof (cases "v = 0")
    case False
    then have "unat (v AND (v - 1)) = unat v AND (unat v - 1)" "0 < unat v"
      by (simp_all add: unsigned_and_eq unat_minus_one unat_gt_0)
    then show ?thesis using False 1 nweight_clear [of "unat v"] by (simp add: popcount.simps [of v])
  qed (simp add: popcount.simps)
qed

lemma popcount_card: "popcount v = card (ones v)"
proof -
  have "{k. bit (unat v) k} = ones v" by (auto simp: ones_def bit_unsigned_iff)
  then show ?thesis using nweight_card [of "unat v"] by (simp add: popcount_nweight)
qed

lemma ones_xor: "ones (a XOR b) = (ones a - ones b) \<union> (ones b - ones a)"
  by (auto simp: ones_def bit_xor_iff)

lemma ones_empty [simp]: "ones v = {} \<longleftrightarrow> v = 0"
  unfolding ones_def by (auto intro: bit_word_eqI)

lemma popcount_0 [simp]: "popcount 0 = 0"
  by (simp add: popcount.simps)

lemma popcount_0_iff [simp]: "popcount v = 0 \<longleftrightarrow> v = 0"
  by (simp add: popcount_card)

lemma popcount_xor_le: "popcount (a XOR b) \<le> popcount a + popcount b"
proof -
  have "card (ones (a XOR b)) \<le> card (ones a \<union> ones b)" by (rule card_mono) (auto simp: ones_xor)
  also have "\<dots> \<le> card (ones a) + card (ones b)" by (rule card_Un_le)
  finally show ?thesis by (simp add: popcount_card)
qed

section \<open>The weight of every combination of rows\<close>

definition word_bits :: "u32 \<Rightarrow> bool list" where
  "word_bits w = map (bit w) [0..<32]"

fun xorl :: "bool list \<Rightarrow> bool list \<Rightarrow> bool list" where
  "xorl (x # xs) (y # ys) = (x \<noteq> y) # xorl xs ys"
| "xorl _ _ = []"

fun heavy :: "nat \<Rightarrow> bool list \<Rightarrow> bool" where
  "heavy 0 _ = True"
| "heavy (Suc n) [] = False"
| "heavy (Suc n) (b # bs) = (if b then heavy n bs else heavy (Suc n) bs)"

fun all_heavy :: "nat \<Rightarrow> bool list list \<Rightarrow> bool list \<Rightarrow> bool" where
  "all_heavy n [] acc = heavy n acc"
| "all_heavy n (r # rs) acc = (all_heavy n rs acc \<and> all_heavy n rs (xorl acc r))"

fun min_weight :: "nat \<Rightarrow> bool list list \<Rightarrow> bool" where
  "min_weight n [] = True"
| "min_weight n (r # rs) = (all_heavy n rs r \<and> min_weight n rs)"

lemma heavy_iff: "heavy n bs \<longleftrightarrow> n \<le> length (filter id bs)"
  by (induction n bs rule: heavy.induct) auto

lemma heavy_popcount: "heavy n (word_bits w) \<longleftrightarrow> n \<le> popcount w"
proof -
  have "length (filter id (word_bits w)) = card (set (filter (bit w) [0..<32]))"
    by (subst distinct_card) (simp_all add: word_bits_def filter_map o_def)
  also have "set (filter (bit w) [0..<32]) = ones w" by (auto simp: ones_def dest: bit_imp_le_length)
  finally show ?thesis unfolding heavy_iff popcount_card by (simp add: id_def)
qed

lemma xorl_map: "xorl (map f xs) (map g xs) = map (\<lambda>x. f x \<noteq> g x) xs"
  by (induction xs) auto

lemma word_bits_xor: "word_bits (a XOR b) = xorl (word_bits a) (word_bits b)"
  by (simp add: word_bits_def xorl_map bit_xor_iff)

section \<open>Linear codes\<close>

definition row_bits :: "(u32 \<Rightarrow> u32) \<Rightarrow> nat \<Rightarrow> nat \<Rightarrow> bool list list" where
  "row_bits enc k j = map (\<lambda>i. word_bits (enc (push_bit i 1))) [j..<k]"

text \<open>An encoder of \<open>k\<close> information bits that is linear over XOR.\<close>

locale linear_code =
  fixes enc :: "u32 \<Rightarrow> u32" and k :: nat
  assumes enc_xor: "enc (a XOR b) = enc a XOR enc b"
begin

lemma row_bits_Cons: "j < k \<Longrightarrow> row_bits enc k j = word_bits (enc (push_bit j 1)) # row_bits enc k (Suc j)"
  by (simp add: row_bits_def upt_conv_Cons)

lemma split_bit:
  assumes "ones d \<subseteq> {j..<k}" "k \<le> 32"
  obtains "ones d \<subseteq> {Suc j..<k}" | d' where "d = push_bit j 1 XOR d'" "ones d' \<subseteq> {Suc j..<k}" "j < k"
proof (cases "bit d j")
  case True
  then have "j < k" using assms by (auto simp: ones_def)
  moreover have "d = push_bit j 1 XOR (push_bit j 1 XOR d)" by (simp flip: xor.assoc)
  moreover have "ones (push_bit j 1 XOR d) \<subseteq> {Suc j..<k}"
    using assms True by (auto simp: ones_def bit_xor_iff less_eq_Suc_le [symmetric] order_less_le)
  ultimately show ?thesis using that(2) by blast
next
  case False
  then have "ones d \<subseteq> {Suc j..<k}"
    using assms by (auto simp: ones_def less_eq_Suc_le [symmetric] order_less_le)
  then show ?thesis by (rule that(1))
qed

lemma all_heavy_sound:
  assumes "k \<le> 32" "all_heavy n (row_bits enc k j) (word_bits (enc a))" "ones d \<subseteq> {j..<k}"
  shows "n \<le> popcount (enc (a XOR d))"
  using assms(2,3)
proof (induction "k - j" arbitrary: j a d)
  case 0
  then have "d = 0" by (auto simp flip: ones_empty)
  then show ?case using 0 by (simp add: row_bits_def heavy_popcount)
next
  case (Suc m)
  then have "j < k" by simp
  from Suc.prems(1) have hv: "all_heavy n (row_bits enc k (Suc j)) (word_bits (enc a))"
    "all_heavy n (row_bits enc k (Suc j)) (word_bits (enc (a XOR push_bit j 1)))"
    by (simp_all only: row_bits_Cons [OF \<open>j < k\<close>] all_heavy.simps enc_xor word_bits_xor)
  from Suc.prems(2) assms(1) show ?case
  proof (cases rule: split_bit)
    case 1
    then show ?thesis using Suc.hyps(1) [OF _ hv(1)] Suc.hyps(2) by simp
  next
    case (2 d')
    then show ?thesis using Suc.hyps(1) [of "Suc j", OF _ hv(2), of d'] Suc.hyps(2) by (simp add: xor.assoc)
  qed
qed

lemma min_weight_sound:
  assumes "k \<le> 32" "min_weight n (row_bits enc k j)" "ones d \<subseteq> {j..<k}" "d \<noteq> 0"
  shows "n \<le> popcount (enc d)"
  using assms(2-)
proof (induction "k - j" arbitrary: j)
  case 0
  then show ?case by (auto simp flip: ones_empty)
next
  case (Suc m)
  then have "j < k" by simp
  with Suc.prems(1) have hv: "all_heavy n (row_bits enc k (Suc j)) (word_bits (enc (push_bit j 1)))" "min_weight n (row_bits enc k (Suc j))"
    by (simp_all add: row_bits_Cons)
  from Suc.prems(2) assms(1) show ?case
  proof (cases rule: split_bit)
    case 1
    then show ?thesis using Suc.hyps(1) [OF _ hv(2)] Suc.hyps(2) Suc.prems(3) by simp
  next
    case (2 d')
    then show ?thesis using all_heavy_sound [OF assms(1) hv(1)] by simp
  qed
qed

lemma ones_take: "take_bit k d = d \<Longrightarrow> ones d \<subseteq> {0..<k}"
  by (auto simp: ones_def) (metis bit_take_bit_iff)

lemma distance:
  assumes "k \<le> 32" "min_weight n (row_bits enc k 0)" "take_bit k a = a" "take_bit k b = b" "a \<noteq> b"
  shows "n \<le> popcount (enc a XOR enc b)"
proof -
  have "take_bit k (a XOR b) = a XOR b" using assms(3,4) by (simp add: take_bit_xor)
  moreover have "a XOR b \<noteq> 0" using assms(5) by (metis xor.assoc xor.left_neutral xor.right_neutral xor_self_eq)
  ultimately show ?thesis using min_weight_sound [OF assms(1,2) ones_take] enc_xor by metis
qed

end

end
