(* ===== verification/Golay.thy ===== *)
theory Golay
  imports Linear_Codes
begin

text \<open>
  \<^verbatim>\<open>internal/dmrfec/golay.go\<close>: the [23,12] and [24,12] Golay codes, with the table of syndromes filled by
  the code's own loops.  The encoder is linear and its minimum distance is seven, so the 2048 error
  patterns of weight three or less have different syndromes and the table answers every one of them.
\<close>

section \<open>The code\<close>

definition golay23Poly :: u32 where
  "golay23Poly = 0xC75"

definition golay_step :: "nat \<Rightarrow> u32 \<Rightarrow> u32" where
  "golay_step i r = (if r AND push_bit i 1 \<noteq> 0 then r XOR push_bit (i - 11) golay23Poly else r)"

definition syndrome23 :: "u32 \<Rightarrow> u32" where
  "syndrome23 word = fold golay_step (rev [11..<23]) word AND 0x7FF"

text \<open>The table starts with every entry \<^verbatim>\<open>^uint32(0)\<close>, here \<open>-1\<close>; \<open>record\<close> keeps the first pattern it is given for a syndrome.\<close>

definition record_pattern :: "u32 \<Rightarrow> u32 list \<Rightarrow> u32 list" where
  "record_pattern pattern t =
     (let s = unat (syndrome23 pattern) in if t ! s = - 1 then t[s := pattern] else t)"

definition golay_patterns :: "u32 list" where
  "golay_patterns = concat (map (\<lambda>a. push_bit a 1 # concat (map (\<lambda>b. (push_bit a 1 OR push_bit b 1) #
     map (\<lambda>c. push_bit a 1 OR push_bit b 1 OR push_bit c 1) [b + 1..<23]) [a + 1..<23])) [0..<23])"

definition golay23Syndromes :: "u32 list" where
  "golay23Syndromes = fold record_pattern golay_patterns ((replicate 2048 (- 1))[0 := 0])"

definition EncodeGolay23 :: "u32 \<Rightarrow> u32" where
  "EncodeGolay23 data = (let data = data AND 0xFFF in push_bit 11 data OR syndrome23 (push_bit 11 data))"

definition EncodeGolay24 :: "u32 \<Rightarrow> u32" where
  "EncodeGolay24 data = (let c = EncodeGolay23 data in push_bit 1 c OR (of_nat (popcount c) AND 1))"

definition DecodeGolay23 :: "u32 \<Rightarrow> u32 \<times> nat" where
  "DecodeGolay23 word =
     (let word = word AND 0x7FFFFF; e = golay23Syndromes ! unat (syndrome23 word)
      in (drop_bit 11 (word XOR e) AND 0xFFF, popcount e))"

definition DecodeGolay24 :: "u32 \<Rightarrow> u32 \<times> nat" where
  "DecodeGolay24 word = DecodeGolay23 (drop_bit 1 word)"

section \<open>The syndrome is linear\<close>

lemma golay_step_bit: "golay_step i r = (if bit r i then r XOR push_bit (i - 11) golay23Poly else r)"
  unfolding golay_step_def and_push_bit_iff ..

lemma xor_cancel [simp]: "a XOR (a XOR b) = b" "(a XOR b) XOR b = a" "a XOR b = 0 \<longleftrightarrow> a = b" for a b :: u32
proof -
  show *: "a XOR (a XOR b) = b" "(a XOR b) XOR b = a" for a b :: u32 by (simp flip: xor.assoc, simp add: xor.assoc)
  show "a XOR b = 0 \<longleftrightarrow> a = b" using *(2) [of a b] by auto
qed

lemma golay_step_xor: "golay_step i (a XOR b) = golay_step i a XOR golay_step i b"
  by (auto simp: golay_step_bit bit_xor_iff ac_simps)

lemma fold_golay_xor: "fold golay_step is (a XOR b) = fold golay_step is a XOR fold golay_step is b"
  by (induction "is" arbitrary: a b) (simp_all add: golay_step_xor)

lemma mask11: "(w :: u32) AND 0x7FF = take_bit 11 w" "(w :: u32) AND 0xFFF = take_bit 12 w"
  "(w :: u32) AND 0x7FFFFF = take_bit 23 w"
  by (simp_all add: take_bit_eq_mask mask_numeral)

lemma syndrome23_xor: "syndrome23 (a XOR b) = syndrome23 a XOR syndrome23 b"
  unfolding syndrome23_def fold_golay_xor mask11 take_bit_xor ..

lemma syndrome23_small: "take_bit 11 s = s \<Longrightarrow> syndrome23 s = s"
proof -
  assume s: "take_bit 11 s = s"
  then have "\<not> bit s i" if "11 \<le> i" for i using that by (metis bit_take_bit_iff not_le)
  then have "fold golay_step is s = s" if "\<forall>i \<in> set is. 11 \<le> i" for "is"
    using that by (induction "is") (simp_all add: golay_step_bit)
  from this [of "rev [11..<23]"] show ?thesis using s unfolding syndrome23_def mask11 by simp
qed

lemma syndrome23_range: "take_bit 11 (syndrome23 w) = syndrome23 w"
  by (simp add: syndrome23_def mask11)

lemma or_disjoint_xor: "take_bit 11 s = s \<Longrightarrow> push_bit 11 d OR s = push_bit 11 d XOR (s :: u32)"
  by (rule bit_word_eqI) (auto simp: bit_simps dest: bit_small)

lemma EncodeGolay23_xor: "EncodeGolay23 (a XOR b) = EncodeGolay23 a XOR EncodeGolay23 b"
  by (simp add: EncodeGolay23_def Let_def mask11 or_disjoint_xor syndrome23_range take_bit_xor push_bit_xor syndrome23_xor
      ac_simps)

lemma take_bit_EncodeGolay23: "take_bit 23 (EncodeGolay23 d) = EncodeGolay23 d"
  unfolding EncodeGolay23_def Let_def mask11
  by (rule bit_word_eqI) (auto simp: bit_simps dest: bit_small [OF _ syndrome23_range])

lemma drop_bit_EncodeGolay23: "drop_bit 11 (EncodeGolay23 d) = take_bit 12 d"
  unfolding EncodeGolay23_def Let_def mask11
  by (rule bit_word_eqI) (auto simp: bit_simps dest: bit_small [OF _ syndrome23_range])

interpretation golay: linear_code EncodeGolay23 12
  by unfold_locales (rule EncodeGolay23_xor)

lemma syndrome23_EncodeGolay23: "syndrome23 (EncodeGolay23 d) = 0"
  by (simp add: EncodeGolay23_def Let_def or_disjoint_xor syndrome23_range syndrome23_xor syndrome23_small)

lemma codeword_iff:
  assumes "take_bit 23 w = w" "syndrome23 w = 0"
  shows "w = EncodeGolay23 (drop_bit 11 w)"
proof -
  have w: "w = push_bit 11 (drop_bit 11 w) XOR take_bit 11 w"
    by (rule bit_word_eqI) (auto simp: bit_simps)
  have "syndrome23 w = syndrome23 (push_bit 11 (drop_bit 11 w)) XOR take_bit 11 w"
    by (subst (1) w) (simp only: syndrome23_xor syndrome23_small take_bit_take_bit min.idem)
  then have "syndrome23 (push_bit 11 (drop_bit 11 w)) = take_bit 11 w" using assms(2) by simp
  moreover have "take_bit 12 (drop_bit 11 w) = drop_bit 11 w" using assms(1) by (simp add: take_bit_drop_bit)
  ultimately show ?thesis
    using w by (simp only: EncodeGolay23_def Let_def mask11 or_disjoint_xor take_bit_take_bit min.idem)
qed

section \<open>Its distance is seven\<close>

lemma EncodeGolay23_eq: "EncodeGolay23 d = push_bit 11 (d AND 0xFFF) OR syndrome23 (push_bit 11 (d AND 0xFFF))"
  by (simp only: EncodeGolay23_def Let_def)

lemmas golay_eval = EncodeGolay23_eq syndrome23_def golay_step_bit golay23Poly_def

lemma golay_rows: "row_bits EncodeGolay23 12 0 = map word_bits
  [0xC75, 0x149F, 0x254B, 0x46E3, 0x81B3, 0x10366, 0x206CC, 0x401ED, 0x803DA, 0x1007B4, 0x20031D, 0x40063A]"
proof -
  have "[0..<12] = [0, 1, 2, 3, 4, 5, 6, 7, 8, 9, 10, 11 :: nat]" by (simp add: upt_rec)
  then show ?thesis by (simp only: row_bits_def list.map) (simp add: golay_eval)
qed

lemma golay_min_weight: "min_weight 7 (row_bits EncodeGolay23 12 0)"
  unfolding golay_rows by (simp add: word_bits_def upt_rec numeral_eq_Suc)

text \<open>Two patterns of weight three or less that have the same syndrome are equal.\<close>

lemma syndrome_inj:
  assumes "take_bit 23 e = e" "take_bit 23 f = f" "popcount e \<le> 3" "popcount f \<le> 3" "syndrome23 e = syndrome23 f"
  shows "e = f"
proof (rule ccontr)
  assume "e \<noteq> f"
  let ?w = "e XOR f"
  have "take_bit 23 ?w = ?w" "syndrome23 ?w = 0" using assms by (simp_all add: take_bit_xor syndrome23_xor)
  then have w: "?w = EncodeGolay23 (drop_bit 11 ?w)" "take_bit 12 (drop_bit 11 ?w) = drop_bit 11 ?w"
    using codeword_iff by (blast, simp only: take_bit_drop_bit) simp
  have "drop_bit 11 ?w \<noteq> 0" using w(1) \<open>e \<noteq> f\<close> EncodeGolay23_xor [of 0 0] by (metis xor_cancel(3) xor_self_eq)
  then have "7 \<le> popcount ?w"
    using golay.min_weight_sound [OF _ golay_min_weight golay.ones_take [OF w(2)]] w(1) by simp
  moreover have "popcount ?w \<le> 6" using popcount_xor_le [of e f] assms by linarith
  ultimately show False by linarith
qed

section \<open>The table of syndromes\<close>

lemma unat_small: "take_bit n w = w \<Longrightarrow> unat w < 2 ^ n" for w :: u32
  by (metis unsigned_take_bit_eq take_bit_nat_less_exp)

lemma fold_record:
  assumes "\<forall>p \<in> set ps. \<forall>q \<in> set ps. syndrome23 p = syndrome23 q \<longrightarrow> p = q" "length t = 2048" "- 1 \<notin> set ps"
    and "\<forall>p \<in> set ps. t ! unat (syndrome23 p) = - 1 \<or> t ! unat (syndrome23 p) = p"
  shows "(\<forall>p \<in> set ps. fold record_pattern ps t ! unat (syndrome23 p) = p) \<and>
    (\<forall>s. t ! s \<noteq> - 1 \<longrightarrow> fold record_pattern ps t ! s = t ! s)"
  using assms
proof (induction ps arbitrary: t)
  case (Cons p ps)
  let ?s = "unat (syndrome23 p)" and ?t = "record_pattern p t"
  have lt: "?s < 2048" using unat_small [OF syndrome23_range, of p] by simp
  have t: "?t ! ?s = p" "length ?t = 2048" "\<And>s. s \<noteq> ?s \<Longrightarrow> ?t ! s = t ! s" "\<And>s. t ! s \<noteq> - 1 \<Longrightarrow> ?t ! s = t ! s"
    using Cons.prems lt by (auto simp: record_pattern_def Let_def nth_list_update)
  have "?t ! unat (syndrome23 q) = - 1 \<or> ?t ! unat (syndrome23 q) = q" if "q \<in> set ps" for q
  proof (cases "syndrome23 q = syndrome23 p")
    case True
    then show ?thesis using Cons.prems(1) that t(1) by auto
  next
    case False
    then have "?t ! unat (syndrome23 q) = t ! unat (syndrome23 q)" 
      by (intro t(3)) (simp flip: word_eq_iff_unsigned)
    then show ?thesis using Cons.prems(4) that by simp
  qed
  then have "(\<forall>q \<in> set ps. fold record_pattern ps ?t ! unat (syndrome23 q) = q) \<and>
      (\<forall>s. ?t ! s \<noteq> - 1 \<longrightarrow> fold record_pattern ps ?t ! s = ?t ! s)"
    using Cons.IH [of ?t] Cons.prems t(2) by simp
  moreover have "p \<noteq> - 1" using Cons.prems(3) by auto
  ultimately show ?case using t by auto
qed simp

lemma ones_push [simp]: "a < 32 \<Longrightarrow> ones (push_bit a 1) = {a}" "ones (v OR w) = ones v \<union> ones w"
  by (auto simp: ones_def bit_or_iff)

lemma ones_inj: "ones v = ones w \<Longrightarrow> v = w"
  unfolding ones_def by (auto intro: bit_word_eqI)

lemma ones_less: "take_bit n w = w \<longleftrightarrow> ones w \<subseteq> {..<n}"
  unfolding ones_def by (auto dest: bit_small intro!: bit_word_eqI simp: bit_take_bit_iff)

lemma set_golay_patterns: "set golay_patterns = (\<Union>a \<in> {0..<23}. insert (push_bit a 1)
    (\<Union>b \<in> {a + 1..<23}. insert (push_bit a 1 OR push_bit b 1)
      ((\<lambda>c. push_bit a 1 OR push_bit b 1 OR push_bit c 1) ` {b + 1..<23})))"
  unfolding golay_patterns_def set_concat set_map set_upt list.set image_image UN_extend_simps by simp

lemma golay_patternsI:
  "a < 23 \<Longrightarrow> push_bit a 1 \<in> set golay_patterns"
  "a < b \<Longrightarrow> b < 23 \<Longrightarrow> push_bit a 1 OR push_bit b 1 \<in> set golay_patterns"
  "a < b \<Longrightarrow> b < c \<Longrightarrow> c < 23 \<Longrightarrow> push_bit a 1 OR push_bit b 1 OR push_bit c 1 \<in> set golay_patterns"
  unfolding set_golay_patterns
    apply (rule UN_I [of a]; simp)
   apply (rule UN_I [of a], simp, rule insertI2, rule UN_I [of b], simp, rule insertI1)
  apply (rule UN_I [of a], simp, rule insertI2, rule UN_I [of b], simp, rule insertI2, rule image_eqI [of _ _ c]; simp)
  done

lemma golay_patterns_iff: "e \<in> set golay_patterns \<longleftrightarrow> take_bit 23 e = e \<and> 0 < popcount e \<and> popcount e \<le> 3"
proof
  assume "e \<in> set golay_patterns"
  then consider a where "a < 23" "e = push_bit a 1"
    | a b where "a < b" "b < 23" "e = push_bit a 1 OR push_bit b 1"
    | a b c where "a < b" "b < c" "c < 23" "e = push_bit a 1 OR push_bit b 1 OR push_bit c 1"
    by (auto simp: set_golay_patterns simp del: push_bit_of_1 simp flip: less_eq_Suc_le)
  then show "take_bit 23 e = e \<and> 0 < popcount e \<and> popcount e \<le> 3"
    by cases (simp_all add: popcount_card ones_less del: push_bit_of_1 take_bit_or)
next
  assume e: "take_bit 23 e = e \<and> 0 < popcount e \<and> popcount e \<le> 3"
  then have sub: "ones e \<subseteq> {..<23}" by (simp add: ones_less)
  define xs where "xs = sorted_list_of_set (ones e)"
  have xs: "set xs = ones e" "sorted_wrt (<) xs" by (simp_all add: xs_def)
  have "length xs = popcount e" by (simp add: xs_def popcount_card)
  then consider a where "xs = [a]" | a b where "xs = [a, b]" | a b c where "xs = [a, b, c]"
    using e by (cases xs; cases "tl xs"; cases "tl (tl xs)"; cases "tl (tl (tl xs))") auto
  then show "e \<in> set golay_patterns"
  proof cases
    case 1
    then have o: "ones e = {a}" "a < 23" using sub xs by auto
    then have "e = push_bit a 1" by (intro ones_inj) (simp del: push_bit_of_1)
    with o show ?thesis using golay_patternsI by blast
  next
    case 2
    then have o: "ones e = {a, b}" "a < b" "b < 23" using sub xs by auto
    then have "e = push_bit a 1 OR push_bit b 1" by (intro ones_inj) (simp add: insert_commute del: push_bit_of_1)
    with o show ?thesis using golay_patternsI by blast
  next
    case 3
    then have o: "ones e = {a, b, c}" "a < b" "b < c" "c < 23" using sub xs by auto
    then have "e = push_bit a 1 OR push_bit b 1 OR push_bit c 1" by (intro ones_inj) (simp add: insert_commute del: push_bit_of_1)
    with o show ?thesis using golay_patternsI by blast
  qed
qed

lemma popcount_minus_1: "popcount (- 1) = 32"
proof -
  have "ones (- 1) = {..<32}" by (auto simp: ones_def dest: bit_imp_le_length)
  then show ?thesis by (simp add: popcount_card)
qed

lemma golay23Syndromes_weight3:
  assumes "take_bit 23 e = e" "popcount e \<le> 3"
  shows "golay23Syndromes ! unat (syndrome23 e) = e"
proof -
  let ?t = "(replicate 2048 (- 1))[0 := 0 :: u32]"
  have ps: "take_bit 23 p = p \<and> 0 < popcount p \<and> popcount p \<le> 3" if "p \<in> set golay_patterns" for p
    using that by (simp only: golay_patterns_iff)
  have s0: "syndrome23 0 = 0" using syndrome23_small [of 0] by simp
  have "?t ! unat (syndrome23 p) = - 1" if "p \<in> set golay_patterns" for p
  proof -
    have "syndrome23 p \<noteq> syndrome23 0" using syndrome_inj [of p 0] ps [OF that] by auto
    then have "unat (syndrome23 p) \<noteq> 0" using s0 by (simp add: unat_eq_0)
    moreover have "unat (syndrome23 p) < 2048" using unat_small [OF syndrome23_range, of p] by simp
    ultimately show ?thesis by simp
  qed
  moreover have "- 1 \<notin> set golay_patterns" using ps popcount_minus_1 by fastforce
  moreover have "\<forall>p \<in> set golay_patterns. \<forall>q \<in> set golay_patterns. syndrome23 p = syndrome23 q \<longrightarrow> p = q"
    using ps syndrome_inj by blast
  ultimately have tab: "(\<forall>p \<in> set golay_patterns. golay23Syndromes ! unat (syndrome23 p) = p) \<and>
      (\<forall>s. ?t ! s \<noteq> - 1 \<longrightarrow> golay23Syndromes ! s = ?t ! s)"
    unfolding golay23Syndromes_def by (intro fold_record) auto
  show ?thesis
  proof (cases "e = 0")
    case True
    then show ?thesis using tab s0 by (auto dest: spec [of _ 0])
  next
    case False
    then have "0 < popcount e" by (simp add: popcount_card card_gt_0_iff)
    then have "e \<in> set golay_patterns" using assms by (simp only: golay_patterns_iff)
    then show ?thesis using tab by blast
  qed
qed

lemma golay_corrects:
  assumes "take_bit 12 d = d" "take_bit 23 e = e" "popcount e \<le> 3"
  shows "DecodeGolay23 (EncodeGolay23 d XOR e) = (d, popcount e)"
proof -
  have t23: "take_bit 23 (EncodeGolay23 d XOR e) = EncodeGolay23 d XOR e"
    using assms(2) by (simp only: take_bit_xor take_bit_EncodeGolay23)
  have d: "drop_bit 11 (EncodeGolay23 d) = d" by (simp only: drop_bit_EncodeGolay23 assms(1))
  have "syndrome23 (EncodeGolay23 d XOR e) = syndrome23 e" by (simp add: syndrome23_xor syndrome23_EncodeGolay23)
  then show ?thesis
    using golay23Syndromes_weight3 [OF assms(2,3)] assms(1) d
    unfolding DecodeGolay23_def Let_def mask11 t23 by (simp add: xor.assoc)
qed

section \<open>The code is perfect\<close>

lemma ones_surj: "B \<subseteq> {..<32} \<Longrightarrow> \<exists>w. ones w = B"
proof -
  assume "B \<subseteq> {..<32}"
  then have "finite B" by (rule finite_subset) simp
  then show ?thesis using \<open>B \<subseteq> {..<32}\<close>
  proof (induction B)
    case (insert x B)
    then obtain w where "ones w = B" by auto
    then have "ones (push_bit x 1 OR w) = insert x B" using insert.prems by (simp del: push_bit_of_1)
    then show ?case by blast
  qed (auto intro: exI [of _ 0])
qed

definition light :: "u32 set" where
  "light = {e. take_bit 23 e = e \<and> popcount e \<le> 3}"

lemma card_light: "card light = 2048"
proof -
  have "ones ` light = {B. B \<subseteq> {..<23 :: nat} \<and> card B \<le> 3}"
  proof (intro set_eqI iffI)
    fix B :: "nat set" assume B: "B \<in> {B. B \<subseteq> {..<23} \<and> card B \<le> 3}"
    then have "B \<subseteq> {..<32}" by fastforce
    then obtain w where "ones w = B" using ones_surj by blast
    then show "B \<in> ones ` light" using B by (auto simp: light_def popcount_card ones_less image_iff)
  qed (auto simp: light_def popcount_card ones_less)
  also have "\<dots> = (\<Union>k \<in> {0, 1, 2, 3}. {B. B \<subseteq> {..<23} \<and> card B = k})" by auto
  finally have "card (ones ` light) = (\<Sum>k \<in> {0, 1, 2, 3}. card {B. B \<subseteq> {..<23 :: nat} \<and> card B = k})"
    by (simp only:) (rule card_UN_disjoint; auto)
  also have "\<dots> = (23 choose 0) + (23 choose 1) + (23 choose 2) + (23 choose 3)"
    by (simp add: n_subsets)
  also have "\<dots> = 2048" by (simp add: numeral_eq_Suc)
  finally show ?thesis using ones_inj by (metis card_image inj_onI)
qed

lemma syndrome_light: "\<exists>e \<in> light. syndrome23 e = syndrome23 w"
proof -
  let ?f = "\<lambda>e. unat (syndrome23 e)"
  have "inj_on ?f light"
    by (rule inj_onI) (auto simp: light_def simp flip: word_eq_iff_unsigned intro: syndrome_inj)
  then have "card (?f ` light) = 2048" by (simp add: card_image card_light)
  moreover have sub: "?f ` light \<subseteq> {..<2048}" using unat_small [OF syndrome23_range] by auto
  ultimately have "?f ` light = {..<2048}" by (intro card_subset_eq) auto
  moreover have "?f w < 2048" using unat_small [OF syndrome23_range, of w] by simp
  ultimately have "?f w \<in> ?f ` light" by simp
  then show ?thesis by (auto simp flip: word_eq_iff_unsigned)
qed

lemma golay_decodes:
  assumes "take_bit 23 w = w"
  obtains d e where "take_bit 12 d = d" "e \<in> light" "w = EncodeGolay23 d XOR e" "DecodeGolay23 w = (d, popcount e)"
proof -
  obtain e where e: "e \<in> light" "syndrome23 e = syndrome23 w" using syndrome_light by blast
  have "take_bit 23 (w XOR e) = w XOR e" "syndrome23 (w XOR e) = 0"
    using assms e by (simp_all only: take_bit_xor light_def mem_Collect_eq syndrome23_xor xor_self_eq)
  from codeword_iff [OF this] have c: "w XOR e = EncodeGolay23 (drop_bit 11 (w XOR e))" .
  let ?d = "drop_bit 11 (w XOR e)"
  have d: "take_bit 12 ?d = ?d" using arg_cong [OF c, of "drop_bit 11"] by (simp only: drop_bit_EncodeGolay23)
  have w: "w = EncodeGolay23 ?d XOR e" using arg_cong [OF c, of "\<lambda>v. v XOR e"] by (simp only: xor_cancel)
  have "DecodeGolay23 (EncodeGolay23 ?d XOR e) = (?d, popcount e)"
    using e(1) by (intro golay_corrects [OF d]) (simp_all add: light_def)
  then show ?thesis using that [OF d e(1) w] w by metis
qed

lemma below_word: "w < 0x1000 \<longleftrightarrow> take_bit 12 w = w" "w < 0x800000 \<longleftrightarrow> take_bit 23 w = w" for w :: u32
proof -
  have "unat w < 2 ^ n \<longleftrightarrow> take_bit n w = w" for n
    by (metis take_bit_nat_eq_self_iff unsigned_take_bit_eq unsigned_word_eqI)
  from this [of 12] this [of 23] show "w < 0x1000 \<longleftrightarrow> take_bit 12 w = w" "w < 0x800000 \<longleftrightarrow> take_bit 23 w = w"
    by (simp_all add: word_less_nat_alt)
qed

text \<open>
  C29: \<open>DecodeGolay23\<close> is the nearest-codeword decoder of a perfect code.  A 23-bit word decodes to the
  twelve bits \<open>d\<close> exactly when it is within three bits of the codeword of \<open>d\<close>, every word is within
  three bits of what it decodes to, and the count returned is the number of bits corrected.
\<close>

theorem golay_decodes_nearest:
  assumes "d < 0x1000" "w < 0x800000"
  shows "(fst (DecodeGolay23 w) = d \<longleftrightarrow> popcount (EncodeGolay23 d XOR w) \<le> 3) \<and>
    snd (DecodeGolay23 w) \<le> 3 \<and> popcount (EncodeGolay23 (fst (DecodeGolay23 w)) XOR w) = snd (DecodeGolay23 w)"
proof -
  from assms have tb: "take_bit 12 d = d" "take_bit 23 w = w" by (simp_all only: below_word)
  from tb(2) obtain d' e where w: "take_bit 12 d' = d'" "e \<in> light" "w = EncodeGolay23 d' XOR e" "DecodeGolay23 w = (d', popcount e)"
    by (rule golay_decodes)
  have "d' = d" if "popcount (EncodeGolay23 d XOR w) \<le> 3"
  proof -
    let ?f = "EncodeGolay23 d XOR w"
    have "take_bit 23 ?f = ?f" using tb(2) by (simp only: take_bit_xor take_bit_EncodeGolay23)
    from golay_corrects [OF tb(1) this that] show ?thesis using w(4) by simp
  qed
  moreover have "EncodeGolay23 d' XOR w = e" using w(3) by simp
  ultimately show ?thesis using w by (auto simp: light_def)
qed

theorem golay_decodes_nearest_witness:
  "fst (DecodeGolay23 (EncodeGolay23 0xABC XOR 0x400101)) = 0xABC"
proof -
  have c: "EncodeGolay23 0xABC = 0x55e11e" by (simp add: golay_eval)
  have "popcount 0x400101 = 3" by (simp add: popcount.simps [of "numeral n" for n] popcount.simps [of 1])
  then show ?thesis using golay_decodes_nearest [where d = "0xABC" and w = "0x55e11e XOR 0x400101"] c by simp
qed

end
