(* ===== verification/Vocoder.thy ===== *)
theory Vocoder
  imports Golay
begin

text \<open>
  \<^verbatim>\<open>internal/dmrfec/ambe.go\<close>, the frame handling of \<^verbatim>\<open>burst.go\<close>, and \<^verbatim>\<open>ipsc.go\<close>: a vocoder frame with its
  error protection and without, the three frames of a burst, and the bridge between a DMR burst and
  the payload of IP Site Connect.  A frame is decoded to the parameters that were sent whenever at
  most three bits of each protected block are wrong, and the bridge loses nothing in either direction.
\<close>

section \<open>ambe.go\<close>

definition ProtectedBits :: nat where
  "ProtectedBits = 72"

definition ParameterBits :: nat where
  "ParameterBits = 49"

definition FramesPerBurst :: nat where
  "FramesPerBurst = 3"

type_synonym Parameters = u64

definition air_position :: "nat \<Rightarrow> nat" where
  "air_position i = (i mod 18) * 4 + i div 18"

definition deinterleave :: "byte list \<Rightarrow> byte list" where
  "deinterleave inb = map (\<lambda>i. inb ! air_position i) [0..<ProtectedBits]"

definition interleave :: "byte list \<Rightarrow> byte list" where
  "interleave inb = fold (\<lambda>i out. out[air_position i := inb ! i]) [0..<ProtectedBits] (replicate ProtectedBits 0)"

definition scramble_step :: "u32 \<times> u32 \<Rightarrow> u32 \<times> u32" where
  "scramble_step s = (case s of (pr, out) \<Rightarrow>
     let pr = (173 * pr + 13849) AND 0xFFFF in (pr, push_bit 1 out OR (drop_bit 15 pr AND 1)))"

definition scramble :: "u32 \<Rightarrow> u32" where
  "scramble key = snd ((scramble_step ^^ 23) ((16 * key) AND 0xFFFF, 0))"

definition join_parameters :: "u32 \<Rightarrow> u32 \<Rightarrow> u32 \<Rightarrow> u32 \<Rightarrow> Parameters" where
  "join_parameters u0 u1 u2 u3 = push_bit 37 (ucast u0) OR push_bit 25 (ucast u1) OR push_bit 14 (ucast u2) OR ucast u3"

definition Decode :: "byte list \<Rightarrow> (Parameters \<times> nat) option" where
  "Decode frame =
     (if length frame \<noteq> ProtectedBits then None
      else
        let g = deinterleave frame;
            c0 = packBits (subslice 0 24 g);
            (u0, n0) = DecodeGolay24 c0
        in if EncodeGolay24 u0 \<noteq> c0 \<and> n0 = 0 then None
           else
             let c1 = packBits (subslice 24 47 g) XOR scramble u0;
                 (u1, n1) = DecodeGolay23 c1;
                 u2 = packBits (subslice 47 58 g);
                 u3 = packBits (subslice 58 72 g)
             in Some (join_parameters u0 u1 u2 u3, n0 + n1))"

definition Encode :: "Parameters \<Rightarrow> byte list" where
  "Encode p =
     (let u0 = ucast (drop_bit 37 p) AND 0xFFF;
          u1 = ucast (drop_bit 25 p) AND 0xFFF;
          u2 = ucast (drop_bit 14 p) AND 0x7FF;
          u3 = ucast p AND 0x3FFF
      in interleave (unpackBits (EncodeGolay24 u0) 24 @ unpackBits (EncodeGolay23 u1 XOR scramble u0) 23 @
           unpackBits u2 11 @ unpackBits u3 14))"

section \<open>burst.go\<close>

definition VocoderFrames :: "byte list \<Rightarrow> byte list list option" where
  "VocoderFrames burst =
     (if length burst \<noteq> BurstBytes then None
      else
        let b = BurstBitsFrom burst;
            payload = take SyncOffset b @ drop (SyncOffset + SyncBits) b
        in Some (map (\<lambda>i. subslice (i * ProtectedBits) ((i + 1) * ProtectedBits) payload) [0..<FramesPerBurst]))"

definition AssembleBurst :: "byte list list \<Rightarrow> u64 \<Rightarrow> byte list option" where
  "AssembleBurst frames middle =
     (if length frames \<noteq> FramesPerBurst then None
      else if \<exists>f \<in> set frames. length f \<noteq> ProtectedBits then None
      else
        let payload = concat frames
        in Some (BurstBytesFrom (take SyncOffset payload @ unpack_word middle SyncBits @ drop SyncOffset payload)))"

definition Middle :: "byte list \<Rightarrow> u64 option" where
  "Middle burst =
     (if length burst \<noteq> BurstBytes then None
      else Some (pack_word (subslice SyncOffset (SyncOffset + SyncBits) (BurstBitsFrom burst))))"

section \<open>ipsc.go\<close>

definition IPSCCoreBytes :: nat where
  "IPSCCoreBytes = 19"

definition IPSCSlotBits :: nat where
  "IPSCSlotBits = 50"

definition UnpackIPSCCore :: "byte list \<Rightarrow> Parameters list option" where
  "UnpackIPSCCore core =
     (if length core \<noteq> IPSCCoreBytes then None
      else Some (map (\<lambda>i. readBits core (i * IPSCSlotBits) ParameterBits) [0..<FramesPerBurst]))"

definition PackIPSCCore :: "Parameters list \<Rightarrow> byte list" where
  "PackIPSCCore frames =
     fold (\<lambda>(i, f) out. writeBits out (i * IPSCSlotBits) ParameterBits f) (enumerate 0 frames) (replicate IPSCCoreBytes 0)"

definition BurstFromIPSC :: "byte list \<Rightarrow> u64 \<Rightarrow> byte list option" where
  "BurstFromIPSC core middle =
     (case UnpackIPSCCore core of None \<Rightarrow> None | Some frames \<Rightarrow> AssembleBurst (map Encode frames) middle)"

text \<open>The loop over the frames stops at the first that does not decode.\<close>

fun decode_frames :: "byte list list \<Rightarrow> (Parameters list \<times> nat) option" where
  "decode_frames [] = Some ([], 0)"
| "decode_frames (f # fs) =
     (case Decode f of None \<Rightarrow> None
      | Some (p, n) \<Rightarrow> (case decode_frames fs of None \<Rightarrow> None | Some (ps, m) \<Rightarrow> Some (p # ps, n + m)))"

definition IPSCFromBurst :: "byte list \<Rightarrow> (byte list \<times> nat) option" where
  "IPSCFromBurst burst =
     (case VocoderFrames burst of None \<Rightarrow> None
      | Some frames \<Rightarrow> map_option (\<lambda>(ps, n). (PackIPSCCore ps, n)) (decode_frames frames))"

section \<open>The interleaver\<close>

lemma air_position_less: "i < 72 \<Longrightarrow> air_position i < 72"
  by (simp add: air_position_def)

lemma air_position_inj: "i < 72 \<Longrightarrow> j < 72 \<Longrightarrow> air_position i = air_position j \<Longrightarrow> i = j"
proof -
  assume "i < 72" "j < 72" "air_position i = air_position j"
  moreover have "air_position k div 4 = k mod 18" "air_position k mod 4 = k div 18" if "k < 72" for k
    using that by (simp_all add: air_position_def)
  ultimately show "i = j" by (metis div_mod_decomp)
qed

lemma interleave_at: "i < 72 \<Longrightarrow> interleave g ! air_position i = g ! i"
  and length_interleave [simp]: "length (interleave g) = 72"
proof -
  have "inj_on air_position (set [0..<72])" by (auto intro!: inj_onI air_position_inj)
  from fold_list_update [OF _ this, of "replicate 72 0" "\<lambda>i. g ! i"]
  show "length (interleave g) = 72" "i < 72 \<Longrightarrow> interleave g ! air_position i = g ! i"
    by (auto simp: interleave_def ProtectedBits_def air_position_less)
qed

lemma is_bits_interleave: "is_bits g \<Longrightarrow> length g = 72 \<Longrightarrow> is_bits (interleave g)"
proof -
  assume g: "is_bits g" "length g = 72"
  have "interleave g ! j = 0 \<or> interleave g ! j = 1" if "j < 72" for j
  proof -
    have "air_position ((j mod 4) * 18 + j div 4) = j" "(j mod 4) * 18 + j div 4 < 72"
      using that by (auto simp: air_position_def)
    then show ?thesis using interleave_at [of "(j mod 4) * 18 + j div 4" g] g nth_mem by (fastforce simp: is_bits_def)
  qed
  then show ?thesis by (force simp: is_bits_def in_set_conv_nth)
qed

lemma length_deinterleave [simp]: "length (deinterleave f) = 72"
  by (simp add: deinterleave_def ProtectedBits_def)

lemma nth_deinterleave: "i < 72 \<Longrightarrow> deinterleave f ! i = f ! air_position i"
  by (simp add: deinterleave_def ProtectedBits_def)

lemma deinterleave_interleave: "length g = 72 \<Longrightarrow> deinterleave (interleave g) = g"
  by (rule nth_equalityI) (simp_all add: nth_deinterleave interleave_at)

lemma is_bits_deinterleave: "is_bits f \<Longrightarrow> length f = 72 \<Longrightarrow> is_bits (deinterleave f)"
  by (auto simp: is_bits_def deinterleave_def ProtectedBits_def air_position_less)

section \<open>One frame\<close>

text \<open>How many of the positions from \<open>a\<close> to \<open>b\<close> differ.\<close>

definition dist :: "nat \<Rightarrow> nat \<Rightarrow> byte list \<Rightarrow> byte list \<Rightarrow> nat" where
  "dist a b f g = length (filter (\<lambda>i. f ! i \<noteq> g ! i) [a..<b])"

lemma dist_card: "dist a b f g = card {i. a \<le> i \<and> i < b \<and> f ! i \<noteq> g ! i}"
proof -
  have "dist a b f g = card (set (filter (\<lambda>i. f ! i \<noteq> g ! i) [a..<b]))"
    unfolding dist_def by (rule distinct_card [symmetric]) simp
  also have "set (filter (\<lambda>i. f ! i \<noteq> g ! i) [a..<b]) = {i. a \<le> i \<and> i < b \<and> f ! i \<noteq> g ! i}" by auto
  finally show ?thesis .
qed

lemma dist_0_iff: "a \<le> b \<Longrightarrow> b \<le> length f \<Longrightarrow> length f = length g \<Longrightarrow> dist a b f g = 0 \<longleftrightarrow> subslice a b f = subslice a b g"
proof -
  assume a: "a \<le> b" "b \<le> length f" "length f = length g"
  have "dist a b f g = 0 \<longleftrightarrow> (\<forall>i. a \<le> i \<and> i < b \<longrightarrow> f ! i = g ! i)" by (auto simp: dist_def filter_empty_conv)
  also have "\<dots> \<longleftrightarrow> (\<forall>j < b - a. f ! (a + j) = g ! (a + j))"
    using a(1) by (metis add_diff_inverse_nat diff_less_mono le_add1 less_diff_conv add.commute not_le)
  also have "\<dots> \<longleftrightarrow> subslice a b f = subslice a b g" using a by (auto simp: list_eq_iff_nth_eq)
  finally show ?thesis .
qed

lemma ones_packBits: "length xs \<le> 32 \<Longrightarrow> ones (packBits xs) = {k. k < length xs \<and> bit (xs ! (length xs - 1 - k)) 0}"
  by (auto simp: ones_def packBits_def nth_bit)

lemma popcount_packBits:
  assumes "is_bits f" "is_bits g" "a \<le> b" "b \<le> length f" "length f = length g" "b - a \<le> 32"
  shows "popcount (packBits (subslice a b f) XOR packBits (subslice a b g)) = dist a b f g"
proof -
  let ?m = "\<lambda>k. b - 1 - k" and ?D = "{k. k < b - a \<and> f ! (b - 1 - k) \<noteq> g ! (b - 1 - k)}"
  have bits: "f ! i \<noteq> g ! i \<longleftrightarrow> bit (f ! i) 0 \<and> \<not> bit (g ! i) 0 \<or> bit (g ! i) 0 \<and> \<not> bit (f ! i) 0" if "i < b" for i
    using that assms by (intro is_bits_neq) auto
  have idx: "a + (b - a - 1 - k) = b - 1 - k" if "k < b - a" for k using that assms(3) by linarith
  have "ones (packBits (subslice a b f) XOR packBits (subslice a b g)) = ?D"
    using assms(3-) bits [of "b - 1 - k" for k] by (auto simp: ones_xor ones_packBits idx simp del: diff_diff_left)
  moreover have "bij_betw ?m ?D {i. a \<le> i \<and> i < b \<and> f ! i \<noteq> g ! i}"
    by (rule bij_betw_byWitness [where f' = ?m]) auto
  ultimately show ?thesis by (simp add: popcount_card dist_card bij_betw_same_card)
qed

lemma bit_EncodeGolay24: "bit (EncodeGolay24 u) n \<longleftrightarrow>
    (if n = 0 then odd (popcount (EncodeGolay23 u)) else n < 32 \<and> bit (EncodeGolay23 u) (n - 1))"
proof -
  have "of_nat (popcount (EncodeGolay23 u)) AND 1 = (of_bool (odd (popcount (EncodeGolay23 u))) :: u32)"
    by (simp add: and_one_of_bool bit_0)
  then show ?thesis
    unfolding EncodeGolay24_def Let_def bit_or_iff bit_push_bit_iff
    by (auto simp: bit_of_bool_iff possible_bit_def dest: bit_imp_le_length)
qed

lemma drop_EncodeGolay24: "drop_bit 1 (EncodeGolay24 u) = EncodeGolay23 u"
  by (rule bit_word_eqI) (auto simp: bit_drop_bit_eq bit_EncodeGolay24 dest: bit_small [OF _ take_bit_EncodeGolay23])

lemma take_EncodeGolay24: "take_bit 24 (EncodeGolay24 u) = EncodeGolay24 u"
  by (rule bit_word_eqI) (auto simp: bit_take_bit_iff bit_EncodeGolay24 dest: bit_small [OF _ take_bit_EncodeGolay23])

lemma eq_by_drop: "drop_bit 1 v = drop_bit 1 w \<Longrightarrow> bit v 0 = bit w 0 \<Longrightarrow> v = w" for v w :: u32
proof (rule bit_word_eqI)
  fix n assume "drop_bit 1 v = drop_bit 1 w" "bit v 0 = bit w 0"
  then show "bit v n = bit w n" by (cases n) (simp, metis One_nat_def add.commute bit_drop_bit_eq comp_apply plus_1_eq_Suc)
qed

lemma Decode_blocks:
  assumes "length f = 72" and g: "g = deinterleave f"
    and c0: "drop_bit 1 (packBits (subslice 0 24 g)) = EncodeGolay23 u0 XOR e0" "e0 = 0 \<longrightarrow> packBits (subslice 0 24 g) = EncodeGolay24 u0"
    and c1: "packBits (subslice 24 47 g) = EncodeGolay23 u1 XOR scramble u0 XOR e1"
    and u: "take_bit 12 u0 = u0" "take_bit 12 u1 = u1" and e: "e0 \<in> light" "e1 \<in> light"
  shows "Decode f = Some (join_parameters u0 u1 (packBits (subslice 47 58 g)) (packBits (subslice 58 72 g)), popcount e0 + popcount e1)"
proof -
  have d0: "DecodeGolay24 (packBits (subslice 0 24 g)) = (u0, popcount e0)"
    using golay_corrects [OF u(1)] e(1) c0(1) by (simp add: DecodeGolay24_def light_def)
  have "packBits (subslice 24 47 g) XOR scramble u0 = EncodeGolay23 u1 XOR e1"
    using c1 by (simp add: ac_simps)
  then have d1: "DecodeGolay23 (packBits (subslice 24 47 g) XOR scramble u0) = (u1, popcount e1)"
    using golay_corrects [OF u(2)] e(2) by (simp add: light_def)
  show ?thesis
    using assms(1) c0(2) d0 d1 unfolding Decode_def g [symmetric]
    by (auto simp: ProtectedBits_def Let_def)
qed

text \<open>The four fields of the parameters, as \<open>Encode\<close> takes them apart.\<close>

definition fields :: "Parameters \<Rightarrow> u32 \<times> u32 \<times> u32 \<times> u32" where
  "fields p = (take_bit 12 (ucast (drop_bit 37 p)), take_bit 12 (ucast (drop_bit 25 p)),
     take_bit 11 (ucast (drop_bit 14 p)), take_bit 14 (ucast p))"

lemma join_fields: "fields p = (u0, u1, u2, u3) \<Longrightarrow> join_parameters u0 u1 u2 u3 = take_bit 49 p"
proof (rule bit_word_eqI)
  fix n assume f: "fields p = (u0, u1, u2, u3)" and n: "n < LENGTH(64)"
  have "bit (join_parameters u0 u1 u2 u3) n \<longleftrightarrow> (37 \<le> n \<and> n - 37 < 12 \<and> bit p n) \<or> (25 \<le> n \<and> n - 25 < 12 \<and> bit p n) \<or>
      (14 \<le> n \<and> n - 14 < 11 \<and> bit p n) \<or> (n < 14 \<and> bit p n)"
    using f n unfolding fields_def join_parameters_def by (auto simp: bit_simps)
  then show "bit (join_parameters u0 u1 u2 u3) n = bit (take_bit 49 p) n" by (auto simp: bit_take_bit_iff)
qed

lemma deinterleave_Encode:
  assumes "fields p = (u0, u1, u2, u3)"
  shows "deinterleave (Encode p) = unpackBits (EncodeGolay24 u0) 24 @ unpackBits (EncodeGolay23 u1 XOR scramble u0) 23 @
    unpackBits u2 11 @ unpackBits u3 14"
proof -
  have "w AND 0x3FFF = take_bit 14 w" for w :: u32 by (simp add: take_bit_eq_mask mask_numeral)
  then show ?thesis
    using assms unfolding Encode_def Let_def mask11 fields_def
    by (subst deinterleave_interleave) (auto simp: unpackBits_def)
qed

lemma length_unpackBits [simp]: "length (unpackBits v n) = n"
  by (simp add: unpackBits_def)

lemma pack_unpackBits [simp]: "n \<le> 32 \<Longrightarrow> packBits (unpackBits v n) = take_bit n v"
  by (simp add: packBits_def unpackBits_def pack_unpack_word)

lemma shift_in_width: "take_bit n w = w \<Longrightarrow> take_bit (Suc n) (push_bit 1 w OR of_bool b) = push_bit 1 w OR of_bool b" for w :: u32
  unfolding small_iff bit_or_iff bit_push_bit_iff
  by (auto simp: bit_of_bool_iff)

lemma scramble_width: "take_bit 23 (scramble k) = scramble k"
proof -
  have "take_bit n (snd ((scramble_step ^^ n) (a, 0))) = snd ((scramble_step ^^ n) (a, 0))" for n a
  proof (induction n)
    case (Suc n)
    obtain pr out where s: "(scramble_step ^^ n) (a, 0) = (pr, out)" by fastforce
    have "\<exists>b. snd (scramble_step (pr, out)) = push_bit 1 out OR of_bool b"
      unfolding scramble_step_def Let_def and_one_of_bool prod.case snd_conv by blast
    then show ?case using Suc s shift_in_width [of n out] by auto
  qed simp
  then show ?thesis unfolding scramble_def .
qed

text \<open>
  A frame the decoder can repair: what arrived for the parameters \<open>p\<close>, in the order before
  interleaving, has at most three wrong bits among the 23 of the first block and at most three in the
  second, the parity bit of the first is right if the rest of that block is, and the 25 unprotected
  bits are right.
\<close>

definition repairable :: "Parameters \<Rightarrow> byte list \<Rightarrow> bool" where
  "repairable p f \<longleftrightarrow> length f = 72 \<and> is_bits f \<and>
     (let s = deinterleave (Encode p); r = deinterleave f in
       dist 0 23 s r \<le> 3 \<and> (dist 0 23 s r = 0 \<longrightarrow> r ! 23 = s ! 23) \<and> dist 24 47 s r \<le> 3 \<and> subslice 47 72 r = subslice 47 72 s)"

lemma drop_packBits: "is_bits g \<Longrightarrow> 24 \<le> length g \<Longrightarrow> drop_bit 1 (packBits (subslice 0 24 g)) = packBits (subslice 0 23 g)"
  by (rule bit_word_eqI) (auto simp: bit_drop_bit_eq packBits_def nth_bit)

lemma Decode_corrects:
  assumes "repairable p f"
  shows "Decode f = Some (take_bit 49 p, dist 0 23 (deinterleave (Encode p)) (deinterleave f) +
    dist 24 47 (deinterleave (Encode p)) (deinterleave f))"
proof -
  obtain u0 u1 u2 u3 where f: "fields p = (u0, u1, u2, u3)" using prod_cases4 by blast
  define s where "s = deinterleave (Encode p)"
  define r where "r = deinterleave f"
  note s = deinterleave_Encode [OF f, folded s_def]
  have rep: "length f = 72" "is_bits f" "dist 0 23 s r \<le> 3" "dist 0 23 s r = 0 \<longrightarrow> r ! 23 = s ! 23"
    "dist 24 47 s r \<le> 3" "subslice 47 72 r = subslice 47 72 s"
    using assms by (simp_all add: repairable_def Let_def s_def r_def)
  have bits: "is_bits s" "is_bits r" "length s = 72" "length r = 72"
    using rep by (simp_all add: s unpackBits_def r_def is_bits_deinterleave)
  have u: "take_bit 12 u0 = u0" "take_bit 12 u1 = u1" "take_bit 11 u2 = u2" "take_bit 14 u3 = u3"
    using f by (auto simp: fields_def)
  let ?e0 = "packBits (subslice 0 23 s) XOR packBits (subslice 0 23 r)"
  let ?e1 = "packBits (subslice 24 47 s) XOR packBits (subslice 24 47 r)"
  have pop: "popcount ?e0 = dist 0 23 s r" "popcount ?e1 = dist 24 47 s r"
    using bits by (auto intro: popcount_packBits)
  have "take_bit 23 (packBits (subslice a (a + 23) xs)) = packBits (subslice a (a + 23) xs)" if "length xs = 72" "a + 23 \<le> 72" for a xs
    using that by (auto simp: small_iff packBits_def nth_bit)
  from this [of _ 0] this [of _ 24] have light: "?e0 \<in> light" "?e1 \<in> light"
    using pop rep bits by (simp_all add: light_def)
  have c0: "packBits (subslice 0 24 s) = EncodeGolay24 u0" "packBits (subslice 0 23 s) = EncodeGolay23 u0"
    using drop_packBits [of s] bits drop_EncodeGolay24 [of u0]
    by (simp_all add: s subslice_append_take subslice_whole take_EncodeGolay24)
  have c1: "packBits (subslice 24 47 s) = EncodeGolay23 u1 XOR scramble u0"
    by (simp add: s subslice_append_take subslice_append_skip subslice_whole take_bit_xor take_bit_EncodeGolay23 scramble_width)
  have u23: "packBits (subslice 47 58 r) = u2" "packBits (subslice 58 72 r) = u3"
    using rep(6) subslice_subslice [of 47 47 58 72 r s] subslice_subslice [of 47 58 72 72 r s] u
    by (simp_all add: s subslice_append_take subslice_append_skip subslice_whole)
  have z: "?e0 = 0 \<longrightarrow> packBits (subslice 0 24 r) = EncodeGolay24 u0"
  proof
    assume "?e0 = 0"
    then have "dist 0 23 s r = 0" using pop(1) by simp
    then have "subslice 0 24 r = subslice 0 24 s"
      using rep(4) bits dist_0_iff [of 0 23 s r] take_Suc_conv_app_nth [of 23 r] take_Suc_conv_app_nth [of 23 s]
      by (simp add: subslice_def)
    then show "packBits (subslice 0 24 r) = EncodeGolay24 u0" using c0 by simp
  qed
  have "Decode f = Some (join_parameters u0 u1 u2 u3, popcount ?e0 + popcount ?e1)"
    using Decode_blocks [OF rep(1) r_def _ z _ u(1,2) light] u23 c0(2) c1 drop_packBits [of r] bits
    by (simp add: xor.assoc xor.left_commute)
  then show ?thesis using join_fields [OF f] pop by (simp add: s_def r_def)
qed

lemma repairable_Encode: "repairable p (Encode p)"
  by (auto simp: repairable_def dist_def Let_def Encode_def is_bits_interleave unpackBits_def)

lemma interleave_deinterleave: "length f = 72 \<Longrightarrow> interleave (deinterleave f) = f"
proof (rule nth_equalityI)
  fix j assume "length f = 72" "j < length (interleave (deinterleave f))"
  then have "air_position ((j mod 4) * 18 + j div 4) = j" "(j mod 4) * 18 + j div 4 < 72"
    by (auto simp: air_position_def)
  then show "interleave (deinterleave f) ! j = f ! j"
    using interleave_at [of "(j mod 4) * 18 + j div 4" "deinterleave f"] nth_deinterleave [of "(j mod 4) * 18 + j div 4" f] by simp
qed simp

lemma Decode_cases:
  assumes "length f = 72"
  obtains u0 n0 where "DecodeGolay24 (packBits (subslice 0 24 (deinterleave f))) = (u0, n0)"
      "EncodeGolay24 u0 \<noteq> packBits (subslice 0 24 (deinterleave f))" "n0 = 0" "Decode f = None"
  | u0 n0 u1 n1 where "DecodeGolay24 (packBits (subslice 0 24 (deinterleave f))) = (u0, n0)"
      "DecodeGolay23 (packBits (subslice 24 47 (deinterleave f)) XOR scramble u0) = (u1, n1)"
      "n0 = 0 \<longrightarrow> EncodeGolay24 u0 = packBits (subslice 0 24 (deinterleave f))"
      "Decode f = Some (join_parameters u0 u1 (packBits (subslice 47 58 (deinterleave f))) (packBits (subslice 58 72 (deinterleave f))), n0 + n1)"
proof -
  obtain u0 n0 where d: "DecodeGolay24 (packBits (subslice 0 24 (deinterleave f))) = (u0, n0)" by fastforce
  moreover obtain u1 n1 where "DecodeGolay23 (packBits (subslice 24 47 (deinterleave f)) XOR scramble u0) = (u1, n1)" by fastforce
  ultimately show ?thesis
    using assms that unfolding Decode_def ProtectedBits_def Let_def
    by (cases "EncodeGolay24 u0 \<noteq> packBits (subslice 0 24 (deinterleave f)) \<and> n0 = 0") auto
qed

lemma fields_join:
  assumes "take_bit 12 u0 = u0" "take_bit 12 u1 = u1" "take_bit 11 u2 = u2" "take_bit 14 u3 = u3"
  shows "fields (join_parameters u0 u1 u2 u3) = (u0, u1, u2, u3)"
proof -
  note * = bit_small [OF _ assms(1)] bit_small [OF _ assms(2)] bit_small [OF _ assms(3)] bit_small [OF _ assms(4)]
  show ?thesis
    unfolding fields_def join_parameters_def prod.inject
    by (intro conjI bit_word_eqI) (auto simp: bit_simps dest: *)
qed

lemma packBits_width: "length xs \<le> n \<Longrightarrow> n \<le> 32 \<Longrightarrow> take_bit n (packBits xs) = packBits xs"
  by (auto simp: small_iff packBits_def nth_bit)

lemma unpack_packBits: "is_bits xs \<Longrightarrow> length xs = n \<Longrightarrow> n \<le> 32 \<Longrightarrow> unpackBits (packBits xs) n = xs"
  using unpack_pack_word [of xs, where 'a = 32] by (auto simp: packBits_def unpackBits_def)

lemma Encode_Decode:
  assumes "length f = 72" "is_bits f" "Decode f = Some (p, 0)"
  shows "Encode p = f"
proof -
  let ?g = "deinterleave f"
  have bits: "is_bits ?g" using assms by (simp add: is_bits_deinterleave)
  from assms(1) obtain u0 n0 u1 n1 where d: "DecodeGolay24 (packBits (subslice 0 24 ?g)) = (u0, n0)"
      "DecodeGolay23 (packBits (subslice 24 47 ?g) XOR scramble u0) = (u1, n1)"
      "n0 = 0 \<longrightarrow> EncodeGolay24 u0 = packBits (subslice 0 24 ?g)"
      "Decode f = Some (join_parameters u0 u1 (packBits (subslice 47 58 ?g)) (packBits (subslice 58 72 ?g)), n0 + n1)"
    by (rule Decode_cases) (use assms(3) in auto)
  have c0: "EncodeGolay24 u0 = packBits (subslice 0 24 ?g)" using d assms(3) by simp
  have w: "take_bit 23 (drop_bit 1 (packBits (subslice 0 24 ?g))) = drop_bit 1 (packBits (subslice 0 24 ?g))"
    using bits by (subst (1 2) drop_packBits) (simp_all add: packBits_width)
  have u0: "take_bit 12 u0 = u0"
    using golay_decodes [OF w] d(1) by (metis DecodeGolay24_def prod.inject)
  have w1: "take_bit 23 (packBits (subslice 24 47 ?g) XOR scramble u0) = packBits (subslice 24 47 ?g) XOR scramble u0"
    by (simp add: packBits_width scramble_width take_bit_xor)
  obtain d1 e1 where g1: "take_bit 12 d1 = d1" "packBits (subslice 24 47 ?g) XOR scramble u0 = EncodeGolay23 d1 XOR e1"
    "DecodeGolay23 (packBits (subslice 24 47 ?g) XOR scramble u0) = (d1, popcount e1)"
    by (rule golay_decodes [OF w1])
  then have u1: "take_bit 12 u1 = u1" "EncodeGolay23 u1 XOR scramble u0 = packBits (subslice 24 47 ?g)"
    using d(2,4) assms(3) by (auto simp: xor.assoc dest!: sym [of "_ XOR _"])
  have p: "p = join_parameters u0 u1 (packBits (subslice 47 58 ?g)) (packBits (subslice 58 72 ?g))" using d(4) assms(3) by simp
  have "deinterleave (Encode p) = subslice 0 24 ?g @ subslice 24 47 ?g @ subslice 47 58 ?g @ subslice 58 72 ?g"
    using deinterleave_Encode [OF fields_join [OF u0 u1(1) packBits_width packBits_width]] bits c0 u1(2)
    by (simp add: p unpack_packBits)
  also have "\<dots> = ?g"
    by (rule nth_equalityI) (auto simp: nth_append nth_subslice)
  finally have "interleave (deinterleave (Encode p)) = interleave ?g" by simp
  then show ?thesis using assms(1) by (simp add: interleave_deinterleave Encode_def Let_def)
qed

end
