(* ===== verification/Vocoder_Bridge.thy ===== *)
theory Vocoder_Bridge
  imports Vocoder
begin

text \<open>
  What the vocoder path promises: a frame is repaired, a burst taken apart is put together again, and
  the bridge between a DMR burst and IP Site Connect carries every parameter bit unchanged.
\<close>

section \<open>Bursts\<close>

lemma three: "length xs = 3 \<Longrightarrow> \<exists>a b c. xs = [a, b, c]"
  by (auto simp: numeral_3_eq_3 length_Suc_conv)

lemma AssembleBurst_frames:
  assumes "length f0 = 72" "length f1 = 72" "length f2 = 72" "is_bits f0" "is_bits f1" "is_bits f2"
  obtains b where "AssembleBurst [f0, f1, f2] m = Some b" "length b = 33" "VocoderFrames b = Some [f0, f1, f2]"
    "Middle b = Some (take_bit 48 m)"
proof -
  let ?p = "f0 @ f1 @ f2"
  define B where "B = take 108 ?p @ unpack_word m 48 @ drop 108 ?p"
  have B: "length B = 264" "is_bits B" using assms by (simp_all add: B_def)
  have bits: "BurstBitsFrom (BurstBytesFrom B) = B" by (rule BurstBitsFrom_BurstBytesFrom [OF B])
  have pl: "take 108 B @ drop 156 B = ?p" using assms by (simp add: B_def)
  have a: "AssembleBurst [f0, f1, f2] m = Some (BurstBytesFrom B)"
    using assms by (simp add: AssembleBurst_def FramesPerBurst_def ProtectedBits_def SyncOffset_def SyncBits_def B_def)
  have v: "VocoderFrames (BurstBytesFrom B) = Some [f0, f1, f2]"
    using assms B by (simp add: VocoderFrames_def BurstBytes_def bits SyncOffset_def SyncBits_def pl FramesPerBurst_def
        ProtectedBits_def upt_rec subslice_def) (simp add: B_def)
  have mid: "Middle (BurstBytesFrom B) = Some (take_bit 48 m)"
  proof -
    have "subslice 108 156 B = unpack_word m 48" using assms by (simp add: subslice_def B_def)
    then show ?thesis using B pack_unpack_word [of 48 m]
      by (simp add: Middle_def BurstBytes_def bits SyncOffset_def SyncBits_def)
  qed
  show ?thesis using that [OF a _ v mid] B by simp
qed

lemma VocoderFrames_split:
  assumes "length b = 33"
  obtains f0 f1 f2 where "VocoderFrames b = Some [f0, f1, f2]" "length f0 = 72" "length f1 = 72" "length f2 = 72"
    "is_bits f0" "is_bits f1" "is_bits f2" "AssembleBurst [f0, f1, f2] (the (Middle b)) = Some b"
proof -
  let ?B = "BurstBitsFrom b"
  define P where "P = take 108 ?B @ drop 156 ?B"
  have P: "length P = 216" "is_bits P" using assms by (simp_all add: P_def)
  let ?f = "\<lambda>a. take 72 (drop a P)"
  have v: "VocoderFrames b = Some [?f 0, ?f 72, ?f 144]"
    using assms by (simp add: VocoderFrames_def BurstBytes_def SyncOffset_def SyncBits_def P_def FramesPerBurst_def Let_def
        ProtectedBits_def upt_rec subslice_def)
  have cat: "?f 0 @ ?f 72 @ ?f 144 = P"
    by (rule nth_equalityI) (use P in \<open>auto simp: nth_append\<close>)
  have mid: "unpack_word (the (Middle b)) 48 = take 48 (drop 108 ?B)"
    using unpack_pack_word [of "take 48 (drop 108 ?B)", where 'a = 64] assms
    by (simp add: Middle_def BurstBytes_def SyncOffset_def SyncBits_def subslice_def)
  have "take 108 P @ take 48 (drop 108 ?B) @ drop 108 P = ?B"
    by (rule nth_equalityI) (use assms in \<open>auto simp: P_def nth_append\<close>)
  then have "AssembleBurst [?f 0, ?f 72, ?f 144] (the (Middle b)) = Some b"
    using P assms cat mid BurstBytesFrom_BurstBitsFrom [of b]
    by (simp add: AssembleBurst_def FramesPerBurst_def ProtectedBits_def SyncOffset_def SyncBits_def)
  then show ?thesis using that [OF v] P by simp
qed

section \<open>The payload of IP Site Connect\<close>

lemma get_bit_PackIPSCCore:
  assumes "j < 152"
  shows "get_bit (PackIPSCCore [p0, p1, p2]) j \<longleftrightarrow>
    (if j < 49 then bit p0 (48 - j) else if 50 \<le> j \<and> j < 99 then bit p1 (98 - j)
     else 100 \<le> j \<and> j < 149 \<and> bit p2 (148 - j))"
  using assms by (auto simp: PackIPSCCore_def IPSCSlotBits_def ParameterBits_def IPSCCoreBytes_def nth_bit)

lemma length_PackIPSCCore: "length (PackIPSCCore [p0, p1, p2]) = 19"
  by (simp add: PackIPSCCore_def IPSCSlotBits_def ParameterBits_def IPSCCoreBytes_def)

lemma UnpackIPSCCore_three:
  "length core = 19 \<Longrightarrow> UnpackIPSCCore core = Some [readBits core 0 49, readBits core 50 49, readBits core 100 49]"
  by (simp add: UnpackIPSCCore_def IPSCCoreBytes_def IPSCSlotBits_def ParameterBits_def FramesPerBurst_def upt_rec)

lemma UnpackIPSCCore_PackIPSCCore:
  "UnpackIPSCCore (PackIPSCCore [p0, p1, p2]) = Some [take_bit 49 p0, take_bit 49 p1, take_bit 49 p2]"
  unfolding UnpackIPSCCore_three [OF length_PackIPSCCore] option.inject list.inject
  by (intro conjI bit_word_eqI) (auto simp: nth_bit get_bit_PackIPSCCore bit_take_bit_iff)

lemma is_bits_Encode [simp]: "is_bits (Encode p)" "length (Encode p) = 72"
  using repairable_Encode [of p] by (simp_all add: repairable_def)

lemma Encode_take: "Encode (take_bit 49 p) = Encode p"
proof -
  obtain u0 u1 u2 u3 where f: "fields p = (u0, u1, u2, u3)" using prod_cases4 by blast
  have "fields (take_bit 49 p) = fields p"
    unfolding fields_def prod.inject by (intro conjI bit_word_eqI) (auto simp: bit_simps)
  then have "deinterleave (Encode (take_bit 49 p)) = deinterleave (Encode p)"
    using f deinterleave_Encode by metis
  then show ?thesis using interleave_deinterleave is_bits_Encode(2) by metis
qed

lemma Decode_Encode: "Decode (Encode p) = Some (take_bit 49 p, 0)"
  using Decode_corrects [OF repairable_Encode, of p] by (simp add: dist_def)

lemma decode_frames_Encode: "decode_frames (map Encode ps) = Some (map (take_bit 49) ps, 0)"
  by (induction ps) (simp_all add: Decode_Encode)

section \<open>Properties\<close>

text \<open>
  A damaged frame yields what the radio sent.  When at most three bits of each of the two
  protected blocks of a frame arrived wrong, \<open>Decode\<close> returns the 49 parameter bits that were encoded
  and the number of bits it put right.
\<close>

lemma vocoder_frame_repaired:
  assumes "repairable p f"
  shows "Decode f = Some (take_bit 49 p, dist 0 23 (deinterleave (Encode p)) (deinterleave f) +
    dist 24 47 (deinterleave (Encode p)) (deinterleave f))"
  by (rule Decode_corrects [OF assms])

text \<open>One bit of a frame turned over, at the place of bit \<open>i\<close> before interleaving.\<close>

definition flipped :: "nat \<Rightarrow> byte list \<Rightarrow> byte list" where
  "flipped i f = f[air_position i := f ! air_position i XOR 1]"

lemma is_bits_flipped: "is_bits f \<Longrightarrow> length f = 72 \<Longrightarrow> i < 72 \<Longrightarrow> is_bits (flipped i f)"
proof -
  assume f: "is_bits f" "length f = 72" "i < 72"
  then have "f ! air_position i \<in> set f" by (simp add: air_position_less)
  then have "f ! air_position i = 0 \<or> f ! air_position i = 1" using f(1) by (auto simp: is_bits_def)
  then show ?thesis
    using f(1) set_update_subset_insert [of f "air_position i" "f ! air_position i XOR 1"] by (auto simp: is_bits_def flipped_def)
qed

lemma deinterleave_flipped:
  assumes "length f = 72" "i < 72"
  shows "deinterleave (flipped i f) = (deinterleave f)[i := deinterleave f ! i XOR 1]"
proof (rule nth_equalityI)
  fix j assume "j < length (deinterleave (flipped i f))"
  then show "deinterleave (flipped i f) ! j = (deinterleave f)[i := deinterleave f ! i XOR 1] ! j"
    using assms air_position_inj [of i j] by (auto simp: nth_deinterleave flipped_def nth_list_update air_position_less)
qed simp

lemma vocoder_frame_repaired_witness:
  "Decode (flipped 0 (Encode 0x1F003533F19C1)) = Some (0x1F003533F19C1, 1)"
proof -
  let ?s = "deinterleave (Encode 0x1F003533F19C1)" and ?f = "flipped 0 (Encode 0x1F003533F19C1)"
  have r: "deinterleave ?f = ?s[0 := ?s ! 0 XOR 1]" by (rule deinterleave_flipped) simp_all
  have ne: "x XOR 1 \<noteq> x" for x :: byte
  proof
    assume "x XOR 1 = x"
    then have "bit (x XOR 1) 0 = bit x 0" by (simp only:)
    then show False unfolding bit_xor_iff by simp
  qed
  have d: "dist 0 23 ?s (deinterleave ?f) = 1" "dist 24 47 ?s (deinterleave ?f) = 0"
    using ne [symmetric] by (simp_all add: r dist_def upt_rec nth_list_update)
  have "subslice 47 72 (deinterleave ?f) = subslice 47 72 ?s" by (simp add: r subslice_def)
  then have "repairable 0x1F003533F19C1 ?f"
    using d is_bits_flipped [of "Encode 0x1F003533F19C1" 0] by (simp add: repairable_def Let_def flipped_def)
  from vocoder_frame_repaired [OF this] d show ?thesis by simp
qed

text \<open>
  C40: What \<open>Decode\<close> refuses.  Of the frames of the right length it refuses exactly those whose first
  block is a codeword with nothing but its parity bit wrong; every other frame, noise included, is
  decoded.
\<close>

theorem vocoder_refuses_parity_error:
  assumes "length f = 72" "is_bits f"
  shows "Decode f = None \<longleftrightarrow> (\<exists>u. u < 0x1000 \<and> packBits (subslice 0 24 (deinterleave f)) = EncodeGolay24 u XOR 1)"
proof -
  let ?c = "packBits (subslice 0 24 (deinterleave f))"
  have w: "take_bit 23 (drop_bit 1 ?c) = drop_bit 1 ?c"
    using is_bits_deinterleave [OF assms(2,1)] by (subst (1 2) drop_packBits) (simp_all add: packBits_width)
  obtain d e where de: "take_bit 12 d = d" "drop_bit 1 ?c = EncodeGolay23 d XOR e" "DecodeGolay24 ?c = (d, popcount e)"
    unfolding DecodeGolay24_def by (rule golay_decodes [OF w])
  have flip: "EncodeGolay24 d \<noteq> ?c \<longleftrightarrow> ?c = EncodeGolay24 d XOR 1" if "e = 0"
  proof -
    have "drop_bit 1 (EncodeGolay24 d XOR 1) = drop_bit 1 ?c" "drop_bit 1 (EncodeGolay24 d) = drop_bit 1 ?c"
      using de(2) that by (simp_all only: drop_bit_xor drop_EncodeGolay24) simp_all
    moreover have "bit (EncodeGolay24 d XOR 1) 0 \<noteq> bit (EncodeGolay24 d) 0" by (simp add: bit_xor_iff)
    ultimately show ?thesis using eq_by_drop by metis
  qed
  have only: "u = d \<and> e = 0" if "u < 0x1000" "?c = EncodeGolay24 u XOR 1" for u
  proof -
    have "drop_bit 1 ?c = EncodeGolay23 u" using that(2) by (simp only: drop_bit_xor drop_EncodeGolay24) simp
    moreover have "take_bit 12 u = u" using that(1) by (simp only: below_word)
    ultimately have "DecodeGolay24 ?c = (u, popcount 0)"
      using golay_corrects [of u 0] by (simp add: DecodeGolay24_def)
    then show ?thesis using de(3) by simp
  qed
  from assms(1) show ?thesis
  proof (cases rule: Decode_cases)
    case (1 u0 n0)
    then have "?c = EncodeGolay24 d XOR 1" using de(3) flip by simp
    moreover have "d < 0x1000" using de(1) by (simp only: below_word)
    ultimately show ?thesis using 1 by auto
  next
    case (2 u0 n0 u1 n1)
    then have "\<not> (e = 0 \<and> ?c = EncodeGolay24 d XOR 1)" using de(3) flip by auto
    then show ?thesis using only 2(4) by auto
  qed
qed

theorem vocoder_refuses_parity_error_witness: "Decode (flipped 23 (Encode 0)) = None"
proof -
  have z: "EncodeGolay24 0 = 0" by (simp add: EncodeGolay24_def golay_eval)
  have f: "fields 0 = (0, 0, 0, 0)" by (simp add: fields_def)
  have "subslice 0 24 (deinterleave (Encode 0)) = replicate 24 0"
    by (subst deinterleave_Encode [OF f]) (simp add: z subslice_def unpackBits_def unpack_word_eq map_replicate_const)
  then have "subslice 0 24 (deinterleave (flipped 23 (Encode 0))) = replicate 23 0 @ [1]"
    using deinterleave_flipped [of "Encode 0" 23] nth_subslice [of 23 24 0 "deinterleave (Encode 0)"]
    by (simp add: subslice_def take_update_swap numeral_eq_Suc)
  then have "packBits (subslice 0 24 (deinterleave (flipped 23 (Encode 0)))) = EncodeGolay24 0 XOR 1"
    by (simp add: z packBits_def pack_word_def numeral_eq_Suc)
  then show ?thesis
    using vocoder_refuses_parity_error [of "flipped 23 (Encode 0)"] is_bits_flipped [of "Encode 0" 23]
    by (auto simp: flipped_def intro: exI [of _ 0])
qed

text \<open>
  From IP Site Connect to the air and back nothing is lost.  The burst built from a payload
  carries the middle field it was given, and taking the payload out of that burst gives every bit of
  the original, no correction made, but the five spare bits, which come back as zero.
\<close>

lemma ipsc_bridge_lossless:
  assumes "length core = 19"
  shows "\<exists>b core'. BurstFromIPSC core m = Some b \<and> Middle b = Some (take_bit 48 m) \<and> IPSCFromBurst b = Some (core', 0) \<and>
    length core' = 19 \<and> (\<forall>i < 152. get_bit core' i \<longleftrightarrow> get_bit core i \<and> i \<notin> {49, 99, 149, 150, 151})"
proof -
  let ?p = "\<lambda>a. readBits core a 49"
  obtain b where b: "AssembleBurst [Encode (?p 0), Encode (?p 50), Encode (?p 100)] m = Some b"
    "VocoderFrames b = Some [Encode (?p 0), Encode (?p 50), Encode (?p 100)]" "Middle b = Some (take_bit 48 m)"
    by (rule AssembleBurst_frames [of "Encode (?p 0)" "Encode (?p 50)" "Encode (?p 100)" m]) auto
  have w: "take_bit 49 (?p a) = ?p a" for a by (auto simp: small_iff nth_bit)
  let ?core = "PackIPSCCore [?p 0, ?p 50, ?p 100]"
  have "IPSCFromBurst b = Some (?core, 0)"
    using b(2) decode_frames_Encode [of "[?p 0, ?p 50, ?p 100]"] by (simp add: IPSCFromBurst_def w)
  moreover have "get_bit ?core i \<longleftrightarrow> get_bit core i \<and> i \<notin> {49, 99, 149, 150, 151}" if "i < 152" for i
    using that by (auto simp: get_bit_PackIPSCCore nth_bit)
  ultimately show ?thesis
    using b UnpackIPSCCore_three [OF assms] length_PackIPSCCore by (fastforce simp: BurstFromIPSC_def)
qed

lemma ipsc_bridge_lossless_witness:
  "\<exists>b core'. BurstFromIPSC (replicate 19 0xA5) VoiceSyncBS = Some b \<and> Middle b = Some (take_bit 48 VoiceSyncBS) \<and>
     IPSCFromBurst b = Some (core', 0) \<and> length core' = 19 \<and>
     (\<forall>i < 152. get_bit core' i \<longleftrightarrow> get_bit (replicate 19 0xA5) i \<and> i \<notin> {49, 99, 149, 150, 151})"
  by (rule ipsc_bridge_lossless) simp

text \<open>
  From the air to IP Site Connect and back.  A burst whose frames need no correction is rebuilt bit
  for bit from the payload taken out of it and its middle field; a burst of which each frame can be
  repaired gives the payload of the parameters that were sent.
\<close>

lemma burst_rebuilt_from_ipsc:
  shows "(IPSCFromBurst b = Some (core, 0) \<longrightarrow> BurstFromIPSC core (the (Middle b)) = Some b) \<and>
    (VocoderFrames b = Some [f0, f1, f2] \<and> repairable p0 f0 \<and> repairable p1 f1 \<and> repairable p2 f2 \<longrightarrow>
       (\<exists>n. IPSCFromBurst b = Some (PackIPSCCore (map (take_bit 49) [p0, p1, p2]), n)))"
proof (intro conjI impI)
  assume i: "IPSCFromBurst b = Some (core, 0)"
  then have "length b = 33" by (auto simp: IPSCFromBurst_def VocoderFrames_def BurstBytes_def split: if_splits option.splits)
  then obtain f0 f1 f2 where f: "VocoderFrames b = Some [f0, f1, f2]" "length f0 = 72" "length f1 = 72" "length f2 = 72"
    "is_bits f0" "is_bits f1" "is_bits f2" "AssembleBurst [f0, f1, f2] (the (Middle b)) = Some b"
    by (rule VocoderFrames_split)
  from i f(1) obtain q0 q1 q2 where d: "Decode f0 = Some (q0, 0)" "Decode f1 = Some (q1, 0)" "Decode f2 = Some (q2, 0)"
    and core: "core = PackIPSCCore [q0, q1, q2]"
    by (auto simp: IPSCFromBurst_def split: option.splits prod.splits)
  have e: "Encode q0 = f0" "Encode q1 = f1" "Encode q2 = f2" using f d by (auto intro: Encode_Decode)
  show "BurstFromIPSC core (the (Middle b)) = Some b"
    using f(8) e by (simp add: BurstFromIPSC_def core UnpackIPSCCore_PackIPSCCore Encode_take)
next
  assume "VocoderFrames b = Some [f0, f1, f2] \<and> repairable p0 f0 \<and> repairable p1 f1 \<and> repairable p2 f2"
  then show "\<exists>n. IPSCFromBurst b = Some (PackIPSCCore (map (take_bit 49) [p0, p1, p2]), n)"
    using Decode_corrects [of p0 f0] Decode_corrects [of p1 f1] Decode_corrects [of p2 f2] by (simp add: IPSCFromBurst_def)
qed

lemma burst_rebuilt_from_ipsc_witness:
  "\<exists>b core. IPSCFromBurst b = Some (core, 0) \<and> BurstFromIPSC core (the (Middle b)) = Some b"
proof -
  obtain b where "VocoderFrames b = Some [Encode 1, Encode 2, Encode 3]"
    by (rule AssembleBurst_frames [of "Encode 1" "Encode 2" "Encode 3" 0]) auto
  then have "IPSCFromBurst b = Some (PackIPSCCore [1, 2, 3], 0)"
    by (simp add: IPSCFromBurst_def Decode_Encode)
  then show ?thesis using burst_rebuilt_from_ipsc by blast
qed

end
