(* ===== verification/Emb.thy ===== *)
theory Emb
  imports Linear_Codes
begin

text \<open>
  \<^verbatim>\<open>internal/dmrfec/emb.go\<close>: the sixteen bits of embedded signalling that say whose burst this is and where
  it stands in its superframe, and the 48 bits in the middle of a voice burst.  \<open>None\<close> is the code's
  error.  A position in a superframe is a Go \<^verbatim>\<open>int\<close>.
\<close>

section \<open>Definitions\<close>

definition LCSSSingle :: byte where
  "LCSSSingle = 0"

definition LCSSFirst :: byte where
  "LCSSFirst = 1"

definition LCSSLast :: byte where
  "LCSSLast = 2"

definition LCSSContinuation :: byte where
  "LCSSContinuation = 3"

definition embGenerator :: u32 where
  "embGenerator = 0x139"

definition emb_step :: "nat \<Rightarrow> u32 \<Rightarrow> u32" where
  "emb_step i v = (if drop_bit i v AND 1 = 1 then v XOR push_bit (i - 8) embGenerator else v)"

definition embParity :: "u32 \<Rightarrow> u32" where
  "embParity v = fold emb_step (rev [8..<16]) v AND 0xFF"

definition EMBFor :: "byte \<Rightarrow> byte \<Rightarrow> u16 option" where
  "EMBFor colourCode lcss =
     (if colourCode > 15 then None
      else if lcss > 3 then None
      else
        let info = push_bit 3 (ucast colourCode) OR ucast lcss;
            code15 = push_bit 8 info OR embParity (push_bit 8 info)
        in Some (ucast (push_bit 1 code15) OR of_nat (popcount code15 mod 2)))"

definition EmbeddedMiddle :: "u16 \<Rightarrow> u32 \<Rightarrow> u64" where
  "EmbeddedMiddle emb fragment = push_bit 40 (ucast (drop_bit 8 emb)) OR push_bit 8 (ucast fragment) OR ucast (emb AND 0xFF)"

definition SplitMiddle :: "u64 \<Rightarrow> u16 \<times> u32" where
  "SplitMiddle middle =
     (push_bit 8 (ucast (drop_bit 40 middle)) OR ucast (middle AND 0xFF), ucast (drop_bit 8 middle))"

definition ColourCodeOf :: "u16 \<Rightarrow> byte" where
  "ColourCodeOf emb = ucast (drop_bit 12 emb)"

definition LCSSOf :: "u16 \<Rightarrow> byte" where
  "LCSSOf emb = ucast (drop_bit 9 emb) AND 3"

definition ValidEMB :: "u16 \<Rightarrow> bool" where
  "ValidEMB emb = (case EMBFor (ColourCodeOf emb) (LCSSOf emb) of None \<Rightarrow> False | Some want \<Rightarrow> want = emb)"

definition LCSSForPosition :: "int \<Rightarrow> byte option" where
  "LCSSForPosition position =
     (if position = 0 then None
      else if position = 1 then Some LCSSFirst
      else if position = 2 \<or> position = 3 then Some LCSSContinuation
      else if position = 4 then Some LCSSLast
      else if position = 5 then Some LCSSSingle
      else None)"

definition MiddleForPosition :: "int \<Rightarrow> byte \<Rightarrow> u32 \<Rightarrow> u64 option" where
  "MiddleForPosition position colourCode fragment =
     (if position = 0 then Some VoiceSyncBS
      else
        (case LCSSForPosition position of None \<Rightarrow> None
         | Some lcss \<Rightarrow>
             (case EMBFor colourCode lcss of None \<Rightarrow> None
              | Some emb \<Rightarrow> Some (EmbeddedMiddle emb fragment))))"

section \<open>The code of the EMB\<close>

lemma xor_u32 [simp]: "a XOR (a XOR b) = b" "(a XOR b) XOR b = a" for a b :: u32
  by (simp flip: xor.assoc, simp add: xor.assoc)

lemma emb_step_bit: "emb_step i v = (if bit v i then v XOR push_bit (i - 8) embGenerator else v)"
  by (simp add: emb_step_def bit_drop_bit_eq)

lemma emb_step_xor: "emb_step i (a XOR b) = emb_step i a XOR emb_step i b"
  by (auto simp: emb_step_bit bit_xor_iff ac_simps)

lemma mask8: "(w :: 'a::len word) AND 0xFF = take_bit 8 w"
  by (simp add: take_bit_eq_mask mask_numeral)

lemma embParity_xor: "embParity (a XOR b) = embParity a XOR embParity b"
proof -
  have "fold emb_step is (a XOR b) = fold emb_step is a XOR fold emb_step is b" for "is"
    by (induction "is" arbitrary: a b) (simp_all add: emb_step_xor)
  then show ?thesis by (simp only: embParity_def mask8 take_bit_xor)
qed

lemma embParity_small: "take_bit 8 (embParity v) = embParity v"
  by (simp add: embParity_def mask8)

lemma popcount_xor_parity: "odd (popcount (a XOR b)) \<longleftrightarrow> odd (popcount a) \<noteq> odd (popcount b)"
proof -
  have fin: "finite (ones v)" for v by (rule finite_subset [of _ "{..<32}"]) (auto simp: ones_def dest: bit_imp_le_length)
  have "ones (a XOR b) = (ones a - ones b) \<union> (ones b - ones a)" by (auto simp: ones_def bit_xor_iff)
  then have "card (ones (a XOR b)) = card (ones a - ones b) + card (ones b - ones a)"
    using fin by (simp add: card_Un_disjoint Diff_Int_distrib2 disjoint_iff)
  moreover have "card (ones a) = card (ones a - ones b) + card (ones a \<inter> ones b)"
    "card (ones b) = card (ones b - ones a) + card (ones a \<inter> ones b)"
    using fin by (metis Un_Diff_Int Diff_disjoint Int_Diff card_Un_disjoint finite_Diff finite_Int inf_commute)+
  ultimately show ?thesis unfolding popcount_card by presburger
qed

text \<open>The sixteen bits as a function of the seven they protect, in a 32-bit word.\<close>

definition emb_word :: "u32 \<Rightarrow> u32" where
  "emb_word d = push_bit 8 (take_bit 7 d) XOR embParity (push_bit 8 (take_bit 7 d))"

definition emb_code :: "u32 \<Rightarrow> u32" where
  "emb_code d = push_bit 1 (emb_word d) XOR of_bool (odd (popcount (emb_word d)))"

lemma emb_word_xor: "emb_word (a XOR b) = emb_word a XOR emb_word b"
  by (simp add: emb_word_def take_bit_xor push_bit_xor embParity_xor ac_simps)

interpretation emb: linear_code emb_code 7
  by unfold_locales (simp add: emb_code_def emb_word_xor push_bit_xor popcount_xor_parity ac_simps)

lemma nweight_numeral: "nweight (Suc 0) = Suc 0" "nweight (numeral (num.Bit0 n)) = nweight (numeral n)"
  "nweight (numeral (num.Bit1 n)) = Suc (nweight (numeral n))"
  by (subst nweight.simps; simp)+

lemma emb_rows: "row_bits emb_code 7 0 = map word_bits
  [0x273, 0x4E5, 0x9C9, 0x11E2, 0x21B7, 0x411E, 0x804F]"
proof -
  have "[0..<7] = [0, 1, 2, 3, 4, 5, 6 :: nat]" by (simp add: upt_rec)
  then show ?thesis by (simp only: row_bits_def list.map)
    (simp add: emb_code_def emb_word_def embParity_def emb_step_bit embGenerator_def popcount_nweight nweight_numeral)
qed

lemma emb_min_weight: "min_weight 6 (row_bits emb_code 7 0)"
  unfolding emb_rows by (simp add: word_bits_def upt_rec numeral_eq_Suc)

section \<open>Reading an EMB\<close>

lemma two_bits: "\<not> (3 < b) \<longleftrightarrow> take_bit 2 b = b" for b :: byte
  unfolding small_unat [symmetric] word_less_nat_alt by simp linarith

lemmas emb_ranges = nibble two_bits

definition emb_info :: "byte \<Rightarrow> byte \<Rightarrow> u32" where
  "emb_info cc lcss = push_bit 3 (ucast cc) OR ucast lcss"

lemma bit_emb_info:
  assumes "take_bit 4 cc = cc" "take_bit 2 lcss = lcss"
  shows "bit (emb_info cc lcss) n \<longleftrightarrow> (if n < 3 then bit lcss n else bit cc (n - 3))"
  unfolding emb_info_def bit_or_iff bit_push_bit_iff bit_ucast_iff
  by (cases "n < 7") (auto dest: bit_small [OF _ assms(1)] bit_small [OF _ assms(2)] bit_imp_le_length)

lemma emb_info_small:
  assumes "take_bit 4 cc = cc" "take_bit 2 lcss = lcss"
  shows "take_bit 7 (emb_info cc lcss) = emb_info cc lcss"
  by (rule bit_word_eqI)
    (auto simp: bit_take_bit_iff bit_emb_info [OF assms] dest: bit_small [OF _ assms(1)] split: if_splits)

lemma bit_emb_word: "bit (emb_word d) n \<longleftrightarrow> (if n < 8 then bit (embParity (push_bit 8 (take_bit 7 d))) n else n < 15 \<and> bit d (n - 8))"
  unfolding emb_word_def bit_xor_iff bit_push_bit_iff bit_take_bit_iff
  by (cases "n < 32") (auto dest: bit_small [OF _ embParity_small] bit_imp_le_length)

lemma bit_emb_code: "bit (emb_code d) n \<longleftrightarrow> (if n = 0 then odd (popcount (emb_word d)) else bit (emb_word d) (n - 1))"
  unfolding emb_code_def bit_xor_iff bit_push_bit_iff
  by (cases "n < 32") (auto simp: bit_emb_word bit_1_iff)

lemma EMBFor_code:
  assumes "take_bit 4 cc = cc" "take_bit 2 lcss = lcss"
  shows "EMBFor cc lcss = Some (ucast (emb_code (emb_info cc lcss)))"
proof -
  let ?i = "emb_info cc lcss" and ?w = "emb_word (emb_info cc lcss)"
  have w: "push_bit 8 ?i OR embParity (push_bit 8 ?i) = ?w"
    unfolding emb_word_def emb_info_small [OF assms]
    by (rule bit_word_eqI) (unfold bit_or_iff bit_xor_iff bit_push_bit_iff, auto dest: bit_small [OF _ embParity_small])
  have "bit (of_nat (popcount ?w mod 2) :: u16) n \<longleftrightarrow> n = 0 \<and> odd (popcount ?w)" for n
    by (cases "odd (popcount ?w)") (auto simp: bit_1_iff odd_iff_mod_2_eq_one)
  then have "(ucast (push_bit 1 ?w) OR of_nat (popcount ?w mod 2) :: u16) = ucast (emb_code ?i)"
    by (intro bit_word_eqI) (unfold bit_or_iff bit_ucast_iff bit_emb_code bit_push_bit_iff, auto)
  then show ?thesis using assms unfolding emb_ranges [symmetric] EMBFor_def emb_info_def [symmetric] Let_def w by simp
qed

lemma EMBFor_fields:
  assumes "take_bit 4 cc = cc" "take_bit 2 lcss = lcss" "EMBFor cc lcss = Some e"
  shows "ColourCodeOf e = cc" "LCSSOf e = lcss"
proof -
  have e: "bit e n \<longleftrightarrow> n < 16 \<and> bit (emb_code (emb_info cc lcss)) n" for n
    using assms(3) EMBFor_code [OF assms(1,2)] by (auto simp: bit_ucast_iff)
  have m: "(3 :: byte) = mask 2" by (simp add: mask_numeral)
  show "ColourCodeOf e = cc" "LCSSOf e = lcss" unfolding ColourCodeOf_def LCSSOf_def m take_bit_eq_mask [symmetric]
    by (rule bit_word_eqI; auto simp: bit_ucast_iff bit_take_bit_iff bit_drop_bit_eq e bit_emb_code bit_emb_word bit_emb_info [OF assms(1,2)]
      dest: bit_small [OF _ assms(1)] bit_small [OF _ assms(2)])+
qed

lemma EMBFor_valid:
  assumes "EMBFor cc lcss = Some e"
  shows "ValidEMB e" "ColourCodeOf e = cc" "LCSSOf e = lcss"
proof -
  have "take_bit 4 cc = cc" "take_bit 2 lcss = lcss"
    using assms unfolding emb_ranges [symmetric] by (auto simp: EMBFor_def split: if_splits)
  from EMBFor_fields [OF this assms] show "ValidEMB e" "ColourCodeOf e = cc" "LCSSOf e = lcss"
    using assms by (simp_all add: ValidEMB_def)
qed

lemma SplitMiddle_EmbeddedMiddle: "SplitMiddle (EmbeddedMiddle emb fragment) = (emb, fragment)"
proof -
  have b: "bit (EmbeddedMiddle emb fragment) n \<longleftrightarrow>
      (if n < 8 then bit emb n else if n < 40 then bit fragment (n - 8) else bit emb (n - 32))" for n
    unfolding EmbeddedMiddle_def mask8
    by (cases "n < 64") (auto simp: bit_simps dest: bit_imp_le_length)
  show ?thesis unfolding SplitMiddle_def mask8
    by (intro arg_cong2 [of _ _ _ _ Pair] bit_word_eqI)
      (auto simp: bit_or_iff bit_push_bit_iff bit_ucast_iff bit_take_bit_iff bit_drop_bit_eq b dest: bit_imp_le_length)
qed

text \<open>The EMBs of two different pairs of colour code and LCSS differ in at least six of their sixteen
  bits, so two wrong bits can be corrected.\<close>

lemma embs_far_apart:
  assumes "EMBFor cc lcss = Some a" "EMBFor cc' lcss' = Some b" "(cc, lcss) \<noteq> (cc', lcss')"
  shows "6 \<le> popcount (ucast a XOR ucast b)"
proof -
  have s: "take_bit 4 cc = cc" "take_bit 2 lcss = lcss" "take_bit 4 cc' = cc'" "take_bit 2 lcss' = lcss'"
    using assms(1,2) unfolding emb_ranges [symmetric] by (auto simp: EMBFor_def split: if_splits)
  have "emb_info cc lcss \<noteq> emb_info cc' lcss'"
    using assms EMBFor_code [OF s(1,2)] EMBFor_code [OF s(3,4)] EMBFor_valid by (metis option.inject)
  then have "6 \<le> popcount (emb_code (emb_info cc lcss) XOR emb_code (emb_info cc' lcss'))"
    using emb_info_small [OF s(1,2)] emb_info_small [OF s(3,4)] by (intro emb.distance emb_min_weight) simp_all
  moreover have "ucast (ucast (emb_code d) :: u16) = emb_code d" for d
    by (rule bit_word_eqI) (auto simp: bit_ucast_iff bit_emb_code bit_emb_word split: if_splits)
  moreover have "a = ucast (emb_code (emb_info cc lcss))" "b = ucast (emb_code (emb_info cc' lcss'))"
    using assms EMBFor_code [OF s(1,2)] EMBFor_code [OF s(3,4)] by simp_all
  ultimately show ?thesis by simp
qed

lemma embs_far_apart_witness: "6 \<le> popcount (ucast (the (EMBFor 11 LCSSFirst)) XOR ucast (the (EMBFor 4 LCSSFirst)))"
  by (rule embs_far_apart [of 11 LCSSFirst _ 4 LCSSFirst]) (simp_all add: EMBFor_def Let_def LCSSFirst_def)

end
