(* ===== verification/Gf256.thy ===== *)
theory Gf256
  imports Dmr_Bits
begin

text \<open>
  The field of \<^verbatim>\<open>internal/dmrfec/linkcontrol.go\<close>: multiplication in GF(256) by logarithm tables that the
  package fills when it starts.  The lemmas show that \<open>gfMul\<close> is multiplication of polynomials modulo
  the primitive polynomial (\<open>gf_ref\<close>, one shift and reduction per bit), and so that it is commutative,
  associative, distributes over XOR, and has no zero divisors.
\<close>

section \<open>The tables\<close>

definition rsPrimitive :: u32 where
  "rsPrimitive = 0x11D"

definition rs_init_step :: "nat \<Rightarrow> u32 \<times> byte list \<times> byte list \<Rightarrow> u32 \<times> byte list \<times> byte list" where
  "rs_init_step i s = (case s of (x, ex, lg) \<Rightarrow>
     let y = push_bit 1 x
     in (if y AND 0x100 \<noteq> 0 then y XOR rsPrimitive else y, ex[i := ucast x], lg[unat (ucast x :: byte) := of_nat i]))"

definition rs_wrap_step :: "nat \<Rightarrow> byte list \<Rightarrow> byte list" where
  "rs_wrap_step i ex = ex[i := ex ! (i - 255)]"

definition rs_init :: "byte list \<times> byte list" where
  "rs_init =
     (case fold rs_init_step [0..<255] (1, replicate 512 0, replicate 256 0) of
        (x, ex, lg) \<Rightarrow> (fold rs_wrap_step [255..<512] ex, lg))"

definition rsExp :: "byte list" where
  "rsExp = fst rs_init"

definition rsLog :: "byte list" where
  "rsLog = snd rs_init"

definition gfMul :: "byte \<Rightarrow> byte \<Rightarrow> byte" where
  "gfMul a b = (if a = 0 \<or> b = 0 then 0 else rsExp ! (unat (rsLog ! unat a) + unat (rsLog ! unat b)))"

section \<open>Multiplication by shifts\<close>

definition mulx :: "byte \<Rightarrow> byte" where
  "mulx b = (if bit b 7 then push_bit 1 b XOR 0x1D else push_bit 1 b)"

definition gf_ref :: "byte \<Rightarrow> byte \<Rightarrow> byte" where
  "gf_ref a b = fold (\<lambda>k acc. if bit a k then acc XOR (mulx ^^ k) b else acc) [0..<8] 0"

definition linear_byte :: "(byte \<Rightarrow> byte) \<Rightarrow> bool" where
  "linear_byte f \<longleftrightarrow> (\<forall>a b. f (a XOR b) = f a XOR f b)"

lemma xor_byte [simp]: "a XOR (a XOR b) = b" "(a XOR b) XOR b = a" "a XOR b = 0 \<longleftrightarrow> a = b" for a b :: byte
proof -
  show *: "a XOR (a XOR b) = b" "(a XOR b) XOR b = a" for a b :: byte by (simp flip: xor.assoc, simp add: xor.assoc)
  show "a XOR b = 0 \<longleftrightarrow> a = b" using *(2) [of a b] by auto
qed

lemma mulx_linear: "linear_byte mulx"
  by (auto simp: linear_byte_def mulx_def bit_xor_iff push_bit_xor ac_simps)

lemma linear_zero: "linear_byte f \<Longrightarrow> f 0 = 0"
  unfolding linear_byte_def by (metis xor_self_eq)

lemma linear_comp: "linear_byte f \<Longrightarrow> linear_byte g \<Longrightarrow> linear_byte (\<lambda>x. f (g x))"
  by (simp add: linear_byte_def)

lemma linear_funpow: "linear_byte f \<Longrightarrow> linear_byte (f ^^ n)"
  by (induction n) (auto simp: linear_byte_def)

text \<open>A linear map is determined by what it does to each single bit.\<close>

lemma bit_fold_bits:
  fixes acc b :: byte
  assumes "distinct ks" "\<forall>k \<in> set ks. k < 8"
  shows "bit (fold (\<lambda>k acc. if bit b k then acc XOR push_bit k 1 else acc) ks acc) n \<longleftrightarrow> bit acc n \<noteq> (bit b n \<and> n \<in> set ks)"
  using assms by (induction ks arbitrary: acc) (auto simp: bit_xor_iff)

lemma byte_sum: "fold (\<lambda>k acc. if bit b k then acc XOR push_bit k 1 else acc) [0..<8] 0 = (b :: byte)"
  by (rule bit_word_eqI) (subst bit_fold_bits, auto)

lemma linear_fold:
  fixes b :: byte
  assumes "linear_byte f"
  shows "f (fold (\<lambda>k acc. if bit b k then acc XOR g k else acc) ks acc) =
    fold (\<lambda>k acc. if bit b k then acc XOR f (g k) else acc) ks (f acc)"
  using assms by (induction ks arbitrary: acc) (auto simp: linear_byte_def)

lemma linear_sum: "linear_byte f \<Longrightarrow> f b = fold (\<lambda>k acc. if bit b k then acc XOR f (push_bit k 1) else acc) [0..<8] 0"
  using linear_fold [of f b "\<lambda>k. push_bit k 1" "[0..<8]" 0] by (simp only: byte_sum linear_zero)

lemma linear_eqI:
  assumes "linear_byte f" "linear_byte g" "\<And>k. k < 8 \<Longrightarrow> f (push_bit k 1) = g (push_bit k 1)"
  shows "f b = g b"
  unfolding linear_sum [OF assms(1), of b] linear_sum [OF assms(2), of b]
  using assms(3) by (intro fold_cong) auto

lemma linear_of_bits: "linear_byte (\<lambda>a :: byte. fold (\<lambda>k acc. if bit a k then acc XOR h k else acc) ks 0)"
proof -
  have "fold (\<lambda>k acc. if bit (a XOR b) k then acc XOR h k else acc) ks (x XOR y) =
      fold (\<lambda>k acc. if bit a k then acc XOR h k else acc) ks x XOR fold (\<lambda>k acc. if bit b k then acc XOR h k else acc) ks y" for a b :: byte and x y
  proof (induction ks arbitrary: x y)
    case (Cons k ks)
    have "(if bit (a XOR b) k then (x XOR y) XOR h k else x XOR y) = (if bit a k then x XOR h k else x) XOR (if bit b k then y XOR h k else y)"
      by (auto simp: bit_xor_iff ac_simps)
    then show ?case using Cons by simp
  qed simp
  from this [of _ _ 0 0] show ?thesis unfolding linear_byte_def by simp
qed

lemma gf_ref_linear: "linear_byte (\<lambda>a. gf_ref a b)" "linear_byte (\<lambda>b. gf_ref a b)"
proof -
  show "linear_byte (\<lambda>a. gf_ref a b)" unfolding gf_ref_def by (rule linear_of_bits)
  have "fold (\<lambda>k acc. if bit a k then acc XOR (mulx ^^ k) (b XOR c) else acc) ks (x XOR y) =
      fold (\<lambda>k acc. if bit a k then acc XOR (mulx ^^ k) b else acc) ks x XOR
      fold (\<lambda>k acc. if bit a k then acc XOR (mulx ^^ k) c else acc) ks y" for b c x y ks
  proof (induction ks arbitrary: x y)
    case (Cons k ks)
    have "(if bit a k then (x XOR y) XOR (mulx ^^ k) (b XOR c) else x XOR y) =
        (if bit a k then x XOR (mulx ^^ k) b else x) XOR (if bit a k then y XOR (mulx ^^ k) c else y)"
      using linear_funpow [OF mulx_linear, of k] by (auto simp: linear_byte_def ac_simps)
    then show ?case using Cons by simp
  qed simp
  from this [of _ _ _ 0 0] show "linear_byte (\<lambda>b. gf_ref a b)" by (simp add: linear_byte_def gf_ref_def)
qed

lemma gf_ref_unit: "k < 8 \<Longrightarrow> gf_ref (push_bit k 1) b = (mulx ^^ k) b"
proof -
  assume "k < 8"
  then have "k \<in> {0, 1, 2, 3, 4, 5, 6, 7}" by auto
  moreover have "[0..<8] = [0, 1, 2, 3, 4, 5, 6, 7 :: nat]" by (simp add: upt_rec)
  ultimately show ?thesis unfolding gf_ref_def by auto
qed

text \<open>Evaluation: the shift keeps a byte numeral below 256, and a power of a function steps down its numeral.\<close>

lemma mulx_eval: "mulx b = (if bit b 7 then push_bit 1 (b AND 0x7F) XOR 0x1D else push_bit 1 b)"
proof -
  have "b AND 0x7F = take_bit 7 b" by (simp add: take_bit_eq_mask mask_numeral)
  moreover have "push_bit 1 (take_bit 7 b) = push_bit 1 b"
    by (rule bit_word_eqI) (unfold bit_push_bit_iff bit_take_bit_iff, auto)
  ultimately show ?thesis by (simp only: mulx_def)
qed

lemma funpow_numeral: "(f ^^ numeral n) x = (f ^^ pred_numeral n) (f x)"
  by (simp add: numeral_eq_Suc funpow_swap1)

text \<open>The polynomial is what eight shifts reduce to.\<close>

lemma mulx_8: "(mulx ^^ 8) b = gf_ref 0x1D b"
proof (rule linear_eqI [OF linear_funpow [OF mulx_linear] gf_ref_linear(2)])
  fix k :: nat assume "k < 8"
  then have "k \<in> {0, 1, 2, 3, 4, 5, 6, 7}" by auto
  moreover have "[0..<8] = [0, 1, 2, 3, 4, 5, 6, 7 :: nat]" by (simp add: upt_rec)
  then have "gf_ref 0x1D b = b XOR (mulx ^^ 2) b XOR (mulx ^^ 3) b XOR (mulx ^^ 4) b" for b by (simp add: gf_ref_def ac_simps)
  ultimately show "(mulx ^^ 8) (push_bit k 1) = gf_ref 0x1D (push_bit k 1)"
    by (elim insertE) (simp_all add: mulx_eval funpow_numeral)
qed

lemma gf_ref_mulx: "gf_ref (mulx a) b = mulx (gf_ref a b)"
proof (rule linear_eqI [OF linear_comp [OF gf_ref_linear(1) mulx_linear] linear_comp [OF mulx_linear gf_ref_linear(1)]])
  fix k :: nat assume k: "k < 8"
  show "gf_ref (mulx (push_bit k 1)) b = mulx (gf_ref (push_bit k 1) b)"
  proof (cases "k = 7")
    case True
    then have "mulx (push_bit k 1) = 0x1D" by (simp add: mulx_def)
    moreover have "(mulx ^^ 8) b = mulx ((mulx ^^ 7) b)" by (simp add: numeral_eq_Suc)
    ultimately show ?thesis using True mulx_8 [of b] gf_ref_unit [of 7 b] by simp
  next
    case False
    then have "mulx (push_bit k 1) = push_bit (Suc k) 1" "Suc k < 8" using k by (simp_all add: mulx_def)
    then show ?thesis using gf_ref_unit [of "Suc k" b] gf_ref_unit [OF k, of b] by (simp only: funpow.simps comp_apply)
  qed
qed

section \<open>The powers of the generator\<close>

definition alpha :: "nat \<Rightarrow> byte" where
  "alpha i = (mulx ^^ i) 1"

lemma alpha_add: "gf_ref (alpha i) (alpha j) = alpha (i + j)"
proof (induction i)
  case 0
  show ?case using gf_ref_unit [of 0 "alpha j"] by (simp add: alpha_def)
next
  case (Suc i)
  then show ?case by (simp add: alpha_def gf_ref_mulx)
qed

fun never_one :: "nat \<Rightarrow> byte \<Rightarrow> bool" where
  "never_one 0 x = True"
| "never_one (Suc n) x = (x \<noteq> 1 \<and> never_one n (mulx x))"

lemma never_one_iff: "never_one n x \<longleftrightarrow> (\<forall>k < n. (mulx ^^ k) x \<noteq> 1)"
proof (induction n arbitrary: x)
  case (Suc n)
  have "(\<forall>k < Suc n. (mulx ^^ k) x \<noteq> 1) \<longleftrightarrow> x \<noteq> 1 \<and> (\<forall>k < n. (mulx ^^ Suc k) x \<noteq> 1)"
    by (auto simp: less_Suc_eq_0_disj)
  then show ?case using Suc by (simp add: funpow_swap1)
qed simp

lemma never_one_numeral: "never_one (numeral n) x = (x \<noteq> 1 \<and> never_one (pred_numeral n) (mulx x))"
  by (simp add: numeral_eq_Suc)

lemma alpha_not_one: "never_one 254 (mulx 1)"
  by (simp add: never_one_numeral mulx_eval)

lemma alpha_255: "alpha 255 = 1"
  by (simp add: alpha_def funpow_numeral mulx_eval)

lemma gf_ref_alpha: "gf_ref (alpha i) b = (mulx ^^ i) b"
proof (induction i)
  case 0
  show ?case using gf_ref_unit [of 0 b] by (simp add: alpha_def)
next
  case (Suc i)
  then show ?case by (simp add: alpha_def gf_ref_mulx)
qed

lemma mulx_255: "(mulx ^^ 255) b = b"
  using gf_ref_alpha [of 255 b] gf_ref_alpha [of 0 b] by (simp add: alpha_255 alpha_def [of 0])

lemma alpha_period: "alpha (255 + i) = alpha i"
  by (simp add: alpha_def funpow_add mulx_255)

lemma funpow_alpha: "(mulx ^^ n) (alpha k) = alpha (n + k)"
  by (simp add: alpha_def funpow_add)

lemma alpha_inj: "i < 255 \<Longrightarrow> j < 255 \<Longrightarrow> alpha i = alpha j \<Longrightarrow> i = j"
proof (induction i j rule: linorder_wlog)
  case (le i j)
  show ?case
  proof (rule ccontr)
    assume "i \<noteq> j"
    have "alpha 255 = alpha (255 - i + i)" using le by simp
    also have "\<dots> = (mulx ^^ (255 - i)) (alpha j)" using le by (simp only: funpow_alpha [symmetric])
    also have "\<dots> = alpha (255 + (j - i))" unfolding funpow_alpha using le by (intro arg_cong [of _ _ alpha]) linarith
    finally have "alpha (j - i) = 1" by (simp only: alpha_255 alpha_period)
    moreover obtain k where k: "j - i = Suc k" "k < 254" using le \<open>i \<noteq> j\<close>
      by (cases "j - i") auto
    moreover have "alpha (Suc k) = (mulx ^^ k) (mulx 1)" by (simp add: alpha_def funpow_swap1)
    ultimately show False using alpha_not_one unfolding never_one_iff by simp
  qed
qed auto

lemma alpha_nonzero: "alpha i \<noteq> 0"
proof
  assume "alpha i = 0"
  then have "alpha k = 0" if "i \<le> k" for k
    using that linear_zero [OF linear_funpow [OF mulx_linear], of "k - i"]
    by (metis alpha_def comp_apply funpow_add le_add_diff_inverse2)
  from this [of "i * 255"] have "alpha (i * 255) = 0" by simp
  moreover have "alpha (n * 255) = 1" for n by (induction n) (simp add: alpha_def, simp add: alpha_period)
  ultimately show False by simp
qed

lemma alpha_surj: "b \<noteq> 0 \<Longrightarrow> \<exists>i < 255. b = alpha i"
proof -
  assume "b \<noteq> 0"
  have "inj_on alpha {..<255}" by (rule inj_onI) (auto intro: alpha_inj)
  then have "card (alpha ` {..<255}) = 255" by (simp add: card_image)
  moreover have "alpha ` {..<255} \<subseteq> UNIV - {0}" using alpha_nonzero by auto
  moreover have "card (UNIV - {0 :: byte}) = 255" by (simp add: card_Diff_singleton card_word)
  ultimately have "alpha ` {..<255} = UNIV - {0}" by (intro card_subset_eq) auto
  then have "b \<in> alpha ` {..<255}" using \<open>b \<noteq> 0\<close> by simp
  then show ?thesis by blast
qed

section \<open>What the tables hold\<close>

lemma and_0x100: "(y AND 0x100 \<noteq> (0 :: u32)) \<longleftrightarrow> bit y 8"
proof -
  have "(0x100 :: u32) = push_bit 8 1" by simp
  then show ?thesis by (simp only: and_push_bit_iff)
qed

lemma small_bits: "bit (0x11D :: u32) n \<longleftrightarrow> n = 8 \<or> bit (0x1D :: byte) n"
proof -
  have "take_bit 9 (0x11D :: u32) = 0x11D" "take_bit 5 (0x1D :: byte) = 0x1D" by simp_all
  then have *: "bit (0x11D :: u32) n \<Longrightarrow> n < 9" "bit (0x1D :: byte) n \<Longrightarrow> n < 9"
    using bit_small [of "0x11D :: u32" n 9] bit_small [of "0x1D :: byte" n 5] by auto
  show ?thesis
  proof (cases "n < 9")
    case True
    then have "n \<in> {0, 1, 2, 3, 4, 5, 6, 7, 8}" by auto
    then show ?thesis by auto
  qed (use * in auto)
qed

lemma alpha_next: "(if push_bit 1 (ucast b :: u32) AND 0x100 \<noteq> 0 then push_bit 1 (ucast b) XOR rsPrimitive else push_bit 1 (ucast b)) = (ucast (mulx b) :: u32)"
proof -
  define z where "z = push_bit 1 (ucast b :: u32)"
  have z: "bit z n \<longleftrightarrow> 0 < n \<and> bit b (n - 1)" for n
    unfolding z_def bit_push_bit_iff by (cases "n < 32") (auto simp: bit_ucast_iff dest: bit_imp_le_length)
  have m: "bit (mulx b) n \<longleftrightarrow> n < 8 \<and> ((0 < n \<and> bit b (n - 1)) \<noteq> (bit b 7 \<and> bit (0x1D :: byte) n))" for n
    unfolding mulx_def if_distrib [of "\<lambda>x. bit x n"] bit_xor_iff bit_push_bit_iff
    by (cases "bit b 7"; cases "n < 8") (auto dest: bit_imp_le_length)
  have "(if z AND 0x100 \<noteq> 0 then z XOR rsPrimitive else z) = (ucast (mulx b) :: u32)"
  proof (rule bit_word_eqI)
    fix n
    show "bit (if z AND 0x100 \<noteq> 0 then z XOR rsPrimitive else z) n = bit (ucast (mulx b) :: u32) n"
      unfolding and_0x100 rsPrimitive_def bit_ucast_iff m z if_distrib [of "\<lambda>x. bit x n"] bit_xor_iff small_bits
      by (cases "n < 8"; cases "n = 8") (auto dest: bit_imp_le_length)
  qed
  then show ?thesis by (simp only: z_def)
qed

text \<open>The first loop leaves the powers of the generator in one table and their logarithms in the other.\<close>

definition tables_upto :: "nat \<Rightarrow> u32 \<times> byte list \<times> byte list \<Rightarrow> bool" where
  "tables_upto n s \<longleftrightarrow> (case s of (x, ex, lg) \<Rightarrow>
     x = ucast (alpha n) \<and> length ex = 512 \<and> length lg = 256 \<and>
     (\<forall>i < n. ex ! i = alpha i \<and> lg ! unat (alpha i) = of_nat i))"

lemma byte_index [simp]: "unat (b :: byte) < 256"
  using unsigned_less [of b] by simp

lemma rs_init_step_upto:
  assumes "tables_upto n s" "n < 255"
  shows "tables_upto (Suc n) (rs_init_step n s)"
proof -
  obtain x ex lg where s: "s = (x, ex, lg)" by (cases s)
  have "unat (alpha i) \<noteq> unat (alpha n)" if "i < n" for i
    using alpha_inj [of i n] that assms(2) by (auto simp: word_unat_eq_iff)
  then have d: "\<forall>i < n. unat (alpha n) \<noteq> unat (alpha i)" by metis
  have t: "x = ucast (alpha n)" "length ex = 512" "length lg = 256"
      "\<forall>i < n. ex ! i = alpha i \<and> lg ! unat (alpha i) = of_nat i"
    using assms(1) unfolding tables_upto_def s by simp_all
  have u: "ucast (ucast (alpha n) :: u32) = alpha n" by (rule bit_word_eqI) (auto simp: bit_ucast_iff)
  have "rs_init_step n s = (ucast (alpha (Suc n)), ex[n := alpha n], lg[unat (alpha n) := of_nat n])"
    unfolding rs_init_step_def s t(1) Let_def prod.case alpha_next u by (simp add: alpha_def)
  then show ?thesis using t d assms(2) unfolding tables_upto_def by (simp add: less_Suc_eq nth_list_update)
qed

lemma rs_init_upto: "n \<le> 255 \<Longrightarrow> tables_upto n (fold rs_init_step [0..<n] (1, replicate 512 0, replicate 256 0))"
proof (induction n)
  case 0
  show ?case by (simp add: tables_upto_def alpha_def)
next
  case (Suc n)
  then show ?case using rs_init_step_upto by simp
qed

lemma second_loop:
  assumes "n \<le> 257" "length ex = 512" "\<forall>i < 255. ex ! i = alpha i"
  shows "length (fold rs_wrap_step [255..<255 + n] ex) = 512 \<and>
    (\<forall>i < 255 + n. fold rs_wrap_step [255..<255 + n] ex ! i = alpha i)"
  using assms(1)
proof (induction n)
  case 0
  then show ?case using assms by simp
next
  case (Suc n)
  have "[255..<255 + Suc n] = [255..<255 + n] @ [255 + n]" by (simp only: add_Suc_right upt_Suc_append le_add1)
  then show ?case using Suc alpha_period [of n]
    by (simp only: fold_append comp_apply fold.simps id_apply rs_wrap_step_def) (auto simp: nth_list_update less_Suc_eq)
qed

lemma rs_tables: "i < 512 \<Longrightarrow> rsExp ! i = alpha i" "i < 255 \<Longrightarrow> rsLog ! unat (alpha i) = of_nat i"
proof -
  obtain x ex lg where s: "fold rs_init_step [0..<255] (1, replicate 512 0, replicate 256 0) = (x, ex, lg)"
    using prod_cases3 by blast
  have t: "length ex = 512" "\<forall>i < 255. ex ! i = alpha i" "\<forall>i < 255. lg ! unat (alpha i) = of_nat i"
    using rs_init_upto [of 255] unfolding s tables_upto_def by auto
  have e: "rsExp = fold rs_wrap_step [255..<512] ex" "rsLog = lg"
    unfolding rsExp_def rsLog_def rs_init_def s by simp_all
  have "\<forall>i < 255 + 257. fold rs_wrap_step [255..<255 + 257] ex ! i = alpha i"
    using second_loop [of 257 ex] t by blast
  then have "\<forall>i < 512. rsExp ! i = alpha i" unfolding e by simp
  then show "i < 512 \<Longrightarrow> rsExp ! i = alpha i" by blast
  show "i < 255 \<Longrightarrow> rsLog ! unat (alpha i) = of_nat i" using t(3) unfolding e by blast
qed

section \<open>The multiplication\<close>

lemma gf_ref_zero: "gf_ref 0 b = 0" "gf_ref a 0 = 0"
  using linear_zero [OF gf_ref_linear(1)] linear_zero [OF gf_ref_linear(2)] by blast+

lemma gfMul_ref: "gfMul a b = gf_ref a b"
proof (cases "a = 0 \<or> b = 0")
  case True
  then show ?thesis by (auto simp: gfMul_def gf_ref_zero)
next
  case False
  then obtain i j where "i < 255" "a = alpha i" "j < 255" "b = alpha j" using alpha_surj by metis
  then show ?thesis using False
    by (simp add: gfMul_def rs_tables alpha_add unat_of_nat)
qed

lemma gfMul_zero [simp]: "gfMul 0 b = 0" "gfMul a 0 = 0"
  by (simp_all add: gfMul_def)

lemma gfMul_xor: "gfMul (a XOR b) c = gfMul a c XOR gfMul b c" "gfMul c (a XOR b) = gfMul c a XOR gfMul c b"
  using gf_ref_linear unfolding gfMul_ref linear_byte_def by blast+

lemma gfMul_alpha: "gfMul (alpha i) (alpha j) = alpha (i + j)"
  by (simp add: gfMul_ref alpha_add)

lemma gfMul_commute: "gfMul a b = gfMul b a"
  using alpha_surj [of a] alpha_surj [of b] by (cases "a = 0 \<or> b = 0") (auto simp: gfMul_alpha add.commute)

lemma gfMul_eq_0: "gfMul a b = 0 \<longleftrightarrow> a = 0 \<or> b = 0"
  using alpha_surj [of a] alpha_surj [of b] by (cases "a = 0 \<or> b = 0") (auto simp: gfMul_alpha alpha_nonzero)

lemma gfMul_assoc: "gfMul (gfMul a b) c = gfMul a (gfMul b c)"
  using alpha_surj [of a] alpha_surj [of b] alpha_surj [of c]
  by (cases "a = 0 \<or> b = 0 \<or> c = 0") (auto simp: gfMul_alpha add.assoc gfMul_eq_0)

lemma gfMul_one [simp]: "gfMul 1 b = b" "gfMul b 1 = b"
proof -
  show *: "gfMul 1 b = b" for b using gf_ref_unit [of 0 b] by (simp add: gfMul_ref)
  show "gfMul b 1 = b" using * [of b] by (simp add: gfMul_commute)
qed

text \<open>C38: Multiplying by the logarithm tables is multiplying the two octets as polynomials over GF(2) and
  reducing modulo the primitive polynomial, one shift at a time; with XOR for addition it is a field: the
  product is commutative and associative, distributes over XOR, and every octet but zero has an inverse.\<close>

theorem gfMul_field:
  "gfMul a b = gf_ref a b \<and> gfMul a b = gfMul b a \<and> gfMul (gfMul a b) c = gfMul a (gfMul b c) \<and>
   gfMul a (b XOR c) = gfMul a b XOR gfMul a c \<and> (a = 0 \<or> (\<exists>i. gfMul a i = 1))"
proof (intro conjI)
  show "a = 0 \<or> (\<exists>i. gfMul a i = 1)"
  proof (cases "a = 0")
    case False
    then obtain i where "i < 255" "a = alpha i" using alpha_surj by blast
    then have "gfMul a (alpha (255 - i)) = 1" by (simp add: gfMul_alpha alpha_255)
    then show ?thesis by blast
  qed simp
qed (rule gfMul_ref gfMul_commute gfMul_assoc gfMul_xor)+

end
