(* ===== verification/Bptc.thy ===== *)
theory Bptc
  imports Dmr_Bits
begin

text \<open>
  \<^verbatim>\<open>internal/dmrfec/bptc.go\<close>: the BPTC(196,96) block of a data burst.  The 13 by 15 block is modelled as
  its list of rows, which the code lays out one after the other behind a reserved bit; the nine rows
  of information carry their own parity, and four rows of column parity follow.
\<close>

section \<open>Definitions\<close>

definition BPTCPayloadBits :: nat where
  "BPTCPayloadBits = 96"

definition BPTCCodedBits :: nat where
  "BPTCCodedBits = 196"

definition bptcCols :: nat where
  "bptcCols = 15"

definition bptcInterleave :: nat where
  "bptcInterleave = 181"

definition dataBurstHalves :: "byte list \<Rightarrow> byte list option" where
  "dataBurstHalves burst =
     (if length burst \<noteq> BurstBytes then None
      else let b = BurstBitsFrom burst in Some (subslice 0 98 b @ subslice 166 264 b))"

definition hamming15Parity :: "byte list \<Rightarrow> byte list" where
  "hamming15Parity d =
     [d ! 0 XOR d ! 1 XOR d ! 2 XOR d ! 3 XOR d ! 5 XOR d ! 7 XOR d ! 8,
      d ! 1 XOR d ! 2 XOR d ! 3 XOR d ! 4 XOR d ! 6 XOR d ! 8 XOR d ! 9,
      d ! 2 XOR d ! 3 XOR d ! 4 XOR d ! 5 XOR d ! 7 XOR d ! 9 XOR d ! 10,
      d ! 0 XOR d ! 1 XOR d ! 2 XOR d ! 4 XOR d ! 6 XOR d ! 7 XOR d ! 10]"

definition hamming13Parity :: "byte list \<Rightarrow> byte list" where
  "hamming13Parity d =
     [d ! 0 XOR d ! 1 XOR d ! 3 XOR d ! 5 XOR d ! 6,
      d ! 0 XOR d ! 1 XOR d ! 2 XOR d ! 4 XOR d ! 6 XOR d ! 7,
      d ! 0 XOR d ! 1 XOR d ! 2 XOR d ! 3 XOR d ! 5 XOR d ! 7 XOR d ! 8,
      d ! 0 XOR d ! 2 XOR d ! 4 XOR d ! 5 XOR d ! 8]"

definition coded_position :: "nat \<Rightarrow> nat" where
  "coded_position i = (i * bptcInterleave) mod BPTCCodedBits"

definition block_row :: "byte list \<Rightarrow> nat \<Rightarrow> byte list" where
  "block_row block r = subslice (1 + r * bptcCols) (1 + r * bptcCols + bptcCols) block"

definition DecodeBPTC :: "byte list \<Rightarrow> (byte list \<times> nat) option" where
  "DecodeBPTC burst =
     (case dataBurstHalves burst of None \<Rightarrow> None
      | Some raw \<Rightarrow>
          let block = map (\<lambda>i. raw ! coded_position i) [0..<BPTCCodedBits];
              rowsValid = length (filter (\<lambda>r. hamming15Parity (take 11 (block_row block r)) = subslice 11 15 (block_row block r)) [0..<9]);
              info = concat (map (\<lambda>r. take 11 (block_row block r)) [0..<9])
          in Some (subslice 3 99 info, rowsValid))"

text \<open>The nine rows of information with their parity, and the column parity of a set of rows.\<close>

definition bptc_rows :: "byte list \<Rightarrow> byte list list" where
  "bptc_rows info = map (\<lambda>r. let d = subslice (r * 11) ((r + 1) * 11) info in d @ hamming15Parity d) [0..<9]"

definition bptc_column :: "byte list list \<Rightarrow> nat \<Rightarrow> byte list" where
  "bptc_column rows c = map (\<lambda>r. rows ! r ! c) [0..<9]"

definition bptc_parity_rows :: "byte list list \<Rightarrow> byte list list" where
  "bptc_parity_rows rows = map (\<lambda>r. map (\<lambda>c. hamming13Parity (bptc_column rows c) ! r) [0..<bptcCols]) [0..<4]"

definition bptc_matrix :: "byte list \<Rightarrow> byte list list" where
  "bptc_matrix payload = (let rows = bptc_rows (replicate 3 0 @ payload) in rows @ bptc_parity_rows rows)"

definition EncodeBPTC :: "byte list \<Rightarrow> byte list option" where
  "EncodeBPTC payload =
     (if length payload \<noteq> BPTCPayloadBits then None
      else
        let block = 0 # concat (bptc_matrix payload)
        in Some (fold (\<lambda>i out. out[coded_position i := block ! i]) [0..<BPTCCodedBits] (replicate BPTCCodedBits 0)))"

definition AssembleDataBurst :: "byte list \<Rightarrow> byte list \<Rightarrow> byte list option" where
  "AssembleDataBurst coded template =
     (if length coded \<noteq> BPTCCodedBits \<or> length template \<noteq> BurstBytes then None
      else
        let b = BurstBitsFrom template
        in Some (BurstBytesFrom (subslice 0 98 coded @ subslice 98 166 b @ subslice 98 196 coded)))"

section \<open>Laying rows out and finding them again\<close>

lemma concat_row:
  "\<forall>xs \<in> set xss. length xs = n \<Longrightarrow> r < length xss \<Longrightarrow> take n (drop (r * n) (concat xss)) = xss ! r"
proof (induction xss arbitrary: r)
  case (Cons xs xss)
  then show ?case by (cases r) (auto simp: algebra_simps)
qed simp

lemma concat_chunks: "length xs = k * n \<Longrightarrow> concat (map (\<lambda>r. take n (drop (r * n) xs)) [0..<k]) = xs"
proof (induction k arbitrary: xs)
  case (Suc k)
  have "concat (map (\<lambda>r. take n (drop (r * n) xs)) [0..<k]) = concat (map (\<lambda>r. take n (drop (r * n) (take (k * n) xs))) [0..<k])"
  proof (intro arg_cong [of _ _ concat] map_cong refl)
    fix r assume "r \<in> set [0..<k]"
    then have "r * n + n \<le> k * n" by (metis Suc_leI add.commute atLeastLessThan_iff mult_Suc mult_le_mono1 set_upt)
    then show "take n (drop (r * n) xs) = take n (drop (r * n) (take (k * n) xs))"
      by (simp add: drop_take take_take min_def)
  qed
  also have "\<dots> = take (k * n) xs" using Suc by simp
  finally show ?case using Suc.prems by (simp add: add.commute)
qed simp

lemma coded_position_less: "coded_position i < 196"
  by (simp add: coded_position_def BPTCCodedBits_def)

lemma coded_position_inj: "i < 196 \<Longrightarrow> j < 196 \<Longrightarrow> coded_position i = coded_position j \<Longrightarrow> i = j"
proof -
  have inv: "(coded_position k * 13) mod 196 = k" if "k < 196" for k
  proof -
    have "(coded_position k * 13) mod 196 = (k * 2353) mod 196"
      unfolding coded_position_def bptcInterleave_def BPTCCodedBits_def by (simp add: mod_mult_left_eq mult.assoc)
    also have "k * 2353 = k + k * 12 * 196" by simp
    finally show ?thesis using that by (simp only: mod_mult_self1) simp
  qed
  assume "i < 196" "j < 196" "coded_position i = coded_position j"
  then show ?thesis using inv by metis
qed

lemma spread_positions:
  fixes block :: "byte list"
  defines "out \<equiv> fold (\<lambda>i out. out[coded_position i := block ! i]) [0..<196] (replicate 196 0)"
  shows "length out = 196" "i < 196 \<Longrightarrow> out ! coded_position i = block ! i"
proof -
  have "inj_on coded_position (set [0..<196])" by (auto intro!: inj_onI coded_position_inj)
  from fold_list_update [OF _ this, of "replicate 196 0" "\<lambda>i. block ! i"]
  show "length out = 196" "i < 196 \<Longrightarrow> out ! coded_position i = block ! i"
    by (auto simp: out_def coded_position_less)
qed

lemma length_hamming15Parity [simp]: "length (hamming15Parity d) = 4"
  by (simp add: hamming15Parity_def)

lemma bptc_matrix_shape:
  assumes "length payload = 96"
  shows "length (bptc_matrix payload) = 13" "\<forall>row \<in> set (bptc_matrix payload). length row = 15"
  using assms by (auto simp: bptc_matrix_def bptc_rows_def bptc_parity_rows_def bptcCols_def Let_def)

lemma length_bptc_block: "length payload = 96 \<Longrightarrow> length (0 # concat (bptc_matrix payload)) = 196"
proof -
  assume p: "length payload = 96"
  have "length (concat xss) = length xss * n" if "\<forall>xs \<in> set xss. length xs = n" for xss :: "byte list list" and n
    using that by (induction xss) auto
  from this [OF bptc_matrix_shape(2) [OF p]] show ?thesis using bptc_matrix_shape(1) [OF p] by simp
qed

lemma EncodeBPTC_block:
  assumes "length payload = 96"
  obtains coded where "EncodeBPTC payload = Some coded" "length coded = 196"
    "map (\<lambda>i. coded ! coded_position i) [0..<196] = 0 # concat (bptc_matrix payload)"
proof -
  let ?block = "0 # concat (bptc_matrix payload)"
  define coded where "coded = fold (\<lambda>i out. out[coded_position i := ?block ! i]) [0..<196] (replicate 196 0)"
  have e: "EncodeBPTC payload = Some coded"
    using assms by (simp add: EncodeBPTC_def BPTCPayloadBits_def BPTCCodedBits_def coded_def Let_def)
  have m: "map (\<lambda>i. coded ! coded_position i) [0..<196] = ?block"
  proof (rule nth_equalityI)
    fix i assume "i < length (map (\<lambda>i. coded ! coded_position i) [0..<196])"
    then have i: "i < 196" by simp
    then have "coded ! coded_position i = ?block ! i" unfolding coded_def by (rule spread_positions(2))
    then show "map (\<lambda>i. coded ! coded_position i) [0..<196] ! i = ?block ! i" using i by (simp del: nth_Cons_numeral)
  qed (simp only: length_bptc_block [OF assms] length_map length_upt diff_zero)
  have "length coded = 196" unfolding coded_def by (rule spread_positions(1))
  from that [OF e this m] show ?thesis .
qed

lemma DecodeBPTC_EncodeBPTC:
  assumes "length payload = 96" "EncodeBPTC payload = Some coded" "dataBurstHalves burst = Some coded"
  shows "DecodeBPTC burst = Some (payload, 9)"
proof -
  let ?M = "bptc_matrix payload" and ?info = "replicate 3 0 @ payload"
  let ?block = "0 # concat ?M"
  obtain c where c: "EncodeBPTC payload = Some c" "map (\<lambda>i. c ! coded_position i) [0..<196] = ?block"
    by (rule EncodeBPTC_block [OF assms(1)])
  then have block: "map (\<lambda>i. coded ! coded_position i) [0..<BPTCCodedBits] = ?block"
    using assms(2) by (simp add: BPTCCodedBits_def)
  have row: "block_row ?block r = ?M ! r" if "r < 9" for r
    using that concat_row [OF bptc_matrix_shape(2) [OF assms(1)], of r] bptc_matrix_shape(1) [OF assms(1)]
    by (simp add: block_row_def subslice_def bptcCols_def)
  have M: "?M ! r = (let d = subslice (r * 11) ((r + 1) * 11) ?info in d @ hamming15Parity d)" if "r < 9" for r
    using that by (simp add: bptc_matrix_def Let_def nth_append bptc_rows_def)
  have d: "take 11 (?M ! r) = take 11 (drop (r * 11) ?info)" "length (take 11 (drop (r * 11) ?info)) = 11" if "r < 9" for r
    using that assms(1) by (simp_all add: M Let_def subslice_def)
  have valid: "hamming15Parity (take 11 (?M ! r)) = subslice 11 15 (?M ! r)" if "r < 9" for r
    using d [OF that] that assms(1) by (simp add: M Let_def subslice_def)
  have "concat (map (\<lambda>r. take 11 (block_row ?block r)) [0..<9]) = concat (map (\<lambda>r. take 11 (drop (r * 11) ?info)) [0..<9])"
    by (intro arg_cong [of _ _ concat] map_cong refl) (simp add: row d)
  also have "\<dots> = ?info" by (rule concat_chunks) (simp add: assms(1))
  finally have info: "concat (map (\<lambda>r. take 11 (block_row ?block r)) [0..<9]) = ?info" .
  have "filter (\<lambda>r. hamming15Parity (take 11 (block_row ?block r)) = subslice 11 15 (block_row ?block r)) [0..<9] = [0..<9]"
    by (simp add: filter_id_conv row valid)
  then show ?thesis
    using assms(1,3) info unfolding DecodeBPTC_def block by (simp add: block Let_def subslice_def)
qed

section \<open>The block is a product code\<close>

definition xor_bytes :: "byte list \<Rightarrow> byte list \<Rightarrow> byte list" where
  "xor_bytes = map2 (\<lambda>a b. a XOR b)"

definition row_ok :: "byte list \<Rightarrow> bool" where
  "row_ok row \<longleftrightarrow> length row = 15 \<and> hamming15Parity (take 11 row) = drop 11 row"

lemma row_ok_iff: "row_ok row \<longleftrightarrow> length row = 15 \<and> [row ! 11, row ! 12, row ! 13, row ! 14] = hamming15Parity row"
proof -
  have "drop 11 row = [row ! 11, row ! 12, row ! 13, row ! 14]" if "length row = 15"
    using that by (intro nth_equalityI) (auto simp: less_Suc_eq numeral_eq_Suc)
  moreover have "hamming15Parity (take 11 row) = hamming15Parity row" by (simp add: hamming15Parity_def)
  ultimately show ?thesis by (auto simp: row_ok_def)
qed

lemma row_ok_xor: "row_ok a \<Longrightarrow> row_ok b \<Longrightarrow> row_ok (xor_bytes a b)"
  by (auto simp: row_ok_iff xor_bytes_def hamming15Parity_def ac_simps)

lemma row_ok_data: "length d = 11 \<Longrightarrow> row_ok (d @ hamming15Parity d)"
  by (simp add: row_ok_def)

lemma length_xor_bytes [simp]: "length (xor_bytes a b) = min (length a) (length b)"
  by (simp add: xor_bytes_def)

lemma nth_xor_bytes [simp]: "i < length a \<Longrightarrow> i < length b \<Longrightarrow> xor_bytes a b ! i = a ! i XOR b ! i"
  by (simp add: xor_bytes_def)

lemma bptc_rows_ok: "length info = 99 \<Longrightarrow> length (bptc_rows info) = 9 \<and> (\<forall>r < 9. row_ok (bptc_rows info ! r))"
  by (auto simp: bptc_rows_def Let_def subslice_def intro!: row_ok_data)

text \<open>Each row of column parity is a sum of information rows, so it is a codeword because they are.\<close>

lemma parity_rows_sum:
  assumes "\<forall>r < 9. length (rows ! r) = 15"
  shows "bptc_parity_rows rows =
    [xor_bytes (rows ! 0) (xor_bytes (rows ! 1) (xor_bytes (rows ! 3) (xor_bytes (rows ! 5) (rows ! 6)))),
     xor_bytes (rows ! 0) (xor_bytes (rows ! 1) (xor_bytes (rows ! 2) (xor_bytes (rows ! 4) (xor_bytes (rows ! 6) (rows ! 7))))),
     xor_bytes (rows ! 0) (xor_bytes (rows ! 1) (xor_bytes (rows ! 2) (xor_bytes (rows ! 3) (xor_bytes (rows ! 5) (xor_bytes (rows ! 7) (rows ! 8)))))),
     xor_bytes (rows ! 0) (xor_bytes (rows ! 2) (xor_bytes (rows ! 4) (xor_bytes (rows ! 5) (rows ! 8))))]"
proof -
  have l: "length (rows ! 0) = 15" "length (rows ! 1) = 15" "length (rows ! 2) = 15" "length (rows ! 3) = 15" "length (rows ! 4) = 15"
    "length (rows ! 5) = 15" "length (rows ! 6) = 15" "length (rows ! 7) = 15" "length (rows ! 8) = 15"
    using assms by simp_all
  have u: "[0..<4] = [0, 1, 2, 3 :: nat]" by (simp add: upt_rec)
  have c: "bptc_column rows c = [rows ! 0 ! c, rows ! 1 ! c, rows ! 2 ! c, rows ! 3 ! c, rows ! 4 ! c, rows ! 5 ! c,
      rows ! 6 ! c, rows ! 7 ! c, rows ! 8 ! c]" for c
  proof -
    have "[0..<9] = [0, 1, 2, 3, 4, 5, 6, 7, 8 :: nat]" by (simp add: upt_rec)
    then show ?thesis by (simp only: bptc_column_def list.map)
  qed
  show ?thesis
    unfolding bptc_parity_rows_def u list.map list.inject c hamming13Parity_def bptcCols_def
    by (intro conjI nth_equalityI refl) (simp_all add: l del: One_nat_def)
qed

lemma parity_rows_ok:
  assumes "length rows = 9" "\<forall>r < 9. row_ok (rows ! r)"
  shows "\<forall>row \<in> set (bptc_parity_rows rows). row_ok row"
  using assms by (subst parity_rows_sum) (auto simp: row_ok_iff [THEN iffD1] intro!: row_ok_xor)

lemma bptc_columns:
  assumes "length rows = 9" "c < 15"
  shows "map (\<lambda>r. (rows @ bptc_parity_rows rows) ! r ! c) [9..<13] = hamming13Parity (map (\<lambda>r. (rows @ bptc_parity_rows rows) ! r ! c) [0..<9])"
proof -
  let ?m = "\<lambda>r. (rows @ bptc_parity_rows rows) ! r ! c"
  have col: "map ?m [0..<9] = bptc_column rows c"
    using assms by (auto simp: bptc_column_def nth_append)
  have split: "map f [9..<13] = map (\<lambda>k. f (9 + k)) [0..<4]" for f :: "nat \<Rightarrow> byte"
    by (simp add: upt_rec)
  have "map ?m [9..<13] = map (\<lambda>k. ?m (9 + k)) [0..<4]" by (rule split)
  also have "\<dots> = map (\<lambda>k. hamming13Parity (bptc_column rows c) ! k) [0..<4]"
    using assms by (intro map_cong refl) (simp add: nth_append bptc_parity_rows_def bptcCols_def)
  also have "\<dots> = hamming13Parity (bptc_column rows c)"
    by (rule nth_equalityI) (simp_all add: hamming13Parity_def)
  finally show ?thesis unfolding col .
qed

text \<open>
  The block is a product code.  Every one of the thirteen rows of an encoded block satisfies the
  row code, the four rows of column parity included, and every one of its fifteen columns satisfies
  the column code.
\<close>

lemma bptc_product_code:
  assumes "length payload = 96"
  shows "length (bptc_matrix payload) = 13 \<and> (\<forall>row \<in> set (bptc_matrix payload). row_ok row) \<and>
    (\<forall>c < 15. map (\<lambda>r. bptc_matrix payload ! r ! c) [9..<13] = hamming13Parity (map (\<lambda>r. bptc_matrix payload ! r ! c) [0..<9]))"
proof -
  let ?rows = "bptc_rows (replicate 3 0 @ payload)"
  have ok: "length ?rows = 9" "\<forall>r < 9. row_ok (?rows ! r)" using bptc_rows_ok [of "replicate 3 0 @ payload"] assms by simp_all
  then have "\<forall>row \<in> set ?rows. row_ok row" by (auto simp: in_set_conv_nth)
  moreover note parity_rows_ok [OF ok]
  moreover have "length (bptc_parity_rows ?rows) = 4" by (simp add: bptc_parity_rows_def)
  ultimately show ?thesis
    using ok(1) bptc_columns [OF ok(1)] unfolding bptc_matrix_def Let_def by auto
qed

lemma bptc_product_code_witness:
  "row_ok (bptc_matrix (replicate 96 1) ! 12) \<and>
   map (\<lambda>r. bptc_matrix (replicate 96 1) ! r ! 14) [9..<13] =
     hamming13Parity (map (\<lambda>r. bptc_matrix (replicate 96 1) ! r ! 14) [0..<9])"
  using bptc_product_code [of "replicate 96 1"] by simp

section \<open>In a burst\<close>

lemma dataBurstHalves_of:
  assumes "length coded = 196" "is_bits coded" "length mid = 68" "is_bits mid"
  shows "dataBurstHalves (BurstBytesFrom (subslice 0 98 coded @ mid @ subslice 98 196 coded)) = Some coded"
proof -
  let ?b = "subslice 0 98 coded @ mid @ subslice 98 196 coded"
  have "BurstBitsFrom (BurstBytesFrom ?b) = ?b"
    using assms by (intro BurstBitsFrom_BurstBytesFrom) simp_all
  moreover have "subslice 0 98 ?b @ subslice 166 264 ?b = coded" using assms by (simp add: subslice_def)
  ultimately show ?thesis using assms by (simp add: dataBurstHalves_def BurstBytes_def Let_def)
qed

definition is_bit :: "byte \<Rightarrow> bool" where
  "is_bit x \<longleftrightarrow> x = 0 \<or> x = 1"

lemma is_bits_is_bit: "is_bits xs \<longleftrightarrow> (\<forall>i < length xs. is_bit (xs ! i))"
  unfolding is_bits_def is_bit_def by (metis in_set_conv_nth)

lemma is_bit_xor [intro]: "is_bit a \<Longrightarrow> is_bit b \<Longrightarrow> is_bit (a XOR b)"
  by (auto simp: is_bit_def)

lemma is_bits_list: "is_bits xs \<longleftrightarrow> list_all is_bit xs"
  by (auto simp: is_bits_def is_bit_def list_all_iff)

lemma is_bits_hamming:
  assumes "is_bits d"
  shows "11 \<le> length d \<Longrightarrow> is_bits (hamming15Parity d)" "9 \<le> length d \<Longrightarrow> is_bits (hamming13Parity d)"
proof -
  have d: "is_bit (d ! i)" if "i < length d" for i using assms that by (simp add: is_bits_is_bit)
  show "11 \<le> length d \<Longrightarrow> is_bits (hamming15Parity d)" "9 \<le> length d \<Longrightarrow> is_bits (hamming13Parity d)"
    unfolding is_bits_list hamming15Parity_def hamming13Parity_def list.pred_inject
    by ((intro conjI is_bit_xor d; simp); fastforce)+
qed

lemma is_bits_concat: "\<forall>xs \<in> set xss. is_bits xs \<Longrightarrow> is_bits (concat xss)"
  by (auto simp: is_bits_def)

lemma is_bits_matrix:
  assumes "length payload = 96" "is_bits payload"
  shows "\<forall>row \<in> set (bptc_matrix payload). is_bits row"
proof -
  let ?info = "replicate 3 0 @ payload" and ?rows = "bptc_rows (replicate 3 0 @ payload)"
  have info: "length ?info = 99" "is_bits ?info" using assms by (simp_all add: is_bits_def)
  have rows: "\<forall>row \<in> set ?rows. is_bits row \<and> length row = 15"
    using info by (auto simp: bptc_rows_def Let_def is_bits_hamming)
  then have "is_bits (bptc_column ?rows c)" if "c < 15" for c
    using that by (auto simp: is_bits_is_bit bptc_column_def bptc_rows_def)
  then have "is_bits (map (\<lambda>c. hamming13Parity (bptc_column ?rows c) ! r) [0..<15])" if "r < 4" for r
    using is_bits_hamming(2) [of "bptc_column ?rows c" for c] that
    by (fastforce simp: is_bits_is_bit bptc_column_def hamming13Parity_def)
  then show ?thesis using rows by (auto simp: bptc_matrix_def Let_def bptc_parity_rows_def bptcCols_def)
qed

lemma EncodeBPTC_bits:
  assumes "length payload = 96" "is_bits payload"
  obtains coded where "EncodeBPTC payload = Some coded" "length coded = 196" "is_bits coded"
proof -
  let ?block = "0 # concat (bptc_matrix payload)"
  obtain coded where c: "EncodeBPTC payload = Some coded" "length coded = 196"
    "map (\<lambda>i. coded ! coded_position i) [0..<196] = ?block" by (rule EncodeBPTC_block [OF assms(1)])
  have "is_bits ?block" using is_bits_concat [OF is_bits_matrix [OF assms]] by simp
  then have bits: "is_bit (coded ! coded_position i)" if "i < 196" for i
    using that unfolding c(3) [symmetric] is_bits_is_bit by auto
  have "\<exists>i < 196. coded_position i = j" if "j < 196" for j
  proof -
    have "coded_position ` {..<196} = {..<196}"
      by (intro endo_inj_surj) (auto intro!: inj_onI coded_position_inj simp: coded_position_less)
    then have "j \<in> coded_position ` {..<196}" using that by simp
    then show ?thesis by blast
  qed
  then have "is_bits coded" using bits c(2) unfolding is_bits_is_bit by metis
  with c show ?thesis using that by blast
qed

end
