(* ===== verification/Link_Control.thy ===== *)
theory Link_Control
  imports Gf256 Bptc
begin

text \<open>
  The Link Control of \<^verbatim>\<open>internal/dmrfec/linkcontrol.go\<close>: nine octets and three octets of Reed-Solomon
  parity, masked for the kind of burst that carries them, as octets (\<open>LinkControlBlock\<close>) and as the
  bits of a BPTC block (\<open>LinkControlPayload\<close>).  \<open>None\<close> is the code's error.

  Every block has the roots of the generator polynomial (\<open>rs_syndromes\<close>); three of them make a
  Vandermonde system, so no two blocks differ in fewer than four octets.
\<close>

section \<open>Definitions\<close>

definition LinkControlBytes :: nat where
  "LinkControlBytes = 9"

definition LinkControlBlockBytes :: nat where
  "LinkControlBlockBytes = LinkControlBytes + 3"

definition rsParityColumns :: "byte list list" where
  "rsParityColumns =
    [[0x1C, 0xBC, 0xFD],
     [0x89, 0x31, 0x08],
     [0xAD, 0x41, 0x36],
     [0x7D, 0x71, 0x16],
     [0xF3, 0xA6, 0x3A],
     [0x08, 0x83, 0x7B],
     [0x3F, 0x6F, 0x02],
     [0x6C, 0x0D, 0xA7],
     [0x0E, 0x38, 0x40]]"

definition DataTypeVoiceLCHeader :: byte where
  "DataTypeVoiceLCHeader = 0x1"

definition DataTypeTerminatorWithLC :: byte where
  "DataTypeTerminatorWithLC = 0x2"

definition rsMaskFor :: "byte \<Rightarrow> byte list option" where
  "rsMaskFor dataType =
     (if dataType = DataTypeVoiceLCHeader then Some [0x96, 0x96, 0x96]
      else if dataType = DataTypeTerminatorWithLC then Some [0x99, 0x99, 0x99]
      else None)"

definition rs_accumulate :: "byte list \<Rightarrow> nat \<Rightarrow> byte list \<Rightarrow> byte list" where
  "rs_accumulate lc i p = map (\<lambda>j. p ! j XOR gfMul (lc ! i) (rsParityColumns ! i ! j)) [0..<3]"

definition RSParity :: "byte list \<Rightarrow> byte list option" where
  "RSParity lc =
     (if length lc \<noteq> LinkControlBytes then None
      else Some (fold (rs_accumulate lc) [0..<LinkControlBytes] (replicate 3 0)))"

definition LinkControlBlock :: "byte list \<Rightarrow> byte \<Rightarrow> byte list option" where
  "LinkControlBlock lc dataType =
     (case RSParity lc of None \<Rightarrow> None
      | Some parity \<Rightarrow>
          (case rsMaskFor dataType of None \<Rightarrow> None
           | Some m \<Rightarrow> Some (lc @ map (\<lambda>j. parity ! j XOR m ! j) [0..<3])))"

definition LinkControlPayload :: "byte list \<Rightarrow> byte \<Rightarrow> byte list option" where
  "LinkControlPayload lc dataType =
     (case LinkControlBlock lc dataType of None \<Rightarrow> None
      | Some full \<Rightarrow>
          Some (map (\<lambda>n. if full ! (n div 8) AND drop_bit (n mod 8) 0x80 \<noteq> 0 then 1 else 0) [0..<BPTCPayloadBits]))"

definition CheckLinkControl :: "byte list \<Rightarrow> byte \<Rightarrow> byte list option" where
  "CheckLinkControl payload dataType =
     (if length payload \<noteq> BPTCPayloadBits then None
      else
        let full = pack_octets (\<lambda>b. b \<noteq> 0) (LinkControlBytes + 3) payload;
            lc = take LinkControlBytes full
        in (case LinkControlPayload lc dataType of None \<Rightarrow> None
            | Some want \<Rightarrow> if want = payload then Some lc else None))"

section \<open>The block as octets and as bits\<close>

lemma and_0x80: "(b AND drop_bit m 0x80 \<noteq> 0) \<longleftrightarrow> bit b (7 - m)" if "m < 8" for b :: byte
proof -
  have "m \<in> {0, 1, 2, 3, 4, 5, 6, 7}" using that by auto
  then have "drop_bit m (0x80 :: byte) = push_bit (7 - m) 1" by auto
  then show ?thesis by (simp only: and_push_bit_iff)
qed

lemma length_LinkControlBlock: "LinkControlBlock lc dt = Some full \<Longrightarrow> length lc = 9 \<and> length full = 12 \<and> take 9 full = lc"
  by (auto simp: LinkControlBlock_def RSParity_def LinkControlBytes_def split: option.splits if_splits)

lemma LinkControlPayload_eq: "LinkControlPayload lc dt = map_option BurstBitsFrom (LinkControlBlock lc dt)"
proof (cases "LinkControlBlock lc dt")
  case (Some full)
  then have l: "length full = 12" by (simp add: length_LinkControlBlock)
  have "map (\<lambda>n. if full ! (n div 8) AND drop_bit (n mod 8) 0x80 \<noteq> 0 then 1 else 0 :: byte) [0..<96] = BurstBitsFrom full"
    unfolding BurstBitsFrom_eq using l by (auto simp: get_bit_def and_0x80 simp flip: of_bool_def intro!: arg_cong [of _ _ of_bool])
  then show ?thesis using Some by (simp add: LinkControlPayload_def BPTCPayloadBits_def)
qed (simp add: LinkControlPayload_def)

lemma pack_BurstBitsFrom: "length full = n \<Longrightarrow> pack_octets (\<lambda>b. b \<noteq> 0) n (BurstBitsFrom full) = full"
  by (rule octets_eqI) (auto simp: nth_bit)

lemma BurstBitsFrom_pack:
  assumes "length bs = 8 * n" "is_bits bs"
  shows "BurstBitsFrom (pack_octets (\<lambda>b. b \<noteq> 0) n bs) = bs"
proof (rule bits_eqI)
  show "is_bits (BurstBitsFrom (pack_octets (\<lambda>b. b \<noteq> 0) n bs))" by (rule is_bits_BurstBitsFrom)
qed (use assms in \<open>auto simp: nth_bit is_bits_def dest: nth_mem\<close>)

lemma BurstBitsFrom_inj: "length a = length b \<Longrightarrow> BurstBitsFrom a = BurstBitsFrom b \<longleftrightarrow> a = b"
  by (metis pack_BurstBitsFrom)

text \<open>A block checks exactly when it is the block of its own first nine octets.\<close>

lemma CheckLinkControl_block:
  assumes "length full = 12"
  shows "CheckLinkControl (BurstBitsFrom full) dt =
    (if LinkControlBlock (take 9 full) dt = Some full then Some (take 9 full) else None)"
proof (cases "LinkControlBlock (take 9 full) dt")
  case (Some want)
  then have "length want = 12" by (simp add: length_LinkControlBlock)
  then show ?thesis using assms Some BurstBitsFrom_inj [of want full]
    by (simp add: CheckLinkControl_def BPTCPayloadBits_def LinkControlBytes_def LinkControlPayload_eq pack_BurstBitsFrom Let_def)
qed (use assms in \<open>simp add: CheckLinkControl_def BPTCPayloadBits_def LinkControlBytes_def LinkControlPayload_eq pack_BurstBitsFrom Let_def\<close>)

section \<open>The roots of the code\<close>

definition xsum :: "byte list \<Rightarrow> byte" where
  "xsum xs = foldr (XOR) xs 0"

definition rs_syn :: "nat \<Rightarrow> byte list \<Rightarrow> byte" where
  "rs_syn k c = xsum (map (\<lambda>i. gfMul (c ! i) (alpha (k * (11 - i)))) [0..<12])"

lemma xsum_simps [simp]: "xsum [] = 0" "xsum (x # xs) = x XOR xsum xs"
  by (simp_all add: xsum_def)

lemma xsum_xor: "xsum (map (\<lambda>i. f i XOR g i) xs) = xsum (map f xs) XOR xsum (map g xs)"
  by (induction xs) (simp_all add: ac_simps)

lemma xsum_gfMul: "gfMul (xsum (map f xs)) a = xsum (map (\<lambda>i. gfMul (f i) a) xs)"
  by (induction xs) (simp_all add: gfMul_xor)

lemma xsum_append: "xsum (xs @ ys) = xsum xs XOR xsum ys"
  by (induction xs) (simp_all add: ac_simps)

lemma xsum_zero: "\<forall>i \<in> set xs. f i = 0 \<Longrightarrow> xsum (map f xs) = 0"
  by (induction xs) simp_all

lemma xsum_remove: "a \<in> set xs \<Longrightarrow> xsum (map f xs) = f a XOR xsum (map f (remove1 a xs))"
  by (induction xs) (auto simp: ac_simps)

lemma RSParity_xsum:
  assumes "RSParity lc = Some p"
  shows "length lc = 9" "length p = 3" "j < 3 \<Longrightarrow> p ! j = xsum (map (\<lambda>i. gfMul (lc ! i) (rsParityColumns ! i ! j)) [0..<9])"
proof -
  have "length (fold (rs_accumulate lc) is p0) = 3 \<and>
      (\<forall>j < 3. fold (rs_accumulate lc) is p0 ! j = p0 ! j XOR xsum (map (\<lambda>i. gfMul (lc ! i) (rsParityColumns ! i ! j)) is))"
    if "length p0 = 3" for "is" p0
    using that
  proof (induction "is" arbitrary: p0)
    case (Cons i "is")
    then show ?case using Cons.IH [of "rs_accumulate lc i p0"] by (simp add: rs_accumulate_def ac_simps)
  qed simp
  from this [of "replicate 3 0" "[0..<9]"] assms
  show "length lc = 9" "length p = 3" "j < 3 \<Longrightarrow> p ! j = xsum (map (\<lambda>i. gfMul (lc ! i) (rsParityColumns ! i ! j)) [0..<9])"
    by (auto simp: RSParity_def LinkControlBytes_def split: if_splits)
qed

text \<open>Row by row, the parity columns are what makes the polynomial vanish at the first three powers of the generator.\<close>

lemma rs_columns:
  assumes "i < 9" "k \<in> {1, 2, 3}"
  shows "xsum (map (\<lambda>j. gfMul (rsParityColumns ! i ! j) (alpha (k * (2 - j)))) [0..<3]) = alpha (k * (11 - i))"
proof -
  have "i \<in> {0, 1, 2, 3, 4, 5, 6, 7, 8}" using assms(1) by auto
  moreover have "[0..<3] = [0, 1, 2 :: nat]" "[0..<8] = [0, 1, 2, 3, 4, 5, 6, 7 :: nat]" by (simp_all add: upt_rec)
  ultimately show ?thesis using assms(2)
    by (elim insertE emptyE) (simp_all add: rsParityColumns_def gfMul_ref gf_ref_def alpha_def funpow_numeral mulx_eval)
qed

lemma rs_syn_xor: "length a = 12 \<Longrightarrow> length b = 12 \<Longrightarrow> rs_syn k (xor_bytes a b) = rs_syn k a XOR rs_syn k b"
  unfolding rs_syn_def xsum_xor [symmetric] by (intro arg_cong [of _ _ xsum] map_cong) (auto simp: gfMul_xor)

lemma rs_syndromes:
  assumes "RSParity lc = Some p" "k \<in> {1, 2, 3}"
  shows "rs_syn k (lc @ p) = 0"
proof -
  note P = RSParity_xsum [OF assms(1)]
  let ?C = "\<lambda>i j. rsParityColumns ! i ! j" and ?a = "\<lambda>j. alpha (k * (2 - j))"
  have "[0..<12] = [0..<9] @ map (\<lambda>j. j + 9) [0..<3]"
    using upt_add_eq_append [of 0 9 3] map_add_upt [of 9 3] by simp
  then have "map (\<lambda>i. gfMul ((lc @ p) ! i) (alpha (k * (11 - i)))) [0..<12] =
      map (\<lambda>i. gfMul (lc ! i) (alpha (k * (11 - i)))) [0..<9] @ map (\<lambda>j. gfMul (p ! j) (?a j)) [0..<3]"
    using P(1,2) by (auto simp: nth_append)
  then have "rs_syn k (lc @ p) = xsum (map (\<lambda>i. gfMul (lc ! i) (alpha (k * (11 - i)))) [0..<9]) XOR
      xsum (map (\<lambda>j. gfMul (p ! j) (?a j)) [0..<3])"
    by (simp add: rs_syn_def xsum_append)
  moreover have p: "gfMul (p ! j) (?a j) = xsum (map (\<lambda>i. gfMul (lc ! i) (gfMul (?C i j) (?a j))) [0..<9])" if "j < 3" for j
    using P(3) [OF that] by (simp only: xsum_gfMul gfMul_assoc)
  have upt3: "[0..<3] = [0, 1, 2 :: nat]" by (simp add: upt_rec)
  have "xsum (map (\<lambda>j. gfMul (p ! j) (?a j)) [0..<3]) =
      xsum (map (\<lambda>i. gfMul (lc ! i) (xsum (map (\<lambda>j. gfMul (?C i j) (?a j)) [0..<3]))) [0..<9])"
    using p [of 0] p [of 1] p [of 2] by (simp add: upt3 gfMul_xor xsum_xor)
  moreover have "\<dots> = xsum (map (\<lambda>i. gfMul (lc ! i) (alpha (k * (11 - i)))) [0..<9])"
    by (intro arg_cong [of _ _ xsum] map_cong refl) (simp add: rs_columns [OF _ assms(2)])
  ultimately show ?thesis by simp
qed

section \<open>Three wrong octets are seen\<close>

lemma gfMul_left_commute: "gfMul a (gfMul b c) = gfMul b (gfMul a c)"
  by (metis gfMul_assoc gfMul_commute)

lemmas gf_ring = gfMul_xor gfMul_assoc gfMul_commute gfMul_left_commute xor.assoc xor.commute xor.left_commute

text \<open>Three equations in three unknowns at different non-zero points have only the zero solution.\<close>

lemma vandermonde:
  assumes "gfMul a X XOR gfMul b Y XOR gfMul c Z = 0"
    "gfMul a (gfMul X X) XOR gfMul b (gfMul Y Y) XOR gfMul c (gfMul Z Z) = 0"
    "gfMul a (gfMul X (gfMul X X)) XOR gfMul b (gfMul Y (gfMul Y Y)) XOR gfMul c (gfMul Z (gfMul Z Z)) = 0"
    "X \<noteq> 0" "X \<noteq> Y" "X \<noteq> Z"
  shows "a = 0"
proof -
  have "gfMul a (gfMul X (gfMul (X XOR Y) (X XOR Z))) =
      (gfMul a (gfMul X (gfMul X X)) XOR gfMul b (gfMul Y (gfMul Y Y)) XOR gfMul c (gfMul Z (gfMul Z Z))) XOR
      gfMul (Y XOR Z) (gfMul a (gfMul X X) XOR gfMul b (gfMul Y Y) XOR gfMul c (gfMul Z Z)) XOR
      gfMul (gfMul Y Z) (gfMul a X XOR gfMul b Y XOR gfMul c Z)"
    by (simp add: gf_ring)
  also have "\<dots> = 0" unfolding assms(1-3) by simp
  finally show ?thesis using assms(4-) by (simp add: gfMul_eq_0)
qed

lemma alpha_powers: "alpha (1 * p) = alpha p" "alpha (2 * p) = gfMul (alpha p) (alpha p)"
  "alpha (3 * p) = gfMul (alpha p) (gfMul (alpha p) (alpha p))"
proof -
  have *: "2 * p = p + p" "3 * p = p + (p + p)" by simp_all
  show "alpha (1 * p) = alpha p" "alpha (2 * p) = gfMul (alpha p) (alpha p)"
    "alpha (3 * p) = gfMul (alpha p) (gfMul (alpha p) (alpha p))"
    by (simp, simp only: * gfMul_alpha, simp only: * gfMul_alpha)
qed

lemma rs_syn_three:
  assumes "distinct [a, b, c]" "a < 12" "b < 12" "c < 12" "\<forall>i < 12. i \<notin> {a, b, c} \<longrightarrow> e ! i = 0"
  shows "rs_syn k e = gfMul (e ! a) (alpha (k * (11 - a))) XOR gfMul (e ! b) (alpha (k * (11 - b))) XOR gfMul (e ! c) (alpha (k * (11 - c)))"
proof -
  let ?f = "\<lambda>i. gfMul (e ! i) (alpha (k * (11 - i)))"
  let ?r = "remove1 c (remove1 b (remove1 a [0..<12]))"
  have "xsum (map ?f ?r) = 0" using assms(1,5) by (intro xsum_zero) (auto simp: set_remove1_eq distinct_remove1)
  moreover have "xsum (map ?f [0..<12]) = ?f a XOR ?f b XOR ?f c XOR xsum (map ?f ?r)"
    using assms(1-4) by (simp add: xsum_remove [of a "[0..<12]"] xsum_remove [of b "remove1 a [0..<12]"]
      xsum_remove [of c "remove1 b (remove1 a [0..<12])"] in_set_remove1)
  ultimately show ?thesis by (simp add: rs_syn_def)
qed

lemma rs_light_zero:
  assumes "\<forall>k \<in> {1, 2, 3}. rs_syn k e = 0" "card {i. i < 12 \<and> e ! i \<noteq> 0} \<le> 3" "i < 12"
  shows "e ! i = 0"
proof (rule ccontr)
  let ?E = "{i. i < 12 \<and> e ! i \<noteq> 0}"
  assume "e ! i \<noteq> 0"
  then have "{i} \<subseteq> ?E" using assms(3) by simp
  obtain B where B: "?E \<subseteq> B" "B \<subseteq> {..<12}" "card B = 3"
    using exists_subset_between [of ?E 3 "{..<12 :: nat}"] assms(2) by auto
  with \<open>{i} \<subseteq> ?E\<close> have "i \<in> B" "finite B" by (auto intro: finite_subset)
  then have "card (B - {i}) = 2" using B(3) by simp
  then obtain b c where bc: "B - {i} = {b, c}" "b \<noteq> c" by (auto simp: card_2_iff)
  then have S: "distinct [i, b, c]" "b < 12" "c < 12" "\<forall>l < 12. l \<notin> {i, b, c} \<longrightarrow> e ! l = 0"
    using B \<open>i \<in> B\<close> by auto
  have ne: "alpha (11 - i) \<noteq> alpha (11 - j)" if "j < 12" "j \<noteq> i" for j
  proof
    assume "alpha (11 - i) = alpha (11 - j)"
    then have "11 - i = 11 - j" by (intro alpha_inj) linarith+
    then show False using that assms(3) by linarith
  qed
  have z: "gfMul (e ! i) (alpha (k * (11 - i))) XOR gfMul (e ! b) (alpha (k * (11 - b))) XOR gfMul (e ! c) (alpha (k * (11 - c))) = 0"
    if "k \<in> {1, 2, 3}" for k
    using assms(1) that unfolding rs_syn_three [OF S(1) assms(3) S(2-4)] by blast
  have "e ! i = 0"
    by (rule vandermonde [OF z [of 1, unfolded alpha_powers] z [of 2, unfolded alpha_powers] z [of 3, unfolded alpha_powers]])
      (use ne S in \<open>auto simp: alpha_nonzero\<close>)
  then show False using \<open>e ! i \<noteq> 0\<close> by simp
qed

text \<open>Two blocks with the same mask differ by a codeword.\<close>

lemma blocks_differ_by_codeword:
  assumes "LinkControlBlock lc dt = Some a" "LinkControlBlock lc' dt = Some b" "k \<in> {1, 2, 3}"
  shows "rs_syn k (xor_bytes a b) = 0"
proof -
  obtain p m where p: "RSParity lc = Some p" "rsMaskFor dt = Some m" "a = lc @ map (\<lambda>j. p ! j XOR m ! j) [0..<3]"
    using assms(1) by (auto simp: LinkControlBlock_def split: option.splits)
  obtain p' where p': "RSParity lc' = Some p'" "b = lc' @ map (\<lambda>j. p' ! j XOR m ! j) [0..<3]"
    using assms(2) p(2) by (auto simp: LinkControlBlock_def split: option.splits)
  note l = RSParity_xsum(1,2) [OF p(1)] RSParity_xsum(1,2) [OF p'(1)]
  have "xor_bytes a b = xor_bytes (lc @ p) (lc' @ p')"
    unfolding p(3) p'(2) using l by (intro nth_equalityI) (auto simp: nth_append ac_simps)
  then show ?thesis using l rs_syndromes [OF p(1) assms(3)] rs_syndromes [OF p'(1) assms(3)] by (simp add: rs_syn_xor)
qed

text \<open>A Link Control block in which one, two or three octets were changed never checks, whatever
  they were changed to: the Reed-Solomon code keeps any two blocks of one kind four octets apart.\<close>

lemma link_control_detects:
  assumes "LinkControlBlock lc dt = Some full" "length got = 12" "got \<noteq> full" "card {i. i < 12 \<and> got ! i \<noteq> full ! i} \<le> 3"
  shows "CheckLinkControl (BurstBitsFrom got) dt = None"
proof (rule ccontr)
  assume "\<not> ?thesis"
  then have got: "LinkControlBlock (take 9 got) dt = Some got"
    by (auto simp: CheckLinkControl_block [OF assms(2)] split: if_splits)
  have l: "length full = 12" using length_LinkControlBlock [OF assms(1)] by simp
  let ?e = "xor_bytes got full"
  have E: "{i. i < 12 \<and> ?e ! i \<noteq> 0} = {i. i < 12 \<and> got ! i \<noteq> full ! i}" using l assms(2) by auto
  have "?e ! i = 0" if "i < 12" for i
    using rs_light_zero [OF _ _ that, of ?e] blocks_differ_by_codeword [OF got assms(1)] assms(4) unfolding E by blast
  then have "got ! i = full ! i" if "i < 12" for i using that l assms(2) by simp
  then have "got = full" using l assms(2) by (intro nth_equalityI) auto
  then show False using assms(3) by simp
qed

lemma zero_block: "LinkControlBlock (replicate 9 0) 1 = Some (replicate 9 0 @ [0x96, 0x96, 0x96])"
proof -
  have *: "[0..<3] = [0, 1, 2 :: nat]" "[0..<9] = [0, 1, 2, 3, 4, 5, 6, 7, 8 :: nat]" by (simp_all add: upt_rec)
  have "RSParity (replicate 9 0) = Some [0, 0, 0]"
    unfolding RSParity_def LinkControlBytes_def * rs_accumulate_def by simp
  then show ?thesis by (simp add: LinkControlBlock_def rsMaskFor_def DataTypeVoiceLCHeader_def *)
qed

lemma link_control_detects_witness:
  "CheckLinkControl (BurstBitsFrom ([7, 0, 0, 0, 9] @ replicate 4 0 @ [0x96, 0x96, 0x96])) 1 = None"
proof (rule link_control_detects [OF zero_block])
  let ?got = "[7, 0, 0, 0, 9 :: byte] @ replicate 4 0 @ [0x96, 0x96, 0x96]" and ?full = "replicate 9 (0 :: byte) @ [0x96, 0x96, 0x96]"
  have "{i. i < 12 \<and> ?got ! i \<noteq> ?full ! i} \<subseteq> {0, 4}"
    by (auto simp: less_Suc_eq numeral_eq_Suc)
  then have "card {i. i < 12 \<and> ?got ! i \<noteq> ?full ! i} \<le> card {0, 4 :: nat}" by (intro card_mono) auto
  then show "card {i. i < 12 \<and> ?got ! i \<noteq> ?full ! i} \<le> 3" by simp
  have "?got ! 0 \<noteq> ?full ! 0" by (simp add: nth_append)
  then show "?got \<noteq> ?full" by metis
qed simp

end
