(* ===== verification/Data_Burst.thy ===== *)
theory Data_Burst
  imports Link_Control Linear_Codes
begin

text \<open>
  The data burst of \<^verbatim>\<open>internal/dmrfec/linkcontrol.go\<close>: the Slot Type with its Golay(20,8) parity, and the
  burst that carries a block between its two halves.  What is built is read back (\<open>SlotTypeOf\<close>,
  \<open>DecodeBPTC\<close>, \<open>CheckLinkControl\<close>), and a header never checks as a terminator.
\<close>

section \<open>Definitions\<close>

definition golay208Rows :: "u16 list" where
  "golay208Rows =
    [0b001111011010,
     0b110110011001,
     0b011011001101,
     0b001101100111,
     0b110111000110,
     0b101010010111,
     0b100100111110,
     0b100011101011]"

definition SlotTypeInfo :: "byte \<Rightarrow> byte \<Rightarrow> byte" where
  "SlotTypeInfo colourCode dataType = push_bit 4 colourCode OR (dataType AND 0x0F)"

definition slot_parity :: "u16 \<Rightarrow> u16" where
  "slot_parity info = fold (\<lambda>i parity. if info AND drop_bit i 0x80 \<noteq> 0 then parity XOR golay208Rows ! i else parity) [0..<8] 0"

definition SlotType :: "byte \<Rightarrow> byte \<Rightarrow> u32 option" where
  "SlotType colourCode dataType =
     (if colourCode > 15 then None
      else if dataType > 15 then None
      else let info = ucast (SlotTypeInfo colourCode dataType)
           in Some (push_bit 12 (ucast info) OR ucast (slot_parity info)))"

definition SlotTypeOf :: "byte list \<Rightarrow> (byte \<times> byte) option" where
  "SlotTypeOf burst =
     (if length burst \<noteq> BurstBytes then None
      else
        let b = BurstBitsFrom burst;
            v = foldl (\<lambda>v i. push_bit 1 v OR ucast (b ! (98 + i))) (0 :: u32) [0..<10];
            v = foldl (\<lambda>v i. push_bit 1 v OR ucast (b ! (156 + i))) v [0..<10]
        in Some (ucast (drop_bit 16 v AND 0x0F), ucast (drop_bit 12 v AND 0x0F)))"

definition DataSyncBS :: u64 where
  "DataSyncBS = 0xDFF57D75DF5D"

definition dataBurstFromCoded :: "byte \<Rightarrow> byte \<Rightarrow> byte list \<Rightarrow> byte list option" where
  "dataBurstFromCoded colourCode dataType coded =
     (if length coded \<noteq> BPTCCodedBits then None
      else
        (case SlotType colourCode dataType of None \<Rightarrow> None
         | Some slot \<Rightarrow>
             Some (BurstBytesFrom
               (subslice 0 98 coded @
                map (\<lambda>i. ucast (drop_bit (19 - i) slot AND 1)) [0..<10] @
                map (\<lambda>i. ucast (drop_bit (47 - i) DataSyncBS AND 1)) [0..<48] @
                map (\<lambda>i. ucast (drop_bit (9 - i) slot AND 1)) [0..<10] @
                subslice 98 196 coded))))"

definition dataBurstFromPayload :: "byte \<Rightarrow> byte \<Rightarrow> byte list \<Rightarrow> byte list option" where
  "dataBurstFromPayload colourCode dataType payload =
     (case EncodeBPTC payload of None \<Rightarrow> None
      | Some coded \<Rightarrow> dataBurstFromCoded colourCode dataType coded)"

definition BuildDataBurst :: "byte \<Rightarrow> byte \<Rightarrow> byte list \<Rightarrow> byte list option" where
  "BuildDataBurst colourCode dataType lc =
     (case LinkControlPayload lc dataType of None \<Rightarrow> None
      | Some payload \<Rightarrow> dataBurstFromPayload colourCode dataType payload)"

definition BuildDataBurstFromBlock :: "byte \<Rightarrow> byte \<Rightarrow> byte list \<Rightarrow> byte list option" where
  "BuildDataBurstFromBlock colourCode dataType block =
     (if length block \<noteq> LinkControlBlockBytes then None
      else dataBurstFromPayload colourCode dataType (BurstBitsFrom block))"

definition FLCOGroupVoice :: byte where
  "FLCOGroupVoice = 0x00"

definition FLCOPrivateVoice :: byte where
  "FLCOPrivateVoice = 0x03"

definition LinkControlFor :: "u32 \<Rightarrow> u32 \<Rightarrow> bool \<Rightarrow> byte list" where
  "LinkControlFor destination source private =
     [if private then FLCOPrivateVoice else FLCOGroupVoice, 0x00, 0x00,
      ucast (drop_bit 16 destination), ucast (drop_bit 8 destination), ucast destination,
      ucast (drop_bit 16 source), ucast (drop_bit 8 source), ucast source]"

section \<open>The Slot Type\<close>

text \<open>The twenty bits as a function of the octet they carry.\<close>

definition slot_code :: "u32 \<Rightarrow> u32" where
  "slot_code d = push_bit 12 (take_bit 8 d) XOR ucast (slot_parity (ucast d))"

lemma slot_parity_bits: "slot_parity info = fold (\<lambda>i parity. if bit info (7 - i) then parity XOR golay208Rows ! i else parity) [0..<8] 0"
proof -
  have "(info AND drop_bit i 0x80 \<noteq> 0) \<longleftrightarrow> bit info (7 - i)" if "i < 8" for i
  proof -
    have "i \<in> {0, 1, 2, 3, 4, 5, 6, 7}" using that by auto
    then have "drop_bit i (0x80 :: u16) = push_bit (7 - i) 1" by auto
    then show ?thesis by (simp only: and_push_bit_iff)
  qed
  then show ?thesis unfolding slot_parity_def by (intro fold_cong) auto
qed

lemma slot_parity_xor: "slot_parity (a XOR b) = slot_parity a XOR slot_parity b"
proof -
  have "fold (\<lambda>i p. if bit (a XOR b) (7 - i) then p XOR g i else p) is (x XOR y) =
      fold (\<lambda>i p. if bit a (7 - i) then p XOR g i else p) is x XOR fold (\<lambda>i p. if bit b (7 - i) then p XOR g i else p) is y"
    for "is" and g :: "nat \<Rightarrow> u16" and x y
  proof (induction "is" arbitrary: x y)
    case (Cons i "is")
    have "(if bit (a XOR b) (7 - i) then (x XOR y) XOR g i else x XOR y) =
        (if bit a (7 - i) then x XOR g i else x) XOR (if bit b (7 - i) then y XOR g i else y)"
      by (auto simp: bit_xor_iff xor.assoc xor.commute xor.left_commute)
    then show ?case using Cons by (simp only: fold_simps)
  qed simp
  from this [of "\<lambda>i. golay208Rows ! i" "[0..<8]" 0 0] show ?thesis unfolding slot_parity_bits by simp
qed

lemma slot_code_xor: "slot_code (a XOR b) = slot_code a XOR slot_code b"
proof -
  have "ucast (a XOR b) = (ucast a XOR ucast b :: u16)" by (rule bit_word_eqI) (simp add: bit_simps)
  moreover have "ucast (p XOR q) = (ucast p XOR ucast q :: u32)" for p q :: u16 by (rule bit_word_eqI) (auto simp: bit_simps)
  ultimately show ?thesis by (simp add: slot_code_def slot_parity_xor take_bit_xor push_bit_xor xor.assoc xor.left_commute)
qed

interpretation slot: linear_code slot_code 8
  by unfold_locales (rule slot_code_xor)

lemma slot_rows: "row_bits slot_code 8 0 = map word_bits
  [0x18EB, 0x293E, 0x4A97, 0x8DC6, 0x10367, 0x206CD, 0x40D99, 0x803DA]"
proof -
  have "[0..<8] = [0, 1, 2, 3, 4, 5, 6, 7 :: nat]" by (simp add: upt_rec)
  then show ?thesis by (simp only: row_bits_def list.map) (simp add: slot_code_def slot_parity_bits golay208Rows_def)
qed

lemma slot_min_weight: "min_weight 8 (row_bits slot_code 8 0)"
  unfolding slot_rows by (simp add: word_bits_def upt_rec numeral_eq_Suc)

lemma octet_ucast: "ucast (ucast b :: u32) = (ucast b :: u16)" "take_bit 8 (ucast b :: u32) = ucast b" for b :: byte
proof -
  show "ucast (ucast b :: u32) = (ucast b :: u16)" by (rule bit_word_eqI) (simp add: bit_ucast_iff)
  show "take_bit 8 (ucast b :: u32) = ucast b"
    by (rule bit_word_eqI) (auto simp: bit_ucast_iff bit_take_bit_iff dest: bit_imp_le_length)
qed

lemma slot_parity_small: "take_bit 12 (slot_parity info) = slot_parity info"
proof -
  have "list_all (\<lambda>r. take_bit 12 r = r) golay208Rows" by (simp add: golay208Rows_def)
  then have "\<forall>i < 8. take_bit 12 (golay208Rows ! i) = golay208Rows ! i" by (simp add: list_all_length golay208Rows_def)
  moreover have "take_bit 12 (fold (\<lambda>i p. if P i then p XOR g i else p) is p) = fold (\<lambda>i p. if P i then p XOR g i else p) is p"
    if "\<forall>i \<in> set is. take_bit 12 (g i) = g i" "take_bit 12 p = p" for P and g :: "nat \<Rightarrow> u16" and "is" p
    using that by (induction "is" arbitrary: p) (auto simp: take_bit_xor)
  ultimately show ?thesis unfolding slot_parity_def by simp
qed

lemma SlotType_code:
  assumes "take_bit 4 cc = cc" "take_bit 4 dt = dt"
  shows "SlotType cc dt = Some (slot_code (ucast (SlotTypeInfo cc dt)))"
proof -
  let ?i = "SlotTypeInfo cc dt"
  have "(push_bit 12 (ucast (ucast ?i :: u16)) OR ucast (slot_parity (ucast ?i)) :: u32) = slot_code (ucast ?i)"
    unfolding slot_code_def octet_ucast
    by (rule bit_word_eqI) (auto simp: bit_simps dest: bit_small [OF _ slot_parity_small] bit_imp_le_length)
  moreover have "\<not> 15 < cc" "\<not> 15 < dt" using assms by (simp_all add: nibble)
  ultimately show ?thesis unfolding SlotType_def Let_def by simp
qed

lemma slot_code_fields:
  assumes "take_bit 4 cc = cc" "take_bit 4 dt = dt"
  shows "ucast (drop_bit 16 (slot_code (ucast (SlotTypeInfo cc dt))) AND 0x0F) = cc"
    "ucast (drop_bit 12 (slot_code (ucast (SlotTypeInfo cc dt))) AND 0x0F) = dt"
    "take_bit 20 (slot_code (ucast (SlotTypeInfo cc dt))) = slot_code (ucast (SlotTypeInfo cc dt))"
proof -
  have m: "w AND 0x0F = take_bit 4 w" for w :: "'a::len word" by (simp add: take_bit_eq_mask mask_numeral)
  have b: "bit (slot_code (ucast (SlotTypeInfo cc dt))) n \<longleftrightarrow>
      (if n < 12 then bit (slot_parity (ucast (SlotTypeInfo cc dt))) n else n < 20 \<and> bit (SlotTypeInfo cc dt) (n - 12))" for n
    unfolding slot_code_def octet_ucast by (cases "n < 20") (auto simp: bit_simps dest: bit_small [OF _ slot_parity_small] bit_imp_le_length)
  have i: "bit (SlotTypeInfo cc dt) n \<longleftrightarrow> (if n < 4 then bit dt n else n < 8 \<and> bit cc (n - 4))" for n
    unfolding SlotTypeInfo_def m by (auto simp: bit_simps dest: bit_small [OF _ assms(2)] bit_imp_le_length)
  show "ucast (drop_bit 16 (slot_code (ucast (SlotTypeInfo cc dt))) AND 0x0F) = cc"
    "ucast (drop_bit 12 (slot_code (ucast (SlotTypeInfo cc dt))) AND 0x0F) = dt"
    unfolding m by (rule bit_word_eqI; auto simp: bit_ucast_iff bit_take_bit_iff bit_drop_bit_eq b i
      dest: bit_small [OF _ assms(1)] bit_small [OF _ assms(2)])+
  show "take_bit 20 (slot_code (ucast (SlotTypeInfo cc dt))) = slot_code (ucast (SlotTypeInfo cc dt))"
    by (rule bit_word_eqI) (auto simp: bit_take_bit_iff b split: if_splits)
qed

text \<open>The Slot Types of two different pairs of colour code and data type differ in at least eight of
  their twenty bits, so a receiver can correct three wrong bits and never takes one for another.\<close>

lemma slot_types_far_apart:
  assumes "SlotType cc dt = Some a" "SlotType cc' dt' = Some b" "(cc, dt) \<noteq> (cc', dt')"
  shows "8 \<le> popcount (a XOR b)"
proof -
  have s: "take_bit 4 cc = cc" "take_bit 4 dt = dt" "take_bit 4 cc' = cc'" "take_bit 4 dt' = dt'"
    using assms(1,2) unfolding nibble [symmetric] by (auto simp: SlotType_def split: if_splits)
  let ?i = "ucast (SlotTypeInfo cc dt) :: u32" and ?j = "ucast (SlotTypeInfo cc' dt') :: u32"
  have ab: "a = slot_code ?i" "b = slot_code ?j"
    using assms(1,2) SlotType_code [OF s(1,2)] SlotType_code [OF s(3,4)] by simp_all
  then have "?i \<noteq> ?j" using slot_code_fields [OF s(1,2)] slot_code_fields [OF s(3,4)] assms(3) by metis
  then show ?thesis unfolding ab by (intro slot.distance slot_min_weight) (simp_all add: octet_ucast)
qed

lemma slot_types_far_apart_witness: "8 \<le> popcount (the (SlotType 1 1) XOR the (SlotType 1 2))"
  by (rule slot_types_far_apart [of 1 1 _ 1 2]) (simp_all add: SlotType_def Let_def)

section \<open>What is built is read back\<close>

lemma unpack_word_bits: "map (\<lambda>i. ucast (drop_bit (n - 1 - i) v AND 1) :: byte) [0..<n] = unpack_word v n" for v :: "'a::len word"
  unfolding unpack_word_eq and_one_of_bool by (intro map_cong refl) (auto simp: bit_drop_bit_eq)

lemma dataBurstFromCoded_eq:
  assumes "length coded = 196" "SlotType cc dt = Some slot"
  shows "dataBurstFromCoded cc dt coded = Some (BurstBytesFrom (subslice 0 98 coded @
    (take 10 (unpack_word slot 20) @ unpack_word DataSyncBS 48 @ drop 10 (unpack_word slot 20)) @ subslice 98 196 coded))"
proof -
  have "map (\<lambda>i. ucast (drop_bit (19 - i) slot AND 1) :: byte) [0..<10] = take 10 (unpack_word slot 20)"
    "map (\<lambda>i. ucast (drop_bit (9 - i) slot AND 1) :: byte) [0..<10] = drop 10 (unpack_word slot 20)"
    by (rule nth_equalityI; simp add: unpack_word_eq and_one_of_bool bit_drop_bit_eq)+
  then show ?thesis using assms unpack_word_bits [of 48 DataSyncBS]
    by (simp add: dataBurstFromCoded_def BPTCCodedBits_def)
qed

lemma SlotTypeOf_burst:
  assumes "length a = 98" "length b = 98" "is_bits a" "is_bits b" "length mid = 48" "is_bits mid"
    "take_bit 4 cc = cc" "take_bit 4 dt = dt" "SlotType cc dt = Some slot"
  shows "SlotTypeOf (BurstBytesFrom (a @ (take 10 (unpack_word slot 20) @ mid @ drop 10 (unpack_word slot 20)) @ b)) = Some (cc, dt)"
proof -
  let ?b = "a @ (take 10 (unpack_word slot 20) @ mid @ drop 10 (unpack_word slot 20)) @ b"
  have e: "BurstBitsFrom (BurstBytesFrom ?b) = ?b" using assms by (intro BurstBitsFrom_BurstBytesFrom) simp_all
  have m: "map (\<lambda>i. ?b ! (98 + i)) [0..<10] = take 10 (unpack_word slot 20)"
    "map (\<lambda>i. ?b ! (156 + i)) [0..<10] = drop 10 (unpack_word slot 20)"
    using assms(1,5) by (auto intro!: nth_equalityI simp: nth_append)
  have "foldl (\<lambda>v i. push_bit 1 v OR ucast (?b ! (98 + i))) (0 :: u32) [0..<10] = pack_word (take 10 (unpack_word slot 20))"
    using pack_word_foldl [of "\<lambda>i. ?b ! (98 + i)" "[0..<10]" "[]"] unfolding m by simp
  moreover have "foldl (\<lambda>v i. push_bit 1 v OR ucast (?b ! (156 + i))) (pack_word (take 10 (unpack_word slot 20)) :: u32) [0..<10]
      = pack_word (unpack_word slot 20)"
    using pack_word_foldl [of "\<lambda>i. ?b ! (156 + i)" "[0..<10]" "take 10 (unpack_word slot 20)"] unfolding m by simp
  moreover have slot: "slot = slot_code (ucast (SlotTypeInfo cc dt))" using SlotType_code [OF assms(7,8)] assms(9) by simp
  have "pack_word (unpack_word slot 20) = slot" unfolding slot by (simp add: pack_unpack_word slot_code_fields [OF assms(7,8)])
  ultimately show ?thesis unfolding SlotTypeOf_def e Let_def using assms slot_code_fields [OF assms(7,8)]
    by (simp add: BurstBytes_def slot)
qed

text \<open>Any coded payload comes back from the burst it is laid into, with its colour code and data type.\<close>

lemma dataBurstFromCoded_readback:
  assumes "length coded = 196" "is_bits coded" "take_bit 4 cc = cc" "take_bit 4 dt = dt"
  obtains burst where "dataBurstFromCoded cc dt coded = Some burst" "length burst = 33"
    "SlotTypeOf burst = Some (cc, dt)" "dataBurstHalves burst = Some coded"
proof -
  obtain slot where s: "SlotType cc dt = Some slot" using SlotType_code [OF assms(3,4)] by blast
  let ?mid = "take 10 (unpack_word slot 20) @ unpack_word DataSyncBS 48 @ drop 10 (unpack_word slot 20)"
  let ?burst = "BurstBytesFrom (subslice 0 98 coded @ ?mid @ subslice 98 196 coded)"
  have "SlotTypeOf ?burst = Some (cc, dt)" using assms s by (intro SlotTypeOf_burst) simp_all
  moreover have "dataBurstHalves ?burst = Some coded" using assms by (intro dataBurstHalves_of) simp_all
  moreover have "length ?burst = 33" using assms by simp
  ultimately show ?thesis using that dataBurstFromCoded_eq [OF assms(1) s] by blast
qed

lemma dataBurstFromPayload_readback:
  assumes "length payload = 96" "is_bits payload" "take_bit 4 cc = cc" "take_bit 4 dt = dt"
  obtains burst where "dataBurstFromPayload cc dt payload = Some burst" "length burst = 33"
    "SlotTypeOf burst = Some (cc, dt)" "DecodeBPTC burst = Some (payload, 9)"
proof -
  obtain coded where c: "EncodeBPTC payload = Some coded" "length coded = 196" "is_bits coded"
    by (rule EncodeBPTC_bits [OF assms(1,2)])
  show ?thesis
    by (rule dataBurstFromCoded_readback [OF c(2,3) assms(3,4)])
      (use that c(1) DecodeBPTC_EncodeBPTC [OF assms(1) c(1)] in \<open>simp add: dataBurstFromPayload_def\<close>)
qed

lemma LinkControlBlock_some: "length lc = 9 \<Longrightarrow> dt = 1 \<or> dt = 2 \<Longrightarrow> \<exists>full. LinkControlBlock lc dt = Some full"
  by (auto simp: LinkControlBlock_def RSParity_def LinkControlBytes_def rsMaskFor_def DataTypeVoiceLCHeader_def
      DataTypeTerminatorWithLC_def)

lemma LinkControlBlock_kind:
  assumes "LinkControlBlock lc dt = Some full" "LinkControlBlock lc dt' = Some full"
  shows "dt' = dt"
proof -
  obtain p where p: "RSParity lc = Some p" using assms(1) by (auto simp: LinkControlBlock_def split: option.splits)
  have "p ! 0 XOR 0x96 \<noteq> p ! 0 XOR (0x99 :: byte)"
  proof
    assume "p ! 0 XOR 0x96 = p ! 0 XOR (0x99 :: byte)"
    then have "p ! 0 XOR (p ! 0 XOR 0x96) = p ! 0 XOR (p ! 0 XOR 0x99)" by (rule arg_cong)
    then show False by (simp only: xor_byte) simp
  qed
  then show ?thesis using assms p
    by (auto simp: LinkControlBlock_def rsMaskFor_def upt_rec split: if_splits)
qed

text \<open>C35: A voice header or terminator that \<open>BuildDataBurst\<close> makes reads back: the Slot Type gives the
  colour code and the kind, the block decodes with every row valid, and its Link Control checks and is
  the one that was sent, under the mask of its own kind and of no other.\<close>

theorem data_burst_roundtrip:
  assumes "length lc = 9" "dt = DataTypeVoiceLCHeader \<or> dt = DataTypeTerminatorWithLC" "cc \<le> 15"
  shows "\<exists>burst payload. BuildDataBurst cc dt lc = Some burst \<and> length burst = 33 \<and>
    SlotTypeOf burst = Some (cc, dt) \<and> DecodeBPTC burst = Some (payload, 9) \<and>
    (\<forall>dt'. CheckLinkControl payload dt' = (if dt' = dt then Some lc else None))"
proof -
  have s: "take_bit 4 cc = cc" "take_bit 4 dt = dt" using assms(2,3)
    unfolding nibble [symmetric] DataTypeVoiceLCHeader_def DataTypeTerminatorWithLC_def by auto
  obtain full where f: "LinkControlBlock lc dt = Some full" using LinkControlBlock_some [OF assms(1)] assms(2)
    by (auto simp: DataTypeVoiceLCHeader_def DataTypeTerminatorWithLC_def)
  then have l: "length full = 12" "take 9 full = lc" by (simp_all add: length_LinkControlBlock)
  have "length (BurstBitsFrom full) = 96" using l by simp
  from dataBurstFromPayload_readback [OF this is_bits_BurstBitsFrom s] obtain burst
    where b: "dataBurstFromPayload cc dt (BurstBitsFrom full) = Some burst" "length burst = 33"
      "SlotTypeOf burst = Some (cc, dt)" "DecodeBPTC burst = Some (BurstBitsFrom full, 9)" by metis
  moreover have "BuildDataBurst cc dt lc = Some burst" using b(1) f by (simp add: BuildDataBurst_def LinkControlPayload_eq)
  moreover have "CheckLinkControl (BurstBitsFrom full) dt' = (if dt' = dt then Some lc else None)" for dt'
  proof (cases "dt' = dt")
    case False
    then have "LinkControlBlock lc dt' \<noteq> Some full" using LinkControlBlock_kind [OF f] by blast
    with False show ?thesis unfolding CheckLinkControl_block [OF l(1)] l(2) by simp
  qed (use f in \<open>simp add: CheckLinkControl_block [OF l(1)] l(2)\<close>)
  ultimately show ?thesis by blast
qed

theorem data_burst_roundtrip_witness:
  "\<exists>burst payload. BuildDataBurst 1 DataTypeVoiceLCHeader (LinkControlFor 91 3120001 False) = Some burst \<and>
    SlotTypeOf burst = Some (1, DataTypeVoiceLCHeader) \<and> DecodeBPTC burst = Some (payload, 9) \<and>
    CheckLinkControl payload DataTypeVoiceLCHeader = Some (LinkControlFor 91 3120001 False)"
  using data_burst_roundtrip [of "LinkControlFor 91 3120001 False" DataTypeVoiceLCHeader 1]
  by (auto simp: LinkControlFor_def)

end
