(* ===== verification/Embedded_Lc.thy ===== *)
theory Embedded_Lc
  imports Emb Data_Burst
begin

text \<open>
  \<^verbatim>\<open>internal/dmrfec/embeddedlc.go\<close>: a Link Control spread over the middles of four voice bursts.  The
  encode matrix is the list of its eight rows of sixteen bits.  A Link Control sent over a superframe
  is the one read back, and every burst says its colour code and its place (\<open>embedded_lc_roundtrip\<close>).
\<close>

section \<open>Definitions\<close>

definition EmbeddedLCBursts :: nat where
  "EmbeddedLCBursts = 4"

definition EmbeddedLCFragmentBits :: nat where
  "EmbeddedLCFragmentBits = 32"

definition hamming16_11_4 :: "byte list list" where
  "hamming16_11_4 =
    [[1, 0, 0, 1, 1],
     [1, 1, 0, 1, 0],
     [1, 1, 1, 1, 1],
     [1, 1, 1, 0, 0],
     [0, 1, 1, 1, 0],
     [1, 0, 1, 0, 1],
     [0, 1, 0, 1, 1],
     [1, 0, 1, 1, 0],
     [1, 1, 0, 0, 1],
     [0, 1, 1, 0, 1],
     [0, 0, 1, 1, 1]]"

definition hamming16_step :: "nat \<times> byte \<Rightarrow> byte list \<Rightarrow> byte list" where
  "hamming16_step ib p = (case ib of (i, b) \<Rightarrow>
     if b AND 1 = 0 then p else map (\<lambda>j. p ! j XOR hamming16_11_4 ! i ! j) [0..<5])"

definition hammingParity16 :: "byte list \<Rightarrow> byte list" where
  "hammingParity16 data = fold hamming16_step (enumerate 0 data) (replicate 5 0)"

definition EmbeddedLCChecksum :: "byte list \<Rightarrow> byte option" where
  "EmbeddedLCChecksum lc =
     (if length lc \<noteq> LinkControlBytes then None else Some (of_nat (sum_list (map unat lc) mod 31)))"

text \<open>Rows 1 and 2 carry eleven bits, rows 3 to 7 ten and a bit of the checksum, row 8 the parity of the columns.\<close>

definition elc_row :: "byte list \<Rightarrow> byte \<Rightarrow> nat \<Rightarrow> byte list" where
  "elc_row bits cs row =
     (let data = (if row < 2 then subslice (row * 11) (row * 11 + 11) bits
                  else subslice (22 + (row - 2) * 10) (22 + (row - 2) * 10 + 10) bits @ [drop_bit (4 - (row - 2)) cs AND 1])
      in data @ hammingParity16 data)"

definition elc_matrix :: "byte list \<Rightarrow> byte \<Rightarrow> byte list list" where
  "elc_matrix bits cs =
     (let m = map (elc_row bits cs) [0..<7]
      in m @ [map (\<lambda>col. fold (\<lambda>row parity. parity XOR m ! row ! col) [0..<7] 0) [0..<16]])"

definition EncodeEmbeddedLC :: "byte list \<Rightarrow> u32 list option" where
  "EncodeEmbeddedLC lc =
     (case EmbeddedLCChecksum lc of None \<Rightarrow> None
      | Some cs \<Rightarrow>
          let m = elc_matrix (BurstBitsFrom lc) cs;
              sq = concat (map (\<lambda>col. map (\<lambda>row. m ! row ! col) [0..<8]) [0..<16])
          in Some (map (\<lambda>burst. foldl (\<lambda>v i. push_bit 1 v OR ucast (sq ! (burst * EmbeddedLCFragmentBits + i))) 0
               [0..<EmbeddedLCFragmentBits]) [0..<EmbeddedLCBursts]))"

definition DecodeEmbeddedLC :: "u32 list \<Rightarrow> byte list option" where
  "DecodeEmbeddedLC fragments =
     (let sq = concat (map (\<lambda>v. unpack_word v EmbeddedLCFragmentBits) fragments);
          m = map (\<lambda>row. map (\<lambda>col. sq ! (col * 8 + row)) [0..<16]) [0..<8];
          bits = concat (map (\<lambda>row. take 11 (m ! row)) [0..<2]) @ concat (map (\<lambda>row. take 10 (m ! row)) [2..<7]);
          cs = foldl (\<lambda>cs row. push_bit 1 cs OR m ! row ! 10) 0 [2..<7];
          lc = pack_octets (\<lambda>b. b = 1) LinkControlBytes bits
      in (case EmbeddedLCChecksum lc of None \<Rightarrow> None | Some want \<Rightarrow> if want \<noteq> cs then None else Some lc))"

fun embedded_middles :: "nat \<Rightarrow> byte \<Rightarrow> u32 list \<Rightarrow> u64 list option" where
  "embedded_middles i colourCode [] = Some []"
| "embedded_middles i colourCode (fragment # fragments) =
     (case MiddleForPosition (int i + 1) colourCode fragment of None \<Rightarrow> None
      | Some middle \<Rightarrow> map_option ((#) middle) (embedded_middles (Suc i) colourCode fragments))"

definition EmbeddedLCMiddles :: "byte list \<Rightarrow> byte \<Rightarrow> u64 list option" where
  "EmbeddedLCMiddles lc colourCode =
     (case EncodeEmbeddedLC lc of None \<Rightarrow> None
      | Some fragments \<Rightarrow> embedded_middles 0 colourCode fragments)"

section \<open>The matrix\<close>

lemma hammingParity16_bits: "length data \<le> 11 \<Longrightarrow> length (hammingParity16 data) = 5 \<and> is_bits (hammingParity16 data)"
proof -
  have rows: "list_all (\<lambda>r. length r = 5 \<and> is_bits r) hamming16_11_4" by (simp add: hamming16_11_4_def)
  have step: "length (hamming16_step ib p) = 5 \<and> is_bits (hamming16_step ib p)"
    if "fst ib < 11" "length p = 5" "is_bits p" for ib p
  proof -
    have "length (hamming16_11_4 ! fst ib) = 5" "is_bits (hamming16_11_4 ! fst ib)"
      using rows that(1) unfolding list_all_length by (simp_all add: hamming16_11_4_def)
    then show ?thesis using that by (cases ib) (auto simp: hamming16_step_def is_bits_is_bit)
  qed
  have "length (fold hamming16_step xs p) = 5 \<and> is_bits (fold hamming16_step xs p)"
    if "\<forall>ib \<in> set xs. fst ib < 11" "length p = 5" "is_bits p" for xs p
    using that by (induction xs arbitrary: p) (simp_all add: step)
  from this [of "enumerate 0 data" "replicate 5 0"]
  show "length data \<le> 11 \<Longrightarrow> length (hammingParity16 data) = 5 \<and> is_bits (hammingParity16 data)"
    unfolding hammingParity16_def by (auto simp: in_set_enumerate_eq is_bits_def)
qed

lemma elc_row_shape:
  assumes "length bits = 72" "is_bits bits" "row < 7"
  shows "length (elc_row bits cs row) = 16" "is_bits (elc_row bits cs row)"
    "take 11 (elc_row bits cs row) = (if row < 2 then subslice (row * 11) (row * 11 + 11) bits
       else subslice (22 + (row - 2) * 10) (22 + (row - 2) * 10 + 10) bits @ [drop_bit (4 - (row - 2)) cs AND 1])"
proof -
  let ?d = "if row < 2 then subslice (row * 11) (row * 11 + 11) bits
       else subslice (22 + (row - 2) * 10) (22 + (row - 2) * 10 + 10) bits @ [drop_bit (4 - (row - 2)) cs AND 1]"
  have d: "length ?d = 11" "is_bits ?d" using assms by (auto simp: and_one_of_bool)
  have "elc_row bits cs row = ?d @ hammingParity16 ?d" unfolding elc_row_def Let_def ..
  then show "length (elc_row bits cs row) = 16" "is_bits (elc_row bits cs row)" "take 11 (elc_row bits cs row) = ?d"
    using d hammingParity16_bits [of ?d] by simp_all
qed

lemma elc_matrix_shape:
  assumes "length bits = 72" "is_bits bits"
  shows "length (elc_matrix bits cs) = 8" "row < 7 \<Longrightarrow> elc_matrix bits cs ! row = elc_row bits cs row"
    "row < 8 \<Longrightarrow> col < 16 \<Longrightarrow> is_bit (elc_matrix bits cs ! row ! col)"
proof -
  show l: "length (elc_matrix bits cs) = 8" by (simp add: elc_matrix_def Let_def)
  show r: "elc_matrix bits cs ! row = elc_row bits cs row" if "row < 7" for row
    using that by (simp add: elc_matrix_def Let_def nth_append)
  have b: "is_bit (elc_row bits cs row ! col)" if "row < 7" "col < 16" for row col
    using elc_row_shape(1,2) [OF assms that(1), of cs] that(2) by (simp add: is_bits_is_bit)
  have "is_bit (fold (\<lambda>row parity. parity XOR f row) rows p)"
    if "is_bit p" "\<forall>row \<in> set rows. is_bit (f row)" for f and rows :: "nat list" and p
    using that by (induction rows arbitrary: p) auto
  then have "is_bit (fold (\<lambda>row parity. parity XOR map (elc_row bits cs) [0..<7] ! row ! col) [0..<7] 0)" if "col < 16" for col
    using that b by (simp add: is_bit_def [of 0])
  then have "is_bit (elc_matrix bits cs ! 7 ! col)" if "col < 16" for col
    using that by (simp add: elc_matrix_def Let_def nth_append)
  then show "row < 8 \<Longrightarrow> col < 16 \<Longrightarrow> is_bit (elc_matrix bits cs ! row ! col)"
    using b r [of row] by (cases "row = 7") simp_all
qed

section \<open>The interleave\<close>

definition columns_of :: "byte list list \<Rightarrow> byte list" where
  "columns_of m = concat (map (\<lambda>col. map (\<lambda>row. m ! row ! col) [0..<8]) [0..<16])"

lemma columns_of_nth:
  assumes "row < 8" "col < 16"
  shows "columns_of m ! (col * 8 + row) = m ! row ! col"
proof -
  have "take 8 (drop (col * 8) (columns_of m)) = map (\<lambda>row. m ! row ! col) [0..<8]"
    unfolding columns_of_def using assms by (subst concat_row) simp_all
  then have "take 8 (drop (col * 8) (columns_of m)) ! row = m ! row ! col" using assms by simp
  moreover have "length (columns_of m) = 128" by (simp add: columns_of_def length_concat o_def upt_rec)
  ultimately show ?thesis using assms by simp
qed

lemma columns_of_bits:
  assumes "\<forall>row < 8. \<forall>col < 16. is_bit (m ! row ! col)"
  shows "length (columns_of m) = 128" "is_bits (columns_of m)"
  using assms by (simp add: columns_of_def length_concat o_def upt_rec)
    (auto simp: columns_of_def is_bits_list list_all_iff assms)

lemma fragments_columns:
  assumes "length sq = 128" "is_bits sq"
  shows "concat (map (\<lambda>v. unpack_word v 32) (map (\<lambda>burst. foldl (\<lambda>v i. push_bit 1 v OR ucast (sq ! (burst * 32 + i))) (0 :: u32) [0..<32]) [0..<4])) = sq"
proof -
  have "unpack_word (foldl (\<lambda>v i. push_bit 1 v OR ucast (sq ! (burst * 32 + i))) (0 :: u32) [0..<32]) 32 = take 32 (drop (burst * 32) sq)"
    if "burst < 4" for burst
  proof -
    let ?c = "map (\<lambda>i. sq ! (burst * 32 + i)) [0..<32]"
    have c: "?c = take 32 (drop (burst * 32) sq)" using that assms(1) by (intro nth_equalityI) simp_all
    then have "is_bits ?c" using assms(2) by simp
    then have "foldl (\<lambda>v i. push_bit 1 v OR ucast (sq ! (burst * 32 + i))) (0 :: u32) [0..<32] = pack_word ?c"
      using pack_word_foldl [of "\<lambda>i. sq ! (burst * 32 + i)" "[0..<32]" "[]"] by simp
    moreover have "unpack_word (pack_word ?c :: u32) 32 = ?c"
      using unpack_pack_word [where 'a = 32, OF \<open>is_bits ?c\<close>] by (simp only: length_map length_upt) simp
    ultimately show ?thesis by (simp only: c)
  qed
  then have "map (\<lambda>v. unpack_word v 32) (map (\<lambda>burst. foldl (\<lambda>v i. push_bit 1 v OR ucast (sq ! (burst * 32 + i))) (0 :: u32) [0..<32]) [0..<4])
      = map (\<lambda>r. take 32 (drop (r * 32) sq)) [0..<4]" by simp
  moreover have "concat (map (\<lambda>r. take 32 (drop (r * 32) sq)) [0..<4]) = sq" using assms(1) by (intro concat_chunks) simp
  ultimately show ?thesis by (simp only:)
qed

section \<open>The round trip\<close>

lemma five_bits:
  assumes "take_bit 5 cs = cs" "map f [2..<7] = unpack_word cs 5"
  shows "foldl (\<lambda>cs row. push_bit 1 cs OR f row) 0 [2..<7] = (cs :: byte)"
proof -
  have "foldl (\<lambda>cs row. push_bit 1 cs OR f row) 0 [2..<7] = (pack_word (unpack_word cs 5) :: byte)"
    using pack_word_foldl [where 'a = 8, of f "[2..<7]" "[]"] is_bits_unpack_word [of cs 5]
    by (simp only: assms(2) append_Nil pack_word_Nil ucast_id)
  then show ?thesis using assms(1) by (simp add: pack_unpack_word)
qed

lemma subslices_of_bits:
  assumes "length bits = 72"
  shows "concat (map (\<lambda>row. subslice (row * 11) (row * 11 + 11) bits) [0..<2]) @
    concat (map (\<lambda>row. subslice (22 + (row - 2) * 10) (22 + (row - 2) * 10 + 10) bits) [2..<7]) = bits"
proof -
  have "concat (map (\<lambda>r. take 11 (drop (r * 11) (take 22 bits))) [0..<2]) = take 22 bits"
    "concat (map (\<lambda>r. take 10 (drop (r * 10) (drop 22 bits))) [0..<5]) = drop 22 bits"
    by (rule concat_chunks, simp add: assms)+
  moreover have "map (\<lambda>row. subslice (row * 11) (row * 11 + 11) bits) [0..<2] = map (\<lambda>r. take 11 (drop (r * 11) (take 22 bits))) [0..<2]"
    using assms by (intro map_cong refl) (auto simp: subslice_def drop_take min_def less_Suc_eq numeral_2_eq_2)
  moreover have "map (\<lambda>row. subslice (22 + (row - 2) * 10) (22 + (row - 2) * 10 + 10) bits) [2..<7] =
      map (\<lambda>r. take 10 (drop (r * 10) (drop 22 bits))) [0..<5]"
    by (simp add: upt_rec subslice_def)
  ultimately show ?thesis by (simp only: append_take_drop_id)
qed

lemma DecodeEmbeddedLC_EncodeEmbeddedLC:
  assumes "EncodeEmbeddedLC lc = Some fragments"
  shows "length fragments = 4" "DecodeEmbeddedLC fragments = Some lc"
proof -
  obtain cs where cs: "EmbeddedLCChecksum lc = Some cs" using assms by (auto simp: EncodeEmbeddedLC_def split: option.splits)
  then have l: "length lc = 9" and cs': "cs = of_nat (sum_list (map unat lc) mod 31)"
    by (auto simp: EmbeddedLCChecksum_def LinkControlBytes_def split: if_splits)
  have "unat cs < 2 ^ 5" unfolding cs' unat_of_nat by (simp add: mod_less)
  then have small: "take_bit 5 cs = cs" by (simp only: small_unat)
  let ?bits = "BurstBitsFrom lc"
  let ?m = "elc_matrix ?bits cs"
  let ?sq = "columns_of ?m"
  have b: "length ?bits = 72" "is_bits ?bits" using l by simp_all
  note M = elc_matrix_shape [OF b, where cs = cs] and R = elc_row_shape [OF b, where cs = cs]
  have sq: "length ?sq = 128" "is_bits ?sq" using columns_of_bits [of ?m] M(3) by blast+
  have f: "fragments = map (\<lambda>burst. foldl (\<lambda>v i. push_bit 1 v OR ucast (?sq ! (burst * 32 + i))) (0 :: u32) [0..<32]) [0..<4]"
    using assms cs by (simp add: EncodeEmbeddedLC_def Let_def columns_of_def EmbeddedLCFragmentBits_def EmbeddedLCBursts_def)
  then show "length fragments = 4" by simp
  define m where "m = map (\<lambda>row. map (\<lambda>col. ?sq ! (col * 8 + row)) [0..<16]) [0..<8]"
  have m: "m ! row = elc_row ?bits cs row" if "row < 7" for row
    using that R(1) by (auto simp: m_def columns_of_nth M(2) intro!: nth_equalityI)
  have t: "take 11 (m ! row) = subslice (row * 11) (row * 11 + 11) ?bits" if "row < 2" for row
    using that R(3) [of row] by (simp add: m)
  have t': "take 10 (m ! row) = subslice (22 + (row - 2) * 10) (22 + (row - 2) * 10 + 10) ?bits"
    "m ! row ! 10 = drop_bit (4 - (row - 2)) cs AND 1" if "2 \<le> row" "row < 7" for row
  proof -
    have e: "take 11 (m ! row) = subslice (22 + (row - 2) * 10) (22 + (row - 2) * 10 + 10) ?bits @ [drop_bit (4 - (row - 2)) cs AND 1]"
      using that R(3) [of row] by (simp add: m)
    have n: "length (subslice (22 + (row - 2) * 10) (22 + (row - 2) * 10 + 10) ?bits) = 10" using that b by simp
    have "take 10 (m ! row) = take 10 (take 11 (m ! row))" "m ! row ! 10 = take 11 (m ! row) ! 10" by simp_all
    then show "take 10 (m ! row) = subslice (22 + (row - 2) * 10) (22 + (row - 2) * 10 + 10) ?bits"
      "m ! row ! 10 = drop_bit (4 - (row - 2)) cs AND 1" unfolding e using n by (simp_all add: nth_append)
  qed
  have "concat (map (\<lambda>row. take 11 (m ! row)) [0..<2]) @ concat (map (\<lambda>row. take 10 (m ! row)) [2..<7]) =
      concat (map (\<lambda>row. subslice (row * 11) (row * 11 + 11) ?bits) [0..<2]) @
      concat (map (\<lambda>row. subslice (22 + (row - 2) * 10) (22 + (row - 2) * 10 + 10) ?bits) [2..<7])"
    by (intro arg_cong2 [of _ _ _ _ "(@)"] arg_cong [of _ _ concat] map_cong refl) (simp add: t, rule t'(1), simp_all only: set_upt atLeastLessThan_iff)
  then have bits: "concat (map (\<lambda>row. take 11 (m ! row)) [0..<2]) @ concat (map (\<lambda>row. take 10 (m ! row)) [2..<7]) = ?bits"
    using subslices_of_bits [OF b(1)] by simp
  have "map (\<lambda>row. m ! row ! 10) [2..<7] = map (\<lambda>row. drop_bit (4 - (row - 2)) cs AND 1) [2..<7]" by (simp add: t')
  also have "\<dots> = unpack_word cs 5" by (simp add: unpack_word_def upt_rec)
  finally have "foldl (\<lambda>cs row. push_bit 1 cs OR m ! row ! 10) 0 [2..<7] = cs" by (rule five_bits [OF small])
  moreover have "pack_octets (\<lambda>b. b = 1) LinkControlBytes ?bits = lc"
    using l by (intro octets_eqI) (auto simp: nth_bit LinkControlBytes_def)
  ultimately show "DecodeEmbeddedLC fragments = Some lc"
    unfolding DecodeEmbeddedLC_def f EmbeddedLCFragmentBits_def fragments_columns [OF sq] m_def [symmetric] Let_def bits using cs by simp
qed

lemma EncodeEmbeddedLC_total: "length lc = 9 \<Longrightarrow> \<exists>fragments. EncodeEmbeddedLC lc = Some fragments"
  by (simp add: EncodeEmbeddedLC_def EmbeddedLCChecksum_def LinkControlBytes_def Let_def)

lemma embedded_middles_split:
  assumes "cc \<le> 15" "i + length fragments \<le> 5"
  obtains ms where "embedded_middles i cc fragments = Some ms" "map (snd \<circ> SplitMiddle) ms = fragments"
    "\<forall>k < length fragments. (case SplitMiddle (ms ! k) of (emb, _) \<Rightarrow>
       ValidEMB emb \<and> ColourCodeOf emb = cc \<and> LCSSForPosition (int (i + k) + 1) = Some (LCSSOf emb))"
  using assms
proof (induction fragments arbitrary: i thesis)
  case (Cons f fs)
  have "i < 5" using Cons.prems(3) by simp
  then have "int i + 1 \<in> {1, 2, 3, 4, 5}" by auto
  then obtain lcss where lcss: "LCSSForPosition (int i + 1) = Some lcss" "\<not> 3 < lcss" "int i + 1 \<noteq> 0"
    by (auto simp: LCSSForPosition_def LCSSFirst_def LCSSContinuation_def LCSSLast_def LCSSSingle_def)
  obtain emb where emb: "EMBFor cc lcss = Some emb" using assms(1) lcss(2) by (auto simp: EMBFor_def Let_def not_less)
  have mid: "MiddleForPosition (int i + 1) cc f = Some (EmbeddedMiddle emb f)"
    using lcss emb by (simp add: MiddleForPosition_def)
  obtain ms where ms: "embedded_middles (Suc i) cc fs = Some ms" "map (snd \<circ> SplitMiddle) ms = fs"
    "\<forall>k < length fs. (case SplitMiddle (ms ! k) of (emb, _) \<Rightarrow>
       ValidEMB emb \<and> ColourCodeOf emb = cc \<and> LCSSForPosition (int (Suc i + k) + 1) = Some (LCSSOf emb))"
    by (rule Cons.IH [of "Suc i"]) (use Cons.prems(2,3) in simp_all)
  show ?case
  proof (rule Cons.prems(1))
    show "embedded_middles i cc (f # fs) = Some (EmbeddedMiddle emb f # ms)" using mid ms(1) by simp
    show "map (snd \<circ> SplitMiddle) (EmbeddedMiddle emb f # ms) = f # fs" using ms(2) by (simp add: SplitMiddle_EmbeddedMiddle)
    show "\<forall>k < length (f # fs). (case SplitMiddle ((EmbeddedMiddle emb f # ms) ! k) of (emb, _) \<Rightarrow>
       ValidEMB emb \<and> ColourCodeOf emb = cc \<and> LCSSForPosition (int (i + k) + 1) = Some (LCSSOf emb))"
      using ms(3) lcss(1) EMBFor_valid [OF emb]
      by (auto simp: nth_Cons SplitMiddle_EmbeddedMiddle split: nat.splits)
  qed
qed simp

text \<open>C37: A Link Control carried over a superframe arrives: the four middles that \<open>EmbeddedLCMiddles\<close> makes
  split into valid EMBs that say the colour code and the burst's place in the superframe, and fragments
  from which \<open>DecodeEmbeddedLC\<close> reads the Link Control that was sent.\<close>

theorem embedded_lc_roundtrip:
  assumes "length lc = 9" "cc \<le> 15"
  shows "\<exists>ms. EmbeddedLCMiddles lc cc = Some ms \<and> length ms = 4 \<and>
    (\<forall>k < 4. case SplitMiddle (ms ! k) of (emb, _) \<Rightarrow>
       ValidEMB emb \<and> ColourCodeOf emb = cc \<and> LCSSForPosition (int k + 1) = Some (LCSSOf emb)) \<and>
    DecodeEmbeddedLC (map (snd \<circ> SplitMiddle) ms) = Some lc"
proof -
  obtain fs where f: "EncodeEmbeddedLC lc = Some fs" using EncodeEmbeddedLC_total [OF assms(1)] by blast
  note d = DecodeEmbeddedLC_EncodeEmbeddedLC [OF f]
  obtain ms where ms: "embedded_middles 0 cc fs = Some ms" "map (snd \<circ> SplitMiddle) ms = fs"
    "\<forall>k < length fs. (case SplitMiddle (ms ! k) of (emb, _) \<Rightarrow>
       ValidEMB emb \<and> ColourCodeOf emb = cc \<and> LCSSForPosition (int (0 + k) + 1) = Some (LCSSOf emb))"
    by (rule embedded_middles_split [OF assms(2), of 0 fs]) (simp add: d(1))
  have "length ms = 4" using arg_cong [OF ms(2), of length] d(1) by simp
  then show ?thesis using f ms d by (intro exI [of _ ms]) (simp add: EmbeddedLCMiddles_def)
qed

theorem embedded_lc_roundtrip_witness:
  "\<exists>ms. EmbeddedLCMiddles (LinkControlFor 91 3120001 False) 11 = Some ms \<and>
    DecodeEmbeddedLC (map (snd \<circ> SplitMiddle) ms) = Some (LinkControlFor 91 3120001 False)"
  using embedded_lc_roundtrip [of "LinkControlFor 91 3120001 False" 11] by (auto simp: LinkControlFor_def)

end
