(* ===== verification/Crc.thy ===== *)
theory Crc
  imports Dmr_Bits
begin

text \<open>
  Cyclic redundancy checks as the code computes them: an octet is added to the top of the register,
  which is then shifted eight times and reduced by the generator whenever its top bit falls out.  The
  locale \<open>crc_register\<close> holds for every register width and every generator with a constant term: the register
  is a linear function of what was fed, no shift loses information, and so two messages that differ
  only within as many adjacent octets as the register holds never leave the same register.
\<close>

definition crc_bit :: "'a::len word \<Rightarrow> 'a word \<Rightarrow> 'a word" where
  "crc_bit poly r = (if bit r (LENGTH('a) - 1) then push_bit 1 r XOR poly else push_bit 1 r)"

definition crc_octet :: "'a::len word \<Rightarrow> byte \<Rightarrow> 'a word \<Rightarrow> 'a word" where
  "crc_octet poly b r = (crc_bit poly ^^ 8) (r XOR push_bit (LENGTH('a) - 8) (ucast b))"

text \<open>The octets of a message as one word, the first of them the most significant.\<close>

definition be_word :: "byte list \<Rightarrow> 'a::len word" where
  "be_word os = fold (\<lambda>b w. push_bit 8 w XOR ucast b) os 0"

lemma be_word_Nil [simp]: "be_word [] = 0"
  by (simp add: be_word_def)

lemma be_word_snoc: "be_word (os @ [x]) = push_bit 8 (be_word os) XOR ucast x"
  by (simp add: be_word_def)

lemma word_xor_cancel: "a XOR (a XOR b) = b" "(a XOR b) XOR b = a" "a XOR b = 0 \<longleftrightarrow> a = b" for a b :: "'a::len word"
proof -
  show *: "a XOR (a XOR b) = b" "(a XOR b) XOR b = a" for a b :: "'a word" by (simp flip: xor.assoc, simp add: xor.assoc)
  show "a XOR b = 0 \<longleftrightarrow> a = b" using *(2) [of a b] by auto
qed

lemma crc_bit_xor: "crc_bit poly (a XOR b) = crc_bit poly a XOR crc_bit poly b"
  by (auto simp: crc_bit_def bit_xor_iff push_bit_xor word_xor_cancel ac_simps)

lemma crc_bits_xor: "(crc_bit poly ^^ n) (a XOR b) = (crc_bit poly ^^ n) a XOR (crc_bit poly ^^ n) b"
  by (induction n) (simp_all add: crc_bit_xor)

lemma crc_octet_xor: "crc_octet poly (a XOR b) (r XOR s) = crc_octet poly a r XOR crc_octet poly b s"
proof -
  have "ucast (a XOR b) = (ucast a XOR ucast b :: 'a::len word)" by (rule bit_word_eqI) (simp add: bit_simps)
  then show ?thesis by (simp add: crc_octet_def push_bit_xor crc_bits_xor ac_simps)
qed

text \<open>Bits that do not reach the top are only shifted.\<close>

lemma crc_bits_small: "n + m \<le> LENGTH('a) \<Longrightarrow> take_bit m r = r \<Longrightarrow> (crc_bit poly ^^ n) r = push_bit n (r :: 'a::len word)"
proof (induction n)
  case (Suc n)
  have "\<not> bit (push_bit n r) (LENGTH('a) - 1)"
    using Suc.prems bit_small [of r _ m] by (auto simp: bit_push_bit_iff dest!: bit_small [OF _ Suc.prems(2)])
  then have "crc_bit poly (push_bit n r) = push_bit 1 (push_bit n r)" by (simp only: crc_bit_def if_False)
  then show ?case using Suc by (simp add: push_bit_push_bit del: push_bit_Suc)
qed simp

locale crc_register =
  fixes poly :: "'a::len word"
  assumes odd_poly: "bit poly 0"
begin

lemma crc_bit_inj: "crc_bit poly a = crc_bit poly b \<Longrightarrow> a = b"
proof -
  assume "crc_bit poly a = crc_bit poly b"
  then have z: "crc_bit poly (a XOR b) = 0" by (simp add: crc_bit_xor)
  let ?r = "a XOR b"
  have "\<not> bit ?r (LENGTH('a) - 1)"
  proof
    assume t: "bit ?r (LENGTH('a) - 1)"
    then have "push_bit 1 ?r XOR poly = 0" using z by (simp only: crc_bit_def if_True)
    then have "\<not> bit (push_bit 1 ?r XOR poly) 0" by (metis bit_0_eq bot_apply bot_bool_def)
    then show False using odd_poly unfolding bit_xor_iff bit_push_bit_iff by simp
  qed
  then have top: "\<not> bit ?r (LENGTH('a) - 1)" "push_bit 1 ?r = 0" using z by (simp, simp only: crc_bit_def if_False)
  have "?r = 0"
  proof (rule bit_word_eqI)
    fix n assume n: "n < LENGTH('a)"
    have "\<not> bit (push_bit 1 ?r) (Suc n)" using top(2) by (metis bit_0_eq bot_apply bot_bool_def)
    then show "bit ?r n = bit 0 n" using n top(1) unfolding bit_push_bit_iff by (cases "Suc n < LENGTH('a)") (auto simp: not_less le_Suc_eq)
  qed
  then show "a = b" by (simp add: word_xor_cancel)
qed

lemma crc_bits_inj: "(crc_bit poly ^^ n) a = (crc_bit poly ^^ n) b \<Longrightarrow> a = b"
  by (induction n) (auto dest: crc_bit_inj)

lemma crc_octet_inj: "crc_octet poly x a = crc_octet poly x b \<Longrightarrow> a = b"
  unfolding crc_octet_def by (drule crc_bits_inj) (metis word_xor_cancel(2))

lemma crc_octets_inj: "fold (crc_octet poly) os a = fold (crc_octet poly) os b \<Longrightarrow> a = b"
  by (induction os arbitrary: a b) (auto dest: crc_octet_inj)

text \<open>Feeding as many octets as fit the register is adding them all at once and shifting.\<close>

lemma be_word_small: "8 * length os \<le> LENGTH('a) \<Longrightarrow> take_bit (8 * length os) (be_word os :: 'a word) = be_word os"
proof (induction os rule: rev_induct)
  case (snoc x os)
  then have IH: "take_bit (8 * length os) (be_word os :: 'a word) = be_word os" by simp
  show ?case unfolding be_word_snoc
    by (rule bit_word_eqI) (auto simp: bit_simps dest: bit_small [OF _ IH] bit_imp_le_length)
qed simp

lemma crc_octets_once:
  "8 * length os \<le> LENGTH('a) \<Longrightarrow>
   fold (crc_octet poly) os r = (crc_bit poly ^^ (8 * length os)) (r XOR push_bit (LENGTH('a) - 8 * length os) (be_word os))"
proof (induction os rule: rev_induct)
  case Nil
  then show ?case by simp
next
  case (snoc x os)
  let ?n = "length os" and ?L = "LENGTH('a)"
  let ?x = "push_bit (?L - 8) (ucast x) :: 'a word" and ?w = "push_bit (?L - 8 * ?n) (be_word os) :: 'a word"
  have len: "8 * ?n + 8 \<le> ?L" using snoc.prems by simp
  let ?y = "push_bit (?L - 8 * Suc ?n) (ucast x) :: 'a word"
  have u: "take_bit 8 (ucast x :: 'a word) = ucast x" by (rule bit_word_eqI) (auto simp: bit_simps dest: bit_imp_le_length)
  have "take_bit (?L - 8 * ?n) ?y = ?y"
    using len by (intro bit_word_eqI) (auto simp: bit_simps dest: bit_imp_le_length)
  then have "(crc_bit poly ^^ (8 * ?n)) ?y = push_bit (8 * ?n) ?y" using len by (intro crc_bits_small) simp_all
  moreover have "push_bit (8 * ?n) ?y = ?x" using len by (simp add: push_bit_push_bit)
  ultimately have x: "?x = (crc_bit poly ^^ (8 * ?n)) ?y" by simp
  have w: "push_bit (?L - 8 * Suc ?n) (be_word (os @ [x]) :: 'a word) = ?w XOR ?y"
    using len by (simp add: be_word_snoc push_bit_xor push_bit_push_bit)
  have "fold (crc_octet poly) (os @ [x]) r = (crc_bit poly ^^ 8) ((crc_bit poly ^^ (8 * ?n)) (r XOR ?w) XOR (crc_bit poly ^^ (8 * ?n)) ?y)"
    using snoc.IH len by (simp add: crc_octet_def [of poly x] x)
  also have "\<dots> = (crc_bit poly ^^ (8 + 8 * ?n)) (r XOR (?w XOR ?y))"
    by (simp only: crc_bits_xor [symmetric] funpow_add comp_apply xor.assoc)
  finally show ?case by (simp only: length_append_singleton w) (simp only: mult_Suc_right)
qed

lemma be_word_inj:
  "8 * length os \<le> LENGTH('a) \<Longrightarrow> length os = length os' \<Longrightarrow> (be_word os :: 'a word) = be_word os' \<Longrightarrow> os = os'"
proof (induction os arbitrary: os' rule: rev_induct)
  case (snoc x os)
  then obtain ys y where ys: "os' = ys @ [y]" "length ys = length os" by (metis append_butlast_last_id length_0_conv length_append_singleton nat.simps(3) diff_Suc_1 length_butlast)
  let ?a = "be_word os :: 'a word" and ?b = "be_word ys :: 'a word"
  have eq: "push_bit 8 ?a XOR ucast x = push_bit 8 ?b XOR ucast y" using snoc.prems(3) by (simp only: ys be_word_snoc)
  have len: "8 * length os + 8 \<le> LENGTH('a)" using snoc.prems(1) by simp
  note sm = be_word_small [of os] be_word_small [of ys]
  have b: "bit (push_bit 8 a XOR ucast z :: 'a word) n \<longleftrightarrow> n < LENGTH('a) \<and> (if n < 8 then bit z n else bit a (n - 8))" for a :: "'a word" and z :: byte and n
    by (auto simp: bit_simps dest: bit_imp_le_length)
  have "x = y"
  proof (rule bit_word_eqI)
    fix n :: nat assume "n < LENGTH(8)"
    then show "bit x n = bit y n" using len arg_cong [OF eq, of "\<lambda>w. bit w n"] unfolding b by simp
  qed
  moreover have "?a = ?b"
  proof (rule bit_word_eqI)
    fix n
    have "bit ?a n \<Longrightarrow> n < 8 * length os" "bit ?b n \<Longrightarrow> n < 8 * length os"
      using sm len ys(2) bit_small [of ?a n] bit_small [of ?b n] by simp_all
    moreover have "bit ?a n = bit ?b n" if "n < 8 * length os"
      using arg_cong [OF eq, of "\<lambda>w. bit w (n + 8)"] len that unfolding b by simp
    ultimately show "bit ?a n = bit ?b n" by blast
  qed
  moreover have "os = ys" by (rule snoc.IH) (use len ys(2) \<open>?a = ?b\<close> in simp_all)
  ultimately show ?case by (simp only: ys(1))
qed simp

lemma push_be_inj:
  assumes "8 * length os \<le> LENGTH('a)" "length os = length os'"
    "push_bit (LENGTH('a) - 8 * length os) (be_word os :: 'a word) = push_bit (LENGTH('a) - 8 * length os) (be_word os')"
  shows "os = os'"
proof (rule be_word_inj [OF assms(1,2)], rule bit_word_eqI)
  fix n
  show "bit (be_word os :: 'a word) n = bit (be_word os' :: 'a word) n"
  proof (cases "n < 8 * length os")
    case True
    then have "LENGTH('a) - 8 * length os \<le> n + (LENGTH('a) - 8 * length os)" "n + (LENGTH('a) - 8 * length os) < LENGTH('a)"
      using assms(1) by linarith+
    then show ?thesis using arg_cong [OF assms(3), of "\<lambda>w. bit w (n + (LENGTH('a) - 8 * length os))"]
      by (simp only: bit_push_bit_iff) simp
  next
    case False
    then show ?thesis using be_word_small [of os] be_word_small [of os'] assms(1,2) by (auto dest: bit_small)
  qed
qed

text \<open>Two messages that differ only within a stretch that fits the register leave different registers.\<close>

lemma burst_detected:
  assumes "8 * length os \<le> LENGTH('a)" "length os = length os'" "os \<noteq> os'"
  shows "fold (crc_octet poly) (xs @ os @ ys) r \<noteq> fold (crc_octet poly) (xs @ os' @ ys) r"
proof
  assume "fold (crc_octet poly) (xs @ os @ ys) r = fold (crc_octet poly) (xs @ os' @ ys) r"
  then have "fold (crc_octet poly) os (fold (crc_octet poly) xs r) = fold (crc_octet poly) os' (fold (crc_octet poly) xs r)"
    by (auto dest: crc_octets_inj)
  then have "push_bit (LENGTH('a) - 8 * length os) (be_word os :: 'a word) = push_bit (LENGTH('a) - 8 * length os) (be_word os')"
    using assms(1,2) by (simp only: crc_octets_once) (metis crc_bits_inj word_xor_cancel(1))
  then show False using push_be_inj assms by blast
qed

end

end
