(* ===== verification/Control_Blocks.thy ===== *)
theory Control_Blocks
  imports Crc Data_Burst
begin

text \<open>
  \<^verbatim>\<open>internal/dmrfec/csbk.go\<close> and \<^verbatim>\<open>internal/dmrfec/dataheader.go\<close>: the control blocks of twelve octets that open
  a text message, a preamble and a data header, each closed by a masked CRC-CCITT.  \<open>None\<close> is the code's
  error.  What is built parses back, and a block that was changed within two adjacent octets is refused.
\<close>

section \<open>csbk.go\<close>

definition csbkOpcodeMask :: byte where
  "csbkOpcodeMask = 0x3F"

definition CSBKPreamble :: byte where
  "CSBKPreamble = 61"

definition CSBKFeatureStandard :: byte where
  "CSBKFeatureStandard = 0"

definition CSBKBytes :: nat where
  "CSBKBytes = 12"

definition csbkLastBlock :: byte where
  "csbkLastBlock = 0x80"

definition csbkPreambleData :: byte where
  "csbkPreambleData = 0x80"

definition csbkPreambleGroup :: byte where
  "csbkPreambleGroup = 0x40"

definition csbkCRCMask :: u16 where
  "csbkCRCMask = 0x5A5A"

definition DataTypeCSBK :: byte where
  "DataTypeCSBK = 0x3"

record CSBK =
  csbk_Opcode :: byte
  csbk_FeatureID :: byte
  csbk_LastBlock :: bool
  csbk_DataFollows :: bool

definition IsPreamble :: "CSBK \<Rightarrow> bool" where
  "IsPreamble c \<longleftrightarrow> csbk_Opcode c = CSBKPreamble \<and> csbk_FeatureID c = CSBKFeatureStandard"

definition CSBKOf :: "byte list \<Rightarrow> CSBK option" where
  "CSBKOf burst =
     (case DecodeBPTC burst of None \<Rightarrow> None
      | Some (payload, _) \<Rightarrow>
          let block = BurstBytesFrom payload
          in if length block < 3 then None
             else Some \<lparr>csbk_Opcode = block ! 0 AND csbkOpcodeMask, csbk_FeatureID = block ! 1,
                        csbk_LastBlock = (block ! 0 AND 0x80 \<noteq> 0), csbk_DataFollows = (block ! 2 AND csbkPreambleData \<noteq> 0)\<rparr>)"

definition ccitt_step :: "u16 \<Rightarrow> u16" where
  "ccitt_step reg = (if reg AND 0x8000 \<noteq> 0 then push_bit 1 reg XOR 0x1021 else push_bit 1 reg)"

definition ccitt16 :: "byte list \<Rightarrow> u16" where
  "ccitt16 b = fold (\<lambda>x reg. (ccitt_step ^^ 8) (reg XOR push_bit 8 (ucast x))) b 0"

definition CSBKCRC :: "byte list \<Rightarrow> u16 option" where
  "CSBKCRC block =
     (if length block < CSBKBytes - 2 then None else Some (ccitt16 (take (CSBKBytes - 2) block) XOR csbkCRCMask))"

record Preamble =
  pre_BlocksToFollow :: byte
  pre_To :: u32
  pre_From :: u32
  pre_Group :: bool

definition BuildPreamble :: "Preamble \<Rightarrow> byte list option" where
  "BuildPreamble p =
     (if pre_To p > 0xFFFFFF \<or> pre_From p > 0xFFFFFF then None
      else
        let b = [csbkLastBlock OR CSBKPreamble, CSBKFeatureStandard,
                 if pre_Group p then csbkPreambleData OR csbkPreambleGroup else csbkPreambleData,
                 pre_BlocksToFollow p] @ put24 (pre_To p) @ put24 (pre_From p) @ [0, 0]
        in (case CSBKCRC b of None \<Rightarrow> None
            | Some crc \<Rightarrow> Some (take (CSBKBytes - 2) b @ put16 crc)))"

definition ParsePreamble :: "byte list \<Rightarrow> Preamble option" where
  "ParsePreamble block =
     (if length block \<noteq> CSBKBytes then None
      else
        (case CSBKCRC block of None \<Rightarrow> None
         | Some want \<Rightarrow>
             let got = get16 (drop (CSBKBytes - 2) block);
                 c = \<lparr>csbk_Opcode = block ! 0 AND csbkOpcodeMask, csbk_FeatureID = block ! 1,
                      csbk_LastBlock = (block ! 0 AND csbkLastBlock \<noteq> 0), csbk_DataFollows = False\<rparr>
             in if got \<noteq> want then None
                else if \<not> IsPreamble c then None
                else Some \<lparr>pre_BlocksToFollow = block ! 3, pre_To = get24 (drop 4 block), pre_From = get24 (drop 7 block),
                           pre_Group = (block ! 2 AND csbkPreambleGroup \<noteq> 0)\<rparr>))"

section \<open>dataheader.go\<close>

definition dataHeaderBytes :: nat where
  "dataHeaderBytes = 12"

definition dataHeaderCRCMask :: u16 where
  "dataHeaderCRCMask = 0x3333"

definition dpfConfirmedData :: byte where
  "dpfConfirmedData = 0x3"

definition dpfUnconfirmedData :: byte where
  "dpfUnconfirmedData = 0x2"

definition headerBitA :: byte where
  "headerBitA = 0x40"

definition headerBitGroup :: byte where
  "headerBitGroup = 0x80"

definition headerBitFull :: byte where
  "headerBitFull = 0x80"

definition fragmentLast :: byte where
  "fragmentLast = 0x8"

record DataHeader =
  dh_To :: u32
  dh_From :: u32
  dh_Group :: bool
  dh_Response :: bool
  dh_SAP :: byte
  dh_Blocks :: byte
  dh_Pad :: byte
  dh_SendSeq :: byte
  dh_Confirmed :: bool

definition DataHeaderCRC :: "byte list \<Rightarrow> u16 option" where
  "DataHeaderCRC head =
     (if length head < dataHeaderBytes - 2 then None
      else Some (ccitt16 (take (dataHeaderBytes - 2) head) XOR dataHeaderCRCMask))"

definition BuildDataHeader :: "DataHeader \<Rightarrow> byte list option" where
  "BuildDataHeader h =
     (if dh_Blocks h = 0 \<or> dh_Blocks h > 0x0F then None
      else if dh_Pad h > 0x0F then None
      else if dh_SAP h > 0x0F then None
      else if dh_SendSeq h > 0x7 then None
      else if dh_To h > 0xFFFFFF \<or> dh_From h > 0xFFFFFF then None
      else
        let o0 = (if dh_Confirmed h then dpfConfirmedData else dpfUnconfirmedData);
            o0 = (if dh_Response h then o0 OR headerBitA else o0);
            o0 = (if dh_Group h then o0 OR headerBitGroup else o0);
            out = [o0, push_bit 4 (dh_SAP h) OR dh_Pad h] @ put24 (dh_To h) @ put24 (dh_From h) @
                  [headerBitFull OR dh_Blocks h, if dh_Confirmed h then push_bit 4 (dh_SendSeq h) OR fragmentLast else 0, 0, 0]
        in (case DataHeaderCRC out of None \<Rightarrow> None
            | Some crc \<Rightarrow> Some (take (dataHeaderBytes - 2) out @ put16 crc)))"

definition ParseDataHeader :: "byte list \<Rightarrow> DataHeader option" where
  "ParseDataHeader block =
     (if length block \<noteq> dataHeaderBytes then None
      else
        (case DataHeaderCRC block of None \<Rightarrow> None
         | Some crc \<Rightarrow>
             let stored = get16 (drop (dataHeaderBytes - 2) block); dpf = block ! 0 AND 0x0F
             in if stored \<noteq> crc then None
                else if dpf \<noteq> dpfConfirmedData \<and> dpf \<noteq> dpfUnconfirmedData then None
                else Some \<lparr>dh_To = get24 (drop 2 block), dh_From = get24 (drop 5 block),
                           dh_Group = (block ! 0 AND headerBitGroup \<noteq> 0), dh_Response = (block ! 0 AND headerBitA \<noteq> 0),
                           dh_SAP = drop_bit 4 (block ! 1), dh_Blocks = block ! 8 AND 0x0F, dh_Pad = block ! 1 AND 0x0F,
                           dh_SendSeq = drop_bit 4 (block ! 9) AND 0x7, dh_Confirmed = (dpf = dpfConfirmedData)\<rparr>))"

section \<open>The check detects a burst of wrong octets\<close>

interpretation ccitt: crc_register "0x1021 :: u16"
  by unfold_locales simp

lemma ccitt16_crc: "ccitt16 b = fold (crc_octet 0x1021) b 0"
proof -
  have "ccitt_step = crc_bit 0x1021"
  proof
    fix r :: u16
    have "(0x8000 :: u16) = push_bit 15 1" by simp
    then have "(r AND 0x8000 \<noteq> 0) \<longleftrightarrow> bit r 15" by (simp only: and_push_bit_iff)
    then show "ccitt_step r = crc_bit 0x1021 r" unfolding ccitt_step_def crc_bit_def by simp
  qed
  then have "(\<lambda>x reg. (ccitt_step ^^ 8) (reg XOR push_bit 8 (ucast x))) = crc_octet 0x1021"
    by (intro ext) (simp add: crc_octet_def)
  then show ?thesis by (simp only: ccitt16_def)
qed

text \<open>A block whose check agrees leaves a register that depends on the mask alone.\<close>

lemma checked_block:
  assumes "length block = 12"
  shows "get16 (drop 10 block) = ccitt16 (take 10 block) XOR m \<longleftrightarrow> ccitt16 block = (crc_bit 0x1021 ^^ 16) m"
proof -
  obtain x y where d: "drop 10 block = [x, y]" using assms list_of_length(1) [of "drop 10 block"] by auto
  have b: "block = take 10 block @ [x, y]" using d by (metis append_take_drop_id)
  have "be_word [x, y] = get16 [x, y]"
    unfolding get16_def by (rule bit_word_eqI) (auto simp: be_word_def bit_simps)
  then have "ccitt16 block = (crc_bit 0x1021 ^^ 16) (ccitt16 (take 10 block) XOR get16 [x, y])"
    using ccitt.crc_octets_once [of "[x, y]" "ccitt16 (take 10 block)"]
    by (subst b) (simp only: ccitt16_crc fold_append comp_apply, simp add: ccitt16_crc)
  then have "ccitt16 block = (crc_bit 0x1021 ^^ 16) m \<longleftrightarrow> ccitt16 (take 10 block) XOR get16 [x, y] = m"
    using ccitt.crc_bits_inj by metis
  then show ?thesis unfolding d by (metis word_xor_cancel(1) word_xor_cancel(2) xor.commute)
qed

lemma ParsePreamble_checked: "ParsePreamble block = Some p \<Longrightarrow> length block = 12 \<and> ccitt16 block = (crc_bit 0x1021 ^^ 16) csbkCRCMask"
  using checked_block [of block csbkCRCMask]
  by (auto simp: ParsePreamble_def CSBKBytes_def CSBKCRC_def Let_def split: if_splits)

lemma ParseDataHeader_checked: "ParseDataHeader block = Some h \<Longrightarrow> length block = 12 \<and> ccitt16 block = (crc_bit 0x1021 ^^ 16) dataHeaderCRCMask"
  using checked_block [of block dataHeaderCRCMask]
  by (auto simp: ParseDataHeader_def dataHeaderBytes_def DataHeaderCRC_def Let_def split: if_splits)

lemma ccitt16_burst:
  assumes "length os = length os'" "length os \<le> 2" "os \<noteq> os'"
  shows "ccitt16 (xs @ os @ ys) \<noteq> ccitt16 (xs @ os' @ ys)"
  unfolding ccitt16_crc using assms by (intro ccitt.burst_detected) simp_all

text \<open>A preamble or a data header that parses no longer parses once one octet, or two adjacent ones,
  were changed, wherever they stand in the block and whatever they became, the check octets included.\<close>

lemma control_block_burst_detected:
  assumes "length os = length os'" "length os \<le> 2" "os \<noteq> os'"
  shows "(ParsePreamble (xs @ os @ ys) \<noteq> None \<longrightarrow> ParsePreamble (xs @ os' @ ys) = None) \<and>
    (ParseDataHeader (xs @ os @ ys) \<noteq> None \<longrightarrow> ParseDataHeader (xs @ os' @ ys) = None)"
proof -
  have "ParsePreamble a = None \<or> ParsePreamble b = None" "ParseDataHeader a = None \<or> ParseDataHeader b = None"
    if "ccitt16 a \<noteq> ccitt16 b" for a b
    using that ParsePreamble_checked [of a] ParsePreamble_checked [of b] ParseDataHeader_checked [of a] ParseDataHeader_checked [of b]
    by (metis not_Some_eq)+
  from this [OF ccitt16_burst [OF assms, of xs ys]] show ?thesis by argo
qed

section \<open>What is built parses\<close>

lemma id24: "\<not> (0xFFFFFF < w) \<longleftrightarrow> take_bit 24 w = w" for w :: u32
  unfolding small_unat [symmetric] word_less_nat_alt by simp linarith

lemma get24_put24_id: "\<not> (0xFFFFFF < w) \<Longrightarrow> get24 (put24 w @ b) = w"
  by (simp add: get24_put24 id24)

lemma preamble_parses:
  assumes "BuildPreamble p = Some b"
  shows "ParsePreamble b = Some p" "length b = 12" "b ! 0 = 0xBD" "b ! 1 = 0" "b ! 2 AND 0x80 \<noteq> 0"
proof -
  have r: "\<not> 0xFFFFFF < pre_To p" "\<not> 0xFFFFFF < pre_From p" using assms by (auto simp: BuildPreamble_def split: if_splits)
  let ?h = "[csbkLastBlock OR CSBKPreamble, CSBKFeatureStandard,
     if pre_Group p then csbkPreambleData OR csbkPreambleGroup else csbkPreambleData, pre_BlocksToFollow p]"
  let ?d = "?h @ put24 (pre_To p) @ put24 (pre_From p)"
  have b: "b = ?d @ put16 (ccitt16 ?d XOR csbkCRCMask)"
    using assms r by (simp add: BuildPreamble_def CSBKCRC_def CSBKBytes_def Let_def)
  then show l: "length b = 12" "b ! 0 = 0xBD" "b ! 1 = 0" "b ! 2 AND 0x80 \<noteq> 0"
    by (simp_all add: csbkLastBlock_def CSBKPreamble_def CSBKFeatureStandard_def csbkPreambleData_def csbkPreambleGroup_def)
  have "take 10 b = ?d" "drop 10 b = put16 (ccitt16 ?d XOR csbkCRCMask)" "drop 4 b = put24 (pre_To p) @ drop 7 b"
    "drop 7 b = put24 (pre_From p) @ drop 10 b" "b ! 3 = pre_BlocksToFollow p" "b ! 2 = ?h ! 2"
    by (simp_all add: b)
  then show "ParsePreamble b = Some p"
    using l r get16_put16 [of "ccitt16 ?d XOR csbkCRCMask" "[]"]
    by (simp add: ParsePreamble_def CSBKBytes_def CSBKCRC_def Let_def IsPreamble_def csbkOpcodeMask_def CSBKPreamble_def
        CSBKFeatureStandard_def get24_put24_id csbkPreambleData_def csbkPreambleGroup_def)
qed

lemma IsPreamble_burst:
  assumes "BuildPreamble p = Some b" "cc \<le> 15"
  obtains burst c where "BuildDataBurstFromBlock cc DataTypeCSBK b = Some burst" "SlotTypeOf burst = Some (cc, DataTypeCSBK)"
    "CSBKOf burst = Some c" "IsPreamble c" "csbk_DataFollows c" "csbk_LastBlock c"
proof -
  note b = preamble_parses(2-) [OF assms(1)]
  have s: "take_bit 4 cc = cc" "take_bit 4 DataTypeCSBK = DataTypeCSBK"
    using assms(2) unfolding nibble [symmetric] DataTypeCSBK_def by auto
  have "length (BurstBitsFrom b) = 96" using b by simp
  from dataBurstFromPayload_readback [OF this is_bits_BurstBitsFrom s] obtain burst
    where burst: "dataBurstFromPayload cc DataTypeCSBK (BurstBitsFrom b) = Some burst" "SlotTypeOf burst = Some (cc, DataTypeCSBK)"
      "DecodeBPTC burst = Some (BurstBitsFrom b, 9)" by metis
  let ?o = "BurstBytesFrom (BurstBitsFrom b)"
  have l: "length ?o = 33" using b by simp
  have o: "?o ! i = b ! i" if "i < 12" for i
  proof (rule bit_word_eqI)
    fix n :: nat assume "n < LENGTH(8)"
    then have n: "n < 8" by simp
    have "8 * i + (7 - n) < 96" using that n by linarith
    then have "get_bit ?o (8 * i + (7 - n)) = get_bit b (8 * i + (7 - n))"
      using b(1) by (subst get_bit_BurstBytesFrom) (simp_all add: nth_BurstBitsFrom)
    moreover obtain m where m: "7 - n = m" "m < 8" "n = 7 - m" using n by fastforce
    have "get_bit xs (8 * i + (7 - n)) = bit (xs ! i) n" for xs unfolding m(1) using m(2) by (simp add: get_bit_def m(3))
    ultimately show "bit (?o ! i) n = bit (b ! i) n" by simp
  qed
  have "BuildDataBurstFromBlock cc DataTypeCSBK b = Some burst"
    using burst(1) b by (simp add: BuildDataBurstFromBlock_def LinkControlBlockBytes_def LinkControlBytes_def)
  moreover have "CSBKOf burst = Some \<lparr>csbk_Opcode = 61, csbk_FeatureID = 0, csbk_LastBlock = True, csbk_DataFollows = True\<rparr>"
    using l o b burst(3) by (simp add: CSBKOf_def Let_def csbkOpcodeMask_def csbkPreambleData_def)
  ultimately show ?thesis using that burst(2) by (auto simp: IsPreamble_def CSBKPreamble_def CSBKFeatureStandard_def)
qed

text \<open>A preamble that \<open>BuildPreamble\<close> lays out parses back to the same preamble, and the burst that carries
  it reads as a control block with the colour code it was sent with and is recognised as a preamble
  that announces data.\<close>

lemma preamble_roundtrip:
  assumes "BuildPreamble p = Some b" "cc \<le> 15"
  shows "ParsePreamble b = Some p \<and>
    (\<exists>burst c. BuildDataBurstFromBlock cc DataTypeCSBK b = Some burst \<and> SlotTypeOf burst = Some (cc, DataTypeCSBK) \<and>
       CSBKOf burst = Some c \<and> IsPreamble c \<and> csbk_DataFollows c)"
  using preamble_parses(1) [OF assms(1)] by (metis IsPreamble_burst [OF assms])

lemma preamble_roundtrip_witness:
  "ParsePreamble (the (BuildPreamble \<lparr>pre_BlocksToFollow = 21, pre_To = 91, pre_From = 3120001, pre_Group = True\<rparr>)) =
     Some \<lparr>pre_BlocksToFollow = 21, pre_To = 91, pre_From = 3120001, pre_Group = True\<rparr>"
  using preamble_roundtrip [of "\<lparr>pre_BlocksToFollow = 21, pre_To = 91, pre_From = 3120001, pre_Group = True\<rparr>" _ 1]
  by (simp add: BuildPreamble_def CSBKCRC_def CSBKBytes_def Let_def)

lemma three_bits: "\<not> (7 < b) \<longleftrightarrow> take_bit 3 b = b" for b :: byte
  unfolding small_unat [symmetric] word_less_nat_alt by simp linarith

lemma header_octets:
  fixes s p q :: byte
  assumes "take_bit 4 s = s" "take_bit 4 p = p" "take_bit 3 q = q"
  shows "drop_bit 4 (push_bit 4 s OR p) = s" "(push_bit 4 s OR p) AND 0x0F = p" "(0x80 OR p) AND 0x0F = p"
    "drop_bit 4 (push_bit 4 q OR 8) AND 7 = q"
proof -
  have m: "w AND 0x0F = take_bit 4 w" "w AND 7 = take_bit 3 w" for w :: byte by (simp_all add: take_bit_eq_mask mask_numeral)
  have c: "bit (0x80 :: byte) n \<longleftrightarrow> n = 7" "bit (8 :: byte) n \<longleftrightarrow> n = 3" for n
    using bit_push_bit_iff [of 7 "1 :: byte" n] bit_push_bit_iff [of 3 "1 :: byte" n] by (auto simp: bit_1_iff)
  show "drop_bit 4 (push_bit 4 s OR p) = s" "(push_bit 4 s OR p) AND 0x0F = p" "(0x80 OR p) AND 0x0F = p"
    "drop_bit 4 (push_bit 4 q OR 8) AND 7 = q"
    unfolding m by (rule bit_word_eqI; auto simp: bit_simps c dest: bit_small [OF _ assms(1)] bit_small [OF _ assms(2)] bit_small [OF _ assms(3)])+
qed

text \<open>\<open>BuildDataHeader\<close> refuses exactly the headers with a field that does not fit, and a header that it
  builds parses back to itself; only the send sequence number of an unconfirmed header, which has no place
  on the wire, comes back as zero.\<close>

lemma data_header_roundtrip:
  "case BuildDataHeader h of
     None \<Rightarrow> dh_Blocks h = 0 \<or> dh_Blocks h > 15 \<or> dh_Pad h > 15 \<or> dh_SAP h > 15 \<or> dh_SendSeq h > 7 \<or>
       dh_To h > 0xFFFFFF \<or> dh_From h > 0xFFFFFF
   | Some b \<Rightarrow> length b = 12 \<and> ParseDataHeader b = Some (if dh_Confirmed h then h else h\<lparr>dh_SendSeq := 0\<rparr>)"
proof (cases "BuildDataHeader h")
  case None
  then show ?thesis by (auto simp: BuildDataHeader_def DataHeaderCRC_def dataHeaderBytes_def Let_def split: if_splits)
next
  case (Some b)
  have r: "\<not> 0xFFFFFF < dh_To h" "\<not> 0xFFFFFF < dh_From h"
    "take_bit 4 (dh_Blocks h) = dh_Blocks h" "take_bit 4 (dh_Pad h) = dh_Pad h" "take_bit 4 (dh_SAP h) = dh_SAP h"
    "take_bit 3 (dh_SendSeq h) = dh_SendSeq h"
    using Some unfolding nibble [symmetric] three_bits [symmetric] by (auto simp: BuildDataHeader_def split: if_splits)
  define o0 where "o0 = (let o0 = (if dh_Confirmed h then dpfConfirmedData else dpfUnconfirmedData);
            o0 = (if dh_Response h then o0 OR headerBitA else o0) in (if dh_Group h then o0 OR headerBitGroup else o0))"
  have o0: "o0 AND 0x0F = (if dh_Confirmed h then 3 else 2)" "(o0 AND 0x80 \<noteq> 0) = dh_Group h" "(o0 AND 0x40 \<noteq> 0) = dh_Response h"
    by (simp_all add: o0_def Let_def dpfConfirmedData_def dpfUnconfirmedData_def headerBitA_def headerBitGroup_def)
  define s where "s = (if dh_Confirmed h then push_bit 4 (dh_SendSeq h) OR fragmentLast else 0)"
  have s: "drop_bit 4 s AND 7 = (if dh_Confirmed h then dh_SendSeq h else 0)"
    using header_octets(4) [OF r(3,3,6)] by (simp add: s_def fragmentLast_def)
  let ?d = "[o0, push_bit 4 (dh_SAP h) OR dh_Pad h] @ put24 (dh_To h) @ put24 (dh_From h) @ [headerBitFull OR dh_Blocks h, s]"
  have b: "b = ?d @ put16 (ccitt16 ?d XOR dataHeaderCRCMask)"
    using Some by (simp add: BuildDataHeader_def DataHeaderCRC_def dataHeaderBytes_def Let_def o0_def s_def split: if_splits)
  have "take 10 b = ?d" "drop 10 b = put16 (ccitt16 ?d XOR dataHeaderCRCMask)" "drop 2 b = put24 (dh_To h) @ drop 5 b"
    "drop 5 b = put24 (dh_From h) @ drop 8 b" "b ! 0 = o0" "b ! 1 = push_bit 4 (dh_SAP h) OR dh_Pad h"
    "b ! 8 = headerBitFull OR dh_Blocks h" "b ! 9 = s" "length b = 12"
    unfolding b by (simp_all add: nth_append put24_def)
  then show ?thesis using Some r(1,2) o0 s get16_put16 [of "ccitt16 ?d XOR dataHeaderCRCMask" "[]"]
      header_octets(1,2) [OF r(5,4,6)] header_octets(3) [OF r(5,3,6)]
    by (simp add: ParseDataHeader_def dataHeaderBytes_def DataHeaderCRC_def Let_def get24_put24_id dpfConfirmedData_def
        dpfUnconfirmedData_def headerBitGroup_def headerBitA_def headerBitFull_def)
qed

lemma control_block_burst_detected_witness:
  "(let b = the (BuildPreamble \<lparr>pre_BlocksToFollow = 21, pre_To = 91, pre_From = 3120001, pre_Group = True\<rparr>)
    in ParsePreamble (take 3 b @ [20] @ drop 4 b) = None)"
proof -
  let ?p = "\<lparr>pre_BlocksToFollow = 21, pre_To = 91, pre_From = 3120001, pre_Group = True\<rparr>"
  obtain b where b: "BuildPreamble ?p = Some b" by (simp add: BuildPreamble_def CSBKCRC_def CSBKBytes_def Let_def)
  note pp = preamble_parses [OF b]
  have "b ! 3 = 21" using pp(1,2) by (auto simp: ParsePreamble_def Let_def split: if_splits option.splits)
  then have e: "take 3 b @ [21] @ drop 4 b = b" using pp(2) id_take_nth_drop [of 3 b] by (simp add: numeral_eq_Suc)
  show ?thesis
    using control_block_burst_detected [of "[21]" "[20]" "take 3 b" "drop 4 b"] pp(1) unfolding e b by (simp add: Let_def)
qed

end
