(* ===== verification/Trellis.thy ===== *)
theory Trellis
  imports Bptc
begin

text \<open>
  \<^verbatim>\<open>internal/dmrfec/trellis.go\<close>: the Rate 3/4 trellis code of a data burst.  The encoder is a state machine
  whose state is its previous input; a dibit is a pair of bits, and the coded burst is a list of 98 of
  them in the order of the interleave.  Decoding inverts every step: what was encoded is read back.
\<close>

section \<open>Definitions\<close>

definition trellisTribits :: nat where
  "trellisTribits = 49"

definition trellisDibits :: nat where
  "trellisDibits = 98"

definition TrellisPayloadBytes :: nat where
  "TrellisPayloadBytes = 18"

definition trellisTransitions :: "byte list list" where
  "trellisTransitions =
    [[0, 8, 4, 12, 2, 10, 6, 14],
     [4, 12, 2, 10, 6, 14, 0, 8],
     [1, 9, 5, 13, 3, 11, 7, 15],
     [5, 13, 3, 11, 7, 15, 1, 9],
     [3, 11, 7, 15, 1, 9, 5, 13],
     [7, 15, 1, 9, 5, 13, 3, 11],
     [2, 10, 6, 14, 0, 8, 4, 12],
     [6, 14, 0, 8, 4, 12, 2, 10]]"

definition trellisPoints :: "byte list list" where
  "trellisPoints =
    [[0b00, 0b10], [0b10, 0b10], [0b01, 0b11], [0b11, 0b11],
     [0b11, 0b10], [0b01, 0b10], [0b10, 0b11], [0b00, 0b11],
     [0b11, 0b01], [0b01, 0b01], [0b10, 0b00], [0b00, 0b00],
     [0b00, 0b01], [0b10, 0b01], [0b01, 0b00], [0b11, 0b00]]"

definition trellisInterleave :: "nat list" where
  "trellisInterleave =
    [0, 1, 8, 9, 16, 17, 24, 25, 32, 33, 40, 41, 48, 49, 56, 57,
     64, 65, 72, 73, 80, 81, 88, 89, 96, 97,
     2, 3, 10, 11, 18, 19, 26, 27, 34, 35, 42, 43, 50, 51, 58, 59,
     66, 67, 74, 75, 82, 83, 90, 91,
     4, 5, 12, 13, 20, 21, 28, 29, 36, 37, 44, 45, 52, 53, 60, 61,
     68, 69, 76, 77, 84, 85, 92, 93,
     6, 7, 14, 15, 22, 23, 30, 31, 38, 39, 46, 47, 54, 55, 62, 63,
     70, 71, 78, 79, 86, 87, 94, 95]"

text \<open>The index at which a loop over a table stops.\<close>

fun first_match :: "('a \<Rightarrow> bool) \<Rightarrow> 'a list \<Rightarrow> nat option" where
  "first_match P [] = None"
| "first_match P (x # xs) = (if P x then Some 0 else map_option Suc (first_match P xs))"

definition pointOf :: "byte \<Rightarrow> byte \<Rightarrow> byte option" where
  "pointOf a b = map_option of_nat (first_match (\<lambda>pair. pair ! 0 = a \<and> pair ! 1 = b) trellisPoints)"

type_synonym dibit = "byte \<times> byte"

definition dibit_value :: "dibit \<Rightarrow> byte" where
  "dibit_value d = push_bit 1 (fst d) OR snd d"

definition trellis_input :: "byte \<Rightarrow> dibit \<Rightarrow> dibit \<Rightarrow> byte option" where
  "trellis_input state d0 d1 =
     (case pointOf (dibit_value d0) (dibit_value d1) of None \<Rightarrow> None
      | Some point \<Rightarrow> map_option of_nat (first_match (\<lambda>want. want = point) (trellisTransitions ! unat state)))"

fun trellis_decode :: "byte \<Rightarrow> dibit list \<Rightarrow> byte list option" where
  "trellis_decode state (d0 # d1 # ds) =
     (case trellis_input state d0 d1 of None \<Rightarrow> None
      | Some input \<Rightarrow> map_option ((#) input) (trellis_decode input ds))"
| "trellis_decode state _ = Some []"

definition DecodeTrellis :: "byte list \<Rightarrow> byte list option" where
  "DecodeTrellis burst =
     (case dataBurstHalves burst of None \<Rightarrow> None
      | Some raw \<Rightarrow>
          let dibits = fold (\<lambda>i d. d[trellisInterleave ! i := (raw ! (i * 2), raw ! (i * 2 + 1))]) [0..<trellisDibits]
                (replicate trellisDibits (0, 0))
          in (case trellis_decode 0 dibits of None \<Rightarrow> None
              | Some tribits \<Rightarrow>
                  let bits = concat (map (\<lambda>t. [drop_bit 2 t AND 1, drop_bit 1 t AND 1, t AND 1]) (take (trellisTribits - 1) tribits))
                  in Some (pack_octets (\<lambda>b. b = 1) TrellisPayloadBytes bits)))"

definition trellis_pair :: "byte \<Rightarrow> byte \<Rightarrow> dibit list" where
  "trellis_pair state input =
     (let pair = trellisPoints ! unat (trellisTransitions ! unat state ! unat input)
      in [(drop_bit 1 (pair ! 0) AND 1, pair ! 0 AND 1), (drop_bit 1 (pair ! 1) AND 1, pair ! 1 AND 1)])"

fun trellis_encode :: "byte \<Rightarrow> byte list \<Rightarrow> dibit list" where
  "trellis_encode state [] = []"
| "trellis_encode state (input # inputs) = trellis_pair state input @ trellis_encode input inputs"

definition tribit_at :: "byte list \<Rightarrow> nat \<Rightarrow> byte" where
  "tribit_at bits i =
     (if i < trellisTribits - 1 then push_bit 2 (bits ! (i * 3)) OR push_bit 1 (bits ! (i * 3 + 1)) OR bits ! (i * 3 + 2) else 0)"

definition EncodeTrellis :: "byte list \<Rightarrow> byte list option" where
  "EncodeTrellis payload =
     (if length payload \<noteq> TrellisPayloadBytes then None
      else
        let bits = BurstBitsFrom payload;
            dibits = trellis_encode 0 (map (tribit_at bits) [0..<trellisTribits])
        in Some (concat (map (\<lambda>i. let d = dibits ! (trellisInterleave ! i) in [fst d, snd d]) [0..<trellisDibits])))"

section \<open>The interleave is a permutation\<close>

lemma trellisInterleave_perm: "length trellisInterleave = 98" "distinct trellisInterleave" "set trellisInterleave = {..<98}"
proof -
  have l: "length trellisInterleave = 98" by (simp add: trellisInterleave_def)
  have d: "distinct trellisInterleave" by (simp add: trellisInterleave_def)
  have "set trellisInterleave \<subseteq> {..<98}" by (simp add: trellisInterleave_def)
  then have "set trellisInterleave = {..<98}" using distinct_card [OF d] l by (intro card_subset_eq) simp_all
  with l d show "length trellisInterleave = 98" "distinct trellisInterleave" "set trellisInterleave = {..<98}" by blast+
qed

lemma deinterleave_dibits:
  assumes "length ds = 98" "\<And>i. i < 98 \<Longrightarrow> f i = ds ! (trellisInterleave ! i)"
  shows "fold (\<lambda>i d. d[trellisInterleave ! i := f i]) [0..<98] (replicate 98 z) = ds"
proof (rule nth_equalityI)
  let ?r = "fold (\<lambda>i d. d[trellisInterleave ! i := f i]) [0..<98] (replicate 98 z)"
  have inj: "inj_on ((!) trellisInterleave) (set [0..<98])"
    using trellisInterleave_perm(1,2) by (auto intro!: inj_onI simp: nth_eq_iff_index_eq)
  have lt: "trellisInterleave ! i < 98" if "i < 98" for i
    using trellisInterleave_perm that nth_mem [of i trellisInterleave] by auto
  note F = fold_list_update [OF _ inj, of "replicate 98 z" f]
  show l: "length ?r = length ds" using F assms(1) lt by simp
  fix j assume "j < length ?r"
  then have "j \<in> set trellisInterleave" using l assms(1) trellisInterleave_perm(3) by simp
  then obtain i where "i < 98" "j = trellisInterleave ! i" using trellisInterleave_perm(1) by (metis in_set_conv_nth)
  then show "?r ! j = ds ! j" using F assms(2) lt by simp
qed

section \<open>One step of the machine\<close>

lemma trellis_step:
  assumes "s < 8" "i < 8"
  shows "case trellis_pair s i of [d0, d1] \<Rightarrow> trellis_input s d0 d1 = Some i \<and> is_bits [fst d0, snd d0, fst d1, snd d1] | _ \<Rightarrow> False"
proof -
  have "\<exists>n < 8. w = of_nat n" if "w < 8" for w :: byte
    using that by (intro exI [of _ "unat w"]) (simp add: word_less_nat_alt)
  then obtain m n where mn: "m < 8" "s = of_nat m" "n < 8" "i = of_nat n" using assms by metis
  have "m \<in> {0, 1, 2, 3, 4, 5, 6, 7}" "n \<in> {0, 1, 2, 3, 4, 5, 6, 7}" using mn by auto
  then show ?thesis unfolding mn(2,4)
    by (elim insertE emptyE; simp add: trellis_pair_def trellis_input_def pointOf_def dibit_value_def trellisPoints_def trellisTransitions_def Let_def)
qed

lemma trellis_step_pair:
  assumes "s < 8" "i < 8"
  obtains d0 d1 where "trellis_pair s i = [d0, d1]" "trellis_input s d0 d1 = Some i" "is_bits [fst d0, snd d0, fst d1, snd d1]"
  using trellis_step [OF assms] by (auto split: list.splits)

lemma trellis_decode_encode:
  "s < 8 \<Longrightarrow> \<forall>i \<in> set inputs. i < 8 \<Longrightarrow> trellis_decode s (trellis_encode s inputs) = Some inputs"
proof (induction inputs arbitrary: s)
  case (Cons i inputs)
  obtain d0 d1 where "trellis_pair s i = [d0, d1]" "trellis_input s d0 d1 = Some i"
    by (rule trellis_step_pair [of s i]) (use Cons.prems in auto)
  then show ?case using Cons by simp
qed simp

lemma trellis_encode_shape:
  "s < 8 \<Longrightarrow> \<forall>i \<in> set inputs. i < 8 \<Longrightarrow> length (trellis_encode s inputs) = 2 * length inputs \<and>
     (\<forall>d \<in> set (trellis_encode s inputs). is_bits [fst d, snd d])"
proof (induction inputs arbitrary: s)
  case (Cons i inputs)
  obtain d0 d1 where "trellis_pair s i = [d0, d1]" "is_bits [fst d0, snd d0, fst d1, snd d1]"
    by (rule trellis_step_pair [of s i]) (use Cons.prems in auto)
  then show ?case using Cons by auto
qed simp

section \<open>The round trip\<close>

lemma tribit_bits:
  assumes "is_bits [a, b, c]"
  shows "push_bit 2 a OR push_bit 1 b OR c < (8 :: byte)"
    "[drop_bit 2 (push_bit 2 a OR push_bit 1 b OR c) AND 1, drop_bit 1 (push_bit 2 a OR push_bit 1 b OR c) AND 1,
      (push_bit 2 a OR push_bit 1 b OR c) AND 1] = [a, b, c]"
  using assms by auto

lemma tribits_of:
  assumes "length bits = 144" "is_bits bits"
  shows "\<forall>t \<in> set (map (tribit_at bits) [0..<49]). t < 8"
    "concat (map (\<lambda>t. [drop_bit 2 t AND 1, drop_bit 1 t AND 1, t AND 1]) (take 48 (map (tribit_at bits) [0..<49]))) = bits"
proof -
  have b: "is_bits [bits ! (i * 3), bits ! (i * 3 + 1), bits ! (i * 3 + 2)]" if "i < 48" for i
    using assms that nth_mem [of "i * 3" bits] nth_mem [of "i * 3 + 1" bits] nth_mem [of "i * 3 + 2" bits]
    by (auto simp: is_bits_def)
  have t: "tribit_at bits i = push_bit 2 (bits ! (i * 3)) OR push_bit 1 (bits ! (i * 3 + 1)) OR bits ! (i * 3 + 2)" if "i < 48" for i
    using that by (simp add: tribit_at_def trellisTribits_def)
  have "tribit_at bits i < 8" for i
    using tribit_bits(1) [OF b, of i] t [of i] by (cases "i < 48") (simp_all add: tribit_at_def trellisTribits_def)
  then show "\<forall>t \<in> set (map (tribit_at bits) [0..<49]). t < 8" by simp
  have "(\<lambda>t. [drop_bit 2 t AND 1, drop_bit 1 t AND 1, t AND 1]) (tribit_at bits i) = take 3 (drop (i * 3) bits)" if "i < 48" for i
  proof -
    have "take 3 (drop (i * 3) bits) = [bits ! (i * 3), bits ! (i * 3 + 1), bits ! (i * 3 + 2)]"
      using that assms(1) by (intro nth_equalityI) (auto simp: less_Suc_eq numeral_3_eq_3 nth_Cons')
    then show ?thesis unfolding t [OF that] using tribit_bits(2) [OF b [OF that]] by (simp only:)
  qed
  then have "map (\<lambda>t. [drop_bit 2 t AND 1, drop_bit 1 t AND 1, t AND 1]) (take 48 (map (tribit_at bits) [0..<49]))
      = map (\<lambda>i. take 3 (drop (i * 3) bits)) [0..<48]"
    unfolding take_map take_upt map_map by (intro map_cong) auto
  moreover have "concat (map (\<lambda>i. take 3 (drop (i * 3) bits)) [0..<48]) = bits" by (rule concat_chunks) (simp add: assms(1))
  ultimately show "concat (map (\<lambda>t. [drop_bit 2 t AND 1, drop_bit 1 t AND 1, t AND 1]) (take 48 (map (tribit_at bits) [0..<49]))) = bits"
    by (simp only:)
qed

lemma pairs_nth:
  fixes f :: "nat \<Rightarrow> dibit"
  assumes "i < n"
  shows "concat (map (\<lambda>i. [fst (f i), snd (f i)]) [0..<n]) ! (i * 2) = fst (f i)"
    "concat (map (\<lambda>i. [fst (f i), snd (f i)]) [0..<n]) ! (i * 2 + 1) = snd (f i)"
proof -
  let ?c = "concat (map (\<lambda>i. [fst (f i), snd (f i)]) [0..<n])"
  have l: "length ?c = 2 * n" by (induction n) simp_all
  have "take 2 (drop (i * 2) ?c) = [fst (f i), snd (f i)]" using assms by (subst concat_row) simp_all
  then have "take 2 (drop (i * 2) ?c) ! 0 = fst (f i)" "take 2 (drop (i * 2) ?c) ! 1 = snd (f i)" by simp_all
  then show "?c ! (i * 2) = fst (f i)" "?c ! (i * 2 + 1) = snd (f i)" using assms l by simp_all
qed

lemma EncodeTrellis_readback:
  assumes "length payload = 18"
  obtains coded where "EncodeTrellis payload = Some coded" "length coded = 196" "is_bits coded"
    "\<And>burst. dataBurstHalves burst = Some coded \<Longrightarrow> DecodeTrellis burst = Some payload"
proof -
  let ?bits = "BurstBitsFrom payload" and ?is = "map (tribit_at (BurstBitsFrom payload)) [0..<49]"
  let ?ds = "trellis_encode 0 ?is"
  define coded where "coded = concat (map (\<lambda>i. [fst (?ds ! (trellisInterleave ! i)), snd (?ds ! (trellisInterleave ! i))]) [0..<98])"
  have b: "length ?bits = 144" "is_bits ?bits" using assms by simp_all
  note t = tribits_of [OF b]
  have ds: "length ?ds = 98" "\<forall>d \<in> set ?ds. is_bits [fst d, snd d]" using trellis_encode_shape [of 0 ?is] t(1) by simp_all
  have lt: "trellisInterleave ! i < 98" if "i < 98" for i
    using trellisInterleave_perm that nth_mem [of i trellisInterleave] by auto
  show ?thesis
  proof
    show "EncodeTrellis payload = Some coded"
      using assms by (simp add: EncodeTrellis_def TrellisPayloadBytes_def trellisTribits_def trellisDibits_def coded_def Let_def)
    show "length coded = 196" by (simp add: coded_def length_concat o_def sum_list_triv)
    show "is_bits coded" unfolding coded_def using ds lt by (intro is_bits_concat) auto
    fix burst assume h: "dataBurstHalves burst = Some coded"
    have "fold (\<lambda>i d. d[trellisInterleave ! i := (coded ! (i * 2), coded ! (i * 2 + 1))]) [0..<98] (replicate 98 (0, 0)) = ?ds"
      using pairs_nth [of _ 98 "\<lambda>i. ?ds ! (trellisInterleave ! i)"] by (intro deinterleave_dibits [OF ds(1)]) (simp add: coded_def)
    moreover have "trellis_decode 0 ?ds = Some ?is" using t(1) by (intro trellis_decode_encode) simp_all
    moreover have "pack_octets (\<lambda>b. b = 1) 18 ?bits = payload" using assms by (intro octets_eqI) (auto simp: nth_bit)
    ultimately show "DecodeTrellis burst = Some payload"
      using h t(2) by (simp add: DecodeTrellis_def trellisDibits_def trellisTribits_def TrellisPayloadBytes_def Let_def)
  qed
qed

end
