(* ===== verification/Data_Blocks.thy ===== *)
theory Data_Blocks
  imports Control_Blocks Trellis
begin

text \<open>
  \<^verbatim>\<open>internal/dmrfec/rate34.go\<close> and \<^verbatim>\<open>internal/dmrfec/datablocks.go\<close>: the blocks a text message travels in, and
  the packet they carry.  A Rate 3/4 block is sixteen octets of user data and a control pair, a serial
  number of seven bits and a CRC of nine, at one end or the other.  \<open>None\<close> is the code's error; lengths,
  which the code has as \<^verbatim>\<open>int\<close> from \<^verbatim>\<open>len\<close>, are natural numbers.
\<close>

section \<open>rate34.go\<close>

definition Rate34BlockBytes :: nat where
  "Rate34BlockBytes = 18"

definition Rate34DataBytes :: nat where
  "Rate34DataBytes = 16"

definition Rate34ControlBytes :: nat where
  "Rate34ControlBytes = Rate34BlockBytes - Rate34DataBytes"

definition crc9Generator :: u16 where
  "crc9Generator = 0x259"

definition crc9Mask :: u16 where
  "crc9Mask = 0x1FF"

definition serialBits :: nat where
  "serialBits = 7"

definition DataTypeRate34 :: byte where
  "DataTypeRate34 = 0x8"

definition crc9_push :: "byte \<Rightarrow> u16 \<Rightarrow> u16" where
  "crc9_push b reg = (let reg = push_bit 1 reg OR (ucast b AND 1) in if reg AND 0x200 \<noteq> 0 then reg XOR crc9Generator else reg)"

definition CRC9 :: "byte list \<Rightarrow> byte \<Rightarrow> u16" where
  "CRC9 data serial =
     (let reg = fold (\<lambda>x reg. fold (\<lambda>i reg. crc9_push (drop_bit i x) reg) (rev [0..<8]) reg) data 0;
          reg = fold (\<lambda>i reg. crc9_push (drop_bit i serial) reg) (rev [0..<serialBits]) reg;
          reg = fold (\<lambda>i reg. crc9_push 0 reg) [0..<9] reg
      in reg AND crc9Mask)"

datatype Rate34Order = Rate34OrderUnknown | Rate34ControlLast | Rate34ControlFirst

definition Rate34AirOrder :: Rate34Order where
  "Rate34AirOrder = Rate34ControlFirst"

definition rate34Control :: "byte list \<Rightarrow> Rate34Order \<Rightarrow> (byte \<times> u16) option" where
  "rate34Control block order =
     (if length block \<noteq> Rate34BlockBytes then None
      else
        let at = (if order = Rate34ControlLast then Rate34DataBytes else 0);
            pair = get16 (drop at block)
        in Some (ucast (drop_bit 9 pair), pair AND crc9Mask))"

definition Rate34OrderOf :: "byte list \<Rightarrow> Rate34Order" where
  "Rate34OrderOf block =
     (if length block \<noteq> Rate34BlockBytes then Rate34OrderUnknown
      else if (case rate34Control block Rate34ControlLast of None \<Rightarrow> False
               | Some (serial, c) \<Rightarrow> CRC9 (take Rate34DataBytes block) serial = c) then Rate34ControlLast
      else if (case rate34Control block Rate34ControlFirst of None \<Rightarrow> False
               | Some (serial, c) \<Rightarrow> CRC9 (drop Rate34ControlBytes block) serial = c) then Rate34ControlFirst
      else Rate34OrderUnknown)"

definition Rate34Serial :: "byte list \<Rightarrow> byte \<times> bool" where
  "Rate34Serial block =
     (case rate34Control block Rate34ControlLast of None \<Rightarrow> (0, False)
      | Some (s, c) \<Rightarrow> (s, CRC9 (take Rate34DataBytes block) s = c))"

definition Rate34Rotate :: "byte list \<Rightarrow> Rate34Order \<Rightarrow> byte list option" where
  "Rate34Rotate block from =
     (if length block \<noteq> Rate34BlockBytes then None
      else if from = Rate34ControlLast then Some (drop Rate34DataBytes block @ take Rate34DataBytes block)
      else Some (drop Rate34ControlBytes block @ take Rate34ControlBytes block))"

definition BuildRate34Burst :: "byte \<Rightarrow> byte list \<Rightarrow> byte list option" where
  "BuildRate34Burst colourCode block =
     (if length block \<noteq> Rate34BlockBytes then None
      else
        (case (if Rate34AirOrder \<noteq> Rate34ControlLast then Rate34Rotate block Rate34ControlLast else Some block) of None \<Rightarrow> None
         | Some air \<Rightarrow>
             (case EncodeTrellis air of None \<Rightarrow> None
              | Some coded \<Rightarrow> dataBurstFromCoded colourCode DataTypeRate34 coded)))"

definition DecodeRate34Burst :: "byte list \<Rightarrow> (byte list \<times> Rate34Order) option" where
  "DecodeRate34Burst burst =
     (case DecodeTrellis burst of None \<Rightarrow> None
      | Some air \<Rightarrow>
          let order = Rate34OrderOf air;
              found = (if order = Rate34OrderUnknown then Rate34AirOrder else order)
          in if found = Rate34ControlLast then Some (air, order)
             else map_option (\<lambda>link. (link, order)) (Rate34Rotate air Rate34ControlFirst))"

section \<open>datablocks.go\<close>

definition rate34_block :: "byte list \<Rightarrow> Rate34Order \<Rightarrow> nat \<Rightarrow> byte list option" where
  "rate34_block data order i =
     (let serial = of_nat i;
          pair = push_bit 9 (ucast (serial :: byte)) OR CRC9 data serial
      in case order of
           Rate34ControlLast \<Rightarrow> Some (data @ put16 pair)
         | Rate34ControlFirst \<Rightarrow> Some (put16 pair @ data)
         | Rate34OrderUnknown \<Rightarrow> None)"

fun rate34_cut :: "byte list \<Rightarrow> Rate34Order \<Rightarrow> nat list \<Rightarrow> byte list list option" where
  "rate34_cut userData order [] = Some []"
| "rate34_cut userData order (i # is) =
     (case rate34_block (subslice (i * Rate34DataBytes) ((i + 1) * Rate34DataBytes) userData) order i of None \<Rightarrow> None
      | Some block \<Rightarrow> map_option ((#) block) (rate34_cut userData order is))"

definition Rate34Blocks :: "byte list \<Rightarrow> Rate34Order \<Rightarrow> byte list list option" where
  "Rate34Blocks userData order =
     (if length userData = 0 then None
      else if length userData mod Rate34DataBytes \<noteq> 0 then None
      else
        let count = length userData div Rate34DataBytes
        in if count > 2 ^ serialBits then None else rate34_cut userData order [0..<count])"

definition rate34_split :: "byte list \<Rightarrow> Rate34Order \<Rightarrow> (byte list \<times> u16) option" where
  "rate34_split block order =
     (case order of
        Rate34ControlLast \<Rightarrow> Some (take Rate34DataBytes block, get16 (drop Rate34DataBytes block))
      | Rate34ControlFirst \<Rightarrow> Some (drop Rate34ControlBytes block, get16 (take Rate34ControlBytes block))
      | Rate34OrderUnknown \<Rightarrow> None)"

fun rate34_join :: "nat \<Rightarrow> byte list list \<Rightarrow> Rate34Order \<Rightarrow> byte list option" where
  "rate34_join i [] order = Some []"
| "rate34_join i (block # blocks) order =
     (if length block \<noteq> Rate34BlockBytes then None
      else
        (case rate34_split block order of None \<Rightarrow> None
         | Some (data, pair) \<Rightarrow>
             let serial = ucast (drop_bit 9 pair) :: byte
             in if unat serial \<noteq> i then None
                else if pair AND crc9Mask \<noteq> CRC9 data serial then None
                else map_option ((@) data) (rate34_join (Suc i) blocks order)))"

definition Rate34UserData :: "byte list list \<Rightarrow> Rate34Order \<Rightarrow> byte list option" where
  "Rate34UserData blocks order = (if length blocks = 0 then None else rate34_join 0 blocks order)"

definition Rate12DataBytes :: nat where
  "Rate12DataBytes = 12"

definition Rate12Blocks :: "byte list \<Rightarrow> byte list list option" where
  "Rate12Blocks userData =
     (if length userData = 0 then None
      else if length userData mod Rate12DataBytes \<noteq> 0 then None
      else Some (map (\<lambda>k. subslice (k * Rate12DataBytes) (k * Rate12DataBytes + Rate12DataBytes) userData)
                  [0..<length userData div Rate12DataBytes]))"

definition Rate12UserData :: "byte list list \<Rightarrow> byte list option" where
  "Rate12UserData blocks =
     (if length blocks = 0 then None
      else if \<exists>b \<in> set blocks. length b \<noteq> Rate12DataBytes then None
      else Some (concat blocks))"

definition PacketCRCBytes :: nat where
  "PacketCRCBytes = 4"

definition packetCRCPoly :: u32 where
  "packetCRCPoly = 0x04C11DB7"

definition packet_step :: "u32 \<Rightarrow> u32" where
  "packet_step reg = (if reg AND 0x80000000 \<noteq> 0 then push_bit 1 reg XOR packetCRCPoly else push_bit 1 reg)"

text \<open>The octet at \<open>i XOR 1\<close>: the other one of its pair.\<close>

definition PacketCRC :: "byte list \<Rightarrow> u32 option" where
  "PacketCRC covered =
     (if length covered mod 2 \<noteq> 0 then None
      else Some (fold (\<lambda>i reg. (packet_step ^^ 8) (reg XOR push_bit 24 (ucast (covered ! (i XOR 1))))) [0..<length covered] 0))"

definition VerifyPacket :: "byte list \<Rightarrow> bool" where
  "VerifyPacket userData =
     (if length userData < PacketCRCBytes then False
      else
        let cut = length userData - PacketCRCBytes
        in (case PacketCRC (take cut userData) of None \<Rightarrow> False
            | Some want \<Rightarrow> get32 (rev (drop cut userData)) = want))"

definition PadOctets :: "nat \<Rightarrow> nat \<Rightarrow> nat \<Rightarrow> int" where
  "PadOctets payloadLen blocks blockBytes = int (blocks * blockBytes) - int payloadLen - int PacketCRCBytes"

definition BlocksFor :: "nat \<Rightarrow> nat \<Rightarrow> nat" where
  "BlocksFor payloadLen blockBytes = (payloadLen + PacketCRCBytes + blockBytes - 1) div blockBytes"

definition SplitPacket :: "byte list \<Rightarrow> int \<Rightarrow> (byte list \<times> byte list \<times> u32) option" where
  "SplitPacket userData payloadLen =
     (if payloadLen < 0 \<or> payloadLen + int PacketCRCBytes > int (length userData) then None
      else Some (take (nat payloadLen) userData, subslice (nat payloadLen) (length userData - PacketCRCBytes) userData,
                 get32 (rev (drop (length userData - PacketCRCBytes) userData))))"

definition JoinPacket :: "byte list \<Rightarrow> nat \<Rightarrow> nat \<Rightarrow> byte list option" where
  "JoinPacket payload blocks blockBytes =
     (let pad = PadOctets (length payload) blocks blockBytes
      in if pad < 0 then None
         else let out = payload @ replicate (nat pad) 0
              in (case PacketCRC out of None \<Rightarrow> None | Some c \<Rightarrow> Some (out @ rev (put32 c))))"

section \<open>The control pair\<close>

lemma CRC9_small: "take_bit 9 (CRC9 data serial) = CRC9 data serial"
  unfolding CRC9_def Let_def crc9Mask_def by (simp add: take_bit_eq_mask mask_numeral and.assoc)

lemma control_pair:
  fixes data :: "byte list"
  assumes "take_bit 7 s = (s :: byte)"
  defines "pair \<equiv> push_bit 9 (ucast s) OR CRC9 data s"
  shows "ucast (drop_bit 9 pair) = s" "pair AND crc9Mask = CRC9 data s"
proof -
  have m: "crc9Mask = mask 9" by (simp add: crc9Mask_def mask_numeral)
  show "ucast (drop_bit 9 pair) = s" "pair AND crc9Mask = CRC9 data s"
    unfolding pair_def m take_bit_eq_mask [symmetric]
    by (rule bit_word_eqI; auto simp: bit_simps dest: bit_small [OF _ CRC9_small] bit_small [OF _ assms(1)] bit_imp_le_length)+
qed

text \<open>A pair with the right check is the pair that is written.\<close>

lemma control_pair_unique:
  assumes "pair AND crc9Mask = CRC9 data (ucast (drop_bit 9 pair))"
  shows "pair = push_bit 9 (ucast (ucast (drop_bit 9 pair) :: byte)) OR CRC9 data (ucast (drop_bit 9 pair))"
proof -
  have m: "crc9Mask = mask 9" by (simp add: crc9Mask_def mask_numeral)
  show ?thesis unfolding assms [symmetric] m take_bit_eq_mask [symmetric]
    by (rule bit_word_eqI) (auto simp: bit_simps)
qed

lemma serial_small: "i < 128 \<Longrightarrow> take_bit 7 (of_nat i :: byte) = of_nat i \<and> unat (of_nat i :: byte) = i"
  by (simp add: small_unat [symmetric] unat_of_nat)

section \<open>Blocks and user data\<close>

lemma rate34_split_block:
  assumes "length data = 16" "i < 128" "rate34_block data order i = Some block"
  shows "length block = 18" "rate34_split block order = Some (data, push_bit 9 (ucast (of_nat i :: byte)) OR CRC9 data (of_nat i))"
  using assms get16_put16 [of _ "[]"]
  by (auto simp: rate34_block_def rate34_split_def Let_def Rate34DataBytes_def Rate34ControlBytes_def Rate34BlockBytes_def split: Rate34Order.splits)

lemma rate34_block_split:
  assumes "length block = 18" "rate34_split block order = Some (data, pair)" "unat (ucast (drop_bit 9 pair) :: byte) = i"
    "pair AND crc9Mask = CRC9 data (ucast (drop_bit 9 pair))"
  shows "length data = 16" "rate34_block data order i = Some block" "i < 128"
proof -
  have s: "of_nat i = (ucast (drop_bit 9 pair) :: byte)" by (simp flip: assms(3))
  have p: "push_bit 9 (ucast (of_nat i :: byte)) OR CRC9 data (of_nat i) = pair"
    unfolding s by (rule control_pair_unique [OF assms(4), symmetric])
  show "length data = 16" using assms(1,2)
    by (auto simp: rate34_split_def Rate34DataBytes_def Rate34ControlBytes_def Rate34BlockBytes_def split: Rate34Order.splits)
  show "rate34_block data order i = Some block" unfolding rate34_block_def Let_def p using assms(1,2)
    by (auto simp: put16_get16 rate34_split_def Rate34DataBytes_def Rate34ControlBytes_def Rate34BlockBytes_def split: Rate34Order.splits)
  have "take_bit 7 (ucast (drop_bit 9 pair) :: byte) = ucast (drop_bit 9 pair)"
    by (rule bit_word_eqI) (auto simp: bit_simps dest: bit_imp_le_length)
  then show "i < 128" using assms(3) small_unat [of "ucast (drop_bit 9 pair) :: byte" 7] by simp
qed

lemma rate34_cut_shift:
  "rate34_cut ud order is = Some bs \<longleftrightarrow>
     length bs = length is \<and> (\<forall>k < length is. rate34_block (subslice (is ! k * 16) (is ! k * 16 + 16) ud) order (is ! k) = Some (bs ! k))"
proof (induction "is" arbitrary: bs)
  case (Cons i "is")
  show ?case
  proof (cases bs)
    case (Cons b bs')
    have "rate34_cut ud order (i # is) = Some bs \<longleftrightarrow>
        rate34_block (subslice (i * 16) (i * 16 + 16) ud) order i = Some b \<and> rate34_cut ud order is = Some bs'"
      by (auto simp: Cons Rate34DataBytes_def add.commute split: option.splits)
    then show ?thesis unfolding Cons.IH [of bs'] by (auto simp: Cons less_Suc_eq_0_disj)
  qed (auto split: option.splits)
qed (auto)

lemma rate34_join_iff:
  "rate34_join i bs order = Some ud \<longleftrightarrow>
     length ud = length bs * 16 \<and> (\<forall>k < length bs. i + k < 128 \<and> rate34_block (subslice (k * 16) (k * 16 + 16) ud) order (i + k) = Some (bs ! k))"
proof (induction bs arbitrary: i ud)
  case (Cons b bs)
  have shift: "subslice (Suc k * 16) (Suc k * 16 + 16) ud = subslice (k * 16) (k * 16 + 16) (drop 16 ud)" for k
    by (simp add: subslice_def add.commute)
  show ?case (is "?l = ?r")
  proof
    assume ?l
    then obtain data pair ud' where d: "length b = 18" "rate34_split b order = Some (data, pair)" "unat (ucast (drop_bit 9 pair) :: byte) = i"
      "pair AND crc9Mask = CRC9 data (ucast (drop_bit 9 pair))" "rate34_join (Suc i) bs order = Some ud'" "ud = data @ ud'"
      by (auto simp: Let_def Rate34BlockBytes_def split: if_splits option.splits)
    note B = rate34_block_split [OF d(1-4)]
    have ud: "subslice 0 16 (data @ ud') = data" "subslice (16 + j * 16) (32 + j * 16) (data @ ud') = subslice (j * 16) (j * 16 + 16) ud'" for j
      using B(1) by (simp_all add: subslice_def)
    show ?r using Cons.IH [of "Suc i" ud'] d(5,6) B by (auto simp: less_Suc_eq_0_disj ud)
  next
    assume r: ?r
    let ?d = "take 16 ud"
    have b: "i < 128" "rate34_block ?d order i = Some b" "length ?d = 16" using r by (auto simp: subslice_def)
    note S = rate34_split_block [OF b(3,1,2)] and s = serial_small [OF b(1)]
    have "rate34_join (Suc i) bs order = Some (drop 16 ud)"
      unfolding Cons.IH using r by (auto simp flip: shift simp: less_Suc_eq_0_disj)
    then show ?l using S s control_pair [of "of_nat i" ?d]
      by (simp add: Let_def Rate34BlockBytes_def)
  qed
qed auto

lemma Rate34UserData_iff:
  "Rate34UserData blocks order = Some userData \<longleftrightarrow> Rate34Blocks userData order = Some blocks"
proof -
  let ?n = "length userData div 16"
  have "Rate34UserData blocks order = Some userData \<longleftrightarrow>
      blocks \<noteq> [] \<and> length userData = length blocks * 16 \<and>
      (\<forall>k < length blocks. k < 128 \<and> rate34_block (subslice (k * 16) (k * 16 + 16) userData) order k = Some (blocks ! k))"
    by (simp add: Rate34UserData_def rate34_join_iff)
  also have "\<dots> \<longleftrightarrow> userData \<noteq> [] \<and> length userData mod 16 = 0 \<and> ?n \<le> 128 \<and> length blocks = ?n \<and>
      (\<forall>k < ?n. rate34_block (subslice (k * 16) (k * 16 + 16) userData) order k = Some (blocks ! k))"
  proof (intro iffI; elim conjE)
    assume a: "blocks \<noteq> []" "length userData = length blocks * 16"
      "\<forall>k < length blocks. k < 128 \<and> rate34_block (subslice (k * 16) (k * 16 + 16) userData) order k = Some (blocks ! k)"
    have "length blocks - 1 < 128" using a(1,3) by (metis diff_less length_greater_0_conv less_numeral_extra(1))
    then have "length blocks \<le> 128" by linarith
    with a show "userData \<noteq> [] \<and> length userData mod 16 = 0 \<and> ?n \<le> 128 \<and> length blocks = ?n \<and>
      (\<forall>k < ?n. rate34_block (subslice (k * 16) (k * 16 + 16) userData) order k = Some (blocks ! k))" by auto
  qed auto
  also have "\<dots> \<longleftrightarrow> Rate34Blocks userData order = Some blocks"
    by (auto simp: Rate34Blocks_def Rate34DataBytes_def serialBits_def rate34_cut_shift Let_def)
  finally show ?thesis .
qed

text \<open>\<open>Rate34UserData\<close> accepts exactly the sequences of blocks that \<open>Rate34Blocks\<close> cuts, and gives back
  the user data they were cut from: a missing, reordered or repeated block, or one whose check disagrees,
  is refused.\<close>

lemma rate34_blocks_exact:
  "Rate34UserData blocks order = Some userData \<longleftrightarrow> Rate34Blocks userData order = Some blocks"
  by (rule Rate34UserData_iff)

section \<open>A block in a burst\<close>

lemma BuildRate34Burst_readback:
  assumes "length block = 18" "cc \<le> 15"
  obtains burst where "BuildRate34Burst cc block = Some burst" "length burst = 33" "SlotTypeOf burst = Some (cc, DataTypeRate34)"
    "DecodeTrellis burst = Some (drop 16 block @ take 16 block)"
proof -
  let ?air = "drop 16 block @ take 16 block"
  have s: "take_bit 4 cc = cc" "take_bit 4 DataTypeRate34 = DataTypeRate34"
    using assms(2) unfolding nibble [symmetric] DataTypeRate34_def by auto
  have "length ?air = 18" using assms(1) by simp
  then obtain coded where c: "EncodeTrellis ?air = Some coded" "length coded = 196" "is_bits coded"
    "\<And>burst. dataBurstHalves burst = Some coded \<Longrightarrow> DecodeTrellis burst = Some ?air" by (rule EncodeTrellis_readback) blast
  show ?thesis
    by (rule dataBurstFromCoded_readback [OF c(2,3) s])
      (use that c(1,4) assms(1) in \<open>simp add: BuildRate34Burst_def Rate34BlockBytes_def Rate34AirOrder_def Rate34Rotate_def Rate34DataBytes_def\<close>)
qed

text \<open>A Rate 3/4 block sent in a burst is read back with its colour code, whichever end its control pair
  travels at, unless the arrangement on air also happens to check with the pair at the other end: then,
  and only then, \<open>DecodeRate34Burst\<close> hands over the octets in the arrangement they had on air.\<close>

lemma rate34_burst_roundtrip:
  assumes "length block = 18" "cc \<le> 15"
  shows "\<exists>burst. BuildRate34Burst cc block = Some burst \<and> SlotTypeOf burst = Some (cc, DataTypeRate34) \<and>
    (let air = drop 16 block @ take 16 block
     in DecodeRate34Burst burst = Some (if Rate34OrderOf air = Rate34ControlLast then air else block, Rate34OrderOf air))"
proof (rule BuildRate34Burst_readback [OF assms])
  fix burst
  assume b: "BuildRate34Burst cc block = Some burst" "SlotTypeOf burst = Some (cc, DataTypeRate34)"
    "DecodeTrellis burst = Some (drop 16 block @ take 16 block)"
  let ?air = "drop 16 block @ take 16 block"
  have "Rate34Rotate ?air Rate34ControlFirst = Some block"
    using assms(1) by (simp add: Rate34Rotate_def Rate34BlockBytes_def Rate34ControlBytes_def Rate34DataBytes_def)
  then have "DecodeRate34Burst burst = Some (if Rate34OrderOf ?air = Rate34ControlLast then ?air else block, Rate34OrderOf ?air)"
    by (simp add: DecodeRate34Burst_def b(3) Let_def Rate34AirOrder_def)
  then show ?thesis using b by (auto simp: Let_def)
qed

lemma rate34_burst_roundtrip_witness:
  "\<exists>burst. BuildRate34Burst 1 (replicate 18 0) = Some burst \<and> SlotTypeOf burst = Some (1, DataTypeRate34)"
  using rate34_burst_roundtrip [of "replicate 18 0" 1] by auto

lemma crc9_push_eq: "crc9_push b reg =
  (if (push_bit 1 reg OR (ucast b AND 1)) AND 0x200 \<noteq> 0 then (push_bit 1 reg OR (ucast b AND 1)) XOR 0x259
   else push_bit 1 reg OR (ucast b AND 1))"
  by (simp only: crc9_push_def Let_def crc9Generator_def)

lemma crc9_counts: "rev [0..<8] = [7, 6, 5, 4, 3, 2, 1, 0 :: nat]" "rev [0..<7] = [6, 5, 4, 3, 2, 1, 0 :: nat]"
  "[0..<9] = [0, 1, 2, 3, 4, 5, 6, 7, 8 :: nat]"
  by (simp_all add: upt_rec)

lemmas crc9_unrolled = CRC9_def Let_def serialBits_def crc9_counts fold.simps comp_apply id_apply

lemma misread_checks:
  "CRC9 [0, 0, 0, 0, 0, 0, 0, 0, 0, 0, 0, 0, 0, 103, 212, 0] 0 = 0"
  "CRC9 [0, 0, 0, 0, 0, 0, 0, 0, 0, 0, 0, 0, 0, 0, 0, 103] 106 = 0"
  unfolding crc9_unrolled by (simp_all add: crc9_push_eq crc9Mask_def)

text \<open>C39: A block that \<open>Rate34Blocks\<close> cuts, with a valid check, and that \<open>BuildRate34Burst\<close> puts in a burst can be
  read back wrong: the octets on air also check with the control pair at the end, where \<open>Rate34OrderOf\<close>
  looks first, so \<open>DecodeRate34Burst\<close> reports that arrangement and returns the octets out of place.\<close>

theorem rate34_burst_misread:
  "\<exists>data block burst block'. Rate34Blocks data Rate34ControlLast = Some [block] \<and> BuildRate34Burst 1 block = Some burst \<and>
     DecodeRate34Burst burst = Some (block', Rate34ControlLast) \<and> block' \<noteq> block"
proof -
  let ?data = "[0, 0, 0, 0, 0, 0, 0, 0, 0, 0, 0, 0, 0, 103, 212, 0] :: byte list"
  let ?block = "[0, 0, 0, 0, 0, 0, 0, 0, 0, 0, 0, 0, 0, 103, 212, 0, 0, 0] :: byte list"
  let ?air = "[0, 0, 0, 0, 0, 0, 0, 0, 0, 0, 0, 0, 0, 0, 0, 103, 212, 0] :: byte list"
  have "Rate34OrderOf ?air = Rate34ControlLast"
    using misread_checks(2) unfolding Rate34OrderOf_def rate34Control_def Let_def
    by (simp add: Rate34BlockBytes_def Rate34DataBytes_def get16_def crc9Mask_def)
  moreover obtain burst where b: "BuildRate34Burst 1 ?block = Some burst" "DecodeTrellis burst = Some (drop 16 ?block @ take 16 ?block)"
    by (rule BuildRate34Burst_readback [of ?block 1]) simp_all
  moreover have "drop 16 ?block @ take 16 ?block = ?air" by simp
  ultimately have "DecodeRate34Burst burst = Some (?air, Rate34ControlLast)" by (simp only: DecodeRate34Burst_def Let_def option.case) simp
  moreover have "Rate34Blocks ?data Rate34ControlLast = Some [?block]"
    using misread_checks(1) by (simp add: Rate34Blocks_def Rate34DataBytes_def serialBits_def Let_def rate34_block_def subslice_def put16_def)
  moreover have "?air \<noteq> ?block" by simp
  ultimately show ?thesis using b(1) by blast
qed

section \<open>The packet\<close>

interpretation packet: crc_register packetCRCPoly
  by unfold_locales (simp add: packetCRCPoly_def)

definition pair_swapped :: "byte list \<Rightarrow> byte list" where
  "pair_swapped b = map (\<lambda>i. b ! (i XOR 1)) [0..<length b]"

lemma PacketCRC_crc: "PacketCRC b = (if odd (length b) then None else Some (fold (crc_octet packetCRCPoly) (pair_swapped b) 0))"
proof -
  have "packet_step = crc_bit packetCRCPoly"
  proof
    fix r :: u32
    have "(0x80000000 :: u32) = push_bit 31 1" by simp
    then have "(r AND 0x80000000 \<noteq> 0) \<longleftrightarrow> bit r 31" by (simp only: and_push_bit_iff)
    then show "packet_step r = crc_bit packetCRCPoly r" unfolding packet_step_def crc_bit_def by simp
  qed
  then have "(\<lambda>i reg. (packet_step ^^ 8) (reg XOR push_bit 24 (ucast (b ! (i XOR 1))))) = (\<lambda>i. crc_octet packetCRCPoly (b ! (i XOR 1)))"
    by (intro ext) (simp add: crc_octet_def)
  then show ?thesis by (simp add: PacketCRC_def pair_swapped_def fold_map odd_iff_mod_2_eq_one comp_def)
qed

lemma pair_swapped_append: "even (length a) \<Longrightarrow> pair_swapped (a @ b) = pair_swapped a @ pair_swapped b"
proof (rule nth_equalityI)
  assume e: "even (length a)"
  fix i assume "i < length (pair_swapped (a @ b))"
  then have i: "i < length a + length b" by (simp add: pair_swapped_def)
  have lt: "i < length a \<Longrightarrow> i XOR 1 < length a" using e unfolding xor_Suc_0_eq One_nat_def by (auto elim!: evenE oddE)
  have ge: "(i XOR 1) - length a = (i - length a) XOR 1" "length a \<le> i XOR 1" if "length a \<le> i"
    using e that unfolding xor_Suc_0_eq One_nat_def by (auto elim!: evenE oddE)
  show "pair_swapped (a @ b) ! i = (pair_swapped a @ pair_swapped b) ! i"
    using i lt ge by (cases "i < length a") (simp_all add: pair_swapped_def nth_append)
qed (simp add: pair_swapped_def)

lemma pair_swapped_inj:
  assumes "length a = length b" "even (length a)" "pair_swapped a = pair_swapped b"
  shows "a = b"
proof (rule nth_equalityI)
  fix i assume i: "i < length a"
  then have "i XOR 1 < length a" using assms(2) unfolding xor_Suc_0_eq One_nat_def by (auto elim!: evenE oddE)
  then have "pair_swapped a ! (i XOR 1) = a ! i" "pair_swapped b ! (i XOR 1) = b ! i"
    using assms(1) by (simp_all add: pair_swapped_def xor.assoc)
  then show "a ! i = b ! i" using assms(3) by simp
qed (rule assms(1))

text \<open>The packet check sees every change within four adjacent octets, counted in whole pairs, of the
  packet it covers: two packets with the same check octets that differ only there do not both verify.\<close>

lemma packet_burst_detected:
  assumes "VerifyPacket (xs @ os @ ys)" "even (length xs)" "even (length os)" "length os \<le> 4" "length os' = length os"
    "os' \<noteq> os" "4 \<le> length ys"
  shows "\<not> VerifyPacket (xs @ os' @ ys)"
proof
  let ?p = "\<lambda>os. xs @ os @ take (length ys - 4) ys"
  have t: "take (length (xs @ z @ ys) - 4) (xs @ z @ ys) = ?p z" "drop (length (xs @ z @ ys) - 4) (xs @ z @ ys) = drop (length ys - 4) ys" for z
    using assms(7) by simp_all
  have V: "VerifyPacket (xs @ z @ ys) \<longleftrightarrow> PacketCRC (?p z) = Some (get32 (rev (drop (length ys - 4) ys)))" for z
    using assms(7) unfolding VerifyPacket_def PacketCRCBytes_def Let_def t by (auto split: option.splits)
  assume "VerifyPacket (xs @ os' @ ys)"
  with assms(1) have "PacketCRC (?p os) = PacketCRC (?p os')" "PacketCRC (?p os) \<noteq> None" unfolding V by simp_all
  then have "fold (crc_octet packetCRCPoly) (pair_swapped xs @ pair_swapped os @ pair_swapped (take (length ys - 4) ys)) 0 =
      fold (crc_octet packetCRCPoly) (pair_swapped xs @ pair_swapped os' @ pair_swapped (take (length ys - 4) ys)) 0"
    using assms(2,3,5) by (auto simp: PacketCRC_crc pair_swapped_append split: if_splits)
  moreover have "pair_swapped os \<noteq> pair_swapped os'" using pair_swapped_inj [of os os'] assms(3,5,6) by auto
  ultimately show False using packet.burst_detected [of "pair_swapped os" "pair_swapped os'"] assms(4,5) by (simp add: pair_swapped_def)
qed

lemma PadOctets_cases: "PadOctets l blocks bb < 0 \<longleftrightarrow> blocks * bb < l + 4" "nat (PadOctets l blocks bb) = blocks * bb - l - 4"
  unfolding PadOctets_def PacketCRCBytes_def by linarith+

lemma JoinPacket_reads:
  assumes "JoinPacket payload blocks bb = Some ud"
  shows "length ud = blocks * bb" "VerifyPacket ud"
    "SplitPacket ud (int (length payload)) =
       Some (payload, replicate (blocks * bb - length payload - 4) 0, get32 (rev (drop (length ud - 4) ud)))"
proof -
  let ?n = "blocks * bb - length payload - 4"
  let ?o = "payload @ replicate ?n 0"
  obtain c where c: "PacketCRC ?o = Some c" "ud = ?o @ rev (put32 c)" "length payload + 4 \<le> blocks * bb"
  proof -
    have fit: "length payload + 4 \<le> blocks * bb" using assms
      by (auto simp: JoinPacket_def PadOctets_cases Let_def split: if_splits)
    then show ?thesis using that assms by (auto simp: JoinPacket_def PadOctets_cases Let_def split: option.splits)
  qed
  then show "length ud = blocks * bb" by simp
  have "take (length ud - 4) ud = ?o" "drop (length ud - 4) ud = rev (put32 c)" using c by simp_all
  moreover have "get32 (put32 c) = c" using get32_put32 [of c "[]"] by simp
  ultimately show "VerifyPacket ud" using c by (simp add: VerifyPacket_def PacketCRCBytes_def Let_def)
  show "SplitPacket ud (int (length payload)) = Some (payload, replicate ?n 0, get32 (rev (drop (length ud - 4) ud)))"
  proof -
    have "length ud = blocks * bb" using c by simp
    then have "\<not> int (length payload) + 4 > int (length ud)" using c(3) by linarith
    then show ?thesis using c(2) by (simp add: SplitPacket_def PacketCRCBytes_def subslice_def add.commute)
  qed
qed

lemma BlocksFor_fits:
  assumes "0 < bb"
  shows "length payload + 4 \<le> BlocksFor (length payload) bb * bb" "(BlocksFor (length payload) bb - 1) * bb < length payload + 4"
proof -
  let ?t = "length payload + 4"
  have b: "BlocksFor (length payload) bb = (?t + bb - 1) div bb" by (simp add: BlocksFor_def PacketCRCBytes_def)
  have "?t + bb - 1 = (?t + bb - 1) div bb * bb + (?t + bb - 1) mod bb" by simp
  moreover have "(?t + bb - 1) mod bb < bb" using assms by simp
  ultimately show "?t \<le> BlocksFor (length payload) bb * bb" unfolding b by linarith
  have "?t + bb - 1 = ?t - 1 + bb" by simp
  then have "(?t + bb - 1) div bb = Suc ((?t - 1) div bb)"
    using div_add_self2 [of bb "?t - 1"] assms by (simp only:)
  then have "BlocksFor (length payload) bb - 1 = (?t - 1) div bb" by (simp only: b diff_Suc_1)
  moreover have "(?t - 1) div bb * bb \<le> ?t - 1" by simp
  ultimately show "(BlocksFor (length payload) bb - 1) * bb < ?t" by (simp only:)
qed

lemma Rate34Blocks_total:
  assumes "length ud = n * 16" "0 < n" "n \<le> 128" "order \<noteq> Rate34OrderUnknown"
  shows "\<exists>bs. Rate34Blocks ud order = Some bs"
proof -
  have "\<exists>bs. rate34_cut ud order is = Some bs" for "is"
    using assms(4) by (induction "is") (auto simp: rate34_block_def Let_def split: Rate34Order.splits)
  then show ?thesis using assms(1-3) by (auto simp: Rate34Blocks_def Rate34DataBytes_def serialBits_def Let_def)
qed

lemma Rate12_roundtrip:
  assumes "length ud = n * 12" "0 < n"
  shows "\<exists>bs. Rate12Blocks ud = Some bs \<and> length bs = n \<and> Rate12UserData bs = Some ud"
proof -
  let ?bs = "map (\<lambda>k. subslice (k * 12) (k * 12 + 12) ud) [0..<n]"
  have "\<forall>b \<in> set ?bs. length b = 12" using assms(1) by (auto simp: less_eq_Suc_le)
  moreover have "concat ?bs = ud" using concat_chunks [of ud n 12] assms(1) by (simp add: subslice_def)
  ultimately show ?thesis using assms
    by (intro exI [of _ ?bs]) (auto simp: Rate12Blocks_def Rate12UserData_def Rate12DataBytes_def)
qed

text \<open>C36: A packet of a text message survives its blocks: joined with its padding and check into the fewest
  blocks that hold it, it verifies, splits back into the payload and zero padding, and both kinds of block
  carry it, Rate 1/2 blocks of twelve octets and up to 128 Rate 3/4 blocks of sixteen.\<close>

theorem text_packet_roundtrip:
  assumes "bb = Rate12DataBytes \<or> bb = Rate34DataBytes" "n = BlocksFor (length payload) bb"
  shows "\<exists>ud c. JoinPacket payload n bb = Some ud \<and> length ud = n * bb \<and> VerifyPacket ud \<and>
    SplitPacket ud (int (length payload)) = Some (payload, replicate (n * bb - length payload - 4) 0, c) \<and>
    (n - 1) * bb < length payload + PacketCRCBytes \<and>
    (bb = Rate12DataBytes \<longrightarrow> (\<exists>bs. Rate12Blocks ud = Some bs \<and> length bs = n \<and> Rate12UserData bs = Some ud)) \<and>
    (bb = Rate34DataBytes \<and> n \<le> 128 \<longrightarrow>
      (\<exists>bs. Rate34Blocks ud Rate34ControlLast = Some bs \<and> Rate34UserData bs Rate34ControlLast = Some ud))"
proof -
  have bb: "0 < bb" "even bb" using assms(1) by (auto simp: Rate12DataBytes_def Rate34DataBytes_def)
  note F = BlocksFor_fits [OF bb(1), of payload, folded assms(2)]
  have "even (n * bb)" using bb by simp
  then have "even (n * bb - 4)" using F(1) by (simp add: even_diff_nat)
  then obtain ud where ud: "JoinPacket payload n bb = Some ud"
    using F(1) by (auto simp: JoinPacket_def Let_def PacketCRC_crc PadOctets_cases)
  note J = JoinPacket_reads [OF ud]
  have "0 < n" using F(1) by (cases n) simp_all
  then have "bb = Rate12DataBytes \<Longrightarrow> \<exists>bs. Rate12Blocks ud = Some bs \<and> length bs = n \<and> Rate12UserData bs = Some ud"
    using J(1) by (intro Rate12_roundtrip) (simp_all add: Rate12DataBytes_def)
  moreover have "bb = Rate34DataBytes \<and> n \<le> 128 \<Longrightarrow>
      \<exists>bs. Rate34Blocks ud Rate34ControlLast = Some bs \<and> Rate34UserData bs Rate34ControlLast = Some ud"
    using J(1) Rate34Blocks_total [of ud n Rate34ControlLast] \<open>0 < n\<close> by (auto simp: Rate34DataBytes_def Rate34UserData_iff)
  ultimately show ?thesis using ud J F(2) by (auto simp: PacketCRCBytes_def)
qed

theorem text_packet_roundtrip_witness:
  "\<exists>ud. JoinPacket (replicate 30 7) (BlocksFor 30 Rate12DataBytes) Rate12DataBytes = Some ud \<and> VerifyPacket ud"
  using text_packet_roundtrip [of Rate12DataBytes "BlocksFor 30 Rate12DataBytes" "replicate 30 7"] by auto

lemma crc_zeros: "fold (crc_octet poly) (replicate n 0) 0 = 0"
proof -
  have "(crc_bit poly ^^ k) 0 = 0" for k by (induction k) (simp_all add: crc_bit_def)
  then have "crc_octet poly 0 0 = 0" by (simp add: crc_octet_def)
  then show ?thesis by (induction n) simp_all
qed

lemma packet_burst_detected_witness: "\<not> VerifyPacket ([] @ [1, 0] @ replicate 10 0)"
proof (rule packet_burst_detected)
  have "pair_swapped (replicate 8 0) = replicate 8 0"
    unfolding pair_swapped_def by (intro nth_equalityI) (auto simp: xor_Suc_0_eq)
  then have "PacketCRC (replicate 8 0) = Some 0" using crc_zeros [of packetCRCPoly 8] by (simp only: PacketCRC_crc length_replicate) simp
  then have "VerifyPacket (replicate 8 0 @ replicate 4 0)"
    by (simp add: VerifyPacket_def PacketCRCBytes_def get32_def)
  moreover have "replicate 8 0 @ replicate 4 0 = [] @ [0, 0] @ replicate 10 (0 :: byte)"
    by (simp only: replicate_add [symmetric] append_Nil) (simp add: numeral_eq_Suc)
  ultimately show "VerifyPacket ([] @ [0, 0] @ replicate 10 0)" by (simp only:)
qed simp_all

end
