(* ===== verification/Talker_Alias.thy ===== *)
theory Talker_Alias
  imports Link_Control
begin

text \<open>
  \<^verbatim>\<open>internal/dmrfec/talkeralias.go\<close>: a name carried in up to four Link Control messages.  A Go string is
  the list of its runes, which the code ranges over; a format is its number.  \<open>None\<close> is the code's
  error, or its \<^verbatim>\<open>false\<close>.  An alias that is built reads back the same.
\<close>

section \<open>Definitions\<close>

type_synonym rune = u32

definition FLCOTalkerAliasHeader :: byte where
  "FLCOTalkerAliasHeader = 0x04"

definition FLCOTalkerAliasBlock1 :: byte where
  "FLCOTalkerAliasBlock1 = 0x05"

type_synonym TalkerAliasFormat = byte

definition TalkerAlias7Bit :: TalkerAliasFormat where
  "TalkerAlias7Bit = 0"

definition TalkerAliasISO8Bit :: TalkerAliasFormat where
  "TalkerAliasISO8Bit = 1"

definition TalkerAliasUTF8 :: TalkerAliasFormat where
  "TalkerAliasUTF8 = 2"

definition bitsPerChar :: "TalkerAliasFormat \<Rightarrow> nat option" where
  "bitsPerChar f =
     (if f = TalkerAlias7Bit then Some 7
      else if f = TalkerAliasISO8Bit \<or> f = TalkerAliasUTF8 then Some 8
      else None)"

definition TalkerAliasMaxLength :: nat where
  "TalkerAliasMaxLength = 31"

definition headerDataBits :: nat where
  "headerDataBits = 49"

definition blockDataBits :: nat where
  "blockDataBits = 56"

definition isASCII :: "rune list \<Rightarrow> bool" where
  "isASCII s \<longleftrightarrow> (\<forall>r \<in> set s. \<not> r > 0x7F)"

record lcWriter =
  lw_pdu :: "byte list"
  lw_at :: nat

definition lw_write :: "u64 \<Rightarrow> nat \<Rightarrow> lcWriter \<Rightarrow> lcWriter" where
  "lw_write v n w =
     (if lw_at w + n > LinkControlBytes * 8 then w
      else w\<lparr>lw_pdu := writeBits (lw_pdu w) (lw_at w) n v, lw_at := lw_at w + n\<rparr>)"

definition newLCWriter :: "byte \<Rightarrow> lcWriter" where
  "newLCWriter flco =
     lw_write 0 8 (lw_write (ucast flco) 6 (lw_write 0 1 (lw_write 0 1
       \<lparr>lw_pdu = replicate LinkControlBytes 0, lw_at = 0\<rparr>)))"

definition write_chars :: "nat \<Rightarrow> nat \<Rightarrow> rune list \<Rightarrow> lcWriter \<Rightarrow> lcWriter" where
  "write_chars room width chars w =
     fold (\<lambda>i w. lw_write (ucast (if i < length chars then chars ! i else 0)) width w) [0..<room] w"

function alias_blocks :: "nat \<Rightarrow> nat \<Rightarrow> nat \<Rightarrow> rune list \<Rightarrow> byte list list" where
  "alias_blocks width blockRoom k chars =
     (if chars = [] \<or> blockRoom = 0 then []
      else lw_pdu (write_chars blockRoom width chars (newLCWriter (FLCOTalkerAliasBlock1 + of_nat k - 1)))
           # alias_blocks width blockRoom (Suc k) (drop blockRoom chars))"
  by pat_completeness auto
termination
  by (relation "measure (\<lambda>(_, _, _, chars). length chars)") auto

declare alias_blocks.simps [simp del]

definition TalkerAliasPDUs :: "rune list \<Rightarrow> TalkerAliasFormat \<Rightarrow> byte list list option" where
  "TalkerAliasPDUs alias format =
     (case bitsPerChar format of None \<Rightarrow> None
      | Some width \<Rightarrow>
          if width = 8 \<and> \<not> isASCII alias then None
          else if length alias = 0 then None
          else if length alias > TalkerAliasMaxLength then None
          else if width = 7 \<and> (\<exists>r \<in> set alias. r > 0x7F) then None
          else
            let headerRoom = headerDataBits div width;
                blockRoom = blockDataBits div width
            in if length alias > headerRoom + 3 * blockRoom then None
               else
                 let header = lw_write (of_nat (length alias)) 5 (lw_write (ucast format) 2 (newLCWriter FLCOTalkerAliasHeader));
                     header = (if width = 8 then lw_write 0 1 header else header);
                     used = min headerRoom (length alias);
                     header = write_chars headerRoom width (take used alias) header
                 in Some (lw_pdu header # alias_blocks width blockRoom 1 (drop used alias)))"

definition read_chars :: "nat \<Rightarrow> nat \<Rightarrow> nat \<Rightarrow> nat \<Rightarrow> byte list \<Rightarrow> rune list \<Rightarrow> rune list" where
  "read_chars len width room start pdu sb =
     fold (\<lambda>i sb. if length sb < len then sb @ [ucast (readBits pdu (start + i * width) width)] else sb) [0..<room] sb"

fun read_blocks :: "nat \<Rightarrow> nat \<Rightarrow> nat \<Rightarrow> byte list list \<Rightarrow> rune list \<Rightarrow> rune list option" where
  "read_blocks len width i [] sb = Some sb"
| "read_blocks len width i (pdu # pdus) sb =
     (if length pdu \<noteq> LinkControlBytes then None
      else if pdu ! 0 AND 0x3F \<noteq> FLCOTalkerAliasBlock1 + of_nat i then None
      else read_blocks len width (Suc i) pdus (read_chars len width (blockDataBits div width) 16 pdu sb))"

definition TalkerAliasFrom :: "byte list list \<Rightarrow> rune list option" where
  "TalkerAliasFrom pdus =
     (case pdus of [] \<Rightarrow> None
      | head # rest \<Rightarrow>
          if length head \<noteq> LinkControlBytes then None
          else if head ! 0 AND 0x3F \<noteq> FLCOTalkerAliasHeader then None
          else
            let format = ucast (readBits head 16 2); len = unat (readBits head 18 5)
            in (case bitsPerChar format of None \<Rightarrow> None
                | Some width \<Rightarrow>
                    if len = 0 \<or> len > TalkerAliasMaxLength then None
                    else
                      let start = (if width = 8 then 24 else 23);
                          headerRoom = (LinkControlBytes * 8 - start) div width;
                          sb = read_chars len width headerRoom start head []
                      in (case read_blocks len width 0 rest sb of None \<Rightarrow> None
                          | Some out \<Rightarrow> if length out \<noteq> len then None else Some out)))"

section \<open>What a writer has written\<close>

definition field_bits :: "u64 \<times> nat \<Rightarrow> bool list" where
  "field_bits f = map (\<lambda>k. bit (fst f) (snd f - 1 - k)) [0..<snd f]"

definition fields_bits :: "(u64 \<times> nat) list \<Rightarrow> bool list" where
  "fields_bits fs = concat (map field_bits fs)"

definition wrote :: "(u64 \<times> nat) list \<Rightarrow> lcWriter \<Rightarrow> bool" where
  "wrote fs w \<longleftrightarrow> length (lw_pdu w) = 9 \<and> lw_at w = length (fields_bits fs) \<and> lw_at w \<le> 72 \<and>
     (\<forall>i < 72. get_bit (lw_pdu w) i \<longleftrightarrow> i < lw_at w \<and> fields_bits fs ! i)"

lemma fields_bits_simps [simp]: "fields_bits [] = []" "fields_bits (f # fs) = field_bits f @ fields_bits fs"
  "fields_bits (fs @ gs) = fields_bits fs @ fields_bits gs"
  by (simp_all add: fields_bits_def)

lemma length_field_bits [simp]: "length (field_bits f) = snd f"
  by (simp add: field_bits_def)

lemma wrote_write:
  assumes "wrote fs w" "lw_at w + n \<le> 72" "n \<le> 64"
  shows "wrote (fs @ [(v, n)]) (lw_write v n w)"
proof -
  have w: "length (lw_pdu w) = 9" "lw_at w = length (fields_bits fs)" "\<forall>i < 72. get_bit (lw_pdu w) i \<longleftrightarrow> i < lw_at w \<and> fields_bits fs ! i"
    using assms(1) by (simp_all add: wrote_def)
  have e: "lw_write v n w = w\<lparr>lw_pdu := writeBits (lw_pdu w) (lw_at w) n v, lw_at := lw_at w + n\<rparr>"
    using assms(2) by (simp add: lw_write_def LinkControlBytes_def)
  show ?thesis unfolding wrote_def e using assms(2) w
    by (auto simp: get_bit_writeBits nth_append field_bits_def)
qed

lemma readBits_field:
  assumes "wrote (fs @ [(v, n)] @ gs) w" "n \<le> 64" "off = length (fields_bits fs)"
  shows "readBits (lw_pdu w) off n = take_bit n v"
proof (rule bit_word_eqI)
  fix k
  have "length (fields_bits fs) + n \<le> 72" using assms(1) by (auto simp: wrote_def)
  moreover have "fields_bits (fs @ [(v, n)] @ gs) ! (off + j) = bit v (n - 1 - j)" if "j < n" for j
    using that by (simp add: assms(3) nth_append field_bits_def)
  ultimately have "get_bit (lw_pdu w) (off + j) \<longleftrightarrow> bit v (n - 1 - j)" if "j < n" for j
    using assms(1,3) that unfolding wrote_def by simp
  from this [of "n - 1 - k"] have "get_bit (lw_pdu w) (off + (n - 1 - k)) \<longleftrightarrow> bit v k" if "k < n" using that by simp
  then show "bit (readBits (lw_pdu w) off n) k = bit (take_bit n v) k"
    using assms(2) by (auto simp: bit_readBits bit_take_bit_iff)
qed

text \<open>The first octet of every message carries the opcode.\<close>

lemma opcode_octet:
  assumes "wrote ([(0, 1), (0, 1), (ucast flco, 6)] @ gs) w" "take_bit 6 flco = flco"
  shows "lw_pdu w ! 0 AND 0x3F = flco"
proof -
  have "fields_bits ([(0, 1), (0, 1), (ucast flco, 6)] @ gs) ! (2 + k) = bit flco (5 - k)" if "k < 6" for k
    using that by (auto simp: field_bits_def nth_append bit_ucast_iff)
  then have g: "get_bit (lw_pdu w) (2 + k) = bit flco (5 - k)" if "k < 6" for k
    using that assms(1) by (auto simp: wrote_def)
  have "bit (lw_pdu w ! 0) n = bit flco n" if "n < 6" for n
    using g [of "5 - n"] that by (simp add: get_bit_def)
  moreover have m: "x AND 0x3F = take_bit 6 x" for x :: byte by (simp add: take_bit_eq_mask mask_numeral)
  ultimately show ?thesis unfolding m
    by (intro bit_word_eqI) (auto simp: bit_take_bit_iff dest: bit_small [OF _ assms(2)])
qed

lemma wrote_new: "wrote [(0, 1), (0, 1), (ucast flco, 6), (0, 8)] (newLCWriter flco)"
proof -
  let ?w0 = "\<lparr>lw_pdu = replicate LinkControlBytes 0, lw_at = 0\<rparr>"
  have 0: "wrote [] ?w0" by (simp add: wrote_def LinkControlBytes_def)
  note 1 = wrote_write [OF 0, of 1 0, simplified]
  note 2 = wrote_write [OF 1, of 1 0]
  have at: "wrote fs w \<Longrightarrow> lw_at w = length (fields_bits fs)" for fs w by (simp add: wrote_def)
  have 2: "wrote [(0, 1), (0, 1)] (lw_write 0 1 (lw_write 0 1 ?w0))" using 2 at [OF 1] by simp
  have 3: "wrote [(0, 1), (0, 1), (ucast flco, 6)] (lw_write (ucast flco) 6 (lw_write 0 1 (lw_write 0 1 ?w0)))"
    using wrote_write [OF 2, of 6 "ucast flco"] at [OF 2] by simp
  show ?thesis unfolding newLCWriter_def using wrote_write [OF 3, of 8 0] at [OF 3] by simp
qed

definition char_fields :: "nat \<Rightarrow> nat \<Rightarrow> rune list \<Rightarrow> (u64 \<times> nat) list" where
  "char_fields room width chars = map (\<lambda>i. (ucast (if i < length chars then chars ! i else 0), width)) [0..<room]"

lemma length_char_fields: "length (fields_bits (char_fields room width chars)) = room * width"
  by (induction room) (simp_all add: char_fields_def add.commute)

lemma wrote_chars:
  assumes "wrote fs w" "lw_at w + room * width \<le> 72" "width \<le> 64"
  shows "wrote (fs @ char_fields room width chars) (write_chars room width chars w)"
  using assms(2)
proof (induction room)
  case 0
  then show ?case using assms(1) by (simp add: char_fields_def write_chars_def)
next
  case (Suc room)
  then have IH: "wrote (fs @ char_fields room width chars) (write_chars room width chars w)" by simp
  have "lw_at (write_chars room width chars w) = lw_at w + room * width"
    using IH assms(1) by (simp add: wrote_def length_char_fields)
  then show ?case using wrote_write [OF IH, of width "ucast (if room < length chars then chars ! room else 0)"] Suc.prems assms(3)
    by (simp add: char_fields_def write_chars_def algebra_simps)
qed

lemma readBits_char:
  assumes "wrote (fs @ char_fields room width chars) w" "i < room" "width \<le> 64" "start = length (fields_bits fs)"
  shows "readBits (lw_pdu w) (start + i * width) width = take_bit width (ucast (if i < length chars then chars ! i else 0))"
proof (rule readBits_field)
  let ?f = "\<lambda>i. (ucast (if i < length chars then chars ! i else 0) :: u64, width)"
  have "[0..<room] = [0..<i] @ i # [Suc i..<room]" 
    using assms(2) upt_add_eq_append [of 0 i "room - i"] by (simp add: upt_conv_Cons)
  then have "char_fields room width chars = char_fields i width chars @ [?f i] @ map ?f [Suc i..<room]" by (simp add: char_fields_def)
  then show "wrote ((fs @ char_fields i width chars) @ [?f i] @ map ?f [Suc i..<room]) w" using assms(1) by simp
  show "start + i * width = length (fields_bits (fs @ char_fields i width chars))" using assms(4) by (simp add: length_char_fields)
qed (rule assms(3))

lemma read_chars_written:
  assumes "wrote (fs @ char_fields room width chars) w" "width \<le> 64" "start = length (fields_bits fs)"
    "\<forall>r \<in> set chars. take_bit width r = r" "len = length sb + length chars" "n \<le> room"
  shows "read_chars len width n start (lw_pdu w) sb = sb @ take n chars"
  using assms(6)
proof (induction n)
  case (Suc n)
  have "ucast (readBits (lw_pdu w) (start + n * width) width) = chars ! n" if "n < length chars"
  proof -
    have "take_bit width (chars ! n) = chars ! n" using assms(4) that by simp
    then show ?thesis using readBits_char [OF assms(1) _ assms(2,3), of n] Suc.prems that
      by (intro bit_word_eqI) (auto simp: bit_simps dest: bit_small)
  qed
  then show ?case using Suc assms(5) by (auto simp: read_chars_def take_Suc_conv_app_nth)
qed (simp add: read_chars_def)

section \<open>The round trip\<close>

lemma alias_block_reads:
  fixes chars :: "rune list"
  assumes "width = 7 \<or> width = 8" "room = 56 div width" "i < 3"
  defines "pdu \<equiv> lw_pdu (write_chars room width chars (newLCWriter (FLCOTalkerAliasBlock1 + of_nat (Suc i) - 1)))"
  shows "length pdu = 9" "pdu ! 0 AND 0x3F = FLCOTalkerAliasBlock1 + of_nat i"
    "\<forall>r \<in> set chars. take_bit width r = r \<Longrightarrow> len = length sb + length chars \<Longrightarrow>
       read_chars len width (blockDataBits div width) 16 pdu sb = sb @ take room chars"
proof -
  let ?flco = "FLCOTalkerAliasBlock1 + of_nat i"
  let ?fs = "[(0, 1), (0, 1), (ucast ?flco, 6), (0, 8)] :: (u64 \<times> nat) list"
  let ?w = "write_chars room width chars (newLCWriter ?flco)"
  have pdu: "pdu = lw_pdu ?w" by (simp add: pdu_def)
  have w: "width \<le> 64" "room * width \<le> 56" "room = blockDataBits div width"
    using assms(1,2) by (auto simp: blockDataBits_def)
  have at: "lw_at (newLCWriter ?flco) = 16" using wrote_new [of ?flco] by (simp add: wrote_def)
  have r: "wrote (?fs @ char_fields room width chars) ?w"
    by (rule wrote_chars [OF wrote_new]) (use w at in simp_all)
  then show "length pdu = 9" by (simp add: pdu wrote_def)
  have "i \<in> {0, 1, 2}" using assms(3) by auto
  then have "take_bit 6 ?flco = ?flco" by (auto simp: FLCOTalkerAliasBlock1_def)
  moreover have "wrote ([(0, 1), (0, 1), (ucast ?flco, 6)] @ (0, 8) # char_fields room width chars) ?w" using r by simp
  ultimately show "pdu ! 0 AND 0x3F = ?flco" unfolding pdu by (rule opcode_octet [rotated])
  assume "\<forall>r \<in> set chars. take_bit width r = r" "len = length sb + length chars"
  then show "read_chars len width (blockDataBits div width) 16 pdu sb = sb @ take room chars"
    unfolding pdu w(3) [symmetric] by (intro read_chars_written [OF r w(1)]) simp_all
qed

lemma read_alias_blocks:
  assumes "width = 7 \<or> width = 8" "room = 56 div width"
  shows "\<forall>r \<in> set chars. take_bit width r = r \<Longrightarrow> len = length sb + length chars \<Longrightarrow> length chars \<le> n * room \<Longrightarrow> i + n \<le> 3 \<Longrightarrow>
    read_blocks len width i (alias_blocks width room (Suc i) chars) sb = Some (sb @ chars)"
proof (induction n arbitrary: i chars sb)
  case 0
  then show ?case by (simp add: alias_blocks.simps)
next
  case (Suc n)
  have room: "0 < room" using assms by auto
  show ?case
  proof (cases "chars = []")
    case True
    then show ?thesis by (simp add: alias_blocks.simps)
  next
    case False
    note B = alias_block_reads [OF assms, of i chars]
    have "i < 3" using Suc.prems(4) by simp
    have "read_blocks len width (Suc i) (alias_blocks width room (Suc (Suc i)) (drop room chars)) (sb @ take room chars) =
        Some ((sb @ take room chars) @ drop room chars)"
      using Suc.prems by (intro Suc.IH) (auto dest: in_set_dropD)
    then show ?thesis using False room B(1,2) [OF \<open>i < 3\<close>] B(3) [OF \<open>i < 3\<close> Suc.prems(1,2)]
      by (subst alias_blocks.simps) (simp add: LinkControlBytes_def)
  qed
qed

text \<open>An alias that \<open>TalkerAliasPDUs\<close> accepts comes back from its messages unchanged.\<close>

lemma talker_alias_roundtrip:
  assumes "TalkerAliasPDUs alias format = Some pdus"
  shows "TalkerAliasFrom pdus = Some alias \<and> 1 \<le> length pdus"
proof -
  obtain width where w: "bitsPerChar format = Some width" using assms by (auto simp: TalkerAliasPDUs_def split: option.splits)
  define hr where "hr = 49 div width"
  define br where "br = 56 div width"
  have width: "width = 7 \<or> width = 8" using w by (auto simp: bitsPerChar_def split: if_splits)
  have c: "alias \<noteq> []" "length alias \<le> 31" "\<forall>r \<in> set alias. \<not> 0x7F < r" "length alias \<le> hr + 3 * br"
    using assms w width by (auto simp: TalkerAliasPDUs_def isASCII_def TalkerAliasMaxLength_def headerDataBits_def blockDataBits_def
        hr_def br_def Let_def split: if_splits)
  have "take_bit width r = r" if "\<not> 0x7F < r" for r :: rune
  proof -
    have "unat r < 2 ^ 7" using that by (simp add: word_less_nat_alt)
    then have "unat r < 2 ^ width" using width by auto
    then show ?thesis by (simp only: small_unat)
  qed
  then have small: "\<forall>r \<in> set alias. take_bit width r = r" using c(3) by blast
  let ?pre = "[(0, 1), (0, 1), (ucast FLCOTalkerAliasHeader, 6), (0, 8)] :: (u64 \<times> nat) list"
  let ?fs = "?pre @ [(ucast format, 2), (of_nat (length alias), 5)] @ (if width = 8 then [(0, 1)] else [])"
  let ?hb = "lw_write (ucast format) 2 (newLCWriter FLCOTalkerAliasHeader)"
  let ?hc = "lw_write (of_nat (length alias)) 5 ?hb"
  let ?hd = "if width = 8 then lw_write 0 1 ?hc else ?hc"
  let ?h = "write_chars hr width (take (min hr (length alias)) alias) ?hd"
  have p: "pdus = lw_pdu ?h # alias_blocks width br 1 (drop (min hr (length alias)) alias)"
    using assms w by (simp add: TalkerAliasPDUs_def headerDataBits_def blockDataBits_def hr_def br_def Let_def split: if_splits)
  have at: "wrote fs w \<Longrightarrow> lw_at w = length (fields_bits fs)" for fs w by (simp add: wrote_def)
  note n0 = wrote_new [of FLCOTalkerAliasHeader]
  have n1: "wrote (?pre @ [(ucast format, 2)]) ?hb" using at [OF n0] by (intro wrote_write [OF n0]) simp_all
  have n2: "wrote (?pre @ [(ucast format, 2), (of_nat (length alias), 5)]) ?hc"
    using wrote_write [OF n1, of 5 "of_nat (length alias)"] at [OF n1] by simp
  have n3: "wrote ?fs ?hd" using wrote_write [OF n2, of 1 0] at [OF n2] n2 by simp
  have start: "length (fields_bits ?fs) = (if width = 8 then 24 else 23)" by simp
  have r: "wrote (?fs @ char_fields hr width (take (min hr (length alias)) alias)) ?h"
    using at [OF n3] start width by (intro wrote_chars [OF n3]) (auto simp: hr_def)
  have f2: "readBits (lw_pdu ?h) 16 2 = take_bit 2 (ucast format)" using r by (intro readBits_field [of ?pre]) simp_all
  have f5: "readBits (lw_pdu ?h) 18 5 = take_bit 5 (of_nat (length alias))"
    using r by (intro readBits_field [of "?pre @ [(ucast format, 2)]"]) simp_all
  have "format \<in> {0, 1, 2}" using w by (auto simp: bitsPerChar_def TalkerAlias7Bit_def TalkerAliasISO8Bit_def TalkerAliasUTF8_def split: if_splits)
  then have fmt: "ucast (take_bit 2 (ucast format :: u64)) = format" by auto
  have len: "unat (take_bit 5 (of_nat (length alias)) :: u64) = length alias"
    using c(2) by (simp add: unsigned_take_bit_eq unsigned_of_nat take_bit_nat_eq_self_iff)
  have opc: "lw_pdu ?h ! 0 AND 0x3F = FLCOTalkerAliasHeader"
    using r by (intro opcode_octet) (simp_all add: FLCOTalkerAliasHeader_def)
  have rm: "(72 - (if width = 8 then 24 else 23)) div width = hr" using width by (auto simp: hr_def)
  have "char_fields hr width (take (min hr (length alias)) alias) = char_fields hr width alias" by (auto simp: char_fields_def)
  then have "wrote (?fs @ char_fields hr width alias) ?h" using r by (simp only:)
  then have "read_chars (length alias) width hr (length (fields_bits ?fs)) (lw_pdu ?h) [] = [] @ take hr alias"
    by (rule read_chars_written) (use width small in auto)
  then have chars: "read_chars (length alias) width hr (if width = 8 then 24 else 23) (lw_pdu ?h) [] = take hr alias"
    unfolding start by simp
  have "length (drop hr alias) \<le> 3 * br" using c(4) by simp
  then have "read_blocks (length alias) width 0 (alias_blocks width br (Suc 0) (drop hr alias)) (take hr alias) =
      Some (take hr alias @ drop hr alias)"
    using small by (intro read_alias_blocks [OF width br_def, of _ _ _ 3]) (auto dest: in_set_dropD)
  moreover have "drop (min hr (length alias)) alias = drop hr alias" by (simp add: min_def)
  moreover have "length (lw_pdu ?h) = 9" using r by (simp add: wrote_def)
  ultimately show ?thesis
    unfolding p TalkerAliasFrom_def list.case LinkControlBytes_def f2 f5 fmt w option.case len Let_def rm
    using c(1,2) opc by (simp add: rm chars TalkerAliasMaxLength_def)
qed

end
