(* ===== verification/Openbridge.thy ===== *)
theory Openbridge
  imports Hbp_Codec
begin

text \<open>
  \<^verbatim>\<open>internal/protocol/openbridge\<close>: frames between two servers, signed with HMAC-SHA1.  The hash and
  the MAC are Go's standard library and are written out here, so signing and verifying compute.
  The lemmas show that a datagram is accepted exactly when it is the signature of a well-formed
  frame under a passphrase that is not empty, and that what \<open>Encode\<close> sends is accepted and carries
  the frame with the network ID and timeslot 1.
\<close>

section \<open>crypto/sha1 and crypto/hmac\<close>

definition put64 :: "u64 \<Rightarrow> byte list" where
  "put64 w = map (\<lambda>i. ucast (drop_bit (8 * (7 - i)) w)) [0..<8]"

definition sha1_pad :: "byte list \<Rightarrow> byte list" where
  "sha1_pad m = m @ [0x80] @ replicate ((119 - length m mod 64) mod 64) 0 @ put64 (8 * word_of_nat (length m))"

fun sha1_words :: "byte list \<Rightarrow> u32 list" where
  "sha1_words (a # b # c # d # r) = get32 [a, b, c, d] # sha1_words r"
| "sha1_words _ = []"

text \<open>The schedule is built backwards: the newest word is the head.\<close>

primrec sha1_extend :: "nat \<Rightarrow> u32 list \<Rightarrow> u32 list" where
  "sha1_extend 0 ws = ws"
| "sha1_extend (Suc n) ws =
     sha1_extend n (word_rotl 1 (ws ! 2 XOR ws ! 7 XOR ws ! 13 XOR ws ! 15) # ws)"

definition sha1_schedule :: "u32 list \<Rightarrow> u32 list" where
  "sha1_schedule block = rev (sha1_extend 64 (rev block))"

type_synonym sha1_state = "u32 \<times> u32 \<times> u32 \<times> u32 \<times> u32"

definition sha1_f :: "nat \<Rightarrow> u32 \<Rightarrow> u32 \<Rightarrow> u32 \<Rightarrow> u32" where
  "sha1_f t b c d =
     (if t < 20 then (b AND c) OR (NOT b AND d)
      else if t < 40 then b XOR c XOR d
      else if t < 60 then (b AND c) OR (b AND d) OR (c AND d)
      else b XOR c XOR d)"

definition sha1_k :: "nat \<Rightarrow> u32" where
  "sha1_k t = (if t < 20 then 0x5A827999 else if t < 40 then 0x6ED9EBA1
               else if t < 60 then 0x8F1BBCDC else 0xCA62C1D6)"

fun sha1_round :: "nat \<times> u32 \<Rightarrow> sha1_state \<Rightarrow> sha1_state" where
  "sha1_round (t, w) (a, b, c, d, e) =
     (word_rotl 5 a + sha1_f t b c d + e + sha1_k t + w, a, word_rotl 30 b, c, d)"

fun sha1_add :: "sha1_state \<Rightarrow> sha1_state \<Rightarrow> sha1_state" where
  "sha1_add (a, b, c, d, e) (a', b', c', d', e') = (a + a', b + b', c + c', d + d', e + e')"

definition sha1_block :: "u32 list \<Rightarrow> sha1_state \<Rightarrow> sha1_state" where
  "sha1_block block s = sha1_add s (fold sha1_round (enumerate 0 (sha1_schedule block)) s)"

fun sha1_blocks :: "u32 list \<Rightarrow> sha1_state \<Rightarrow> sha1_state" where
  "sha1_blocks ws s =
     (if length ws < 16 then s else sha1_blocks (drop 16 ws) (sha1_block (take 16 ws) s))"

declare sha1_blocks.simps [simp del]

definition sha1_init :: sha1_state where
  "sha1_init = (0x67452301, 0xEFCDAB89, 0x98BADCFE, 0x10325476, 0xC3D2E1F0)"

fun sha1_digest :: "sha1_state \<Rightarrow> byte list" where
  "sha1_digest (a, b, c, d, e) = put32 a @ put32 b @ put32 c @ put32 d @ put32 e"

definition sha1_Sum :: "byte list \<Rightarrow> byte list" where
  "sha1_Sum m = sha1_digest (sha1_blocks (sha1_words (sha1_pad m)) sha1_init)"

definition hmac_key :: "byte list \<Rightarrow> byte list" where
  "hmac_key k = (let k' = if length k > 64 then sha1_Sum k else k in k' @ replicate (64 - length k') 0)"

definition hmac_sha1 :: "byte list \<Rightarrow> byte list \<Rightarrow> byte list" where
  "hmac_sha1 k m = sha1_Sum (map (\<lambda>x. x XOR 0x5C) (hmac_key k) @
     sha1_Sum (map (\<lambda>x. x XOR 0x36) (hmac_key k) @ m))"

text \<open>\<open>hmac.Equal\<close> compares in constant time; its answer is equality.\<close>

definition hmac_Equal :: "byte list \<Rightarrow> byte list \<Rightarrow> bool" where
  "hmac_Equal a b \<longleftrightarrow> a = b"

section \<open>The protocol\<close>

definition FrameSize :: nat where "FrameSize = 53"
definition SignatureSize :: nat where "SignatureSize = 20"
definition PacketSize :: nat where "PacketSize = FrameSize + SignatureSize"

datatype openbridge_error =
    ErrNoPassphrase
  | ErrFrameSize nat
  | ErrShortPacket nat
  | ErrBadSignature
  | ErrNotData
  | ErrFrame hbp_error

definition Sign :: "byte list \<Rightarrow> byte list \<Rightarrow> openbridge_error + byte list" where
  "Sign frame passphrase =
     (if passphrase = [] then Inl ErrNoPassphrase
      else if length frame \<noteq> FrameSize then Inl (ErrFrameSize (length frame))
      else Inr (frame @ hmac_sha1 passphrase frame))"

definition Verify :: "byte list \<Rightarrow> byte list \<Rightarrow> openbridge_error + byte list" where
  "Verify packet passphrase =
     (if passphrase = [] then Inl ErrNoPassphrase
      else if length packet < PacketSize then Inl (ErrShortPacket (length packet))
      else if length packet > PacketSize then Inl (ErrShortPacket (length packet))
      else let frame = take FrameSize packet; sig = drop FrameSize packet in
        if \<not> hmac_Equal (hmac_sha1 passphrase frame) sig then Inl ErrBadSignature
        else Inr frame)"

definition openbridge_Parse :: "json \<Rightarrow> byte list \<Rightarrow> byte list \<Rightarrow> openbridge_error + hbp_data" where
  "openbridge_Parse j packet passphrase =
     (case Verify packet passphrase of
        Inl e \<Rightarrow> Inl e
      | Inr frame \<Rightarrow> (case Parse j frame of
          Inl e \<Rightarrow> Inl (ErrFrame e)
        | Inr (Data d) \<Rightarrow> Inr d
        | Inr _ \<Rightarrow> Inl ErrNotData))"

definition openbridge_Encode :: "hbp_data \<Rightarrow> RepeaterID \<Rightarrow> byte list \<Rightarrow> openbridge_error + byte list" where
  "openbridge_Encode d networkID passphrase =
     (let d = d\<lparr>d_RepeaterID := networkID, d_Timeslot := Timeslot1\<rparr>;
          frame = Data_AppendTo d;
          frame = (if length frame > FrameSize then take FrameSize frame else frame) in
      if length frame < FrameSize then Inl (ErrFrameSize (length frame))
      else Sign frame passphrase)"

section \<open>What is accepted\<close>

lemma length_sha1_Sum [simp]: "length (sha1_Sum m) = 20"
  by (cases "sha1_blocks (sha1_words (sha1_pad m)) sha1_init") (simp add: sha1_Sum_def)

lemma length_hmac_sha1 [simp]: "length (hmac_sha1 k m) = 20"
  by (simp add: hmac_sha1_def)

lemmas sizes = FrameSize_def SignatureSize_def PacketSize_def

lemma Verify_Sign: "Verify packet pass = Inr frame \<longleftrightarrow> Sign frame pass = Inr packet"
proof
  assume "Verify packet pass = Inr frame"
  then have "pass \<noteq> []" "length packet = 73" "frame = take 53 packet"
    "drop 53 packet = hmac_sha1 pass frame"
    by (auto simp: Verify_def hmac_Equal_def sizes Let_def split: if_splits)
  then show "Sign frame pass = Inr packet"
    by (auto simp: Sign_def sizes) (metis append_take_drop_id)
next
  assume "Sign frame pass = Inr packet"
  then show "Verify packet pass = Inr frame"
    by (auto simp: Sign_def Verify_def hmac_Equal_def sizes split: if_splits)
qed

lemma Parse_data_iff: "Parse j b = Inr (Data d) \<longleftrightarrow> wf_data d \<and> Data_AppendTo d = b"
  using homebrew.parse_marshal [of "Data d" j] homebrew.marshal_parse [of j b "Data d"]
  by (auto simp: not_identity_def wf_message_def Marshal_def)

lemma openbridge_Parse_Sign:
  "openbridge_Parse j packet pass = Inr d \<longleftrightarrow> wf_data d \<and> Sign (Data_AppendTo d) pass = Inr packet"
proof -
  have "openbridge_Parse j packet pass = Inr d \<longleftrightarrow>
      (\<exists>frame. Verify packet pass = Inr frame \<and> Parse j frame = Inr (Data d))"
    by (auto simp: openbridge_Parse_def split: sum.splits message.splits)
  then show ?thesis by (auto simp: Verify_Sign Parse_data_iff)
qed

text \<open>
  C23: a datagram is accepted with the frame \<open>d\<close> exactly when the passphrase is not empty and the
  datagram is the 53 octets of the well-formed frame \<open>d\<close>, without trailing octets, followed by
  their HMAC-SHA1 under the passphrase.
\<close>

theorem openbridge_accepts_signed:
  "openbridge_Parse j packet pass = Inr d \<longleftrightarrow>
     pass \<noteq> [] \<and> wf_data d \<and> d_Trailing d = [] \<and>
     packet = Data_AppendTo d @ hmac_sha1 pass (Data_AppendTo d)"
proof (cases "wf_data d")
  case True
  then have "length (Data_AppendTo d) = 53 \<longleftrightarrow> d_Trailing d = []"
    using Data_AppendTo_fields(1) [of d] by simp
  with True show ?thesis by (auto simp: openbridge_Parse_Sign Sign_def sizes)
qed (simp add: openbridge_Parse_Sign)

lemma Data_AppendTo_trimmed:
  assumes "wf_data d"
  shows "take 53 (Data_AppendTo d) = Data_AppendTo (d\<lparr>d_Trailing := []\<rparr>)"
  using assms by (simp add: Data_AppendTo_def wf_data_def bytes_of_def flags_def putID_def)

text \<open>
  what a server sends over a link is read back.  A well-formed frame always encodes, to 73 octets,
  and the far end with the same passphrase reads the frame under the network ID of the link, on
  timeslot 1 and without trailing octets; all else is as it was.
\<close>

lemma openbridge_roundtrip:
  assumes "wf_data d" "pass \<noteq> []"
  shows "\<exists>packet. openbridge_Encode d nid pass = Inr packet \<and> length packet = 73 \<and>
    openbridge_Parse j packet pass =
       Inr (d\<lparr>d_RepeaterID := nid, d_Timeslot := Timeslot1, d_Trailing := []\<rparr>)"
proof -
  let ?d = "d\<lparr>d_RepeaterID := nid, d_Timeslot := Timeslot1\<rparr>"
  let ?t = "?d\<lparr>d_Trailing := []\<rparr>"
  have wf: "wf_data ?d" "wf_data ?t" using assms by (auto simp: wf_data_def)
  have len: "length (Data_AppendTo ?d) = 53 + length (d_Trailing d)" "length (Data_AppendTo ?t) = 53"
    using Data_AppendTo_fields(1) [OF wf(1)] Data_AppendTo_fields(1) [OF wf(2)] by simp_all
  have "take 53 (Data_AppendTo ?d) = Data_AppendTo ?t"
    by (rule Data_AppendTo_trimmed [OF wf(1)])
  then have "(if 53 < length (Data_AppendTo ?d) then take 53 (Data_AppendTo ?d) else Data_AppendTo ?d) =
      Data_AppendTo ?t"
    using len by (metis less_or_eq_imp_le linorder_not_less take_all)
  then have enc: "openbridge_Encode d nid pass = Sign (Data_AppendTo ?t) pass"
    using len(2) by (simp only: openbridge_Encode_def Let_def sizes) simp
  have sign: "Sign (Data_AppendTo ?t) pass = Inr (Data_AppendTo ?t @ hmac_sha1 pass (Data_AppendTo ?t))"
    using assms len(2) by (simp add: Sign_def sizes)
  show ?thesis
    using enc sign wf len(2) by (auto simp: openbridge_Parse_Sign)
qed

definition demo_bridged :: hbp_data where
  "demo_bridged = \<lparr>d_Sequence = 7, d_SourceID = 3100001, d_TargetID = 9, d_RepeaterID = 310001,
     d_Timeslot = Timeslot2, d_CallType = CallGroup, d_FrameType = FrameTypeVoice, d_DataType = 3,
     d_StreamID = 42, d_Payload = replicate 33 0x55, d_Trailing = [1, 2]\<rparr>"

lemma openbridge_roundtrip_witness:
  "wf_data demo_bridged \<and> bytes_of ''pass'' \<noteq> [] \<and>
   (\<exists>packet. openbridge_Encode demo_bridged 3101 (bytes_of ''pass'') = Inr packet \<and> length packet = 73 \<and>
     openbridge_Parse \<lparr>json_Marshal = Map.empty, json_Unmarshal = Map.empty\<rparr> packet (bytes_of ''pass'') =
       Inr (demo_bridged\<lparr>d_RepeaterID := 3101, d_Timeslot := Timeslot1, d_Trailing := []\<rparr>))"
proof -
  have wf: "wf_data demo_bridged" "bytes_of ''pass'' \<noteq> []"
    by (simp_all add: wf_data_def demo_bridged_def bytes_of_def)
  show ?thesis using wf openbridge_roundtrip [OF wf] by blast
qed

end
