(* ===== verification/V24_Wire.thy ===== *)
theory V24_Wire
  imports Prelude
begin

text \<open>
  \<^verbatim>\<open>internal/v24link/stun.go\<close>, \<^verbatim>\<open>hdlc.go\<close> and the \<open>linkState\<close> of \<^verbatim>\<open>listener.go\<close>: the serial tunnel of
  a router, the HDLC frames a repeater sends through it, what each is answered with, and how far the
  link has come.  The reader takes the octets the connection will deliver until it ends.  The
  lemmas show that a tunnel is read exactly as it was written, frame for frame, that the link opens
  from any state, and what is answered.
\<close>

section \<open>The tunnel\<close>

definition Marker :: u16 where "Marker = 0x0831"
definition HeaderLen :: nat where "HeaderLen = 7"
definition MaxPayload :: nat where "MaxPayload = 2104"

abbreviation OpData :: u16 where "OpData \<equiv> 0x0000"
abbreviation OpOpen :: u16 where "OpOpen \<equiv> 0x0002"

datatype v24_error = V24_EOF | V24_UnexpectedEOF | ErrNotTunnel | ErrTooLong nat | V24_CutShort

record tunnel_frame =
  t_Op :: u16
  t_Group :: byte
  t_Payload :: "byte list"

definition ReadFrame :: "byte list \<Rightarrow> v24_error + tunnel_frame \<times> byte list" where
  "ReadFrame r =
     (if r = [] then Inl V24_EOF
      else if length r < HeaderLen then Inl V24_UnexpectedEOF
      else if get16 r \<noteq> Marker then Inl ErrNotTunnel
      else let len = unat (get16 (drop 4 r)); rest = drop HeaderLen r in
        if len > MaxPayload then Inl (ErrTooLong len)
        else if length rest < len then Inl V24_CutShort
        else Inr (\<lparr>t_Op = get16 (drop 2 r), t_Group = r ! 6, t_Payload = take len rest\<rparr>, drop len rest))"

definition Append :: "tunnel_frame \<Rightarrow> byte list" where
  "Append f = put16 Marker @ put16 (t_Op f) @ put16 (word_of_nat (length (t_Payload f))) @
     [t_Group f] @ t_Payload f"

lemma ReadFrame_shrinks: "ReadFrame r = Inr (f, rest) \<Longrightarrow> length rest < length r"
  by (auto simp: ReadFrame_def HeaderLen_def Let_def split: if_splits)

text \<open>The read loop of \<open>serve\<close>: frame after frame, until reading fails.\<close>

function read_frames :: "byte list \<Rightarrow> tunnel_frame list \<times> v24_error" where
  "read_frames r = (case ReadFrame r of
      Inl e \<Rightarrow> ([], e)
    | Inr (f, rest) \<Rightarrow> (case read_frames rest of (fs, e) \<Rightarrow> (f # fs, e)))"
  by pat_completeness auto

termination
  by (relation "measure length") (auto dest: ReadFrame_shrinks)

declare read_frames.simps [simp del]

section \<open>HDLC\<close>

abbreviation pollFinal :: byte where "pollFinal \<equiv> 0x10"
abbreviation controlSABM :: byte where "controlSABM \<equiv> 0x2F"
abbreviation controlUA :: byte where "controlUA \<equiv> 0x63"
abbreviation controlXID :: byte where "controlXID \<equiv> 0xAF"
abbreviation controlRR :: byte where "controlRR \<equiv> 0x01"
abbreviation controlRRMask :: byte where "controlRRMask \<equiv> 0x0F"

record v24_identity =
  id_Name :: string
  id_Address :: byte
  id_StationType :: byte
  id_DefaultSite :: byte

definition AsRepeater :: v24_identity where
  "AsRepeater = \<lparr>id_Name = ''repeater'', id_Address = 0xFD, id_StationType = 0xC2, id_DefaultSite = 2\<rparr>"

definition AsConsole :: v24_identity where
  "AsConsole = \<lparr>id_Name = ''console'', id_Address = 0x0B, id_StationType = 0x00, id_DefaultSite = 13\<rparr>"

definition IdentityNamed :: "string \<Rightarrow> v24_identity option" where
  "IdentityNamed name =
     (if name = '''' \<or> name = id_Name AsRepeater then Some AsRepeater
      else if name = id_Name AsConsole then Some AsConsole
      else None)"

definition MaxSite :: byte where "MaxSite = 127"

datatype v24_kind = KindLinkRequest | KindAcceptance | KindIntroduction | KindReceiveReady | KindUnknown

definition Classify :: "byte list \<Rightarrow> v24_kind" where
  "Classify p =
     (if length p < 2 then KindUnknown
      else let control = p ! 1 in
        if length p = 2 \<and> control AND NOT pollFinal = controlSABM then KindLinkRequest
        else if length p = 2 \<and> control AND NOT pollFinal = controlUA then KindAcceptance
        else if length p = 10 \<and> control AND NOT pollFinal = controlXID \<and> p ! 2 = 0x01 then KindIntroduction
        else if length p = 2 \<and> control AND controlRRMask = controlRR then KindReceiveReady
        else KindUnknown)"

definition Answer :: "byte list \<Rightarrow> byte list option \<times> v24_kind" where
  "Answer p = (let kind = Classify p in
     case kind of
       KindLinkRequest \<Rightarrow> (Some [p ! 0, controlUA OR (p ! 1 AND pollFinal)], kind)
     | KindReceiveReady \<Rightarrow>
         if p ! 1 AND pollFinal \<noteq> 0 then (Some [p ! 0, controlRR OR pollFinal], kind) else (None, kind)
     | _ \<Rightarrow> (None, kind))"

definition LinkRequest :: "v24_identity \<Rightarrow> byte list" where
  "LinkRequest i = [id_Address i, controlSABM OR pollFinal]"

definition Introduction :: "v24_identity \<Rightarrow> byte \<Rightarrow> byte list" where
  "Introduction i site = [id_Address i, controlXID OR pollFinal, 0x01, site * 2 + 1, id_StationType i,
     0x00, 0x00, 0x00, 0x00, 0xFF]"

definition Keepalive :: "v24_identity \<Rightarrow> byte list" where
  "Keepalive i = [id_Address i, controlRR]"

section \<open>How far the link has come\<close>

record linkState =
  ls_theirs :: bool
  ls_ours :: bool
  ls_heard :: bool
  ls_said :: bool
  ls_up :: bool

definition link_new :: linkState where
  "link_new = \<lparr>ls_theirs = False, ls_ours = False, ls_heard = False, ls_said = False, ls_up = False\<rparr>"

definition introduced :: "linkState \<Rightarrow> bool" where
  "introduced s \<longleftrightarrow> ls_heard s \<and> ls_said s"

definition after :: "v24_kind \<Rightarrow> linkState \<Rightarrow> linkState \<times> bool" where
  "after kind s = (case kind of
      KindLinkRequest \<Rightarrow> (link_new\<lparr>ls_theirs := True\<rparr>, False)
    | KindAcceptance \<Rightarrow>
        if ls_ours s then (s, False)
        else let s = s\<lparr>ls_ours := True\<rparr> in
          if ls_theirs s \<and> ls_heard s \<and> \<not> ls_said s then (s\<lparr>ls_said := True\<rparr>, True) else (s, False)
    | KindIntroduction \<Rightarrow>
        (let s = s\<lparr>ls_heard := True\<rparr> in
          if ls_theirs s \<and> ls_ours s then (s\<lparr>ls_said := True\<rparr>, True) else (s, False))
    | KindReceiveReady \<Rightarrow> (if introduced s then (s\<lparr>ls_up := True\<rparr>, False) else (s, False))
    | KindUnknown \<Rightarrow> (s, False))"

section \<open>The tunnel is read as it was written\<close>

definition wf_tunnel :: "tunnel_frame \<Rightarrow> bool" where
  "wf_tunnel f \<longleftrightarrow> length (t_Payload f) \<le> MaxPayload"

lemma length_word16: "n \<le> MaxPayload \<Longrightarrow> unat (word_of_nat n :: u16) = n"
  by (simp add: MaxPayload_def unat_of_nat)

lemma ReadFrame_Append: "wf_tunnel f \<Longrightarrow> ReadFrame (Append f @ r) = Inr (f, r)"
proof -
  assume "wf_tunnel f"
  then have len: "unat (word_of_nat (length (t_Payload f)) :: u16) = length (t_Payload f)"
    "length (t_Payload f) \<le> MaxPayload"
    by (simp_all add: wf_tunnel_def length_word16)
  have "get16 (Append f @ r) = Marker" "get16 (drop 2 (Append f @ r)) = t_Op f"
    "get16 (drop 4 (Append f @ r)) = word_of_nat (length (t_Payload f))"
    "drop 7 (Append f @ r) = t_Payload f @ r" "(Append f @ r) ! 6 = t_Group f"
    "length (Append f @ r) = 7 + length (t_Payload f) + length r"
    by (simp_all add: Append_def nth_append)
  moreover have "Append f @ r \<noteq> []" by (simp add: Append_def put16_def)
  ultimately show ?thesis
    using len by (simp add: ReadFrame_def HeaderLen_def Let_def)
qed

lemma ReadFrame_inverse:
  assumes "ReadFrame r = Inr (f, rest)"
  shows "wf_tunnel f \<and> r = Append f @ rest"
proof -
  define len where "len = unat (get16 (drop 4 r))"
  have r: "7 \<le> length r" "get16 r = Marker" "len \<le> MaxPayload" "len \<le> length (drop 7 r)"
    and f: "f = \<lparr>t_Op = get16 (drop 2 r), t_Group = r ! 6, t_Payload = take len (drop 7 r)\<rparr>"
    and rest: "rest = drop len (drop 7 r)"
    using assms by (auto simp: ReadFrame_def HeaderLen_def Let_def len_def split: if_splits)
  have plen: "length (t_Payload f) = len" using f r(4) by simp
  have fields: "put16 (get16 (take 2 (drop k r))) = take 2 (drop k r)" if "k \<le> 4" for k
    using that r(1) by (intro put16_get16) simp
  have take2: "get16 (take 2 b) = get16 b" if "2 \<le> length b" for b
    using that by (simp add: get16_def)
  have "put16 Marker = take 2 r" "put16 (t_Op f) = take 2 (drop 2 r)"
    using fields [of 0] fields [of 2] r(1,2) f take2 [of r] take2 [of "drop 2 r"] by auto
  moreover have "put16 (word_of_nat len) = take 2 (drop 4 r)"
    using fields [of 4] r(1) take2 [of "drop 4 r"] by (simp add: len_def)
  moreover have "[t_Group f] = take 1 (drop 6 r)"
    using f r(1) by (simp add: take_Suc hd_drop_conv_nth)
  ultimately have "Append f = take 2 r @ take 2 (drop 2 r) @ take 2 (drop 4 r) @ take 1 (drop 6 r) @ t_Payload f"
    using plen by (simp add: Append_def)
  also have "\<dots> = take 7 r @ t_Payload f"
    using take_add [of 2 2 r] take_add [of 4 2 r] take_add [of 6 1 r] by simp
  finally have "Append f @ rest = take 7 r @ take len (drop 7 r) @ drop len (drop 7 r)"
    using f rest by simp
  also have "\<dots> = r" by (simp only: append_take_drop_id)
  finally show ?thesis
    using r(3) plen by (simp add: wf_tunnel_def)
qed

lemma ReadFrame_iff: "ReadFrame r = Inr (f, rest) \<longleftrightarrow> wf_tunnel f \<and> r = Append f @ rest"
  using ReadFrame_Append ReadFrame_inverse by blast

lemma read_frames_exact: "read_frames (concat (map Append fs) @ r) = (fs @ fst (read_frames r), snd (read_frames r))"
  if "list_all wf_tunnel fs"
  using that
proof (induction fs)
  case (Cons f fs)
  then show ?case
    by (subst read_frames.simps) (simp add: ReadFrame_Append split: prod.splits)
qed simp

lemma read_frames_inverse:
  "read_frames r = (fs, e) \<Longrightarrow> \<exists>rest. list_all wf_tunnel fs \<and> r = concat (map Append fs) @ rest \<and> ReadFrame rest = Inl e"
proof (induction r arbitrary: fs rule: read_frames.induct)
  case (1 r)
  show ?case
  proof (cases "ReadFrame r")
    case (Inl d)
    then show ?thesis using "1.prems" by (subst (asm) read_frames.simps) auto
  next
    case (Inr fr)
    obtain f rest where fr: "fr = (f, rest)" by fastforce
    obtain gs where gs: "read_frames rest = (gs, e)" "fs = f # gs"
      using "1.prems" Inr fr by (subst (asm) read_frames.simps) (auto split: prod.splits)
    show ?thesis
      using "1.IH" [OF Inr fr [symmetric] gs(1)] gs(2) Inr by (auto simp: fr ReadFrame_iff)
  qed
qed

text \<open>
  C26: a tunnel is read exactly as it was written.  Reading a connection always ends; the frames read
  are \<open>fs\<close> and the reader saw the connection close cleanly exactly when the connection carried
  the frames \<open>fs\<close>, each within the limit of the serial line, one after another and nothing else,
  however the network had cut them.
\<close>

theorem tunnel_reads_exact:
  "read_frames r = (fs, V24_EOF) \<longleftrightarrow> list_all wf_tunnel fs \<and> r = concat (map Append fs)"
proof
  assume "read_frames r = (fs, V24_EOF)"
  then obtain rest where "list_all wf_tunnel fs" "r = concat (map Append fs) @ rest"
    "ReadFrame rest = Inl V24_EOF"
    using read_frames_inverse by blast
  moreover have "rest = []"
    using \<open>ReadFrame rest = Inl V24_EOF\<close> by (auto simp: ReadFrame_def Let_def split: if_splits)
  ultimately show "list_all wf_tunnel fs \<and> r = concat (map Append fs)" by simp
next
  assume "list_all wf_tunnel fs \<and> r = concat (map Append fs)"
  moreover have "read_frames [] = ([], V24_EOF)"
    by (simp add: read_frames.simps [of "[]"] ReadFrame_def)
  ultimately show "read_frames r = (fs, V24_EOF)"
    using read_frames_exact [of fs "[]"] by simp
qed

section \<open>The link\<close>

text \<open>What holds of every state of the link.\<close>

definition link_inv :: "linkState \<Rightarrow> bool" where
  "link_inv s \<longleftrightarrow> (ls_said s \<longrightarrow> ls_theirs s \<and> ls_ours s \<and> ls_heard s) \<and> (ls_up s \<longrightarrow> introduced s)"

lemma link_inv_after: "link_inv s \<Longrightarrow> link_inv (fst (after k s))"
  by (cases k; cases "ls_theirs s"; cases "ls_ours s"; cases "ls_heard s")
    (auto simp: link_inv_def link_new_def after_def introduced_def)

interpretation v24_link: safe_system "\<lambda>s. s = link_new" "\<lambda>s t. \<exists>k. t = fst (after k s)" link_inv
  by unfold_locales (auto simp: link_inv_after, simp add: link_inv_def link_new_def introduced_def)

lemma introduction_owed:
  "link_inv s \<Longrightarrow> snd (after k s) \<Longrightarrow> ls_theirs s \<and> (ls_ours s \<or> k = KindAcceptance) \<and>
    (ls_heard s \<or> k = KindIntroduction) \<and> introduced (fst (after k s))"
  by (auto simp: after_def introduced_def Let_def split: v24_kind.splits if_splits)

fun link_run :: "v24_kind list \<Rightarrow> linkState \<Rightarrow> linkState \<times> nat" where
  "link_run [] s = (s, 0)"
| "link_run (k # ks) s =
     (let (s', intro) = after k s; (t, n) = link_run ks s' in (t, (if intro then 1 else 0) + n))"

definition opens_link :: "v24_kind list \<Rightarrow> bool" where
  "opens_link ks \<longleftrightarrow> filter (\<lambda>k. k \<noteq> KindUnknown) ks \<in>
     {[KindLinkRequest, KindAcceptance, KindIntroduction, KindReceiveReady],
      [KindLinkRequest, KindIntroduction, KindAcceptance, KindReceiveReady]}"

lemma link_run_unknown: "link_run (filter (\<lambda>k. k \<noteq> KindUnknown) ks) s = link_run ks s"
  by (induction ks arbitrary: s) (auto simp: after_def split: prod.splits)

lemma link_opens:
  assumes "opens_link ks"
  shows "link_run ks s = (\<lparr>ls_theirs = True, ls_ours = True, ls_heard = True, ls_said = True, ls_up = True\<rparr>, 1)"
  using assms
  by (auto simp: opens_link_def link_new_def after_def introduced_def
      link_run_unknown [of ks, symmetric])

section \<open>What is answered\<close>

lemma acceptance_not_answered:
  assumes "Answer p = (Some r, KindLinkRequest)"
  shows "Answer r = (None, KindAcceptance)"
proof -
  have "r = [p ! 0, controlUA OR (p ! 1 AND pollFinal)]"
    using assms by (auto simp: Answer_def Let_def split: v24_kind.splits if_splits)
  moreover have "(a OR (c AND m)) AND NOT m = a AND NOT m" for a c m :: byte
    by (rule bit_word_eqI) (auto simp: bit_simps)
  from this [of controlUA _ pollFinal]
  have "(controlUA OR (c AND pollFinal)) AND - 17 = controlUA" for c :: byte
    by simp
  ultimately show ?thesis by (simp add: Answer_def Classify_def Let_def)
qed

text \<open>
  A keepalive that demands an answer is answered with a keepalive that demands one: the bit that
  demands and the bit that answers are one bit, and \<open>Answer\<close> does not look at which end spoke.
  Two ends that both follow \<open>Answer\<close> never stop.
\<close>

lemma keepalive_answer_answered:
  "Answer p = (Some r, KindReceiveReady) \<Longrightarrow> Answer r = (Some r, KindReceiveReady)"
  by (auto simp: Answer_def Classify_def Let_def split: v24_kind.splits if_splits)

end
