(* ===== verification/P25.thy ===== *)
theory P25
  imports Prelude
begin

text \<open>
  \<^verbatim>\<open>internal/protocol/p25\<close> and \<^verbatim>\<open>internal/p25link/floor.go\<close>: the frames of a P25 gateway, read by
  their type octet and exact length and carried verbatim, the keepalive, the two Link Control
  fields, and the floor the gateways and the Motorola repeaters share.  The lemmas show that
  parsing and marshalling are inverse, also for the keepalive, and that a talker who holds the
  floor keeps everybody else out until it ends its call or goes quiet.
\<close>

section \<open>Frames\<close>

type_synonym p25_kind = byte

abbreviation KindVoice1 :: p25_kind where "KindVoice1 \<equiv> 0x62"
abbreviation KindVoice3 :: p25_kind where "KindVoice3 \<equiv> 0x64"
abbreviation KindVoice4 :: p25_kind where "KindVoice4 \<equiv> 0x65"
abbreviation KindVoice5 :: p25_kind where "KindVoice5 \<equiv> 0x66"
abbreviation KindVoice18 :: p25_kind where "KindVoice18 \<equiv> 0x73"
abbreviation KindTerminator :: p25_kind where "KindTerminator \<equiv> 0x80"
abbreviation KindPoll :: p25_kind where "KindPoll \<equiv> 0xF0"

definition frameLength :: "(p25_kind, nat) gomap" where
  "frameLength =
     [(0x62, 22), (0x63, 14), (0x64, 17), (0x65, 17), (0x66, 17), (0x67, 17), (0x68, 17), (0x69, 17),
      (0x6A, 16),
      (0x6B, 22), (0x6C, 14), (0x6D, 17), (0x6E, 17), (0x6F, 17), (0x70, 17), (0x71, 17), (0x72, 17),
      (0x73, 16), (KindTerminator, 17), (KindPoll, 11)]"

datatype p25_error = P25_ErrShort | P25_ErrUnknownKind | P25_ErrLength | P25_ErrNoLinkControl

record p25_frame =
  f_Kind :: p25_kind
  f_Payload :: "byte list"

definition Voice :: "p25_frame \<Rightarrow> bool" where
  "Voice f \<longleftrightarrow> KindVoice1 \<le> f_Kind f \<and> f_Kind f \<le> KindVoice18"

definition StartsTransmission :: "p25_frame \<Rightarrow> bool" where
  "StartsTransmission f \<longleftrightarrow> f_Kind f = KindVoice1"

definition EndsTransmission :: "p25_frame \<Rightarrow> bool" where
  "EndsTransmission f \<longleftrightarrow> f_Kind f = KindTerminator"

definition p25_Parse :: "byte list \<Rightarrow> p25_error + p25_frame" where
  "p25_Parse b =
     (if length b < 1 then Inl P25_ErrShort
      else let kind = b ! 0 in
        case mget frameLength kind of
          None \<Rightarrow> Inl P25_ErrUnknownKind
        | Some want \<Rightarrow>
            if length b \<noteq> want then Inl P25_ErrLength
            else Inr \<lparr>f_Kind = kind, f_Payload = drop 1 b\<rparr>)"

definition p25_Marshal :: "p25_frame \<Rightarrow> byte list" where
  "p25_Marshal f = f_Kind f # f_Payload f"

section \<open>The keepalive\<close>

text \<open>\<open>raw\<close> is nil in a poll built by hand.\<close>

record p25_poll =
  po_Callsign :: string
  po_raw :: "byte list option"

definition pollCallsignLength :: nat where "pollCallsignLength = 10"

definition is_padding :: "byte \<Rightarrow> bool" where
  "is_padding c \<longleftrightarrow> c = 0x20 \<or> c = 0"

definition trimPadding :: "byte list \<Rightarrow> string" where
  "trimPadding b = string_of (rev (dropWhile is_padding (rev b)))"

definition ParsePoll :: "byte list \<Rightarrow> p25_error + p25_poll" where
  "ParsePoll b = (case p25_Parse b of
      Inl e \<Rightarrow> Inl e
    | Inr f \<Rightarrow> if f_Kind f \<noteq> KindPoll then Inl P25_ErrUnknownKind
        else Inr \<lparr>po_Callsign = trimPadding (f_Payload f), po_raw = Some (f_Payload f)\<rparr>)"

definition NewPoll :: "string \<Rightarrow> p25_poll" where
  "NewPoll callsign =
     (let n = min pollCallsignLength (length callsign);
          padded = take n (bytes_of callsign) @ replicate (pollCallsignLength - n) 0x20 in
      \<lparr>po_Callsign = trimPadding padded, po_raw = Some padded\<rparr>)"

definition poll_Marshal :: "p25_poll \<Rightarrow> byte list" where
  "poll_Marshal p = (case po_raw p of
      Some payload \<Rightarrow> KindPoll # payload
    | None \<Rightarrow> KindPoll # the (po_raw (NewPoll (po_Callsign p))))"

section \<open>Link Control fields\<close>

definition lcOffset :: nat where "lcOffset = 1"
definition lcWidth :: nat where "lcWidth = 3"

definition Talkgroup :: "p25_frame \<Rightarrow> p25_error + u16 \<times> byte" where
  "Talkgroup f =
     (if f_Kind f \<noteq> KindVoice4 then Inl P25_ErrNoLinkControl
      else if length (f_Payload f) < lcOffset + lcWidth - 1 + 1 then Inl P25_ErrShort
      else let lc = take lcWidth (drop (lcOffset - 1) (f_Payload f)) in
        Inr (push_bit 8 (ucast (lc ! 1)) OR ucast (lc ! 2), lc ! 0))"

definition SourceID :: "p25_frame \<Rightarrow> p25_error + u32" where
  "SourceID f =
     (if f_Kind f \<noteq> KindVoice5 then Inl P25_ErrNoLinkControl
      else if length (f_Payload f) < lcOffset + lcWidth - 1 + 1 then Inl P25_ErrShort
      else let lc = take lcWidth (drop (lcOffset - 1) (f_Payload f)) in
        Inr (push_bit 16 (ucast (lc ! 0)) OR push_bit 8 (ucast (lc ! 1)) OR ucast (lc ! 2)))"

section \<open>The floor\<close>

definition FloorHold :: duration where "FloorHold = second"

definition GatewayFloor :: string where "GatewayFloor = ''gateways''"

record floor =
  fl_holder :: string
  fl_last :: time

definition floor_new :: floor where
  "floor_new = \<lparr>fl_holder = '''', fl_last = 0\<rparr>"

definition Take :: "string \<Rightarrow> time \<Rightarrow> floor \<Rightarrow> bool \<times> floor" where
  "Take holder now f =
     (if fl_holder f = '''' \<or> fl_holder f = holder \<or> Sub now (fl_last f) > FloorHold
      then (True, \<lparr>fl_holder = holder, fl_last = now\<rparr>)
      else (False, f))"

definition Release :: "string \<Rightarrow> floor \<Rightarrow> floor" where
  "Release holder f = (if fl_holder f = holder then f\<lparr>fl_holder := ''''\<rparr> else f)"

definition Holder :: "time \<Rightarrow> floor \<Rightarrow> string" where
  "Holder now f = (if fl_holder f \<noteq> '''' \<and> Sub now (fl_last f) > FloorHold then '''' else fl_holder f)"

section \<open>The codec is exact\<close>

definition wf_frame :: "p25_frame \<Rightarrow> bool" where
  "wf_frame f \<longleftrightarrow> mget frameLength (f_Kind f) = Some (length (f_Payload f) + 1)"

lemma p25_Parse_iff: "p25_Parse b = Inr f \<longleftrightarrow> wf_frame f \<and> p25_Marshal f = b"
proof (cases b)
  case Nil
  then show ?thesis by (simp add: p25_Parse_def p25_Marshal_def)
next
  case (Cons x xs)
  then show ?thesis
    by (cases f) (auto simp: p25_Parse_def p25_Marshal_def wf_frame_def Let_def split: option.splits)
qed

interpretation p25: wire_codec p25_Marshal p25_Parse "\<lambda>_. True" wf_frame
  by unfold_locales (auto simp: p25_Parse_iff)

lemma poll_relayed_verbatim: "ParsePoll b = Inr p \<Longrightarrow> poll_Marshal p = b"
  by (auto simp: ParsePoll_def poll_Marshal_def p25_Parse_iff p25_Marshal_def
      split: sum.splits if_splits)

lemma ParsePoll_NewPoll: "ParsePoll (poll_Marshal (NewPoll c)) = Inr (NewPoll c)"
proof -
  define padded where
    "padded = take (min 10 (length c)) (bytes_of c) @ replicate (10 - min 10 (length c)) (0x20 :: byte)"
  have "length padded = 10" by (simp add: padded_def)
  moreover have "NewPoll c = \<lparr>po_Callsign = trimPadding padded, po_raw = Some padded\<rparr>"
    by (simp add: NewPoll_def pollCallsignLength_def padded_def Let_def)
  ultimately show ?thesis
    by (simp add: ParsePoll_def poll_Marshal_def p25_Parse_def frameLength_def mget_def)
qed

lemma voice_kinds: "p25_Parse b = Inr f \<Longrightarrow> Voice f \<longleftrightarrow> f_Kind f \<noteq> KindTerminator \<and> f_Kind f \<noteq> KindPoll"
  by (auto simp: p25_Parse_iff wf_frame_def frameLength_def mget_Cons Voice_def split: if_splits)

section \<open>One talker at a time\<close>

text \<open>What may happen to the floor: any talker asks for it or gives it up, at any moment.\<close>

datatype floor_op = FTake string time | FRelease string

fun floor_step :: "floor_op \<Rightarrow> floor \<Rightarrow> floor" where
  "floor_step (FTake h t) f = snd (Take h t f)"
| "floor_step (FRelease h) f = Release h f"

definition floor_quiet :: "string \<Rightarrow> time \<Rightarrow> time \<Rightarrow> floor_op \<Rightarrow> bool" where
  "floor_quiet h t u op \<longleftrightarrow> (case op of FTake g s \<Rightarrow> t \<le> s \<and> s \<le> u | FRelease g \<Rightarrow> g \<noteq> h)"

lemma Sub_hold: "Sub u t > FloorHold \<longleftrightarrow> u - t > FloorHold"
  using Sub_le_iff [of FloorHold u t]
  by (auto simp: FloorHold_def minDuration_def maxDuration_def not_less [symmetric])

lemma floor_step_keeps:
  assumes "floor_quiet h t u op" "u - t \<le> FloorHold" "h \<noteq> ''''"
    and "fl_holder f = h" "t \<le> fl_last f" "fl_last f \<le> u"
  shows "fl_holder (floor_step op f) = h \<and> t \<le> fl_last (floor_step op f) \<and> fl_last (floor_step op f) \<le> u"
  using assms by (cases op) (auto simp: floor_quiet_def Take_def Release_def Sub_hold)

lemma floor_run_keeps:
  assumes "list_all (floor_quiet h t u) ops" "u - t \<le> FloorHold" "h \<noteq> ''''"
    and "fl_holder f = h" "t \<le> fl_last f" "fl_last f \<le> u"
  shows "fl_holder (fold floor_step ops f) = h \<and> t \<le> fl_last (fold floor_step ops f)"
  using assms by (induction ops arbitrary: f) (auto dest: floor_step_keeps)

text \<open>
  C28: one talker at a time.  Once a talker was granted the floor at \<open>t\<close>, nobody else is granted it at
  any moment within \<open>FloorHold\<close> of \<open>t\<close>, whatever anybody asked or gave up in between, unless the
  talker itself gave it up; and the talker keeps it for every frame it sends meanwhile.
\<close>

theorem floor_one_talker:
  assumes "fst (Take h t f)" "h \<noteq> ''''" "t \<le> u" "u - t \<le> FloorHold"
    and "list_all (floor_quiet h t u) ops"
  shows "fst (Take g u (fold floor_step ops (snd (Take h t f)))) \<longleftrightarrow> g = h"
proof -
  have "fl_holder (snd (Take h t f)) = h" "fl_last (snd (Take h t f)) = t"
    using assms(1) by (auto simp: Take_def split: if_splits)
  then have "fl_holder (fold floor_step ops (snd (Take h t f))) = h"
    "t \<le> fl_last (fold floor_step ops (snd (Take h t f)))"
    using floor_run_keeps [OF assms(5,4,2)] assms(3) by auto
  then show ?thesis using assms(2,4) by (auto simp: Take_def Sub_hold)
qed

theorem floor_one_talker_witness:
  "fst (Take ''repeater 1'' 100 floor_new) \<and>
   (fst (Take GatewayFloor 900 (fold floor_step
      [FTake ''repeater 2'' 200, FRelease ''repeater 2'', FTake ''repeater 1'' 300]
      (snd (Take ''repeater 1'' 100 floor_new)))) \<longleftrightarrow> GatewayFloor = ''repeater 1'')"
proof -
  have "fst (Take ''repeater 1'' 100 floor_new)" by (simp add: Take_def floor_new_def)
  then show ?thesis
    using floor_one_talker [of "''repeater 1''" 100 floor_new 900
        "[FTake ''repeater 2'' 200, FRelease ''repeater 2'', FTake ''repeater 1'' 300]" GatewayFloor]
    by (simp add: floor_quiet_def FloorHold_def)
qed

end
