(* ===== verification/V24_Voice.thy ===== *)
theory V24_Voice
  imports V24_Wire P25
begin

text \<open>
  \<^verbatim>\<open>internal/v24link/voice.go\<close> and \<^verbatim>\<open>pacer.go\<close>: the records a repeater sends, the transmission they
  advance, and the queue and schedule by which records leave towards a repeater.  The lemmas show
  how a transmission begins and ends, and that voice leaves no faster than it is spoken, never
  before its moment, and evenly whenever every record arrives within the hold.
\<close>

section \<open>Records\<close>

abbreviation controlUI :: byte where "controlUI \<equiv> 0x03"
abbreviation recordMarker :: byte where "recordMarker \<equiv> 0x00"
abbreviation markerStart :: byte where "markerStart \<equiv> 0x0C"
abbreviation markerEnd :: byte where "markerEnd \<equiv> 0x25"
abbreviation recordHeader1 :: byte where "recordHeader1 \<equiv> 0x60"
abbreviation recordHeader2 :: byte where "recordHeader2 \<equiv> 0x61"

definition markerLength :: nat where "markerLength = 10"
definition markerWhichByte :: nat where "markerWhichByte = 3"
definition recordHeader1Length :: nat where "recordHeader1Length = 30"
definition recordHeader2Length :: nat where "recordHeader2Length = 22"
definition rtrtByte :: nat where "rtrtByte = 2"

abbreviation rtrtEnabled :: byte where "rtrtEnabled \<equiv> 0x02"
abbreviation rtrtDisabled :: byte where "rtrtDisabled \<equiv> 0x04"

datatype v24_record = RecordUnknown | RecordStart | RecordEnd | RecordHeader | RecordVoice p25_frame

definition ReadRecord :: "byte list \<Rightarrow> v24_record option" where
  "ReadRecord p =
     (if length p < 3 \<or> p ! 1 \<noteq> controlUI then None
      else let body = drop 2 p in
        if body ! 0 = recordMarker then
          (if length body \<noteq> markerLength then Some RecordUnknown
           else if body ! markerWhichByte = markerStart then Some RecordStart
           else if body ! markerWhichByte = markerEnd then Some RecordEnd
           else Some RecordUnknown)
        else if body ! 0 = recordHeader1 then
          (if length body = recordHeader1Length then Some RecordHeader else Some RecordUnknown)
        else if body ! 0 = recordHeader2 then
          (if length body = recordHeader2Length then Some RecordHeader else Some RecordUnknown)
        else (case p25_Parse body of
            Inr f \<Rightarrow> if Voice f then Some (RecordVoice f) else Some RecordUnknown
          | Inl _ \<Rightarrow> Some RecordUnknown))"

definition RTRTDisabled :: "byte list \<Rightarrow> bool option" where
  "RTRTDisabled p =
     (if ReadRecord p \<noteq> Some RecordStart then None
      else if p ! (2 + rtrtByte) = rtrtEnabled then Some False
      else if p ! (2 + rtrtByte) = rtrtDisabled then Some True
      else None)"

section \<open>A transmission\<close>

definition CallTimeout :: duration where "CallTimeout = second"

record v24_call =
  vc_Started :: time
  vc_Ended :: time
  vc_Talkgroup :: u16
  vc_SourceID :: u32
  vc_Frames :: u64
  vc_Marked :: bool
  vc_Carried :: bool
  vc_last :: time
  vc_standard :: bool

definition zero_call :: v24_call where
  "zero_call = \<lparr>vc_Started = 0, vc_Ended = 0, vc_Talkgroup = 0, vc_SourceID = 0, vc_Frames = 0,
     vc_Marked = False, vc_Carried = False, vc_last = 0, vc_standard = False\<rparr>"

definition vc_Duration :: "time \<Rightarrow> v24_call \<Rightarrow> duration" where
  "vc_Duration now c = (if \<not> IsZero (vc_Ended c) then Sub (vc_Ended c) (vc_Started c) else Sub now (vc_Started c))"

text \<open>\<open>linkControl.read\<close>: the flag after the frame, and the talkgroup and radio it names.\<close>

definition lc_read :: "bool \<Rightarrow> p25_frame \<Rightarrow> bool \<times> u16 \<times> u32" where
  "lc_read standard f =
     (if f_Kind f = KindVoice1 then (False, 0, 0)
      else if f_Kind f = KindVoice3 then
        (length (f_Payload f) \<ge> 2 \<and> f_Payload f ! 0 = 0x00 \<and> f_Payload f ! 1 = 0x00, 0, 0)
      else if f_Kind f = KindVoice4 then
        (case Talkgroup f of
           Inr (tg, high) \<Rightarrow> if standard \<and> high = 0 then (standard, tg, 0) else (standard, 0, 0)
         | Inl _ \<Rightarrow> (standard, 0, 0))
      else if f_Kind f = KindVoice5 then
        (case SourceID f of
           Inr src \<Rightarrow> if standard then (standard, 0, src) else (standard, 0, 0)
         | Inl _ \<Rightarrow> (standard, 0, 0))
      else (standard, 0, 0))"

definition hear_voice :: "p25_frame \<Rightarrow> v24_call \<Rightarrow> v24_call" where
  "hear_voice f c =
     (let (standard, tg, src) = lc_read (vc_standard c) f;
          c = c\<lparr>vc_Frames := vc_Frames c + 1, vc_standard := standard\<rparr>;
          c = (if tg \<noteq> 0 then c\<lparr>vc_Talkgroup := tg\<rparr> else c)
      in if src \<noteq> 0 then c\<lparr>vc_SourceID := src\<rparr> else c)"

text \<open>\<open>heard\<close>: the transmission now in progress, the one the record finished, and whether it began one.\<close>

definition heard :: "v24_call option \<Rightarrow> v24_record \<Rightarrow> time \<Rightarrow> v24_call option \<times> v24_call option \<times> bool" where
  "heard call rec now = (case rec of
      RecordStart \<Rightarrow>
        (Some (zero_call\<lparr>vc_Started := now, vc_last := now\<rparr>),
         map_option (\<lambda>c. c\<lparr>vc_Ended := vc_last c\<rparr>) call, True)
    | RecordEnd \<Rightarrow>
        (case call of
           None \<Rightarrow> (None, None, False)
         | Some c \<Rightarrow> (None, Some (c\<lparr>vc_Ended := now, vc_Marked := True\<rparr>), False))
    | RecordHeader \<Rightarrow>
        (let (c, began) = (case call of Some c \<Rightarrow> (c, False)
                           | None \<Rightarrow> (zero_call\<lparr>vc_Started := now\<rparr>, True))
         in (Some (c\<lparr>vc_last := now\<rparr>), None, began))
    | RecordVoice f \<Rightarrow>
        (let (c, began) = (case call of Some c \<Rightarrow> (c, False)
                           | None \<Rightarrow> (zero_call\<lparr>vc_Started := now\<rparr>, True))
         in (Some (hear_voice f (c\<lparr>vc_last := now\<rparr>)), None, began))
    | RecordUnknown \<Rightarrow> (call, None, False))"

definition call_stale :: "time \<Rightarrow> v24_call option \<Rightarrow> bool" where
  "call_stale now call = (case call of None \<Rightarrow> False | Some c \<Rightarrow> Sub now (vc_last c) > CallTimeout)"

section \<open>The schedule\<close>

definition RecordInterval :: duration where "RecordInterval = 20000000"
definition MaxHold :: duration where "MaxHold = 200000000"

record schedule =
  s_hold :: duration
  s_next :: time
  s_last :: time
  s_after :: time
  s_records :: nat
  s_dry :: nat
  s_worstGap :: duration

definition new_schedule :: "duration \<Rightarrow> time \<Rightarrow> schedule" where
  "new_schedule hold aft = \<lparr>s_hold = hold, s_next = 0, s_last = 0, s_after = aft, s_records = 0,
     s_dry = 0, s_worstGap = 0\<rparr>"

definition reset :: "schedule \<Rightarrow> schedule" where
  "reset s = new_schedule (s_hold s) (s_after s)"

definition due :: "time \<Rightarrow> time \<Rightarrow> schedule \<Rightarrow> time \<times> schedule" where
  "due arrived now s =
     (let s = (if \<not> IsZero (s_next s) \<and> Sub arrived (s_last s) > CallTimeout then reset s else s);
          (at, s) = (if IsZero (s_next s) then (arrived + s_hold s, s)
                     else if arrived > s_next s then (arrived, s\<lparr>s_dry := s_dry s + 1\<rparr>)
                     else (s_next s, s));
          at = (if at < now then now else at);
          at = (if at < s_after s then s_after s else at);
          s = (if s_records s > 0 then s\<lparr>s_worstGap := max (s_worstGap s) (Sub arrived (s_last s))\<rparr> else s)
      in (at, s\<lparr>s_records := s_records s + 1, s_last := arrived, s_next := at + RecordInterval,
               s_after := at + RecordInterval\<rparr>))"

text \<open>
  The queue.  \<open>wrote\<close> is the callback run once the frame has been written, here whether the frame
  is counted as sent.
\<close>

record queued =
  q_payload :: "byte list"
  q_kind :: v24_record
  q_arrived :: time
  q_wrote :: bool

record pacer =
  p_queue :: "queued list"
  p_sched :: schedule

definition pacer_new :: "duration \<Rightarrow> pacer" where
  "pacer_new hold = \<lparr>p_queue = [], p_sched = new_schedule hold 0\<rparr>"

definition pacer_send :: "byte list \<Rightarrow> bool \<Rightarrow> time \<Rightarrow> pacer \<Rightarrow> pacer" where
  "pacer_send payload wrote now p =
     p\<lparr>p_queue := p_queue p @ [\<lparr>q_payload = payload,
        q_kind = (case ReadRecord payload of Some r \<Rightarrow> r | None \<Rightarrow> RecordUnknown),
        q_arrived = now, q_wrote = wrote\<rparr>]\<rparr>"

definition take_queued :: "pacer \<Rightarrow> queued option \<times> pacer" where
  "take_queued p = (case p_queue p of [] \<Rightarrow> (None, p) | q # qs \<Rightarrow> (Some q, p\<lparr>p_queue := qs\<rparr>))"

definition discard :: "pacer \<Rightarrow> pacer" where
  "discard p = p\<lparr>p_queue := []\<rparr>"

definition is_voice :: "v24_record \<Rightarrow> bool" where
  "is_voice r = (case r of RecordVoice _ \<Rightarrow> True | _ \<Rightarrow> False)"

text \<open>
  One turn of \<open>run\<close>: the frame at the head, taken at \<open>now\<close>, with the moment it leaves; \<open>ok\<close> is
  whether the tunnel took it.
\<close>

definition pacer_turn :: "time \<Rightarrow> bool \<Rightarrow> pacer \<Rightarrow> (time \<times> queued) option \<times> pacer" where
  "pacer_turn now ok p = (case take_queued p of
      (None, p) \<Rightarrow> (None, p)
    | (Some q, p) \<Rightarrow>
        (let (at, s) = (if is_voice (q_kind q) \<and> s_hold (p_sched p) > 0
                        then (let (d, s) = due (q_arrived q) now (p_sched p) in (if Sub d now > 0 then d else now, s))
                        else (now, p_sched p));
             p = p\<lparr>p_sched := s\<rparr>
         in if \<not> ok then (None, (discard p)\<lparr>p_sched := reset s\<rparr>)
            else (Some (at, q), if q_kind q = RecordEnd then p\<lparr>p_sched := reset s\<rparr> else p)))"

section \<open>How a transmission goes\<close>

lemma heard_began_iff:
  "snd (snd (heard call rec now)) \<longleftrightarrow>
     rec = RecordStart \<or> call = None \<and> rec \<noteq> RecordEnd \<and> rec \<noteq> RecordUnknown"
  by (cases rec; cases call) (auto simp: heard_def)

lemma heard_finished_iff:
  "fst (snd (heard call rec now)) \<noteq> None \<longleftrightarrow> call \<noteq> None \<and> (rec = RecordStart \<or> rec = RecordEnd)"
  by (cases rec; cases call) (auto simp: heard_def Let_def split: prod.splits)

lemma heard_current_iff:
  "fst (heard call rec now) \<noteq> None \<longleftrightarrow> rec \<noteq> RecordEnd \<and> (call \<noteq> None \<or> rec \<noteq> RecordUnknown)"
  by (cases rec; cases call) (auto simp: heard_def Let_def split: prod.splits)

lemma gateway_frame_is_voice:
  assumes "p25_Parse frame = Inr f" "Voice f"
  shows "ReadRecord ([a, controlUI] @ frame) = Some (RecordVoice f)"
proof -
  obtain xs where x: "frame = f_Kind f # xs"
    using assms(1) by (auto simp: p25_Parse_iff p25_Marshal_def)
  have "f_Kind f \<noteq> recordMarker" "f_Kind f \<noteq> recordHeader1" "f_Kind f \<noteq> recordHeader2"
    using assms(2) by (auto simp: Voice_def)
  then show ?thesis using assms x by (simp add: ReadRecord_def Let_def)
qed

section \<open>Voice leaves at the rate it is spoken\<close>

text \<open>
  A run of the pacer: frames are queued and the goroutine takes its turns, in any order.  For every frame
  that was written, when its turn came, when it left, and the frame.
\<close>

datatype pace_event = PSend "byte list" bool time | PTurn time bool

fun pace_run :: "pace_event list \<Rightarrow> pacer \<Rightarrow> (time \<times> time \<times> queued) list" where
  "pace_run [] p = []"
| "pace_run (PSend payload wrote now # evs) p = pace_run evs (pacer_send payload wrote now p)"
| "pace_run (PTurn now ok # evs) p = (case pacer_turn now ok p of
      (None, p) \<Rightarrow> pace_run evs p
    | (Some (at, q), p) \<Rightarrow> (now, at, q) # pace_run evs p)"

definition voices :: "(time \<times> time \<times> queued) list \<Rightarrow> (time \<times> time \<times> queued) list" where
  "voices ws = filter (\<lambda>(_, _, q). is_voice (q_kind q)) ws"

lemma voices_simps [simp]:
  "voices [] = []" "voices ((now, at, q) # ws) = (if is_voice (q_kind q) then (now, at, q) # voices ws else voices ws)"
  by (simp_all add: voices_def)

lemma due_facts:
  "now \<le> fst (due a now s)" "s_after s \<le> fst (due a now s)" "0 < s_hold s \<Longrightarrow> a \<le> fst (due a now s)"
  "s_after (snd (due a now s)) = fst (due a now s) + RecordInterval"
  "s_next (snd (due a now s)) = fst (due a now s) + RecordInterval"
  "s_last (snd (due a now s)) = a" "s_hold (snd (due a now s)) = s_hold s"
  by (auto simp: due_def Let_def reset_def new_schedule_def)

text \<open>One turn.  A voice record with a hold leaves when it is due; everything else leaves at once.\<close>

lemma turn_written:
  assumes "pacer_turn now ok p = (Some (at, q), p')"
  defines "s \<equiv> p_sched p" and "s' \<equiv> p_sched p'"
  shows "if is_voice (q_kind q) \<and> 0 < s_hold s
    then at = fst (due (q_arrived q) now s) \<and> s' = snd (due (q_arrived q) now s)
    else at = now \<and> s' = (if q_kind q = RecordEnd then reset s else s)"
proof -
  have k: "now = fst (due a now sch)" if "\<not> 0 < Sub (fst (due a now sch)) now" for a and sch
    using that due_facts(1) [where now = now and a = a and s = sch] by (auto simp: Sub_def minDuration_def maxDuration_def split: if_splits)
  have e: "q_kind q \<noteq> RecordEnd" if "is_voice (q_kind q)" using that by (auto simp: is_voice_def)
  show ?thesis
    using assms(1) k e
    by (auto simp: pacer_turn_def take_queued_def Let_def case_prod_beta s_def s'_def split: list.splits option.splits if_splits)
qed

lemma turn_silent:
  assumes "pacer_turn now ok p = (None, p')"
  shows "s_after (p_sched p) \<le> s_after (p_sched p')" "s_hold (p_sched p') = s_hold (p_sched p)" "ok \<Longrightarrow> p' = p"
proof -
  have r: "s_after (snd (due a now s)) \<ge> s_after s" for a s using due_facts(2,4) [where now = now and a = a and s = s] by (simp add: RecordInterval_def)
  show "s_after (p_sched p) \<le> s_after (p_sched p')" "s_hold (p_sched p') = s_hold (p_sched p)" "ok \<Longrightarrow> p' = p"
    using assms r
    by (auto simp: pacer_turn_def take_queued_def Let_def case_prod_beta discard_def reset_def new_schedule_def due_facts
      split: list.splits option.splits if_splits)
qed

lemma turn_hold: "pacer_turn now ok p = (w, p') \<Longrightarrow> s_hold (p_sched p') = s_hold (p_sched p)"
  using turn_silent(2) [of now ok p p'] turn_written [of now ok p _ _ p']
  by (cases w) (auto simp: due_facts reset_def new_schedule_def split: if_splits)

lemma turn_after:
  assumes "pacer_turn now ok p = (Some (at, q), p')" "0 < s_hold (p_sched p)"
  shows "is_voice (q_kind q) \<Longrightarrow> s_after (p_sched p) \<le> at \<and> s_after (p_sched p') = at + RecordInterval \<and> now \<le> at \<and> q_arrived q \<le> at"
    and "\<not> is_voice (q_kind q) \<Longrightarrow> s_after (p_sched p') = s_after (p_sched p)"
  using turn_written [OF assms(1)] assms(2) due_facts [where now = now and a = "q_arrived q" and s = "p_sched p"]
  by (auto simp: reset_def new_schedule_def split: if_splits)

lemma pacer_send_sched [simp]: "p_sched (pacer_send payload wrote now p) = p_sched p"
  by (simp add: pacer_send_def)

lemma pace_run_after:
  "0 < s_hold (p_sched p) \<Longrightarrow> \<forall>(now, at, q) \<in> set (voices (pace_run evs p)). s_after (p_sched p) \<le> at \<and> now \<le> at \<and> q_arrived q \<le> at"
proof (induction evs p rule: pace_run.induct)
  case (3 now ok evs p)
  have i: "0 \<le> RecordInterval" by (simp add: RecordInterval_def)
  obtain w p' where t: "pacer_turn now ok p = (w, p')" by (cases "pacer_turn now ok p")
  have h: "0 < s_hold (p_sched p')" using turn_hold [OF t] "3.prems" by simp
  show ?case
  proof (cases w)
    case None
    then show ?thesis using "3.IH"(1) [OF t [symmetric, unfolded None] refl h] turn_silent(1) [of now ok p p'] t by fastforce
  next
    case (Some x)
    obtain at q where x: "x = (at, q)" by (cases x)
    note tt = turn_after [OF t [unfolded Some x] "3.prems"]
    have ih: "\<forall>(now, at, q) \<in> set (voices (pace_run evs p')). s_after (p_sched p') \<le> at \<and> now \<le> at \<and> q_arrived q \<le> at"
      using "3.IH"(2) [OF t [symmetric] Some x [symmetric] h] .
    show ?thesis using ih tt i by (cases "is_voice (q_kind q)") (fastforce simp: t Some x)+
  qed
qed simp_all

lemma pace_run_spaced:
  "0 < s_hold (p_sched p) \<Longrightarrow> sorted_wrt (\<lambda>(_, d, _) (_, e, _). d + RecordInterval \<le> e) (voices (pace_run evs p))"
proof (induction evs p rule: pace_run.induct)
  case (3 now ok evs p)
  obtain w p' where t: "pacer_turn now ok p = (w, p')" by (cases "pacer_turn now ok p")
  have h: "0 < s_hold (p_sched p')" using turn_hold [OF t] "3.prems" by simp
  show ?case
  proof (cases w)
    case None
    then show ?thesis using "3.IH"(1) [OF t [symmetric, unfolded None] refl h] t by simp
  next
    case (Some x)
    obtain at q where x: "x = (at, q)" by (cases x)
    show ?thesis
      using "3.IH"(2) [OF t [symmetric] Some x [symmetric] h] pace_run_after [OF h, of evs] turn_after(1) [OF t [unfolded Some x] "3.prems"]
      by (fastforce simp: t Some x)
  qed
qed simp_all

lemma pace_run_at_once: "\<not> 0 < s_hold (p_sched p) \<Longrightarrow> \<forall>(now, at, q) \<in> set (pace_run evs p). at = now"
proof (induction evs p rule: pace_run.induct)
  case (3 now ok evs p)
  obtain w p' where t: "pacer_turn now ok p = (w, p')" by (cases "pacer_turn now ok p")
  have h: "\<not> 0 < s_hold (p_sched p')" using turn_hold [OF t] "3.prems" by simp
  show ?case
  proof (cases w)
    case None
    then show ?thesis using "3.IH"(1) [OF t [symmetric, unfolded None] refl h] t by simp
  next
    case (Some x)
    obtain at q where x: "x = (at, q)" by (cases x)
    show ?thesis
      using "3.IH"(2) [OF t [symmetric] Some x [symmetric] h] turn_written [OF t [unfolded Some x]] "3.prems" by (simp add: t Some x split: if_splits)
  qed
qed simp_all

text \<open>The schedule by itself, for records with the instants they arrived and had their turn.\<close>

fun departures :: "(time \<times> time) list \<Rightarrow> schedule \<Rightarrow> time list" where
  "departures [] s = []"
| "departures ((a, n) # ops) s = fst (due a n s) # departures ops (snd (due a n s))"

definition arrivals :: "(time \<times> time \<times> queued) list \<Rightarrow> (time \<times> time) list" where
  "arrivals ws = map (\<lambda>(now, _, q). (q_arrived q, now)) ws"

text \<open>No write fails, and no end of a call is among what is written.\<close>

definition all_taken :: "pace_event list \<Rightarrow> bool" where
  "all_taken evs = list_all (\<lambda>ev. case ev of PTurn now ok \<Rightarrow> ok | _ \<Rightarrow> True) evs"

definition no_end :: "(time \<times> time \<times> queued) list \<Rightarrow> bool" where
  "no_end ws = list_all (\<lambda>(_, _, q). q_kind q \<noteq> RecordEnd) ws"

lemma pace_run_departures:
  "0 < s_hold (p_sched p) \<Longrightarrow> all_taken evs \<Longrightarrow> no_end (pace_run evs p) \<Longrightarrow>
    map (\<lambda>(_, at, _). at) (voices (pace_run evs p)) = departures (arrivals (voices (pace_run evs p))) (p_sched p)"
proof (induction evs p rule: pace_run.induct)
  case (3 now ok evs p)
  obtain w p' where t: "pacer_turn now ok p = (w, p')" by (cases "pacer_turn now ok p")
  have h: "0 < s_hold (p_sched p')" using turn_hold [OF t] "3.prems"(1) by simp
  have o: "ok" "all_taken evs" using "3.prems"(2) by (simp_all add: all_taken_def)
  show ?case
  proof (cases w)
    case None
    then have "p' = p" using turn_silent(3) [of now ok p p'] t o(1) by simp
    then show ?thesis using "3.IH"(1) [OF t [symmetric, unfolded None] refl h o(2)] "3.prems"(3) t None by simp
  next
    case (Some x)
    obtain at q where x: "x = (at, q)" by (cases x)
    have e: "q_kind q \<noteq> RecordEnd" "no_end (pace_run evs p')" using "3.prems"(3) by (simp_all add: t Some x no_end_def)
    show ?thesis
      using "3.IH"(2) [OF t [symmetric] Some x [symmetric] h o(2) e(2)] turn_written [OF t [unfolded Some x]] "3.prems"(1) e(1)
      by (auto simp: t Some x arrivals_def split: if_splits)
  qed
qed (simp_all add: arrivals_def all_taken_def)

lemma Sub_timeout: "Sub u t > CallTimeout \<longleftrightarrow> u - t > CallTimeout"
  using Sub_le_iff [of CallTimeout u t]
  by (auto simp: CallTimeout_def minDuration_def maxDuration_def not_less [symmetric])

text \<open>Records of one call that each come by their moment, none more than a second after the last.\<close>

fun on_time :: "time \<Rightarrow> time \<Rightarrow> (time \<times> time) list \<Rightarrow> bool" where
  "on_time nxt prev [] = True"
| "on_time nxt prev ((a, n) # ops) \<longleftrightarrow>
     a \<le> nxt \<and> n \<le> nxt \<and> a - prev \<le> CallTimeout \<and> on_time (nxt + RecordInterval) a ops"

lemma departures_even:
  assumes "on_time (s_next s) (s_last s) ops" "0 < s_next s" "s_after s = s_next s"
  shows "departures ops s = map (\<lambda>i. s_next s + int i * RecordInterval) [0..<length ops]"
  using assms
proof (induction ops arbitrary: s)
  case (Cons op ops)
  obtain a n where op: "op = (a, n)" by (cases op)
  have d: "fst (due a n s) = s_next s"
    using Cons.prems op by (simp add: due_def Let_def IsZero_def Sub_timeout)
  define s' where "s' = snd (due a n s)"
  have s': "s_next s' = s_next s + RecordInterval" "s_after s' = s_next s'" "s_last s' = a"
    using due_facts [where a = a and now = n and s = s] d by (simp_all add: s'_def)
  have "departures ops s' = map (\<lambda>i. s_next s' + int i * RecordInterval) [0..<length ops]"
    using Cons.prems op s' by (intro Cons.IH) (auto simp: RecordInterval_def)
  then show ?case
    using d op by (simp add: s'_def [symmetric] s' map_upt_Suc algebra_simps del: upt_Suc)
qed simp

lemma call_even:
  assumes "s_next s = 0" "0 < a" "0 < s_hold s" "s_after s \<le> a + s_hold s" "n \<le> a + s_hold s" "on_time (a + s_hold s + RecordInterval) a ops"
  shows "departures ((a, n) # ops) s = map (\<lambda>i. a + s_hold s + int i * RecordInterval) [0..<Suc (length ops)]"
proof -
  have d: "fst (due a n s) = a + s_hold s" using assms by (simp add: due_def Let_def IsZero_def)
  define s' where "s' = snd (due a n s)"
  have s': "s_next s' = a + s_hold s + RecordInterval" "s_after s' = s_next s'" "s_last s' = a"
    using due_facts [where a = a and now = n and s = s] d by (simp_all add: s'_def)
  have "departures ops s' = map (\<lambda>i. s_next s' + int i * RecordInterval) [0..<length ops]"
    using assms s' by (intro departures_even) (auto simp: RecordInterval_def)
  then show ?thesis using d by (simp add: s'_def [symmetric] s' map_upt_Suc algebra_simps del: upt_Suc)
qed

text \<open>A call from its first record: with no call open and nothing else owed, its records coming by their moments.\<close>

fun comes_by :: "(time \<times> time) list \<Rightarrow> schedule \<Rightarrow> bool" where
  "comes_by [] s \<longleftrightarrow> True"
| "comes_by ((a, n) # ops) s \<longleftrightarrow> s_next s = 0 \<and> 0 < a \<and> s_after s \<le> a + s_hold s \<and> n \<le> a + s_hold s \<and>
     on_time (a + s_hold s + RecordInterval) a ops"

text \<open>
  C27: voice towards a repeater leaves at the rate it is spoken.  With a hold, whatever is queued and however
  late the turns come, the voice records the pacer writes leave at least twenty milliseconds apart, also from one call to the next, and
  none leaves before it arrived or before its turn; and when no write fails and the records of a call come by their moments, from the first,
  which finds the line free, they leave the hold after the first arrived and exactly twenty milliseconds apart.  With no
  hold every frame leaves as soon as its turn comes.
\<close>

theorem voice_is_paced:
  fixes p :: pacer and evs :: "pace_event list"
  defines "h \<equiv> s_hold (p_sched p)" and "ws \<equiv> pace_run evs p"
  defines "vs \<equiv> voices ws"
  shows "if 0 < h
    then sorted_wrt (\<lambda>(_, d, _) (_, e, _). d + RecordInterval \<le> e) vs \<and>
      (\<forall>(now, at, q) \<in> set vs. now \<le> at \<and> q_arrived q \<le> at) \<and>
      (all_taken evs \<and> no_end ws \<and> vs \<noteq> [] \<and> comes_by (arrivals vs) (p_sched p) \<longrightarrow>
        map (\<lambda>(_, at, _). at) vs = map (\<lambda>i. q_arrived (snd (snd (hd vs))) + h + int i * RecordInterval) [0..<length vs])
    else \<forall>(now, at, q) \<in> set ws. at = now"
proof (cases "0 < h")
  case True
  then have h: "0 < s_hold (p_sched p)" by (simp add: h_def)
  have "map (\<lambda>(_, at, _). at) vs = map (\<lambda>i. q_arrived (snd (snd (hd vs))) + h + int i * RecordInterval) [0..<length vs]"
    if a: "all_taken evs" "no_end ws" "vs \<noteq> []" "comes_by (arrivals vs) (p_sched p)"
  proof -
    obtain n d q vs' where vs: "vs = (n, d, q) # vs'" using a(3) by (cases vs) auto
    have "map (\<lambda>(_, at, _). at) vs = departures (arrivals vs) (p_sched p)"
      using pace_run_departures [OF h a(1)] a(2) by (simp add: vs_def ws_def)
    also have "arrivals vs = (q_arrived q, n) # arrivals vs'" by (simp add: vs arrivals_def)
    also have "departures \<dots> (p_sched p) = map (\<lambda>i. q_arrived q + h + int i * RecordInterval) [0..<Suc (length (arrivals vs'))]"
      unfolding h_def by (rule call_even) (use a(4) h in \<open>simp_all add: vs arrivals_def\<close>)
    finally show ?thesis by (simp add: vs arrivals_def del: upt_Suc)
  qed
  moreover have "\<forall>(now, at, q) \<in> set vs. now \<le> at \<and> q_arrived q \<le> at" using pace_run_after [OF h, of evs] by (auto simp: vs_def ws_def)
  ultimately show ?thesis using True pace_run_spaced [OF h, of evs] by (simp add: vs_def ws_def)
next
  case False
  then show ?thesis using pace_run_at_once [of p evs] by (simp add: h_def ws_def)
qed

definition demo_record :: queued where
  "demo_record = \<lparr>q_payload = [], q_kind = RecordVoice \<lparr>f_Kind = 0x62, f_Payload = []\<rparr>, q_arrived = 1000000000, q_wrote = False\<rparr>"

definition demo_pacer :: pacer where
  "demo_pacer = (pacer_new 200000000)\<lparr>p_queue := [demo_record, demo_record\<lparr>q_arrived := 1130000000\<rparr>, demo_record\<lparr>q_arrived := 1131000000\<rparr>]\<rparr>"

definition demo_turns :: "pace_event list" where
  "demo_turns = [PTurn 1000000000 True, PTurn 1200000000 True, PTurn 1220000000 True]"

theorem voice_is_paced_witness:
  "map (\<lambda>(_, at, _). at) (voices (pace_run demo_turns demo_pacer)) = [1200000000, 1220000000, 1240000000] \<and>
   comes_by (arrivals (voices (pace_run demo_turns demo_pacer))) (p_sched demo_pacer)"
proof -
  let ?ws = "pace_run demo_turns demo_pacer"
  have c: "all_taken demo_turns" "no_end ?ws" "voices ?ws \<noteq> []" "comes_by (arrivals (voices ?ws)) (p_sched demo_pacer)"
    "s_hold (p_sched demo_pacer) = 200000000" "q_arrived (snd (snd (hd (voices ?ws)))) = 1000000000" "length (voices ?ws) = 3"
    by code_simp+
  then show ?thesis using voice_is_paced [of demo_pacer demo_turns] by (simp add: RecordInterval_def upt_rec)
qed

end
