(* ===== verification/V24_Relay.thy ===== *)
theory V24_Relay
  imports V24_Voice
begin

text \<open>
  \<^verbatim>\<open>internal/v24link/relay.go\<close>, \<^verbatim>\<open>inbound.go\<close> and what \<^verbatim>\<open>listener.go\<close> does with a frame, a timer, a new
  tunnel and a closed one: which repeater's call is carried, to whom, and who is owed its end.
  Everything that happens with \<open>callMu\<close> held is one step.  What a repeater is to be sent is the
  output \<open>Send\<close>, which its pacer queues; the third argument says whether the frame is counted once it
  was written.  A map is ranged over in the order of its association list; every repeater is treated
  by itself, so the order makes no difference.

  Log lines and the wording of the record are not modelled; what the tracker of calls is told is the
  outputs \<open>Heard_call\<close> and \<open>Finished_call\<close>.
\<close>

section \<open>State\<close>

definition startMarker :: "byte list" where
  "startMarker = [0x07, controlUI, recordMarker, 0x02, 0x02, markerStart, 0x0B, 0, 0, 0, 0, 0]"

definition endMarker :: "byte list" where
  "endMarker = [0x07, controlUI, recordMarker, 0x02, 0x02, markerEnd, 0x0B, 0, 0, 0, 0, 0]"

definition uiAddress :: byte where "uiAddress = 0x07"

definition capturedHeader1 :: "byte list" where
  "capturedHeader1 = [uiAddress, controlUI,
     0x60, 0x02, 0x02, 0x0C, 0x0B, 0x1B, 0x38, 0x1A, 0x4D, 0x00,
     0x00, 0x00, 0x00, 0x00, 0x00, 0x00, 0x00, 0x00, 0x00, 0x00,
     0x00, 0x00, 0x00, 0x08, 0x00, 0x00, 0x00, 0x00, 0x00, 0x06]"

definition capturedHeader2 :: "byte list" where
  "capturedHeader2 = [uiAddress, controlUI,
     0x61, 0x00, 0x01, 0x17, 0x14, 0x2A, 0x10, 0x33, 0x31, 0x00,
     0x39, 0x2A, 0x22, 0x04, 0x23, 0x12, 0x11, 0x0A, 0x00, 0x03, 0x0C, 0x02]"

record station =
  st_router :: string
  st_holder :: string
  st_send :: bool
  st_Connected :: time
  st_Introduced :: bool
  st_Site :: byte
  st_StationType :: byte
  st_Up :: bool
  st_UpSince :: time
  st_Frames :: u64
  st_Calls :: u64
  st_Relayed :: u64
  st_Held :: u64
  st_Sent :: u64
  st_RTRTDisabled :: bool
  st_Transmitting :: bool
  st_Talkgroup :: u16
  st_SourceID :: u32
  st_LastHeard :: time
  st_call :: "v24_call option"
  st_group :: byte
  st_relaying :: bool
  st_receiving :: string
  st_link :: linkState

record v24_listener =
  l_id :: v24_identity
  l_site :: byte
  l_sendHeader :: bool
  l_hasGateways :: bool
  l_maxTunnels :: nat
  l_allowed :: "string list"
  l_nextID :: nat
  l_stations :: "(nat, station) gomap"
  l_floor :: floor
  l_up :: int
  l_voice :: u64
  l_calls :: u64
  l_relayed :: u64
  l_held :: u64
  l_sent :: u64
  l_answered :: u64
  l_unknown :: u64
  l_refused :: u64
  l_toGateways :: string
  l_inboundLast :: time

datatype end_reason = EndMarked | EndQuiet | EndLinkClosed

datatype v24_out =
    Send nat "byte list" bool
  | Reply nat byte "byte list"
  | ToGateways "byte list"
  | EndToGateways
  | Heard_call string v24_call
  | Finished_call string v24_call end_reason
  | CloseTunnel nat
  | RefuseTunnel string

type_synonym v24_result = "v24_listener \<times> v24_out list"

definition new_station :: "nat \<Rightarrow> string \<Rightarrow> time \<Rightarrow> station" where
  "new_station i router now =
     \<lparr>st_router = router, st_holder = ''repeater '' @ FormatUint i, st_send = False, st_Connected = now,
      st_Introduced = False, st_Site = 0, st_StationType = 0, st_Up = False, st_UpSince = 0,
      st_Frames = 0, st_Calls = 0, st_Relayed = 0, st_Held = 0, st_Sent = 0, st_RTRTDisabled = False,
      st_Transmitting = False, st_Talkgroup = 0, st_SourceID = 0, st_LastHeard = 0, st_call = None,
      st_group = 0, st_relaying = False, st_receiving = '''', st_link = link_new\<rparr>"

definition put_station :: "nat \<Rightarrow> station \<Rightarrow> v24_listener \<Rightarrow> v24_listener" where
  "put_station i st l = l\<lparr>l_stations := mput i st (l_stations l)\<rparr>"

section \<open>Sending a call to the repeaters\<close>

definition linked :: "station \<Rightarrow> bool" where
  "linked st \<longleftrightarrow> st_Up st \<and> st_send st"

definition markers :: "string \<Rightarrow> string \<Rightarrow> bool \<Rightarrow> bool \<Rightarrow> byte list list" where
  "markers was talker isStart header =
     (if was \<noteq> talker then
        (if was \<noteq> '''' then [endMarker, endMarker] else []) @
        (if \<not> isStart then startMarker # (if header then [capturedHeader1, capturedHeader2] else []) else [])
      else [])"

definition hears :: "nat option \<Rightarrow> nat \<Rightarrow> station \<Rightarrow> bool" where
  "hears except k o' \<longleftrightarrow> linked o' \<and> Some k \<noteq> except"

definition toRepeaters ::
  "string \<Rightarrow> nat option \<Rightarrow> byte list \<Rightarrow> bool \<Rightarrow> bool \<Rightarrow> bool \<Rightarrow> v24_listener \<Rightarrow> v24_result" where
  "toRepeaters talker except payload isStart header wrote l =
     (l\<lparr>l_stations := mmap (\<lambda>k o'. if hears except k o' then o'\<lparr>st_receiving := talker\<rparr> else o') (l_stations l)\<rparr>,
      concat (map (\<lambda>(k, o').
        if hears except k o' then
          map (\<lambda>p. Send k p False) (markers (st_receiving o') talker isStart header) @ [Send k payload wrote]
        else []) (l_stations l)))"

definition listening :: "string \<Rightarrow> station \<Rightarrow> bool" where
  "listening talker o' \<longleftrightarrow> linked o' \<and> st_receiving o' = talker"

definition endAtRepeaters :: "string \<Rightarrow> v24_listener \<Rightarrow> v24_result" where
  "endAtRepeaters talker l =
     (l\<lparr>l_stations := mmap (\<lambda>k o'. if listening talker o' then o'\<lparr>st_receiving := ''''\<rparr> else o') (l_stations l)\<rparr>,
      concat (map (\<lambda>(k, o').
        if listening talker o' then [Send k endMarker False, Send k endMarker False] else []) (l_stations l)))"

definition endRelay :: "nat \<Rightarrow> v24_listener \<Rightarrow> v24_result" where
  "endRelay i l = (case mget (l_stations l) i of
      None \<Rightarrow> (l, [])
    | Some st \<Rightarrow>
        if \<not> st_relaying st then (l, [])
        else
          let l = put_station i (st\<lparr>st_relaying := False\<rparr>) l;
              (l, ends) = endAtRepeaters (st_holder st) l;
              (l, gw) = (if l_toGateways l = st_holder st
                         then (l\<lparr>l_toGateways := ''''\<rparr>, if l_hasGateways l then [EndToGateways] else [])
                         else (l, []))
          in (l\<lparr>l_floor := Release (st_holder st) (l_floor l)\<rparr>, ends @ gw))"

text \<open>The part of \<open>relay\<close> that carries one record onward.\<close>

definition carry_record :: "nat \<Rightarrow> station \<Rightarrow> byte list \<Rightarrow> v24_record \<Rightarrow> v24_listener \<Rightarrow> v24_result" where
  "carry_record i st payload rec l =
     (let (l, sends) = toRepeaters (st_holder st) (Some i) payload (rec = RecordStart) False (is_voice rec) l in
      if \<not> is_voice rec then (l, sends)
      else
        let (l, gw) =
              (if l_hasGateways l
               then (l\<lparr>l_toGateways := st_holder st\<rparr>,
                     (if l_toGateways l \<noteq> '''' \<and> l_toGateways l \<noteq> st_holder st then [EndToGateways] else []) @
                     [ToGateways (drop 2 payload)])
               else (l, []));
            l = l\<lparr>l_relayed := l_relayed l + 1\<rparr>;
            l = (case mget (l_stations l) i of
                   Some st \<Rightarrow> put_station i (st\<lparr>st_Relayed := st_Relayed st + 1\<rparr>) l | None \<Rightarrow> l)
        in (l, sends @ gw))"

text \<open>A transmission that begins asks for the floor.\<close>

definition begin_relay :: "nat \<Rightarrow> station \<Rightarrow> time \<Rightarrow> v24_listener \<Rightarrow> v24_result \<times> bool" where
  "begin_relay i st now l =
     (let (relaying, fl) = Take (st_holder st) now (l_floor l);
          st = st\<lparr>st_relaying := relaying, st_call := map_option (\<lambda>c. c\<lparr>vc_Carried := relaying\<rparr>) (st_call st),
                  st_Held := (if \<not> relaying then st_Held st + 1 else st_Held st)\<rparr>;
          l = l\<lparr>l_floor := fl\<rparr>
      in if \<not> relaying then (((put_station i st l)\<lparr>l_held := l_held l + 1\<rparr>, []), False)
         else ((put_station i (st\<lparr>st_receiving := ''''\<rparr>) l,
                if st_receiving st \<noteq> '''' \<and> linked st
                then [Send i endMarker False, Send i endMarker False] else []), True))"

text \<open>\<open>relay\<close>: the result, whether the transmission is carried, and whether it was lost.\<close>

definition relay :: "nat \<Rightarrow> byte list \<Rightarrow> v24_record \<Rightarrow> bool \<Rightarrow> bool \<Rightarrow> time \<Rightarrow> v24_listener \<Rightarrow>
    v24_result \<times> bool \<times> bool" where
  "relay i payload rec began ended now l =
     (let ((l, out), ended) = (if began \<and> ended then (endRelay i l, False) else ((l, []), ended)) in
      case mget (l_stations l) i of
        None \<Rightarrow> ((l, out), False, False)
      | Some st \<Rightarrow>
          if began then
            (let ((l, ends), relaying) = begin_relay i st now l in
             if \<not> relaying then ((l, out @ ends), False, False)
             else if ended then (let (l, more) = endRelay i l in ((l, out @ ends @ more), True, False))
             else (let (l, more) = carry_record i st payload rec l in ((l, out @ ends @ more), True, False)))
          else if \<not> st_relaying st then ((l, out), False, False)
          else if \<not> ended then
            (let (granted, fl) = Take (st_holder st) now (l_floor l); l = l\<lparr>l_floor := fl\<rparr> in
             if \<not> granted then (let (l, more) = endRelay i l in ((l, out @ more), False, True))
             else (let (l, more) = carry_record i st payload rec l in ((l, out @ more), True, False)))
          else (let (l, more) = endRelay i l in ((l, out @ more), True, False)))"

section \<open>Gateways' calls\<close>

definition FromGateway :: "byte list \<Rightarrow> time \<Rightarrow> v24_listener \<Rightarrow> v24_result" where
  "FromGateway frame now l = (case p25_Parse frame of
      Inl _ \<Rightarrow> (l, [])
    | Inr f \<Rightarrow>
        if \<not> Voice f then (l, [])
        else toRepeaters GatewayFloor None ([uiAddress, controlUI] @ frame) False (l_sendHeader l) True
               (l\<lparr>l_inboundLast := now\<rparr>))"

definition EndFromGateway :: "v24_listener \<Rightarrow> v24_result" where
  "EndFromGateway l = endAtRepeaters GatewayFloor (l\<lparr>l_inboundLast := 0\<rparr>)"

definition watchInbound :: "time \<Rightarrow> v24_listener \<Rightarrow> v24_result" where
  "watchInbound now l =
     (if \<not> IsZero (l_inboundLast l) \<and> Sub now (l_inboundLast l) > CallTimeout
      then endAtRepeaters GatewayFloor (l\<lparr>l_inboundLast := 0\<rparr>) else (l, []))"

section \<open>A tunnel\<close>

definition accept :: "string \<Rightarrow> time \<Rightarrow> v24_listener \<Rightarrow> v24_result" where
  "accept router now l =
     (if l_allowed l \<noteq> [] \<and> router \<notin> set (l_allowed l) then (l\<lparr>l_refused := l_refused l + 1\<rparr>, [RefuseTunnel router])
      else if length (l_stations l) \<ge> l_maxTunnels l then (l\<lparr>l_refused := l_refused l + 1\<rparr>, [RefuseTunnel router])
      else let i = l_nextID l + 1 in (put_station i (new_station i router now) (l\<lparr>l_nextID := i\<rparr>), []))"

definition serve_tunnel :: "nat \<Rightarrow> v24_listener \<Rightarrow> v24_result" where
  "serve_tunnel i l = (case mget (l_stations l) i of
      None \<Rightarrow> (l, []) | Some st \<Rightarrow> (put_station i (st\<lparr>st_send := True\<rparr>) l, []))"

definition countUp :: "nat \<Rightarrow> bool \<Rightarrow> bool \<Rightarrow> time \<Rightarrow> v24_listener \<Rightarrow> v24_listener" where
  "countUp i was is now l =
     (if was = is then l
      else let l = l\<lparr>l_up := (if is then l_up l + 1 else l_up l - 1)\<rparr> in
        case mget (l_stations l) i of
          None \<Rightarrow> l
        | Some st \<Rightarrow> put_station i (st\<lparr>st_Up := is, st_UpSince := (if is then now else st_UpSince st),
                                   st_receiving := ''''\<rparr>) l)"

definition expire_call :: "nat \<Rightarrow> time \<Rightarrow> v24_listener \<Rightarrow> v24_result" where
  "expire_call i now l = (case mget (l_stations l) i of
      None \<Rightarrow> (l, [])
    | Some st \<Rightarrow> (case st_call st of
        None \<Rightarrow> (l, [])
      | Some c \<Rightarrow>
          if \<not> call_stale now (Some c) then (l, [])
          else let l = put_station i (st\<lparr>st_call := None, st_Transmitting := False, st_Calls := st_Calls st + 1\<rparr>) l;
                   (l, out) = endRelay i l
               in (l\<lparr>l_calls := l_calls l + 1\<rparr>,
                   out @ [Finished_call (st_holder st) (c\<lparr>vc_Ended := vc_last c\<rparr>) EndQuiet])))"

definition close_tunnel :: "nat \<Rightarrow> time \<Rightarrow> v24_listener \<Rightarrow> v24_result" where
  "close_tunnel i now l = (case mget (l_stations l) i of
      None \<Rightarrow> (l, [])
    | Some st0 \<Rightarrow>
        let l = countUp i (ls_up (st_link st0)) False now l in
        case mget (l_stations l) i of
          None \<Rightarrow> (l, [])
        | Some st \<Rightarrow>
            let c = st_call st;
                l = put_station i (st\<lparr>st_call := None, st_link := link_new\<rparr>) l;
                (l, out) = endRelay i l;
                (l, fin) = (case c of
                    None \<Rightarrow> (l, [])
                  | Some c \<Rightarrow> (l\<lparr>l_calls := l_calls l + 1\<rparr>,
                      [Finished_call (st_holder st) (c\<lparr>vc_Ended := vc_last c\<rparr>) EndLinkClosed]))
            in (l\<lparr>l_stations := mdel i (l_stations l)\<rparr>, out @ fin))"

text \<open>A voice record, a marker or a header.\<close>

definition note_record :: "byte list \<Rightarrow> byte \<Rightarrow> v24_record \<Rightarrow> time \<Rightarrow> station \<Rightarrow> station" where
  "note_record payload grp rec now st =
     (let (current, finished, began) = heard (st_call st) rec now;
          st = st\<lparr>st_call := current, st_Transmitting := current \<noteq> None,
                  st_Frames := (if is_voice rec then st_Frames st + 1 else st_Frames st),
                  st_RTRTDisabled := (case RTRTDisabled payload of Some d \<Rightarrow> d | None \<Rightarrow> st_RTRTDisabled st),
                  st_Calls := (if finished \<noteq> None then st_Calls st + 1 else st_Calls st),
                  st_group := grp\<rparr>
      in case (case current of Some c \<Rightarrow> Some c | None \<Rightarrow> finished) of
           Some c \<Rightarrow> if vc_SourceID c \<noteq> 0
                     then st\<lparr>st_Talkgroup := vc_Talkgroup c, st_SourceID := vc_SourceID c, st_LastHeard := now\<rparr>
                     else st
         | None \<Rightarrow> st)"

definition handle_record :: "nat \<Rightarrow> byte list \<Rightarrow> byte \<Rightarrow> v24_record \<Rightarrow> time \<Rightarrow> v24_listener \<Rightarrow> v24_result" where
  "handle_record i payload grp rec now l = (case mget (l_stations l) i of
      None \<Rightarrow> (l, [])
    | Some st \<Rightarrow>
        let (_, finished, began) = heard (st_call st) rec now;
            l = put_station i (note_record payload grp rec now st) l;
            l = (if is_voice rec then l\<lparr>l_voice := l_voice l + 1\<rparr> else l);
            ((l, out), carried, lost) = relay i payload rec began (finished \<noteq> None) now l;
            (l, fin) = (case finished of
                None \<Rightarrow> (l, [])
              | Some c \<Rightarrow> (l\<lparr>l_calls := l_calls l + 1\<rparr>,
                  [Finished_call (st_holder st) c (if vc_Marked c then EndMarked else EndQuiet)]));
            live = (case mget (l_stations l) i of
                Some st \<Rightarrow> (case st_call st of Some c \<Rightarrow> [Heard_call (st_holder st) c] | None \<Rightarrow> [])
              | None \<Rightarrow> [])
        in (l, out @ fin @ live))"

text \<open>A frame of the link itself.\<close>

definition supersede :: "nat \<Rightarrow> byte \<Rightarrow> byte \<Rightarrow> v24_listener \<Rightarrow> v24_out list" where
  "supersede i grp site l = (case mget (l_stations l) i of
      None \<Rightarrow> []
    | Some st \<Rightarrow>
        map (CloseTunnel \<circ> fst)
          (filter (\<lambda>(k, o'). \<not> (k = i \<or> st_router o' \<noteq> st_router st \<or> k > i) \<and>
             st_Introduced o' \<and> st_Site o' = site \<and> st_group o' = grp) (l_stations l)))"

definition handle_link :: "nat \<Rightarrow> byte list \<Rightarrow> byte \<Rightarrow> time \<Rightarrow> v24_listener \<Rightarrow> v24_result" where
  "handle_link i payload grp now l = (case mget (l_stations l) i of
      None \<Rightarrow> (l, [])
    | Some st0 \<Rightarrow>
        let (reply, kind) = Answer payload in
        if kind = KindUnknown then (l\<lparr>l_unknown := l_unknown l + 1\<rparr>, [])
        else
          let was = st_link st0;
              (nxt, introduce) = after kind was;
              l = put_station i (st0\<lparr>st_link := nxt\<rparr>) l;
              l = countUp i (ls_up was) (ls_up nxt) now l
          in case mget (l_stations l) i of
               None \<Rightarrow> (l, [])
             | Some st \<Rightarrow>
                 let st = st\<lparr>st_group := grp\<rparr>;
                     st = (if kind = KindIntroduction
                           then st\<lparr>st_Introduced := True, st_Site := drop_bit 1 (payload ! 3), st_StationType := payload ! 4\<rparr>
                           else st);
                     l = put_station i st l;
                     closed = (if kind = KindIntroduction then supersede i grp (drop_bit 1 (payload ! 3)) l else []);
                     replies = (case reply of Some r \<Rightarrow> [r] | None \<Rightarrow> []) @
                       (if kind = KindLinkRequest then [LinkRequest (l_id l)] else []) @
                       (if introduce then [Introduction (l_id l) (l_site l)] else [])
                 in (l\<lparr>l_answered := l_answered l + word_of_nat (length replies)\<rparr>,
                     closed @ map (Reply i grp) replies))"

definition v24_frame :: "nat \<Rightarrow> tunnel_frame \<Rightarrow> time \<Rightarrow> v24_listener \<Rightarrow> v24_result" where
  "v24_frame i f now l =
     (if t_Op f \<noteq> OpData then (l, [])
      else case ReadRecord (t_Payload f) of
        Some rec \<Rightarrow>
          if rec \<noteq> RecordUnknown then handle_record i (t_Payload f) (t_Group f) rec now l
          else handle_link i (t_Payload f) (t_Group f) now l
      | None \<Rightarrow> handle_link i (t_Payload f) (t_Group f) now l)"

text \<open>The callback of a frame that was written and is counted.\<close>

definition wrote_frame :: "nat \<Rightarrow> v24_listener \<Rightarrow> v24_result" where
  "wrote_frame i l = (let l = l\<lparr>l_sent := l_sent l + 1\<rparr> in
     case mget (l_stations l) i of
       None \<Rightarrow> (l, []) | Some st \<Rightarrow> (put_station i (st\<lparr>st_Sent := st_Sent st + 1\<rparr>) l, []))"

section \<open>Steps\<close>

text \<open>The gateway listener takes and gives up the same floor under its own name.\<close>

datatype v24_event =
    EvAccept string
  | EvServe nat
  | EvFrame nat tunnel_frame
  | EvExpire nat
  | EvClose nat
  | EvWrote nat
  | EvFromGateway "byte list"
  | EvEndFromGateway
  | EvWatchInbound
  | EvGatewayTake
  | EvGatewayRelease

fun v24_step :: "time \<Rightarrow> v24_event \<Rightarrow> v24_listener \<Rightarrow> v24_result" where
  "v24_step now (EvAccept router) l = accept router now l"
| "v24_step now (EvServe i) l = serve_tunnel i l"
| "v24_step now (EvFrame i f) l = v24_frame i f now l"
| "v24_step now (EvExpire i) l = expire_call i now l"
| "v24_step now (EvClose i) l = close_tunnel i now l"
| "v24_step now (EvWrote i) l = wrote_frame i l"
| "v24_step now (EvFromGateway frame) l = FromGateway frame now l"
| "v24_step now EvEndFromGateway l = EndFromGateway l"
| "v24_step now EvWatchInbound l = watchInbound now l"
| "v24_step now EvGatewayTake l = (l\<lparr>l_floor := snd (Take GatewayFloor now (l_floor l))\<rparr>, [])"
| "v24_step now EvGatewayRelease l = (l\<lparr>l_floor := Release GatewayFloor (l_floor l)\<rparr>, [])"

end
