(* ===== verification/V24_Calls.thy ===== *)
theory V24_Calls
  imports V24_Relay
begin

text \<open>
  What a listener hears.  An observer follows the records each repeater is sent, and the frames and
  ends the gateways are sent, and breaks if a call is not opened by a start, if a record of one talker
  comes in the call of another, or if a call is not closed by two ends before the next one starts.
  The lemmas show that no observer ever breaks, whatever the repeaters, the gateways, the timers and
  the tunnels do.
\<close>

section \<open>The observer\<close>

datatype lmode = Idle | Open string | Closing | Broken

fun hear :: "string \<Rightarrow> v24_record option \<Rightarrow> lmode \<Rightarrow> lmode" where
  "hear t (Some RecordStart) Idle = Open t"
| "hear t (Some RecordHeader) (Open u) = (if u = t then Open u else Broken)"
| "hear t (Some (RecordVoice f)) (Open u) = (if u = t then Open u else Broken)"
| "hear t (Some RecordEnd) (Open u) = Closing"
| "hear t (Some RecordEnd) Closing = Idle"
| "hear t _ _ = Broken"

definition hear_all :: "string \<Rightarrow> byte list list \<Rightarrow> lmode \<Rightarrow> lmode" where
  "hear_all t ps m = fold (\<lambda>p. hear t (ReadRecord p)) ps m"

primrec sends :: "nat \<Rightarrow> v24_out list \<Rightarrow> byte list list" where
  "sends k [] = []"
| "sends k (x # xs) = (case x of Send j p _ \<Rightarrow> if j = k then [p] else [] | _ \<Rightarrow> []) @ sends k xs"

text \<open>The gateways are one more listener; they are sent voice and ends only.\<close>

fun gw_hear :: "string \<Rightarrow> v24_out \<Rightarrow> lmode \<Rightarrow> lmode" where
  "gw_hear t (ToGateways p) Idle = Open t"
| "gw_hear t (ToGateways p) (Open u) = (if u = t then Open u else Broken)"
| "gw_hear t (ToGateways p) _ = Broken"
| "gw_hear t EndToGateways (Open u) = Idle"
| "gw_hear t EndToGateways _ = Broken"
| "gw_hear t _ m = m"

definition gw_all :: "string \<Rightarrow> v24_out list \<Rightarrow> lmode \<Rightarrow> lmode" where
  "gw_all t out m = fold (gw_hear t) out m"

definition talking :: "string \<Rightarrow> lmode" where
  "talking h = (if h = '''' then Idle else Open h)"

definition receiving_of :: "v24_listener \<Rightarrow> nat \<Rightarrow> string" where
  "receiving_of l k = (case mget (l_stations l) k of Some st \<Rightarrow> st_receiving st | None \<Rightarrow> '''')"

lemma sends_append [simp]: "sends k (xs @ ys) = sends k xs @ sends k ys"
  by (induction xs) auto

lemma hear_all_append [simp]: "hear_all t (ps @ qs) m = hear_all t qs (hear_all t ps m)"
  by (simp add: hear_all_def)

lemma hear_all_simps [simp]:
  "hear_all t [] m = m" "hear_all t (p # ps) m = hear_all t ps (hear t (ReadRecord p) m)"
  by (simp_all add: hear_all_def)

lemma gw_all_simps [simp]:
  "gw_all t [] m = m" "gw_all t (x # xs) m = gw_all t xs (gw_hear t x m)"
  "gw_all t (xs @ ys) m = gw_all t ys (gw_all t xs m)"
  by (simp_all add: gw_all_def)

lemma sends_only [simp]:
  "sends k (map (\<lambda>p. Send j p c) ps) = (if j = k then ps else [])"
  "gw_all t (map (\<lambda>p. Send j p c) ps) m = m"
  by (induction ps) (auto simp: gw_all_def)

lemma sends_concat:
  assumes "mwf m" "\<And>j o' x. x \<in> set (f j o') \<Longrightarrow> \<exists>p c. x = Send j p c"
  shows "sends k (concat (map (\<lambda>(j, o'). f j o') m)) = (case mget m k of None \<Rightarrow> [] | Some o' \<Rightarrow> sends k (f k o'))"
    and "gw_all t (concat (map (\<lambda>(j, o'). f j o') m)) g = g"
proof -
  have other: "sends k xs = []" if "j \<noteq> k" "\<And>x. x \<in> set xs \<Longrightarrow> \<exists>p c. x = Send j p c" for j xs
    using that by (induction xs) fastforce+
  have none: "sends k (f j o') = []" if "j \<noteq> k" for j o'
    by (rule other [OF that]) (rule assms(2))
  have empty: "sends k (concat (map (\<lambda>(j, o'). f j o') m)) = []" if "mget m k = None" for m
    using that by (induction m) (auto simp: mget_Cons none split: if_splits)
  show "sends k (concat (map (\<lambda>(j, o'). f j o') m)) = (case mget m k of None \<Rightarrow> [] | Some o' \<Rightarrow> sends k (f k o'))"
    using assms(1)
  proof (induction m)
    case (Cons x m)
    obtain j o' where x: "x = (j, o')" by fastforce
    show ?case
    proof (cases "j = k")
      case True
      then have "mget m k = None" using Cons.prems x by (simp add: mwf_def mget_None_iff mkeys_def)
      then show ?thesis using True x by (simp add: mget_Cons empty)
    next
      case False
      then show ?thesis using Cons x by (simp add: mget_Cons none mwf_def)
    qed
  qed simp
  have gw: "gw_all t xs g = g" if "\<And>x. x \<in> set xs \<Longrightarrow> \<exists>j p c. x = Send j p c" for xs
    using that by (induction xs) fastforce+
  show "gw_all t (concat (map (\<lambda>(j, o'). f j o') m)) g = g"
    by (rule gw) (use assms(2) in fastforce)
qed

lemma marker_records [simp]:
  "ReadRecord startMarker = Some RecordStart" "ReadRecord endMarker = Some RecordEnd"
  "ReadRecord capturedHeader1 = Some RecordHeader" "ReadRecord capturedHeader2 = Some RecordHeader"
  by (simp_all add: ReadRecord_def startMarker_def endMarker_def capturedHeader1_def capturedHeader2_def
      uiAddress_def markerLength_def markerWhichByte_def recordHeader1Length_def recordHeader2Length_def)

text \<open>A record of a call, after whatever it takes to move the listener to that call.\<close>

definition body_record :: "bool \<Rightarrow> byte list \<Rightarrow> bool" where
  "body_record isStart payload \<longleftrightarrow> (case ReadRecord payload of
      Some RecordStart \<Rightarrow> isStart | Some RecordHeader \<Rightarrow> \<not> isStart | Some (RecordVoice f) \<Rightarrow> \<not> isStart
    | _ \<Rightarrow> False)"

lemma markers_heard:
  assumes "body_record isStart payload" "isStart \<Longrightarrow> was \<noteq> t" "t \<noteq> ''''"
  shows "hear_all t (markers was t isStart header @ [payload]) (talking was) = talking t"
  using assms
  by (cases "ReadRecord payload"; cases "the (ReadRecord payload)"; cases "was = ''''"; cases "was = t")
    (auto simp: markers_def talking_def body_record_def)

section \<open>What holds between steps\<close>

text \<open>Who is owed an end: the gateways, or a repeater whose call is carried.\<close>

definition owed :: "v24_listener \<Rightarrow> string \<Rightarrow> bool" where
  "owed l h \<longleftrightarrow> h = GatewayFloor \<or> (\<exists>j st. mget (l_stations l) j = Some st \<and> st_relaying st \<and> st_holder st = h)"

definition holder_name :: "nat \<Rightarrow> string" where
  "holder_name k = ''repeater '' @ FormatUint k"

lemma FormatUint_inj: "FormatUint m = FormatUint n \<longleftrightarrow> m = n"
  by (metis decimal_value_FormatUint)

lemma holder_name_simps [simp]:
  "holder_name j = holder_name k \<longleftrightarrow> j = k" "holder_name k \<noteq> ''''" "holder_name k \<noteq> GatewayFloor"
  "[] \<noteq> holder_name k" "GatewayFloor \<noteq> holder_name k"
  by (simp_all add: holder_name_def FormatUint_inj GatewayFloor_def)

definition station_ok :: "v24_listener \<Rightarrow> nat \<Rightarrow> station \<Rightarrow> bool" where
  "station_ok l k st \<longleftrightarrow> k \<le> l_nextID l \<and> st_holder st = holder_name k \<and> st_Up st = ls_up (st_link st) \<and>
     (st_receiving st \<noteq> '''' \<longrightarrow> linked st \<and> owed l (st_receiving st))"

definition relay_ok :: "v24_listener \<Rightarrow> bool" where
  "relay_ok l \<longleftrightarrow> mwf (l_stations l) \<and> (\<forall>k st. mget (l_stations l) k = Some st \<longrightarrow> station_ok l k st) \<and>
     (l_toGateways l \<noteq> '''' \<longrightarrow> l_hasGateways l)"

definition calls_ok :: "v24_listener \<Rightarrow> bool" where
  "calls_ok l \<longleftrightarrow> (\<forall>k st. mget (l_stations l) k = Some st \<longrightarrow> st_relaying st \<longrightarrow> st_call st \<noteq> None)"

text \<open>What the listeners hear takes each from the call it was on to the call it is on.\<close>

definition heard_right :: "string \<Rightarrow> v24_listener \<Rightarrow> v24_out list \<Rightarrow> v24_listener \<Rightarrow> bool" where
  "heard_right t l out l' \<longleftrightarrow>
     (\<forall>k. hear_all t (sends k out) (talking (receiving_of l k)) = talking (receiving_of l' k)) \<and>
     gw_all t out (talking (l_toGateways l)) = talking (l_toGateways l')"

lemma heard_right_trans:
  "heard_right t l o1 l1 \<Longrightarrow> heard_right t l1 o2 l2 \<Longrightarrow> heard_right t l (o1 @ o2) l2"
  by (simp add: heard_right_def)

lemma heard_right_silent:
  assumes "\<forall>k. receiving_of l' k = receiving_of l k" "l_toGateways l' = l_toGateways l"
  shows "heard_right t l [] l'"
  using assms by (simp add: heard_right_def)

lemma receiving_put: "receiving_of (put_station i st l) k = (if k = i then st_receiving st else receiving_of l k)"
  by (simp add: receiving_of_def put_station_def)

lemma put_station_simps [simp]:
  "l_toGateways (put_station i st l) = l_toGateways l" "l_nextID (put_station i st l) = l_nextID l"
  "l_hasGateways (put_station i st l) = l_hasGateways l" "l_floor (put_station i st l) = l_floor l"
  "mget (l_stations (put_station i st l)) k = (if k = i then Some st else mget (l_stations l) k)"
  "mwf (l_stations l) \<Longrightarrow> mwf (l_stations (put_station i st l))"
  by (simp_all add: put_station_def)

text \<open>Changing a station in a way that leaves what it receives, its link and its name alone.\<close>

definition same_role :: "station \<Rightarrow> station \<Rightarrow> bool" where
  "same_role st st' \<longleftrightarrow> st_holder st' = st_holder st \<and> st_Up st' = st_Up st \<and> st_link st' = st_link st \<and>
     st_receiving st' = st_receiving st \<and> st_relaying st' = st_relaying st \<and> (st_send st \<longrightarrow> st_send st')"

lemma owed_put:
  "mget (l_stations l) i = Some st \<Longrightarrow> same_role st st' \<Longrightarrow> owed (put_station i st' l) h \<longleftrightarrow> owed l h"
  unfolding owed_def same_role_def by (auto simp: split: if_splits) (metis option.inject)+

lemma relay_ok_put:
  assumes "relay_ok l" "mget (l_stations l) i = Some st" "same_role st st'"
  shows "relay_ok (put_station i st' l)" "heard_right t l [] (put_station i st' l)"
proof -
  show "relay_ok (put_station i st' l)"
    using assms(1,2,3) unfolding relay_ok_def station_ok_def
    by (auto simp: owed_put [OF assms(2,3)] same_role_def linked_def)
  show "heard_right t l [] (put_station i st' l)"
    by (rule heard_right_silent) (use assms in \<open>auto simp: receiving_put receiving_of_def same_role_def\<close>)
qed


section \<open>The parts of a step\<close>

lemma mget_endAt:
  "mget (l_stations (fst (endAtRepeaters t l))) k =
     map_option (\<lambda>o'. if listening t o' then o'\<lparr>st_receiving := ''''\<rparr> else o') (mget (l_stations l) k)"
  by (simp add: endAtRepeaters_def)

lemma endAt_fields [simp]:
  "l_toGateways (fst (endAtRepeaters t l)) = l_toGateways l" "l_nextID (fst (endAtRepeaters t l)) = l_nextID l"
  "l_hasGateways (fst (endAtRepeaters t l)) = l_hasGateways l" "l_floor (fst (endAtRepeaters t l)) = l_floor l"
  "mwf (l_stations (fst (endAtRepeaters t l))) = mwf (l_stations l)"
  by (simp_all add: endAtRepeaters_def)

text \<open>Closing a call at every repeater that hears it.\<close>

lemma endAt_heard:
  assumes "mwf (l_stations l)" "t \<noteq> ''''"
    and "\<And>k st. mget (l_stations l) k = Some st \<Longrightarrow> st_receiving st \<noteq> '''' \<Longrightarrow> linked st"
  shows "receiving_of (fst (endAtRepeaters t l)) k = (if receiving_of l k = t then '''' else receiving_of l k)"
    and "heard_right u l (snd (endAtRepeaters t l)) (fst (endAtRepeaters t l))"
proof -
  let ?f = "\<lambda>k o'. if listening t o' then [Send k endMarker False, Send k endMarker False] else []"
  have s: "sends k (snd (endAtRepeaters t l)) =
      (case mget (l_stations l) k of None \<Rightarrow> [] | Some o' \<Rightarrow> sends k (?f k o'))"
    "gw_all u (snd (endAtRepeaters t l)) g = g" for k g
    unfolding endAtRepeaters_def snd_conv by (rule sends_concat [OF assms(1)], simp split: if_splits, blast)+
  show r: "receiving_of (fst (endAtRepeaters t l)) k = (if receiving_of l k = t then '''' else receiving_of l k)"
    for k using assms(2,3) by (auto simp: receiving_of_def mget_endAt listening_def split: option.splits)
  show "heard_right u l (snd (endAtRepeaters t l)) (fst (endAtRepeaters t l))"
    using assms(2,3)
    by (auto simp: heard_right_def s talking_def receiving_of_def listening_def mget_endAt split: option.splits)
qed

lemma mget_endRelay:
  assumes "mget (l_stations l) i = Some st" "st_relaying st"
  shows "mget (l_stations (fst (endRelay i l))) k = map_option (\<lambda>o'.
      let o' = (if k = i then o'\<lparr>st_relaying := False\<rparr> else o') in
      if listening (st_holder st) o' then o'\<lparr>st_receiving := ''''\<rparr> else o') (mget (l_stations l) k)"
  using assms by (cases "k = i") (simp_all add: endRelay_def case_prod_beta Let_def mget_endAt listening_def linked_def)

lemma endRelay_fields [simp]:
  "l_nextID (fst (endRelay i l)) = l_nextID l" "l_hasGateways (fst (endRelay i l)) = l_hasGateways l"
  "mwf (l_stations l) \<Longrightarrow> mwf (l_stations (fst (endRelay i l)))"
  by (auto simp: endRelay_def case_prod_beta Let_def split: option.splits)

lemma linked_relaying [simp]: "linked (st\<lparr>st_relaying := b\<rparr>) = linked st" "listening t (st\<lparr>st_relaying := b\<rparr>) = listening t st"
  by (simp_all add: linked_def listening_def)

lemma relaying_id: "b = st_relaying st \<Longrightarrow> st = st\<lparr>st_relaying := b\<rparr>"
  by simp

lemma endRelay_ok:
  assumes "relay_ok l"
  shows "relay_ok (fst (endRelay i l))" "heard_right u l (snd (endRelay i l)) (fst (endRelay i l))"
    and "mget (l_stations (fst (endRelay i l))) k = map_option (\<lambda>o'. o'\<lparr>st_relaying := st_relaying o' \<and> k \<noteq> i,
      st_receiving := receiving_of (fst (endRelay i l)) k\<rparr>) (mget (l_stations l) k)"
proof -
  consider "fst (endRelay i l) = l" "snd (endRelay i l) = []" "\<And>st. mget (l_stations l) i = Some st \<Longrightarrow> \<not> st_relaying st"
    | st where "mget (l_stations l) i = Some st" "st_relaying st"
    by (cases "mget (l_stations l) i") (auto simp: endRelay_def)
  then have "relay_ok (fst (endRelay i l)) \<and> heard_right u l (snd (endRelay i l)) (fst (endRelay i l)) \<and>
      (\<forall>k. mget (l_stations (fst (endRelay i l))) k = map_option (\<lambda>o'. o'\<lparr>st_relaying := st_relaying o' \<and> k \<noteq> i,
        st_receiving := receiving_of (fst (endRelay i l)) k\<rparr>) (mget (l_stations l) k))"
  proof cases
    case 1
    then show ?thesis using assms
      by (auto simp: heard_right_silent receiving_of_def intro!: relaying_id split: option.splits)
  next
    case 2
    have wf: "mwf (l_stations l)" and ok: "\<And>k o'. mget (l_stations l) k = Some o' \<Longrightarrow> station_ok l k o'"
      using assms by (auto simp: relay_ok_def)
    have h: "st_holder st = holder_name i" using ok [OF 2(1)] by (simp add: station_ok_def)
    let ?l = "put_station i (st\<lparr>st_relaying := False\<rparr>) l"
    have lk: "linked o'" if "mget (l_stations ?l) k = Some o'" "st_receiving o' \<noteq> ''''" for k o'
      using that ok [of k] ok [OF 2(1)] by (auto simp: station_ok_def split: if_splits)
    have ends: "heard_right u ?l (snd (endAtRepeaters (st_holder st) ?l)) (fst (endAtRepeaters (st_holder st) ?l))"
      by (rule endAt_heard(2)) (use wf h lk in auto)
    have put: "heard_right u l [] ?l"
      by (rule heard_right_silent) (use 2 in \<open>auto simp: receiving_put receiving_of_def\<close>)
    have out: "heard_right u l (snd (endRelay i l)) (fst (endRelay i l))"
      using heard_right_trans [OF put ends] 2 h assms
      by (auto simp: endRelay_def case_prod_beta Let_def heard_right_def talking_def receiving_of_def relay_ok_def
          split: if_splits)
    have get: "mget (l_stations (fst (endRelay i l))) k = map_option (\<lambda>o'. o'\<lparr>st_relaying := st_relaying o' \<and> k \<noteq> i,
        st_receiving := (if st_receiving o' = holder_name i then '''' else st_receiving o')\<rparr>) (mget (l_stations l) k)" for k
      using ok [of k] h by (cases "mget (l_stations l) k")
        (auto simp: mget_endRelay [OF 2] Let_def listening_def station_ok_def)
    then have get': "mget (l_stations (fst (endRelay i l))) k = map_option (\<lambda>o'. o'\<lparr>st_relaying := st_relaying o' \<and> k \<noteq> i,
        st_receiving := receiving_of (fst (endRelay i l)) k\<rparr>) (mget (l_stations l) k)" for k
      by (cases "mget (l_stations l) k") (auto simp: receiving_of_def)
    have still: "owed (fst (endRelay i l)) g" if g: "owed l g" "g \<noteq> holder_name i" for g
    proof (cases "g = GatewayFloor")
      case False
      then obtain j o' where j: "mget (l_stations l) j = Some o'" "st_relaying o'" "st_holder o' = g"
        using g(1) by (auto simp: owed_def)
      then have "j \<noteq> i" using ok [OF j(1)] g(2) by (auto simp: station_ok_def)
      then show ?thesis using j get [of j] by (auto simp: owed_def intro!: exI [of _ j])
    qed (simp add: owed_def)
    have "relay_ok (fst (endRelay i l))"
      unfolding relay_ok_def
    proof (intro conjI allI impI)
      fix k o' assume "mget (l_stations (fst (endRelay i l))) k = Some o'"
      then obtain o0 where "mget (l_stations l) k = Some o0" "o' = o0\<lparr>st_relaying := st_relaying o0 \<and> k \<noteq> i,
          st_receiving := (if st_receiving o0 = holder_name i then '''' else st_receiving o0)\<rparr>"
        using get [of k] by (auto)
      then show "station_ok (fst (endRelay i l)) k o'"
        using ok [of k o0] still by (auto simp: station_ok_def linked_def)
    next
      show "mwf (l_stations (fst (endRelay i l)))" using wf by simp
      show "l_hasGateways (fst (endRelay i l))" if "l_toGateways (fst (endRelay i l)) \<noteq> ''''"
        using that assms 2 by (auto simp: endRelay_def case_prod_beta Let_def relay_ok_def split: if_splits)
    qed
    then show ?thesis using out get' by blast
  qed
  then show "relay_ok (fst (endRelay i l))" "heard_right u l (snd (endRelay i l)) (fst (endRelay i l))"
    "mget (l_stations (fst (endRelay i l))) k = map_option (\<lambda>o'. o'\<lparr>st_relaying := st_relaying o' \<and> k \<noteq> i,
      st_receiving := receiving_of (fst (endRelay i l)) k\<rparr>) (mget (l_stations l) k)"
    by blast+
qed

text \<open>Nobody is on the call of a repeater that is not carried.\<close>

lemma nobody_on_call:
  assumes "relay_ok l" "mget (l_stations l) i = Some st" "\<not> st_relaying st"
  shows "receiving_of l k \<noteq> holder_name i"
proof
  assume r: "receiving_of l k = holder_name i"
  then obtain o' where o': "mget (l_stations l) k = Some o'" "st_receiving o' = holder_name i"
    by (auto simp: receiving_of_def split: option.splits)
  then have "owed l (holder_name i)"
    using assms(1) by (fastforce simp: relay_ok_def station_ok_def)
  then obtain j sj where j: "mget (l_stations l) j = Some sj" "st_relaying sj" "st_holder sj = holder_name i"
    by (auto simp: owed_def)
  then have "j = i" using assms(1) by (fastforce simp: relay_ok_def station_ok_def)
  then show False using j assms by simp
qed

lemma toRepeaters_fields [simp]:
  "l_nextID (fst (toRepeaters t e p s h w l)) = l_nextID l" "l_hasGateways (fst (toRepeaters t e p s h w l)) = l_hasGateways l"
  "l_toGateways (fst (toRepeaters t e p s h w l)) = l_toGateways l" "l_floor (fst (toRepeaters t e p s h w l)) = l_floor l"
  "mwf (l_stations (fst (toRepeaters t e p s h w l))) = mwf (l_stations l)"
  "mget (l_stations (fst (toRepeaters t e p s h w l))) k =
     map_option (\<lambda>o'. if hears e k o' then o'\<lparr>st_receiving := t\<rparr> else o') (mget (l_stations l) k)"
  by (simp_all add: toRepeaters_def)

lemma toRepeaters_ok:
  fixes e :: "nat option" and h w :: bool
  assumes "relay_ok l" "owed l t" "t \<noteq> ''''" "body_record isStart p"
    and "\<And>k. isStart \<Longrightarrow> receiving_of l k \<noteq> t"
  defines "r \<equiv> toRepeaters t e p isStart h w l"
  shows "relay_ok (fst r)" "heard_right t l (snd r) (fst r)"
proof -
  have wf: "mwf (l_stations l)" and ok: "\<And>k o'. mget (l_stations l) k = Some o' \<Longrightarrow> station_ok l k o'"
    using assms(1) by (auto simp: relay_ok_def)
  have owed: "owed (fst r) g" if g: "owed l g" for g
  proof (cases "g = GatewayFloor")
    case False
    then obtain j o' where j: "mget (l_stations l) j = Some o'" "st_relaying o'" "st_holder o' = g"
      using g by (auto simp: owed_def)
    let ?o = "if hears e j o' then o'\<lparr>st_receiving := t\<rparr> else o'"
    have "mget (l_stations (fst r)) j = Some ?o" "st_relaying ?o" "st_holder ?o = g"
      using j by (simp_all add: r_def)
    then show ?thesis unfolding owed_def by blast
  qed (simp add: owed_def)
  show "relay_ok (fst r)"
    unfolding relay_ok_def
  proof (intro conjI allI impI)
    fix k o' assume "mget (l_stations (fst r)) k = Some o'"
    then obtain o0 where "mget (l_stations l) k = Some o0" "o' = (if hears e k o0 then o0\<lparr>st_receiving := t\<rparr> else o0)"
      by (auto simp: r_def)
    then show "station_ok (fst r) k o'"
      using ok [of k o0] owed assms(2) by (auto simp: station_ok_def linked_def hears_def r_def)
  qed (use assms(1) in \<open>auto simp: r_def relay_ok_def\<close>)
  let ?f = "\<lambda>k o'. if hears e k o' then map (\<lambda>p. Send k p False) (markers (st_receiving o') t isStart h) @ [Send k p w] else []"
  have s: "sends k (snd r) = (case mget (l_stations l) k of None \<Rightarrow> [] | Some o' \<Rightarrow> sends k (?f k o'))"
    "gw_all t (snd r) g = g" for k g
    unfolding r_def toRepeaters_def snd_conv by (rule sends_concat [OF wf], auto split: if_splits)+
  have get: "mget (l_stations (fst r)) k =
      map_option (\<lambda>o'. if hears e k o' then o'\<lparr>st_receiving := t\<rparr> else o') (mget (l_stations l) k)"
    and gw: "l_toGateways (fst r) = l_toGateways l" for k
    by (simp_all add: r_def)
  have "hear_all t (sends k (snd r)) (talking (receiving_of l k)) = talking (receiving_of (fst r) k)" for k
  proof (cases "mget (l_stations l) k")
    case (Some o')
    then show ?thesis
      using markers_heard [OF assms(4), of "st_receiving o'" t h] assms(3) assms(5) [of k]
      by (auto simp: s get receiving_of_def)
  qed (simp add: s receiving_of_def get)
  then show "heard_right t l (snd r) (fst r)" by (simp add: heard_right_def s gw)
qed

section \<open>Relaying one record\<close>

text \<open>Counters and the floor say nothing about who hears what.\<close>

lemma owed_frame:
  "l_stations l' = l_stations l \<Longrightarrow> owed l' h = owed l h"
  by (simp add: owed_def)

lemma relay_frame:
  assumes "l_stations l' = l_stations l" "l_nextID l' = l_nextID l" "l_toGateways l' = l_toGateways l"
    "l_hasGateways l' = l_hasGateways l"
  shows "relay_ok l' = relay_ok l" "receiving_of l' k = receiving_of l k" "calls_ok l' = calls_ok l"
    "heard_right t l0 out l' = heard_right t l0 out l" "heard_right t l' out l0 = heard_right t l out l0"
  using assms
  by (simp_all add: relay_ok_def station_ok_def owed_frame [OF assms(1)] receiving_of_def calls_ok_def heard_right_def)

text \<open>What a step does to who is talking: only station \<open>i\<close> may come to be relayed.\<close>

definition calls_step :: "nat \<Rightarrow> v24_listener \<Rightarrow> v24_listener \<Rightarrow> bool" where
  "calls_step i l l' \<longleftrightarrow> (\<forall>k st'. mget (l_stations l') k = Some st' \<longrightarrow>
     (\<exists>st. mget (l_stations l) k = Some st \<and> (st_call st' = None) = (st_call st = None) \<and> st_Up st' = st_Up st \<and>
        (st_relaying st' \<longrightarrow> st_relaying st \<or> k = i)))"

lemma calls_step_trans: "calls_step i l l1 \<Longrightarrow> calls_step i l1 l2 \<Longrightarrow> calls_step i l l2"
  unfolding calls_step_def by metis

lemma calls_step_same: "l_stations l' = l_stations l \<Longrightarrow> calls_step i l l'"
  by (simp add: calls_step_def)

lemma calls_step_endRelay: "relay_ok l \<Longrightarrow> calls_step i l (fst (endRelay j l))"
  by (auto simp: calls_step_def endRelay_ok(3))

lemma calls_step_toRepeaters: "calls_step i l (fst (toRepeaters t e p s h w l))"
  unfolding calls_step_def
proof (intro allI impI)
  fix k st' assume "mget (l_stations (fst (toRepeaters t e p s h w l))) k = Some st'"
  then obtain st where "mget (l_stations l) k = Some st"
    "st' = (if hears e k st then st\<lparr>st_receiving := t\<rparr> else st)"
    by auto
  then show "\<exists>st. mget (l_stations l) k = Some st \<and> (st_call st' = None) = (st_call st = None) \<and> st_Up st' = st_Up st \<and>
      (st_relaying st' \<longrightarrow> st_relaying st \<or> k = i)"
    by simp
qed

lemma begin_relay_ok:
  fixes now :: time
  assumes "relay_ok l" "mget (l_stations l) i = Some st" "\<not> st_relaying st"
  defines "r \<equiv> begin_relay i st now l"
  shows "relay_ok (fst (fst r))" "heard_right t l (snd (fst r)) (fst (fst r))" "calls_step i l (fst (fst r))"
    "snd r \<Longrightarrow> owed (fst (fst r)) (holder_name i)"
    "\<exists>st'. mget (l_stations (fst (fst r))) i = Some st' \<and> st_relaying st' = snd r"
    "\<And>k. receiving_of (fst (fst r)) k = (if k = i \<and> snd r then '''' else receiving_of l k)"
    "l_hasGateways (fst (fst r)) = l_hasGateways l"
proof -
  have ok: "\<And>k o'. mget (l_stations l) k = Some o' \<Longrightarrow> station_ok l k o'" and wf: "mwf (l_stations l)"
    using assms(1) by (auto simp: relay_ok_def)
  have lk: "st_receiving st \<noteq> '''' \<Longrightarrow> linked st" "st_holder st = holder_name i" "i \<le> l_nextID l"
    "st_Up st = ls_up (st_link st)" using ok [OF assms(2)] by (auto simp: station_ok_def)
  define g where "g = fst (Take (st_holder st) now (l_floor l))"
  define st' where "st' = st\<lparr>st_relaying := g, st_call := map_option (\<lambda>c. c\<lparr>vc_Carried := g\<rparr>) (st_call st),
    st_Held := (if \<not> g then st_Held st + 1 else st_Held st),
    st_receiving := (if g then '''' else st_receiving st)\<rparr>"
  have r: "l_stations (fst (fst r)) = mput i st' (l_stations l)" "l_nextID (fst (fst r)) = l_nextID l"
    "l_toGateways (fst (fst r)) = l_toGateways l" "l_hasGateways (fst (fst r)) = l_hasGateways l" "snd r = g"
    "snd (fst r) = (if g \<and> st_receiving st \<noteq> '''' then [Send i endMarker False, Send i endMarker False] else [])"
    using lk(1) by (auto simp: r_def begin_relay_def Let_def case_prod_beta g_def st'_def put_station_def linked_def)
  show "l_hasGateways (fst (fst r)) = l_hasGateways l" by (rule r(4))
  show rec: "receiving_of (fst (fst r)) k = (if k = i \<and> snd r then '''' else receiving_of l k)" for k
    using assms(2) by (simp add: receiving_of_def r st'_def)
  show "\<exists>st'. mget (l_stations (fst (fst r))) i = Some st' \<and> st_relaying st' = snd r"
    by (simp add: r st'_def)
  then show "snd r \<Longrightarrow> owed (fst (fst r)) (holder_name i)"
    using lk(2) by (auto simp: owed_def r st'_def)
  have "receiving_of l i = st_receiving st" using assms(2) by (simp add: receiving_of_def)
  then show "heard_right t l (snd (fst r)) (fst (fst r))"
    by (auto simp: heard_right_def rec r talking_def)
  show "calls_step i l (fst (fst r))"
    using assms(2) by (auto simp: calls_step_def r st'_def)
  have grow: "owed (fst (fst r)) h" if h: "owed l h" for h
  proof (cases "h = GatewayFloor")
    case False
    then obtain j o' where j: "mget (l_stations l) j = Some o'" "st_relaying o'" "st_holder o' = h"
      using h by (auto simp: owed_def)
    then have "j \<noteq> i" using assms(2,3) by auto
    then show ?thesis using j by (auto simp: owed_def r)
  qed (simp add: owed_def)
  show "relay_ok (fst (fst r))"
    unfolding relay_ok_def
  proof (intro conjI allI impI)
    fix k o' assume "mget (l_stations (fst (fst r))) k = Some o'"
    then show "station_ok (fst (fst r)) k o'"
      using ok [of k] ok [OF assms(2)] grow
      by (auto simp: r st'_def station_ok_def linked_def split: if_splits)
  qed (use wf assms(1) in \<open>auto simp: r relay_ok_def\<close>)
qed

lemma carry_record_ok:
  assumes "relay_ok l" "owed l (holder_name i)" "st_holder st = holder_name i"
    and "body_record (rec = RecordStart) p" "\<And>k. rec = RecordStart \<Longrightarrow> receiving_of l k \<noteq> holder_name i"
  defines "r \<equiv> carry_record i st p rec l"
  shows "relay_ok (fst r)" "heard_right (holder_name i) l (snd r) (fst r)" "calls_step i l (fst r)"
proof -
  define q where "q = toRepeaters (holder_name i) (Some i) p (rec = RecordStart) False (is_voice rec) l"
  have q: "relay_ok (fst q)" "heard_right (holder_name i) l (snd q) (fst q)"
    unfolding q_def by (rule toRepeaters_ok; use assms(1,2,4,5) in simp)+
  have cq: "calls_step i l (fst q)" unfolding q_def by (rule calls_step_toRepeaters)
  have "relay_ok (fst r) \<and> heard_right (holder_name i) l (snd r) (fst r) \<and> calls_step i l (fst r)"
  proof (cases "is_voice rec")
    case False
    then have "r = q" by (simp add: r_def carry_record_def assms(3) q_def case_prod_beta)
    then show ?thesis using q cq by simp
  next
    case True
    define l1 where "l1 = (if l_hasGateways (fst q) then (fst q)\<lparr>l_toGateways := holder_name i\<rparr> else fst q)"
    define gw where "gw = (if l_hasGateways (fst q) then (if l_toGateways (fst q) \<noteq> '''' \<and> l_toGateways (fst q) \<noteq> holder_name i
      then [EndToGateways] else []) @ [ToGateways (drop 2 p)] else [])"
    have st1: "l_stations l1 = l_stations (fst q)" by (simp add: l1_def)
    have ok1: "relay_ok l1"
      using q(1) by (auto simp: l1_def relay_ok_def station_ok_def owed_def)
    have h1: "heard_right (holder_name i) (fst q) gw l1"
      by (auto simp: heard_right_def gw_def l1_def receiving_of_def talking_def)
    define l2 where "l2 = l1\<lparr>l_relayed := l_relayed l1 + 1\<rparr>"
    have l2: "relay_ok l2" "heard_right (holder_name i) (fst q) gw l2" "l_stations l2 = l_stations l1"
      using ok1 h1 by (simp_all add: l2_def relay_frame [of "l1\<lparr>l_relayed := l_relayed l1 + 1\<rparr>" l1])
    have r: "r = ((case mget (l_stations l2) i of Some st \<Rightarrow> put_station i (st\<lparr>st_Relayed := st_Relayed st + 1\<rparr>) l2
        | None \<Rightarrow> l2), snd q @ gw)"
    proof -
      have "toRepeaters (st_holder st) (Some i) p (rec = RecordStart) False (is_voice rec) l = q"
        by (simp add: q_def assms(3))
      then have "r = (let (l, gw) = (l1, gw); l = l\<lparr>l_relayed := l_relayed l + 1\<rparr>;
          l = (case mget (l_stations l) i of
                   Some st \<Rightarrow> put_station i (st\<lparr>st_Relayed := st_Relayed st + 1\<rparr>) l | None \<Rightarrow> l)
        in (l, snd q @ gw))"
        using True unfolding r_def carry_record_def
        by (cases q; cases "l_hasGateways (fst q)") (simp_all add: assms(3) l1_def gw_def Let_def)
      then show ?thesis unfolding l2_def by (simp add: Let_def)
    qed
    have c: "calls_step i l l2"
      by (rule calls_step_trans [OF cq]) (simp add: calls_step_same st1 l2(3))
    show ?thesis
    proof (cases "mget (l_stations l2) i")
      case None
      then show ?thesis using r c l2 heard_right_trans [OF q(2) l2(2)] by simp
    next
      case (Some s)
      let ?l = "put_station i (s\<lparr>st_Relayed := st_Relayed s + 1\<rparr>) l2"
      have "same_role s (s\<lparr>st_Relayed := st_Relayed s + 1\<rparr>)" by (simp add: same_role_def)
      then have "relay_ok ?l" "heard_right (holder_name i) l2 [] ?l"
        using relay_ok_put [OF l2(1) Some] by blast+
      moreover have "calls_step i l2 ?l" using Some by (auto simp: calls_step_def)
      ultimately show ?thesis
        using r Some calls_step_trans [OF c] heard_right_trans [OF heard_right_trans [OF q(2) l2(2)], of "[]" ?l] by simp
    qed
  qed
  then show "relay_ok (fst r)" "heard_right (holder_name i) l (snd r) (fst r)" "calls_step i l (fst r)" by auto
qed

lemma body_of_record:
  "ReadRecord p = Some rec \<Longrightarrow> rec \<noteq> RecordEnd \<Longrightarrow> rec \<noteq> RecordUnknown \<Longrightarrow> body_record (rec = RecordStart) p"
  by (cases rec) (auto simp: body_record_def)

lemma calls_ok_step:
  assumes "calls_step i l l'"
    and "\<And>k s. mget (l_stations l) k = Some s \<Longrightarrow> st_relaying s \<or> k = i \<Longrightarrow> st_call s \<noteq> None"
  shows "calls_ok l'"
  using assms unfolding calls_ok_def calls_step_def by blast

lemma begin_then_carry:
  fixes now :: time
  assumes "relay_ok l" "mget (l_stations l) i = Some st" "\<not> st_relaying st"
    and "body_record (rec = RecordStart) p"
  defines "b \<equiv> begin_relay i st now l"
  defines "r \<equiv> (if snd b then (fst (carry_record i st p rec (fst (fst b))),
      snd (fst b) @ snd (carry_record i st p rec (fst (fst b)))) else fst b)"
  shows "relay_ok (fst r)" "heard_right (holder_name i) l (snd r) (fst r)" "calls_step i l (fst r)"
proof -
  note b = begin_relay_ok [OF assms(1-3), where now = now, folded b_def]
  have h: "st_holder st = holder_name i"
    using assms(1,2) by (auto simp: relay_ok_def station_ok_def)
  have "relay_ok (fst r) \<and> heard_right (holder_name i) l (snd r) (fst r) \<and> calls_step i l (fst r)"
  proof (cases "snd b")
    case False
    then show ?thesis using b(1,2,3) by (simp add: r_def)
  next
    case True
    have nobody: "receiving_of (fst (fst b)) k \<noteq> holder_name i" for k
      using nobody_on_call [OF assms(1-3), of k] by (simp add: b(6))
    note c = carry_record_ok [OF b(1) b(4) [OF True] h assms(4) nobody]
    show ?thesis
      using True c(1) heard_right_trans [OF b(2) c(2)] calls_step_trans [OF b(3) c(3)] by (simp add: r_def)
  qed
  then show "relay_ok (fst r)" "heard_right (holder_name i) l (snd r) (fst r)" "calls_step i l (fst r)" by auto
qed

lemma relay_began:
  assumes "mget (l_stations l) i = Some st"
  shows "fst (relay i p rec True False now l) =
    (let b = begin_relay i st now l in
      if snd b then (fst (carry_record i st p rec (fst (fst b))),
        snd (fst b) @ snd (carry_record i st p rec (fst (fst b)))) else fst b)"
  using assms by (simp add: relay_def Let_def case_prod_beta)

lemma relay_interrupts:
  "fst (relay i p rec True True now l) =
    (fst (fst (relay i p rec True False now (fst (endRelay i l)))),
     snd (endRelay i l) @ snd (fst (relay i p rec True False now (fst (endRelay i l)))))"
  by (auto simp: relay_def Let_def case_prod_beta split: option.splits)

lemma relay_goes_on:
  assumes "mget (l_stations l) i = Some st"
  shows "fst (relay i p rec False ended now l) =
    (let t = Take (st_holder st) now (l_floor l); l1 = l\<lparr>l_floor := snd t\<rparr> in
      if \<not> st_relaying st then (l, []) else if ended then endRelay i l
      else if fst t then carry_record i st p rec l1 else endRelay i l1)"
  using assms by (simp add: relay_def Let_def case_prod_beta)

text \<open>One record of one station, with the call \<open>c\<close> that was in progress.\<close>

lemma relay_step:
  fixes now :: time
  assumes ok: "relay_ok l" and st: "mget (l_stations l) i = Some st"
    and p: "ReadRecord p = Some rec" "rec \<noteq> RecordUnknown"
    and began: "began \<longleftrightarrow> rec = RecordStart \<or> c = None \<and> rec \<noteq> RecordEnd"
    and ended: "ended \<longleftrightarrow> c \<noteq> None \<and> (rec = RecordStart \<or> rec = RecordEnd)"
    and talking: "st_relaying st \<Longrightarrow> c \<noteq> None" "rec \<noteq> RecordEnd \<Longrightarrow> st_call st \<noteq> None"
    and others: "\<And>k s. mget (l_stations l) k = Some s \<Longrightarrow> k \<noteq> i \<Longrightarrow> st_relaying s \<Longrightarrow> st_call s \<noteq> None"
  defines "r \<equiv> fst (relay i p rec began ended now l)"
  shows "relay_ok (fst r) \<and> heard_right (holder_name i) l (snd r) (fst r) \<and> calls_ok (fst r) \<and> calls_step i l (fst r)"
proof -
  have h: "st_holder st = holder_name i" using ok st by (auto simp: relay_ok_def station_ok_def)
  have calls: "calls_ok l'" if "calls_step i l l'" "rec \<noteq> RecordEnd" for l'
    using calls_ok_step [OF that(1)] others talking(2) [OF that(2)] st by (metis option.inject)
  have ends: "relay_ok (fst (endRelay i l1)) \<and> heard_right (holder_name i) l (snd (endRelay i l1)) (fst (endRelay i l1)) \<and>
      calls_ok (fst (endRelay i l1)) \<and> calls_step i l (fst (endRelay i l1))" if "l_stations l1 = l_stations l" "relay_ok l1" "heard_right (holder_name i) l [] l1" for l1
    using that(1,2) endRelay_ok [OF that(2)] heard_right_trans [OF that(3) endRelay_ok(2) [OF that(2)]] others
      calls_step_trans [OF calls_step_same [OF that(1)] calls_step_endRelay [OF that(2)]]
    by (auto simp: calls_ok_def)
  show ?thesis
  proof (cases began)
    case True
    then have body: "body_record (rec = RecordStart) p" and ne: "rec \<noteq> RecordEnd"
      using began body_of_record [OF p(1)] p(2) by auto
    show ?thesis
    proof (cases ended)
      case False
      then have "\<not> st_relaying st" using True began ended talking(1) by auto
      note b = begin_then_carry [OF ok st this body, where now = now]
      show ?thesis
        using b calls [OF b(3) ne] True False by (simp add: r_def relay_began [OF st] Let_def)
    next
      case e: True
      let ?l = "fst (endRelay i l)"
      obtain st1 where st1: "mget (l_stations ?l) i = Some st1" "\<not> st_relaying st1"
        using st by (simp add: endRelay_ok(3) [OF ok])
      note b = begin_then_carry [OF endRelay_ok(1) [OF ok] st1 body, where now = now]
      show ?thesis
        using b heard_right_trans [OF endRelay_ok(2) [OF ok] b(2)]
          calls_step_trans [OF calls_step_endRelay [OF ok] b(3)]
          calls [OF calls_step_trans [OF calls_step_endRelay [OF ok] b(3)] ne] True e
        by (simp add: r_def relay_interrupts relay_began [OF st1(1)] Let_def)
    qed
  next
    case False
    then have r: "r = (let t = Take (st_holder st) now (l_floor l); l1 = l\<lparr>l_floor := snd t\<rparr> in
        if \<not> st_relaying st then (l, []) else if ended then endRelay i l
        else if fst t then carry_record i st p rec l1 else endRelay i l1)"
      by (simp add: r_def relay_goes_on [OF st])
    let ?l1 = "l\<lparr>l_floor := snd (Take (st_holder st) now (l_floor l))\<rparr>"
    have l1: "relay_ok ?l1" "heard_right (holder_name i) l [] ?l1"
      using ok by (simp_all add: relay_frame [of ?l1 l] heard_right_silent)
    consider "\<not> st_relaying st" | "st_relaying st" ended | "st_relaying st" "\<not> ended" by blast
    then show ?thesis
    proof cases
      case 1
      then show ?thesis
        using r ok heard_right_silent [of l l] others st calls_step_same [of l l]
        by (auto simp: calls_ok_def) (metis option.inject)
    next
      case 2
      then show ?thesis using r ends [of l] ok heard_right_silent [of l l] by simp
    next
      case 3
      then have rec: "rec \<noteq> RecordStart" "rec \<noteq> RecordEnd"
        using False began ended talking(1) by auto
      have body: "body_record (rec = RecordStart) p" using body_of_record [OF p(1)] rec p(2) by auto
      have owed: "owed ?l1 (holder_name i)" using st 3 h by (auto simp: owed_def)
      have "receiving_of ?l1 k \<noteq> holder_name i" if "rec = RecordStart" for k using that rec by simp
      note c = carry_record_ok [OF l1(1) owed h body this]
      show ?thesis
        using r 3 c heard_right_trans [OF l1(2) c(2)] ends [of ?l1] l1 calls_step_trans [OF calls_step_same c(3), of l]
          calls [OF calls_step_trans [OF calls_step_same c(3)] rec(2)]
        by (auto simp: Let_def)
    qed
  qed
qed

section \<open>Every step\<close>

definition v24_ok :: "v24_listener \<Rightarrow> bool" where
  "v24_ok l \<longleftrightarrow> relay_ok l \<and> calls_ok l"

definition up_of :: "v24_listener \<Rightarrow> nat \<Rightarrow> bool" where
  "up_of l k = (case mget (l_stations l) k of Some st \<Rightarrow> st_Up st | None \<Rightarrow> False)"

text \<open>What a listener hears in a step, starting afresh when its link opens or drops.\<close>

definition v24_observe :: "string \<Rightarrow> v24_listener \<Rightarrow> v24_out list \<Rightarrow> v24_listener \<Rightarrow> (nat \<Rightarrow> lmode) \<Rightarrow> nat \<Rightarrow> lmode" where
  "v24_observe t l out l' m k = (if up_of l' k \<noteq> up_of l k then Idle else hear_all t (sends k out) (m k))"

definition talker_of :: "v24_listener \<Rightarrow> v24_event \<Rightarrow> string" where
  "talker_of l e = (case e of EvFrame i f \<Rightarrow> holder_name i | _ \<Rightarrow> GatewayFloor)"

definition step_right :: "string \<Rightarrow> v24_listener \<Rightarrow> v24_out list \<Rightarrow> v24_listener \<Rightarrow> bool" where
  "step_right t l out l' \<longleftrightarrow> v24_ok l' \<and>
     (\<forall>k. v24_observe t l out l' (\<lambda>k. talking (receiving_of l k)) k = talking (receiving_of l' k)) \<and>
     gw_all t out (talking (l_toGateways l)) = talking (l_toGateways l')"

lemma up_linked: "relay_ok l \<Longrightarrow> \<not> up_of l k \<Longrightarrow> receiving_of l k = ''''"
  by (auto simp: relay_ok_def station_ok_def up_of_def receiving_of_def linked_def split: option.splits)

lemma calls_step_up:
  assumes "calls_step i l l'" "up_of l' k"
  shows "up_of l k"
proof -
  obtain st' where "mget (l_stations l') k = Some st'" "st_Up st'"
    using assms(2) by (auto simp: up_of_def split: option.splits)
  moreover from this assms(1) obtain st where "mget (l_stations l) k = Some st" "st_Up st' = st_Up st"
    unfolding calls_step_def by blast
  ultimately show ?thesis by (simp add: up_of_def)
qed

lemma step_right_I:
  assumes "v24_ok l'" "heard_right t l out l'" "\<And>k. up_of l' k \<Longrightarrow> up_of l k"
  shows "step_right t l out l'"
proof -
  have "talking (receiving_of l' k) = Idle" if "up_of l' k \<noteq> up_of l k" for k
    using that assms(3) [of k] up_linked [of l' k] assms(1) by (auto simp: v24_ok_def talking_def)
  then show ?thesis using assms by (auto simp: step_right_def heard_right_def v24_observe_def)
qed

lemma note_record_facts:
  "same_role st (note_record p grp rec now st)" "st_call (note_record p grp rec now st) = fst (heard (st_call st) rec now)"
  by (auto simp: note_record_def same_role_def Let_def case_prod_beta split: option.splits)

lemma handle_record_right:
  assumes ok: "v24_ok l" and p: "ReadRecord p = Some rec" "rec \<noteq> RecordUnknown"
  shows "step_right (holder_name i) l (snd (handle_record i p grp rec now l)) (fst (handle_record i p grp rec now l))"
proof (cases "mget (l_stations l) i")
  case None
  then show ?thesis
    using ok by (simp add: handle_record_def step_right_I heard_right_silent)
next
  case (Some st)
  define st1 where "st1 = note_record p grp rec now st"
  define l1 where "l1 = put_station i st1 l"
  define l2 where "l2 = (if is_voice rec then l1\<lparr>l_voice := l_voice l1 + 1\<rparr> else l1)"
  have role: "same_role st st1" "st_call st1 = fst (heard (st_call st) rec now)"
    by (simp_all add: st1_def note_record_facts)
  have f2: "l_stations l2 = l_stations l1" "l_nextID l2 = l_nextID l1" "l_toGateways l2 = l_toGateways l1"
    "l_hasGateways l2 = l_hasGateways l1" by (simp_all add: l2_def)
  have ok2: "relay_ok l2" "heard_right (holder_name i) l [] l2"
    using relay_ok_put(1) [OF _ Some role(1)] relay_ok_put(2) [OF _ Some role(1), of "holder_name i"] ok
    by (simp_all add: relay_frame [OF f2] l1_def v24_ok_def)
  have get2: "mget (l_stations l2) i = Some st1" by (simp add: f2 l1_def)
  obtain c fin began where h: "heard (st_call st) rec now = (c, fin, began)" by (cases "heard (st_call st) rec now") auto
  define r where "r = fst (relay i p rec began (fin \<noteq> None) now l2)"
  have r: "relay_ok (fst r) \<and> heard_right (holder_name i) l2 (snd r) (fst r) \<and> calls_ok (fst r) \<and> calls_step i l2 (fst r)"
    unfolding r_def
  proof (rule relay_step [OF ok2(1) get2 p])
    show "began \<longleftrightarrow> rec = RecordStart \<or> st_call st = None \<and> rec \<noteq> RecordEnd"
      using heard_began_iff [of "st_call st" rec now] h p(2) by simp
    show "fin \<noteq> None \<longleftrightarrow> st_call st \<noteq> None \<and> (rec = RecordStart \<or> rec = RecordEnd)"
      using heard_finished_iff [of "st_call st" rec now] h by simp
    show "st_call st \<noteq> None" if "st_relaying st1"
      using that role(1) ok Some by (auto simp: v24_ok_def calls_ok_def same_role_def)
    show "st_call st1 \<noteq> None" if "rec \<noteq> RecordEnd"
      using heard_current_iff [of "st_call st" rec now] that p(2) role(2) by simp
    show "st_call s \<noteq> None" if "mget (l_stations l2) k = Some s" "k \<noteq> i" "st_relaying s" for k s
      using that ok by (auto simp: f2 l1_def v24_ok_def calls_ok_def)
  qed
  define l4 where "l4 = (if fin = None then fst r else (fst r)\<lparr>l_calls := l_calls (fst r) + 1\<rparr>)"
  have f4: "l_stations l4 = l_stations (fst r)" "l_nextID l4 = l_nextID (fst r)" "l_toGateways l4 = l_toGateways (fst r)"
    "l_hasGateways l4 = l_hasGateways (fst r)" by (simp_all add: l4_def)
  define tail where "tail = (case fin of None \<Rightarrow> []
      | Some c \<Rightarrow> [Finished_call (st_holder st) c (if vc_Marked c then EndMarked else EndQuiet)]) @
    (case mget (l_stations l4) i of
        Some st \<Rightarrow> (case st_call st of Some c \<Rightarrow> [Heard_call (st_holder st) c] | None \<Rightarrow> []) | None \<Rightarrow> [])"
  have res: "handle_record i p grp rec now l = (l4, snd r @ tail)"
    unfolding handle_record_def Some option.case h prod.case Let_def
    by (cases fin) (simp_all add: case_prod_beta r_def l2_def l1_def st1_def l4_def tail_def)
  have quiet: "sends k tail = []" "gw_all t tail g = g" for k t g
    by (auto simp: tail_def split: option.splits)
  have "heard_right (holder_name i) l (snd r) (fst r)"
    using heard_right_trans [OF ok2(2)] r by force
  then have "heard_right (holder_name i) l (snd r @ tail) l4"
    by (simp add: heard_right_def quiet relay_frame(2) [OF f4] f4)
  moreover have "v24_ok l4" using r relay_frame [OF f4] by (simp add: v24_ok_def)
  moreover have up: "up_of l4 k = up_of (fst r) k" "up_of l2 k = up_of l k" for k
    using Some role(1) by (simp_all add: up_of_def f4 f2 l1_def same_role_def)
  ultimately show ?thesis
    unfolding res fst_conv snd_conv
    by (intro step_right_I) (use calls_step_up [of i l2 "fst r"] r in \<open>auto simp: up\<close>)
qed

text \<open>Steps that send no record.\<close>

lemma silent_right:
  assumes "v24_ok l'" "\<And>k. up_of l' k = up_of l k \<Longrightarrow> receiving_of l' k = receiving_of l k"
    "\<And>k. up_of l' k \<noteq> up_of l k \<Longrightarrow> receiving_of l' k = ''''" "l_toGateways l' = l_toGateways l"
    and "\<And>k. sends k out = []" "\<And>g. gw_all t out g = g"
  shows "step_right t l out l'"
proof -
  have "talking [] = Idle" by (simp add: talking_def)
  then show ?thesis using assms by (auto simp: step_right_def v24_observe_def)
qed

lemma frame_right:
  assumes "v24_ok l" "l_stations l' = l_stations l" "l_nextID l' = l_nextID l" "l_toGateways l' = l_toGateways l"
    "l_hasGateways l' = l_hasGateways l"
  shows "step_right t l [] l'"
  by (rule silent_right) (use assms relay_frame [OF assms(2-5)] in \<open>auto simp: v24_ok_def up_of_def\<close>)

lemma same_role_right:
  assumes "v24_ok l" "mget (l_stations l) i = Some st" "same_role st st'" "st_call st' = st_call st"
  shows "step_right t l [] (put_station i st' l)"
proof (rule silent_right)
  show "v24_ok (put_station i st' l)"
    using relay_ok_put(1) [OF _ assms(2,3)] assms by (auto simp: v24_ok_def calls_ok_def same_role_def)
qed (use assms(2,3) in \<open>auto simp: receiving_put receiving_of_def up_of_def same_role_def\<close>)

lemma accept_right:
  assumes "v24_ok l"
  shows "step_right t l (snd (accept router now l)) (fst (accept router now l))"
proof -
  define i where "i = l_nextID l + 1"
  define l' where "l' = put_station i (new_station i router now) (l\<lparr>l_nextID := i\<rparr>)"
  have new: "mget (l_stations l) i = None"
    using assms by (cases "mget (l_stations l) i") (fastforce simp: v24_ok_def relay_ok_def station_ok_def i_def)+
  have owed: "owed l h \<Longrightarrow> owed l' h" for h
    using new by (auto simp: owed_def l'_def put_station_def) (metis option.distinct(1))
  have "v24_ok l'"
    using assms owed new unfolding v24_ok_def relay_ok_def station_ok_def calls_ok_def
    by (auto simp: l'_def put_station_def new_station_def link_new_def holder_name_def i_def le_SucI)
  moreover have "receiving_of l' k = receiving_of l k" "up_of l' k = up_of l k" for k
    using new by (auto simp: l'_def put_station_def receiving_of_def up_of_def new_station_def)
  ultimately have "step_right t l [] l'"
    by (intro silent_right) (auto simp: l'_def)
  moreover have "step_right t l [RefuseTunnel router] (l\<lparr>l_refused := l_refused l + 1\<rparr>)"
    by (rule silent_right) (use assms relay_frame [of "l\<lparr>l_refused := l_refused l + 1\<rparr>" l] in
        \<open>auto simp: v24_ok_def up_of_def\<close>)
  ultimately show ?thesis by (auto simp: accept_def Let_def l'_def i_def)
qed

lemma expire_right:
  assumes "v24_ok l"
  shows "step_right t l (snd (expire_call i now l)) (fst (expire_call i now l))"
proof -
  consider "expire_call i now l = (l, [])"
    | st c where "mget (l_stations l) i = Some st" "st_call st = Some c" "call_stale now (Some c)"
    by (cases "mget (l_stations l) i"; cases "st_call (the (mget (l_stations l) i))";
        cases "call_stale now (st_call (the (mget (l_stations l) i)))") (auto simp: expire_call_def)
  then show ?thesis
  proof cases
    case 1
    then show ?thesis using frame_right [OF assms, of l] by simp
  next
    case 2
    define st' where "st' = st\<lparr>st_call := None, st_Transmitting := False, st_Calls := st_Calls st + 1\<rparr>"
    have role: "same_role st st'" by (simp add: st'_def same_role_def)
    define l1 where "l1 = put_station i st' l"
    have l1: "relay_ok l1" "heard_right t l [] l1"
      using relay_ok_put(1) [OF _ 2(1) role] relay_ok_put(2) [OF _ 2(1) role, of t] assms
      by (auto simp: l1_def v24_ok_def)
    define l2 where "l2 = (fst (endRelay i l1))\<lparr>l_calls := l_calls (fst (endRelay i l1)) + 1\<rparr>"
    have res: "expire_call i now l = (l2, snd (endRelay i l1) @ [Finished_call (st_holder st) (c\<lparr>vc_Ended := vc_last c\<rparr>) EndQuiet])"
      using 2 by (simp add: expire_call_def Let_def case_prod_beta l2_def l1_def st'_def)
    have f2: "l_stations l2 = l_stations (fst (endRelay i l1))" "l_nextID l2 = l_nextID (fst (endRelay i l1))"
      "l_toGateways l2 = l_toGateways (fst (endRelay i l1))" "l_hasGateways l2 = l_hasGateways (fst (endRelay i l1))"
      by (simp_all add: l2_def)
    have "calls_ok l2"
    proof -
      have get: "mget (l_stations l1) k = (if k = i then Some st' else mget (l_stations l) k)" for k
        by (simp add: l1_def)
      show ?thesis
        using assms 2(1) by (auto simp: calls_ok_def f2 endRelay_ok(3) [OF l1(1)] get v24_ok_def)
    qed
    then have "v24_ok l2" using endRelay_ok(1) [OF l1(1)] relay_frame [OF f2] by (simp add: v24_ok_def)
    moreover have "heard_right t l (snd (endRelay i l1)) l2"
      using heard_right_trans [OF l1(2) endRelay_ok(2) [OF l1(1)]] relay_frame(4) [OF f2] by simp
    then have "heard_right t l (snd (endRelay i l1) @ [Finished_call (st_holder st) (c\<lparr>vc_Ended := vc_last c\<rparr>) EndQuiet]) l2"
      by (simp add: heard_right_def)
    moreover have "up_of l2 k \<Longrightarrow> up_of l k" for k
      using calls_step_up [OF calls_step_endRelay [OF l1(1), of i i], of k] 2(1) role
      by (auto simp: up_of_def f2 l1_def same_role_def split: option.splits if_splits)
    ultimately show ?thesis using res step_right_I by simp
  qed
qed

text \<open>A station whose link moves: it is on no call when its link opened or dropped.\<close>

definition link_moved :: "station \<Rightarrow> station \<Rightarrow> bool" where
  "link_moved st st' \<longleftrightarrow> st_holder st' = st_holder st \<and> st_relaying st' = st_relaying st \<and>
     st_Up st' = ls_up (st_link st') \<and> (st_send st \<longrightarrow> st_send st') \<and>
     st_receiving st' = (if st_Up st' = st_Up st then st_receiving st else '''')"

lemma link_moved_ok:
  assumes "relay_ok l" "mget (l_stations l) i = Some st" "link_moved st st'"
    and "l_stations l' = mput i st' (l_stations l)" "l_nextID l' = l_nextID l" "l_toGateways l' = l_toGateways l"
      "l_hasGateways l' = l_hasGateways l"
  shows "relay_ok l'"
proof -
  have ok: "\<And>k o'. mget (l_stations l) k = Some o' \<Longrightarrow> station_ok l k o'"
    using assms(1) by (auto simp: relay_ok_def)
  have owed: "owed l' h" if h: "owed l h" for h
  proof (cases "h = GatewayFloor")
    case False
    then obtain j o' where j: "mget (l_stations l) j = Some o'" "st_relaying o'" "st_holder o' = h"
      using h by (auto simp: owed_def)
    then have "mget (l_stations l') j = Some (if j = i then st' else o')"
      "st_relaying (if j = i then st' else o')" "st_holder (if j = i then st' else o') = h"
      using assms(2,3,4) by (auto simp: link_moved_def)
    then show ?thesis unfolding owed_def by blast
  qed (simp add: owed_def)
  have "station_ok l' k o'" if "mget (l_stations l') k = Some o'" for k o'
    using that ok [of k o'] ok [OF assms(2)] assms(3,4,5) owed
    by (auto simp: station_ok_def linked_def link_moved_def split: if_splits)
  then show ?thesis using assms by (auto simp: relay_ok_def)
qed

lemma link_moved_right:
  assumes "v24_ok l" "mget (l_stations l) i = Some st" "link_moved st st'" "st_call st' = st_call st"
    and l': "l_stations l' = mput i st' (l_stations l)" "l_nextID l' = l_nextID l" "l_toGateways l' = l_toGateways l"
      "l_hasGateways l' = l_hasGateways l"
    and "\<And>k. sends k out = []" "\<And>g. gw_all t out g = g"
  shows "step_right t l out l'"
proof (rule silent_right)
  show "v24_ok l'"
    using link_moved_ok [OF _ assms(2,3) l'] assms by (auto simp: v24_ok_def calls_ok_def link_moved_def)
  show "receiving_of l' k = receiving_of l k" if "up_of l' k = up_of l k" for k
    using that assms(2,3) l' by (auto simp: receiving_of_def up_of_def link_moved_def split: if_splits)
  show "receiving_of l' k = ''''" if "up_of l' k \<noteq> up_of l k" for k
    using that assms(2,3) l' by (auto simp: receiving_of_def up_of_def link_moved_def split: if_splits option.splits)
qed (use assms in auto)

lemma quiet_outputs:
  "sends k (map (Reply i grp) ps) = []" "gw_all t (map (Reply i grp) ps) g = g"
  "sends k (supersede i grp site l) = []" "gw_all t (supersede i grp site l) g = g"
proof -
  show "sends k (map (Reply i grp) ps) = []" "gw_all t (map (Reply i grp) ps) g = g"
    by (induction ps) (auto simp: gw_all_def)
  have "sends k (map (CloseTunnel \<circ> fst) xs) = []" "gw_all t (map (CloseTunnel \<circ> fst) xs) g = g" for xs :: "(nat \<times> station) list"
    by (induction xs) (auto simp: gw_all_def)
  then show "sends k (supersede i grp site l) = []" "gw_all t (supersede i grp site l) g = g"
    by (auto simp: supersede_def split: option.splits)
qed

lemma handle_link_right:
  assumes ok: "v24_ok l"
  shows "step_right t l (snd (handle_link i p grp now l)) (fst (handle_link i p grp now l))"
proof (cases "mget (l_stations l) i")
  case None
  then show ?thesis using frame_right [OF ok, of l] by (simp add: handle_link_def)
next
  case (Some st)
  have link: "st_Up st = ls_up (st_link st)"
    using ok Some by (auto simp: v24_ok_def relay_ok_def station_ok_def)
  obtain reply kind where a: "Answer p = (reply, kind)" by fastforce
  obtain nxt intro where n: "after kind (st_link st) = (nxt, intro)" by fastforce
  show ?thesis
  proof (cases "kind = KindUnknown")
    case True
    then show ?thesis
      using frame_right [OF ok, of "l\<lparr>l_unknown := l_unknown l + 1\<rparr>"] by (simp add: handle_link_def Some a)
  next
    case False
    define up where "up = ls_up nxt"
    define st1 where "st1 = (if ls_up (st_link st) = up then st\<lparr>st_link := nxt\<rparr>
      else st\<lparr>st_link := nxt, st_Up := up, st_UpSince := (if up then now else st_UpSince st), st_receiving := ''''\<rparr>)"
    define st2 where "st2 = (if kind = KindIntroduction
      then st1\<lparr>st_group := grp, st_Introduced := True, st_Site := drop_bit 1 (p ! 3), st_StationType := p ! 4\<rparr>
      else st1\<lparr>st_group := grp\<rparr>)"
    have stations: "l_stations (fst (handle_link i p grp now l)) = mput i st2 (l_stations l)"
      "l_nextID (fst (handle_link i p grp now l)) = l_nextID l"
      "l_toGateways (fst (handle_link i p grp now l)) = l_toGateways l"
      "l_hasGateways (fst (handle_link i p grp now l)) = l_hasGateways l"
      using False
      by (auto simp: handle_link_def Some a n Let_def countUp_def put_station_def st2_def st1_def up_def)
    have out: "sends k (snd (handle_link i p grp now l)) = []" "gw_all t (snd (handle_link i p grp now l)) g = g" for k g
      using False
      by (auto simp: handle_link_def Some a n Let_def countUp_def quiet_outputs put_station_def)
    show ?thesis
      by (rule link_moved_right [OF ok Some _ _ stations out])
        (use link in \<open>auto simp: st2_def st1_def up_def link_moved_def\<close>)
  qed
qed

lemma close_right:
  assumes ok: "v24_ok l"
  shows "step_right t l (snd (close_tunnel i now l)) (fst (close_tunnel i now l))"
proof (cases "mget (l_stations l) i")
  case None
  then show ?thesis using frame_right [OF ok, of l] by (simp add: close_tunnel_def)
next
  case (Some st)
  have st: "station_ok l i st" and rok: "relay_ok l"
    using ok Some by (auto simp: v24_ok_def relay_ok_def)
  define l0 where "l0 = countUp i (ls_up (st_link st)) False now l"
  define st0 where "st0 = (if ls_up (st_link st) then st\<lparr>st_Up := False, st_receiving := ''''\<rparr> else st)"
  define st1 where "st1 = st0\<lparr>st_call := None, st_link := link_new\<rparr>"
  define l1 where "l1 = put_station i st1 l0"
  have l0: "mget (l_stations l0) i = Some st0" "mget (l_stations l1) k = (if k = i then Some st1 else mget (l_stations l) k)"
    "l_stations l1 = mput i st1 (l_stations l)" "l_nextID l1 = l_nextID l" "l_toGateways l1 = l_toGateways l"
    "l_hasGateways l1 = l_hasGateways l" for k
    using Some by (auto simp: l0_def countUp_def st0_def l1_def put_station_def)
  have moved: "link_moved st st1"
    using st by (auto simp: link_moved_def st1_def st0_def link_new_def station_ok_def linked_def)
  have ok1: "relay_ok l1" by (rule link_moved_ok [OF rok Some moved l0(3-6)])
  define l2 where "l2 = fst (endRelay i l1)"
  note e = endRelay_ok [OF ok1, where i = i, folded l2_def]
  define fin where "fin = (case st_call st of None \<Rightarrow> []
      | Some c \<Rightarrow> [Finished_call (st_holder st) (c\<lparr>vc_Ended := vc_last c\<rparr>) EndLinkClosed])"
  define l3 where "l3 = (if st_call st = None then l2 else l2\<lparr>l_calls := l_calls l2 + 1\<rparr>)\<lparr>l_stations := mdel i (l_stations l2)\<rparr>"
  have res: "close_tunnel i now l = (l3, snd (endRelay i l1) @ fin)"
    unfolding close_tunnel_def Some option.case Let_def l0_def [symmetric] l0(1)
    by (cases "st_call st") (simp_all add: case_prod_beta l3_def fin_def l2_def l1_def st1_def st0_def)
  have f3: "l_stations l3 = mdel i (l_stations l2)" "l_nextID l3 = l_nextID l2" "l_toGateways l3 = l_toGateways l2"
    "l_hasGateways l3 = l_hasGateways l2" by (simp_all add: l3_def)
  have i2: "st_receiving o' = ''''" "\<not> st_relaying o'" if "mget (l_stations l2) i = Some o'" for o'
  proof -
    have "\<not> st_Up st1" using st by (auto simp: st1_def st0_def station_ok_def)
    then have "\<not> st_Up o'" "\<not> st_relaying o'" using that by (auto simp: e(3) l0(2))
    moreover have "station_ok l2 i o'" using e(1) that by (auto simp: relay_ok_def)
    ultimately show "st_receiving o' = ''''" "\<not> st_relaying o'" by (auto simp: station_ok_def linked_def)
  qed
  have owed: "owed l3 h" if h: "owed l2 h" for h
    using h i2(2) by (auto simp: owed_def f3) (metis option.inject)
  have "relay_ok l3"
    using e(1) owed by (auto simp: relay_ok_def station_ok_def f3 split: if_splits)
  moreover have "calls_ok l3"
    using ok by (auto simp: calls_ok_def v24_ok_def f3 e(3) l0(2) split: if_splits)
  moreover have "v24_observe t l (snd (endRelay i l1) @ fin) l3 (\<lambda>k. talking (receiving_of l k)) k = talking (receiving_of l3 k)" for k
  proof -
    have fin: "sends k fin = []" by (simp add: fin_def split: option.splits)
    have hr: "hear_all t (sends k (snd (endRelay i l1))) (talking (receiving_of l1 k)) = talking (receiving_of l2 k)"
      using e(2) [of t] by (simp add: heard_right_def)
    show ?thesis
    proof (cases "k = i")
      case False
      have "receiving_of l1 k = receiving_of l k" "receiving_of l3 k = receiving_of l2 k" "up_of l3 k = up_of l k"
        using False by (simp add: receiving_of_def l0(2), simp add: receiving_of_def f3)
          (use False in \<open>auto simp: up_of_def f3 e(3) l0(2) split: option.splits\<close>)
      then show ?thesis using hr by (simp add: v24_observe_def fin)
    next
      case True
      have r: "receiving_of l3 k = ''''" "receiving_of l2 k = ''''" "\<not> up_of l3 k"
        using True i2 by (auto simp: receiving_of_def up_of_def f3 split: option.splits)
      moreover have "receiving_of l1 k = receiving_of l k" if "\<not> up_of l k"
        using up_linked [OF rok that] True st that Some
        by (auto simp: receiving_of_def l0(2) st1_def st0_def)
      ultimately show ?thesis using hr by (auto simp: v24_observe_def fin) (simp add: talking_def)
    qed
  qed
  moreover have "gw_all t (snd (endRelay i l1) @ fin) (talking (l_toGateways l)) = talking (l_toGateways l3)"
    using e(2) [of t] by (simp add: heard_right_def l0(5) f3 fin_def split: option.splits)
  ultimately show ?thesis by (simp add: res step_right_def v24_ok_def)
qed

lemma ending_right:
  assumes "v24_ok l" "l_stations l0 = l_stations l" "l_nextID l0 = l_nextID l" "l_toGateways l0 = l_toGateways l"
    "l_hasGateways l0 = l_hasGateways l"
  shows "step_right t l (snd (endAtRepeaters GatewayFloor l0)) (fst (endAtRepeaters GatewayFloor l0))"
proof (rule step_right_I)
  let ?l = "fst (endAtRepeaters GatewayFloor l0)"
  note f = relay_frame [OF assms(2-5)]
  have ok: "relay_ok l0" "calls_ok l0" using assms(1) f by (auto simp: v24_ok_def)
  have lk: "mget (l_stations l0) k = Some st \<Longrightarrow> st_receiving st \<noteq> '''' \<Longrightarrow> linked st" for k st
    using ok(1) by (auto simp: relay_ok_def station_ok_def)
  have wf: "mwf (l_stations l0)" using ok(1) by (simp add: relay_ok_def)
  have ne: "GatewayFloor \<noteq> ''''" by (simp add: GatewayFloor_def)
  have "heard_right t l0 (snd (endAtRepeaters GatewayFloor l0)) ?l"
    by (rule endAt_heard(2) [OF wf ne]) (rule lk)
  then show "heard_right t l (snd (endAtRepeaters GatewayFloor l0)) ?l"
    using f(5) by simp
  have owed: "owed ?l h" if h: "owed l0 h" for h
  proof (cases "h = GatewayFloor")
    case False
    then obtain j o' where j: "mget (l_stations l0) j = Some o'" "st_relaying o'" "st_holder o' = h"
      using h by (auto simp: owed_def)
    let ?o = "if listening GatewayFloor o' then o'\<lparr>st_receiving := ''''\<rparr> else o'"
    have "mget (l_stations ?l) j = Some ?o" "st_relaying ?o" "st_holder ?o = h"
      using j by (simp_all add: mget_endAt)
    then show ?thesis unfolding owed_def by blast
  qed (simp add: owed_def)
  have st: "\<exists>o0. mget (l_stations l0) k = Some o0 \<and>
      o' = (if listening GatewayFloor o0 then o0\<lparr>st_receiving := ''''\<rparr> else o0)" if "mget (l_stations ?l) k = Some o'" for k o'
    using that by (auto simp: mget_endAt)
  have "station_ok ?l k o'" if o': "mget (l_stations ?l) k = Some o'" for k o'
  proof -
    obtain o0 where o0: "mget (l_stations l0) k = Some o0"
      "o' = (if listening GatewayFloor o0 then o0\<lparr>st_receiving := ''''\<rparr> else o0)"
      using st [OF o'] by blast
    moreover have "station_ok l0 k o0" using ok(1) o0(1) by (auto simp: relay_ok_def)
    ultimately show ?thesis using owed by (auto simp: station_ok_def)
  qed
  then have "relay_ok ?l" using ok(1) by (auto simp: relay_ok_def)
  moreover have "calls_ok ?l"
    unfolding calls_ok_def
  proof (intro allI impI)
    fix k o' assume "mget (l_stations ?l) k = Some o'" "st_relaying o'"
    then obtain o0 where "mget (l_stations l0) k = Some o0" "st_relaying o0" "st_call o' = st_call o0"
      using st by (metis (no_types, lifting) station.select_convs station.update_convs station.surjective)
    then show "st_call o' \<noteq> None" using ok(2) by (simp add: calls_ok_def)
  qed
  ultimately show "v24_ok ?l" by (simp add: v24_ok_def)
  show "up_of l k" if "up_of ?l k" for k
    using that assms(2) by (auto simp: up_of_def mget_endAt split: option.splits if_splits)
qed

lemma from_gateway_right:
  assumes ok: "v24_ok l"
  shows "step_right GatewayFloor l (snd (FromGateway frame now l)) (fst (FromGateway frame now l))"
proof -
  consider "FromGateway frame now l = (l, [])" | f where "p25_Parse frame = Inr f" "Voice f"
    by (cases "p25_Parse frame"; cases "Voice (projr (p25_Parse frame))") (auto simp: FromGateway_def)
  then show ?thesis
  proof cases
    case 1
    then show ?thesis using frame_right [OF ok, of l] by simp
  next
    case 2
    let ?p = "[uiAddress, controlUI] @ frame"
    let ?l0 = "l\<lparr>l_inboundLast := now\<rparr>"
    define r where "r = toRepeaters GatewayFloor None ?p False (l_sendHeader l) True ?l0"
    have r: "FromGateway frame now l = r" using 2 by (simp add: FromGateway_def r_def)
    have f: "relay_ok ?l0 = relay_ok l" "heard_right t ?l0 out l1 = heard_right t l out l1" for t out l1
      by (rule relay_frame; simp)+
    have body: "body_record False ?p"
      using gateway_frame_is_voice [OF 2] by (simp add: body_record_def)
    have "relay_ok (fst r)" "heard_right GatewayFloor ?l0 (snd r) (fst r)"
      unfolding r_def
      by (rule toRepeaters_ok [OF _ _ _ body]; use ok f in \<open>simp add: v24_ok_def owed_def GatewayFloor_def\<close>)+
    moreover have cs: "calls_step 0 ?l0 (fst r)" unfolding r_def by (rule calls_step_toRepeaters)
    moreover have "calls_ok (fst r)"
      unfolding calls_ok_def
    proof (intro allI impI)
      fix k o' assume o': "mget (l_stations (fst r)) k = Some o'" "st_relaying o'"
      then obtain o0 where "mget (l_stations l) k = Some o0" "st_relaying o0" "st_call o' = st_call o0"
        by (auto simp: r_def split: if_splits)
      then show "st_call o' \<noteq> None" using ok by (simp add: v24_ok_def calls_ok_def)
    qed
    moreover have "up_of l k" if "up_of (fst r) k" for k
      using calls_step_up [OF cs that] by (simp add: up_of_def)
    ultimately show ?thesis
      unfolding r by (intro step_right_I) (auto simp: v24_ok_def f)
  qed
qed

lemma step_right_all: "v24_ok l \<Longrightarrow> step_right (talker_of l e) l (snd (v24_step now e l)) (fst (v24_step now e l))"
proof (cases e)
  case (EvServe i)
  assume ok: "v24_ok l"
  show ?thesis
  proof (cases "mget (l_stations l) i")
    case None
    then show ?thesis using EvServe frame_right [OF ok, of l] by (simp add: serve_tunnel_def)
  next
    case (Some st)
    then show ?thesis
      using EvServe same_role_right [OF ok Some, of "st\<lparr>st_send := True\<rparr>"] by (simp add: serve_tunnel_def same_role_def)
  qed
next
  case (EvFrame i f)
  assume "v24_ok l"
  then show ?thesis
    using EvFrame handle_link_right [of l] handle_record_right [of l] frame_right [of l l]
    by (auto simp: v24_frame_def talker_of_def split: option.splits)
next
  case (EvWrote i)
  assume ok: "v24_ok l"
  let ?l = "l\<lparr>l_sent := l_sent l + 1\<rparr>"
  show ?thesis
  proof (cases "mget (l_stations l) i")
    case None
    then show ?thesis using EvWrote frame_right [OF ok, of ?l] by (simp add: wrote_frame_def Let_def)
  next
    case (Some st)
    have moved: "link_moved st (st\<lparr>st_Sent := st_Sent st + 1\<rparr>)"
      using ok Some by (auto simp: link_moved_def v24_ok_def relay_ok_def station_ok_def)
    have "step_right (talker_of l e) l [] (put_station i (st\<lparr>st_Sent := st_Sent st + 1\<rparr>) ?l)"
      by (rule link_moved_right [OF ok Some moved]) (simp_all add: put_station_def)
    then show ?thesis using EvWrote Some by (simp add: wrote_frame_def Let_def)
  qed
qed (auto simp: accept_right expire_right close_right from_gateway_right ending_right frame_right talker_of_def
    EndFromGateway_def watchInbound_def)

section \<open>One call at a time\<close>

type_synonym observed = "v24_listener \<times> (nat \<Rightarrow> lmode) \<times> lmode"

definition observed_step :: "observed \<Rightarrow> observed \<Rightarrow> bool" where
  "observed_step s s' \<longleftrightarrow> (\<exists>now e. case s of (l, m, g) \<Rightarrow>
     let (l', out) = v24_step now e l; t = talker_of l e in
     s' = (l', v24_observe t l out l' m, gw_all t out g))"

definition observed_init :: "observed \<Rightarrow> bool" where
  "observed_init s \<longleftrightarrow> (case s of (l, m, g) \<Rightarrow>
     l_stations l = [] \<and> l_toGateways l = '''' \<and> m = (\<lambda>_. Idle) \<and> g = Idle)"

definition observed_inv :: "observed \<Rightarrow> bool" where
  "observed_inv s \<longleftrightarrow> (case s of (l, m, g) \<Rightarrow>
     v24_ok l \<and> (\<forall>k. m k = talking (receiving_of l k)) \<and> g = talking (l_toGateways l))"

interpretation v24: safe_system observed_init observed_step observed_inv
proof
  show "observed_inv s" if "observed_init s" for s
    using that by (auto simp: observed_init_def observed_inv_def v24_ok_def relay_ok_def calls_ok_def receiving_of_def talking_def)
  show "observed_inv s'" if inv: "observed_inv s" and step: "observed_step s s'" for s s'
  proof -
    obtain l m g where s: "s = (l, m, g)" by (cases s)
    obtain now e where s': "s' = (fst (v24_step now e l), v24_observe (talker_of l e) l (snd (v24_step now e l)) (fst (v24_step now e l)) m,
        gw_all (talker_of l e) (snd (v24_step now e l)) g)"
      using step by (auto simp: observed_step_def s case_prod_beta Let_def)
    have m: "m = (\<lambda>k. talking (receiving_of l k))" "g = talking (l_toGateways l)" "v24_ok l"
      using inv by (auto simp: observed_inv_def s)
    show ?thesis
      using step_right_all [OF m(3), of e now] by (simp add: observed_inv_def s' m(1,2) step_right_def)
  qed
qed

text \<open>
  C10: a listener hears one call at a time, from its start to its end.  However the repeaters talk over
  each other, fade, drop their links, reconnect or stop without an end, and whatever the gateways
  and the timers do meanwhile, what each repeater is sent while its link is up is a sequence of calls, each
  opened by one start, made of the records of one talker, and closed by two ends before the next
  begins; the gateways likewise are sent the voice of one repeater at a time, and its end before
  another's.  The call a repeater is on is the call \<open>receiving\<close> names.
\<close>

theorem one_call_at_a_time:
  assumes "reachable observed_init observed_step (l, m, g)"
  shows "m k = talking (receiving_of l k) \<and> m k \<noteq> Broken \<and> g = talking (l_toGateways l) \<and> g \<noteq> Broken"
proof -
  have "observed_inv (l, m, g)" by (rule v24.reachable_inv [OF assms])
  then show ?thesis by (auto simp: observed_inv_def talking_def)
qed

fun observed_run :: "(time \<times> v24_event) list \<Rightarrow> observed \<Rightarrow> observed" where
  "observed_run [] s = s"
| "observed_run ((now, e) # es) (l, m, g) =
     (let r = v24_step now e l; t = talker_of l e in
      observed_run es (fst r, v24_observe t l (snd r) (fst r) m, gw_all t (snd r) g))"

lemma observed_run_reachable:
  "reachable observed_init observed_step s \<Longrightarrow> reachable observed_init observed_step (observed_run es s)"
proof (induction es s rule: observed_run.induct)
  case (2 now e es l m g)
  have "observed_step (l, m, g) (fst (v24_step now e l),
      v24_observe (talker_of l e) l (snd (v24_step now e l)) (fst (v24_step now e l)) m,
      gw_all (talker_of l e) (snd (v24_step now e l)) g)"
    by (auto simp: observed_step_def case_prod_beta Let_def)
  then show ?case using "2.IH" [OF refl refl reachable.step [OF "2.prems"]] by (simp add: Let_def)
qed simp

primrec stations_run :: "(time \<times> v24_event) list \<Rightarrow> v24_listener \<Rightarrow> v24_listener" where
  "stations_run [] l = l"
| "stations_run (x # es) l = stations_run es (fst (v24_step (fst x) (snd x) l))"

lemma fst_observed_run: "fst (observed_run es s) = stations_run es (fst s)"
  by (induction es s rule: observed_run.induct) (simp_all add: Let_def)

definition demo_v24 :: v24_listener where
  "demo_v24 = \<lparr>l_id = AsRepeater, l_site = 2, l_sendHeader = False, l_hasGateways = True, l_maxTunnels = 64,
     l_allowed = [], l_nextID = 0, l_stations = [], l_floor = floor_new, l_up = 0, l_voice = 0, l_calls = 0,
     l_relayed = 0, l_held = 0, l_sent = 0, l_answered = 0, l_unknown = 0, l_refused = 0, l_toGateways = '''',
     l_inboundLast = 0\<rparr>"

text \<open>Two repeaters connect and open their links, and the first begins a call.\<close>

definition demo_v24_frame :: "byte list \<Rightarrow> tunnel_frame" where
  "demo_v24_frame p = \<lparr>t_Op = OpData, t_Group = 1, t_Payload = p\<rparr>"

definition demo_opening :: "nat \<Rightarrow> (time \<times> v24_event) list" where
  "demo_opening i = [(1, EvAccept ''192.0.2.1''), (2, EvServe i), (3, EvFrame i (demo_v24_frame [0xFD, 0x3F])),
     (4, EvFrame i (demo_v24_frame [0xFD, 0x73])),
     (5, EvFrame i (demo_v24_frame [0xFD, 0xBF, 0x01, 5, 0xC2, 0, 0, 0, 0, 0xFF])),
     (6, EvFrame i (demo_v24_frame [0xFD, 0x01]))]"

definition demo_events :: "(time \<times> v24_event) list" where
  "demo_events = demo_opening 1 @ demo_opening 2 @ [(7, EvFrame 1 (demo_v24_frame startMarker))]"

theorem one_call_at_a_time_witness:
  "reachable observed_init observed_step (observed_run demo_events (demo_v24, \<lambda>_. Idle, Idle)) \<and>
   fst (snd (observed_run demo_events (demo_v24, \<lambda>_. Idle, Idle))) 2 = Open ''repeater 1''"
proof -
  let ?s = "observed_run demo_events (demo_v24, \<lambda>_. Idle, Idle)"
  have r: "reachable observed_init observed_step ?s"
    by (intro observed_run_reachable reachable.start) (simp add: observed_init_def demo_v24_def)
  obtain l m g where s: "?s = (l, m, g)" by (cases ?s)
  have "l = stations_run demo_events demo_v24" using fst_observed_run [of demo_events "(demo_v24, \<lambda>_. Idle, Idle)"] s by simp
  moreover have "receiving_of (stations_run demo_events demo_v24) 2 = ''repeater 1''" by code_simp
  ultimately have "m 2 = Open ''repeater 1''"
    using one_call_at_a_time [of l m g 2] r s by (simp add: talking_def)
  then show ?thesis using r s by simp
qed

end
