(* ===== verification/P25_Calls.thy ===== *)
theory P25_Calls
  imports P25
begin

text \<open>
  \<^verbatim>\<open>internal/p25calls/calls.go\<close>: the transmissions in progress, one for each station, and the last few
  that finished.  \<open>OnStart\<close> and \<open>OnEnd\<close> are the calls of the two callbacks.  The lemmas show that the
  record is bounded, that a transmission is in progress from its first report to its end and never
  afterwards, and that each is announced once.
\<close>

definition DefaultHistory :: int where "DefaultHistory = 50"

abbreviation ViaRepeater :: string where "ViaRepeater \<equiv> ''repeater''"
abbreviation ViaGateway :: string where "ViaGateway \<equiv> ''gateway''"

type_synonym EndReason = string

abbreviation EndMarked :: EndReason where "EndMarked \<equiv> ''ended''"
abbreviation EndQuiet :: EndReason where "EndQuiet \<equiv> ''went quiet''"
abbreviation EndLinkClosed :: EndReason where "EndLinkClosed \<equiv> ''link closed''"

record p25_call =
  ca_Started :: time
  ca_Ended :: time
  ca_Source :: u32
  ca_Talkgroup :: u16
  ca_Frames :: int
  ca_ViaKind :: string
  ca_Via :: string
  ca_Carried :: bool
  ca_EndReason :: EndReason

definition InProgress :: "('a) p25_call_scheme \<Rightarrow> bool" where
  "InProgress c \<longleftrightarrow> IsZero (ca_Ended c)"

definition Duration :: "time \<Rightarrow> 'a p25_call_scheme \<Rightarrow> duration" where
  "Duration now c = (if InProgress c then Sub now (ca_Started c) else Sub (ca_Ended c) (ca_Started c))"

record p25_tracker =
  tr_History :: int
  tr_active :: "(string, p25_call) gomap"
  tr_recent :: "p25_call list"

datatype tracker_out = OnStart p25_call | OnEnd p25_call

definition NewTracker :: "int \<Rightarrow> p25_tracker" where
  "NewTracker history =
     \<lparr>tr_History = (if history \<le> 0 then DefaultHistory else history), tr_active = [], tr_recent = []\<rparr>"

definition Heard :: "string \<Rightarrow> p25_call \<Rightarrow> p25_tracker \<Rightarrow> p25_tracker \<times> tracker_out list" where
  "Heard key c t =
     (let c = c\<lparr>ca_Ended := 0\<rparr>; known = mget (tr_active t) key \<noteq> None in
      (t\<lparr>tr_active := mput key c (tr_active t)\<rparr>, if known then [] else [OnStart c]))"

definition Finished :: "string \<Rightarrow> p25_call \<Rightarrow> time \<Rightarrow> p25_tracker \<Rightarrow> p25_tracker \<times> tracker_out list" where
  "Finished key c at t =
     (let c = (if IsZero (ca_Ended c) then c\<lparr>ca_Ended := at\<rparr> else c);
          c = (if ca_EndReason c = '''' then c\<lparr>ca_EndReason := EndMarked\<rparr> else c);
          recent = c # tr_recent t
      in (t\<lparr>tr_active := mdel key (tr_active t),
            tr_recent := (if int (length recent) > tr_History t then take (nat (tr_History t)) recent else recent)\<rparr>,
          [OnEnd c]))"

definition Snapshot :: "p25_tracker \<Rightarrow> p25_call list \<times> p25_call list" where
  "Snapshot t = (sort_by (\<lambda>a b. ca_Started a < ca_Started b) (map snd (tr_active t)), tr_recent t)"

definition Seed :: "p25_call list \<Rightarrow> p25_tracker \<Rightarrow> p25_tracker" where
  "Seed newestFirst t =
     (let recent = tr_recent t @ newestFirst in
      t\<lparr>tr_recent := (if int (length recent) > tr_History t then take (nat (tr_History t)) recent else recent)\<rparr>)"

section \<open>The record\<close>

definition tracker_ok :: "p25_tracker \<Rightarrow> bool" where
  "tracker_ok t \<longleftrightarrow> 0 < tr_History t \<and> int (length (tr_recent t)) \<le> tr_History t \<and> mwf (tr_active t) \<and>
     list_all (\<lambda>(k, c). InProgress c) (tr_active t)"

lemma tracker_ok_new: "tracker_ok (NewTracker h)"
  by (simp add: tracker_ok_def NewTracker_def DefaultHistory_def)

lemma tracker_ok_Heard: "tracker_ok t \<Longrightarrow> tracker_ok (fst (Heard key c t))"
  by (auto simp: tracker_ok_def Heard_def Let_def InProgress_def IsZero_def list_all_iff dest!: mput_set_cases)

lemma tracker_ok_Finished: "tracker_ok t \<Longrightarrow> tracker_ok (fst (Finished key c at t))"
  by (auto simp: tracker_ok_def Finished_def Let_def list_all_iff mdel_def mwf_filter)

lemma tracker_ok_Seed: "tracker_ok t \<Longrightarrow> tracker_ok (Seed cs t)"
  by (auto simp: tracker_ok_def Seed_def Let_def)

interpretation snapshot: go_less "\<lambda>a b. ca_Started a < (ca_Started b :: time)"
  by unfold_locales auto

lemma Snapshot_exact:
  "sorted_wrt (\<lambda>a b. ca_Started a \<le> ca_Started b) (fst (Snapshot t))"
  "mset (fst (Snapshot t)) = mset (map snd (tr_active t))" "snd (Snapshot t) = tr_recent t"
  using snapshot.sorted_sort_by [of "map snd (tr_active t)"] by (simp_all add: Snapshot_def not_less)

lemma Finished_keeps_newest:
  assumes "tracker_ok t"
  shows "\<exists>d. snd (Finished key c at t) = [OnEnd d] \<and> hd (tr_recent (fst (Finished key c at t))) = d \<and>
    ca_EndReason d \<noteq> '''' \<and> (IsZero (ca_Ended c) \<longrightarrow> ca_Ended d = at) \<and> (\<not> IsZero (ca_Ended c) \<longrightarrow> ca_Ended d = ca_Ended c)"
  using assms by (auto simp: Finished_def Let_def tracker_ok_def take_Cons' nat_eq_iff)

text \<open>The reports of one station: a transmission is announced at its first report and at its end.\<close>

datatype report = RHeard p25_call | RFinished p25_call time

fun reports :: "string \<Rightarrow> report list \<Rightarrow> p25_tracker \<Rightarrow> p25_tracker \<times> tracker_out list" where
  "reports key [] t = (t, [])"
| "reports key (RHeard c # rs) t =
     (let (t', o1) = Heard key c t; (t'', o2) = reports key rs t' in (t'', o1 @ o2))"
| "reports key (RFinished c at # rs) t =
     (let (t', o1) = Finished key c at t; (t'', o2) = reports key rs t' in (t'', o1 @ o2))"

lemma heard_again_silent:
  "mget (tr_active t) key \<noteq> None \<Longrightarrow> list_all (\<lambda>r. case r of RHeard _ \<Rightarrow> True | _ \<Rightarrow> False) rs \<Longrightarrow>
    snd (reports key rs t) = []"
proof (induction rs arbitrary: t)
  case (Cons r rs)
  then obtain c where r: "r = RHeard c" by (cases r) auto
  have "mget (tr_active (fst (Heard key c t))) key \<noteq> None" by (simp add: Heard_def Let_def)
  then show ?case using Cons r by (auto simp: case_prod_beta) (simp add: Heard_def Let_def)
qed simp

lemma announced_once:
  assumes "mget (tr_active t) key = None" "list_all (\<lambda>r. case r of RHeard _ \<Rightarrow> True | _ \<Rightarrow> False) rs"
  shows "\<exists>s e. snd (reports key (RHeard c # rs @ [RFinished d at]) t) = [OnStart s, OnEnd e]"
    and "mget (tr_active (fst (reports key (RHeard c # rs @ [RFinished d at]) t))) key = None"
proof -
  have append: "reports key (xs @ [RFinished d at]) u =
      (fst (Finished key d at (fst (reports key xs u))), snd (reports key xs u) @ snd (Finished key d at (fst (reports key xs u))))" for xs u
  proof (induction xs arbitrary: u)
    case (Cons x xs)
    then show ?case by (cases x) (simp_all add: case_prod_beta)
  qed (simp add: case_prod_beta)
  have "mget (tr_active (fst (Heard key c t))) key \<noteq> None" by (simp add: Heard_def Let_def)
  then have "snd (reports key rs (fst (Heard key c t))) = []" using assms(2) by (rule heard_again_silent)
  then show "\<exists>s e. snd (reports key (RHeard c # rs @ [RFinished d at]) t) = [OnStart s, OnEnd e]"
    using assms(1) by (simp add: case_prod_beta append) (simp add: Heard_def Finished_def Let_def)
  show "mget (tr_active (fst (reports key (RHeard c # rs @ [RFinished d at]) t))) key = None"
    by (simp add: case_prod_beta append) (simp add: Finished_def Let_def)
qed

end
