(* ===== verification/P25_Gateways.thy ===== *)
theory P25_Gateways
  imports P25_Calls
begin

text \<open>
  \<^verbatim>\<open>internal/p25link\<close>: the listener of the P25 gateways.  A poll registers a gateway, its voice goes to
  every other gateway and to the Motorola repeaters while the gateways hold the floor, and a sweep
  forgets the gateways that went quiet.  The lemmas show that the registry is bounded, that only
  what a registered gateway sent under the floor is carried, verbatim and to others, and what the
  sweep removes.

  An address is the text of the IP, bracketed as \<open>String\<close> writes it, and the port.  \<open>wr\<close> says to which
  addresses a write succeeds, \<open>reach\<close> is how many repeaters the repeater link reports it reached.
  Log lines and the published snapshot, which is a copy of the registry, are not modelled.
\<close>

section \<open>State\<close>

type_synonym p25_addr = "string \<times> nat"

definition PollInterval :: duration where "PollInterval = 5 * second"
definition MissedPollsBeforeGone :: int where "MissedPollsBeforeGone = 3"
definition DefaultMaxGateways :: int where "DefaultMaxGateways = 250"

record gatewayCall =
  gc_Call :: p25_call
  gc_key :: string
  gc_last :: time
  gc_toRepeaters :: int
  gc_held :: int

record gateway =
  g_Callsign :: string
  g_Address :: "p25_addr option"
  g_FirstSeen :: time
  g_LastPoll :: time
  g_Talkgroup :: u16
  g_SourceID :: u32
  g_Polls :: u64
  g_Frames :: u64
  g_Sent :: u64
  g_call :: "gatewayCall option"

text \<open>\<open>Floor\<close> is nil on a listener with nothing to share it with.\<close>

record p25_listener =
  gl_MaxGateways :: int
  gl_Repeaters :: bool
  gl_gateways :: "(string, gateway) gomap"
  gl_allowed :: "string list"
  gl_floor :: "floor option"
  gl_refused :: u64
  gl_refusedCallsign :: "string option"
  gl_fullSaid :: time
  gl_unparsed :: u64
  gl_held :: u64

datatype p25_out =
    Answer_poll "byte list" p25_addr
  | Relay "byte list" p25_addr
  | To_repeaters "byte list"
  | End_at_repeaters
  | Heard_call string p25_call
  | Finished_call string p25_call

section \<open>Callsigns\<close>

definition normalise_char :: "char \<Rightarrow> string" where
  "normalise_char c =
     (if CHR ''a'' \<le> c \<and> c \<le> CHR ''z'' then [char_of (of_char c - 32 :: nat)]
      else if CHR '' '' < c \<and> c < CHR 0x7F then [c] else [])"

definition normalise :: "string \<Rightarrow> string" where
  "normalise callsign = concat (map normalise_char callsign)"

definition SetAllowedCallsigns :: "string list \<Rightarrow> p25_listener \<Rightarrow> p25_listener" where
  "SetAllowedCallsigns list l = l\<lparr>gl_allowed := remdups (filter (\<lambda>c. c \<noteq> '''') (map normalise list))\<rparr>"

definition Admits :: "p25_listener \<Rightarrow> string \<Rightarrow> bool" where
  "Admits l callsign \<longleftrightarrow> length (gl_allowed l) = 0 \<or> normalise callsign \<in> set (gl_allowed l)"

definition maxGateways :: "p25_listener \<Rightarrow> int" where
  "maxGateways l = (if gl_MaxGateways l > 0 then gl_MaxGateways l else DefaultMaxGateways)"

section \<open>Datagrams\<close>

definition unparsed :: "p25_listener \<Rightarrow> p25_listener" where
  "unparsed l = l\<lparr>gl_unparsed := gl_unparsed l + 1\<rparr>"

definition poll :: "byte list \<Rightarrow> p25_addr \<Rightarrow> time \<Rightarrow> p25_listener \<Rightarrow> p25_listener \<times> p25_out list" where
  "poll raw from now l = (case ParsePoll raw of
      Inl _ \<Rightarrow> (unparsed l, [])
    | Inr p \<Rightarrow>
        let callsign = normalise (po_Callsign p) in
        if callsign = '''' then (unparsed l, [])
        else if \<not> Admits l callsign then
          (l\<lparr>gl_refused := gl_refused l + 1, gl_refusedCallsign := Some (po_Callsign p)\<rparr>, [])
        else if mget (gl_gateways l) callsign = None \<and> int (length (gl_gateways l)) \<ge> maxGateways l then
          (l\<lparr>gl_fullSaid := (if Sub now (gl_fullSaid l) \<ge> minute then now else gl_fullSaid l),
             gl_refused := gl_refused l + 1, gl_refusedCallsign := Some (po_Callsign p)\<rparr>, [])
        else
          let g = (case mget (gl_gateways l) callsign of
                Some g \<Rightarrow> g
              | None \<Rightarrow> \<lparr>g_Callsign = po_Callsign p, g_Address = None, g_FirstSeen = now, g_LastPoll = 0,
                  g_Talkgroup = 0, g_SourceID = 0, g_Polls = 0, g_Frames = 0, g_Sent = 0, g_call = None\<rparr>);
              g = g\<lparr>g_Address := Some from, g_LastPoll := now, g_Polls := g_Polls g + 1\<rparr>
          in (l\<lparr>gl_gateways := mput callsign g (gl_gateways l)\<rparr>, [Answer_poll raw from]))"

definition callKey :: "gateway \<Rightarrow> string" where
  "callKey g = (case g_Address g of
      None \<Rightarrow> ''gateway '' @ g_Callsign g
    | Some (ip, port) \<Rightarrow> ''gateway '' @ g_Callsign g @ '' '' @ ip @ '':'' @ FormatUint port)"

definition gl_Take :: "time \<Rightarrow> p25_listener \<Rightarrow> bool \<times> p25_listener" where
  "gl_Take now l = (case gl_floor l of
      None \<Rightarrow> (True, l)
    | Some f \<Rightarrow> (case Take GatewayFloor now f of (ok, f') \<Rightarrow> (ok, l\<lparr>gl_floor := Some f'\<rparr>)))"

definition gl_Release :: "p25_listener \<Rightarrow> p25_listener" where
  "gl_Release l = l\<lparr>gl_floor := map_option (Release GatewayFloor) (gl_floor l)\<rparr>"

text \<open>What a frame says of its gateway: the talkgroup and the radio.\<close>

definition read_lc :: "p25_frame \<Rightarrow> u16 option \<times> u32 option" where
  "read_lc f =
     ((case Talkgroup f of Inr (tg, high) \<Rightarrow> if high = 0 then Some tg else None | Inl _ \<Rightarrow> None),
      (case SourceID f of Inr src \<Rightarrow> Some src | Inl _ \<Rightarrow> None))"

definition or_else :: "'a option \<Rightarrow> 'a \<Rightarrow> 'a" where
  "or_else x d = (case x of Some v \<Rightarrow> v | None \<Rightarrow> d)"

definition new_gatewayCall :: "gateway \<Rightarrow> time \<Rightarrow> gatewayCall" where
  "new_gatewayCall g now =
     \<lparr>gc_Call = \<lparr>ca_Started = now, ca_Ended = 0, ca_Source = 0, ca_Talkgroup = 0, ca_Frames = 0,
        ca_ViaKind = ViaGateway, ca_Via = g_Callsign g, ca_Carried = False, ca_EndReason = ''''\<rparr>,
      gc_key = callKey g, gc_last = 0, gc_toRepeaters = 0, gc_held = 0\<rparr>"

text \<open>The call of the sender: what is said to have been heard, and what to have finished.\<close>

definition advance_call ::
  "p25_frame \<Rightarrow> bool \<Rightarrow> time \<Rightarrow> gateway \<Rightarrow> gateway \<times> gatewayCall option \<times> gatewayCall option" where
  "advance_call f carried now g =
     (if Voice f then
        let c = (case g_call g of Some c \<Rightarrow> c | None \<Rightarrow> new_gatewayCall g now);
            (tg, src) = read_lc f;
            call = (gc_Call c)\<lparr>ca_Frames := ca_Frames (gc_Call c) + 1,
                     ca_Talkgroup := or_else tg (ca_Talkgroup (gc_Call c)),
                     ca_Source := or_else src (ca_Source (gc_Call c)),
                     ca_Carried := (carried \<or> ca_Carried (gc_Call c))\<rparr>;
            c = c\<lparr>gc_Call := call, gc_last := now, gc_held := (if carried then gc_held c else gc_held c + 1)\<rparr>
        in (g\<lparr>g_call := Some c\<rparr>, Some c, None)
      else case g_call g of
        None \<Rightarrow> (g, None, None)
      | Some c \<Rightarrow> (g\<lparr>g_call := None\<rparr>, None,
          Some (c\<lparr>gc_Call := (gc_Call c)\<lparr>ca_Ended := now, ca_EndReason := EndMarked\<rparr>\<rparr>)))"

definition sender_of :: "p25_addr \<Rightarrow> p25_listener \<Rightarrow> (string \<times> gateway) option" where
  "sender_of from l = find (\<lambda>(k, g). g_Address g = Some from) (gl_gateways l)"

definition targets :: "string option \<Rightarrow> p25_listener \<Rightarrow> (string \<times> p25_addr) list" where
  "targets except l =
     map (\<lambda>(k, g). (k, the (g_Address g)))
       (filter (\<lambda>(k, g). Some k \<noteq> except \<and> g_Address g \<noteq> None) (gl_gateways l))"

text \<open>The frame to every target, counted where the write succeeds.\<close>

definition send_targets :: "(p25_addr \<Rightarrow> bool) \<Rightarrow> byte list \<Rightarrow> (string \<times> p25_addr) list \<Rightarrow> p25_listener \<Rightarrow>
    p25_listener \<times> p25_out list" where
  "send_targets wr raw ts l =
     (l\<lparr>gl_gateways := mmap (\<lambda>k g. if list_ex (\<lambda>(j, a). j = k \<and> wr a) ts then g\<lparr>g_Sent := g_Sent g + 1\<rparr> else g) (gl_gateways l)\<rparr>,
      map (\<lambda>(k, a). Relay raw a) (filter (\<lambda>(k, a). wr a) ts))"

definition finish_outputs :: "gatewayCall option \<Rightarrow> gatewayCall option \<Rightarrow> p25_out list" where
  "finish_outputs heard finished =
     (case heard of Some c \<Rightarrow> [Heard_call (gc_key c) (gc_Call c)] | None \<Rightarrow> []) @
     (case finished of Some c \<Rightarrow> [Finished_call (gc_key c) (gc_Call c)] | None \<Rightarrow> [])"

definition voice :: "p25_frame \<Rightarrow> byte list \<Rightarrow> p25_addr \<Rightarrow> time \<Rightarrow> (p25_addr \<Rightarrow> bool) \<Rightarrow> nat \<Rightarrow>
    p25_listener \<Rightarrow> p25_listener \<times> p25_out list" where
  "voice f raw from now wr reach l =
     (if \<not> Voice f \<and> \<not> EndsTransmission f then (unparsed l, [])
      else case sender_of from l of
        None \<Rightarrow> (l\<lparr>gl_refused := gl_refused l + 1\<rparr>, [])
      | Some (key, sender) \<Rightarrow>
          let (tg, src) = read_lc f;
              sender = sender\<lparr>g_Frames := g_Frames sender + 1, g_LastPoll := now,
                g_Talkgroup := or_else tg (g_Talkgroup sender), g_SourceID := or_else src (g_SourceID sender)\<rparr>;
              (carried, l) = gl_Take now l;
              l = (if carried \<and> EndsTransmission f then gl_Release l else l);
              (sender, heard, finished) = advance_call f carried now sender;
              l = l\<lparr>gl_gateways := mput key sender (gl_gateways l)\<rparr>;
              ts = (if carried then targets (Some key) l else []);
              l = (if carried then l else l\<lparr>gl_held := gl_held l + 1\<rparr>);
              (l, repeaters) =
                (if carried \<and> gl_Repeaters l then
                   if EndsTransmission f then (l, [End_at_repeaters])
                   else if reach > 0 then
                     (l\<lparr>gl_gateways := mput key (sender\<lparr>g_call := map_option
                          (\<lambda>c. c\<lparr>gc_toRepeaters := gc_toRepeaters c + int reach\<rparr>) (g_call sender)\<rparr>) (gl_gateways l)\<rparr>,
                      [To_repeaters raw])
                   else (l, [To_repeaters raw])
                 else (l, []));
              (l, sent) = send_targets wr raw ts l
          in (l, repeaters @ sent @ finish_outputs heard finished))"

definition p25_handle :: "byte list \<Rightarrow> p25_addr \<Rightarrow> time \<Rightarrow> (p25_addr \<Rightarrow> bool) \<Rightarrow> nat \<Rightarrow>
    p25_listener \<Rightarrow> p25_listener \<times> p25_out list" where
  "p25_handle raw from now wr reach l = (case p25_Parse raw of
      Inl _ \<Rightarrow> (unparsed l, [])
    | Inr f \<Rightarrow> if f_Kind f = KindPoll then poll raw from now l else voice f raw from now wr reach l)"

section \<open>From the repeaters\<close>

definition terminator :: "byte list" where
  "terminator = KindTerminator # replicate 16 0"

definition gl_toGateways :: "byte list \<Rightarrow> (p25_addr \<Rightarrow> bool) \<Rightarrow> p25_listener \<Rightarrow> p25_listener \<times> p25_out list" where
  "gl_toGateways raw wr l = send_targets wr raw (targets None l) l"

definition FromRepeater :: "byte list \<Rightarrow> (p25_addr \<Rightarrow> bool) \<Rightarrow> p25_listener \<Rightarrow> p25_listener \<times> p25_out list" where
  "FromRepeater raw wr l = (case p25_Parse raw of
      Inl _ \<Rightarrow> (l, [])
    | Inr f \<Rightarrow> if \<not> Voice f then (l, []) else gl_toGateways raw wr l)"

definition EndFromRepeater :: "(p25_addr \<Rightarrow> bool) \<Rightarrow> p25_listener \<Rightarrow> p25_listener \<times> p25_out list" where
  "EndFromRepeater wr l = gl_toGateways terminator wr l"

section \<open>The sweep\<close>

text \<open>One gateway at \<open>now\<close>: what is left of it, and the call it closes.\<close>

definition end_call :: "time \<Rightarrow> gatewayCall \<Rightarrow> p25_out" where
  "end_call at c = Finished_call (gc_key c) ((gc_Call c)\<lparr>ca_Ended := at, ca_EndReason := EndQuiet\<rparr>)"

definition expire_gateway :: "string list \<Rightarrow> time \<Rightarrow> string \<Rightarrow> gateway \<Rightarrow> gateway option \<times> p25_out list" where
  "expire_gateway allowed now key g =
     (if length allowed > 0 \<and> key \<notin> set allowed then
        (None, case g_call g of Some c \<Rightarrow> [end_call now c] | None \<Rightarrow> [])
      else
        let (g, done) = (case g_call g of
              Some c \<Rightarrow> if Sub now (gc_last c) > FloorHold then (g\<lparr>g_call := None\<rparr>, [end_call (gc_last c) c]) else (g, [])
            | None \<Rightarrow> (g, []))
        in if Sub now (g_LastPoll g) \<le> PollInterval * MissedPollsBeforeGone then (Some g, done) else (None, done))"

definition p25_expire :: "time \<Rightarrow> p25_listener \<Rightarrow> p25_listener \<times> p25_out list" where
  "p25_expire now l =
     (l\<lparr>gl_gateways := concat (map (\<lambda>(k, g). case fst (expire_gateway (gl_allowed l) now k g) of
          Some g' \<Rightarrow> [(k, g')] | None \<Rightarrow> []) (gl_gateways l))\<rparr>,
      concat (map (\<lambda>(k, g). snd (expire_gateway (gl_allowed l) now k g)) (gl_gateways l)))"

section \<open>The registry\<close>

lemma normalise_char_idem: "concat (map normalise_char (normalise_char c)) = normalise_char c"
proof (cases "CHR ''a'' \<le> c \<and> c \<le> CHR ''z''")
  case True
  then have n: "97 \<le> (of_char c :: nat)" "(of_char c :: nat) \<le> 122" by (simp_all add: char_le_iff)
  define d where "d = (char_of (of_char c - 32 :: nat) :: char)"
  have d: "(of_char d :: nat) = of_char c - 32" using n by (simp add: d_def)
  have "\<not> CHR ''a'' \<le> d" "CHR '' '' < d" "d < CHR 0x7F"
    using n d by (auto simp: char_le_iff less_le_not_le)
  then show ?thesis using True by (simp add: normalise_char_def d_def [symmetric])
qed (auto simp: normalise_char_def)

lemma normalise_idem [simp]: "normalise (normalise c) = normalise c"
  by (induction c) (simp_all add: normalise_def normalise_char_idem)

definition p25_ok :: "p25_listener \<Rightarrow> bool" where
  "p25_ok l \<longleftrightarrow> mwf (gl_gateways l) \<and> int (length (gl_gateways l)) \<le> maxGateways l \<and>
     (\<forall>k g. mget (gl_gateways l) k = Some g \<longrightarrow> k \<noteq> '''' \<and> normalise k = k \<and> g_Address g \<noteq> None)"

lemma mput_known: "mget m k \<noteq> None \<Longrightarrow> mwf m \<Longrightarrow> length (mput k v m) = length m"
  by (auto simp: length_mput)

lemma gl_Take_fields [simp]:
  "gl_gateways (snd (gl_Take now l)) = gl_gateways l" "gl_MaxGateways (snd (gl_Take now l)) = gl_MaxGateways l"
  "gl_Repeaters (snd (gl_Take now l)) = gl_Repeaters l" "gl_allowed (snd (gl_Take now l)) = gl_allowed l"
  by (auto simp: gl_Take_def split: option.splits prod.splits)

lemma gl_Release_fields [simp]:
  "gl_gateways (gl_Release l) = gl_gateways l" "gl_MaxGateways (gl_Release l) = gl_MaxGateways l"
  "gl_Repeaters (gl_Release l) = gl_Repeaters l" "gl_allowed (gl_Release l) = gl_allowed l"
  by (simp_all add: gl_Release_def)

lemma send_targets_fields [simp]:
  "gl_MaxGateways (fst (send_targets wr raw ts l)) = gl_MaxGateways l"
  "gl_allowed (fst (send_targets wr raw ts l)) = gl_allowed l"
  "mwf (gl_gateways (fst (send_targets wr raw ts l))) = mwf (gl_gateways l)"
  "length (gl_gateways (fst (send_targets wr raw ts l))) = length (gl_gateways l)"
  "mget (gl_gateways (fst (send_targets wr raw ts l))) k =
    map_option (\<lambda>g. if list_ex (\<lambda>(j, a). j = k \<and> wr a) ts then g\<lparr>g_Sent := g_Sent g + 1\<rparr> else g) (mget (gl_gateways l) k)"
  by (simp_all add: send_targets_def) (simp add: mmap_def)

lemma sender_of_SomeD:
  assumes "sender_of from l = Some (k, g)" "mwf (gl_gateways l)"
  shows "mget (gl_gateways l) k = Some g" "g_Address g = Some from"
  using assms unfolding sender_of_def
  by (auto simp: find_Some_iff mget_Some_iff) (metis nth_mem)

lemma advance_call_address [simp]: "g_Address (fst (advance_call f c now g)) = g_Address g"
  by (auto simp: advance_call_def Let_def case_prod_beta split: option.splits)

lemma filter_mput_other: "filter (\<lambda>(k, g). k \<noteq> key \<and> P k g) (mput key v m) = filter (\<lambda>(k, g). k \<noteq> key \<and> P k g) m"
  by (induction m) (auto simp: mput_def)

lemma targets_other:
  "gl_gateways l' = mput key g (gl_gateways l) \<Longrightarrow> targets (Some key) l' = targets (Some key) l"
  "gl_gateways l' = mput key g (mput key g' (gl_gateways l)) \<Longrightarrow> targets (Some key) l' = targets (Some key) l"
  using filter_mput_other [of key "\<lambda>k (g :: gateway). g_Address g \<noteq> None"] by (simp_all add: targets_def)

lemma set_targets: "mwf (gl_gateways l) \<Longrightarrow> (k, a) \<in> set (targets except l) \<longleftrightarrow>
    Some k \<noteq> except \<and> (\<exists>g. mget (gl_gateways l) k = Some g \<and> g_Address g = Some a)"
  by (force simp: targets_def mget_Some_iff image_iff)

lemma no_relay_finish: "Relay b a \<notin> set (finish_outputs h d)"
  by (auto simp: finish_outputs_def split: option.splits)

lemma send_targets_relays:
  "Relay b a \<in> set (snd (send_targets wr raw ts l)) \<longleftrightarrow> b = raw \<and> wr a \<and> (\<exists>k. (k, a) \<in> set ts)"
  by (force simp: send_targets_def)

lemma voice_relays:
  "Relay b a \<in> set (snd (voice f raw from now wr reach l)) \<longleftrightarrow>
     (Voice f \<or> EndsTransmission f) \<and> b = raw \<and> wr a \<and> fst (gl_Take now l) \<and>
     (\<exists>key s k. sender_of from l = Some (key, s) \<and> (k, a) \<in> set (targets (Some key) l))"
  by (auto simp: voice_def Let_def case_prod_beta send_targets_relays no_relay_finish
      targets_other [where l = l] split: if_splits option.splits)

lemma p25_ok_put:
  assumes "p25_ok l" "mget (gl_gateways l) key \<noteq> None" "g_Address g \<noteq> None"
    and "gl_gateways l' = mput key g (gl_gateways l)" "gl_MaxGateways l' = gl_MaxGateways l"
  shows "p25_ok l'"
  using assms by (auto simp: p25_ok_def maxGateways_def mput_known)

lemma p25_ok_send: "p25_ok l \<Longrightarrow> p25_ok (fst (send_targets wr raw ts l))"
  unfolding p25_ok_def maxGateways_def by (auto split: if_splits)


lemma voice_ok:
  assumes "p25_ok l"
  shows "p25_ok (fst (voice f raw from now wr reach l))"
proof (cases "(Voice f \<or> EndsTransmission f) \<and> sender_of from l \<noteq> None")
  case False
  then show ?thesis
    using assms by (auto simp: voice_def unparsed_def p25_ok_def maxGateways_def split: option.splits)
next
  case True
  then obtain key s where s: "sender_of from l = Some (key, s)" by auto
  have wf: "mwf (gl_gateways l)" using assms by (simp add: p25_ok_def)
  note known = sender_of_SomeD [OF s wf]
  have put: "p25_ok l'" if "gl_gateways l' = mput key g (gl_gateways l)" "gl_MaxGateways l' = gl_MaxGateways l"
    "g_Address g = Some from" for l' g
    by (rule p25_ok_put [OF assms _ _ that(1,2)]) (use known that(3) in auto)
  show ?thesis
    using True s known(2)
    by (simp add: voice_def Let_def case_prod_beta) (auto intro!: p25_ok_send put)
qed

lemma poll_ok:
  assumes "p25_ok l"
  shows "p25_ok (fst (poll raw from now l))"
  using assms
  by (auto simp: poll_def p25_ok_def maxGateways_def unparsed_def length_mput Let_def
      split: sum.splits option.splits)

lemma mget_swept:
  assumes "mwf m"
  shows "mget (concat (map (\<lambda>(k, g). case f k g of Some g' \<Rightarrow> [(k, g')] | None \<Rightarrow> []) m)) k =
      (case mget m k of None \<Rightarrow> None | Some g \<Rightarrow> f k g)"
    and "mwf (concat (map (\<lambda>(k, g). case f k g of Some g' \<Rightarrow> [(k, g')] | None \<Rightarrow> []) m))"
    and "length (concat (map (\<lambda>(k, g). case f k g of Some g' \<Rightarrow> [(k, g')] | None \<Rightarrow> []) m)) \<le> length m"
proof -
  have keys: "fst ` set (concat (map (\<lambda>(k, g). case f k g of Some g' \<Rightarrow> [(k, g')] | None \<Rightarrow> []) m)) \<subseteq> fst ` set m" for m
    by (force split: option.splits)
  then have absent: "mget (concat (map (\<lambda>(k, g). case f k g of Some g' \<Rightarrow> [(k, g')] | None \<Rightarrow> []) m)) k = None"
    if "mget m k = None" for m k
    using that keys [of m] unfolding mget_None_iff mkeys_def by blast
  show "mget (concat (map (\<lambda>(k, g). case f k g of Some g' \<Rightarrow> [(k, g')] | None \<Rightarrow> []) m)) k =
      (case mget m k of None \<Rightarrow> None | Some g \<Rightarrow> f k g)"
    using assms
  proof (induction m)
    case (Cons x m)
    obtain j g where x: "x = (j, g)" by fastforce
    have "mget m j = None" "mwf m" using Cons.prems x by (auto simp: mwf_def mget_None_iff mkeys_def)
    then show ?case using Cons.IH x absent [of m j] by (auto simp: mget_Cons split: option.splits)
  qed simp
  show "mwf (concat (map (\<lambda>(k, g). case f k g of Some g' \<Rightarrow> [(k, g')] | None \<Rightarrow> []) m))"
    using assms
  proof (induction m)
    case (Cons x m)
    obtain j g where x: "x = (j, g)" by fastforce
    have "j \<notin> fst ` set m" "mwf m" using Cons.prems x by (auto simp: mwf_def)
    then have "j \<notin> fst ` set (concat (map (\<lambda>(k, g). case f k g of Some g' \<Rightarrow> [(k, g')] | None \<Rightarrow> []) m))"
      using keys [of m] by blast
    then show ?case using Cons.IH [OF \<open>mwf m\<close>] x unfolding mwf_def by (cases "f j g") simp_all
  qed simp
  show "length (concat (map (\<lambda>(k, g). case f k g of Some g' \<Rightarrow> [(k, g')] | None \<Rightarrow> []) m)) \<le> length m"
    by (induction m) (auto split: option.splits)
qed

lemma mget_p25_expire:
  "mwf (gl_gateways l) \<Longrightarrow> mget (gl_gateways (fst (p25_expire now l))) k =
     (case mget (gl_gateways l) k of None \<Rightarrow> None | Some g \<Rightarrow> fst (expire_gateway (gl_allowed l) now k g))"
  by (simp add: p25_expire_def mget_swept(1))

lemma expire_gateway_kept:
  "fst (expire_gateway allowed now k g) = Some g' \<longleftrightarrow>
     (allowed = [] \<or> k \<in> set allowed) \<and> Sub now (g_LastPoll g) \<le> PollInterval * MissedPollsBeforeGone \<and>
     g' = g\<lparr>g_call := (case g_call g of Some c \<Rightarrow> if Sub now (gc_last c) > FloorHold then None else Some c | None \<Rightarrow> None)\<rparr>"
  by (auto simp: expire_gateway_def Let_def split: option.splits)

lemma expire_ok:
  assumes "p25_ok l"
  shows "p25_ok (fst (p25_expire now l))"
proof -
  have wf: "mwf (gl_gateways l)" using assms by (simp add: p25_ok_def)
  have "g_Address g' \<noteq> None" if "mget (gl_gateways l) k = Some g" "fst (expire_gateway (gl_allowed l) now k g) = Some g'" for k g g'
    using that assms by (auto simp: p25_ok_def expire_gateway_kept)
  moreover have "mwf (gl_gateways (fst (p25_expire now l)))" "length (gl_gateways (fst (p25_expire now l))) \<le> length (gl_gateways l)"
    using mget_swept(2,3) [OF wf] by (simp_all add: p25_expire_def)
  moreover have "maxGateways (fst (p25_expire now l)) = maxGateways l"
    by (simp add: maxGateways_def p25_expire_def)
  ultimately show ?thesis
    using assms by (auto simp: p25_ok_def mget_p25_expire [OF wf] split: option.splits)
qed

lemma unparsed_ok: "p25_ok l \<Longrightarrow> p25_ok (unparsed l) \<and> gl_MaxGateways (unparsed l) = gl_MaxGateways l"
  by (auto simp: p25_ok_def maxGateways_def unparsed_def)

text \<open>What may happen to the listener.\<close>

inductive p25_step :: "p25_listener \<Rightarrow> p25_listener \<Rightarrow> bool" where
  datagram: "p25_step l (fst (p25_handle raw from now wr reach l))"
| sweep: "p25_step l (fst (p25_expire now l))"
| allow: "p25_step l (SetAllowedCallsigns cs l)"
| from_repeater: "p25_step l (fst (FromRepeater raw wr l))"
| end_from_repeater: "p25_step l (fst (EndFromRepeater wr l))"
| other_talker: "p25_step l (l\<lparr>gl_floor := f\<rparr>)"

interpretation p25_listener: safe_system "\<lambda>l. gl_gateways l = [] \<and> gl_MaxGateways l = mx" p25_step
  "\<lambda>l. p25_ok l \<and> gl_MaxGateways l = mx" for mx
proof
  show "p25_ok l \<and> gl_MaxGateways l = mx" if "gl_gateways l = [] \<and> gl_MaxGateways l = mx" for l
    using that by (simp add: p25_ok_def maxGateways_def DefaultMaxGateways_def)
  have mx: "gl_MaxGateways (fst (voice f raw from now wr reach l)) = gl_MaxGateways l"
    "gl_MaxGateways (fst (poll raw from now l)) = gl_MaxGateways l" for f raw "from" now wr reach l
    by (auto simp: voice_def poll_def unparsed_def Let_def case_prod_beta split: option.splits sum.splits)
  show "p25_ok t \<and> gl_MaxGateways t = mx" if "p25_ok l \<and> gl_MaxGateways l = mx" "p25_step l t" for l t
    using that(2,1)
  proof cases
    case (datagram raw src now wr reach)
    then show ?thesis
      using that(1) voice_ok [of l] poll_ok [of l] mx unparsed_ok [of l]
      by (cases "p25_Parse raw") (auto simp: p25_handle_def)
  next
    case (sweep now)
    then show ?thesis using that(1) expire_ok [of l now] by (simp add: p25_expire_def)
  next
    case (allow cs)
    then show ?thesis using that(1) by (auto simp: SetAllowedCallsigns_def p25_ok_def maxGateways_def)
  next
    case (from_repeater raw wr)
    then show ?thesis
      using that(1) by (auto simp: FromRepeater_def gl_toGateways_def p25_ok_send split: sum.splits)
  next
    case (end_from_repeater wr)
    then show ?thesis using that(1) by (simp add: EndFromRepeater_def gl_toGateways_def p25_ok_send)
  next
    case (other_talker f)
    then show ?thesis using that(1) by (auto simp: p25_ok_def maxGateways_def)
  qed
qed

text \<open>
  C24: what a gateway sends is carried exactly as it arrived, to others, and under the floor.  In every
  reachable state a datagram is relayed to an address exactly when it is a voice frame or a terminator,
  it came from the address of a registered gateway, the gateways are granted the floor at that moment,
  and another registered gateway is at the address; and what is relayed is the datagram itself.
\<close>

theorem gateway_voice_carried:
  assumes "reachable (\<lambda>l. gl_gateways l = [] \<and> gl_MaxGateways l = mx) p25_step l"
  shows "Relay b a \<in> set (snd (p25_handle raw from now wr reach l)) \<longleftrightarrow>
    b = raw \<and> wr a \<and> fst (gl_Take now l) \<and>
    (\<exists>f. p25_Parse raw = Inr f \<and> f_Kind f \<noteq> KindPoll) \<and>
    (\<exists>key s k g. sender_of from l = Some (key, s) \<and> mget (gl_gateways l) key = Some s \<and> g_Address s = Some from \<and>
       k \<noteq> key \<and> mget (gl_gateways l) k = Some g \<and> g_Address g = Some a)"
proof -
  have "p25_ok l" using p25_listener.reachable_inv [OF assms] by simp
  then have wf: "mwf (gl_gateways l)" by (simp add: p25_ok_def)
  have kinds: "Voice f \<or> EndsTransmission f \<longleftrightarrow> f_Kind f \<noteq> KindPoll" if "p25_Parse raw = Inr f" for f
    using voice_kinds [OF that] by (auto simp: EndsTransmission_def)
  have nopoll: "Relay b a \<notin> set (snd (poll raw from now l))"
    by (auto simp: poll_def Let_def split: sum.splits)
  show ?thesis
  proof (cases "p25_Parse raw")
    case (Inl e)
    then show ?thesis by (simp add: p25_handle_def unparsed_def)
  next
    case (Inr f)
    then show ?thesis
      using kinds [OF Inr] nopoll sender_of_SomeD [of "from" l, OF _ wf]
      by (auto simp: p25_handle_def voice_relays set_targets [OF wf]) blast+
  qed
qed

text \<open>Two gateways that polled, and a voice frame of the first.\<close>

definition demo_gateways :: p25_listener where
  "demo_gateways = \<lparr>gl_MaxGateways = 2, gl_Repeaters = False, gl_gateways = [], gl_allowed = [], gl_floor = None,
     gl_refused = 0, gl_refusedCallsign = None, gl_fullSaid = 0, gl_unparsed = 0, gl_held = 0\<rparr>"

definition demo_poll :: "string \<Rightarrow> byte list" where
  "demo_poll c = poll_Marshal (NewPoll c)"

definition demo_polled :: "p25_addr \<Rightarrow> p25_addr \<Rightarrow> p25_listener" where
  "demo_polled a b =
     fst (p25_handle (demo_poll ''k9mls'') b 2 (\<lambda>_. True) 0
       (fst (p25_handle (demo_poll ''W1AW'') a 1 (\<lambda>_. True) 0 demo_gateways)))"

definition demo_voice :: "byte list" where
  "demo_voice = 0x63 # replicate 13 0"

lemma demo_polled_reachable:
  "reachable (\<lambda>l. gl_gateways l = [] \<and> gl_MaxGateways l = 2) p25_step (demo_polled a b)"
proof -
  have "reachable (\<lambda>l. gl_gateways l = [] \<and> gl_MaxGateways l = 2) p25_step demo_gateways"
    by (rule reachable.start) (simp add: demo_gateways_def)
  then have "reachable (\<lambda>l. gl_gateways l = [] \<and> gl_MaxGateways l = 2) p25_step
      (fst (p25_handle (demo_poll ''W1AW'') a 1 (\<lambda>_. True) 0 demo_gateways))"
    by (rule reachable.step) (rule p25_step.datagram)
  then show ?thesis
    unfolding demo_polled_def by (rule reachable.step) (rule p25_step.datagram)
qed

theorem gateway_voice_carried_witness:
  "reachable (\<lambda>l. gl_gateways l = [] \<and> gl_MaxGateways l = 2) p25_step (demo_polled (''192.0.2.1'', 1) (''192.0.2.2'', 2)) \<and>
   Relay demo_voice (''192.0.2.2'', 2) \<in> set (snd (p25_handle demo_voice (''192.0.2.1'', 1) 3 (\<lambda>_. True) 0
     (demo_polled (''192.0.2.1'', 1) (''192.0.2.2'', 2))))"
proof -
  let ?l = "demo_polled (''192.0.2.1'', 1) (''192.0.2.2'', 2)"
  have "fst (gl_Take 3 ?l)" by code_simp
  moreover have "\<exists>f. p25_Parse demo_voice = Inr f \<and> f_Kind f \<noteq> KindPoll"
    by (simp add: p25_Parse_def demo_voice_def frameLength_def mget_Cons)
  moreover have "map_option fst (sender_of (''192.0.2.1'', 1) ?l) = Some ''W1AW''" by code_simp
  then obtain s where s: "sender_of (''192.0.2.1'', 1) ?l = Some (''W1AW'', s)" by auto
  moreover have "mget (gl_gateways ?l) ''W1AW'' = Some s \<and> g_Address s = Some (''192.0.2.1'', 1)"
    using sender_of_SomeD [OF s] p25_listener.reachable_inv [OF demo_polled_reachable] by (simp add: p25_ok_def)
  moreover have "map_option g_Address (mget (gl_gateways ?l) ''K9MLS'') = Some (Some (''192.0.2.2'', 2))" by code_simp
  then obtain g where "mget (gl_gateways ?l) ''K9MLS'' = Some g" "g_Address g = Some (''192.0.2.2'', 2)" by auto
  ultimately have "Relay demo_voice (''192.0.2.2'', 2) \<in> set (snd (p25_handle demo_voice (''192.0.2.1'', 1) 3 (\<lambda>_. True) 0 ?l))"
    by (intro iffD2 [OF gateway_voice_carried [OF demo_polled_reachable]]) (auto intro!: exI [of _ "''K9MLS''"])
  then show ?thesis using demo_polled_reachable by blast
qed

text \<open>
  "Everybody except the sender" is everybody under another callsign.  A gateway that polled under two
  callsigns from one address is sent its own voice back.
\<close>

lemma own_voice_returned:
  "Relay demo_voice (''192.0.2.1'', 1) \<in> set (snd (p25_handle demo_voice (''192.0.2.1'', 1) 3 (\<lambda>_. True) 0
     (demo_polled (''192.0.2.1'', 1) (''192.0.2.1'', 1))))"
  by code_simp

text \<open>
  the registry of gateways is bounded and holds only callsigns.  However many polls arrive, true or
  forged, at most the configured number of gateways is registered at once (250 when none is
  configured), each under its own folded callsign and with an address; and right after a
  sweep only gateways of the allow list that were heard in the last three poll intervals are left.
\<close>

lemma gateways_bounded:
  assumes "reachable (\<lambda>l. gl_gateways l = [] \<and> gl_MaxGateways l = mx) p25_step l"
  shows "int (length (gl_gateways l)) \<le> (if mx > 0 then mx else 250) \<and>
    (\<forall>k g. mget (gl_gateways (fst (p25_expire now l))) k = Some g \<longrightarrow>
       k \<noteq> '''' \<and> normalise k = k \<and> g_Address g \<noteq> None \<and> (gl_allowed l = [] \<or> k \<in> set (gl_allowed l)) \<and>
       Sub now (g_LastPoll g) \<le> 15 * second)"
proof -
  have ok: "p25_ok l" "gl_MaxGateways l = mx" using p25_listener.reachable_inv [OF assms] by auto
  then have wf: "mwf (gl_gateways l)" by (simp add: p25_ok_def)
  have "(gl_allowed l = [] \<or> k \<in> set (gl_allowed l)) \<and> Sub now (g_LastPoll g) \<le> 15 * second"
    if "mget (gl_gateways (fst (p25_expire now l))) k = Some g" for k g
    using that by (auto simp: mget_p25_expire [OF wf] expire_gateway_kept PollInterval_def MissedPollsBeforeGone_def
        split: option.splits)
  then show ?thesis
    using ok expire_ok [OF ok(1), of now] by (auto simp: p25_ok_def maxGateways_def DefaultMaxGateways_def)
qed

lemma gateways_bounded_witness:
  "reachable (\<lambda>l. gl_gateways l = [] \<and> gl_MaxGateways l = 2) p25_step (demo_polled (''192.0.2.1'', 1) (''192.0.2.2'', 2)) \<and>
   int (length (gl_gateways (demo_polled (''192.0.2.1'', 1) (''192.0.2.2'', 2)))) \<le> 2"
  using gateways_bounded [OF demo_polled_reachable] demo_polled_reachable by simp

end
