(* ===== verification/Ipsc.thy ===== *)
theory Ipsc
  imports Dmr_Bits
begin

text \<open>
  \<^verbatim>\<open>internal/protocol/ipsc\<close>: the messages of Motorola's IP Site Connect as the captures show them.
  \<^verbatim>\<open>message.go\<close> (the envelope), \<^verbatim>\<open>voice.go\<close> (voice headers, payloads and colour codes),
  \<^verbatim>\<open>text.go\<close> (text bursts), \<^verbatim>\<open>responder.go\<close> (the recorded answers of a master).  The lemmas
  show that the envelope is read exactly as it is written, that no reader looks beyond the
  end of the datagram it was given, and that no answer is itself answered.  \<open>Message.String\<close> is text.
\<close>

section \<open>message.go\<close>

type_synonym ipsc_kind = byte

abbreviation KindRegisterRequest :: ipsc_kind where "KindRegisterRequest \<equiv> 0x90"
abbreviation KindRegisterReply :: ipsc_kind where "KindRegisterReply \<equiv> 0x91"
abbreviation KindKeepaliveRequest :: ipsc_kind where "KindKeepaliveRequest \<equiv> 0x96"
abbreviation KindKeepaliveReply :: ipsc_kind where "KindKeepaliveReply \<equiv> 0x97"
abbreviation Kind85 :: ipsc_kind where "Kind85 \<equiv> 0x85"
abbreviation KindF0 :: ipsc_kind where "KindF0 \<equiv> 0xF0"
abbreviation KindF1 :: ipsc_kind where "KindF1 \<equiv> 0xF1"
abbreviation KindVoice :: ipsc_kind where "KindVoice \<equiv> 0x80"
abbreviation KindVoicePrivate :: ipsc_kind where "KindVoicePrivate \<equiv> 0x81"
abbreviation KindTextGroup :: ipsc_kind where "KindTextGroup \<equiv> 0x83"
abbreviation KindTextPrivate :: ipsc_kind where "KindTextPrivate \<equiv> 0x84"

definition ipsc_HeaderLen :: nat where "ipsc_HeaderLen = 5"

definition observedLen :: "(ipsc_kind, nat) gomap" where
  "observedLen =
     [(KindVoice, 0), (KindVoicePrivate, 0), (KindTextGroup, 0), (KindTextPrivate, 0),
      (KindRegisterRequest, 14), (KindRegisterReply, 16), (KindKeepaliveRequest, 14), (KindKeepaliveReply, 14),
      (Kind85, 11), (KindF0, 9), (KindF1, 44)]"

definition ObservedLen :: "ipsc_kind \<Rightarrow> nat option" where
  "ObservedLen k = mget observedLen k"

record ipsc_message =
  im_Kind :: ipsc_kind
  im_SenderID :: u32
  im_Body :: "byte list"

definition ipsc_Marshal :: "ipsc_message \<Rightarrow> byte list" where
  "ipsc_Marshal m = [im_Kind m] @ put32 (im_SenderID m) @ im_Body m"

datatype ipsc_error = Ipsc_ErrShort | Ipsc_ErrNotCaptured

definition ipsc_Parse :: "byte list \<Rightarrow> ipsc_error + ipsc_message" where
  "ipsc_Parse b =
     (if length b < ipsc_HeaderLen then Inl Ipsc_ErrShort
      else if ObservedLen (b ! 0) = None then Inl Ipsc_ErrNotCaptured
      else Inr \<lparr>im_Kind = b ! 0, im_SenderID = get32 (drop 1 b), im_Body = drop 5 b\<rparr>)"

section \<open>voice.go\<close>

definition IsVoice :: "ipsc_kind \<Rightarrow> bool" where
  "IsVoice k \<longleftrightarrow> k = KindVoice \<or> k = KindVoicePrivate"

record ipsc_voice =
  vo_CallCounter :: byte
  vo_SourceID :: u32
  vo_Destination :: u32
  vo_Private :: bool
  vo_StreamID :: u16
  vo_Sequence :: u16
  vo_Timestamp :: u32
  vo_Flags :: u16

definition VoiceHeaderLen :: nat where "VoiceHeaderLen = 26"

definition IsFirstFrame :: "ipsc_voice \<Rightarrow> bool" where
  "IsFirstFrame v \<longleftrightarrow> vo_Flags v = 0x80DD"

definition IsLastFrame :: "ipsc_voice \<Rightarrow> bool" where
  "IsLastFrame v \<longleftrightarrow> vo_Flags v = 0x805E"

definition AsVoice :: "ipsc_message \<Rightarrow> ipsc_voice option" where
  "AsVoice m =
     (if \<not> IsVoice (im_Kind m) \<or> length (im_Body m) < VoiceHeaderLen - ipsc_HeaderLen then None
      else let b = im_Body m in
        Some \<lparr>vo_CallCounter = b ! 0, vo_SourceID = get24 (drop 1 b), vo_Destination = get24 (drop 4 b),
              vo_Private = (im_Kind m = KindVoicePrivate), vo_StreamID = get16 (drop 10 b),
              vo_Sequence = get16 (drop 15 b), vo_Timestamp = get32 (drop 17 b), vo_Flags = get16 (drop 13 b)\<rparr>)"

abbreviation FrameHeader :: byte where "FrameHeader \<equiv> 0x01"
abbreviation FrameVoice :: byte where "FrameVoice \<equiv> 0x0A"
abbreviation FrameSlotBit :: byte where "FrameSlotBit \<equiv> 0x80"
abbreviation FrameTerminator :: byte where "FrameTerminator \<equiv> 0x02"

definition FrameKindOf :: "byte \<Rightarrow> byte" where
  "FrameKindOf marker = marker AND NOT FrameSlotBit"

definition VocoderLen :: nat where "VocoderLen = 19"

definition Payload :: "ipsc_message \<Rightarrow> (byte \<times> byte list \<times> byte list) option" where
  "Payload m =
     (if \<not> IsVoice (im_Kind m) \<or> length (im_Body m) < 28 + VocoderLen then None
      else let b = im_Body m in
        if FrameKindOf (b ! 25) \<noteq> FrameVoice then None
        else if int (unat (b ! 26)) \<noteq> int (length b) - 27 then None
        else Some (b ! 27, subslice 28 (28 + VocoderLen) b, drop (28 + VocoderLen) b))"

definition ipsc_LinkControl :: "ipsc_message \<Rightarrow> (u32 \<times> u32) option" where
  "ipsc_LinkControl m = (case Payload m of
      None \<Rightarrow> None
    | Some (_, _, trailer) \<Rightarrow>
        if length trailer < 14 then None else Some (get24 (drop 7 trailer), get24 (drop 10 trailer)))"

definition HeaderLenTotal :: nat where "HeaderLenTotal = 54"
abbreviation HeaderSlotBit :: byte where "HeaderSlotBit \<equiv> 0x80"
abbreviation HeaderConstantBit :: byte where "HeaderConstantBit \<equiv> 0x40"
definition HeaderTailLen :: nat where "HeaderTailLen = 2"

definition HeaderConstants :: "byte list" where
  "HeaderConstants = [0x00, 0x0A, 0x80, 0x0A, 0x00, 0x60]"

definition HeaderConstantsRate34 :: "byte list" where
  "HeaderConstantsRate34 = [0x00, 0x0D, 0x80, 0x0A, 0x00, 0x90]"

definition ipsc_ColourCode :: "ipsc_message \<Rightarrow> byte option" where
  "ipsc_ColourCode m =
     (if \<not> IsVoice (im_Kind m) then None
      else let b = im_Body m in
        if length b \<ge> 47 \<and> (FrameKindOf (b ! 25) = FrameHeader \<or> FrameKindOf (b ! 25) = FrameTerminator)
        then Some (drop_bit 4 (b ! 46))
        else case Payload m of
            None \<Rightarrow> None
          | Some (_, _, trailer) \<Rightarrow> if length trailer = 0 then None else Some (drop_bit 4 (last trailer)))"

abbreviation PayloadSync :: byte where "PayloadSync \<equiv> 0x40"
abbreviation PayloadFragment :: byte where "PayloadFragment \<equiv> 0x06"
abbreviation PayloadFragmentWithLC :: byte where "PayloadFragmentWithLC \<equiv> 0x16"

definition EmbeddedFragment :: "ipsc_message \<Rightarrow> u32 option" where
  "EmbeddedFragment m = (case Payload m of
      None \<Rightarrow> None | Some (_, _, trailer) \<Rightarrow> if length trailer < 4 then None else Some (get32 trailer))"

text \<open>The class is returned beside the verdict also where the verdict is no.\<close>

definition SuperframePosition :: "ipsc_message \<Rightarrow> byte \<times> bool" where
  "SuperframePosition m = (case Payload m of
      None \<Rightarrow> (0, False)
    | Some (c, _, _) \<Rightarrow> (c, c = PayloadSync \<or> c = PayloadFragment \<or> c = PayloadFragmentWithLC))"

abbreviation FlagSlot :: byte where "FlagSlot \<equiv> 0x20"
abbreviation FlagTerminator :: byte where "FlagTerminator \<equiv> 0x40"

definition SlotBit :: "ipsc_message \<Rightarrow> bool option" where
  "SlotBit m =
     (if \<not> IsVoice (im_Kind m) \<or> length (im_Body m) < 13 then None
      else Some (im_Body m ! 12 AND FlagSlot \<noteq> 0))"

section \<open>text.go\<close>

definition TextDataTypeAt :: nat where "TextDataTypeAt = 30"
definition TextBlockAt :: nat where "TextBlockAt = 38"
definition TextBlockLen :: nat where "TextBlockLen = 12"
definition TextRate34Len :: nat where "TextRate34Len = 18"
definition TextRate34Total :: nat where "TextRate34Total = 60"

definition HeaderConstantsFor :: "nat \<Rightarrow> byte list" where
  "HeaderConstantsFor blockLen = (if blockLen = TextRate34Len then HeaderConstantsRate34 else HeaderConstants)"

definition TextBlockLenFor :: "nat \<Rightarrow> nat" where
  "TextBlockLenFor datagramLen = (if datagramLen \<ge> TextRate34Total then TextRate34Len else TextBlockLen)"

definition TextSlotTypeFor :: "nat \<Rightarrow> nat" where
  "TextSlotTypeFor datagramLen = TextBlockAt + TextBlockLenFor datagramLen + 1"

definition IsText :: "ipsc_kind \<Rightarrow> bool" where
  "IsText k \<longleftrightarrow> k = KindTextGroup \<or> k = KindTextPrivate"

record ipsc_text =
  tx_Counter :: byte
  tx_Source :: u32
  tx_Destination :: u32
  tx_Private :: bool
  tx_StreamID :: u16
  tx_Flags :: u16
  tx_Sequence :: u16
  tx_Timestamp :: u32
  tx_DataType :: byte
  tx_ColourCode :: byte
  tx_SlotSet :: bool
  tx_Block :: "byte list"

definition AsText :: "ipsc_message \<Rightarrow> ipsc_text option" where
  "AsText m =
     (if \<not> IsText (im_Kind m) then None
      else
        let b = im_Body m;
            datagramLen = ipsc_HeaderLen + length b;
            slotTypeAt = TextSlotTypeFor datagramLen - ipsc_HeaderLen
        in if length b < slotTypeAt + 1 then None
           else
             let at = TextBlockAt - ipsc_HeaderLen in
             Some \<lparr>tx_Counter = b ! 0, tx_Source = get24 (drop 1 b), tx_Destination = get24 (drop 4 b),
                   tx_Private = (im_Kind m = KindTextPrivate), tx_StreamID = get16 (drop 10 b),
                   tx_Flags = get16 (drop 13 b), tx_Sequence = get16 (drop 15 b), tx_Timestamp = get32 (drop 17 b),
                   tx_DataType = b ! (TextDataTypeAt - ipsc_HeaderLen), tx_ColourCode = drop_bit 4 (b ! slotTypeAt),
                   tx_SlotSet = (b ! 12 AND FlagSlot \<noteq> 0),
                   tx_Block = subslice at (at + TextBlockLenFor datagramLen) b\<rparr>)"

definition tx_IsFirst :: "ipsc_text \<Rightarrow> bool" where "tx_IsFirst t \<longleftrightarrow> tx_Flags t = 0x80DD"
definition tx_IsLast :: "ipsc_text \<Rightarrow> bool" where "tx_IsLast t \<longleftrightarrow> tx_Flags t = 0x805E"

section \<open>responder.go\<close>

definition capturedBody :: "(ipsc_kind, byte list) gomap" where
  "capturedBody =
     [(KindRegisterReply, [0x6A, 0x00, 0x00, 0x80, 0x4D, 0x00, 0x00, 0x04, 0x06, 0x04, 0x00]),
      (KindKeepaliveReply, [0x6A, 0x00, 0x00, 0x80, 0x4D, 0x04, 0x06, 0x04, 0x00]),
      (Kind85, [0x00, 0x00, 0x00, 0x01, 0x01, 0x02]),
      (KindF1, [0x00, 0x00, 0x00, 0x01, 0x00, 0x00, 0x00, 0x1F,
                0x5D, 0x00, 0x00, 0x01, 0x00, 0x10, 0x00, 0x00,
                0x00, 0x00, 0x7F, 0x2D, 0x5B, 0xA4, 0xBD, 0x9E,
                0xE0, 0x3E, 0x4C, 0x1A, 0x82, 0xD4, 0x3C, 0x22,
                0x6A, 0xF0, 0xF5, 0x7D, 0x2C, 0x00, 0x00])]"

definition CapturedBody :: "ipsc_kind \<Rightarrow> byte list option" where
  "CapturedBody k = mget capturedBody k"

definition Reply_kinds :: "ipsc_kind \<Rightarrow> ipsc_kind list" where
  "Reply_kinds k =
     (if k = KindRegisterRequest then [KindRegisterReply]
      else if k = KindKeepaliveRequest then [KindKeepaliveReply]
      else if k = KindF0 then [KindF1] else [])"

definition Responder_Reply :: "u32 \<Rightarrow> ipsc_message \<Rightarrow> ipsc_message list" where
  "Responder_Reply masterID m =
     concat (map (\<lambda>k. case CapturedBody k of
         None \<Rightarrow> [] | Some body \<Rightarrow> [\<lparr>im_Kind = k, im_SenderID = masterID, im_Body = body\<rparr>]) (Reply_kinds (im_Kind m)))"

definition SenderIDOf :: "byte list \<Rightarrow> u32 option" where
  "SenderIDOf b = (if length b < ipsc_HeaderLen then None else Some (get32 (drop 1 b)))"

definition peerBody :: "(ipsc_kind, byte list) gomap" where
  "peerBody =
     [(KindRegisterRequest, [0x66, 0x00, 0x00, 0x80, 0x4C, 0x04, 0x08, 0x04, 0x00]),
      (KindKeepaliveRequest, [0x66, 0x00, 0x00, 0x80, 0x4C, 0x04, 0x06, 0x04, 0x00]),
      (KindF0, [0x00, 0x00, 0x00, 0x00]),
      (Kind85, [0x00, 0x00, 0x00, 0x01, 0x01, 0x02])]"

definition PeerBody :: "ipsc_kind \<Rightarrow> byte list option" where
  "PeerBody k = mget peerBody k"

definition PeerMessageFor :: "ipsc_kind \<Rightarrow> u32 \<Rightarrow> ipsc_message option" where
  "PeerMessageFor k senderID = (case PeerBody k of
      None \<Rightarrow> None | Some body \<Rightarrow> Some \<lparr>im_Kind = k, im_SenderID = senderID, im_Body = body\<rparr>)"

section \<open>The envelope\<close>

lemma ipsc_Parse_iff: "ipsc_Parse b = Inr m \<longleftrightarrow> ObservedLen (im_Kind m) \<noteq> None \<and> b = ipsc_Marshal m"
proof
  assume p: "ipsc_Parse b = Inr m"
  then have l: "5 \<le> length b" and o: "ObservedLen (b ! 0) \<noteq> None"
    by (auto simp: ipsc_Parse_def ipsc_HeaderLen_def split: if_splits)
  have m: "m = \<lparr>im_Kind = b ! 0, im_SenderID = get32 (drop 1 b), im_Body = drop 5 b\<rparr>"
    using p by (auto simp: ipsc_Parse_def split: if_splits)
  have "get32 (drop 1 b) = get32 (take 4 (drop 1 b))" using l by (simp add: get32_def)
  then have "put32 (im_SenderID m) = take 4 (drop 1 b)"
    using l by (simp add: m put32_get32)
  moreover have "b = b ! 0 # take 4 (drop 1 b) @ drop 5 b"
    using l by (cases b) (simp_all add: drop_drop [symmetric] del: drop_drop)
  ultimately show "ObservedLen (im_Kind m) \<noteq> None \<and> b = ipsc_Marshal m"
    using o by (simp add: ipsc_Marshal_def m)
next
  assume "ObservedLen (im_Kind m) \<noteq> None \<and> b = ipsc_Marshal m"
  then show "ipsc_Parse b = Inr m"
    by (auto simp: ipsc_Parse_def ipsc_Marshal_def ipsc_HeaderLen_def numeral_eq_Suc)
qed

interpretation ipsc: wire_codec ipsc_Marshal ipsc_Parse "\<lambda>_. True" "\<lambda>m. ObservedLen (im_Kind m) \<noteq> None"
  by unfold_locales (simp_all add: ipsc_Parse_iff)

section \<open>No reader looks past the end\<close>

text \<open>
  What a voice frame of \<open>n\<close> octets yields: the vocoder field is whole and the trailer is what is
  left, so that a datagram whose length octet agrees with its length never gives a short field.
\<close>

lemma Payload_shape:
  assumes "Payload m = Some (c, vocoder, trailer)"
  shows "length vocoder = 19" "im_Body m = take 27 (im_Body m) @ c # vocoder @ trailer"
proof -
  let ?b = "im_Body m"
  have l: "47 \<le> length ?b" and s: "c = ?b ! 27" "vocoder = subslice 28 47 ?b" "trailer = drop 47 ?b"
    using assms by (auto simp: Payload_def VocoderLen_def Let_def split: if_splits)
  show "length vocoder = 19" using l by (simp add: s subslice_def)
  have "drop 27 ?b = c # drop 28 ?b" using l Cons_nth_drop_Suc [of 27 ?b] by (simp add: s)
  moreover have "drop 28 ?b = vocoder @ trailer"
    using append_take_drop_id [of 19 "drop 28 ?b"] by (simp add: s subslice_def)
  ultimately show "?b = take 27 ?b @ c # vocoder @ trailer"
    using append_take_drop_id [of 27 ?b] by simp
qed

lemma AsText_shape:
  assumes "AsText m = Some t"
  shows "length (tx_Block t) = (if length (im_Body m) < 55 then 12 else 18)"
    "TextSlotTypeFor (5 + length (im_Body m)) - 5 < length (im_Body m)"
  using assms
  by (auto simp: AsText_def Let_def TextSlotTypeFor_def TextBlockLenFor_def TextBlockAt_def TextBlockLen_def
      TextRate34Len_def TextRate34Total_def ipsc_HeaderLen_def subslice_def split: if_splits)

text \<open>Nothing a responder sends is itself answered by one: two of them fall silent.\<close>

lemma Reply_not_answered: "x \<in> set (Responder_Reply i m) \<Longrightarrow> Responder_Reply j x = []"
  by (auto simp: Responder_Reply_def Reply_kinds_def CapturedBody_def capturedBody_def mget_Cons split: if_splits)

lemma Reply_parses: "x \<in> set (Responder_Reply i m) \<Longrightarrow> ipsc_Parse (ipsc_Marshal x) = Inr x"
  by (auto simp: ipsc_Parse_iff Responder_Reply_def Reply_kinds_def CapturedBody_def capturedBody_def ObservedLen_def
      observedLen_def mget_Cons split: if_splits)

end
