(* ===== verification/Ipsc_Convert.thy ===== *)
theory Ipsc_Convert
  imports Ipsc Hbp Data_Blocks Embedded_Lc Vocoder_Bridge
begin

text \<open>
  \<^verbatim>\<open>internal/ipscbridge/bridge.go\<close> and \<^verbatim>\<open>text.go\<close>: voice and text of a Motorola repeater turned
  into Homebrew frames.  The converter keeps a state per timeslot: which transmission is open, how far
  its superframe has come and the number of the next frame.  The lemmas show that whatever a repeater
  sends, what comes out on a timeslot is a sequence of whole transmissions, each opened by its header,
  numbered without a gap, with every burst in its place in the superframe, and that the frame marked
  as the last always closes the transmission that was open.
\<close>

section \<open>State\<close>

definition SuperframeBursts :: int where "SuperframeBursts = 6"

record slot_state =
  ss_position :: int
  ss_started :: bool
  ss_sequence :: byte
  ss_textStream :: StreamID
  ss_textSeen :: bool
  ss_textSequence :: byte
  ss_stream :: u16
  ss_seen :: bool
  ss_opened :: ipsc_voice
  ss_sentHeader :: bool

record bridge_config =
  bc_ColourCode :: byte
  bc_SlotBitIsTimeslot2 :: bool

record converter =
  cv_cfg :: bridge_config
  cv_slots :: "slot_state list"

definition zero_voice :: ipsc_voice where
  "zero_voice = \<lparr>vo_CallCounter = 0, vo_SourceID = 0, vo_Destination = 0, vo_Private = False, vo_StreamID = 0,
     vo_Sequence = 0, vo_Timestamp = 0, vo_Flags = 0\<rparr>"

definition zero_slot :: slot_state where
  "zero_slot = \<lparr>ss_position = 0, ss_started = False, ss_sequence = 0, ss_textStream = 0, ss_textSeen = False,
     ss_textSequence = 0, ss_stream = 0, ss_seen = False, ss_opened = zero_voice, ss_sentHeader = False\<rparr>"

definition ipscbridge_New :: "bridge_config \<Rightarrow> converter option" where
  "ipscbridge_New cfg =
     (if bc_ColourCode cfg > 15 then None else Some \<lparr>cv_cfg = cfg, cv_slots = [zero_slot, zero_slot]\<rparr>)"

section \<open>Reading a message\<close>

definition payloadOf :: "ipsc_message \<Rightarrow> (byte \<times> byte list \<times> u32) option" where
  "payloadOf m = (case SuperframePosition m of (class, ok) \<Rightarrow>
     if \<not> ok then None
     else case Payload m of
         None \<Rightarrow> None
       | Some (_, core, _) \<Rightarrow>
           if length core \<noteq> IPSCCoreBytes then None
           else Some (class, core, case EmbeddedFragment m of Some frag \<Rightarrow> frag | None \<Rightarrow> 0))"

definition isHeader :: "ipsc_message \<Rightarrow> bool" where
  "isHeader m \<longleftrightarrow> length (im_Body m) > 25 \<and> FrameKindOf (im_Body m ! 25) = FrameHeader"

definition continues :: "slot_state \<Rightarrow> ipsc_message \<Rightarrow> ipsc_voice \<Rightarrow> bool" where
  "continues st m v =
     (if \<not> ss_seen st \<or> vo_StreamID v = ss_stream st then False else \<not> IsFirstFrame v \<and> \<not> isHeader m)"

definition under :: "slot_state \<Rightarrow> ipsc_voice \<Rightarrow> ipsc_voice" where
  "under st v = v\<lparr>vo_SourceID := vo_SourceID (ss_opened st), vo_Destination := vo_Destination (ss_opened st),
     vo_Private := vo_Private (ss_opened st), vo_StreamID := vo_StreamID (ss_opened st)\<rparr>"

definition resolved :: "slot_state \<Rightarrow> ipsc_message \<Rightarrow> ipsc_voice \<Rightarrow> ipsc_voice" where
  "resolved st m v = (if continues st m v then under st v else v)"

definition timeslotFor :: "bridge_config \<Rightarrow> bool \<Rightarrow> Timeslot" where
  "timeslotFor cfg slotSet = (if slotSet = bc_SlotBitIsTimeslot2 cfg then Timeslot2 else Timeslot1)"

definition message_Timeslot :: "bridge_config \<Rightarrow> ipsc_message \<Rightarrow> Timeslot" where
  "message_Timeslot cfg m = (case SlotBit m of None \<Rightarrow> Timeslot1 | Some isSet \<Rightarrow> timeslotFor cfg isSet)"

definition slotIndex :: "Timeslot \<Rightarrow> nat" where
  "slotIndex slot = (if slot = Timeslot2 then 1 else 0)"

definition streamFor :: "u16 \<Rightarrow> u32 \<Rightarrow> StreamID" where
  "streamFor stream source = push_bit 16 (ucast stream) OR (source AND 0xFFFF)"

definition callTypeOf :: "ipsc_voice \<Rightarrow> CallType" where
  "callTypeOf v = (if vo_Private v then CallPrivate else CallGroup)"

definition bridge_Resolve :: "ipsc_message \<Rightarrow> converter \<Rightarrow> ipsc_voice option" where
  "bridge_Resolve m c = (case AsVoice m of
      None \<Rightarrow> None
    | Some v \<Rightarrow>
        let st = cv_slots c ! slotIndex (message_Timeslot (cv_cfg c) m)
        in Some (resolved st m v))"

definition forget_slot :: "slot_state \<Rightarrow> slot_state" where
  "forget_slot st = st\<lparr>ss_seen := False, ss_started := False, ss_sentHeader := False\<rparr>"

definition bridge_Forget :: "Timeslot \<Rightarrow> converter \<Rightarrow> converter" where
  "bridge_Forget slot c =
     c\<lparr>cv_slots := (cv_slots c)[slotIndex slot := forget_slot (cv_slots c ! slotIndex slot)]\<rparr>"

section \<open>Voice\<close>

definition dataFrame :: "byte \<Rightarrow> ipsc_voice \<Rightarrow> RepeaterID \<Rightarrow> Timeslot \<Rightarrow> StreamID \<Rightarrow> byte \<Rightarrow> slot_state \<Rightarrow>
    (hbp_data \<times> slot_state) option" where
  "dataFrame cc v repeater slot stream dataType st =
     (case BuildDataBurst cc dataType (LinkControlFor (vo_Destination v) (vo_SourceID v) (vo_Private v)) of
        None \<Rightarrow> None
      | Some burst \<Rightarrow>
          Some (\<lparr>d_Sequence = ss_sequence st, d_SourceID = vo_SourceID v, d_TargetID = vo_Destination v,
                 d_RepeaterID = repeater, d_Timeslot = slot, d_CallType = callTypeOf v, d_FrameType = FrameTypeSync,
                 d_DataType = dataType, d_StreamID = stream, d_Payload = burst, d_Trailing = []\<rparr>,
                st\<lparr>ss_sequence := ss_sequence st + 1\<rparr>))"

definition terminate :: "byte \<Rightarrow> ipsc_voice \<Rightarrow> RepeaterID \<Rightarrow> Timeslot \<Rightarrow> StreamID \<Rightarrow> slot_state \<Rightarrow> hbp_data list \<times> slot_state" where
  "terminate cc v repeater slot stream st =
     (case dataFrame cc v repeater slot stream DataTypeTerminatorWithLC st of
        None \<Rightarrow> ([], st) | Some (term, st) \<Rightarrow> ([term], st))"

text \<open>A frame that the open transmission does not explain begins a new one.\<close>

definition open_call :: "ipsc_voice \<Rightarrow> slot_state \<Rightarrow> slot_state" where
  "open_call v st =
     (if vo_StreamID v \<noteq> ss_stream st \<or> \<not> ss_seen st
      then st\<lparr>ss_stream := vo_StreamID v, ss_opened := v, ss_seen := True, ss_sequence := 0,
              ss_started := False, ss_position := 0, ss_sentHeader := False\<rparr>
      else st)"

definition place :: "byte \<Rightarrow> slot_state \<Rightarrow> slot_state" where
  "place class st =
     (if class = PayloadSync then st\<lparr>ss_started := True, ss_position := 0\<rparr>
      else if ss_started st
      then st\<lparr>ss_position := ss_position st + 1, ss_started := (ss_position st + 1 < SuperframeBursts)\<rparr>
      else st)"

definition voice_frame :: "ipsc_voice \<Rightarrow> RepeaterID \<Rightarrow> Timeslot \<Rightarrow> StreamID \<Rightarrow> byte list \<Rightarrow> slot_state \<Rightarrow> hbp_data" where
  "voice_frame v repeater slot stream burst st =
     \<lparr>d_Sequence = ss_sequence st, d_SourceID = vo_SourceID v, d_TargetID = vo_Destination v,
      d_RepeaterID = repeater, d_Timeslot = slot, d_CallType = callTypeOf v,
      d_FrameType = (if ss_position st = 0 then FrameTypeVoiceSync else FrameTypeVoice),
      d_DataType = word_of_int (ss_position st), d_StreamID = stream, d_Payload = burst, d_Trailing = []\<rparr>"

definition emit_voice :: "byte \<Rightarrow> ipsc_voice \<Rightarrow> RepeaterID \<Rightarrow> Timeslot \<Rightarrow> StreamID \<Rightarrow> byte list \<Rightarrow> slot_state \<Rightarrow>
    hbp_data list \<times> slot_state" where
  "emit_voice cc v repeater slot stream burst st =
     (case (if ss_sentHeader st then Some ([], st)
            else case dataFrame cc v repeater slot stream Link_Control.DataTypeVoiceLCHeader st of
                None \<Rightarrow> None
              | Some (hdr, st) \<Rightarrow> Some ([hdr], st\<lparr>ss_sentHeader := True\<rparr>)) of
        None \<Rightarrow> ([], st)
      | Some (hdr, st) \<Rightarrow>
          let voice = voice_frame v repeater slot stream burst st;
              st = st\<lparr>ss_sequence := ss_sequence st + 1\<rparr>
          in if IsLastFrame v then
               let (term, st) = terminate cc v repeater slot stream st
               in (hdr @ [voice] @ term, st\<lparr>ss_started := False, ss_seen := False\<rparr>)
             else (hdr @ [voice], st))"

definition convert_slot :: "byte \<Rightarrow> ipsc_message \<Rightarrow> ipsc_voice \<Rightarrow> RepeaterID \<Rightarrow> Timeslot \<Rightarrow> slot_state \<Rightarrow>
    hbp_data list \<times> slot_state" where
  "convert_slot cc m v repeater slot st =
     (let v = resolved st m v;
          st = open_call v st;
          stream = streamFor (vo_StreamID v) (vo_SourceID v)
      in case payloadOf m of
        None \<Rightarrow>
          if IsLastFrame v \<and> ss_sentHeader st then
            let (out, st) = terminate cc v repeater slot stream st
            in (out, st\<lparr>ss_started := False, ss_seen := False\<rparr>)
          else ([], st)
      | Some (class, vocoder, fragment) \<Rightarrow>
          let st = place class st in
          if \<not> ss_started st then
            if IsLastFrame v \<and> ss_sentHeader st then
              let (out, st) = terminate cc v repeater slot stream st in (out, st\<lparr>ss_seen := False\<rparr>)
            else ([], st)
          else
            case (case MiddleForPosition (ss_position st) cc fragment of
                    None \<Rightarrow> None | Some middle \<Rightarrow> BurstFromIPSC vocoder middle) of
              None \<Rightarrow>
                if IsLastFrame v \<and> ss_sentHeader st then
                  let (out, st) = terminate cc v repeater slot stream st
                  in (out, st\<lparr>ss_started := False, ss_seen := False\<rparr>)
                else ([], st)
            | Some burst \<Rightarrow> emit_voice cc v repeater slot stream burst st)"

definition Convert :: "ipsc_message \<Rightarrow> RepeaterID \<Rightarrow> converter \<Rightarrow> hbp_data list \<times> converter" where
  "Convert m repeater c = (case AsVoice m of
      None \<Rightarrow> ([], c)
    | Some v \<Rightarrow>
        let slot = message_Timeslot (cv_cfg c) m;
            (out, st) = convert_slot (bc_ColourCode (cv_cfg c)) m v repeater slot (cv_slots c ! slotIndex slot)
        in (out, c\<lparr>cv_slots := (cv_slots c)[slotIndex slot := st]\<rparr>))"

section \<open>Text\<close>

definition burstFor :: "byte \<Rightarrow> byte \<Rightarrow> byte list \<Rightarrow> byte list option" where
  "burstFor cc dataType block =
     (if length block = Rate34BlockBytes then
        if dataType \<noteq> DataTypeRate34 then None else BuildRate34Burst cc block
      else if length block = LinkControlBlockBytes then
        if dataType = DataTypeRate34 then None else BuildDataBurstFromBlock cc dataType block
      else None)"

definition number_text :: "StreamID \<Rightarrow> slot_state \<Rightarrow> slot_state" where
  "number_text stream st =
     (if ss_textStream st \<noteq> stream \<or> \<not> ss_textSeen st
      then st\<lparr>ss_textStream := stream, ss_textSeen := True, ss_textSequence := 0\<rparr>
      else st\<lparr>ss_textSequence := ss_textSequence st + 1\<rparr>)"

definition ConvertText :: "ipsc_message \<Rightarrow> RepeaterID \<Rightarrow> converter \<Rightarrow> hbp_data option \<times> converter" where
  "ConvertText m repeater c = (case AsText m of
      None \<Rightarrow> (None, c)
    | Some t \<Rightarrow> (case burstFor (bc_ColourCode (cv_cfg c)) (tx_DataType t) (tx_Block t) of
        None \<Rightarrow> (None, c)
      | Some burst \<Rightarrow>
          let slot = timeslotFor (cv_cfg c) (tx_SlotSet t);
              stream = streamFor (tx_StreamID t) (tx_Source t);
              st = number_text stream (cv_slots c ! slotIndex slot)
          in (Some \<lparr>d_Sequence = ss_textSequence st, d_SourceID = tx_Source t, d_TargetID = tx_Destination t,
                d_RepeaterID = repeater, d_Timeslot = slot,
                d_CallType = (if tx_Private t then CallPrivate else CallGroup), d_FrameType = FrameTypeSync,
                d_DataType = tx_DataType t, d_StreamID = stream, d_Payload = burst, d_Trailing = []\<rparr>,
              c\<lparr>cv_slots := (cv_slots c)[slotIndex slot := st]\<rparr>)))"

section \<open>What a listener hears\<close>

text \<open>
  An observer of one timeslot.  A header opens a transmission whoever was talking, because the end of
  the one before may have been lost; everything else has to belong to the transmission that is open: the
  next number, and for voice the place in the superframe, the synchronisation burst or the burst after the
  last one, with the signalling of that place inside.  A strict observer also wants the source, target, call
  type and stream of the header.
\<close>

type_synonym tx_ids = "u32 \<times> u32 \<times> CallType \<times> StreamID"

datatype tx = TxIdle | TxOpen tx_ids byte "byte option" | TxBroken

definition ids :: "hbp_data \<Rightarrow> tx_ids" where
  "ids f = (d_SourceID f, d_TargetID f, d_CallType f, d_StreamID f)"

definition says_who :: "byte \<Rightarrow> hbp_data \<Rightarrow> bool" where
  "says_who cc f \<longleftrightarrow>
     BuildDataBurst cc (d_DataType f) (LinkControlFor (d_TargetID f) (d_SourceID f) (d_CallType f = CallPrivate)) = Some (d_Payload f)"

definition placed :: "byte \<Rightarrow> hbp_data \<Rightarrow> bool" where
  "placed cc f \<longleftrightarrow> (case Middle (d_Payload f) of
      None \<Rightarrow> False
    | Some middle \<Rightarrow>
        if d_DataType f = 0 then middle = VoiceSyncBS
        else case LCSSForPosition (uint (d_DataType f)) of
            None \<Rightarrow> False | Some lcss \<Rightarrow> EMBFor cc lcss = Some (fst (SplitMiddle middle)))"

definition follows :: "byte option \<Rightarrow> hbp_data \<Rightarrow> bool" where
  "follows p f \<longleftrightarrow>
     (if d_FrameType f = FrameTypeVoiceSync then d_DataType f = 0
      else d_FrameType f = FrameTypeVoice \<and> p \<noteq> None \<and> d_DataType f = the p + 1 \<and> d_DataType f \<le> 5)"

definition tx_hear :: "bool \<Rightarrow> byte \<Rightarrow> hbp_data \<Rightarrow> tx \<Rightarrow> tx" where
  "tx_hear strict cc f t =
     (if t = TxBroken then TxBroken
      else if d_FrameType f = FrameTypeSync \<and> d_DataType f = Link_Control.DataTypeVoiceLCHeader then
        if d_Sequence f = 0 \<and> says_who cc f then TxOpen (ids f) 1 None else TxBroken
      else case t of
          TxOpen i n p \<Rightarrow>
            if strict \<and> i \<noteq> ids f \<or> n \<noteq> d_Sequence f then TxBroken
            else if IsTerminator f then (if says_who cc f then TxIdle else TxBroken)
            else if follows p f \<and> placed cc f then TxOpen i (n + 1) (Some (d_DataType f)) else TxBroken
        | _ \<Rightarrow> TxBroken)"

definition ids_of :: "ipsc_voice \<Rightarrow> tx_ids" where
  "ids_of v = (vo_SourceID v, vo_Destination v, callTypeOf v, streamFor (vo_StreamID v) (vo_SourceID v))"

text \<open>
  A repeater does not change who is talking under one stream ID: when it fills a header from a Talker
  Alias the stream ID changes as well.
\<close>

definition steady :: "ipsc_voice \<Rightarrow> slot_state \<Rightarrow> bool" where
  "steady v st \<longleftrightarrow> (ss_seen st \<and> vo_StreamID v = ss_stream st \<longrightarrow> ids_of v = ids_of (ss_opened st))"

definition slot_ok :: "bool \<Rightarrow> slot_state \<Rightarrow> tx \<Rightarrow> bool" where
  "slot_ok strict st t \<longleftrightarrow> t \<noteq> TxBroken \<and>
     (ss_seen st \<longrightarrow> vo_StreamID (ss_opened st) = ss_stream st \<and>
       (if ss_sentHeader st
        then \<exists>i p. t = TxOpen i (ss_sequence st) p \<and> (strict \<longrightarrow> i = ids_of (ss_opened st)) \<and>
               (ss_started st \<longrightarrow> p = Some (word_of_int (ss_position st)) \<and> 0 \<le> ss_position st \<and> ss_position st < 6)
        else ss_sequence st = 0 \<and> \<not> ss_started st))"

text \<open>The state in which a frame of the transmission \<open>v\<close> is handled.\<close>

definition call_ok :: "bool \<Rightarrow> ipsc_voice \<Rightarrow> slot_state \<Rightarrow> tx \<Rightarrow> bool" where
  "call_ok strict v st t \<longleftrightarrow> slot_ok strict st t \<and> ss_seen st \<and> (strict \<longrightarrow> ids_of v = ids_of (ss_opened st))"

lemma opened_ok:
  assumes "slot_ok strict st t" "strict \<Longrightarrow> steady v st"
  shows "call_ok strict (resolved st m v) (open_call (resolved st m v) st) t"
  using assms
  by (auto simp: call_ok_def slot_ok_def steady_def resolved_def continues_def open_call_def under_def ids_of_def callTypeOf_def simp del: split_paired_Ex split_paired_All)

section \<open>The bursts are always built\<close>

lemma BuildDataBurst_total:
  assumes "cc \<le> 15" "dt = 1 \<or> dt = 2"
  shows "\<exists>burst. BuildDataBurst cc dt (LinkControlFor d s p) = Some burst \<and> length burst = 33"
proof -
  have l: "length (LinkControlFor d s p) = 9" by (simp add: LinkControlFor_def)
  obtain full where f: "LinkControlBlock (LinkControlFor d s p) dt = Some full" using LinkControlBlock_some [OF l assms(2)] by blast
  have "take_bit 4 cc = cc" "take_bit 4 dt = dt" using assms unfolding nibble [symmetric] by auto
  moreover have "length (BurstBitsFrom full) = 96" using length_LinkControlBlock [OF f] by simp
  ultimately obtain burst where "dataBurstFromPayload cc dt (BurstBitsFrom full) = Some burst" "length burst = 33"
    using dataBurstFromPayload_readback [OF _ is_bits_BurstBitsFrom] by metis
  then show ?thesis using f by (simp add: BuildDataBurst_def LinkControlPayload_eq)
qed

lemma take_bit_middle: "take_bit 48 (EmbeddedMiddle emb fragment) = EmbeddedMiddle emb fragment"
  by (rule bit_word_eqI) (auto simp: EmbeddedMiddle_def bit_simps dest: bit_imp_le_length)

lemma burst_middle:
  assumes "length core = 19"
  shows "\<exists>b. BurstFromIPSC core m = Some b \<and> Middle b = Some (take_bit 48 m) \<and> length b = 33"
proof -
  let ?p = "\<lambda>a. readBits core a 49"
  obtain b where "AssembleBurst [Encode (?p 0), Encode (?p 50), Encode (?p 100)] m = Some b"
    "length b = 33" "Middle b = Some (take_bit 48 m)"
    by (rule AssembleBurst_frames [of "Encode (?p 0)" "Encode (?p 50)" "Encode (?p 100)" m]) auto
  then show ?thesis using UnpackIPSCCore_three [OF assms] by (simp add: BurstFromIPSC_def)
qed

text \<open>A vocoder field always makes a burst, and the burst says its place.\<close>

lemma burst_placed:
  assumes "cc \<le> 15" "0 \<le> k" "k < 6" "length core = 19"
  shows "\<exists>middle burst. MiddleForPosition k cc fragment = Some middle \<and> BurstFromIPSC core middle = Some burst \<and>
    length burst = 33 \<and>
    (d_Payload f = burst \<and> d_DataType f = word_of_int k \<longrightarrow> placed cc f)"
proof -
  obtain middle where m: "MiddleForPosition k cc fragment = Some middle" "take_bit 48 middle = middle"
    "k \<noteq> 0 \<longrightarrow> (\<exists>lcss. LCSSForPosition k = Some lcss \<and> EMBFor cc lcss = Some (fst (SplitMiddle middle)))"
    "k = 0 \<longrightarrow> middle = VoiceSyncBS"
  proof (cases "k = 0")
    case True
    then show ?thesis by (intro that [of VoiceSyncBS]) (simp_all add: MiddleForPosition_def VoiceSyncBS_def)
  next
    case False
    then have "k \<in> {1, 2, 3, 4, 5}" using assms(2,3) by auto
    then obtain lcss where l: "LCSSForPosition k = Some lcss" "lcss \<le> 3"
      by (auto simp: LCSSForPosition_def LCSSFirst_def LCSSContinuation_def LCSSLast_def LCSSSingle_def)
    moreover have "\<not> 15 < cc" "\<not> 3 < lcss" using assms(1) l(2) by (simp_all add: not_less)
    then obtain emb where "EMBFor cc lcss = Some emb" by (simp add: EMBFor_def Let_def)
    ultimately show ?thesis
      using False l
      by (intro that [of "EmbeddedMiddle emb fragment"])
        (simp_all add: MiddleForPosition_def take_bit_middle SplitMiddle_EmbeddedMiddle)
  qed
  obtain burst where b: "BurstFromIPSC core middle = Some burst" "Middle burst = Some middle" "length burst = 33"
    using burst_middle [OF assms(4), of middle] m(2) by auto
  have "uint (word_of_int k :: byte) = k" using assms(2,3) by (simp add: uint_word_of_int)
  then have "placed cc f" if "d_Payload f = burst" "d_DataType f = word_of_int k"
    using that b(2) m by (cases "k = 0") (auto simp: placed_def)
  then show ?thesis using m(1) b by blast
qed

section \<open>One frame\<close>

lemma terminate_closes:
  assumes "cc \<le> 15" "call_ok strict v st t" "ss_sentHeader st" "ss_sequence st' = ss_sequence st"
  shows "\<exists>f. fst (terminate cc v repeater slot (streamFor (vo_StreamID v) (vo_SourceID v)) st') = [f] \<and>
    d_Timeslot f = slot \<and> IsTerminator f \<and> tx_hear strict cc f t = TxIdle"
proof -
  obtain burst where b: "BuildDataBurst cc 2 (LinkControlFor (vo_Destination v) (vo_SourceID v) (vo_Private v)) = Some burst"
    using BuildDataBurst_total [OF assms(1), of 2] by blast
  obtain i p where t: "t = TxOpen i (ss_sequence st) p" "strict \<longrightarrow> i = ids_of v"
    using assms(2,3) unfolding call_ok_def slot_ok_def by (metis (full_types))
  then show ?thesis
    using b assms(4)
    by (cases "vo_Private v") (simp_all add: terminate_def dataFrame_def DataTypeTerminatorWithLC_def DataTypeVoiceLCHeader_def IsTerminator_def
        tx_hear_def ids_def ids_of_def says_who_def callTypeOf_def)
qed

definition hear_list :: "bool \<Rightarrow> byte \<Rightarrow> hbp_data list \<Rightarrow> tx \<Rightarrow> tx" where
  "hear_list strict cc fs t = fold (tx_hear strict cc) fs t"

lemma hear_list_simps [simp]:
  "hear_list strict cc [] t = t" "hear_list strict cc (f # fs) t = hear_list strict cc fs (tx_hear strict cc f t)"
  "hear_list strict cc (fs @ gs) t = hear_list strict cc gs (hear_list strict cc fs t)"
  by (simp_all add: hear_list_def)

text \<open>The header and the burst that begin a transmission, or the next burst of it.\<close>

lemma header_opens:
  assumes "cc \<le> 15" "ss_sequence st = 0" "t \<noteq> TxBroken"
  shows "\<exists>hdr. dataFrame cc v repeater slot (streamFor (vo_StreamID v) (vo_SourceID v)) Link_Control.DataTypeVoiceLCHeader st =
      Some (hdr, st\<lparr>ss_sequence := 1\<rparr>) \<and> d_Timeslot hdr = slot \<and> tx_hear strict cc hdr t = TxOpen (ids_of v) 1 None"
proof -
  obtain burst where b: "BuildDataBurst cc 1 (LinkControlFor (vo_Destination v) (vo_SourceID v) (vo_Private v)) = Some burst"
    using BuildDataBurst_total [OF assms(1), of 1] by blast
  then show ?thesis
    using assms(2,3)
    by (cases "vo_Private v") (simp_all add: dataFrame_def DataTypeVoiceLCHeader_def tx_hear_def ids_def ids_of_def
        says_who_def callTypeOf_def)
qed

lemma voice_heard:
  assumes "t = TxOpen i (ss_sequence st) p" "strict \<longrightarrow> i = ids_of v" "0 \<le> ss_position st" "ss_position st < 6"
    and "ss_position st \<noteq> 0 \<Longrightarrow> p = Some (word_of_int (ss_position st - 1))"
    and "\<And>f. d_Payload f = burst \<and> d_DataType f = word_of_int (ss_position st) \<longrightarrow> placed cc f"
  shows "tx_hear strict cc (voice_frame v repeater slot (streamFor (vo_StreamID v) (vo_SourceID v)) burst st) t =
    TxOpen i (ss_sequence st + 1) (Some (word_of_int (ss_position st)))"
proof -
  have "ss_position st \<in> {0, 1, 2, 3, 4, 5}" using assms(3,4) by auto
  then show ?thesis
    using assms by (auto simp: tx_hear_def voice_frame_def ids_def ids_of_def follows_def IsTerminator_def)
qed

definition placed_ok :: "bool \<Rightarrow> ipsc_voice \<Rightarrow> slot_state \<Rightarrow> tx \<Rightarrow> bool" where
  "placed_ok strict v st t \<longleftrightarrow> ss_seen st \<and> (strict \<longrightarrow> ids_of v = ids_of (ss_opened st)) \<and> vo_StreamID (ss_opened st) = ss_stream st \<and>
     ss_started st \<and> 0 \<le> ss_position st \<and> ss_position st < 6 \<and> t \<noteq> TxBroken \<and>
     (if ss_sentHeader st
      then \<exists>i p. t = TxOpen i (ss_sequence st) p \<and> (strict \<longrightarrow> i = ids_of v) \<and> (ss_position st \<noteq> 0 \<longrightarrow> p = Some (word_of_int (ss_position st - 1)))
      else ss_sequence st = 0 \<and> ss_position st = 0)"

lemma place_ok:
  assumes "call_ok strict v st t"
  shows "if ss_started (place class st) then placed_ok strict v (place class st) t else call_ok strict v (place class st) t"
  using assms by (auto simp: call_ok_def slot_ok_def placed_ok_def place_def SuperframeBursts_def simp del: split_paired_Ex split_paired_All)

lemma emit_ok:
  assumes "cc \<le> 15" "placed_ok strict v st t"
    and b: "\<And>f. d_Payload f = burst \<and> d_DataType f = word_of_int (ss_position st) \<longrightarrow> placed cc f"
  defines "r \<equiv> \<lambda>repeater slot. emit_voice cc v repeater slot (streamFor (vo_StreamID v) (vo_SourceID v)) burst st"
  shows "(\<forall>f \<in> set (fst (r repeater slot)). d_Timeslot f = slot) \<and>
    slot_ok strict (snd (r repeater slot)) (hear_list strict cc (fst (r repeater slot)) t) \<and>
    (IsLastFrame v \<longrightarrow> hear_list strict cc (fst (r repeater slot)) t = TxIdle)"
proof -
  let ?s = "streamFor (vo_StreamID v) (vo_SourceID v)"
  obtain hdr st1 t1 where h: "(if ss_sentHeader st then Some ([], st)
            else case dataFrame cc v repeater slot ?s Link_Control.DataTypeVoiceLCHeader st of
                None \<Rightarrow> None | Some (hdr, st) \<Rightarrow> Some ([hdr], st\<lparr>ss_sentHeader := True\<rparr>)) = Some (hdr, st1)"
      "\<forall>f \<in> set hdr. d_Timeslot f = slot" "hear_list strict cc hdr t = t1" "ss_sentHeader st1" "placed_ok strict v st1 t1"
      "ss_position st1 = ss_position st"
  proof (cases "ss_sentHeader st")
    case True
    then show ?thesis using assms(2) by (intro that [of "[]" st t]) simp_all
  next
    case False
    then have "ss_sequence st = 0" "t \<noteq> TxBroken" using assms(2) by (auto simp: placed_ok_def)
    from header_opens [OF assms(1) this, of v repeater slot]
    obtain f where "dataFrame cc v repeater slot ?s Link_Control.DataTypeVoiceLCHeader st = Some (f, st\<lparr>ss_sequence := 1\<rparr>)"
      "d_Timeslot f = slot" "tx_hear strict cc f t = TxOpen (ids_of v) 1 None" by auto
    then show ?thesis
      using assms(2) False by (intro that [of "[f]" "st\<lparr>ss_sequence := 1, ss_sentHeader := True\<rparr>"]) (auto simp: placed_ok_def simp del: split_paired_Ex split_paired_All)
  qed
  let ?voice = "voice_frame v repeater slot ?s burst st1"
  let ?st2 = "st1\<lparr>ss_sequence := ss_sequence st1 + 1\<rparr>"
  obtain i p where p: "t1 = TxOpen i (ss_sequence st1) p" "strict \<longrightarrow> i = ids_of v"
    "ss_position st1 \<noteq> 0 \<longrightarrow> p = Some (word_of_int (ss_position st1 - 1))"
    using h(4,5) unfolding placed_ok_def by (metis (full_types))
  let ?t2 = "TxOpen i (ss_sequence st1 + 1) (Some (word_of_int (ss_position st1)))"
  have v: "tx_hear strict cc ?voice t1 = ?t2"
  proof -
    have r: "0 \<le> ss_position st1" "ss_position st1 < 6" using h(5) by (simp_all add: placed_ok_def)
    show ?thesis by (rule voice_heard [OF p(1,2) r]) (use p(3) b in \<open>auto simp: h(6)\<close>)
  qed
  have ok: "call_ok strict v ?st2 ?t2" using h(4,5) p(2) by (auto simp: placed_ok_def call_ok_def slot_ok_def simp del: split_paired_Ex split_paired_All)
  obtain f where f: "fst (terminate cc v repeater slot ?s ?st2) = [f]" "d_Timeslot f = slot" "tx_hear strict cc f ?t2 = TxIdle"
    using terminate_closes [OF assms(1) ok, of ?st2 repeater slot] h(4) by auto
  have e: "r repeater slot = (if IsLastFrame v
      then (hdr @ [?voice, f], (snd (terminate cc v repeater slot ?s ?st2))\<lparr>ss_started := False, ss_seen := False\<rparr>)
      else (hdr @ [?voice], ?st2))"
    unfolding r_def emit_voice_def h(1) by (simp add: Let_def case_prod_beta f(1))
  show ?thesis
    using h(2) ok f(2) by (simp add: e h(3) v f(3)) (auto simp: voice_frame_def call_ok_def slot_ok_def)
qed

text \<open>
  One frame of a transmission: it is heard as part of it, and when it is marked the last the
  transmission is closed if it was ever opened.
\<close>

lemma convert_slot_ok:
  assumes "cc \<le> 15" "slot_ok strict st t" "strict \<Longrightarrow> steady v st"
  defines "r \<equiv> \<lambda>m repeater slot. convert_slot cc m v repeater slot st"
  shows "(\<forall>f \<in> set (fst (r m repeater slot)). d_Timeslot f = slot) \<and>
    slot_ok strict (snd (r m repeater slot)) (hear_list strict cc (fst (r m repeater slot)) t) \<and>
    (IsLastFrame v \<and> (fst (r m repeater slot) \<noteq> [] \<or> ss_sentHeader (open_call (resolved st m v) st)) \<longrightarrow>
       hear_list strict cc (fst (r m repeater slot)) t = TxIdle)"
proof -
  define w where "w = resolved st m v"
  define st1 where "st1 = open_call w st"
  let ?s = "streamFor (vo_StreamID w) (vo_SourceID w)"
  have ok: "call_ok strict w st1 t" using opened_ok [OF assms(2,3)] by (simp add: w_def st1_def)
  have lastf: "IsLastFrame w = IsLastFrame v" by (simp add: w_def resolved_def under_def IsLastFrame_def)
  have closes: "\<exists>f. fst (terminate cc w repeater slot ?s st') = [f] \<and> d_Timeslot f = slot \<and> tx_hear strict cc f t = TxIdle"
    if "call_ok strict w st' t" "ss_sentHeader st'" for st'
    using terminate_closes [OF assms(1) that, of st' repeater slot] by auto
  have gone: "slot_ok strict (x\<lparr>ss_seen := False\<rparr>) TxIdle" for x by (simp add: slot_ok_def)
  show ?thesis
  proof (cases "payloadOf m")
    case None
    then have e: "r m repeater slot = (if IsLastFrame w \<and> ss_sentHeader st1
        then (fst (terminate cc w repeater slot ?s st1), (snd (terminate cc w repeater slot ?s st1))\<lparr>ss_started := False, ss_seen := False\<rparr>)
        else ([], st1))"
      unfolding r_def convert_slot_def w_def [symmetric] st1_def [symmetric] Let_def by (simp add: case_prod_beta)
    show ?thesis
      using closes [OF ok] ok gone unfolding w_def [symmetric] st1_def [symmetric] e lastf
      by (auto simp: call_ok_def)
  next
    case (Some x)
    obtain cl core fragment where x: "x = (cl, core, fragment)" by (cases x)
    have core: "length core = 19"
      using Some x by (auto simp: payloadOf_def IPSCCoreBytes_def split: prod.splits option.splits if_splits)
    let ?st2 = "place cl st1"
    have sent: "ss_sentHeader ?st2 = ss_sentHeader st1" by (simp add: place_def)
    show ?thesis
    proof (cases "ss_started ?st2")
      case False
      then have ok2: "call_ok strict w ?st2 t" using place_ok [OF ok, of cl] by simp
      have e: "r m repeater slot = (if IsLastFrame w \<and> ss_sentHeader ?st2
          then (fst (terminate cc w repeater slot ?s ?st2), (snd (terminate cc w repeater slot ?s ?st2))\<lparr>ss_seen := False\<rparr>)
          else ([], ?st2))"
        unfolding r_def convert_slot_def w_def [symmetric] st1_def [symmetric] Let_def using Some x False
        by (simp add: case_prod_beta)
      show ?thesis
        using closes [OF ok2] ok2 gone unfolding w_def [symmetric] st1_def [symmetric] e lastf sent
        by (auto simp: call_ok_def)
    next
      case True
      then have ok2: "placed_ok strict w ?st2 t" using place_ok [OF ok, of cl] by simp
      then have "0 \<le> ss_position ?st2" "ss_position ?st2 < 6" by (simp_all add: placed_ok_def)
      from burst_placed [OF assms(1) this core, of fragment]
      obtain middle burst where b: "MiddleForPosition (ss_position ?st2) cc fragment = Some middle"
        "BurstFromIPSC core middle = Some burst"
        and p: "\<And>f. d_Payload f = burst \<and> d_DataType f = word_of_int (ss_position ?st2) \<longrightarrow> placed cc f"
        by (metis option.sel)
      have e: "r m repeater slot = emit_voice cc w repeater slot ?s burst ?st2"
        unfolding r_def convert_slot_def w_def [symmetric] st1_def [symmetric] Let_def using Some x True b by simp
      show ?thesis using emit_ok [OF assms(1) ok2 p, of repeater slot] unfolding e lastf by auto
    qed
  qed
qed

section \<open>A repeater's two timeslots\<close>

definition hear_slots :: "bool \<Rightarrow> byte \<Rightarrow> hbp_data list \<Rightarrow> (nat \<Rightarrow> tx) \<Rightarrow> nat \<Rightarrow> tx" where
  "hear_slots strict cc fs o' = fold (\<lambda>f o'. o'(slotIndex (d_Timeslot f) := tx_hear strict cc f (o' (slotIndex (d_Timeslot f))))) fs o'"

lemma hear_slots_one:
  "\<forall>f \<in> set fs. d_Timeslot f = slot \<Longrightarrow>
    hear_slots strict cc fs o' = o'(slotIndex slot := hear_list strict cc fs (o' (slotIndex slot)))"
  by (induction fs arbitrary: o') (simp_all add: hear_slots_def hear_list_def)

type_synonym bridged = "converter \<times> (nat \<Rightarrow> tx)"

inductive bridge_step :: "bool \<Rightarrow> bridged \<Rightarrow> bridged \<Rightarrow> bool" where
  message: "(case AsVoice m of None \<Rightarrow> True
      | Some v \<Rightarrow> strict \<longrightarrow> steady v (cv_slots c ! slotIndex (message_Timeslot (cv_cfg c) m))) \<Longrightarrow>
    bridge_step strict (c, o') (snd (Convert m repeater c),
      hear_slots strict (bc_ColourCode (cv_cfg c)) (fst (Convert m repeater c)) o')"
| text_message: "bridge_step strict (c, o') (snd (ConvertText m repeater c), o')"
| quiet: "bridge_step strict (c, o') (bridge_Forget slot c, o')"

definition bridge_started :: "bridge_config \<Rightarrow> bridged \<Rightarrow> bool" where
  "bridge_started cfg s \<longleftrightarrow> (case s of (c, o') \<Rightarrow> ipscbridge_New cfg = Some c \<and> o' = (\<lambda>_. TxIdle))"

definition bridge_inv :: "bool \<Rightarrow> bridge_config \<Rightarrow> bridged \<Rightarrow> bool" where
  "bridge_inv strict cfg s \<longleftrightarrow> (case s of (c, o') \<Rightarrow>
     cv_cfg c = cfg \<and> bc_ColourCode cfg \<le> 15 \<and> length (cv_slots c) = 2 \<and>
     (\<forall>k < 2. slot_ok strict (cv_slots c ! k) (o' k)) \<and> (\<forall>k \<ge> 2. o' k = TxIdle))"

lemma slotIndex_less [simp]: "slotIndex slot < 2" by (simp add: slotIndex_def)

lemma bridge_inv_update:
  assumes "bridge_inv strict cfg (c, o')" "slot_ok strict st t"
  shows "bridge_inv strict cfg (c\<lparr>cv_slots := (cv_slots c)[slotIndex slot := st]\<rparr>, o'(slotIndex slot := t))"
  using assms by (auto simp: bridge_inv_def nth_list_update slotIndex_def)

lemma bridge_inv_silent:
  "bridge_inv strict cfg (c, o') \<Longrightarrow> slot_ok strict st (o' (slotIndex slot)) \<Longrightarrow>
    bridge_inv strict cfg (c\<lparr>cv_slots := (cv_slots c)[slotIndex slot := st]\<rparr>, o')"
  using bridge_inv_update [of strict cfg c o' st "o' (slotIndex slot)" slot] by simp

lemma slot_ok_at: "bridge_inv strict cfg (c, o') \<Longrightarrow> slot_ok strict (cv_slots c ! slotIndex slot) (o' (slotIndex slot))"
  by (simp add: bridge_inv_def)

lemma Convert_hear:
  assumes "bridge_inv strict cfg (c, o')" "AsVoice m = Some v"
    and "strict \<Longrightarrow> steady v (cv_slots c ! slotIndex (message_Timeslot cfg m))"
  defines "slot \<equiv> message_Timeslot cfg m"
  defines "st \<equiv> cv_slots c ! slotIndex slot"
  defines "r \<equiv> \<lambda>repeater. convert_slot (bc_ColourCode cfg) m v repeater slot st"
  shows "Convert m repeater c = (fst (r repeater), c\<lparr>cv_slots := (cv_slots c)[slotIndex slot := snd (r repeater)]\<rparr>)"
    "hear_slots strict (bc_ColourCode cfg) (fst (Convert m repeater c)) o' =
       o'(slotIndex slot := hear_list strict (bc_ColourCode cfg) (fst (r repeater)) (o' (slotIndex slot)))"
    "slot_ok strict (snd (r repeater)) (hear_list strict (bc_ColourCode cfg) (fst (r repeater)) (o' (slotIndex slot)))"
    "IsLastFrame v \<and> ss_sentHeader (open_call (resolved st m v) st) \<Longrightarrow>
       hear_list strict (bc_ColourCode cfg) (fst (r repeater)) (o' (slotIndex slot)) = TxIdle"
proof -
  have cfg: "cv_cfg c = cfg" "bc_ColourCode cfg \<le> 15" using assms(1) by (simp_all add: bridge_inv_def)
  have "slot_ok strict st (o' (slotIndex slot))" using slot_ok_at [OF assms(1)] by (simp add: st_def)
  from convert_slot_ok [OF cfg(2) this, of v m repeater slot] assms(3)
  have ok: "\<forall>f \<in> set (fst (r repeater)). d_Timeslot f = slot"
    "slot_ok strict (snd (r repeater)) (hear_list strict (bc_ColourCode cfg) (fst (r repeater)) (o' (slotIndex slot)))"
    "IsLastFrame v \<and> ss_sentHeader (open_call (resolved st m v) st) \<longrightarrow>
       hear_list strict (bc_ColourCode cfg) (fst (r repeater)) (o' (slotIndex slot)) = TxIdle"
    by (simp_all add: r_def st_def slot_def)
  show e: "Convert m repeater c = (fst (r repeater), c\<lparr>cv_slots := (cv_slots c)[slotIndex slot := snd (r repeater)]\<rparr>)"
    using assms(2) cfg by (simp add: Convert_def Let_def case_prod_beta r_def st_def slot_def)
  show "hear_slots strict (bc_ColourCode cfg) (fst (Convert m repeater c)) o' =
       o'(slotIndex slot := hear_list strict (bc_ColourCode cfg) (fst (r repeater)) (o' (slotIndex slot)))"
    unfolding e fst_conv by (rule hear_slots_one [OF ok(1)])
  show "slot_ok strict (snd (r repeater)) (hear_list strict (bc_ColourCode cfg) (fst (r repeater)) (o' (slotIndex slot)))"
    by (rule ok(2))
  show "hear_list strict (bc_ColourCode cfg) (fst (r repeater)) (o' (slotIndex slot)) = TxIdle"
    if "IsLastFrame v \<and> ss_sentHeader (open_call (resolved st m v) st)" using that ok(3) by blast
qed

interpretation bridging: safe_system "bridge_started cfg" "bridge_step strict" "bridge_inv strict cfg" for strict cfg
proof
  fix s
  assume "bridge_started cfg s"
  then show "bridge_inv strict cfg s"
    by (cases s) (auto simp: bridge_started_def ipscbridge_New_def bridge_inv_def slot_ok_def zero_slot_def less_2_cases_iff split: if_splits)
next
  fix s s'
  assume i: "bridge_inv strict cfg s" and "bridge_step strict s s'"
  from this(2) show "bridge_inv strict cfg s'"
  proof cases
    case (message m c o' repeater)
    have cfg: "cv_cfg c = cfg" using i message by (simp add: bridge_inv_def)
    show ?thesis
    proof (cases "AsVoice m")
      case None
      then show ?thesis using i message by (simp add: Convert_def hear_slots_def)
    next
      case (Some v)
      note h = Convert_hear [OF i [unfolded message(1)] Some, of repeater]
      have "steady v (cv_slots c ! slotIndex (message_Timeslot cfg m))" if strict using that message(3) Some cfg by simp
      then show ?thesis
        using bridge_inv_update [OF i [unfolded message(1)] h(3)] h(1,2) unfolding message(2) cfg by simp
    qed
  next
    case (text_message c o' m repeater)
    have "slot_ok strict (number_text stream st) t = slot_ok strict st t" for stream st t by (simp add: number_text_def slot_ok_def)
    then show ?thesis
      using i text_message slot_ok_at [of strict cfg c o']
      by (auto simp: ConvertText_def Let_def intro!: bridge_inv_silent split: option.splits)
  next
    case (quiet c o' slot)
    have "slot_ok strict (forget_slot (cv_slots c ! slotIndex slot)) (o' (slotIndex slot))"
      using i quiet slot_ok_at [of strict cfg c o' slot] by (simp add: forget_slot_def slot_ok_def)
    from bridge_inv_silent [OF i [unfolded quiet(1)] this] show ?thesis
      by (simp add: quiet(2) bridge_Forget_def)
  qed
qed

text \<open>
  C11: what leaves the bridge is whole transmissions.  Whatever voice and text a repeater sends and
  whenever a silent timeslot is forgotten, an observer of either timeslot never breaks: every
  transmission opens with a voice header that says who is talking to whom, its frames carry consecutive
  numbers, the first burst is the synchronisation burst, and each burst is the next of the superframe
  and carries the signalling of its place.  As long as the repeater does not change who is talking
  under one stream ID (\<open>strict\<close>), every frame also carries the source, target, call type and stream of
  the header; a frame that does change it goes out under its own, as \<open>source_change_not_resolved\<close> shows.  And the frame a repeater marks as its last, whatever can be read of its
  audio, closes the transmission that is open on its timeslot.
\<close>

theorem ipsc_overs_whole:
  assumes "reachable (bridge_started cfg) (bridge_step strict) (c, o')"
  shows "o' k \<noteq> TxBroken \<and>
    (let slot = message_Timeslot cfg m; st = cv_slots c ! slotIndex slot in
     case AsVoice m of
       None \<Rightarrow> True
     | Some v \<Rightarrow>
         (strict \<longrightarrow> steady v st) \<and> IsLastFrame v \<and> ss_seen st \<and> ss_sentHeader st \<and> vo_StreamID (resolved st m v) = ss_stream st \<longrightarrow>
         hear_slots strict (bc_ColourCode cfg) (fst (Convert m repeater c)) o' (slotIndex slot) = TxIdle)"
proof -
  have i: "bridge_inv strict cfg (c, o')" by (rule bridging.reachable_inv [OF assms])
  have "o' k \<noteq> TxBroken" using i by (cases "k < 2") (auto simp: bridge_inv_def slot_ok_def)
  moreover have "hear_slots strict (bc_ColourCode cfg) (fst (Convert m repeater c)) o' (slotIndex slot) = TxIdle"
    if a: "AsVoice m = Some v" "slot = message_Timeslot cfg m" "st = cv_slots c ! slotIndex slot"
      "strict \<longrightarrow> steady v st" "IsLastFrame v" "ss_seen st" "ss_sentHeader st" "vo_StreamID (resolved st m v) = ss_stream st" for v slot st
  proof -
    have "open_call (resolved st m v) st = st" using a by (simp add: open_call_def)
    then show ?thesis using Convert_hear [OF i a(1), of repeater] a by simp
  qed
  ultimately show ?thesis by (auto simp: Let_def split: option.split)
qed

definition bridge_cfg :: bridge_config where
  "bridge_cfg = \<lparr>bc_ColourCode = 1, bc_SlotBitIsTimeslot2 = True\<rparr>"

text \<open>A voice frame of the radio \<open>source\<close> to talkgroup 9 that carries a synchronisation burst.\<close>

definition sync_message :: "byte \<Rightarrow> u16 \<Rightarrow> ipsc_message" where
  "sync_message source fl =
     \<lparr>im_Kind = KindVoice, im_SenderID = 1,
      im_Body = [1, 0, 0, source, 0, 0, 9, 2, 0, 0, 0, 7, 0x20] @ put16 fl @ replicate 10 0 @ [0x8A, 20, PayloadSync] @ replicate 19 0\<rparr>"

definition bridge_new :: converter where
  "bridge_new = \<lparr>cv_cfg = bridge_cfg, cv_slots = [zero_slot, zero_slot]\<rparr>"

lemma convert_sync_opens:
  assumes "cc \<le> 15" "\<not> ss_seen st" "\<not> IsLastFrame v" "payloadOf m = Some (PayloadSync, core, fragment)"
  shows "\<exists>hdr voice. convert_slot cc m v repeater slot st =
    ([hdr, voice], st\<lparr>ss_stream := vo_StreamID v, ss_opened := v, ss_seen := True, ss_sequence := 2, ss_started := True,
       ss_position := 0, ss_sentHeader := True\<rparr>)"
proof -
  have core: "length core = 19"
    using assms(4) by (auto simp: payloadOf_def IPSCCoreBytes_def split: prod.splits option.splits if_splits)
  obtain burst where "BurstFromIPSC core VoiceSyncBS = Some burst" using burst_middle [OF core] by blast
  moreover obtain hb where "BuildDataBurst cc 1 (LinkControlFor (vo_Destination v) (vo_SourceID v) (vo_Private v)) = Some hb"
    using BuildDataBurst_total [OF assms(1), of 1] by blast
  ultimately show ?thesis
    using assms
    by (simp add: convert_slot_def resolved_def continues_def open_call_def place_def MiddleForPosition_def emit_voice_def
        dataFrame_def DataTypeVoiceLCHeader_def Let_def)
qed

text \<open>Who is talking changes under one stream ID: the burst goes out under the new ID and another stream.\<close>

lemma source_change_not_resolved:
  assumes "vo_StreamID v = ss_stream st"
  shows "resolved st m v = v"
  using assms by (simp add: resolved_def continues_def)

lemma sync_payload:
  "payloadOf (sync_message 5 0x80DD) = Some (PayloadSync, replicate 19 0, 0)"
  "AsVoice (sync_message 5 0x80DD) = Some (zero_voice\<lparr>vo_CallCounter := 1, vo_SourceID := 5, vo_Destination := 9,
     vo_StreamID := 7, vo_Flags := 0x80DD\<rparr>)"
  "AsVoice (sync_message 5 0x805E) = Some (zero_voice\<lparr>vo_CallCounter := 1, vo_SourceID := 5, vo_Destination := 9,
     vo_StreamID := 7, vo_Flags := 0x805E\<rparr>)"
  "message_Timeslot bridge_cfg (sync_message 5 0x80DD) = Timeslot2"
  "message_Timeslot bridge_cfg (sync_message 5 0x805E) = Timeslot2"
  by code_simp+

definition bridge_talking :: converter where
  "bridge_talking = snd (Convert (sync_message 5 0x80DD) 3 bridge_new)"

definition heard_talking :: "nat \<Rightarrow> tx" where
  "heard_talking = hear_slots True 1 (fst (Convert (sync_message 5 0x80DD) 3 bridge_new)) (\<lambda>_. TxIdle)"

lemma bridge_talking_state:
  "reachable (bridge_started bridge_cfg) (bridge_step True) (bridge_talking, heard_talking)"
  "ss_seen (cv_slots bridge_talking ! 1)" "ss_sentHeader (cv_slots bridge_talking ! 1)"
  "ss_stream (cv_slots bridge_talking ! 1) = 7"
  "ids_of (ss_opened (cv_slots bridge_talking ! 1)) = ids_of (zero_voice\<lparr>vo_CallCounter := 1, vo_SourceID := 5, vo_Destination := 9,
     vo_StreamID := 7, vo_Flags := 0x80DD\<rparr>)"
proof -
  have cfg: "cv_cfg bridge_new = bridge_cfg" "bc_ColourCode bridge_cfg = 1" by (simp_all add: bridge_new_def bridge_cfg_def)
  have i: "slotIndex Timeslot2 = 1" by (simp add: slotIndex_def)
  have "reachable (bridge_started bridge_cfg) (bridge_step True) (bridge_new, \<lambda>_. TxIdle)"
    by (rule reachable.start) (simp add: bridge_started_def ipscbridge_New_def bridge_new_def bridge_cfg_def)
  then show "reachable (bridge_started bridge_cfg) (bridge_step True) (bridge_talking, heard_talking)"
    unfolding bridge_talking_def heard_talking_def cfg(2) [symmetric] cfg(1) [symmetric]
    by (rule reachable.step, intro bridge_step.message)
      (simp add: sync_payload steady_def cfg bridge_new_def zero_slot_def i)
  obtain hdr voice where "convert_slot 1 (sync_message 5 0x80DD) (zero_voice\<lparr>vo_CallCounter := 1, vo_SourceID := 5,
      vo_Destination := 9, vo_StreamID := 7, vo_Flags := 0x80DD\<rparr>) 3 Timeslot2 zero_slot =
    ([hdr, voice], zero_slot\<lparr>ss_stream := 7, ss_opened := zero_voice\<lparr>vo_CallCounter := 1, vo_SourceID := 5,
      vo_Destination := 9, vo_StreamID := 7, vo_Flags := 0x80DD\<rparr>, ss_seen := True, ss_sequence := 2, ss_started := True,
       ss_position := 0, ss_sentHeader := True\<rparr>)"
    using convert_sync_opens [OF _ _ _ sync_payload(1), of 1 zero_slot "zero_voice\<lparr>vo_CallCounter := 1, vo_SourceID := 5,
      vo_Destination := 9, vo_StreamID := 7, vo_Flags := 0x80DD\<rparr>" 3 Timeslot2]
    by (auto simp: zero_slot_def IsLastFrame_def)
  moreover have "cv_slots bridge_new ! slotIndex Timeslot2 = zero_slot" by (simp add: bridge_new_def i)
  ultimately have "cv_slots bridge_talking ! 1 = zero_slot\<lparr>ss_stream := 7, ss_opened := zero_voice\<lparr>vo_CallCounter := 1, vo_SourceID := 5,
      vo_Destination := 9, vo_StreamID := 7, vo_Flags := 0x80DD\<rparr>, ss_seen := True, ss_sequence := 2, ss_started := True,
       ss_position := 0, ss_sentHeader := True\<rparr>"
    by (simp add: bridge_talking_def Convert_def sync_payload(2) cfg sync_payload(4)) (simp add: i bridge_new_def)
  then show "ss_seen (cv_slots bridge_talking ! 1)" "ss_sentHeader (cv_slots bridge_talking ! 1)"
    "ss_stream (cv_slots bridge_talking ! 1) = 7"
    "ids_of (ss_opened (cv_slots bridge_talking ! 1)) = ids_of (zero_voice\<lparr>vo_CallCounter := 1, vo_SourceID := 5, vo_Destination := 9,
     vo_StreamID := 7, vo_Flags := 0x80DD\<rparr>)" by simp_all
qed

theorem ipsc_overs_whole_witness:
  "heard_talking 1 \<noteq> TxBroken \<and>
   hear_slots True 1 (fst (Convert (sync_message 5 0x805E) 3 bridge_talking)) heard_talking 1 = TxIdle"
proof -
  have i: "slotIndex Timeslot2 = 1" and cc: "bc_ColourCode bridge_cfg = 1" by (simp_all add: slotIndex_def bridge_cfg_def)
  let ?v = "zero_voice\<lparr>vo_CallCounter := 1, vo_SourceID := 5, vo_Destination := 9, vo_StreamID := 7, vo_Flags := 0x805E\<rparr>"
  have "ids_of ?v = ids_of (ss_opened (cv_slots bridge_talking ! 1))"
    unfolding bridge_talking_state(5) by (simp add: ids_of_def callTypeOf_def)
  then have "steady ?v (cv_slots bridge_talking ! 1)" by (simp add: steady_def)
  moreover have "IsLastFrame ?v" by (simp add: IsLastFrame_def)
  moreover have "resolved (cv_slots bridge_talking ! 1) (sync_message 5 0x805E) ?v = ?v"
    using bridge_talking_state(4) by (simp add: source_change_not_resolved)
  ultimately show ?thesis
    using ipsc_overs_whole [OF bridge_talking_state(1), of 1 "sync_message 5 0x805E" 3] bridge_talking_state(2-4)
    by (simp add: sync_payload i cc)
qed

end
