(* ===== verification/Ipsc_Roundtrip.thy ===== *)
theory Ipsc_Roundtrip
  imports Ipsc_Encode
begin

text \<open>
  The two halves of \<^verbatim>\<open>internal/ipscbridge\<close> together: an over of a hotspot encoded for a Motorola
  repeater, written as datagrams, read back and converted.  First what the readers of \<open>Ipsc\<close> see in a
  message the encoder made, then one frame at a time, then the whole over.
\<close>

section \<open>A message as it is read\<close>

lemma length_preamble [simp]: "length (fst (preamble e src slot fl st)) = 21"
  by (simp add: preamble_def)

lemma snd_preamble [simp]:
  "snd (preamble e src slot fl st) = st\<lparr>en_sequence := en_sequence st + 1, en_timestamp := en_timestamp st + 480\<rparr>"
  by (simp add: preamble_def)

lemma nth_after_preamble [simp]:
  "(fst (preamble e src slot fl st) @ replicate 4 0 @ x # y # z # rest) ! 25 = x"
  "(fst (preamble e src slot fl st) @ replicate 4 0 @ x # y # z # rest) ! 26 = y"
  "(fst (preamble e src slot fl st) @ replicate 4 0 @ x # y # z # rest) ! 27 = z"
  by (simp_all add: nth_append numeral_eq_Suc)

definition voice_of :: "hbp_data \<Rightarrow> u16 \<Rightarrow> encode_state \<Rightarrow> ipsc_voice" where
  "voice_of src fl st =
     \<lparr>vo_CallCounter = en_counter st, vo_SourceID = take_bit 24 (d_SourceID src), vo_Destination = take_bit 24 (d_TargetID src),
      vo_Private = (d_CallType src = CallPrivate), vo_StreamID = ucast (drop_bit 16 (en_stream st)),
      vo_Sequence = en_sequence st, vo_Timestamp = en_timestamp st, vo_Flags = fl\<rparr>"

lemma slot_flag: "((if a then 0x20 else 0) OR (if b then 0x40 else 0 :: byte)) AND 0x20 \<noteq> 0 \<longleftrightarrow> a"
  by (cases a; cases b) simp_all

lemma read_preamble:
  assumes "im_Kind m = voiceKindFor src" "im_Body m = fst (preamble e src slot fl st) @ rest"
  shows "AsVoice m = Some (voice_of src fl st)" "SlotBit m = Some (slotBitSet e slot)"
proof -
  have k: "IsVoice (im_Kind m)" "im_Kind m = KindVoicePrivate \<longleftrightarrow> d_CallType src = CallPrivate"
    using assms(1) by (auto simp: voiceKindFor_def IsVoice_def)
  have b: "im_Body m = [en_counter st] @ put24 (d_SourceID src) @ put24 (d_TargetID src) @ [0x02, 0, 0] @
      put16 (ucast (drop_bit 16 (en_stream st))) @
      [(if slotBitSet e slot then FlagSlot else 0) OR (if fl = flagsLast then FlagTerminator else 0)] @
      put16 fl @ put16 (en_sequence st) @ put32 (en_timestamp st) @ rest"
    using assms(2) by (simp add: preamble_def)
  have "im_Body m ! 12 = (if slotBitSet e slot then FlagSlot else 0) OR (if fl = flagsLast then FlagTerminator else 0)"
    unfolding b by (simp add: nth_append)
  then show "SlotBit m = Some (slotBitSet e slot)"
    using k(1) b by (simp add: SlotBit_def slot_flag)
  have d: "get24 (drop 1 (im_Body m)) = take_bit 24 (d_SourceID src)" "get24 (drop 4 (im_Body m)) = take_bit 24 (d_TargetID src)"
    "get16 (drop 10 (im_Body m)) = ucast (drop_bit 16 (en_stream st))" "get16 (drop 13 (im_Body m)) = fl"
    "get16 (drop 15 (im_Body m)) = en_sequence st" "get32 (drop 17 (im_Body m)) = en_timestamp st"
    "im_Body m ! 0 = en_counter st" "21 \<le> length (im_Body m)"
    unfolding b by (simp_all add: drop_append get24_put24)
  then show "AsVoice m = Some (voice_of src fl st)"
    using k by (simp add: AsVoice_def VoiceHeaderLen_def ipsc_HeaderLen_def Let_def voice_of_def)
qed

lemma marker_kinds [simp]:
  "FrameKindOf 1 = 1" "FrameKindOf 2 = 2" "FrameKindOf 0x0A = 0x0A" "FrameKindOf (0x0A OR 0x80) = 0x0A"
  "FrameKindOf 0x8A = 0x0A"
  by (simp_all add: FrameKindOf_def)

lemma signalling_read:
  assumes "signalling e src slot fl marker dt st = (m, st')" "marker = FrameHeader \<or> marker = FrameTerminator"
  shows "AsVoice m = Some (voice_of src fl st)" "SlotBit m = Some (slotBitSet e slot)" "payloadOf m = None"
    "isHeader m \<longleftrightarrow> marker = FrameHeader" "ObservedLen (im_Kind m) \<noteq> None"
    "st' = st\<lparr>en_sequence := en_sequence st + 1, en_timestamp := en_timestamp st + 480\<rparr>"
proof -
  obtain tl where m: "im_Kind m = voiceKindFor src"
    "im_Body m = fst (preamble e src slot fl st) @ replicate 4 0 @ marker # header_b31 e slot # HeaderConstants @ tl"
    using assms(1) by (auto simp: signalling_def case_prod_beta Let_def)
  obtain z zs where z: "HeaderConstants @ tl = z # zs" by (simp add: HeaderConstants_def)
  show "AsVoice m = Some (voice_of src fl st)" "SlotBit m = Some (slotBitSet e slot)" by (rule read_preamble [OF m])+
  have b: "im_Body m ! 25 = marker" "25 < length (im_Body m)" unfolding m z by simp_all
  then show "isHeader m \<longleftrightarrow> marker = FrameHeader" using assms(2) by (auto simp: isHeader_def)
  show "payloadOf m = None" using b assms(2) by (auto simp: payloadOf_def SuperframePosition_def Payload_def Let_def)
  show "ObservedLen (im_Kind m) \<noteq> None"
    using m(1) by (simp add: voiceKindFor_def ObservedLen_def observedLen_def mget_Cons)
  show "st' = st\<lparr>en_sequence := en_sequence st + 1, en_timestamp := en_timestamp st + 480\<rparr>"
    using assms(1) by (auto simp: signalling_def case_prod_beta Let_def)
qed

definition class_of :: "hbp_data \<Rightarrow> byte" where
  "class_of src = fst (encode_position src)"

lemma encode_position_class:
  "encode_position src = (cl, lcss, fragment, withLC) \<Longrightarrow>
    cl = PayloadSync \<or> cl = PayloadFragment \<or> cl = PayloadFragmentWithLC"
  by (auto simp: encode_position_def Let_def split: if_splits option.splits prod.splits)

lemma encode_voice_read:
  assumes "encode_voice e src slot core st = (m, st')" "length core = 19"
    and p: "encode_position src = (cl, lcss, fragment, withLC)"
    and f: "lcFragment e src lcss st = (f, st1)"
  shows "AsVoice m = Some (voice_of src flagsMiddle st1)" "SlotBit m = Some (slotBitSet e slot)"
    "payloadOf m = Some (cl, core, if cl = PayloadSync then 0 else case f of Some f \<Rightarrow> f | None \<Rightarrow> fragment)"
    "\<not> isHeader m" "ObservedLen (im_Kind m) \<noteq> None"
    "st' = st1\<lparr>en_sequence := en_sequence st1 + 1, en_timestamp := en_timestamp st1 + 480\<rparr>"
proof -
  define frag where "frag = (case f of Some f \<Rightarrow> f | None \<Rightarrow> fragment)"
  define trailer where "trailer = (if cl = PayloadSync then []
            else put32 frag @
              (if withLC then LinkControlFor (d_TargetID src) (d_SourceID src) (d_CallType src = CallPrivate) else []) @
              [push_bit 4 (e_colourCode e) OR push_bit 1 lcss])"
  define marker where "marker = (if slotBitSet e slot then FrameVoice OR FrameSlotBit else FrameVoice)"
  let ?pre = "fst (preamble e src slot flagsMiddle st1)"
  let ?n = "word_of_nat (28 + length core + length trailer - 27) :: byte"
  have e: "encode_voice e src slot core st = (let (pre, st') = preamble e src slot flagsMiddle st1
      in (\<lparr>im_Kind = voiceKindFor src, im_SenderID = e_masterID e,
            im_Body = pre @ replicate 4 0 @ [marker, ?n, cl] @ core @ trailer\<rparr>, st'))"
    unfolding encode_voice_def p f Let_def prod.case frag_def trailer_def marker_def by (rule refl)
  then have m: "im_Kind m = voiceKindFor src"
    "im_Body m = ?pre @ replicate 4 0 @ marker # ?n # cl # core @ trailer"
    and st': "st' = snd (preamble e src slot flagsMiddle st1)"
    using assms(1) by (cases "preamble e src slot flagsMiddle st1"; clarsimp; fail)+
  show "AsVoice m = Some (voice_of src flagsMiddle st1)" "SlotBit m = Some (slotBitSet e slot)" by (rule read_preamble [OF m])+
  have len: "length (im_Body m) = 47 + length trailer" using m(2) assms(2) by simp
  have tl: "length trailer \<le> 14" by (simp add: trailer_def LinkControlFor_def)
  have b: "im_Body m ! 25 = marker" "im_Body m ! 26 = ?n" "im_Body m ! 27 = cl" unfolding m(2) by simp_all
  have "28 + length core + length trailer - 27 = 20 + length trailer" using assms(2) by simp
  moreover have "unat (word_of_nat (20 + length trailer) :: byte) = 20 + length trailer"
    using tl by (simp only: unat_of_nat) simp
  ultimately have "unat ?n = 20 + length trailer" by (simp only:)
  moreover have "IsVoice (im_Kind m)" using m(1) by (simp add: voiceKindFor_def IsVoice_def)
  moreover have "subslice 28 47 (im_Body m) = core" "drop 47 (im_Body m) = trailer"
    unfolding m(2) using assms(2) by (simp_all add: subslice_def drop_append)
  ultimately have pl: "Payload m = Some (cl, core, trailer)"
    using len b by (simp add: Payload_def VocoderLen_def Let_def) (simp add: marker_def)
  moreover have "get32 trailer = frag" if "cl \<noteq> PayloadSync" using that by (simp add: trailer_def)
  moreover have "length trailer < 4 \<longleftrightarrow> cl = PayloadSync" by (simp add: trailer_def)
  ultimately show "payloadOf m = Some (cl, core, if cl = PayloadSync then 0 else case f of Some f \<Rightarrow> f | None \<Rightarrow> fragment)"
    using encode_position_class [OF p] assms(2)
    by (auto simp: payloadOf_def SuperframePosition_def EmbeddedFragment_def IPSCCoreBytes_def frag_def)
  show "\<not> isHeader m" using b(1) by (simp add: isHeader_def marker_def)
  show "ObservedLen (im_Kind m) \<noteq> None"
    using m(1) by (simp add: voiceKindFor_def ObservedLen_def observedLen_def mget_Cons)
  show "st' = st1\<lparr>en_sequence := en_sequence st1 + 1, en_timestamp := en_timestamp st1 + 480\<rparr>"
    using st' by simp
qed

section \<open>An over\<close>

text \<open>
  The frames of an over as a hotspot sends them: one source, target, call type, timeslot and stream,
  every burst at its place in the superframe, needing no correction, with the signalling of its place and,
  in the second to fifth burst, the fragments of the Link Control of the call.
\<close>

definition lc_of :: "hbp_data \<Rightarrow> byte list" where
  "lc_of f = LinkControlFor (d_TargetID f) (d_SourceID f) (d_CallType f = CallPrivate)"

definition clean_burst :: "byte \<Rightarrow> nat \<Rightarrow> hbp_data \<Rightarrow> bool" where
  "clean_burst cc k f = (case (IPSCFromBurst (d_Payload f), Middle (d_Payload f)) of
      (Some (core, _), Some middle) \<Rightarrow>
        length core = 19 \<and> BurstFromIPSC core middle = Some (d_Payload f) \<and>
        MiddleForPosition (int k) cc (snd (SplitMiddle middle)) = Some middle \<and>
        (1 \<le> k \<and> k \<le> 4 \<longrightarrow> (case EncodeEmbeddedLC (lc_of f) of
            None \<Rightarrow> False | Some fragments \<Rightarrow> snd (SplitMiddle middle) = fragments ! (k - 1)))
    | _ \<Rightarrow> False)"

definition same_call :: "hbp_data \<Rightarrow> hbp_data \<Rightarrow> bool" where
  "same_call f0 f \<longleftrightarrow> d_SourceID f = d_SourceID f0 \<and> d_TargetID f = d_TargetID f0 \<and> d_CallType f = d_CallType f0 \<and>
     d_Timeslot f = d_Timeslot f0 \<and> d_StreamID f = d_StreamID f0"

definition voice_at :: "byte \<Rightarrow> hbp_data \<Rightarrow> nat \<Rightarrow> hbp_data \<Rightarrow> bool" where
  "voice_at cc f0 k f \<longleftrightarrow> same_call f0 f \<and> d_FrameType f = (if k = 0 then FrameTypeVoiceSync else FrameTypeVoice) \<and>
     d_DataType f = word_of_nat k \<and> clean_burst cc k f"

fun over :: "byte \<Rightarrow> hbp_data \<Rightarrow> nat \<Rightarrow> hbp_data list \<Rightarrow> bool" where
  "over cc f0 k [] = True"
| "over cc f0 k (f # fs) = (voice_at cc f0 k f \<and> over cc f0 ((k + 1) mod 6) fs)"

definition call_fields :: "hbp_data \<Rightarrow> bool" where
  "call_fields f \<longleftrightarrow> take_bit 24 (d_SourceID f) = d_SourceID f \<and> take_bit 24 (d_TargetID f) = d_TargetID f \<and>
     (d_CallType f = CallGroup \<or> d_CallType f = CallPrivate) \<and> (d_Timeslot f = Timeslot1 \<or> d_Timeslot f = Timeslot2)"

text \<open>The fragments an encoder keeps are those of the call it keeps them for.\<close>

definition lc_sane :: "encode_state \<Rightarrow> bool" where
  "lc_sane st \<longleftrightarrow> (en_lcOK st \<longrightarrow> (case en_lcFor st of (source, target, private) \<Rightarrow>
     EncodeEmbeddedLC (LinkControlFor target source private) = Some (en_lc st)))"

definition same_run :: "encode_state \<Rightarrow> encode_state \<Rightarrow> bool" where
  "same_run st st' \<longleftrightarrow> en_seen st' = en_seen st \<and> en_stream st' = en_stream st \<and> en_opened st' = en_opened st \<and> lc_sane st'"

lemma MiddleForPosition_split:
  assumes "MiddleForPosition (int k) cc fr = Some middle" "k \<noteq> 0"
  obtains emb lcss where "LCSSForPosition (int k) = Some lcss" "EMBFor cc lcss = Some emb" "SplitMiddle middle = (emb, fr)"
  using assms by (auto simp: MiddleForPosition_def SplitMiddle_EmbeddedMiddle split: option.splits)

lemma EmbeddedLCMiddles_fragments:
  assumes "cc \<le> 15" "length lc = 9"
  obtains ms fs where "EmbeddedLCMiddles lc cc = Some ms" "EncodeEmbeddedLC lc = Some fs" "map (snd \<circ> SplitMiddle) ms = fs"
proof -
  obtain fs where f: "EncodeEmbeddedLC lc = Some fs" using EncodeEmbeddedLC_total [OF assms(2)] by blast
  obtain ms where "embedded_middles 0 cc fs = Some ms" "map (snd \<circ> SplitMiddle) ms = fs"
    by (rule embedded_middles_split [OF assms(1), of 0 fs]) (simp add: DecodeEmbeddedLC_EncodeEmbeddedLC(1) [OF f])
  then show ?thesis using that f by (simp add: EmbeddedLCMiddles_def)
qed

lemma lcFragment_sane:
  assumes "lc_sane st" "e_colourCode e \<le> 15" "lcFragment e src lcss st = (g, st1)"
  shows "same_run st st1"
    and "d_FrameType src = FrameTypeVoice \<Longrightarrow> d_DataType src = word_of_nat k \<Longrightarrow> 1 \<le> k \<Longrightarrow> k \<le> 4 \<Longrightarrow>
      LCSSForPosition (int k) = Some lcss \<Longrightarrow> \<exists>fs. EncodeEmbeddedLC (lc_of src) = Some fs \<and> g = Some (fs ! (k - 1))"
    and "k = 0 \<or> k = 5 \<Longrightarrow> d_DataType src = word_of_nat k \<Longrightarrow> g = None"
proof -
  let ?c = "(d_SourceID src, d_TargetID src, d_CallType src = CallPrivate)"
  have "length (lc_of src) = 9" by (simp add: lc_of_def LinkControlFor_def)
  from EmbeddedLCMiddles_fragments [OF assms(2) this]
  obtain ms fs where ms: "EmbeddedLCMiddles (lc_of src) (e_colourCode e) = Some ms" "EncodeEmbeddedLC (lc_of src) = Some fs"
    "map (snd \<circ> SplitMiddle) ms = fs" by metis
  have kept: "en_lc st = fs" if "en_lcOK st" "en_lcFor st = ?c"
    using assms(1) that ms(2) by (simp add: lc_sane_def lc_of_def)
  have e: "lcFragment e src lcss st =
     (if d_FrameType src \<noteq> FrameTypeVoice \<or> uint (d_DataType src) < 1 \<or> uint (d_DataType src) > 4 \<or>
         LCSSForPosition (uint (d_DataType src)) \<noteq> Some lcss then (None, st)
      else (Some (fs ! nat (uint (d_DataType src) - 1)),
        if \<not> en_lcOK st \<or> en_lcFor st \<noteq> ?c then st\<lparr>en_lc := fs, en_lcFor := ?c, en_lcOK := True\<rparr> else st))"
    using ms(1,3) kept by (simp add: lcFragment_def Let_def EmbeddedLCBursts_def lc_of_def)
  show "same_run st st1"
    using assms(1,3) ms(2) unfolding e by (auto simp: same_run_def lc_sane_def lc_of_def split: if_splits)
  show "\<exists>fs. EncodeEmbeddedLC (lc_of src) = Some fs \<and> g = Some (fs ! (k - 1))"
    if "d_FrameType src = FrameTypeVoice" "d_DataType src = word_of_nat k" "1 \<le> k" "k \<le> 4" "LCSSForPosition (int k) = Some lcss"
  proof -
    have "uint (d_DataType src) = int k" using that by (simp add: uint_nat unat_of_nat)
    then show ?thesis using assms(3) ms(2) that unfolding e by (auto simp: nat_diff_distrib)
  qed
  show "g = None" if "k = 0 \<or> k = 5" "d_DataType src = word_of_nat k"
    using assms(3) that unfolding e by auto
qed

section \<open>One voice frame\<close>

lemma LCSS_class:
  assumes "LCSSForPosition (int k) = Some lcss" "k \<noteq> 0"
  shows "lcss = LCSSLast \<longleftrightarrow> k = 4"
  using assms by (auto simp: LCSSForPosition_def LCSSLast_def LCSSFirst_def LCSSContinuation_def LCSSSingle_def split: if_splits)

lemma voice_message:
  assumes "voice_at cc f0 k f" "k < 6" "lc_sane st" "e_colourCode e = cc" "cc \<le> 15"
    and "IPSCFromBurst (d_Payload f) = Some (core, n)" "encode_voice e f slot core st = (m, st')"
  obtains st1 cl fragment middle where "AsVoice m = Some (voice_of f flagsMiddle st1)" "same_run st st1" "same_run st st'"
    "SlotBit m = Some (slotBitSet e slot)" "ObservedLen (im_Kind m) \<noteq> None" "\<not> isHeader m"
    "payloadOf m = Some (cl, core, fragment)" "cl = PayloadSync \<longleftrightarrow> k = 0"
    "MiddleForPosition (int k) cc fragment = Some middle" "BurstFromIPSC core middle = Some (d_Payload f)"
proof -
  obtain cl lcss fr w where p: "encode_position f = (cl, lcss, fr, w)" by (cases "encode_position f")
  obtain g st1 where g: "lcFragment e f lcss st = (g, st1)" by (cases "lcFragment e f lcss st")
  obtain middle where mid: "Middle (d_Payload f) = Some middle" "length core = 19" "BurstFromIPSC core middle = Some (d_Payload f)"
    "MiddleForPosition (int k) cc (snd (SplitMiddle middle)) = Some middle"
    "1 \<le> k \<and> k \<le> 4 \<longrightarrow> (case EncodeEmbeddedLC (lc_of f) of
        None \<Rightarrow> False | Some fragments \<Rightarrow> snd (SplitMiddle middle) = fragments ! (k - 1))"
    using assms(1,6) by (auto simp: voice_at_def clean_burst_def split: option.splits)
  have ft: "d_FrameType f = (if k = 0 then FrameTypeVoiceSync else FrameTypeVoice)" "d_DataType f = word_of_nat k"
    using assms(1) by (simp_all add: voice_at_def)
  note s = lcFragment_sane [OF assms(3) _ g, unfolded assms(4), OF assms(5)]
  note r = encode_voice_read [OF assms(7) mid(2) p g]
  have run: "same_run st st1" "same_run st st'" using s(1) by (auto simp: r(6) same_run_def lc_sane_def)
  let ?fragment = "if cl = PayloadSync then 0 else case g of Some g \<Rightarrow> g | None \<Rightarrow> fr"
  have "(cl = PayloadSync \<longleftrightarrow> k = 0) \<and> MiddleForPosition (int k) cc ?fragment = Some middle"
  proof (cases "k = 0")
    case True
    then show ?thesis using p ft mid(4) by (simp add: encode_position_def MiddleForPosition_def)
  next
    case False
    from MiddleForPosition_split [OF mid(4) False] obtain emb lc
      where l: "LCSSForPosition (int k) = Some lc" "EMBFor cc lc = Some emb" "SplitMiddle middle = (emb, snd (SplitMiddle middle))"
      by metis
    have e: "lcss = lc" "fr = snd (SplitMiddle middle)" "cl \<noteq> PayloadSync"
      using p ft False mid(1) EMBFor_valid [OF l(2)] l(3) by (auto simp: encode_position_def split: if_splits prod.splits)
    show ?thesis
    proof (cases "k \<le> 4")
      case True
      then obtain fs where "EncodeEmbeddedLC (lc_of f) = Some fs" "g = Some (fs ! (k - 1))"
        using s(2) [OF _ ft(2)] ft(1) False l(1) e(1) by auto
      then show ?thesis using mid(4,5) False True e by simp
    next
      case big: False
      then have "k = 5" using assms(2) by simp
      then show ?thesis using s(3) [of 5] ft(2) mid(4) e by simp
    qed
  qed
  then have x: "cl = PayloadSync \<longleftrightarrow> k = 0" and y: "MiddleForPosition (int k) cc ?fragment = Some middle" by blast+
  show ?thesis by (rule that [OF r(1) run r(2) r(5,4,3) x y mid(3)])
qed

definition delivered :: "RepeaterID \<Rightarrow> byte \<Rightarrow> hbp_data \<Rightarrow> hbp_data" where
  "delivered repeater n f =
     f\<lparr>d_Sequence := n, d_RepeaterID := repeater,
       d_StreamID := streamFor (ucast (drop_bit 16 (d_StreamID f))) (d_SourceID f), d_Trailing := []\<rparr>"

definition signal :: "byte \<Rightarrow> byte \<Rightarrow> RepeaterID \<Rightarrow> byte \<Rightarrow> hbp_data \<Rightarrow> hbp_data" where
  "signal cc dt repeater n f =
     (delivered repeater n f)\<lparr>d_FrameType := FrameTypeSync, d_DataType := dt, d_Payload := the (BuildDataBurst cc dt (lc_of f))\<rparr>"

fun deliver_all :: "RepeaterID \<Rightarrow> byte \<Rightarrow> hbp_data list \<Rightarrow> hbp_data list" where
  "deliver_all repeater n [] = []"
| "deliver_all repeater n (f # fs) = delivered repeater n f # deliver_all repeater (n + 1) fs"

lemma voice_of_call:
  assumes "call_fields f0" "same_call f0 f" "en_stream st = d_StreamID f0"
  shows "vo_SourceID (voice_of f fl st) = d_SourceID f0" "vo_Destination (voice_of f fl st) = d_TargetID f0"
    "callTypeOf (voice_of f fl st) = d_CallType f0" "vo_StreamID (voice_of f fl st) = ucast (drop_bit 16 (d_StreamID f0))"
    "vo_Private (voice_of f fl st) = (d_CallType f0 = CallPrivate)" "vo_Flags (voice_of f fl st) = fl"
  using assms by (auto simp: voice_of_def call_fields_def same_call_def callTypeOf_def)

lemma voice_frame_delivered:
  assumes "call_fields f0" "voice_at cc f0 k f" "k < 6" "en_stream est = d_StreamID f0" "ss_position st = int k"
  shows "voice_frame (voice_of f fl est) repeater (d_Timeslot f0) (streamFor (ucast (drop_bit 16 (d_StreamID f0))) (d_SourceID f0))
      (d_Payload f) st = delivered repeater (ss_sequence st) f"
proof -
  have c: "same_call f0 f" using assms(2) by (simp add: voice_at_def)
  show ?thesis
    using assms(2,3,5) c by (simp add: voice_frame_def delivered_def voice_of_call [OF assms(1) c assms(4)]) (auto simp: voice_at_def same_call_def)
qed

section \<open>The converter on the messages of one timeslot\<close>

text \<open>The converter is on the transmission of \<open>f0\<close> and has announced it.\<close>

definition on_call :: "hbp_data \<Rightarrow> slot_state \<Rightarrow> bool" where
  "on_call f0 st \<longleftrightarrow> ss_seen st \<and> ss_stream st = ucast (drop_bit 16 (d_StreamID f0))"

lemma convert_on_call:
  assumes "on_call f0 st" "vo_StreamID v = ucast (drop_bit 16 (d_StreamID f0))"
  shows "resolved st m v = v" "open_call v st = st"
  using assms by (simp_all add: on_call_def resolved_def continues_def open_call_def)

lemma convert_header:
  assumes "on_call f0 st" "vo_StreamID v = ucast (drop_bit 16 (d_StreamID f0))" "payloadOf m = None" "\<not> IsLastFrame v"
  shows "convert_slot cc m v repeater slot st = ([], st)"
  using assms convert_on_call [OF assms(1,2)] by (simp add: convert_slot_def Let_def)

lemma convert_first_header:
  assumes "\<not> on_call f0 st" "vo_StreamID v = ucast (drop_bit 16 (d_StreamID f0))" "payloadOf m = None" "\<not> IsLastFrame v" "isHeader m"
  shows "convert_slot cc m v repeater slot st =
    ([], st\<lparr>ss_stream := vo_StreamID v, ss_opened := v, ss_seen := True, ss_sequence := 0,
            ss_started := False, ss_position := 0, ss_sentHeader := False\<rparr>)"
  using assms by (auto simp: convert_slot_def Let_def on_call_def resolved_def continues_def open_call_def)

lemma convert_terminator:
  assumes "on_call f0 st" "call_fields f0" "same_call f0 f" "en_stream est = d_StreamID f0" "ss_sentHeader st" "cc \<le> 15"
    and "payloadOf m = None"
  shows "fst (convert_slot cc m (voice_of f flagsLast est) repeater (d_Timeslot f0) st) =
    [signal cc DataTypeTerminatorWithLC repeater (ss_sequence st) f]"
proof -
  note v = voice_of_call [OF assms(2-4), of flagsLast]
  obtain burst where "BuildDataBurst cc 2 (LinkControlFor (d_TargetID f0) (d_SourceID f0) (d_CallType f0 = CallPrivate)) = Some burst"
    using BuildDataBurst_total [OF assms(6), of 2] by blast
  then show ?thesis
    using assms(5,7,3) convert_on_call [OF assms(1) v(4)]
    by (simp add: convert_slot_def Let_def case_prod_beta IsLastFrame_def v terminate_def dataFrame_def DataTypeTerminatorWithLC_def)
      (simp add: signal_def delivered_def lc_of_def same_call_def)
qed

text \<open>A voice message of the transmission, at place \<open>k\<close> of the superframe.\<close>

lemma convert_voice:
  assumes "on_call f0 st" "call_fields f0" "voice_at cc f0 k f" "k < 6" "en_stream est = d_StreamID f0" "cc \<le> 15"
    and "payloadOf m = Some (cl, core, fragment)" "cl = PayloadSync \<longleftrightarrow> k = 0"
    and "MiddleForPosition (int k) cc fragment = Some middle" "BurstFromIPSC core middle = Some (d_Payload f)"
    and "k \<noteq> 0 \<Longrightarrow> ss_started st \<and> ss_position st = int k - 1"
  defines "st2 \<equiv> st\<lparr>ss_started := True, ss_position := int k\<rparr>"
  shows "convert_slot cc m (voice_of f flagsMiddle est) repeater (d_Timeslot f0) st =
    (if ss_sentHeader st
     then ([delivered repeater (ss_sequence st) f], st2\<lparr>ss_sequence := ss_sequence st + 1\<rparr>)
     else ([signal cc Link_Control.DataTypeVoiceLCHeader repeater (ss_sequence st) f, delivered repeater (ss_sequence st + 1) f],
       st2\<lparr>ss_sequence := ss_sequence st + 1 + 1, ss_sentHeader := True\<rparr>))"
proof -
  have c: "same_call f0 f" using assms(3) by (simp add: voice_at_def)
  note v = voice_of_call [OF assms(2) c assms(5), of flagsMiddle]
  let ?v = "voice_of f flagsMiddle est"
  let ?s = "streamFor (ucast (drop_bit 16 (d_StreamID f0))) (d_SourceID f0)"
  have place: "place cl st = st2" using assms(4,8,11) by (auto simp: place_def st2_def SuperframeBursts_def)
  have st2: "ss_started st2" "ss_position st2 = int k" by (simp_all add: st2_def)
  have nl: "\<not> IsLastFrame ?v" using v(6) by (simp add: IsLastFrame_def)
  have e: "convert_slot cc m ?v repeater (d_Timeslot f0) st = emit_voice cc ?v repeater (d_Timeslot f0) ?s (d_Payload f) st2"
    unfolding convert_slot_def Let_def convert_on_call [OF assms(1) v(4)] v(1,4) assms(7) option.case prod.case place
    using st2 assms(9,10) by simp
  have vf: "voice_frame ?v repeater (d_Timeslot f0) ?s (d_Payload f) x = delivered repeater (ss_sequence x) f" if "ss_position x = int k" for x
    by (rule voice_frame_delivered [OF assms(2-5) that])
  obtain burst where b: "BuildDataBurst cc 1 (LinkControlFor (d_TargetID f0) (d_SourceID f0) (d_CallType f0 = CallPrivate)) = Some burst"
    using BuildDataBurst_total [OF assms(6), of 1] by blast
  have hdr: "dataFrame cc ?v repeater (d_Timeslot f0) ?s Link_Control.DataTypeVoiceLCHeader st2 =
      Some (signal cc Link_Control.DataTypeVoiceLCHeader repeater (ss_sequence st) f, st2\<lparr>ss_sequence := ss_sequence st + 1\<rparr>)"
    using b c by (simp add: dataFrame_def v DataTypeVoiceLCHeader_def) (simp add: signal_def delivered_def lc_of_def same_call_def st2_def)
  show ?thesis
    unfolding e emit_voice_def hdr using nl vf by (simp add: Let_def st2_def)
qed

section \<open>Runs\<close>

fun encode_run :: "encoder \<Rightarrow> nat \<Rightarrow> (time \<times> hbp_data) list \<Rightarrow> encode_state \<Rightarrow> ipsc_message list \<times> encode_state" where
  "encode_run e slot [] st = ([], st)"
| "encode_run e slot ((now, f) # fs) st =
     (let ((ms, _), st) = encode_slot e f slot now st; (rest, st) = encode_run e slot fs st in (ms @ rest, st))"

fun convert_run :: "byte \<Rightarrow> RepeaterID \<Rightarrow> Timeslot \<Rightarrow> ipsc_message list \<Rightarrow> slot_state \<Rightarrow> hbp_data list \<times> slot_state" where
  "convert_run cc repeater slot [] st = ([], st)"
| "convert_run cc repeater slot (m # ms) st = (case AsVoice m of
      None \<Rightarrow> convert_run cc repeater slot ms st
    | Some v \<Rightarrow> let (out, st) = convert_slot cc m v repeater slot st; (rest, st) = convert_run cc repeater slot ms st in (out @ rest, st))"

lemma convert_run_append:
  "convert_run cc repeater slot (ms @ ms') st =
    (fst (convert_run cc repeater slot ms st) @ fst (convert_run cc repeater slot ms' (snd (convert_run cc repeater slot ms st))),
     snd (convert_run cc repeater slot ms' (snd (convert_run cc repeater slot ms st))))"
  by (induction ms arbitrary: st) (auto simp: Let_def case_prod_beta split: option.split)

lemma encode_run_append:
  "encode_run e slot (fs @ fs') st =
    (fst (encode_run e slot fs st) @ fst (encode_run e slot fs' (snd (encode_run e slot fs st))),
     snd (encode_run e slot fs' (snd (encode_run e slot fs st))))"
  by (induction fs arbitrary: st) (auto simp: Let_def case_prod_beta)

definition msg_ok :: "encoder \<Rightarrow> nat \<Rightarrow> ipsc_message \<Rightarrow> bool" where
  "msg_ok e slot m \<longleftrightarrow> ObservedLen (im_Kind m) \<noteq> None \<and> AsVoice m \<noteq> None \<and> SlotBit m = Some (slotBitSet e slot)"

text \<open>The encoder is on the transmission of \<open>f0\<close>.\<close>

definition sending :: "hbp_data \<Rightarrow> encode_state \<Rightarrow> bool" where
  "sending f0 st \<longleftrightarrow> en_seen st \<and> en_stream st = d_StreamID f0 \<and> lc_sane st"

lemma encode_slot_voice:
  assumes "voice_at cc f0 k f"
  defines "st1 \<equiv> \<lambda>st now. begin_stream f False (st\<lparr>en_inData := False\<rparr>)"
  obtains core n where "IPSCFromBurst (d_Payload f) = Some (core, n)"
    "encode_slot e f slot now st = (let (hs, st') = open_headers e f slot (st1 st now); (m, st') = encode_voice e f slot core st'
       in ((hs @ [m], True), st'))"
proof -
  obtain core n where b: "IPSCFromBurst (d_Payload f) = Some (core, n)"
    using assms(1) by (auto simp: voice_at_def clean_burst_def split: option.splits)
  have t: "d_FrameType f \<noteq> FrameTypeSync" using assms(1) by (auto simp: voice_at_def)
  show ?thesis
    by (rule that [OF b])
      (use b t in \<open>simp add: encode_slot_def continuesData_def note_data_def IsTerminator_def st1_def Let_def case_prod_beta\<close>)
qed

lemma over_body:
  assumes "over cc f0 k (map snd fs)" "k < 6" "call_fields f0" "e_colourCode e = cc" "cc \<le> 15"
    and "sending f0 est" "en_opened est" "on_call f0 cst" "ss_sentHeader cst"
    and "k \<noteq> 0 \<longrightarrow> ss_started cst \<and> ss_position cst = int k - 1"
  shows "case encode_run e slot fs est of (ms, est') \<Rightarrow>
    case convert_run cc repeater (d_Timeslot f0) ms cst of (out, cst') \<Rightarrow>
      out = deliver_all repeater (ss_sequence cst) (map snd fs) \<and> list_all (msg_ok e slot) ms \<and>
      sending f0 est' \<and> en_opened est' \<and> on_call f0 cst' \<and> ss_sentHeader cst' \<and>
      ss_sequence cst' = ss_sequence cst + word_of_nat (length fs)"
  using assms(1,2,6-)
proof (induction fs arbitrary: k est cst)
  case (Cons x fs)
  obtain now f where x: "x = (now, f)" by (cases x)
  have v: "voice_at cc f0 k f" and rest: "over cc f0 ((k + 1) mod 6) (map snd fs)" using Cons.prems(1) x by simp_all
  let ?est = "est\<lparr>en_inData := False\<rparr>"
  have "begin_stream f False ?est = ?est"
    using v Cons.prems(3) by (auto simp: begin_stream_def voice_at_def same_call_def sending_def)
  with Cons.prems(4) encode_slot_voice [OF v, of e slot now est]
  obtain core n where core: "IPSCFromBurst (d_Payload f) = Some (core, n)"
    and enc: "encode_slot e f slot now est = (let (m, st') = encode_voice e f slot core ?est in (([m], True), st'))"
    by (auto simp: open_headers_def)
  obtain m est1 where m: "encode_voice e f slot core ?est = (m, est1)" by (cases "encode_voice e f slot core ?est")
  have "lc_sane ?est" using Cons.prems(3) by (simp add: sending_def lc_sane_def)
  from voice_message [OF v Cons.prems(2) this assms(4,5) core m]
  obtain st1 cl fragment middle where r: "AsVoice m = Some (voice_of f flagsMiddle st1)" "same_run ?est st1" "same_run ?est est1"
    "SlotBit m = Some (slotBitSet e slot)" "ObservedLen (im_Kind m) \<noteq> None" "payloadOf m = Some (cl, core, fragment)"
    "cl = PayloadSync \<longleftrightarrow> k = 0" "MiddleForPosition (int k) cc fragment = Some middle"
    "BurstFromIPSC core middle = Some (d_Payload f)" by metis
  have s: "en_stream st1 = d_StreamID f0" "sending f0 est1" "en_opened est1"
    using r(2,3) Cons.prems(3,4) by (auto simp: same_run_def sending_def)
  let ?cst = "cst\<lparr>ss_started := True, ss_position := int k, ss_sequence := ss_sequence cst + 1\<rparr>"
  have conv: "convert_slot cc m (voice_of f flagsMiddle st1) repeater (d_Timeslot f0) cst = ([delivered repeater (ss_sequence cst) f], ?cst)"
    using convert_voice [OF Cons.prems(5) assms(3) v Cons.prems(2) s(1) assms(5) r(6-9), of repeater] Cons.prems(6,7) by simp
  have a: "on_call f0 ?cst" "ss_sentHeader ?cst" using Cons.prems(5,6) by (simp_all add: on_call_def)
  have b: "(k + 1) mod 6 \<noteq> 0 \<longrightarrow> ss_started ?cst \<and> ss_position ?cst = int ((k + 1) mod 6) - 1"
    using Cons.prems(2) by (cases "k = 5") auto
  have ih: "case encode_run e slot fs est1 of (ms, est') \<Rightarrow>
    case convert_run cc repeater (d_Timeslot f0) ms ?cst of (out, cst') \<Rightarrow>
      out = deliver_all repeater (ss_sequence ?cst) (map snd fs) \<and> list_all (msg_ok e slot) ms \<and>
      sending f0 est' \<and> en_opened est' \<and> on_call f0 cst' \<and> ss_sentHeader cst' \<and>
      ss_sequence cst' = ss_sequence ?cst + word_of_nat (length fs)"
    by (rule Cons.IH [OF rest _ s(2,3) a b]) simp
  have "msg_ok e slot m" using r(1,4,5) by (simp add: msg_ok_def)
  then show ?case
    using ih r(1) by (auto simp: x enc m conv case_prod_beta Let_def algebra_simps)
qed simp

lemma over_opens:
  assumes v: "voice_at cc f0 0 f" and c: "call_fields f0" "e_colourCode e = cc" "cc \<le> 15"
    and s: "\<not> (en_seen est \<and> en_stream est = d_StreamID f0)" "lc_sane est" and o: "\<not> on_call f0 cst"
  shows "case encode_slot e f slot now est of ((ms, _), est') \<Rightarrow>
    case convert_run cc repeater (d_Timeslot f0) ms cst of (out, cst') \<Rightarrow>
      out = [signal cc Link_Control.DataTypeVoiceLCHeader repeater 0 f, delivered repeater 1 f] \<and> list_all (msg_ok e slot) ms \<and>
      sending f0 est' \<and> en_opened est' \<and> on_call f0 cst' \<and> ss_sentHeader cst' \<and> ss_started cst' \<and> ss_position cst' = 0 \<and>
      ss_sequence cst' = 2"
proof -
  have call: "same_call f0 f" using v by (simp add: voice_at_def)
  define e0 where "e0 = (begin_stream f False (est\<lparr>en_inData := False\<rparr>))\<lparr>en_opened := True\<rparr>"
  have e0: "en_seen e0" "en_stream e0 = d_StreamID f0" "lc_sane e0" "en_opened e0"
      "\<not> en_opened (begin_stream f False (est\<lparr>en_inData := False\<rparr>))"
    using s call by (auto simp: e0_def begin_stream_def same_call_def lc_sane_def)
  obtain core n where core: "IPSCFromBurst (d_Payload f) = Some (core, n)"
    and enc: "encode_slot e f slot now est = (let (hs, st') = open_headers e f slot (begin_stream f False (est\<lparr>en_inData := False\<rparr>));
        (m, st') = encode_voice e f slot core st' in ((hs @ [m], True), st'))"
    by (rule encode_slot_voice [OF v, of e slot now est])
  let ?hd = "\<lambda>fl st. signalling e f slot fl FrameHeader Link_Control.DataTypeVoiceLCHeader st"
  obtain h1 e1 where h1: "?hd flagsFirst e0 = (h1, e1)" by (cases "?hd flagsFirst e0")
  obtain h2 e2 where h2: "?hd flagsMiddle e1 = (h2, e2)" by (cases "?hd flagsMiddle e1")
  obtain h3 e3 where h3: "?hd flagsMiddle e2 = (h3, e3)" by (cases "?hd flagsMiddle e2")
  obtain m e4 where m: "encode_voice e f slot core e3 = (m, e4)" by (cases "encode_voice e f slot core e3")
  note r1 = signalling_read [OF h1] and r2 = signalling_read [OF h2] and r3 = signalling_read [OF h3]
  have st: "en_stream e1 = d_StreamID f0" "en_stream e2 = d_StreamID f0" "en_stream e3 = d_StreamID f0" "lc_sane e3" "en_seen e3" "en_opened e3"
    using e0 r1(6) r2(6) r3(6) by (auto simp: lc_sane_def)
  have msgs: "encode_slot e f slot now est = (([h1, h2, h3, m], True), e4)"
    using e0(5) by (simp add: enc open_headers_def e0_def [symmetric] h1 h2 h3 m Let_def)
  have nl: "\<not> IsLastFrame (voice_of f flagsFirst e0)" "\<not> IsLastFrame (voice_of f flagsMiddle x)" for x
    by (simp_all add: IsLastFrame_def voice_of_def)
  note sid = voice_of_call(4) [OF c(1) call]
  let ?c0 = "cst\<lparr>ss_stream := ucast (drop_bit 16 (d_StreamID f0)), ss_opened := voice_of f flagsFirst e0, ss_seen := True, ss_sequence := 0,
            ss_started := False, ss_position := 0, ss_sentHeader := False\<rparr>"
  have c0: "convert_slot cc h1 (voice_of f flagsFirst e0) repeater (d_Timeslot f0) cst = ([], ?c0)"
    using convert_first_header [OF o sid [OF e0(2)] _ nl(1)] r1 by (simp add: sid [OF e0(2)])
  have on: "on_call f0 ?c0" by (simp add: on_call_def)
  note skip = convert_header [OF on sid _ nl(2)]
  have c1: "convert_slot cc h2 (voice_of f flagsMiddle e1) repeater (d_Timeslot f0) ?c0 = ([], ?c0)"
    by (rule skip) (use st r2 in simp_all)
  have c2: "convert_slot cc h3 (voice_of f flagsMiddle e2) repeater (d_Timeslot f0) ?c0 = ([], ?c0)"
    by (rule skip) (use st r3 in simp_all)
  obtain s1 cl fragment middle where r: "AsVoice m = Some (voice_of f flagsMiddle s1)" "same_run e3 s1" "same_run e3 e4"
    "SlotBit m = Some (slotBitSet e slot)" "ObservedLen (im_Kind m) \<noteq> None" "payloadOf m = Some (cl, core, fragment)"
    "cl = PayloadSync \<longleftrightarrow> 0 = (0 :: nat)" "MiddleForPosition (int 0) cc fragment = Some middle"
    "BurstFromIPSC core middle = Some (d_Payload f)"
    by (rule voice_message [OF v _ st(4) c(2,3) core m]) simp
  have s1: "en_stream s1 = d_StreamID f0" using r(2) st(3) by (simp add: same_run_def)
  have cv: "convert_slot cc m (voice_of f flagsMiddle s1) repeater (d_Timeslot f0) ?c0 =
      ([signal cc Link_Control.DataTypeVoiceLCHeader repeater 0 f, delivered repeater 1 f],
       ?c0\<lparr>ss_started := True, ss_position := 0, ss_sequence := 2, ss_sentHeader := True\<rparr>)"
    using convert_voice [OF on c(1) v _ s1 c(3) r(6-9), of repeater] by simp
  have "convert_run cc repeater (d_Timeslot f0) [h1, h2, h3, m] cst =
      ([signal cc Link_Control.DataTypeVoiceLCHeader repeater 0 f, delivered repeater 1 f],
       ?c0\<lparr>ss_started := True, ss_position := 0, ss_sequence := 2, ss_sentHeader := True\<rparr>)"
    using r1(1) r2(1) r3(1) r(1) by (simp add: c0 c1 c2 cv)
  moreover have "list_all (msg_ok e slot) [h1, h2, h3, m]"
    using r1(1,2,5) r2(1,2,5) r3(1,2,5) r(1,4,5) by (simp add: msg_ok_def)
  moreover have "sending f0 e4" "en_opened e4" using r(3) st by (auto simp: same_run_def sending_def)
  ultimately show ?thesis using on by (simp add: msgs on_call_def)
qed

lemma over_closes:
  assumes "IsTerminator t" "same_call f0 t" "call_fields f0" "cc \<le> 15"
    and "sending f0 est" "en_opened est" "on_call f0 cst" "ss_sentHeader cst"
  shows "case encode_slot e t slot now est of ((ms, _), est') \<Rightarrow>
    list_all (msg_ok e slot) ms \<and>
    fst (convert_run cc repeater (d_Timeslot f0) ms cst) = [signal cc DataTypeTerminatorWithLC repeater (ss_sequence cst) t]"
proof -
  let ?st = "(note_data t now est)\<lparr>en_opened := False, en_seen := False\<rparr>"
  obtain m st' where m: "signalling e t slot flagsLast FrameTerminator DataTypeTerminatorWithLC ?st = (m, st')"
    by (cases "signalling e t slot flagsLast FrameTerminator DataTypeTerminatorWithLC ?st")
  have "begin_stream t b (note_data t now est) = note_data t now est" for b
    using assms(2,5) by (auto simp: begin_stream_def note_data_def same_call_def sending_def)
  moreover have "en_opened (note_data t now est)" using assms(6) by (simp add: note_data_def)
  ultimately have e: "encode_slot e t slot now est = (([m], True), st')"
    using assms(1) m by (simp add: encode_slot_def Let_def)
  note r = signalling_read [OF m]
  have "en_stream ?st = d_StreamID f0" using assms(5) by (simp add: note_data_def sending_def)
  from convert_terminator [OF assms(7,3,2) this assms(8,4), of m repeater] r show ?thesis
    by (simp add: e msg_ok_def case_prod_beta Let_def)
qed

section \<open>The whole bridge\<close>

fun run_encoder :: "(time \<times> hbp_data) list \<Rightarrow> encoder \<Rightarrow> ipsc_message list \<times> encoder" where
  "run_encoder [] e = ([], e)"
| "run_encoder ((now, f) # fs) e =
     (let ((ms, _), e) = Encoder_Encode f now e; (rest, e) = run_encoder fs e in (ms @ rest, e))"

text \<open>What arrives is datagrams.\<close>

fun run_converter :: "RepeaterID \<Rightarrow> byte list list \<Rightarrow> converter \<Rightarrow> hbp_data list \<times> converter" where
  "run_converter repeater [] c = ([], c)"
| "run_converter repeater (b # bs) c = (case ipsc_Parse b of
      Inl _ \<Rightarrow> run_converter repeater bs c
    | Inr m \<Rightarrow> let (out, c) = Convert m repeater c; (rest, c) = run_converter repeater bs c in (out @ rest, c))"

lemma encode_slot_slots: "encode_slot (e\<lparr>e_slots := x\<rparr>) = encode_slot e"
proof -
  have s: "slotBitSet (e\<lparr>e_slots := x\<rparr>) = slotBitSet e" by (auto simp: slotBitSet_def)
  then have p: "preamble (e\<lparr>e_slots := x\<rparr>) = preamble e" "header_b31 (e\<lparr>e_slots := x\<rparr>) = header_b31 e"
    by (auto simp: preamble_def header_b31_def fun_eq_iff)
  then have g: "signalling (e\<lparr>e_slots := x\<rparr>) = signalling e" by (auto simp: signalling_def fun_eq_iff)
  have c: "e_colourCode (e\<lparr>e_slots := x\<rparr>) = e_colourCode e" "e_masterID (e\<lparr>e_slots := x\<rparr>) = e_masterID e" by simp_all
  have l: "lcFragment (e\<lparr>e_slots := x\<rparr>) = lcFragment e" unfolding lcFragment_def c ..
  have v: "encode_voice (e\<lparr>e_slots := x\<rparr>) = encode_voice e" unfolding encode_voice_def s p l c ..
  have t: "encode_text (e\<lparr>e_slots := x\<rparr>) = encode_text e" unfolding encode_text_def p c ..
  have h: "open_headers (e\<lparr>e_slots := x\<rparr>) = open_headers e" unfolding open_headers_def g ..
  show ?thesis unfolding encode_slot_def g v t h ..
qed

lemma encode_run_slots: "encode_run (e\<lparr>e_slots := x\<rparr>) slot fs st = encode_run e slot fs st"
  by (induction fs arbitrary: st) (auto simp: encode_slot_slots)

lemma run_encoder_slot:
  assumes "\<forall>(now, f) \<in> set fs. d_Timeslot f = ts" "length (e_slots e) = 2"
  shows "fst (run_encoder fs e) = fst (encode_run e (slotIndex ts) fs (e_slots e ! slotIndex ts))"
  using assms
proof (induction fs arbitrary: e)
  case (Cons x fs)
  obtain now f where x: "x = (now, f)" by (cases x)
  have i: "d_Timeslot f = ts" "(if ts = Timeslot2 then 1 else 0) = slotIndex ts" using Cons.prems(1) x by (simp_all add: slotIndex_def)
  show ?case
    using Cons.IH [of "e\<lparr>e_slots := (e_slots e)[slotIndex ts := snd (encode_slot e f (slotIndex ts) now (e_slots e ! slotIndex ts))]\<rparr>"] Cons.prems
    by (simp add: x Encoder_Encode_def i Let_def case_prod_beta encode_run_slots)
qed simp

lemma run_converter_slot:
  assumes "list_all (msg_ok e (slotIndex ts)) ms" "e_cfg e = cv_cfg c" "length (cv_slots c) = 2" "ts = Timeslot1 \<or> ts = Timeslot2"
  shows "fst (run_converter repeater (map ipsc_Marshal ms) c) =
    fst (convert_run (bc_ColourCode (cv_cfg c)) repeater ts ms (cv_slots c ! slotIndex ts))"
  using assms
proof (induction ms arbitrary: c)
  case (Cons m ms)
  obtain v where v: "AsVoice m = Some v" "ObservedLen (im_Kind m) \<noteq> None" "SlotBit m = Some (slotBitSet e (slotIndex ts))"
    using Cons.prems(1) by (auto simp: msg_ok_def)
  have t: "message_Timeslot (cv_cfg c) m = ts"
    using v(3) Cons.prems(2,4) by (auto simp: message_Timeslot_def slotBitSet_def timeslotFor_def slotIndex_def)
  have "ipsc_Parse (ipsc_Marshal m) = Inr m" using v(2) by (simp add: ipsc_Parse_iff)
  then show ?case
    using Cons.IH [of "c\<lparr>cv_slots := (cv_slots c)[slotIndex ts :=
        snd (convert_slot (bc_ColourCode (cv_cfg c)) m v repeater ts (cv_slots c ! slotIndex ts))]\<rparr>"] Cons.prems
    by (simp add: Convert_def v(1) t Let_def case_prod_beta)
qed simp

lemma over_timeslots: "over cc f0 k fs \<Longrightarrow> f \<in> set fs \<Longrightarrow> d_Timeslot f = d_Timeslot f0"
  by (induction fs arbitrary: k) (auto simp: voice_at_def same_call_def)

text \<open>
  C12: audio crosses the bridge unchanged.  An over of a hotspot (bursts that need no correction, each at
  its place in the superframe and with the signalling of that place) and its terminator, encoded
  for a repeater, sent as datagrams, read and converted back under the same colour code and slot polarity,
  comes out as a voice header, the same frames in the same order with the same source, target, call type,
  timeslot, place and burst, octet for octet, and a terminator, numbered from zero without a gap;
  only the numbers, the repeater ID, the lower half of the stream ID and the trailing octets are new.
\<close>

theorem over_crosses_bridge:
  assumes "over (bc_ColourCode cfg) f0 0 (map snd fs)" "fs \<noteq> []" "call_fields f0" "bc_ColourCode cfg \<le> 15"
    and "IsTerminator t" "same_call f0 t"
    and "e_cfg e = cfg" "e_colourCode e = bc_ColourCode cfg" "length (e_slots e) = 2"
    and "est = e_slots e ! slotIndex (d_Timeslot f0)" "\<not> (en_seen est \<and> en_stream est = d_StreamID f0)" "lc_sane est"
    and "cv_cfg c = cfg" "length (cv_slots c) = 2" "\<not> on_call f0 (cv_slots c ! slotIndex (d_Timeslot f0))"
  shows "fst (run_converter repeater (map ipsc_Marshal (fst (run_encoder (fs @ [(now, t)]) e))) c) =
    signal (bc_ColourCode cfg) Link_Control.DataTypeVoiceLCHeader repeater 0 f0 #
    deliver_all repeater 1 (map snd fs) @
    [signal (bc_ColourCode cfg) DataTypeTerminatorWithLC repeater (word_of_nat (length fs + 1)) f0]"
proof -
  let ?cc = "bc_ColourCode cfg" and ?ts = "d_Timeslot f0" and ?i = "slotIndex (d_Timeslot f0)"
  let ?conv = "convert_run ?cc repeater ?ts"
  let ?cst = "cv_slots c ! ?i"
  have sig: "signal ?cc dt repeater n f = signal ?cc dt repeater n f0" if "same_call f0 f" for dt n f
    using that by (simp add: signal_def delivered_def lc_of_def same_call_def)
  obtain n1 f fs' where fs: "fs = (n1, f) # fs'" using assms(2) by (cases fs) auto
  have v: "voice_at ?cc f0 0 f" and o: "over ?cc f0 1 (map snd fs')" using assms(1) fs by simp_all
  obtain ms1 est1 where e1: "encode_slot e f ?i n1 est = ((ms1, True), est1)"
    by (rule encode_slot_voice [OF v, of e ?i n1 est]) (simp add: Let_def case_prod_beta that)
  obtain out1 cst1 where c1: "?conv ms1 ?cst = (out1, cst1)" by (cases "?conv ms1 ?cst")
  note first = over_opens [OF v assms(3,8,4,11,12,15), where slot = ?i and now = n1 and repeater = repeater, unfolded e1, simplified, unfolded c1, simplified]
  obtain ms2 est2 where e2: "encode_run e ?i fs' est1 = (ms2, est2)" by (cases "encode_run e ?i fs' est1")
  obtain out2 cst2 where c2: "?conv ms2 cst1 = (out2, cst2)" by (cases "?conv ms2 cst1")
  have body: "out2 = deliver_all repeater 2 (map snd fs') \<and> list_all (msg_ok e ?i) ms2 \<and> sending f0 est2 \<and> en_opened est2 \<and>
      on_call f0 cst2 \<and> ss_sentHeader cst2 \<and> ss_sequence cst2 = 2 + word_of_nat (length fs')"
    using over_body [OF o _ assms(3,8,4), where est = est1 and cst = cst1 and slot = ?i and repeater = repeater] first by (simp add: e2 c2)
  obtain ms3 b est3 where e3: "encode_slot e t ?i now est2 = ((ms3, b), est3)" by (metis prod.exhaust)
  note close = over_closes [OF assms(5,6,3,4), where est = est2 and cst = cst2 and e = e and slot = ?i and now = now and repeater = repeater, unfolded e3, simplified]
  have ms: "fst (encode_run e ?i (fs @ [(now, t)]) est) = ms1 @ ms2 @ ms3"
    by (simp add: fs encode_run_append e1 e2 e3)
  have "\<forall>(n, g) \<in> set (fs @ [(now, t)]). d_Timeslot g = ?ts"
    using over_timeslots [OF assms(1)] assms(6) by (fastforce simp: same_call_def)
  from run_encoder_slot [OF this assms(9)] have enc: "fst (run_encoder (fs @ [(now, t)]) e) = ms1 @ ms2 @ ms3"
    using ms assms(10) by simp
  have ok: "list_all (msg_ok e ?i) (ms1 @ ms2 @ ms3)" using first body close by simp
  have ts: "?ts = Timeslot1 \<or> ?ts = Timeslot2" using assms(3) by (simp add: call_fields_def)
  have "fst (run_converter repeater (map ipsc_Marshal (fst (run_encoder (fs @ [(now, t)]) e))) c) = fst (?conv (ms1 @ ms2 @ ms3) ?cst)"
    unfolding enc using run_converter_slot [OF ok _ assms(14) ts, of repeater] assms(7,13) by simp
  also have "\<dots> = out1 @ out2 @ fst (?conv ms3 cst2)" by (simp add: convert_run_append c1 c2)
  finally show ?thesis
    using first body close sig [OF assms(6)] sig [of f] v
    by (simp add: fs voice_at_def add.commute)
qed

text \<open>A burst of silence, and an over of one frame.\<close>

definition silent_burst :: "byte list" where
  "silent_burst = the (AssembleBurst [Encode 0, Encode 0, Encode 0] VoiceSyncBS)"

definition demo_voice_frame :: hbp_data where
  "demo_voice_frame = \<lparr>d_Sequence = 7, d_SourceID = 3120001, d_TargetID = 9, d_RepeaterID = 5, d_Timeslot = Timeslot2,
     d_CallType = CallGroup, d_FrameType = FrameTypeVoiceSync, d_DataType = 0, d_StreamID = 0xABCD1234,
     d_Payload = silent_burst, d_Trailing = [0, 0]\<rparr>"

definition demo_end :: hbp_data where
  "demo_end = demo_voice_frame\<lparr>d_FrameType := FrameTypeSync, d_DataType := DataTypeTerminator\<rparr>"

lemma silent_clean: "clean_burst cc 0 demo_voice_frame"
proof -
  obtain b where b: "AssembleBurst [Encode 0, Encode 0, Encode 0] VoiceSyncBS = Some b"
    "VocoderFrames b = Some [Encode 0, Encode 0, Encode 0]" "Middle b = Some (take_bit 48 VoiceSyncBS)"
    by (rule AssembleBurst_frames [of "Encode 0" "Encode 0" "Encode 0" VoiceSyncBS]) auto
  let ?core = "PackIPSCCore [0, 0, 0]"
  have "IPSCFromBurst b = Some (?core, 0)"
    using b(2) decode_frames_Encode [of "[0, 0, 0]"] by (simp add: IPSCFromBurst_def)
  moreover have "BurstFromIPSC ?core VoiceSyncBS = Some b"
    using b(1) UnpackIPSCCore_PackIPSCCore [of 0 0 0] by (simp add: BurstFromIPSC_def)
  moreover have "take_bit 48 VoiceSyncBS = VoiceSyncBS" by (simp add: VoiceSyncBS_def)
  ultimately show ?thesis
    using b length_PackIPSCCore
    by (simp add: clean_burst_def demo_voice_frame_def silent_burst_def MiddleForPosition_def)
qed

theorem over_crosses_bridge_witness:
  "fst (run_converter 3 (map ipsc_Marshal (fst (run_encoder [(0, demo_voice_frame), (60, demo_end)] (NewEncoder 1 bridge_cfg)))) bridge_new) =
    [signal 1 1 3 0 demo_voice_frame, delivered 3 1 demo_voice_frame, signal 1 2 3 2 demo_voice_frame]"
proof -
  have s: "slotIndex (d_Timeslot demo_voice_frame) = 1" by (simp add: demo_voice_frame_def slotIndex_def)
  have "over (bc_ColourCode bridge_cfg) demo_voice_frame 0 (map snd [(0 :: time, demo_voice_frame)])"
    using silent_clean [of "bc_ColourCode bridge_cfg"] by (simp add: voice_at_def same_call_def) (simp add: demo_voice_frame_def)
  moreover have "call_fields demo_voice_frame" by (simp add: call_fields_def demo_voice_frame_def)
  moreover have "IsTerminator demo_end" "same_call demo_voice_frame demo_end" by (simp_all add: demo_end_def IsTerminator_def same_call_def)
  ultimately have "fst (run_converter 3 (map ipsc_Marshal (fst (run_encoder ([(0, demo_voice_frame)] @ [(60, demo_end)]) (NewEncoder 1 bridge_cfg)))) bridge_new) =
    signal (bc_ColourCode bridge_cfg) Link_Control.DataTypeVoiceLCHeader 3 0 demo_voice_frame #
    deliver_all 3 1 (map snd [(0 :: time, demo_voice_frame)]) @
    [signal (bc_ColourCode bridge_cfg) DataTypeTerminatorWithLC 3 (word_of_nat (length [(0 :: time, demo_voice_frame)] + 1)) demo_voice_frame]"
    by (intro over_crosses_bridge [OF _ _ _ _ _ _ _ _ _ refl])
      (simp_all add: s NewEncoder_def zero_encode_def lc_sane_def bridge_new_def on_call_def zero_slot_def, simp_all add: bridge_cfg_def)
  then show ?thesis by (simp add: bridge_cfg_def DataTypeVoiceLCHeader_def DataTypeTerminatorWithLC_def)
qed

end
