(* ===== verification/Parrot.thy ===== *)
theory Parrot
  imports Call_Tracker "HOL-Library.Sublist"
begin

text \<open>
  \<^verbatim>\<open>internal/parrot\<close>: a member's own audio played back.  \<^verbatim>\<open>parrot.go\<close> records one transmission per
  peer, ended by silence or by a limit; \<^verbatim>\<open>player.go\<close> plays a recording back at the rate of DMR, one
  replay per peer, each in a goroutine of its own.  The lemmas show that a recording holds only frames its own
  peer sent, in order and boundedly many, that it goes back to that peer with nothing but its stream ID and
  numbers changed, and that a replay that is left alone delivers every frame once and ends.
\<close>

section \<open>parrot.go\<close>

definition DefaultMaxDuration :: duration where "DefaultMaxDuration = 30 * second"
definition DefaultGap :: duration where "DefaultGap = second"
definition FrameInterval :: duration where "FrameInterval = 60000000"
definition frameHeadroom :: int where "frameHeadroom = 3"

record parrot_config =
  pc_Talkgroup :: u32
  pc_Timeslot :: Timeslot
  pc_MaxDuration :: duration
  pc_Gap :: duration
  pc_Silence :: duration

record Recording =
  fr_Peer :: RepeaterID
  fr_Frames :: "hbp_data list"
  fr_Truncated :: bool
  fr_Duration :: duration
  fr_PlayAt :: time

record recording =
  rc_stream :: StreamID
  rc_frames :: "hbp_data list"
  rc_startedAt :: time
  rc_lastFrame :: time
  rc_truncated :: bool

record recorder =
  re_cfg :: parrot_config
  re_active :: "(RepeaterID, recording) gomap"
  re_counter :: u32
  re_maxFrames :: int

definition parrot_New :: "parrot_config \<Rightarrow> recorder option" where
  "parrot_New cfg =
     (if pc_Talkgroup cfg = 0 then None
      else
        let cfg = cfg\<lparr>pc_MaxDuration := (if pc_MaxDuration cfg \<le> 0 then DefaultMaxDuration else pc_MaxDuration cfg),
              pc_Gap := (if pc_Gap cfg \<le> 0 then DefaultGap else pc_Gap cfg),
              pc_Silence := (if pc_Silence cfg \<le> 0 then calls_StreamTimeout else pc_Silence cfg)\<rparr>
        in Some \<lparr>re_cfg = cfg, re_active = [], re_counter = 0,
                 re_maxFrames = pc_MaxDuration cfg div FrameInterval * frameHeadroom\<rparr>)"

text \<open>
  \<open>nextStream\<close> reads the clock a second time; \<open>clock\<close> is that reading.  Times count from the zero
  time of Go, \<open>UnixNano\<close> from 1970.
\<close>

definition unixEpoch :: time where "unixEpoch = 62135596800 * second"

definition nextStream :: "time \<Rightarrow> recorder \<Rightarrow> StreamID \<times> recorder" where
  "nextStream clock r =
     (let counter = re_counter r + 1
      in (word_of_int (clock - unixEpoch) AND 0x00FFFFFF OR push_bit 24 counter, r\<lparr>re_counter := counter\<rparr>))"

definition parrot_Handles :: "recorder \<Rightarrow> hbp_data \<Rightarrow> bool" where
  "parrot_Handles r frame =
     (if d_TargetID frame \<noteq> pc_Talkgroup (re_cfg r) then False
      else if IsUserData frame then False
      else if d_CallType frame = CallPrivate then True
      else d_CallType frame = CallGroup \<and> d_Timeslot frame = pc_Timeslot (re_cfg r))"

definition renumber :: "StreamID \<Rightarrow> hbp_data list \<Rightarrow> hbp_data list" where
  "renumber stream fs = map (\<lambda>(i, f). f\<lparr>d_StreamID := stream, d_Sequence := word_of_nat i\<rparr>) (enumerate 0 fs)"

definition parrot_finish :: "RepeaterID \<Rightarrow> recording \<Rightarrow> time \<Rightarrow> time \<Rightarrow> recorder \<Rightarrow> Recording option \<times> recorder" where
  "parrot_finish peer rec now clock r =
     (let r = r\<lparr>re_active := mdel peer (re_active r)\<rparr> in
      if length (rc_frames rec) = 0 then (None, r)
      else
        let (stream, r) = nextStream clock r
        in (Some \<lparr>fr_Peer = peer, fr_Frames = renumber stream (rc_frames rec), fr_Truncated = rc_truncated rec,
              fr_Duration = Sub (rc_lastFrame rec) (rc_startedAt rec), fr_PlayAt = now + pc_Gap (re_cfg r)\<rparr>, r))"

definition parrot_Observe :: "RepeaterID \<Rightarrow> hbp_data \<Rightarrow> time \<Rightarrow> time \<Rightarrow> recorder \<Rightarrow> Recording option \<times> recorder" where
  "parrot_Observe peer frame now clock r =
     (let current = (case mget (re_active r) peer of
            Some rec \<Rightarrow> if rc_stream rec \<noteq> d_StreamID frame
              then \<lparr>rc_stream = d_StreamID frame, rc_frames = [], rc_startedAt = now, rc_lastFrame = 0, rc_truncated = False\<rparr> else rec
          | None \<Rightarrow> \<lparr>rc_stream = d_StreamID frame, rc_frames = [], rc_startedAt = now, rc_lastFrame = 0, rc_truncated = False\<rparr>);
          current = current\<lparr>rc_lastFrame := now\<rparr>;
          current = (if rc_truncated current then current
            else if Sub now (rc_startedAt current) > pc_MaxDuration (re_cfg r) \<or> int (length (rc_frames current)) \<ge> re_maxFrames r
            then current\<lparr>rc_truncated := True\<rparr>
            else current\<lparr>rc_frames := rc_frames current @ [frame]\<rparr>);
          r = r\<lparr>re_active := mput peer current (re_active r)\<rparr>
      in if \<not> rc_truncated current then (None, r) else parrot_finish peer current now clock r)"

text \<open>The sweep ranges over the map and removes what it finishes; \<open>clocks\<close> are the readings it makes.\<close>

fun expire_recordings :: "(RepeaterID \<times> recording) list \<Rightarrow> time \<Rightarrow> (nat \<Rightarrow> time) \<Rightarrow> recorder \<Rightarrow> Recording list \<times> recorder" where
  "expire_recordings [] now clocks r = ([], r)"
| "expire_recordings ((peer, rec) # rest) now clocks r =
     (if Sub now (rc_lastFrame rec) < pc_Silence (re_cfg r) then expire_recordings rest now clocks r
      else
        let (finished, r) = parrot_finish peer rec now (clocks (length rest)) r;
            (done, r) = expire_recordings rest now clocks r
        in (case finished of Some f \<Rightarrow> f # done | None \<Rightarrow> done, r))"

definition parrot_Expire :: "time \<Rightarrow> (nat \<Rightarrow> time) \<Rightarrow> recorder \<Rightarrow> Recording list \<times> recorder" where
  "parrot_Expire now clocks r = expire_recordings (re_active r) now clocks r"

definition parrot_Cancel :: "RepeaterID \<Rightarrow> recorder \<Rightarrow> recorder" where
  "parrot_Cancel peer r = r\<lparr>re_active := mdel peer (re_active r)\<rparr>"

definition parrot_Active :: "recorder \<Rightarrow> nat" where
  "parrot_Active r = length (re_active r)"

section \<open>player.go\<close>

text \<open>
  A replay in its goroutine: what it was started with, the frames it has not sent, how many were
  sent, and whether its context was cancelled.  \<open>running\<close> maps a peer to the replay \<open>Start\<close> began for it.
\<close>

record replay =
  rp_rec :: Recording
  rp_left :: "hbp_data list"
  rp_sent :: nat
  rp_cancelled :: bool

record player =
  pl_running :: "(RepeaterID, nat) gomap"
  pl_generation :: nat
  pl_replays :: "(nat, replay) gomap"
  pl_played :: nat
  pl_frames :: nat
  pl_stopped :: nat
  pl_errs :: nat

definition NewPlayer :: player where
  "NewPlayer = \<lparr>pl_running = [], pl_generation = 0, pl_replays = [], pl_played = 0, pl_frames = 0, pl_stopped = 0, pl_errs = 0\<rparr>"

definition player_Busy :: "RepeaterID \<Rightarrow> player \<Rightarrow> bool" where
  "player_Busy peer p \<longleftrightarrow> mget (pl_running p) peer \<noteq> None"

definition player_Active :: "player \<Rightarrow> nat" where
  "player_Active p = length (pl_running p)"

definition player_Stop :: "RepeaterID \<Rightarrow> player \<Rightarrow> player" where
  "player_Stop peer p = (case mget (pl_running p) peer of
      None \<Rightarrow> p
    | Some gen \<Rightarrow>
        p\<lparr>pl_running := mdel peer (pl_running p),
          pl_replays := mmap (\<lambda>g rp. if g = gen then rp\<lparr>rp_cancelled := True\<rparr> else rp) (pl_replays p),
          pl_stopped := pl_stopped p + 1\<rparr>)"

definition player_Start :: "Recording \<Rightarrow> player \<Rightarrow> player" where
  "player_Start rec p =
     (let p = player_Stop (fr_Peer rec) p; gen = pl_generation p + 1
      in p\<lparr>pl_generation := gen, pl_running := mput (fr_Peer rec) gen (pl_running p),
           pl_replays := mput gen \<lparr>rp_rec = rec, rp_left = fr_Frames rec, rp_sent = 0, rp_cancelled = False\<rparr> (pl_replays p)\<rparr>)"

text \<open>The deferred function of \<open>play\<close>: the goroutine is gone, and forgets its own entry only.\<close>

definition play_exit :: "nat \<Rightarrow> RepeaterID \<Rightarrow> player \<Rightarrow> player" where
  "play_exit gen peer p =
     p\<lparr>pl_running := (if mget (pl_running p) peer = Some gen then mdel peer (pl_running p) else pl_running p),
       pl_replays := mdel gen (pl_replays p)\<rparr>"

text \<open>The context of a replay was cancelled and the goroutine notices.\<close>

definition play_done :: "nat \<Rightarrow> player \<Rightarrow> player" where
  "play_done gen p = (case mget (pl_replays p) gen of
      None \<Rightarrow> p | Some rp \<Rightarrow> if rp_cancelled rp then play_exit gen (fr_Peer (rp_rec rp)) p else p)"

text \<open>
  The ticker of a replay, when it wins the \<open>select\<close>.  \<open>ok\<close> says whether the sink took the frame.  After
  its last frame a replay counts itself and ends; one without frames ends at once.
\<close>

definition play_finished :: "nat \<Rightarrow> replay \<Rightarrow> player \<Rightarrow> player" where
  "play_finished gen rp p =
     (if rp_left rp = []
      then play_exit gen (fr_Peer (rp_rec rp)) (p\<lparr>pl_played := pl_played p + 1, pl_frames := pl_frames p + rp_sent rp\<rparr>)
      else p\<lparr>pl_replays := mput gen rp (pl_replays p)\<rparr>)"

definition play_tick :: "nat \<Rightarrow> time \<Rightarrow> bool \<Rightarrow> player \<Rightarrow> (RepeaterID \<times> hbp_data) list \<times> player" where
  "play_tick gen now ok p = (case mget (pl_replays p) gen of
      None \<Rightarrow> ([], p)
    | Some rp \<Rightarrow>
        if now < fr_PlayAt (rp_rec rp) then ([], p)
        else case rp_left rp of
            [] \<Rightarrow> ([], play_finished gen rp p)
          | frame # left \<Rightarrow>
              let peer = fr_Peer (rp_rec rp);
                  rp = rp\<lparr>rp_left := left, rp_sent := (if ok then rp_sent rp + 1 else rp_sent rp)\<rparr>;
                  p = (if ok then p else p\<lparr>pl_errs := pl_errs p + 1\<rparr>)
              in ([(peer, frame\<lparr>d_RepeaterID := peer\<rparr>)], play_finished gen rp p))"

section \<open>What a recording holds\<close>

lemma finish_simps [simp]:
  "re_active (snd (parrot_finish peer rec now clock r)) = mdel peer (re_active r)"
  "re_cfg (snd (parrot_finish peer rec now clock r)) = re_cfg r"
  "re_maxFrames (snd (parrot_finish peer rec now clock r)) = re_maxFrames r"
  by (auto simp: parrot_finish_def nextStream_def Let_def)

definition frames_of :: "RepeaterID \<Rightarrow> (RepeaterID \<times> hbp_data) list \<Rightarrow> hbp_data list" where
  "frames_of p log = map snd (filter (\<lambda>x. fst x = p) log)"

lemma frames_of_append: "frames_of p (log @ [(q, f)]) = (if q = p then frames_of p log @ [f] else frames_of p log)"
  by (simp add: frames_of_def)

definition own_frames :: "recorder \<Rightarrow> (RepeaterID \<times> hbp_data) list \<Rightarrow> RepeaterID \<Rightarrow> StreamID \<Rightarrow> hbp_data list \<Rightarrow> bool" where
  "own_frames r log p stream fs \<longleftrightarrow> subseq fs (frames_of p log) \<and> (\<forall>f \<in> set fs. d_StreamID f = stream) \<and>
     int (length fs) \<le> re_maxFrames r"

text \<open>
  A recording to be played back: to its own peer, frames of one transmission that peer sent, in order
  and no more than the limit, under one new stream ID and numbered from zero.
\<close>

definition echo_ok :: "recorder \<Rightarrow> (RepeaterID \<times> hbp_data) list \<Rightarrow> Recording \<Rightarrow> bool" where
  "echo_ok r log rec \<longleftrightarrow> (\<exists>fs stream new. own_frames r log (fr_Peer rec) stream fs \<and> fs \<noteq> [] \<and> fr_Frames rec = renumber new fs)"

definition recorder_inv :: "(RepeaterID \<times> hbp_data) list \<times> recorder \<Rightarrow> bool" where
  "recorder_inv = (\<lambda>(log, r). mwf (re_active r) \<and> 0 \<le> re_maxFrames r \<and>
     (\<forall>p rec. mget (re_active r) p = Some rec \<longrightarrow> \<not> rc_truncated rec \<and> own_frames r log p (rc_stream rec) (rc_frames rec)))"

lemma finish_echo:
  assumes "own_frames r log peer (rc_stream rec) (rc_frames rec)" "fst (parrot_finish peer rec now clock r) = Some f"
  shows "echo_ok r log f \<and> fr_Peer f = peer"
proof -
  obtain new where "fr_Frames f = renumber new (rc_frames rec)" "rc_frames rec \<noteq> []" "fr_Peer f = peer"
    using assms(2) by (auto simp: parrot_finish_def Let_def split: prod.splits if_splits)
  then show ?thesis using assms(1) unfolding echo_ok_def by blast
qed

definition begun :: "hbp_data \<Rightarrow> time \<Rightarrow> RepeaterID \<Rightarrow> recorder \<Rightarrow> recording" where
  "begun frame now peer r = (case mget (re_active r) peer of
      Some rec \<Rightarrow> if rc_stream rec \<noteq> d_StreamID frame
        then \<lparr>rc_stream = d_StreamID frame, rc_frames = [], rc_startedAt = now, rc_lastFrame = 0, rc_truncated = False\<rparr> else rec
    | None \<Rightarrow> \<lparr>rc_stream = d_StreamID frame, rc_frames = [], rc_startedAt = now, rc_lastFrame = 0, rc_truncated = False\<rparr>)"

lemma begun_own:
  assumes "recorder_inv (log, r)"
  shows "\<not> rc_truncated (begun frame now peer r)" "rc_stream (begun frame now peer r) = d_StreamID frame"
    "own_frames r log peer (d_StreamID frame) (rc_frames (begun frame now peer r))"
  using assms by (auto simp: begun_def recorder_inv_def own_frames_def split: option.splits)

lemma own_frames_more: "own_frames r log p s fs \<Longrightarrow> own_frames r (log @ [(q, f)]) p s fs"
  by (auto simp: own_frames_def frames_of_append intro: subseq_rev_drop_many list_emb_append2)

lemma Observe_cases:
  assumes "recorder_inv (log, r)"
  defines "current \<equiv> \<lambda>now frame peer. (begun frame now peer r)\<lparr>rc_lastFrame := now\<rparr>"
  shows "(\<exists>rec. parrot_Observe peer frame now clock r = (None, r\<lparr>re_active := mput peer rec (re_active r)\<rparr>) \<and>
      \<not> rc_truncated rec \<and> own_frames r (log @ [(peer, frame)]) peer (rc_stream rec) (rc_frames rec)) \<or>
    (\<exists>rec. parrot_Observe peer frame now clock r = parrot_finish peer rec now clock (r\<lparr>re_active := mput peer rec (re_active r)\<rparr>) \<and>
      own_frames r (log @ [(peer, frame)]) peer (rc_stream rec) (rc_frames rec))"
proof -
  let ?c = "current now frame peer"
  note b = begun_own [OF assms(1), where frame = frame and now = now and peer = peer]
  have e: "parrot_Observe peer frame now clock r =
     (if Sub now (rc_startedAt ?c) > pc_MaxDuration (re_cfg r) \<or> int (length (rc_frames ?c)) \<ge> re_maxFrames r
      then parrot_finish peer (?c\<lparr>rc_truncated := True\<rparr>) now clock (r\<lparr>re_active := mput peer (?c\<lparr>rc_truncated := True\<rparr>) (re_active r)\<rparr>)
      else (None, r\<lparr>re_active := mput peer (?c\<lparr>rc_frames := rc_frames ?c @ [frame]\<rparr>) (re_active r)\<rparr>))"
    using b(1) by (simp add: parrot_Observe_def begun_def [symmetric] Let_def current_def)
  have o: "own_frames r (log @ [(peer, frame)]) peer (rc_stream ?c) (rc_frames ?c)"
    using own_frames_more [OF b(3)] b(2) by (simp add: current_def)
  have "own_frames r (log @ [(peer, frame)]) peer (rc_stream ?c) (rc_frames ?c @ [frame])"
    if "\<not> int (length (rc_frames ?c)) \<ge> re_maxFrames r"
    using that b by (auto simp: own_frames_def frames_of_append current_def)
  then show ?thesis using o b(1) unfolding e by (auto simp: current_def)
qed

section \<open>The recorder at work\<close>

lemma own_frames_cong: "re_maxFrames r' = re_maxFrames r \<Longrightarrow> own_frames r' = own_frames r"
  by (simp add: own_frames_def fun_eq_iff)

lemma echo_ok_cong: "re_maxFrames r' = re_maxFrames r \<Longrightarrow> echo_ok r' = echo_ok r"
  by (simp add: echo_ok_def own_frames_cong [of r' r] fun_eq_iff)

lemma recorder_inv_sub:
  assumes "recorder_inv (log, r)" "mwf (re_active r')" "re_maxFrames r' = re_maxFrames r"
    and "\<And>p rec. mget (re_active r') p = Some rec \<Longrightarrow> mget (re_active r) p = Some rec"
  shows "recorder_inv (log, r')"
  using assms(1,2,3) own_frames_cong [OF assms(3)] unfolding recorder_inv_def by (auto dest!: assms(4))

lemma Observe_inv:
  assumes "recorder_inv (log, r)"
  shows "recorder_inv (log @ [(peer, frame)], snd (parrot_Observe peer frame now clock r))"
    and "fst (parrot_Observe peer frame now clock r) = Some f \<Longrightarrow> echo_ok r (log @ [(peer, frame)]) f \<and> fr_Peer f = peer"
proof -
  let ?log = "log @ [(peer, frame)]"
  have l: "recorder_inv (?log, r)" using assms own_frames_more by (auto simp: recorder_inv_def)
  have upd: "own_frames (r\<lparr>re_active := x\<rparr>) = own_frames r" for x by (rule own_frames_cong) simp
  have upe: "echo_ok (r\<lparr>re_active := x\<rparr>) = echo_ok r" for x by (rule echo_ok_cong) simp
  from Observe_cases [OF assms, of peer frame now clock]
  show "recorder_inv (?log, snd (parrot_Observe peer frame now clock r))"
  proof (elim disjE exE conjE)
    fix rec
    assume "parrot_Observe peer frame now clock r = (None, r\<lparr>re_active := mput peer rec (re_active r)\<rparr>)"
      "\<not> rc_truncated rec" "own_frames r ?log peer (rc_stream rec) (rc_frames rec)"
    then show ?thesis using l by (simp add: recorder_inv_def upd)
  next
    fix rec
    assume "parrot_Observe peer frame now clock r = parrot_finish peer rec now clock (r\<lparr>re_active := mput peer rec (re_active r)\<rparr>)"
    then show ?thesis using l by (intro recorder_inv_sub [OF l]) (auto simp: recorder_inv_def split: if_splits)
  qed
  show "echo_ok r ?log f \<and> fr_Peer f = peer" if f: "fst (parrot_Observe peer frame now clock r) = Some f"
    using Observe_cases [OF assms, of peer frame now clock]
  proof (elim disjE exE conjE)
    fix rec
    assume o: "parrot_Observe peer frame now clock r = parrot_finish peer rec now clock (r\<lparr>re_active := mput peer rec (re_active r)\<rparr>)"
      and own: "own_frames r ?log peer (rc_stream rec) (rc_frames rec)"
    show ?thesis
      using finish_echo [of "r\<lparr>re_active := mput peer rec (re_active r)\<rparr>" ?log peer rec now clock f] own f
      unfolding o by (simp add: upd upe)
  qed (use f in simp)
qed

lemma expire_cfg [simp]:
  "re_cfg (snd (expire_recordings xs now clocks r)) = re_cfg r" "re_maxFrames (snd (expire_recordings xs now clocks r)) = re_maxFrames r"
  by (induction xs arbitrary: r) (auto simp: Let_def case_prod_beta)

lemma mget_expire:
  "mget (re_active (snd (expire_recordings xs now clocks r))) k =
    (if \<exists>rec. (k, rec) \<in> set xs \<and> \<not> Sub now (rc_lastFrame rec) < pc_Silence (re_cfg r) then None else mget (re_active r) k)"
  by (induction xs arbitrary: r) (auto simp: Let_def case_prod_beta)

lemma mwf_expire: "mwf (re_active r) \<Longrightarrow> mwf (re_active (snd (expire_recordings xs now clocks r)))"
  by (induction xs arbitrary: r) (auto simp: Let_def case_prod_beta)

lemma expire_echo:
  assumes "\<And>p rec. (p, rec) \<in> set xs \<Longrightarrow> own_frames r log p (rc_stream rec) (rc_frames rec)"
    and "f \<in> set (fst (expire_recordings xs now clocks r))"
  shows "echo_ok r log f \<and> (\<exists>rec. (fr_Peer f, rec) \<in> set xs \<and> \<not> Sub now (rc_lastFrame rec) < pc_Silence (re_cfg r))"
  using assms
proof (induction xs arbitrary: r)
  case (Cons x rest)
  obtain peer rec where x: "x = (peer, rec)" by (cases x)
  let ?fin = "parrot_finish peer rec now (clocks (length rest)) r"
  have same: "own_frames (snd ?fin) = own_frames r" "echo_ok (snd ?fin) = echo_ok r"
    by (rule own_frames_cong echo_ok_cong, simp)+
  have rest: "own_frames r log p (rc_stream rec') (rc_frames rec')" if "(p, rec') \<in> set rest" for p rec'
    using Cons.prems(1) that by simp
  show ?case
  proof (cases "Sub now (rc_lastFrame rec) < pc_Silence (re_cfg r)")
    case True
    then show ?thesis using Cons.IH [of r] rest Cons.prems(2) by (auto simp: x)
  next
    case False
    have "f \<in> set (fst (expire_recordings rest now clocks (snd ?fin))) \<or> fst ?fin = Some f"
      using Cons.prems(2) False by (auto simp: x Let_def case_prod_beta split: option.splits)
    then show ?thesis
    proof
      assume "fst ?fin = Some f"
      then show ?thesis using finish_echo [of r log peer rec] Cons.prems(1) [of peer rec] False by (auto simp: x)
    next
      assume "f \<in> set (fst (expire_recordings rest now clocks (snd ?fin)))"
      then show ?thesis using Cons.IH [of "snd ?fin"] rest by (auto simp: same x)
    qed
  qed
qed simp

text \<open>The table of recordings in progress, as \<open>Expire\<close> keeps it.\<close>

lemma mget_parrot_Expire:
  "mwf (re_active r) \<Longrightarrow> mget (re_active (snd (parrot_Expire now clocks r))) k =
    (case mget (re_active r) k of None \<Rightarrow> None | Some rec \<Rightarrow>
      if pc_Silence (re_cfg r) \<le> Sub now (rc_lastFrame rec) then None else Some rec)"
  by (auto simp: parrot_Expire_def mget_expire mget_Some_iff [symmetric] not_less split: option.splits)

interpretation recordings: expiring_table "\<lambda>r. mget (re_active r)" "\<lambda>now r. snd (parrot_Expire now clocks r)"
    "\<lambda>r now k rec. pc_Silence (re_cfg r) \<le> Sub now (rc_lastFrame rec)" "\<lambda>r. mwf (re_active r)" for clocks
proof unfold_locales
  fix r now k
  show "pc_Silence (re_cfg r) \<le> Sub now' (rc_lastFrame rec)"
    if "pc_Silence (re_cfg r) \<le> Sub now (rc_lastFrame rec)" "now \<le> now'" for now' and rec :: recording
    using that by (auto simp: Sub_def)
qed (simp_all add: mget_parrot_Expire, simp_all add: mwf_expire parrot_Expire_def)

section \<open>Everything a recorder ever plays back\<close>

text \<open>A recorder with what it was given and what it has handed over to be played.\<close>

type_synonym parrot_state = "(RepeaterID \<times> hbp_data) list \<times> Recording list \<times> recorder"

inductive parrot_step :: "parrot_state \<Rightarrow> parrot_state \<Rightarrow> bool" where
  Observed: "parrot_Observe peer frame now clock r = (f, r') \<Longrightarrow>
    parrot_step (log, played, r) (log @ [(peer, frame)], played @ (case f of None \<Rightarrow> [] | Some x \<Rightarrow> [x]), r')"
| Expired: "parrot_Expire now clocks r = (fs, r') \<Longrightarrow> parrot_step (log, played, r) (log, played @ fs, r')"
| Cancelled: "parrot_step (log, played, r) (log, played, parrot_Cancel peer r)"

definition parrot_started :: "parrot_config \<Rightarrow> parrot_state \<Rightarrow> bool" where
  "parrot_started cfg = (\<lambda>(log, played, r). log = [] \<and> played = [] \<and> parrot_New cfg = Some r)"

definition parrot_inv :: "parrot_state \<Rightarrow> bool" where
  "parrot_inv = (\<lambda>(log, played, r). recorder_inv (log, r) \<and> (\<forall>f \<in> set played. echo_ok r log f))"

lemma echo_ok_more: "echo_ok r log f \<Longrightarrow> echo_ok r (log @ [(q, x)]) f"
  unfolding echo_ok_def using own_frames_more by blast

lemma Observe_maxFrames [simp]: "re_maxFrames (snd (parrot_Observe peer frame now clock r)) = re_maxFrames r"
  by (simp add: parrot_Observe_def Let_def)

lemma Expire_inv:
  assumes "recorder_inv (log, r)"
  shows "recorder_inv (log, snd (parrot_Expire now clocks r))"
    and "f \<in> set (fst (parrot_Expire now clocks r)) \<Longrightarrow> echo_ok r log f"
proof -
  have w: "mwf (re_active r)" using assms by (simp add: recorder_inv_def)
  show "recorder_inv (log, snd (parrot_Expire now clocks r))"
    by (rule recorder_inv_sub [OF assms])
      (use w in \<open>auto simp: parrot_Expire_def mwf_expire mget_expire split: if_splits\<close>)
  show "f \<in> set (fst (parrot_Expire now clocks r)) \<Longrightarrow> echo_ok r log f"
    using expire_echo [where xs = "re_active r" and r = r and log = log and f = f and now = now and clocks = clocks] assms w
    by (auto simp: parrot_Expire_def recorder_inv_def mget_Some_iff [symmetric])
qed

interpretation parrot: safe_system "parrot_started cfg" parrot_step parrot_inv for cfg
proof unfold_locales
  fix s assume "parrot_started cfg s"
  then show "parrot_inv s"
    by (auto simp: parrot_started_def parrot_inv_def recorder_inv_def parrot_New_def Let_def mwf_def
      DefaultMaxDuration_def FrameInterval_def frameHeadroom_def split: if_splits)
next
  fix s t assume "parrot_inv s" "parrot_step s t"
  show "parrot_inv t" using \<open>parrot_step s t\<close> \<open>parrot_inv s\<close>
  proof cases
    case (Observed peer frame now clock r f r' log played)
    have e: "echo_ok r' = echo_ok r" by (rule echo_ok_cong) (use Observed(3) Observe_maxFrames in \<open>metis snd_conv\<close>)
    show ?thesis
      using \<open>parrot_inv s\<close> Observed Observe_inv [where log = log and r = r and peer = peer and frame = frame and now = now and clock = clock] echo_ok_more
      by (auto simp: parrot_inv_def e split: option.splits)
  next
    case (Expired now clocks r fs r' log played)
    have e: "echo_ok r' = echo_ok r"
      by (rule echo_ok_cong) (use Expired(3) in \<open>metis snd_conv parrot_Expire_def expire_cfg(2)\<close>)
    show ?thesis
      using \<open>parrot_inv s\<close> Expired Expire_inv [where log = log and r = r and now = now and clocks = clocks] by (auto simp: parrot_inv_def e)
  next
    case (Cancelled log played r peer)
    have e: "echo_ok (parrot_Cancel peer r) = echo_ok r" by (rule echo_ok_cong) (simp add: parrot_Cancel_def)
    have "recorder_inv (log, parrot_Cancel peer r)" if "recorder_inv (log, r)"
      by (rule recorder_inv_sub [OF that]) (use that in \<open>auto simp: parrot_Cancel_def recorder_inv_def split: if_splits\<close>)
    then show ?thesis using \<open>parrot_inv s\<close> Cancelled by (auto simp: parrot_inv_def e)
  qed
qed

text \<open>
  C16: whatever frames, sweeps and cancellations a recorder sees, in any order, every recording it ever hands over goes
  back to the peer that made it and holds frames of one transmission of that peer only, in the order they
  came and no more of them than the limit of the configuration, under one stream ID and numbered from
  zero, with nothing else in them changed.
\<close>

theorem parrot_echoes_own_voice:
  assumes "reachable (parrot_started cfg) parrot_step (log, played, r)" "rec \<in> set played"
  shows "\<exists>fs stream new. fs \<noteq> [] \<and> subseq fs (map snd (filter (\<lambda>x. fst x = fr_Peer rec) log)) \<and>
    (\<forall>f \<in> set fs. d_StreamID f = stream) \<and> int (length fs) \<le> re_maxFrames r \<and> fr_Frames rec = renumber new fs"
proof -
  have "echo_ok r log rec" using parrot.reachable_inv [OF assms(1)] assms(2) by (simp add: parrot_inv_def)
  then show ?thesis unfolding echo_ok_def own_frames_def frames_of_def by blast
qed

section \<open>The player at work\<close>

datatype player_event = EvStart Recording | EvStop RepeaterID | EvTick nat time bool | EvDone nat

text \<open>What happens to a player, and the frames it delivers with the replay each belongs to.\<close>

fun happens :: "player_event \<Rightarrow> player \<Rightarrow> (nat \<times> RepeaterID \<times> hbp_data) list \<times> player" where
  "happens (EvStart rec) p = ([], player_Start rec p)"
| "happens (EvStop peer) p = ([], player_Stop peer p)"
| "happens (EvTick gen now ok) p = (case play_tick gen now ok p of (out, p) \<Rightarrow> (map (Pair gen) out, p))"
| "happens (EvDone gen) p = ([], play_done gen p)"

fun player_run :: "player_event list \<Rightarrow> player \<Rightarrow> (nat \<times> RepeaterID \<times> hbp_data) list \<times> player" where
  "player_run [] p = ([], p)"
| "player_run (e # es) p =
     (let (out, p) = happens e p; (out', p) = player_run es p in (out @ out', p))"

fun leaves_alone :: "RepeaterID \<Rightarrow> player_event \<Rightarrow> bool" where
  "leaves_alone peer (EvStart rec) \<longleftrightarrow> fr_Peer rec \<noteq> peer"
| "leaves_alone peer (EvStop q) \<longleftrightarrow> q \<noteq> peer"
| "leaves_alone peer _ \<longleftrightarrow> True"

fun due_tick :: "nat \<Rightarrow> Recording \<Rightarrow> player_event \<Rightarrow> bool" where
  "due_tick gen rec (EvTick g now ok) \<longleftrightarrow> g = gen \<and> fr_PlayAt rec \<le> now"
| "due_tick gen rec _ \<longleftrightarrow> False"

definition heard_from :: "nat \<Rightarrow> (nat \<times> RepeaterID \<times> hbp_data) list \<Rightarrow> (RepeaterID \<times> hbp_data) list" where
  "heard_from gen out = map snd (filter (\<lambda>x. fst x = gen) out)"

lemma heard_from_simps [simp]:
  "heard_from gen [] = []" "heard_from gen ((g, x) # out) = (if g = gen then x # heard_from gen out else heard_from gen out)"
  by (simp_all add: heard_from_def)

lemma heard_from_append [simp]: "heard_from gen (a @ b) = heard_from gen a @ heard_from gen b"
  by (simp add: heard_from_def)

lemma heard_from_tick [simp]: "heard_from gen (map (Pair g) out) = (if g = gen then out else [])"
  by (simp add: heard_from_def filter_map o_def map_idI)

definition player_wf :: "player \<Rightarrow> bool" where
  "player_wf p \<longleftrightarrow> (\<forall>q g. mget (pl_running p) q = Some g \<longrightarrow> g \<le> pl_generation p)"

text \<open>The replay \<open>gen\<close> of \<open>rec\<close> has \<open>n\<close> frames behind it and at least one to go; and one that is over.\<close>

definition playing :: "nat \<Rightarrow> Recording \<Rightarrow> nat \<Rightarrow> player \<Rightarrow> bool" where
  "playing gen rec n p \<longleftrightarrow> n < length (fr_Frames rec) \<and> gen \<le> pl_generation p \<and>
     (\<forall>q. mget (pl_running p) q = Some gen \<longleftrightarrow> q = fr_Peer rec) \<and>
     (\<exists>sent. mget (pl_replays p) gen = Some \<lparr>rp_rec = rec, rp_left = drop n (fr_Frames rec), rp_sent = sent, rp_cancelled = False\<rparr>)"

definition play_over :: "nat \<Rightarrow> Recording \<Rightarrow> player \<Rightarrow> bool" where
  "play_over gen rec p \<longleftrightarrow> gen \<le> pl_generation p \<and> mget (pl_replays p) gen = None \<and> \<not> player_Busy (fr_Peer rec) p"

lemmas player_defs = player_Stop_def player_Start_def play_tick_def play_done_def play_finished_def play_exit_def
  player_Busy_def Let_def

lemma event_wf: "player_wf p \<Longrightarrow> player_wf (snd (happens e p))"
  by (cases e) (fastforce simp: player_wf_def player_defs split: option.splits list.splits if_splits)+

lemma run_wf: "player_wf p \<Longrightarrow> player_wf (snd (player_run es p))"
  by (induction es arbitrary: p) (auto simp: case_prod_beta Let_def event_wf)

lemma Start_playing: "player_wf p \<Longrightarrow> fr_Frames rec \<noteq> [] \<Longrightarrow> playing (Suc (pl_generation p)) rec 0 (player_Start rec p)"
  by (fastforce simp: player_wf_def playing_def player_defs split: option.splits)

lemma event_over:
  "play_over gen rec p \<Longrightarrow> leaves_alone (fr_Peer rec) e \<Longrightarrow>
    play_over gen rec (snd (happens e p)) \<and> heard_from gen (fst (happens e p)) = []"
  by (cases e) (auto simp: play_over_def player_defs heard_from_def split: option.splits list.splits if_splits)

lemma event_playing:
  assumes "playing gen rec n p" "leaves_alone (fr_Peer rec) e"
  shows "if due_tick gen rec e
    then heard_from gen (fst (happens e p)) = [(fr_Peer rec, (fr_Frames rec ! n)\<lparr>d_RepeaterID := fr_Peer rec\<rparr>)] \<and>
      (if Suc n < length (fr_Frames rec) then playing gen rec (Suc n) (snd (happens e p)) else play_over gen rec (snd (happens e p)))
    else heard_from gen (fst (happens e p)) = [] \<and> playing gen rec n (snd (happens e p))"
proof (cases e)
  case (EvTick g now ok)
  obtain sent where left: "n < length (fr_Frames rec)"
    and r: "mget (pl_replays p) gen = Some \<lparr>rp_rec = rec, rp_left = drop n (fr_Frames rec), rp_sent = sent, rp_cancelled = False\<rparr>"
    and run: "\<And>q. mget (pl_running p) q = Some gen \<longleftrightarrow> q = fr_Peer rec" and le: "gen \<le> pl_generation p"
    using assms(1) by (auto simp: playing_def)
  show ?thesis
  proof (cases "g = gen")
    case True
    have d: "drop n (fr_Frames rec) = fr_Frames rec ! n # drop (Suc n) (fr_Frames rec)"
      using left by (rule Cons_nth_drop_Suc [symmetric])
    show ?thesis unfolding EvTick True using assms(1) left le run
      by (auto simp: playing_def play_over_def player_defs r d)
  next
    case False
    then have "mget (pl_running p) (fr_Peer rec) \<noteq> Some g" using run by (metis option.inject)
    with False show ?thesis unfolding EvTick using assms(1)
      by (auto simp: playing_def player_defs split: option.splits list.splits)
  qed
next
  case (EvDone g)
  have "mget (pl_running p) (fr_Peer rec) = Some gen" using assms(1) by (simp add: playing_def)
  then have "mget (pl_running p) (fr_Peer rec) \<noteq> Some g" if "g \<noteq> gen" using that by simp
  then show ?thesis unfolding EvDone using assms by (cases "g = gen") (auto simp: playing_def player_defs split: option.splits)
qed (use assms in \<open>auto simp: playing_def player_defs heard_from_def split: option.splits\<close>)

lemma run_over:
  assumes "play_over gen rec p" "list_all (leaves_alone (fr_Peer rec)) es"
  shows "play_over gen rec (snd (player_run es p)) \<and> heard_from gen (fst (player_run es p)) = []"
  using assms by (induction es arbitrary: p) (auto simp: case_prod_beta Let_def event_over)

lemma run_playing:
  assumes "playing gen rec n p" "list_all (leaves_alone (fr_Peer rec)) es"
    "length (fr_Frames rec) - n \<le> length (filter (due_tick gen rec) es)"
  shows "heard_from gen (fst (player_run es p)) = map (\<lambda>f. (fr_Peer rec, f\<lparr>d_RepeaterID := fr_Peer rec\<rparr>)) (drop n (fr_Frames rec)) \<and>
    play_over gen rec (snd (player_run es p))"
  using assms
proof (induction es arbitrary: n p)
  case Nil
  then show ?case by (simp add: playing_def)
next
  case (Cons e es)
  note ev = event_playing [OF Cons.prems(1), of e]
  have d: "drop n (fr_Frames rec) = fr_Frames rec ! n # drop (Suc n) (fr_Frames rec)"
    using Cons.prems(1) by (simp add: playing_def Cons_nth_drop_Suc)
  have run: "fst (player_run (e # es) p) = fst (happens e p) @ fst (player_run es (snd (happens e p)))"
    "snd (player_run (e # es) p) = snd (player_run es (snd (happens e p)))"
    by (simp_all add: case_prod_beta Let_def)
  show ?case
  proof (cases "due_tick gen rec e \<and> \<not> Suc n < length (fr_Frames rec)")
    case True
    then show ?thesis using ev run_over [of gen rec "snd (happens e p)" es] Cons.prems unfolding run d by simp
  next
    case False
    then show ?thesis using ev Cons.IH [of "if due_tick gen rec e then Suc n else n" "snd (happens e p)"] Cons.prems
      unfolding run by (auto simp: d split: if_splits)
  qed
qed

text \<open>
  C15: a replay ends.  In any player that ever was, a replay is started for a peer; whatever happens next, the ticks
  and ends of other replays, starts and stops for other peers, failing deliveries: once the replay has had as many
  ticks after its starting time as it has frames, it has delivered each frame exactly once and in order to
  that peer under the peer's own ID, its goroutine is gone and the player is no longer busy with the peer.
\<close>

theorem replay_ends:
  assumes "fr_Frames rec \<noteq> []" "list_all (leaves_alone (fr_Peer rec)) es"
    and "gen = Suc (pl_generation (snd (player_run before NewPlayer)))"
    and "length (fr_Frames rec) \<le> length (filter (due_tick gen rec) es)"
    and "player_run es (player_Start rec (snd (player_run before NewPlayer))) = (out, p)"
  shows "heard_from gen out = map (\<lambda>f. (fr_Peer rec, f\<lparr>d_RepeaterID := fr_Peer rec\<rparr>)) (fr_Frames rec) \<and>
    mget (pl_replays p) gen = None \<and> \<not> player_Busy (fr_Peer rec) p"
proof -
  have "player_wf (snd (player_run before NewPlayer))" by (rule run_wf) (simp add: player_wf_def NewPlayer_def)
  from run_playing [OF Start_playing [OF this assms(1)] assms(2)] assms(3-) show ?thesis
    by (simp add: play_over_def)
qed

section \<open>A recording, made and played\<close>

definition parrot_demo_cfg :: parrot_config where
  "parrot_demo_cfg = \<lparr>pc_Talkgroup = 9990, pc_Timeslot = Timeslot2, pc_MaxDuration = 0, pc_Gap = 0, pc_Silence = 0\<rparr>"

definition parrot_demo_frame :: "byte \<Rightarrow> hbp_data" where
  "parrot_demo_frame n = \<lparr>d_Sequence = n, d_SourceID = 3100001, d_TargetID = 9990, d_RepeaterID = 310999,
     d_Timeslot = Timeslot2, d_CallType = CallGroup, d_FrameType = FrameTypeVoice, d_DataType = n,
     d_StreamID = 77, d_Payload = [n], d_Trailing = []\<rparr>"

definition parrot_demo_states :: "parrot_state list" where
  "parrot_demo_states = (let r0 = the (parrot_New parrot_demo_cfg);
       (f1, r1) = parrot_Observe 1 (parrot_demo_frame 4) second second r0;
       (fs, r2) = parrot_Expire (9 * second) (\<lambda>_. 9 * second) r1
     in [([], [], r0), ([(1, parrot_demo_frame 4)], [], r1), ([(1, parrot_demo_frame 4)], fs, r2)])"

text \<open>One frame is recorded, the peer falls silent, and the recording is handed over.\<close>

lemma parrot_demo_reachable:
  "reachable (parrot_started parrot_demo_cfg) parrot_step (parrot_demo_states ! 2)" (is ?R)
  "fst (snd (parrot_demo_states ! 2)) \<noteq> []" (is ?P)
proof -
  let ?r0 = "the (parrot_New parrot_demo_cfg)"
  let ?o = "parrot_Observe 1 (parrot_demo_frame 4) second second ?r0"
  have n: "parrot_New parrot_demo_cfg = Some ?r0" by (simp add: parrot_New_def parrot_demo_cfg_def Let_def)
  have o: "?o = (None, ?r0\<lparr>re_active := [(1, \<lparr>rc_stream = 77, rc_frames = [parrot_demo_frame 4], rc_startedAt = second,
      rc_lastFrame = second, rc_truncated = False\<rparr>)]\<rparr>)"
    by (simp add: parrot_Observe_def parrot_New_def parrot_demo_cfg_def parrot_demo_frame_def Let_def Sub_def mput_def
      DefaultMaxDuration_def FrameInterval_def frameHeadroom_def minDuration_def maxDuration_def)
  have "reachable (parrot_started parrot_demo_cfg) parrot_step ([], [], ?r0)"
    by (rule reachable.intros) (use n in \<open>unfold parrot_started_def, blast\<close>)
  then have "reachable (parrot_started parrot_demo_cfg) parrot_step ([(1, parrot_demo_frame 4)], [], snd ?o)"
    by (rule reachable.intros) (use parrot_step.Observed [OF o, of "[]" "[]"] o in simp)
  then show ?R
    by (rule reachable.intros)
      (use parrot_step.Expired [OF prod.collapse [symmetric], where now = "9 * second" and clocks = "\<lambda>_. 9 * second" and r = "snd ?o"
          and log = "[(1, parrot_demo_frame 4)]" and played = "[]"]
        in \<open>simp add: parrot_demo_states_def case_prod_beta Let_def\<close>)
  show ?P
    by (simp add: parrot_demo_states_def parrot_Observe_def parrot_demo_frame_def frameHeadroom_def FrameInterval_def parrot_Expire_def parrot_finish_def nextStream_def case_prod_beta Let_def Sub_def
      parrot_New_def parrot_demo_cfg_def DefaultMaxDuration_def minDuration_def maxDuration_def calls_StreamTimeout_def)
qed

theorem parrot_echoes_own_voice_witness:
  "\<exists>log played r rec fs new. reachable (parrot_started parrot_demo_cfg) parrot_step (log, played, r) \<and> rec \<in> set played \<and>
    fs \<noteq> [] \<and> subseq fs (map snd (filter (\<lambda>x. fst x = fr_Peer rec) log)) \<and> fr_Frames rec = renumber new fs"
proof -
  obtain log played r where s: "parrot_demo_states ! 2 = (log, played, r)" by (cases "parrot_demo_states ! 2")
  from parrot_demo_reachable have r: "reachable (parrot_started parrot_demo_cfg) parrot_step (log, played, r)" "hd played \<in> set played"
    by (simp_all add: s)
  from parrot_echoes_own_voice [OF r] r show ?thesis by blast
qed

definition parrot_demo_rec :: Recording where
  "parrot_demo_rec = \<lparr>fr_Peer = 1, fr_Frames = renumber 5 [parrot_demo_frame 0, parrot_demo_frame 1], fr_Truncated = False,
     fr_Duration = second, fr_PlayAt = 10 * second\<rparr>"

definition parrot_demo_run :: "(nat \<times> RepeaterID \<times> hbp_data) list \<times> player" where
  "parrot_demo_run = player_run [EvTick 1 second True, EvTick 1 (11 * second) True, EvStop 2, EvTick 1 (12 * second) False]
     (player_Start parrot_demo_rec NewPlayer)"

theorem replay_ends_witness:
  "map fst (heard_from 1 (fst parrot_demo_run)) = [1, 1] \<and> \<not> player_Busy 1 (snd parrot_demo_run)"
proof -
  have d: "fr_Peer parrot_demo_rec = 1" "fr_PlayAt parrot_demo_rec = 10 * second" "length (fr_Frames parrot_demo_rec) = 2"
    "map (\<lambda>f. (1, f\<lparr>d_RepeaterID := 1\<rparr>)) (fr_Frames parrot_demo_rec) \<noteq> []"
    by (simp_all add: parrot_demo_rec_def renumber_def)
  have "fr_Frames parrot_demo_rec \<noteq> []" using d(3) by auto
  from replay_ends [OF this, of "[EvTick 1 second True, EvTick 1 (11 * second) True, EvStop 2, EvTick 1 (12 * second) False]"
      1 "[]" "fst parrot_demo_run" "snd parrot_demo_run"] d
  show ?thesis by (simp add: parrot_demo_run_def NewPlayer_def numeral_2_eq_2 map_replicate_const o_def)
qed

end
