(* ===== verification/Ipsc_Link.thy ===== *)
theory Ipsc_Link
  imports Ipsc_Encode Parrot
begin

text \<open>
  \<^verbatim>\<open>internal/ipsclink\<close>: the listener that Motorola repeaters talk to (\<^verbatim>\<open>listener.go\<close>, \<^verbatim>\<open>parrot.go\<close>).
  It answers registrations and keepalives, follows each repeater with a converter of its own, keeps the record
  of the call each one carries, hands converted frames to the console, to the parrot and to routing, and sends
  frames of the network to the repeaters through one encoder each.  The socket is a function from an address and
  a datagram to the error of the write, if any; what a call writes is the list it returns.  Readings of the
  clock other than the time a handler is given are arguments, one for each repeater a frame is sent to.  Counters are natural numbers; log lines are left
  out, and what decides whether one is written is kept, because it is state.  The lemmas show that everything
  kept for a repeater goes when the repeater goes, that a sweep leaves no repeater and no call beyond its
  time, that a repeater off the allow list moves nothing, and that a targeted transmission does not start
  over one that holds the timeslot.
\<close>

section \<open>State\<close>

record ipsc_call =
  ic_StreamID :: u16
  ic_Source :: u32
  ic_Destination :: u32
  ic_Private :: bool
  ic_Timeslot :: Timeslot
  ic_Started :: time
  ic_Ended :: time
  ic_LastFrame :: time
  ic_Frames :: nat
  ic_Converted :: nat
  ic_Delivered :: nat
  ic_Lost :: bool

record ipsc_peer =
  ip_RadioID :: u32
  ip_Address :: string
  ip_FirstHeard :: time
  ip_Registered :: time
  ip_LastHeard :: time
  ip_Keepalives :: nat
  ip_VoiceFrames :: nat
  ip_TextFrames :: nat
  ip_LastCall :: "ipsc_call option"
  ip_ColourCode :: byte
  ip_ColourCodeKnown :: bool

text \<open>The callbacks of the configuration are there or not; what they are given is output of the listener.\<close>

record ipsc_link_config =
  lc_ListenAddress :: string
  lc_MasterID :: u32
  lc_AllowedPeers :: "u32 list"
  lc_PeerNames :: "(u32, string) gomap"
  lc_PeerTimeout :: duration
  lc_Parrot :: "recorder option"
  lc_Observe :: bool
  lc_Deliver :: bool
  lc_Bridge :: bridge_config

definition ipsc_DefaultPeerTimeout :: duration where "ipsc_DefaultPeerTimeout = 50 * second"
definition ipsc_CallTimeout :: duration where "ipsc_CallTimeout = calls_StreamTimeout"
definition MaxCallDuration :: duration where "MaxCallDuration = 4 * minute"
definition SlotHold :: duration where "SlotHold = second"
definition RefusalWindow :: duration where "RefusalWindow = 60 * second"
definition refusalWindow :: duration where "refusalWindow = 10 * second"
definition maxRefusals :: nat where "maxRefusals = 64"

text \<open>What a rate-limited warning is about, in place of the strings the code builds.\<close>

datatype say_key =
    SayUnparsed u32 "nat + byte"
  | SayRefused u32 ipsc_kind
  | SayNoRelay u32 FrameType byte
  | SaySend string string

record ipsc_listener =
  il_cfg :: ipsc_link_config
  il_allowed :: "u32 list"
  il_peerNames :: "(u32, string) gomap"
  il_relayed :: "(u32, StreamID) gomap"
  il_slots :: "(u32 \<times> Timeslot, StreamID \<times> time) gomap"
  il_serving :: bool
  il_peers :: "(u32, ipsc_peer) gomap"
  il_bridges :: "(u32, converter) gomap"
  il_encoders :: "(u32, encoder) gomap"
  il_recorder :: "recorder option"
  il_player :: "player option"
  il_snapshot :: "ipsc_peer list"
  il_ignored :: nat
  il_refused :: "(u32 \<times> time) option"
  il_refusals :: "(say_key, time) gomap"
  il_unparsed :: nat
  il_panics :: nat

datatype ipsc_config_error = NoListenAddress | NoMasterID | PeerIsMaster u32

definition ipsc_Validate :: "ipsc_link_config \<Rightarrow> ipsc_config_error option" where
  "ipsc_Validate c =
     (if lc_ListenAddress c = [] then Some NoListenAddress
      else if lc_MasterID c = 0 then Some NoMasterID
      else if lc_MasterID c \<in> set (lc_AllowedPeers c) then Some (PeerIsMaster (lc_MasterID c))
      else None)"

definition SetAllowedPeers :: "u32 list \<Rightarrow> ipsc_listener \<Rightarrow> ipsc_listener" where
  "SetAllowedPeers allowed l = l\<lparr>il_allowed := remdups allowed\<rparr>"

definition SetPeerNames :: "(u32, string) gomap \<Rightarrow> ipsc_listener \<Rightarrow> ipsc_listener" where
  "SetPeerNames names l = l\<lparr>il_peerNames := names\<rparr>"

definition PeerName :: "u32 \<Rightarrow> ipsc_listener \<Rightarrow> string" where
  "PeerName pid l = (case mget (il_peerNames l) pid of Some name \<Rightarrow> name | None \<Rightarrow> [])"

definition ipsc_publish :: "ipsc_listener \<Rightarrow> ipsc_listener" where
  "ipsc_publish l = l\<lparr>il_snapshot := map snd (il_peers l)\<rparr>"

definition ipsclink_New :: "ipsc_link_config \<Rightarrow> ipsc_listener option" where
  "ipsclink_New cfg =
     (if ipsc_Validate cfg \<noteq> None then None
      else
        let cfg = (if lc_PeerTimeout cfg = 0 then cfg\<lparr>lc_PeerTimeout := ipsc_DefaultPeerTimeout\<rparr> else cfg)
        in if lc_Deliver cfg \<and> ipscbridge_New (lc_Bridge cfg) = None then None
           else Some (ipsc_publish (SetPeerNames (lc_PeerNames cfg) (SetAllowedPeers (lc_AllowedPeers cfg)
             \<lparr>il_cfg = cfg, il_allowed = [], il_peerNames = [], il_relayed = [], il_slots = [], il_serving = False,
              il_peers = [], il_bridges = [], il_encoders = [], il_recorder = lc_Parrot cfg, il_player = None, il_snapshot = [],
              il_ignored = 0, il_refused = None, il_refusals = [], il_unparsed = 0, il_panics = 0\<rparr>))))"

text \<open>\<open>Start\<close> once the socket is bound.\<close>

definition ipsc_Start :: "ipsc_listener \<Rightarrow> ipsc_listener" where
  "ipsc_Start l = l\<lparr>il_serving := True, il_player := (if il_recorder l \<noteq> None then Some NewPlayer else None)\<rparr>"

section \<open>Calls\<close>

datatype ipsc_endReason = EndTerminated | EndSilent | EndTooLong

definition endCall :: "time \<Rightarrow> ipsc_endReason \<Rightarrow> ipsc_peer \<Rightarrow> ipsc_peer" where
  "endCall at reason p = (case ip_LastCall p of
      None \<Rightarrow> p
    | Some c \<Rightarrow> if ic_Ended c \<noteq> 0 then p
        else p\<lparr>ip_LastCall := Some (c\<lparr>ic_Ended := at, ic_Lost := (reason \<noteq> EndTerminated)\<rparr>)\<rparr>)"

text \<open>The sweep of one repeater's call: the repeater after it, and the timeslot to forget if the call was closed.\<close>

definition expire_peer_call :: "time \<Rightarrow> ipsc_peer \<Rightarrow> (ipsc_peer \<times> Timeslot) option" where
  "expire_peer_call now p = (case ip_LastCall p of
      None \<Rightarrow> None
    | Some c \<Rightarrow>
        if ic_Ended c \<noteq> 0 then None
        else if Sub now (ic_Started c) > MaxCallDuration then Some (endCall now EndTooLong p, ic_Timeslot c)
        else if Sub now (ic_LastFrame c) > ipsc_CallTimeout then Some (endCall (ic_LastFrame c) EndSilent p, ic_Timeslot c)
        else None)"

fun expire_calls :: "(u32 \<times> ipsc_peer) list \<Rightarrow> time \<Rightarrow> ipsc_listener \<Rightarrow> nat \<times> ipsc_listener" where
  "expire_calls [] now l = (0, l)"
| "expire_calls ((pid, p) # rest) now l = (case expire_peer_call now p of
      None \<Rightarrow> expire_calls rest now l
    | Some (p', slot) \<Rightarrow>
        let l = l\<lparr>il_peers := mput pid p' (il_peers l)\<rparr>;
            l = (case mget (il_bridges l) (ip_RadioID p) of
                Some conv \<Rightarrow> l\<lparr>il_bridges := mput (ip_RadioID p) (bridge_Forget slot conv) (il_bridges l)\<rparr>
              | None \<Rightarrow> l);
            (closed, l) = expire_calls rest now l
        in (closed + 1, l))"

definition ExpireCallsAt :: "time \<Rightarrow> ipsc_listener \<Rightarrow> nat \<times> ipsc_listener" where
  "ExpireCallsAt now l =
     (let (closed, l) = expire_calls (il_peers l) now l
      in (closed, if closed > 0 then ipsc_publish l else l))"

section \<open>Sending to repeaters\<close>

definition claimSlot :: "u32 \<Rightarrow> hbp_data \<Rightarrow> time \<Rightarrow> ipsc_listener \<Rightarrow> bool \<times> ipsc_listener" where
  "claimSlot peer frame now l =
     (let k = (peer, d_Timeslot frame) in
      if (case mget (il_slots l) k of None \<Rightarrow> False
          | Some (stream, at) \<Rightarrow> stream \<noteq> d_StreamID frame \<and> Sub now at < SlotHold) then (True, l)
      else if IsTerminator frame then (False, l\<lparr>il_slots := mdel k (il_slots l)\<rparr>)
      else (False, l\<lparr>il_slots := mput k (d_StreamID frame, now) (il_slots l)\<rparr>))"

definition shouldSay :: "say_key \<Rightarrow> time \<Rightarrow> ipsc_listener \<Rightarrow> bool \<times> ipsc_listener" where
  "shouldSay key now l =
     (if (case mget (il_refusals l) key of None \<Rightarrow> False | Some at \<Rightarrow> Sub now at < refusalWindow) then (False, l)
      else
        let m = il_refusals l;
            m = (if length m \<ge> maxRefusals then
                   let m = filter (\<lambda>(k, at). \<not> Sub now at \<ge> refusalWindow) m
                   in if length m \<ge> maxRefusals then [] else m
                 else m)
        in (True, l\<lparr>il_refusals := mput key now m\<rparr>))"

text \<open>A frame through the encoder of one repeater, which is made when it is first needed.\<close>

definition encode_for :: "u32 \<Rightarrow> ipsc_peer \<Rightarrow> hbp_data \<Rightarrow> time \<Rightarrow> ipsc_listener \<Rightarrow> (ipsc_message list \<times> bool) \<times> ipsc_listener" where
  "encode_for pid p frame now l =
     (let enc = (case mget (il_encoders l) pid of
            Some enc \<Rightarrow> enc | None \<Rightarrow> NewEncoder (lc_MasterID (il_cfg l)) (lc_Bridge (il_cfg l)));
          enc = (if ip_ColourCodeKnown p then SetColourCode (ip_ColourCode p) enc else enc);
          (r, enc) = Encoder_Encode frame now enc
      in (r, l\<lparr>il_encoders := mput pid enc (il_encoders l)\<rparr>))"

type_synonym socket = "string \<Rightarrow> byte list \<Rightarrow> string option"

text \<open>
  \<open>SendVoice\<close> in its two parts: under the lock, what is to go to each repeater and which repeaters a warning
  is due for; then the warnings and the writes, each repeater's messages up to the first that fails.
\<close>

fun relay_to :: "(u32 \<times> ipsc_peer) list \<Rightarrow> u32 \<Rightarrow> hbp_data \<Rightarrow> (u32 \<Rightarrow> time) \<Rightarrow> ipsc_listener \<Rightarrow>
    (string \<times> ipsc_message list) list \<times> u32 list \<times> ipsc_listener" where
  "relay_to [] origin frame clock l = ([], [], l)"
| "relay_to ((pid, p) # rest) origin frame clock l =
     (if pid = origin \<or> ip_Address p = [] then relay_to rest origin frame clock l
      else
        let first = (mget (il_relayed l) pid \<noteq> Some (d_StreamID frame) \<and>
              \<not> (mget (il_relayed l) pid = None \<and> d_StreamID frame = 0));
            l = l\<lparr>il_relayed := mput pid (d_StreamID frame) (il_relayed l)\<rparr>;
            (_, l) = claimSlot pid frame (clock pid) l;
            ((msgs, understood), l) = encode_for pid p frame (clock pid) l;
            (batch, unread, l) = relay_to rest origin frame clock l
        in (if msgs \<noteq> [] then (ip_Address p, msgs) # batch else batch,
            if msgs = [] \<and> \<not> understood \<and> first then pid # unread else unread, l))"

definition say_unread :: "u32 list \<Rightarrow> hbp_data \<Rightarrow> time \<Rightarrow> ipsc_listener \<Rightarrow> ipsc_listener" where
  "say_unread unread frame now l =
     fold (\<lambda>pid l. snd (shouldSay (SayNoRelay pid (d_FrameType frame) (d_DataType frame)) now l)) unread l"

definition write_batch :: "socket \<Rightarrow> string \<Rightarrow> ipsc_message list \<Rightarrow> (string \<times> byte list) list \<times> string option" where
  "write_batch write addr msgs =
     (map (\<lambda>m. (addr, ipsc_Marshal m)) (takeWhile (\<lambda>m. write addr (ipsc_Marshal m) = None) msgs),
      case dropWhile (\<lambda>m. write addr (ipsc_Marshal m) = None) msgs of [] \<Rightarrow> None | m # _ \<Rightarrow> write addr (ipsc_Marshal m))"

fun write_batches :: "socket \<Rightarrow> time \<Rightarrow> (string \<times> ipsc_message list) list \<Rightarrow> ipsc_listener \<Rightarrow> (string \<times> byte list) list \<times> ipsc_listener" where
  "write_batches write now [] l = ([], l)"
| "write_batches write now ((addr, msgs) # rest) l =
     (let (sent, err) = write_batch write addr msgs;
          l = (case err of Some e \<Rightarrow> snd (shouldSay (SaySend addr e) now l) | None \<Rightarrow> l);
          (more, l) = write_batches write now rest l
      in (sent @ more, l))"

definition SendVoice :: "u32 \<Rightarrow> hbp_data \<Rightarrow> (u32 \<Rightarrow> time) \<Rightarrow> time \<Rightarrow> socket \<Rightarrow> ipsc_listener \<Rightarrow>
    (string \<times> byte list) list \<times> ipsc_listener" where
  "SendVoice origin frame clock now write l =
     (if \<not> il_serving l then ([], l)
      else
        let (batch, unread, l) = relay_to (il_peers l) origin frame clock l
        in write_batches write now batch (say_unread unread frame now l))"

datatype ipsc_send_error = ErrNotServing | ErrNoSuchPeer | ErrSlotBusy | WriteError string

definition SendVoiceTo :: "u32 \<Rightarrow> hbp_data \<Rightarrow> time \<Rightarrow> socket \<Rightarrow> ipsc_listener \<Rightarrow>
    (ipsc_send_error option \<times> (string \<times> byte list) list) \<times> ipsc_listener" where
  "SendVoiceTo target frame now write l =
     (if \<not> il_serving l then ((Some ErrNotServing, []), l)
      else case mget (il_peers l) target of
          None \<Rightarrow> ((Some ErrNoSuchPeer, []), l)
        | Some p \<Rightarrow>
            if ip_Address p = [] then ((Some ErrNoSuchPeer, []), l)
            else
              let (busy, l) = claimSlot target frame now l in
              if busy then ((Some ErrSlotBusy, []), l)
              else
                let ((msgs, _), l) = encode_for target p frame now l;
                    (sent, err) = write_batch write (ip_Address p) msgs
                in ((map_option WriteError err, sent), l))"

section \<open>Receiving from repeaters\<close>

definition converterFor :: "u32 \<Rightarrow> ipsc_listener \<Rightarrow> converter option \<times> ipsc_listener" where
  "converterFor pid l = (case mget (il_bridges l) pid of
      Some c \<Rightarrow> (Some c, l)
    | None \<Rightarrow> (case ipscbridge_New (lc_Bridge (il_cfg l)) of
        None \<Rightarrow> (None, l)
      | Some c \<Rightarrow> (Some c, l\<lparr>il_bridges := mput pid c (il_bridges l)\<rparr>)))"

definition learn_colour :: "byte \<Rightarrow> ipsc_peer \<Rightarrow> ipsc_peer" where
  "learn_colour cc p =
     (if \<not> ip_ColourCodeKnown p \<or> ip_ColourCode p \<noteq> cc
      then p\<lparr>ip_ColourCode := cc, ip_ColourCodeKnown := True\<rparr> else p)"

text \<open>A call that is still open when another takes its place is ended, at its last frame.\<close>

definition supersede_call :: "ipsc_peer \<Rightarrow> ipsc_peer" where
  "supersede_call p = (case ip_LastCall p of
      Some prev \<Rightarrow> if ic_Ended prev = 0 then endCall (ic_LastFrame prev) EndSilent p else p
    | None \<Rightarrow> p)"

definition call_slot :: "converter option \<Rightarrow> ipsc_message \<Rightarrow> Timeslot" where
  "call_slot conv msg = (case conv of Some c \<Rightarrow> message_Timeslot (cv_cfg c) msg | None \<Rightarrow> Timeslot1)"

definition recordText :: "ipsc_peer \<Rightarrow> ipsc_message \<Rightarrow> time \<Rightarrow> ipsc_listener \<Rightarrow> ipsc_peer \<times> ipsc_listener" where
  "recordText p msg now l = (case AsText msg of
      None \<Rightarrow> (p, l)
    | Some t \<Rightarrow>
        let p = learn_colour (tx_ColourCode t) p in
        case (case ip_LastCall p of
            Some c \<Rightarrow> if ic_StreamID c = tx_StreamID t \<and> ic_Ended c \<noteq> 0 then Some c else None
          | None \<Rightarrow> None) of
          Some c \<Rightarrow> (p\<lparr>ip_LastCall := Some (c\<lparr>ic_Frames := ic_Frames c + 1, ic_LastFrame := now\<rparr>)\<rparr>, l)
        | None \<Rightarrow>
            let p = supersede_call p;
                (conv, l) = converterFor (ip_RadioID p) l
            in (p\<lparr>ip_LastCall := Some \<lparr>ic_StreamID = tx_StreamID t, ic_Source = tx_Source t, ic_Destination = tx_Destination t,
                  ic_Private = tx_Private t, ic_Timeslot = call_slot conv msg, ic_Started = now, ic_Ended = now,
                  ic_LastFrame = now, ic_Frames = 1, ic_Converted = 0, ic_Delivered = 0, ic_Lost = False\<rparr>\<rparr>, l))"

definition start_call :: "ipsc_voice \<Rightarrow> Timeslot \<Rightarrow> time \<Rightarrow> ipsc_call" where
  "start_call v slot now =
     \<lparr>ic_StreamID = vo_StreamID v, ic_Source = vo_SourceID v, ic_Destination = vo_Destination v, ic_Private = vo_Private v,
      ic_Timeslot = slot, ic_Started = now, ic_Ended = 0, ic_LastFrame = now, ic_Frames = 0, ic_Converted = 0,
      ic_Delivered = 0, ic_Lost = False\<rparr>"

text \<open>The call a voice frame belongs to: the open one under the same stream ID, or a new one.\<close>

definition call_for :: "ipsc_voice \<Rightarrow> Timeslot \<Rightarrow> time \<Rightarrow> ipsc_peer \<Rightarrow> ipsc_peer \<times> ipsc_call" where
  "call_for v slot now p = (case ip_LastCall p of
      None \<Rightarrow> (p, start_call v slot now)
    | Some c \<Rightarrow>
        if ic_StreamID c \<noteq> vo_StreamID v \<or> ic_Ended c \<noteq> 0 then (supersede_call p, start_call v slot now) else (p, c))"

definition recordVoice :: "ipsc_peer \<Rightarrow> ipsc_message \<Rightarrow> time \<Rightarrow> ipsc_listener \<Rightarrow> (hbp_data list \<times> bool) \<times> ipsc_peer \<times> ipsc_listener" where
  "recordVoice p msg now l = (case AsVoice msg of
      None \<Rightarrow> (([], False), p, l)
    | Some v \<Rightarrow>
        let p = (case ipsc_ColourCode msg of Some cc \<Rightarrow> learn_colour cc p | None \<Rightarrow> p);
            (conv, l) = converterFor (ip_RadioID p) l;
            slot = call_slot conv msg;
            v = (case conv of None \<Rightarrow> v | Some c \<Rightarrow> (case bridge_Resolve msg c of Some r \<Rightarrow> r | None \<Rightarrow> v));
            (p, c) = call_for v slot now p;
            c = c\<lparr>ic_Frames := ic_Frames c + 1, ic_LastFrame := now\<rparr>
        in case (if lc_Deliver (il_cfg l) then conv else None) of
            None \<Rightarrow> (([], IsLastFrame v), p\<lparr>ip_LastCall := Some c\<rparr>, l)
          | Some conv \<Rightarrow>
              let (out, conv) = Convert msg (ip_RadioID p) conv
              in ((out, IsLastFrame v), p\<lparr>ip_LastCall := Some (c\<lparr>ic_Converted := ic_Converted c + length out\<rparr>)\<rparr>,
                  l\<lparr>il_bridges := mput (ip_RadioID p) conv (il_bridges l)\<rparr>))"

definition new_ipsc_peer :: "u32 \<Rightarrow> time \<Rightarrow> ipsc_peer" where
  "new_ipsc_peer pid now =
     \<lparr>ip_RadioID = pid, ip_Address = [], ip_FirstHeard = now, ip_Registered = 0, ip_LastHeard = 0, ip_Keepalives = 0,
      ip_VoiceFrames = 0, ip_TextFrames = 0, ip_LastCall = None, ip_ColourCode = 0, ip_ColourCodeKnown = False\<rparr>"

definition ipsc_put_peer :: "ipsc_peer \<Rightarrow> ipsc_message \<Rightarrow> ipsc_listener \<Rightarrow> ipsc_listener" where
  "ipsc_put_peer p msg l = l\<lparr>il_peers := mput (im_SenderID msg) p (il_peers l)\<rparr>"

text \<open>
  \<open>record\<close>: the frames a datagram produced and whether it ended a transmission, or \<open>None\<close> when the
  handler panicked.  It does so for a text when there is no converter and \<open>burstFor\<close> gets as far as reading
  the configuration of the nil converter; what was recorded before stays recorded.
\<close>

definition reads_config :: "ipsc_message \<Rightarrow> bool" where
  "reads_config msg = (case AsText msg of
      None \<Rightarrow> False
    | Some t \<Rightarrow> if length (tx_Block t) = Rate34BlockBytes then tx_DataType t = DataTypeRate34
        else length (tx_Block t) = LinkControlBlockBytes \<and> tx_DataType t \<noteq> DataTypeRate34)"

definition ipsc_record :: "ipsc_message \<Rightarrow> string \<Rightarrow> time \<Rightarrow> ipsc_listener \<Rightarrow> (hbp_data list \<times> bool) option \<times> ipsc_listener" where
  "ipsc_record msg fromAddr now l =
     (let p = (case mget (il_peers l) (im_SenderID msg) of Some p \<Rightarrow> p | None \<Rightarrow> new_ipsc_peer (im_SenderID msg) now);
          p = p\<lparr>ip_Address := fromAddr, ip_LastHeard := now\<rparr>;
          l = ipsc_put_peer p msg l
      in if im_Kind msg = KindRegisterRequest then
           (Some ([], False), ipsc_publish (ipsc_put_peer (p\<lparr>ip_Registered := now, ip_Keepalives := 0\<rparr>) msg l))
         else if im_Kind msg = KindKeepaliveRequest then
           (Some ([], False), ipsc_publish (ipsc_put_peer (p\<lparr>ip_Keepalives := ip_Keepalives p + 1\<rparr>) msg l))
         else if IsVoice (im_Kind msg) then
           let (r, p, l) = recordVoice (p\<lparr>ip_VoiceFrames := ip_VoiceFrames p + 1\<rparr>) msg now l
           in (Some r, ipsc_publish (ipsc_put_peer p msg l))
         else if IsText (im_Kind msg) then
           let (p, l) = recordText (p\<lparr>ip_TextFrames := ip_TextFrames p + 1\<rparr>) msg now l;
               (conv, l) = converterFor (ip_RadioID p) (ipsc_put_peer p msg l)
           in case conv of
               None \<Rightarrow> if reads_config msg then (None, l) else (Some ([], False), ipsc_publish l)
             | Some c \<Rightarrow>
                 let (f, c) = ConvertText msg (im_SenderID msg) c;
                     l = l\<lparr>il_bridges := mput (ip_RadioID p) c (il_bridges l)\<rparr>
                 in (Some (case f of Some f \<Rightarrow> [f] | None \<Rightarrow> [], False), ipsc_publish l)
         else (Some ([], False), ipsc_publish l))"

section \<open>The parrot for repeaters\<close>

definition ipsc_replay :: "Recording \<Rightarrow> ipsc_listener \<Rightarrow> ipsc_listener" where
  "ipsc_replay rec l = (case il_player l of None \<Rightarrow> l | Some p \<Rightarrow> l\<lparr>il_player := Some (player_Start rec p)\<rparr>)"

definition parrotHandles :: "RepeaterID \<Rightarrow> hbp_data \<Rightarrow> time \<Rightarrow> ipsc_listener \<Rightarrow> bool \<times> ipsc_listener" where
  "parrotHandles peer frame clock l = (case il_recorder l of
      None \<Rightarrow> (False, l)
    | Some r \<Rightarrow>
        if \<not> parrot_Handles r frame then (False, l\<lparr>il_recorder := Some (parrot_Cancel peer r)\<rparr>)
        else
          let (rec, r) = parrot_Observe peer frame clock clock r;
              l = l\<lparr>il_recorder := Some r\<rparr>
          in (True, case rec of Some rec \<Rightarrow> ipsc_replay rec l | None \<Rightarrow> l))"

definition expireParrot :: "time \<Rightarrow> (nat \<Rightarrow> time) \<Rightarrow> ipsc_listener \<Rightarrow> ipsc_listener" where
  "expireParrot now clocks l = (case il_recorder l of
      None \<Rightarrow> l
    | Some r \<Rightarrow> let (recs, r) = parrot_Expire now clocks r in fold ipsc_replay recs (l\<lparr>il_recorder := Some r\<rparr>))"

text \<open>A tick of a replay: the sink of the player is \<open>SendVoiceTo\<close>.\<close>

definition ipsc_play :: "nat \<Rightarrow> time \<Rightarrow> socket \<Rightarrow> ipsc_listener \<Rightarrow> (string \<times> byte list) list \<times> ipsc_listener" where
  "ipsc_play gen now write l = (case il_player l of
      None \<Rightarrow> ([], l)
    | Some p \<Rightarrow> (case fst (play_tick gen now True p) of
        [] \<Rightarrow> ([], l\<lparr>il_player := Some (snd (play_tick gen now True p))\<rparr>)
      | (peer, frame) # _ \<Rightarrow>
          let ((err, sent), l) = SendVoiceTo peer frame now write l
          in (sent, l\<lparr>il_player := Some (snd (play_tick gen now (err = None) p))\<rparr>)))"

section \<open>The handler\<close>

datatype ipsc_out = Observed RepeaterID hbp_data | Delivered RepeaterID hbp_data | Answered string "byte list"

definition noteDelivery :: "u32 \<Rightarrow> nat \<Rightarrow> bool \<Rightarrow> time \<Rightarrow> ipsc_listener \<Rightarrow> ipsc_listener" where
  "noteDelivery sender delivered ended now l = (case mget (il_peers l) sender of
      None \<Rightarrow> l
    | Some p \<Rightarrow> (case ip_LastCall p of
        None \<Rightarrow> l
      | Some c \<Rightarrow>
          let p = p\<lparr>ip_LastCall := Some (c\<lparr>ic_Delivered := ic_Delivered c + delivered\<rparr>)\<rparr>;
              p = (if ended then endCall now EndTerminated p else p)
          in ipsc_publish (l\<lparr>il_peers := mput sender p (il_peers l)\<rparr>)))"

fun hand_over :: "RepeaterID \<Rightarrow> hbp_data list \<Rightarrow> (nat \<Rightarrow> time) \<Rightarrow> ipsc_listener \<Rightarrow> nat \<times> ipsc_out list \<times> ipsc_listener" where
  "hand_over sender [] clocks l = (0, [], l)"
| "hand_over sender (f # fs) clocks l =
     (let observed = (if lc_Observe (il_cfg l) then [Observed sender f] else []);
          (taken, l) = parrotHandles sender f (clocks (length fs)) l;
          goes = (\<not> taken \<and> lc_Deliver (il_cfg l));
          (n, out, l) = hand_over sender fs clocks l
      in (if goes then n + 1 else n, observed @ (if goes then [Delivered sender f] else []) @ out, l))"

definition ipsc_handle :: "string \<Rightarrow> byte list \<Rightarrow> time \<Rightarrow> (nat \<Rightarrow> time) \<Rightarrow> socket \<Rightarrow> ipsc_listener \<Rightarrow> ipsc_out list option \<times> ipsc_listener" where
  "ipsc_handle fromAddr raw now clocks write l = (case ipsc_Parse raw of
      Inl err \<Rightarrow>
        let sender = (case SenderIDOf raw of Some s \<Rightarrow> s | None \<Rightarrow> 0);
            key = SayUnparsed sender (if err = Ipsc_ErrShort then Inl (length raw) else Inr (raw ! 0))
        in (Some [], snd (shouldSay key now (l\<lparr>il_unparsed := il_unparsed l + 1\<rparr>)))
    | Inr msg \<Rightarrow>
        if il_allowed l \<noteq> [] \<and> im_SenderID msg \<notin> set (il_allowed l) then
          (Some [], snd (shouldSay (SayRefused (im_SenderID msg) (im_Kind msg)) now
            (l\<lparr>il_ignored := il_ignored l + 1, il_refused := Some (im_SenderID msg, now)\<rparr>)))
        else (case ipsc_record msg fromAddr now l of
            (None, l) \<Rightarrow> (None, l)
          | (Some (frames, ended), l) \<Rightarrow>
              let (delivered, out, l) = hand_over (im_SenderID msg) frames clocks l;
                  l = (if IsVoice (im_Kind msg) then noteDelivery (im_SenderID msg) delivered ended now l else l);
                  answers = map ipsc_Marshal (Responder_Reply (lc_MasterID (il_cfg l)) msg)
              in (Some (out @ map (Answered fromAddr) (filter (\<lambda>b. write fromAddr b = None) answers)), l)))"

definition handleSafely :: "string \<Rightarrow> byte list \<Rightarrow> time \<Rightarrow> (nat \<Rightarrow> time) \<Rightarrow> socket \<Rightarrow> ipsc_listener \<Rightarrow> ipsc_out list \<times> ipsc_listener" where
  "handleSafely fromAddr raw now clocks write l = (case ipsc_handle fromAddr raw now clocks write l of
      (Some out, l) \<Rightarrow> (out, l)
    | (None, l) \<Rightarrow> ([], l\<lparr>il_panics := il_panics l + 1\<rparr>))"

definition LastRefused :: "time \<Rightarrow> ipsc_listener \<Rightarrow> u32 option" where
  "LastRefused now l = (case il_refused l of
      None \<Rightarrow> None | Some (pid, at) \<Rightarrow> if Sub now at > RefusalWindow then None else Some pid)"

section \<open>The sweep\<close>

definition forgetPeer :: "u32 \<Rightarrow> ipsc_listener \<Rightarrow> ipsc_listener" where
  "forgetPeer pid l = l\<lparr>il_bridges := mdel pid (il_bridges l), il_encoders := mdel pid (il_encoders l),
     il_relayed := mdel pid (il_relayed l), il_slots := filter (\<lambda>(k, _). fst k \<noteq> pid) (il_slots l)\<rparr>"

fun expire_peers :: "(u32 \<times> ipsc_peer) list \<Rightarrow> time \<Rightarrow> ipsc_listener \<Rightarrow> nat \<times> ipsc_listener" where
  "expire_peers [] now l = (0, l)"
| "expire_peers ((pid, p) # rest) now l =
     (if Sub now (ip_LastHeard p) \<le> lc_PeerTimeout (il_cfg l) then expire_peers rest now l
      else
        let (dropped, l) = expire_peers rest now (forgetPeer pid (l\<lparr>il_peers := mdel pid (il_peers l)\<rparr>))
        in (dropped + 1, l))"

definition ipsc_ExpireAt :: "time \<Rightarrow> ipsc_listener \<Rightarrow> nat \<times> ipsc_listener" where
  "ipsc_ExpireAt now l =
     (let (dropped, l) = expire_peers (il_peers l) now l
      in (dropped, if dropped > 0 then ipsc_publish l else l))"

definition ipsc_expire :: "time \<Rightarrow> time \<Rightarrow> (nat \<Rightarrow> time) \<Rightarrow> ipsc_listener \<Rightarrow> ipsc_listener" where
  "ipsc_expire now later clocks l = expireParrot later clocks (snd (ExpireCallsAt now (snd (ipsc_ExpireAt now l))))"

section \<open>What happens to a listener\<close>

datatype ipsc_event =
    EvDatagram string "byte list" time "nat \<Rightarrow> time" socket
  | EvRelay u32 hbp_data "u32 \<Rightarrow> time" time socket
  | EvSendTo u32 hbp_data time socket
  | EvPlay nat time socket
  | EvSweep time time "nat \<Rightarrow> time"
  | EvAllow "u32 list"
  | EvNames "(u32, string) gomap"
  | EvServe

fun ipsc_happens :: "ipsc_event \<Rightarrow> ipsc_listener \<Rightarrow> ipsc_listener" where
  "ipsc_happens (EvDatagram addr raw now clocks write) l = snd (handleSafely addr raw now clocks write l)"
| "ipsc_happens (EvRelay origin frame clock now write) l = snd (SendVoice origin frame clock now write l)"
| "ipsc_happens (EvSendTo target frame now write) l = snd (SendVoiceTo target frame now write l)"
| "ipsc_happens (EvPlay gen now write) l = snd (ipsc_play gen now write l)"
| "ipsc_happens (EvSweep now later clocks) l = ipsc_expire now later clocks l"
| "ipsc_happens (EvAllow allowed) l = SetAllowedPeers allowed l"
| "ipsc_happens (EvNames names) l = SetPeerNames names l"
| "ipsc_happens EvServe l = ipsc_Start l"

text \<open>No reading of the clock is Go's zero time.\<close>

fun timely :: "ipsc_event \<Rightarrow> bool" where
  "timely (EvDatagram addr raw now clocks write) \<longleftrightarrow> 0 < now"
| "timely (EvSweep now later clocks) \<longleftrightarrow> 0 < now"
| "timely _ \<longleftrightarrow> True"

section \<open>Everything kept for a repeater\<close>

definition on_table :: "ipsc_listener \<Rightarrow> u32 \<Rightarrow> bool" where
  "on_table l pid \<longleftrightarrow> mget (il_peers l) pid \<noteq> None"

definition ipsc_peer_ok :: "u32 \<Rightarrow> ipsc_peer \<Rightarrow> bool" where
  "ipsc_peer_ok pid p \<longleftrightarrow> ip_RadioID p = pid \<and> (\<forall>c. ip_LastCall p = Some c \<longrightarrow> 0 < ic_LastFrame c)"

definition kept_ok :: "ipsc_listener \<Rightarrow> bool" where
  "kept_ok l \<longleftrightarrow> (\<forall>pid c. mget (il_bridges l) pid = Some c \<longrightarrow> on_table l pid) \<and>
     (\<forall>pid e. mget (il_encoders l) pid = Some e \<longrightarrow> on_table l pid) \<and>
     (\<forall>pid s. mget (il_relayed l) pid = Some s \<longrightarrow> on_table l pid) \<and>
     (\<forall>pid ts u. mget (il_slots l) (pid, ts) = Some u \<longrightarrow> on_table l pid)"

definition ipsc_inv :: "ipsc_listener \<Rightarrow> bool" where
  "ipsc_inv l \<longleftrightarrow> mwf (il_peers l) \<and> (\<forall>pid p. mget (il_peers l) pid = Some p \<longrightarrow> ipsc_peer_ok pid p) \<and>
     kept_ok l \<and> length (il_refusals l) \<le> maxRefusals"

lemma length_mput_le: "length (mput k v m) \<le> Suc (length m)"
  by (induction m) (auto simp: mput_def)

lemmas ipsc_inv_defs = ipsc_inv_def kept_ok_def on_table_def

lemma shouldSay_fields:
  "snd (shouldSay key now l) = l\<lparr>il_refusals := il_refusals (snd (shouldSay key now l))\<rparr>"
  by (simp add: shouldSay_def Let_def)

lemma shouldSay_bound:
  assumes "length (il_refusals l) \<le> maxRefusals"
  shows "length (il_refusals (snd (shouldSay key now l))) \<le> maxRefusals"
proof -
  have "length (mput key now m) \<le> maxRefusals" if "length m < maxRefusals" for m :: "(say_key, time) gomap"
    using length_mput_le [of key now m] that by simp
  then show ?thesis using assms by (simp add: shouldSay_def Let_def maxRefusals_def not_le)
qed

lemma ipsc_inv_refusals: "length m \<le> maxRefusals \<Longrightarrow> ipsc_inv l \<Longrightarrow> ipsc_inv (l\<lparr>il_refusals := m\<rparr>)"
  by (simp add: ipsc_inv_defs)

lemma shouldSay_inv: "ipsc_inv l \<Longrightarrow> ipsc_inv (snd (shouldSay key now l))"
  by (subst shouldSay_fields, rule ipsc_inv_refusals, rule shouldSay_bound) (simp_all add: ipsc_inv_def)

lemma shouldSay_same [simp]:
  "il_peers (snd (shouldSay key now l)) = il_peers l" "il_cfg (snd (shouldSay key now l)) = il_cfg l"
  "il_slots (snd (shouldSay key now l)) = il_slots l" "il_serving (snd (shouldSay key now l)) = il_serving l"
  by (subst shouldSay_fields, simp)+

lemma claimSlot_same [simp]:
  "il_peers (snd (claimSlot pid frame now l)) = il_peers l" "il_cfg (snd (claimSlot pid frame now l)) = il_cfg l"
  "il_serving (snd (claimSlot pid frame now l)) = il_serving l"
  by (auto simp: claimSlot_def Let_def)

lemma claimSlot_inv: "ipsc_inv l \<Longrightarrow> on_table l pid \<Longrightarrow> ipsc_inv (snd (claimSlot pid frame now l))"
  by (fastforce simp: claimSlot_def Let_def ipsc_inv_defs)

lemma encode_for_same [simp]:
  "il_peers (snd (encode_for pid p frame now l)) = il_peers l" "il_cfg (snd (encode_for pid p frame now l)) = il_cfg l"
  "il_slots (snd (encode_for pid p frame now l)) = il_slots l" "il_serving (snd (encode_for pid p frame now l)) = il_serving l"
  by (auto simp: encode_for_def Let_def case_prod_beta)

lemma encode_for_inv: "ipsc_inv l \<Longrightarrow> on_table l pid \<Longrightarrow> ipsc_inv (snd (encode_for pid p frame now l))"
  by (auto simp: encode_for_def Let_def case_prod_beta ipsc_inv_defs)

lemma converterFor_same [simp]:
  "il_peers (snd (converterFor pid l)) = il_peers l" "il_cfg (snd (converterFor pid l)) = il_cfg l"
  "il_slots (snd (converterFor pid l)) = il_slots l" "il_serving (snd (converterFor pid l)) = il_serving l"
  by (auto simp: converterFor_def split: option.splits)

lemma converterFor_inv: "ipsc_inv l \<Longrightarrow> on_table l pid \<Longrightarrow> ipsc_inv (snd (converterFor pid l))"
  by (auto simp: converterFor_def ipsc_inv_defs split: option.splits)

lemma bridges_inv: "ipsc_inv l \<Longrightarrow> on_table l pid \<Longrightarrow> ipsc_inv (l\<lparr>il_bridges := mput pid c (il_bridges l)\<rparr>)"
  by (auto simp: ipsc_inv_defs)

lemma peers_inv: "ipsc_inv l \<Longrightarrow> ipsc_peer_ok pid p \<Longrightarrow> ipsc_inv (l\<lparr>il_peers := mput pid p (il_peers l)\<rparr>)"
  by (auto simp: ipsc_inv_defs)

lemma publish_inv [simp]: "ipsc_inv (ipsc_publish l) = ipsc_inv l"
  by (simp add: ipsc_publish_def ipsc_inv_defs)

lemma other_inv [simp]:
  "ipsc_inv (l\<lparr>il_unparsed := a\<rparr>) = ipsc_inv l" "ipsc_inv (l\<lparr>il_ignored := a\<rparr>) = ipsc_inv l" "ipsc_inv (l\<lparr>il_refused := b\<rparr>) = ipsc_inv l"
  "ipsc_inv (l\<lparr>il_panics := a\<rparr>) = ipsc_inv l" "ipsc_inv (l\<lparr>il_recorder := r\<rparr>) = ipsc_inv l" "ipsc_inv (l\<lparr>il_player := q\<rparr>) = ipsc_inv l"
  "ipsc_inv (l\<lparr>il_allowed := w\<rparr>) = ipsc_inv l" "ipsc_inv (l\<lparr>il_peerNames := n\<rparr>) = ipsc_inv l" "ipsc_inv (l\<lparr>il_serving := v\<rparr>) = ipsc_inv l"
  by (simp_all add: ipsc_inv_defs)

lemma relayed_inv: "ipsc_inv l \<Longrightarrow> on_table l pid \<Longrightarrow> ipsc_inv (l\<lparr>il_relayed := mput pid s (il_relayed l)\<rparr>)"
  by (auto simp: ipsc_inv_defs)

section \<open>Sending\<close>

lemma relay_to_Cons:
  "snd (snd (relay_to (x # rest) origin frame clock l)) =
    (if fst x = origin \<or> ip_Address (snd x) = [] then snd (snd (relay_to rest origin frame clock l))
     else snd (snd (relay_to rest origin frame clock (snd (encode_for (fst x) (snd x) frame (clock (fst x))
       (snd (claimSlot (fst x) frame (clock (fst x)) (l\<lparr>il_relayed := mput (fst x) (d_StreamID frame) (il_relayed l)\<rparr>))))))))"
  by (cases x) (simp add: Let_def case_prod_beta)

lemma relay_to_same [simp]:
  "il_peers (snd (snd (relay_to ps origin frame clock l))) = il_peers l"
  "il_cfg (snd (snd (relay_to ps origin frame clock l))) = il_cfg l"
  "il_serving (snd (snd (relay_to ps origin frame clock l))) = il_serving l"
  by (induction ps arbitrary: l) (simp_all add: relay_to_Cons)

lemma relay_to_inv:
  "ipsc_inv l \<Longrightarrow> \<forall>(pid, p) \<in> set ps. on_table l pid \<Longrightarrow> ipsc_inv (snd (snd (relay_to ps origin frame clock l)))"
proof (induction ps arbitrary: l)
  case (Cons x ps)
  then show ?case
    by (auto simp: relay_to_Cons case_prod_beta on_table_def intro!: Cons.IH encode_for_inv claimSlot_inv relayed_inv)
qed simp

lemma say_unread_inv: "ipsc_inv l \<Longrightarrow> ipsc_inv (say_unread unread frame now l)"
  by (induction unread arbitrary: l) (auto simp: say_unread_def shouldSay_inv)

lemma write_batches_inv: "ipsc_inv l \<Longrightarrow> ipsc_inv (snd (write_batches write now bs l))"
  by (induction bs arbitrary: l) (auto simp: Let_def case_prod_beta shouldSay_inv split: option.splits)

lemma SendVoice_inv: "ipsc_inv l \<Longrightarrow> ipsc_inv (snd (SendVoice origin frame clock now write l))"
  by (auto simp: SendVoice_def Let_def case_prod_beta on_table_def ipsc_inv_def [of l] mget_Some_iff
    intro!: write_batches_inv say_unread_inv relay_to_inv)

lemma SendVoiceTo_inv: "ipsc_inv l \<Longrightarrow> ipsc_inv (snd (SendVoiceTo target frame now write l))"
  by (auto simp: SendVoiceTo_def Let_def case_prod_beta on_table_def intro!: encode_for_inv claimSlot_inv split: option.splits)

section \<open>Receiving\<close>

lemma endCall_ok: "ipsc_peer_ok pid p \<Longrightarrow> ipsc_peer_ok pid (endCall at reason p)"
  by (auto simp: endCall_def ipsc_peer_ok_def split: option.splits)

lemma learn_colour_ok: "ipsc_peer_ok pid p \<Longrightarrow> ipsc_peer_ok pid (learn_colour cc p)"
  by (auto simp: learn_colour_def ipsc_peer_ok_def)

lemma supersede_call_ok: "ipsc_peer_ok pid p \<Longrightarrow> ipsc_peer_ok pid (supersede_call p)"
  by (auto simp: supersede_call_def endCall_ok split: option.splits)

lemma call_for_ok: "ipsc_peer_ok pid p \<Longrightarrow> ipsc_peer_ok pid (fst (call_for v slot now p))"
  by (auto simp: call_for_def supersede_call_ok split: option.splits)

lemma with_call_ok: "ipsc_peer_ok pid p \<Longrightarrow> 0 < ic_LastFrame c \<Longrightarrow> ipsc_peer_ok pid (p\<lparr>ip_LastCall := Some c\<rparr>)"
  by (simp add: ipsc_peer_ok_def)

lemma peer_ok_fields [simp]:
  "ipsc_peer_ok pid (p\<lparr>ip_Address := a\<rparr>) = ipsc_peer_ok pid p" "ipsc_peer_ok pid (p\<lparr>ip_LastHeard := t\<rparr>) = ipsc_peer_ok pid p"
  "ipsc_peer_ok pid (p\<lparr>ip_Registered := t\<rparr>) = ipsc_peer_ok pid p" "ipsc_peer_ok pid (p\<lparr>ip_Keepalives := n\<rparr>) = ipsc_peer_ok pid p"
  "ipsc_peer_ok pid (p\<lparr>ip_VoiceFrames := n\<rparr>) = ipsc_peer_ok pid p" "ipsc_peer_ok pid (p\<lparr>ip_TextFrames := n\<rparr>) = ipsc_peer_ok pid p"
  by (simp_all add: ipsc_peer_ok_def)

lemma peer_ok_radio: "ipsc_peer_ok pid p \<Longrightarrow> ip_RadioID p = pid"
  by (simp add: ipsc_peer_ok_def)

lemma recordVoice_inv:
  assumes "ipsc_inv l" "on_table l pid" "ipsc_peer_ok pid p" "0 < now" "recordVoice p msg now l = (r, p', l')"
  shows "ipsc_peer_ok pid p' \<and> ipsc_inv l' \<and> il_peers l' = il_peers l"
proof (cases "AsVoice msg")
  case None
  then show ?thesis using assms by (simp add: recordVoice_def)
next
  case (Some v)
  define q where "q = (case ipsc_ColourCode msg of Some cc \<Rightarrow> learn_colour cc p | None \<Rightarrow> p)"
  have q: "ipsc_peer_ok pid q" using assms(3) by (auto simp: q_def learn_colour_ok split: option.splits)
  have b: "ipsc_inv (snd (converterFor pid l))" "on_table (snd (converterFor pid l)) pid"
    using assms(1,2) by (simp_all add: converterFor_inv on_table_def)
  show ?thesis
    using assms(4,5) Some q b peer_ok_radio [OF q] peer_ok_radio [OF call_for_ok [OF q]]
    by (auto simp: recordVoice_def q_def [symmetric] Let_def case_prod_beta simp del: call_for_def
      intro!: with_call_ok call_for_ok bridges_inv split: option.splits if_splits)
qed

lemma recordText_inv:
  assumes "ipsc_inv l" "on_table l pid" "ipsc_peer_ok pid p" "0 < now" "recordText p msg now l = (p', l')"
  shows "ipsc_peer_ok pid p' \<and> ipsc_inv l' \<and> il_peers l' = il_peers l"
proof (cases "AsText msg")
  case None
  then show ?thesis using assms by (simp add: recordText_def)
next
  case (Some t)
  define q where "q = learn_colour (tx_ColourCode t) p"
  have q: "ipsc_peer_ok pid q" using assms(3) by (simp add: q_def learn_colour_ok)
  have b: "ipsc_inv (snd (converterFor pid l))" using assms(1,2) by (simp add: converterFor_inv)
  show ?thesis
    using assms(1,4,5) Some q b peer_ok_radio [OF supersede_call_ok [OF q]]
    by (auto simp: recordText_def q_def [symmetric] Let_def case_prod_beta
      intro!: with_call_ok supersede_call_ok split: option.splits if_splits)
qed

lemma put_peer_inv: "ipsc_inv l \<Longrightarrow> ipsc_peer_ok (im_SenderID msg) p \<Longrightarrow> ipsc_inv (ipsc_put_peer p msg l)"
  by (simp add: ipsc_put_peer_def peers_inv)

lemma put_peer_on [simp]: "on_table (ipsc_put_peer p msg l) (im_SenderID msg)"
  by (simp add: ipsc_put_peer_def on_table_def)

lemma ipsc_record_inv:
  assumes "ipsc_inv l" "0 < now"
  shows "ipsc_inv (snd (ipsc_record msg addr now l))"
proof -
  define p where "p = (case mget (il_peers l) (im_SenderID msg) of Some p \<Rightarrow> p | None \<Rightarrow> new_ipsc_peer (im_SenderID msg) now)
    \<lparr>ip_Address := addr, ip_LastHeard := now\<rparr>"
  let ?pid = "im_SenderID msg" and ?l = "ipsc_put_peer p msg l"
  have p: "ipsc_peer_ok ?pid p"
    using assms(1) by (auto simp: p_def ipsc_inv_def new_ipsc_peer_def ipsc_peer_ok_def split: option.splits)
  have l: "ipsc_inv ?l" by (rule put_peer_inv [OF assms(1) p])
  obtain r p1 l1 where rv: "recordVoice (p\<lparr>ip_VoiceFrames := Suc (ip_VoiceFrames p)\<rparr>) msg now ?l = (r, p1, l1)"
    by (cases "recordVoice (p\<lparr>ip_VoiceFrames := Suc (ip_VoiceFrames p)\<rparr>) msg now ?l") auto
  obtain p2 l2 where rt: "recordText (p\<lparr>ip_TextFrames := Suc (ip_TextFrames p)\<rparr>) msg now ?l = (p2, l2)"
    by (cases "recordText (p\<lparr>ip_TextFrames := Suc (ip_TextFrames p)\<rparr>) msg now ?l") auto
  have v: "ipsc_inv (ipsc_put_peer p1 msg l1)"
    using recordVoice_inv [OF l put_peer_on _ assms(2) rv] p by (simp add: put_peer_inv)
  have t: "ipsc_inv (ipsc_put_peer p2 msg l2)" "ip_RadioID p2 = ?pid"
    using recordText_inv [OF l put_peer_on _ assms(2) rt] p peer_ok_radio [of ?pid p2] by (simp_all add: put_peer_inv)
  let ?c = "snd (converterFor ?pid (ipsc_put_peer p2 msg l2))"
  have c: "ipsc_inv ?c" "on_table ?c ?pid"
    using t(1) converterFor_inv [OF t(1) put_peer_on] by (simp_all add: on_table_def ipsc_put_peer_def)
  have u: "ipsc_inv (?c\<lparr>il_bridges := mput ?pid x (il_bridges ?c)\<rparr>)" for x by (rule bridges_inv [OF c])
  show ?thesis
    using p l v c(1) u
    by (simp add: ipsc_record_def p_def [symmetric] rv rt t(2) Let_def case_prod_beta put_peer_inv split: option.split)
qed

lemma replay_same [simp]:
  "il_peers (ipsc_replay rec l) = il_peers l" "il_cfg (ipsc_replay rec l) = il_cfg l" "il_slots (ipsc_replay rec l) = il_slots l"
  "il_serving (ipsc_replay rec l) = il_serving l" "ipsc_inv (ipsc_replay rec l) = ipsc_inv l"
  by (auto simp: ipsc_replay_def split: option.splits)

lemma replays_same [simp]:
  "il_peers (fold ipsc_replay recs l) = il_peers l" "il_slots (fold ipsc_replay recs l) = il_slots l" "ipsc_inv (fold ipsc_replay recs l) = ipsc_inv l"
  by (induction recs arbitrary: l) simp_all

lemma parrotHandles_same [simp]:
  "il_peers (snd (parrotHandles peer frame clock l)) = il_peers l" "il_cfg (snd (parrotHandles peer frame clock l)) = il_cfg l"
  "il_slots (snd (parrotHandles peer frame clock l)) = il_slots l" "il_serving (snd (parrotHandles peer frame clock l)) = il_serving l"
  "ipsc_inv (snd (parrotHandles peer frame clock l)) = ipsc_inv l"
  by (auto simp: parrotHandles_def Let_def case_prod_beta split: option.splits)

lemma hand_over_same [simp]:
  "il_peers (snd (snd (hand_over sender fs clocks l))) = il_peers l" "il_slots (snd (snd (hand_over sender fs clocks l))) = il_slots l"
  "il_serving (snd (snd (hand_over sender fs clocks l))) = il_serving l" "ipsc_inv (snd (snd (hand_over sender fs clocks l))) = ipsc_inv l"
  by (induction fs arbitrary: l) (simp_all add: Let_def case_prod_beta)

lemma noteDelivery_inv: "ipsc_inv l \<Longrightarrow> ipsc_inv (noteDelivery sender n ended now l)"
  by (auto simp: noteDelivery_def Let_def ipsc_inv_def [of l] ipsc_peer_ok_def [of _ "_\<lparr>ip_LastCall := _\<rparr>"] ipsc_peer_ok_def
    intro!: peers_inv endCall_ok split: option.splits)

lemma handle_inv: "ipsc_inv l \<Longrightarrow> 0 < now \<Longrightarrow> ipsc_inv (snd (ipsc_handle addr raw now clocks write l))"
  using ipsc_record_inv [of l now _ addr]
  by (auto simp: ipsc_handle_def Let_def case_prod_beta intro!: shouldSay_inv noteDelivery_inv
    dest: ipsc_record_inv split: sum.splits option.splits)

lemma handleSafely_inv: "ipsc_inv l \<Longrightarrow> 0 < now \<Longrightarrow> ipsc_inv (snd (handleSafely addr raw now clocks write l))"
  using handle_inv [of l now addr raw clocks] by (auto simp: handleSafely_def case_prod_beta split: option.splits)

lemma play_inv: "ipsc_inv l \<Longrightarrow> ipsc_inv (snd (ipsc_play gen now write l))"
  by (auto simp: ipsc_play_def Let_def case_prod_beta SendVoiceTo_inv split: option.splits list.splits)

section \<open>The sweep, exactly\<close>

lemma mget_filter_slots: "mget (filter (\<lambda>(k, _). fst k \<noteq> pid) m) k = (if fst k = pid then None else mget m k)"
  by (induction m) (auto simp: mget_Cons split: if_splits)

lemma forgetPeer_inv: "ipsc_inv l \<Longrightarrow> ipsc_inv (forgetPeer pid (l\<lparr>il_peers := mdel pid (il_peers l)\<rparr>))"
  by (auto simp: forgetPeer_def ipsc_inv_defs mget_filter_slots)

lemma expire_peers_cfg [simp]: "il_cfg (snd (expire_peers xs now l)) = il_cfg l"
  by (induction xs arbitrary: l) (auto simp: Let_def case_prod_beta forgetPeer_def)

lemma expire_peers_inv: "ipsc_inv l \<Longrightarrow> ipsc_inv (snd (expire_peers xs now l))"
  by (induction xs arbitrary: l) (auto simp: Let_def case_prod_beta forgetPeer_inv)

lemma mget_expire_peers:
  "mget (il_peers (snd (expire_peers xs now l))) k =
    (if \<exists>p. (k, p) \<in> set xs \<and> \<not> Sub now (ip_LastHeard p) \<le> lc_PeerTimeout (il_cfg l) then None else mget (il_peers l) k)"
  by (induction xs arbitrary: l) (auto simp: Let_def case_prod_beta forgetPeer_def)

lemma mget_ExpireAt:
  "mwf (il_peers l) \<Longrightarrow> mget (il_peers (snd (ipsc_ExpireAt now l))) k = (case mget (il_peers l) k of None \<Rightarrow> None
    | Some p \<Rightarrow> if lc_PeerTimeout (il_cfg l) < Sub now (ip_LastHeard p) then None else Some p)"
  by (auto simp: ipsc_ExpireAt_def Let_def case_prod_beta ipsc_publish_def mget_expire_peers mget_Some_iff [symmetric] split: option.splits)

lemma ExpireAt_inv: "ipsc_inv l \<Longrightarrow> ipsc_inv (snd (ipsc_ExpireAt now l))"
  by (simp add: ipsc_ExpireAt_def Let_def case_prod_beta expire_peers_inv)

lemma ExpireAt_cfg [simp]: "il_cfg (snd (ipsc_ExpireAt now l)) = il_cfg l"
  by (simp add: ipsc_ExpireAt_def Let_def case_prod_beta ipsc_publish_def)

interpretation motorola: expiring_table "\<lambda>l. mget (il_peers l)" "\<lambda>now l. snd (ipsc_ExpireAt now l)"
    "\<lambda>l now k p. lc_PeerTimeout (il_cfg l) < Sub now (ip_LastHeard p)" ipsc_inv
proof unfold_locales
  fix l :: ipsc_listener and now now' k and p :: ipsc_peer
  show "lc_PeerTimeout (il_cfg l) < Sub now' (ip_LastHeard p)"
    if "lc_PeerTimeout (il_cfg l) < Sub now (ip_LastHeard p)" "now \<le> now'"
    using that by (auto simp: Sub_def)
next
  fix l now k assume "ipsc_inv l"
  then have "mwf (il_peers l)" by (simp add: ipsc_inv_def)
  from mget_ExpireAt [OF this] show "mget (il_peers (snd (ipsc_ExpireAt now l))) k = (case mget (il_peers l) k of None \<Rightarrow> None
      | Some p \<Rightarrow> if lc_PeerTimeout (il_cfg l) < Sub now (ip_LastHeard p) then None else Some p)" .
qed (simp_all add: ExpireAt_inv)

lemma expire_peer_call_ok: "expire_peer_call now p = Some (p', slot) \<Longrightarrow> ipsc_peer_ok pid p \<Longrightarrow> ipsc_peer_ok pid p'"
  by (auto simp: expire_peer_call_def endCall_ok split: option.splits if_splits)

lemma closed_inv:
  "ipsc_inv l \<Longrightarrow> ipsc_peer_ok pid p \<Longrightarrow>
    ipsc_inv (l\<lparr>il_peers := mput pid p (il_peers l), il_bridges := mput pid c (il_bridges l)\<rparr>)"
  by (auto simp: ipsc_inv_defs)

lemma expire_calls_inv:
  "ipsc_inv l \<Longrightarrow> \<forall>(pid, p) \<in> set xs. ipsc_peer_ok pid p \<and> on_table l pid \<Longrightarrow> ipsc_inv (snd (expire_calls xs now l))"
proof (induction xs arbitrary: l)
  case (Cons x xs)
  obtain pid p where x: "x = (pid, p)" by (cases x)
  show ?case
    using Cons.prems peer_ok_radio [of pid p]
    by (auto simp: x Let_def case_prod_beta on_table_def intro!: Cons.IH closed_inv peers_inv
      dest: expire_peer_call_ok split: option.splits)
qed simp

lemma mget_expire_calls:
  "mwf xs \<Longrightarrow> mget (il_peers (snd (expire_calls xs now l))) k = (case mget xs k of
      None \<Rightarrow> mget (il_peers l) k
    | Some p \<Rightarrow> (case expire_peer_call now p of None \<Rightarrow> mget (il_peers l) k | Some (p', _) \<Rightarrow> Some p'))"
proof (induction xs arbitrary: l k)
  case (Cons x xs)
  obtain pid p where x: "x = (pid, p)" by (cases x)
  have d: "mget xs pid = None" "mwf xs" using Cons.prems by (auto simp: x mwf_def mget_def map_of_eq_None_iff)
  show ?case
    by (auto simp: x Let_def case_prod_beta mget_Cons Cons.IH [OF d(2)] d(1) split: option.splits)
qed simp

lemma ExpireCallsAt_inv: "ipsc_inv l \<Longrightarrow> ipsc_inv (snd (ExpireCallsAt now l))"
proof -
  assume i: "ipsc_inv l"
  then have "\<forall>(pid, p) \<in> set (il_peers l). ipsc_peer_ok pid p \<and> on_table l pid"
    by (auto simp: ipsc_inv_def on_table_def mget_Some_iff)
  from expire_calls_inv [OF i this] show ?thesis by (simp add: ExpireCallsAt_def Let_def case_prod_beta)
qed

lemma mget_ExpireCallsAt:
  "ipsc_inv l \<Longrightarrow> mget (il_peers (snd (ExpireCallsAt now l))) k = (case mget (il_peers l) k of
      None \<Rightarrow> None | Some p \<Rightarrow> (case expire_peer_call now p of None \<Rightarrow> Some p | Some (p', _) \<Rightarrow> Some p'))"
  by (auto simp: ExpireCallsAt_def Let_def case_prod_beta ipsc_publish_def ipsc_inv_def mget_expire_calls split: option.splits)

text \<open>A call the console still shows as running.\<close>

definition running_call :: "ipsc_peer \<Rightarrow> ipsc_call \<Rightarrow> bool" where
  "running_call p c \<longleftrightarrow> ip_LastCall p = Some c \<and> ic_Ended c = 0"

lemma swept_call:
  assumes "ipsc_peer_ok pid p" "0 < now"
    and "p' = (case expire_peer_call now p of None \<Rightarrow> p | Some (q, _) \<Rightarrow> q)" "running_call p' c"
  shows "p' = p \<and> Sub now (ic_Started c) \<le> MaxCallDuration \<and> Sub now (ic_LastFrame c) \<le> ipsc_CallTimeout"
proof (cases "expire_peer_call now p")
  case None
  then show ?thesis using assms by (auto simp: expire_peer_call_def running_call_def not_less split: if_splits)
next
  case (Some q)
  then obtain c0 where c0: "ip_LastCall p = Some c0" "ic_Ended c0 = 0"
    by (auto simp: expire_peer_call_def split: option.splits if_splits)
  then have "0 < ic_LastFrame c0" using assms(1) by (simp add: ipsc_peer_ok_def)
  then have "\<not> running_call p' c" using Some c0 assms(2,3)
    by (auto simp: expire_peer_call_def endCall_def running_call_def split: if_splits)
  then show ?thesis using assms(4) by simp
qed

lemma expireParrot_same [simp]:
  "il_peers (expireParrot now clocks l) = il_peers l" "ipsc_inv (expireParrot now clocks l) = ipsc_inv l"
  by (auto simp: expireParrot_def Let_def case_prod_beta split: option.splits)

lemma expire_inv: "ipsc_inv l \<Longrightarrow> ipsc_inv (ipsc_expire now later clocks l)"
  by (simp add: ipsc_expire_def ExpireCallsAt_inv ExpireAt_inv)

definition ipsc_begun :: "ipsc_link_config \<Rightarrow> ipsc_listener \<Rightarrow> bool" where
  "ipsc_begun cfg l \<longleftrightarrow> ipsclink_New cfg = Some l"

definition ipsc_step :: "ipsc_listener \<Rightarrow> ipsc_listener \<Rightarrow> bool" where
  "ipsc_step l l' \<longleftrightarrow> (\<exists>e. timely e \<and> l' = ipsc_happens e l)"

lemma happens_inv: "ipsc_inv l \<Longrightarrow> timely e \<Longrightarrow> ipsc_inv (ipsc_happens e l)"
  by (cases e) (simp_all add: handleSafely_inv SendVoice_inv SendVoiceTo_inv play_inv expire_inv SetAllowedPeers_def
    SetPeerNames_def ipsc_Start_def)

interpretation ipsc_link: safe_system "ipsc_begun cfg" ipsc_step ipsc_inv for cfg
proof unfold_locales
  fix l assume "ipsc_begun cfg l"
  then show "ipsc_inv l"
    by (auto simp: ipsc_begun_def ipsclink_New_def SetAllowedPeers_def SetPeerNames_def Let_def ipsc_inv_defs ipsc_publish_def
      split: if_splits)
qed (auto simp: ipsc_step_def happens_inv)

text \<open>
  C13: nothing outlives its time in the listener for Motorola repeaters.  Whatever datagrams, frames, replays, sweeps and
  settings it has seen, every converter, encoder, relayed stream and claimed timeslot it keeps belongs to a
  repeater in its table, and it remembers at most 64 warnings.  After a sweep the table holds exactly the
  repeaters heard within the timeout, and a call that is still shown as running began at most four minutes
  before and had a frame in the last two seconds.
\<close>

theorem ipsc_nothing_outlives:
  assumes "reachable (ipsc_begun cfg) ipsc_step l" "0 < now" and "l' = ipsc_expire now later clocks l"
  shows "kept_ok l \<and> kept_ok l' \<and> length (il_refusals l) \<le> 64 \<and>
    (\<forall>pid. on_table l' pid \<longleftrightarrow>
       (\<exists>p. mget (il_peers l) pid = Some p \<and> Sub now (ip_LastHeard p) \<le> lc_PeerTimeout (il_cfg l))) \<and>
    (\<forall>pid p c. mget (il_peers l') pid = Some p \<and> running_call p c \<longrightarrow>
       Sub now (ic_Started c) \<le> MaxCallDuration \<and> Sub now (ic_LastFrame c) \<le> ipsc_CallTimeout)"
proof -
  have i: "ipsc_inv l" by (rule ipsc_link.reachable_inv [OF assms(1)])
  let ?m = "snd (ipsc_ExpireAt now l)"
  have m: "ipsc_inv ?m" by (rule ExpireAt_inv [OF i])
  have l': "il_peers l' = il_peers (snd (ExpireCallsAt now ?m))" by (simp add: assms(3) ipsc_expire_def)
  have at: "mget (il_peers l') pid = (case mget (il_peers ?m) pid of None \<Rightarrow> None
    | Some p \<Rightarrow> Some (case expire_peer_call now p of None \<Rightarrow> p | Some (q, _) \<Rightarrow> q))" for pid
    unfolding l' mget_ExpireCallsAt [OF m] by (simp split: option.split)
  have "on_table l' pid \<longleftrightarrow> on_table ?m pid" for pid by (simp add: on_table_def at split: option.split)
  moreover have "on_table ?m pid \<longleftrightarrow>
      (\<exists>p. mget (il_peers l) pid = Some p \<and> Sub now (ip_LastHeard p) \<le> lc_PeerTimeout (il_cfg l))" for pid
    by (simp add: on_table_def motorola.look_sweep [OF i] not_less split: option.split)
  moreover have "Sub now (ic_Started c) \<le> MaxCallDuration \<and> Sub now (ic_LastFrame c) \<le> ipsc_CallTimeout"
    if r: "mget (il_peers l') pid = Some p" "running_call p c" for pid p c
  proof -
    obtain q where q: "mget (il_peers ?m) pid = Some q" "p = (case expire_peer_call now q of None \<Rightarrow> q | Some (q, _) \<Rightarrow> q)"
      using r(1) by (auto simp: at split: option.splits)
    have "ipsc_peer_ok pid q" using m q(1) by (simp add: ipsc_inv_def)
    from swept_call [OF this assms(2) q(2) r(2)] show ?thesis by simp
  qed
  ultimately show ?thesis
    using i expire_inv [OF i, of now later clocks] by (auto simp: ipsc_inv_def assms(3) maxRefusals_def)
qed

section \<open>One transmission on a timeslot\<close>

lemma address_kept [simp]:
  "ip_Address (endCall at reason p) = ip_Address p" "ip_Address (learn_colour cc p) = ip_Address p"
  "ip_Address (supersede_call p) = ip_Address p" "ip_Address (fst (call_for v slot now p)) = ip_Address p"
  by (simp_all add: endCall_def learn_colour_def supersede_call_def call_for_def split: option.split)

lemma recordVoice_kept:
  assumes "recordVoice p msg now l = (r, p', l')"
  shows "ip_Address p' = ip_Address p" "il_slots l' = il_slots l" "il_serving l' = il_serving l" "il_peers l' = il_peers l"
  using assms by (auto simp: recordVoice_def Let_def case_prod_beta split: option.splits if_splits)

lemma recordText_kept:
  assumes "recordText p msg now l = (p', l')"
  shows "ip_Address p' = ip_Address p" "il_slots l' = il_slots l" "il_serving l' = il_serving l" "il_peers l' = il_peers l"
  using assms by (auto simp: recordText_def Let_def case_prod_beta split: option.splits if_splits)

text \<open>Repeaters that can be sent to, and the part of the state a datagram leaves alone.\<close>

definition sendable :: "u32 \<Rightarrow> ipsc_listener \<Rightarrow> bool" where
  "sendable pid l \<longleftrightarrow> (\<exists>p. mget (il_peers l) pid = Some p \<and> ip_Address p \<noteq> [])"

definition spares_sending :: "ipsc_listener \<Rightarrow> ipsc_listener \<Rightarrow> bool" where
  "spares_sending l l' \<longleftrightarrow> il_slots l' = il_slots l \<and> il_serving l' = il_serving l \<and> (\<forall>pid. sendable pid l \<longrightarrow> sendable pid l')"

lemma spares_sending_trans: "spares_sending a b \<Longrightarrow> spares_sending b c \<Longrightarrow> spares_sending a c"
  by (simp add: spares_sending_def)

lemma spares_same: "il_slots l' = il_slots l \<Longrightarrow> il_serving l' = il_serving l \<Longrightarrow> il_peers l' = il_peers l \<Longrightarrow> spares_sending l l'"
  by (simp add: spares_sending_def sendable_def)

lemma spares_put: "ip_Address p \<noteq> [] \<Longrightarrow> spares_sending l l' \<Longrightarrow> spares_sending l (ipsc_put_peer p msg l')"
  by (auto simp: spares_sending_def sendable_def ipsc_put_peer_def)

lemma spares_publish: "spares_sending l l' \<Longrightarrow> spares_sending l (ipsc_publish l')"
  by (simp add: spares_sending_def sendable_def ipsc_publish_def)

lemma spares_bridges: "spares_sending l l' \<Longrightarrow> spares_sending l (l'\<lparr>il_bridges := b\<rparr>)"
  by (simp add: spares_sending_def sendable_def)

lemma spares_converterFor: "spares_sending l l' \<Longrightarrow> spares_sending l (snd (converterFor pid l'))"
  by (simp add: spares_sending_def sendable_def)

lemma ipsc_record_spares:
  assumes "addr \<noteq> []"
  shows "spares_sending l (snd (ipsc_record msg addr now l))"
proof -
  define p where "p = (case mget (il_peers l) (im_SenderID msg) of Some p \<Rightarrow> p | None \<Rightarrow> new_ipsc_peer (im_SenderID msg) now)
    \<lparr>ip_Address := addr, ip_LastHeard := now\<rparr>"
  let ?l = "ipsc_put_peer p msg l"
  have p: "ip_Address p \<noteq> []" using assms by (simp add: p_def)
  have l: "spares_sending l ?l" by (rule spares_put [OF p]) (simp add: spares_same)
  obtain r p1 l1 where rv: "recordVoice (p\<lparr>ip_VoiceFrames := Suc (ip_VoiceFrames p)\<rparr>) msg now ?l = (r, p1, l1)"
    by (cases "recordVoice (p\<lparr>ip_VoiceFrames := Suc (ip_VoiceFrames p)\<rparr>) msg now ?l") auto
  obtain p2 l2 where rt: "recordText (p\<lparr>ip_TextFrames := Suc (ip_TextFrames p)\<rparr>) msg now ?l = (p2, l2)"
    by (cases "recordText (p\<lparr>ip_TextFrames := Suc (ip_TextFrames p)\<rparr>) msg now ?l") auto
  have v: "spares_sending l (ipsc_put_peer p1 msg l1)"
    using recordVoice_kept [OF rv] p l by (intro spares_put spares_sending_trans [OF l] spares_same) simp_all
  have t: "spares_sending l (ipsc_put_peer p2 msg l2)"
    using recordText_kept [OF rt] p l by (intro spares_put spares_sending_trans [OF l] spares_same) simp_all
  show ?thesis
    using p l v t
    by (auto simp: ipsc_record_def p_def [symmetric] rv rt Let_def case_prod_beta
      intro!: spares_publish spares_bridges spares_converterFor spares_put split: option.split)
qed

lemma noteDelivery_spares: "spares_sending l l' \<Longrightarrow> spares_sending l (noteDelivery sender n ended now l')"
  by (auto simp: noteDelivery_def Let_def spares_sending_def sendable_def ipsc_publish_def split: option.splits)

lemma handleSafely_spares:
  assumes "addr \<noteq> []"
  shows "spares_sending l (snd (handleSafely addr raw now clocks write l))"
proof -
  have say: "spares_sending l (snd (shouldSay key now (l\<lparr>il_unparsed := n\<rparr>)))"
    "spares_sending l (snd (shouldSay key now (l\<lparr>il_ignored := n, il_refused := q\<rparr>)))" for key n q
    by (rule spares_same; simp)+
  have over: "spares_sending l (snd (snd (hand_over sender fs clocks l')))" if "spares_sending l l'" for sender fs l'
    using that by (simp add: spares_sending_def sendable_def)
  have rec: "spares_sending l (snd (ipsc_record msg addr now l))" for msg by (rule ipsc_record_spares [OF assms])
  have "spares_sending l (snd (ipsc_handle addr raw now clocks write l))"
    using say rec over
    by (auto simp: ipsc_handle_def Let_def case_prod_beta intro!: noteDelivery_spares split: sum.splits option.splits)
  then show ?thesis
    by (auto simp: handleSafely_def spares_sending_def sendable_def case_prod_beta split: option.splits)
qed

definition holds_slot :: "u32 \<Rightarrow> Timeslot \<Rightarrow> StreamID \<Rightarrow> time \<Rightarrow> ipsc_listener \<Rightarrow> bool" where
  "holds_slot pid ts s t l \<longleftrightarrow> il_serving l \<and> sendable pid l \<and> (\<exists>at. mget (il_slots l) (pid, ts) = Some (s, at) \<and> t \<le> at)"

text \<open>A frame that leaves the claim of the stream \<open>s\<close> alone: not its terminator, and sent within the hold.\<close>

definition spares_claim :: "StreamID \<Rightarrow> time \<Rightarrow> hbp_data \<Rightarrow> time \<Rightarrow> bool" where
  "spares_claim s t frame now \<longleftrightarrow> \<not> (IsTerminator frame \<and> d_StreamID frame = s) \<and> t \<le> now \<and> now - t < SlotHold"

lemma within_hold: "t \<le> at \<Longrightarrow> now - t < SlotHold \<Longrightarrow> Sub now at < SlotHold"
  by (auto simp: Sub_def SlotHold_def minDuration_def)

lemma claimSlot_holds:
  assumes "holds_slot pid ts s t l" "q = pid \<and> d_Timeslot frame = ts \<Longrightarrow> spares_claim s t frame now"
  shows "holds_slot pid ts s t (snd (claimSlot q frame now l))"
proof (cases "q = pid \<and> d_Timeslot frame = ts")
  case True
  with assms within_hold [of t _ now] show ?thesis
    by (auto simp: claimSlot_def holds_slot_def spares_claim_def Let_def sendable_def split: option.splits)
next
  case False
  with assms(1) show ?thesis by (auto simp: claimSlot_def holds_slot_def Let_def sendable_def)
qed

lemma encode_for_holds: "holds_slot pid ts s t l \<Longrightarrow> holds_slot pid ts s t (snd (encode_for q p frame now l))"
  by (simp add: holds_slot_def sendable_def)

lemma holds_relayed: "holds_slot pid ts s t (l\<lparr>il_relayed := x\<rparr>) = holds_slot pid ts s t l"
  by (simp add: holds_slot_def sendable_def)

lemma relay_to_holds:
  "holds_slot pid ts s t l \<Longrightarrow> (d_Timeslot frame = ts \<Longrightarrow> spares_claim s t frame (clock pid)) \<Longrightarrow>
    holds_slot pid ts s t (snd (snd (relay_to ps origin frame clock l)))"
proof (induction ps arbitrary: l)
  case (Cons x ps)
  have "holds_slot pid ts s t (snd (claimSlot (fst x) frame (clock (fst x)) (l\<lparr>il_relayed := r\<rparr>)))" for r
    by (rule claimSlot_holds) (use Cons.prems in \<open>auto simp: holds_relayed\<close>)
  then show ?case using Cons by (auto simp: relay_to_Cons encode_for_holds)
qed simp

text \<open>A frame that is relayed to a repeater whose timeslot is not held by another stream takes the timeslot.\<close>

lemma claimSlot_free: "fst (claimSlot pid frame t l) = (case mget (il_slots l) (pid, d_Timeslot frame) of
    None \<Rightarrow> False | Some (stream, at) \<Rightarrow> stream \<noteq> d_StreamID frame \<and> Sub t at < SlotHold)"
  by (simp add: claimSlot_def Let_def)

lemma claimSlot_takes:
  assumes "\<not> fst (claimSlot pid frame t l)" "\<not> IsTerminator frame" "il_serving l" "sendable pid l"
  shows "holds_slot pid (d_Timeslot frame) (d_StreamID frame) t (snd (claimSlot pid frame t l))"
  using assms by (auto simp: claimSlot_def Let_def holds_slot_def sendable_def split: option.splits if_splits)

lemma relay_to_takes:
  assumes "mget ps pid = Some p" "ip_Address p \<noteq> []" "pid \<noteq> origin" "\<not> IsTerminator frame"
    and "il_serving l" "sendable pid l" "\<not> fst (claimSlot pid frame (clock pid) l)"
  shows "holds_slot pid (d_Timeslot frame) (d_StreamID frame) (clock pid) (snd (snd (relay_to ps origin frame clock l)))"
  using assms
proof (induction ps arbitrary: l)
  case (Cons x ps)
  let ?t = "clock pid" and ?hs = "holds_slot pid (d_Timeslot frame) (d_StreamID frame) (clock pid)"
  have sp: "spares_claim (d_StreamID frame) ?t frame ?t" using Cons.prems(4) by (simp add: spares_claim_def SlotHold_def)
  show ?case
  proof (cases "fst x = pid")
    case True
    let ?l = "l\<lparr>il_relayed := mput pid (d_StreamID frame) (il_relayed l)\<rparr>"
    have "snd x = p" using Cons.prems(1) True by (cases x) (simp add: mget_Cons)
    moreover have "?hs (snd (claimSlot pid frame ?t ?l))"
      by (rule claimSlot_takes) (use Cons.prems in \<open>simp_all add: claimSlot_free sendable_def\<close>)
    ultimately show ?thesis
      using Cons.prems(2,3) True sp by (auto simp: relay_to_Cons intro!: relay_to_holds encode_for_holds)
  next
    case False
    let ?l = "snd (encode_for (fst x) (snd x) frame (clock (fst x))
       (snd (claimSlot (fst x) frame (clock (fst x)) (l\<lparr>il_relayed := mput (fst x) (d_StreamID frame) (il_relayed l)\<rparr>))))"
    have m: "mget ps pid = Some p" using Cons.prems(1) False by (cases x) (simp add: mget_Cons)
    have "il_slots ?l = il_slots (snd (claimSlot (fst x) frame (clock (fst x)) (l\<lparr>il_relayed := mput (fst x) (d_StreamID frame) (il_relayed l)\<rparr>)))"
      by simp
    then have "mget (il_slots ?l) (pid, d_Timeslot frame) = mget (il_slots l) (pid, d_Timeslot frame)"
      using False by (auto simp: claimSlot_def Let_def)
    then have "\<not> fst (claimSlot pid frame ?t ?l)" using Cons.prems(7) by (simp add: claimSlot_free)
    moreover have "il_serving ?l" "sendable pid ?l" using Cons.prems(5,6) by (simp_all add: sendable_def)
    ultimately show ?thesis using Cons.IH [OF m] Cons.prems by (simp add: relay_to_Cons)
  qed
qed (simp add: mget_def)

lemma shouldSay_holds: "holds_slot pid ts s t l \<Longrightarrow> holds_slot pid ts s t (snd (shouldSay key now l))"
  by (simp add: holds_slot_def sendable_def)

lemma say_unread_holds: "holds_slot pid ts s t l \<Longrightarrow> holds_slot pid ts s t (say_unread unread frame now l)"
  by (induction unread arbitrary: l) (auto simp: say_unread_def shouldSay_holds)

lemma write_batches_holds: "holds_slot pid ts s t l \<Longrightarrow> holds_slot pid ts s t (snd (write_batches write now bs l))"
  by (induction bs arbitrary: l) (auto simp: Let_def case_prod_beta shouldSay_holds split: option.splits)

lemma SendVoiceTo_holds:
  assumes "holds_slot pid ts s t l" "target = pid \<and> d_Timeslot frame = ts \<Longrightarrow> spares_claim s t frame now"
  shows "holds_slot pid ts s t (snd (SendVoiceTo target frame now out l))"
  using assms by (auto simp: SendVoiceTo_def Let_def case_prod_beta intro!: encode_for_holds claimSlot_holds split: option.splits)

lemma holds_player: "holds_slot pid ts s t (l\<lparr>il_player := x\<rparr>) = holds_slot pid ts s t l"
  by (simp add: holds_slot_def sendable_def)

text \<open>A sweep that finds the repeater heard from within the timeout leaves its timeslots alone.\<close>

lemma expire_peers_slots:
  "list_all (\<lambda>(q, p). q = pid \<longrightarrow> Sub now (ip_LastHeard p) \<le> limit) xs \<Longrightarrow> lc_PeerTimeout (il_cfg l) = limit \<Longrightarrow>
    mget (il_slots (snd (expire_peers xs now l))) (pid, ts) = mget (il_slots l) (pid, ts)"
  by (induction xs arbitrary: l) (auto simp: Let_def case_prod_beta forgetPeer_def mget_filter_slots)

lemma expire_peers_serving [simp]: "il_serving (snd (expire_peers xs now l)) = il_serving l"
proof (induction xs arbitrary: l)
  case (Cons x xs)
  then show ?case by (cases x) (simp add: Let_def case_prod_beta forgetPeer_def)
qed simp

lemma expire_calls_slots [simp]:
  "il_slots (snd (expire_calls xs now l)) = il_slots l" "il_serving (snd (expire_calls xs now l)) = il_serving l"
  by (induction xs arbitrary: l) (auto simp: Let_def case_prod_beta split: option.splits)

lemma expire_peer_call_address: "expire_peer_call now p = Some (p', slot) \<Longrightarrow> ip_Address p' = ip_Address p"
  by (auto simp: expire_peer_call_def endCall_def Let_def split: option.splits if_splits)

lemma replays_serving [simp]: "il_serving (fold ipsc_replay recs l) = il_serving l"
  by (induction recs arbitrary: l) (simp_all add: ipsc_replay_def split: option.split)

lemma expire_holds:
  assumes "holds_slot pid ts s t l" "ipsc_inv l"
    and "\<And>p. mget (il_peers l) pid = Some p \<Longrightarrow> Sub now (ip_LastHeard p) \<le> lc_PeerTimeout (il_cfg l)"
  shows "holds_slot pid ts s t (ipsc_expire now later clocks l)"
proof -
  have wf: "mwf (il_peers l)" using assms(2) by (simp add: ipsc_inv_def)
  obtain p where p: "mget (il_peers l) pid = Some p" "ip_Address p \<noteq> []" using assms(1) by (auto simp: holds_slot_def sendable_def)
  let ?a = "snd (ipsc_ExpireAt now l)" and ?b = "snd (ExpireCallsAt now (snd (ipsc_ExpireAt now l)))"
  have fresh: "list_all (\<lambda>(q, p). q = pid \<longrightarrow> Sub now (ip_LastHeard p) \<le> lc_PeerTimeout (il_cfg l)) (il_peers l)"
    using assms(3) wf by (auto simp: list_all_iff mget_Some_iff)
  have slots: "mget (il_slots ?b) (pid, ts) = mget (il_slots l) (pid, ts)" "il_serving ?b = il_serving l"
    using expire_peers_slots [OF fresh refl]
    by (auto simp: ipsc_ExpireAt_def ExpireCallsAt_def Let_def case_prod_beta ipsc_publish_def)
  have "mget (il_peers ?a) pid = Some p" using assms(3) p(1) by (simp add: mget_ExpireAt [OF wf] not_less)
  then have "sendable pid ?b"
    using p(2) expire_peer_call_address [of now p]
    by (auto simp: sendable_def mget_ExpireCallsAt [OF ExpireAt_inv [OF assms(2)]] split: option.splits)
  then show ?thesis
    using assms(1) slots by (auto simp: holds_slot_def sendable_def ipsc_expire_def expireParrot_def Let_def case_prod_beta split: option.splits)
qed

text \<open>
  What may happen while the stream \<open>s\<close> holds the timeslot \<open>ts\<close> of a repeater since the instant \<open>t\<close>.  A frame for that timeslot,
  relayed, sent or replayed, is not the terminator of the stream and comes within the hold, and a sweep does not find the
  repeater silent for too long; anything may happen elsewhere.
\<close>

fun spares_slot :: "u32 \<Rightarrow> Timeslot \<Rightarrow> StreamID \<Rightarrow> time \<Rightarrow> ipsc_event \<Rightarrow> ipsc_listener \<Rightarrow> bool" where
  "spares_slot pid ts s t (EvDatagram addr raw now clocks write) l \<longleftrightarrow> addr \<noteq> []"
| "spares_slot pid ts s t (EvRelay origin frame clock now write) l \<longleftrightarrow> (d_Timeslot frame = ts \<longrightarrow> spares_claim s t frame (clock pid))"
| "spares_slot pid ts s t (EvSendTo target frame now write) l \<longleftrightarrow>
     (target = pid \<and> d_Timeslot frame = ts \<longrightarrow> spares_claim s t frame now)"
| "spares_slot pid ts s t (EvPlay gen now write) l \<longleftrightarrow> (case il_player l of
      None \<Rightarrow> True
    | Some p \<Rightarrow> list_all (\<lambda>(peer, frame). peer = pid \<and> d_Timeslot frame = ts \<longrightarrow> spares_claim s t frame now) (fst (play_tick gen now True p)))"
| "spares_slot pid ts s t (EvSweep now later clocks) l \<longleftrightarrow> (case mget (il_peers l) pid of
      None \<Rightarrow> True | Some p \<Rightarrow> Sub now (ip_LastHeard p) \<le> lc_PeerTimeout (il_cfg l))"
| "spares_slot pid ts s t _ l \<longleftrightarrow> True"

fun spares_run :: "u32 \<Rightarrow> Timeslot \<Rightarrow> StreamID \<Rightarrow> time \<Rightarrow> ipsc_event list \<Rightarrow> ipsc_listener \<Rightarrow> bool" where
  "spares_run pid ts s t [] l \<longleftrightarrow> True"
| "spares_run pid ts s t (e # es) l \<longleftrightarrow> timely e \<and> spares_slot pid ts s t e l \<and> spares_run pid ts s t es (ipsc_happens e l)"

lemma happens_holds:
  assumes "holds_slot pid ts s t l" "ipsc_inv l" "spares_slot pid ts s t e l"
  shows "holds_slot pid ts s t (ipsc_happens e l)"
proof (cases e)
  case (EvDatagram addr raw now clocks wr)
  then show ?thesis using assms handleSafely_spares [of addr l raw now clocks wr] by (auto simp: holds_slot_def spares_sending_def)
next
  case (EvRelay origin frame clock now wr)
  then show ?thesis using assms
    by (auto simp: SendVoice_def Let_def case_prod_beta intro!: write_batches_holds say_unread_holds relay_to_holds)
next
  case (EvSendTo target frame now wr)
  then show ?thesis using assms by (auto intro!: SendVoiceTo_holds)
next
  case (EvPlay gen now wr)
  then show ?thesis using assms
    by (auto simp: ipsc_play_def Let_def case_prod_beta holds_player intro!: SendVoiceTo_holds split: option.splits list.splits)
next
  case (EvSweep now later clocks)
  then show ?thesis using assms expire_holds [OF assms(1,2)] by (auto split: option.splits)
qed (use assms in \<open>auto simp: SetAllowedPeers_def SetPeerNames_def ipsc_Start_def holds_slot_def sendable_def\<close>)

lemma run_holds:
  "holds_slot pid ts s t l \<Longrightarrow> ipsc_inv l \<Longrightarrow> spares_run pid ts s t es l \<Longrightarrow> holds_slot pid ts s t (fold ipsc_happens es l)"
  by (induction es arbitrary: l) (auto simp: happens_holds happens_inv)

text \<open>
  An event that puts a frame on a repeater's timeslot at the instant \<open>t\<close>: sent to it and not refused, relayed to it while no
  other stream holds the timeslot, or a tick of a replay that is not refused.
\<close>

definition accepts_frame :: "u32 \<Rightarrow> hbp_data \<Rightarrow> time \<Rightarrow> socket \<Rightarrow> ipsc_listener \<Rightarrow> bool" where
  "accepts_frame pid f t write l \<longleftrightarrow>
     fst (fst (SendVoiceTo pid f t write l)) \<notin> {Some ErrNotServing, Some ErrNoSuchPeer, Some ErrSlotBusy}"

fun takes_slot :: "u32 \<Rightarrow> hbp_data \<Rightarrow> time \<Rightarrow> ipsc_event \<Rightarrow> ipsc_listener \<Rightarrow> bool" where
  "takes_slot pid f t (EvSendTo target frame now write) l \<longleftrightarrow>
     target = pid \<and> frame = f \<and> now = t \<and> accepts_frame pid f t write l"
| "takes_slot pid f t (EvRelay origin frame clock now write) l \<longleftrightarrow>
     frame = f \<and> clock pid = t \<and> origin \<noteq> pid \<and> il_serving l \<and> sendable pid l \<and>
     (case mget (il_slots l) (pid, d_Timeslot f) of
        None \<Rightarrow> True | Some (stream, at) \<Rightarrow> stream = d_StreamID f \<or> SlotHold \<le> Sub t at)"
| "takes_slot pid f t (EvPlay gen now write) l \<longleftrightarrow> now = t \<and> accepts_frame pid f t write l \<and>
     (case il_player l of None \<Rightarrow> False | Some p \<Rightarrow> fst (play_tick gen now True p) = [(pid, f)])"
| "takes_slot pid f t _ l \<longleftrightarrow> False"

lemma SendVoiceTo_takes:
  assumes "accepts_frame pid f t out l" "\<not> IsTerminator f"
  shows "holds_slot pid (d_Timeslot f) (d_StreamID f) t (snd (SendVoiceTo pid f t out l))"
  using assms claimSlot_takes [of pid f t l]
  by (auto simp: accepts_frame_def SendVoiceTo_def Let_def case_prod_beta sendable_def intro!: encode_for_holds split: option.splits if_splits)

lemma takes_holds:
  assumes "takes_slot pid f t e l" "\<not> IsTerminator f"
  shows "holds_slot pid (d_Timeslot f) (d_StreamID f) t (ipsc_happens e l)"
proof (cases e)
  case (EvRelay origin frame clock now wr)
  then obtain p where "mget (il_peers l) pid = Some p" "ip_Address p \<noteq> []" using assms(1) by (auto simp: sendable_def)
  from relay_to_takes [OF this, of origin frame l clock] EvRelay assms show ?thesis
    by (auto simp: SendVoice_def Let_def case_prod_beta claimSlot_free not_less intro!: write_batches_holds say_unread_holds split: option.splits)
next
  case (EvPlay gen now wr)
  then show ?thesis using assms SendVoiceTo_takes [of pid f t wr l]
    by (auto simp: ipsc_play_def Let_def case_prod_beta holds_player split: option.splits)
qed (use assms SendVoiceTo_takes in auto)

text \<open>
  C14: a targeted transmission does not start over another.  When a frame that is not a terminator was put on a
  repeater's timeslot, relayed with everyone's traffic, sent to it or replayed to it, then, whatever arrives, is relayed, sent,
  replayed or swept meanwhile, short of the end of that transmission and of the repeater falling silent past its timeout, a targeted
  frame of another stream for the same timeslot is refused as busy for the length of the hold: nothing is written and
  nothing changes.
\<close>

theorem ipsc_slot_held:
  assumes "reachable (ipsc_begun cfg) ipsc_step l" "timely e" "takes_slot target f t1 e l" "\<not> IsTerminator f"
    and "spares_run target (d_Timeslot f) (d_StreamID f) t1 es (ipsc_happens e l)" "l2 = fold ipsc_happens es (ipsc_happens e l)"
    and "d_Timeslot g = d_Timeslot f" "d_StreamID g \<noteq> d_StreamID f" "t2 - t1 < SlotHold"
  shows "SendVoiceTo target g t2 out2 l2 = ((Some ErrSlotBusy, []), l2)"
proof -
  have "ipsc_inv (ipsc_happens e l)" using happens_inv [OF ipsc_link.reachable_inv [OF assms(1)] assms(2)] .
  from run_holds [OF takes_holds [OF assms(3,4)] this assms(5)]
  have h: "holds_slot target (d_Timeslot f) (d_StreamID f) t1 l2" by (simp add: assms(6))
  then obtain at where "mget (il_slots l2) (target, d_Timeslot f) = Some (d_StreamID f, at)" "Sub t2 at < SlotHold"
    using within_hold [OF _ assms(9)] by (auto simp: holds_slot_def)
  then have "claimSlot target g t2 l2 = (True, l2)" using assms(7,8) by (simp add: claimSlot_def Let_def)
  then show ?thesis using h by (auto simp: SendVoiceTo_def Let_def holds_slot_def sendable_def)
qed

section \<open>Who is answered\<close>

text \<open>A repeater off the allow list is met with silence, and moves nothing but the counters that report it.\<close>

lemma refused_in_silence:
  assumes "ipsc_Parse raw = Inr msg" "il_allowed l \<noteq> []" "im_SenderID msg \<notin> set (il_allowed l)"
  shows "\<exists>m. handleSafely addr raw now clocks out l =
    ([], l\<lparr>il_ignored := il_ignored l + 1, il_refused := Some (im_SenderID msg, now), il_refusals := m\<rparr>)"
  using assms shouldSay_fields [of "SayRefused (im_SenderID msg) (im_Kind msg)" now
    "l\<lparr>il_ignored := il_ignored l + 1, il_refused := Some (im_SenderID msg, now)\<rparr>"]
  by (auto simp: handleSafely_def ipsc_handle_def)

text \<open>
  \<open>New\<close> checks the colour code only when there is somewhere to deliver to.  Without that, a listener with a
  colour code out of range has no converter, and every text it is sent ends in a panic.
\<close>

lemma text_panics_without_converter:
  assumes "ipsc_Parse raw = Inr msg" "il_allowed l = []" "IsText (im_Kind msg)" "reads_config msg"
    and "bc_ColourCode (lc_Bridge (il_cfg l)) > 15" "il_bridges l = []"
  shows "il_panics (snd (handleSafely addr raw now clocks out l)) = il_panics l + 1"
proof -
  have k: "\<not> IsVoice (im_Kind msg)" "im_Kind msg \<noteq> KindRegisterRequest" "im_Kind msg \<noteq> KindKeepaliveRequest"
    using assms(3) by (auto simp: IsText_def IsVoice_def)
  have c: "converterFor pid l' = (None, l')" if "il_bridges l' = []" "il_cfg l' = il_cfg l" for pid l'
    using that assms(5) by (simp add: converterFor_def ipscbridge_New_def)
  have t: "snd (recordText p msg now l') = l'" if "il_bridges l' = []" "il_cfg l' = il_cfg l" for p l'
    using c [OF that] by (auto simp: recordText_def Let_def split: option.split)
  have "fst (ipsc_record msg addr now l) = None \<and> il_panics (snd (ipsc_record msg addr now l)) = il_panics l"
    using k assms(3,4,6) by (simp add: ipsc_record_def ipsc_put_peer_def Let_def c case_prod_beta t)
  then show ?thesis using assms(1,2) by (simp add: handleSafely_def ipsc_handle_def case_prod_beta split: option.splits)
qed

section \<open>A repeater on the bench\<close>

definition bench_cfg :: ipsc_link_config where
  "bench_cfg = \<lparr>lc_ListenAddress = ''bench'', lc_MasterID = 1, lc_AllowedPeers = [7], lc_PeerNames = [], lc_PeerTimeout = 0,
     lc_Parrot = None, lc_Observe = True, lc_Deliver = True, lc_Bridge = \<lparr>bc_ColourCode = 1, bc_SlotBitIsTimeslot2 = True\<rparr>\<rparr>"

definition bench_start :: ipsc_listener where
  "bench_start = the (ipsclink_New bench_cfg)"

definition bench :: ipsc_listener where
  "bench = ipsc_happens (EvDatagram ''xpr'' [0x90, 0, 0, 0, 7] second (\<lambda>_. second) (\<lambda>_ _. None)) (ipsc_happens EvServe bench_start)"

lemma bench_New: "ipsclink_New bench_cfg = Some bench_start"
  by (simp add: bench_start_def ipsclink_New_def ipsc_Validate_def bench_cfg_def ipscbridge_New_def Let_def)

lemma bench_reachable: "reachable (ipsc_begun bench_cfg) ipsc_step bench"
proof -
  have "reachable (ipsc_begun bench_cfg) ipsc_step bench_start" by (rule reachable.intros) (simp add: ipsc_begun_def bench_New)
  then have "reachable (ipsc_begun bench_cfg) ipsc_step (ipsc_happens EvServe bench_start)"
    by (rule reachable.intros) (unfold ipsc_step_def, rule exI [of _ EvServe], simp)
  then show ?thesis unfolding bench_def
    by (rule reachable.intros) (unfold ipsc_step_def, rule exI, rule conjI [OF _ refl], simp)
qed

lemma bench_parse: "ipsc_Parse [0x90, 0, 0, 0, 7] = Inr \<lparr>im_Kind = KindRegisterRequest, im_SenderID = 7, im_Body = []\<rparr>"
  by (simp add: ipsc_Parse_def ipsc_HeaderLen_def ObservedLen_def observedLen_def mget_Cons get32_def)

lemma bench_start_state:
  "il_peers bench_start = []" "il_slots bench_start = []" "il_allowed bench_start = [7]"
  "lc_PeerTimeout (il_cfg bench_start) = 50 * second"
  by (simp_all add: bench_start_def ipsclink_New_def ipsc_Validate_def bench_cfg_def ipscbridge_New_def SetAllowedPeers_def
    SetPeerNames_def ipsc_publish_def ipsc_DefaultPeerTimeout_def Let_def)

lemma bench_state:
  "il_peers bench = [(7, (new_ipsc_peer 7 second)\<lparr>ip_Address := ''xpr'', ip_LastHeard := second, ip_Registered := second\<rparr>)]"
  "il_serving bench" "il_slots bench = []" "lc_PeerTimeout (il_cfg bench) = 50 * second"
  by (simp_all add: bench_def handleSafely_def ipsc_handle_def bench_parse ipsc_Start_def bench_start_state
    ipsc_record_def ipsc_put_peer_def new_ipsc_peer_def ipsc_publish_def Let_def IsVoice_def case_prod_beta mput_def)

theorem ipsc_nothing_outlives_witness:
  "on_table (ipsc_expire (2 * second) second (\<lambda>_. second) bench) 7 \<and> \<not> on_table (ipsc_expire (60 * second) second (\<lambda>_. second) bench) 7 \<and>
   kept_ok (ipsc_expire (60 * second) second (\<lambda>_. second) bench)"
proof -
  have "mget (il_peers bench) 7 = Some ((new_ipsc_peer 7 second)\<lparr>ip_Address := ''xpr'', ip_LastHeard := second, ip_Registered := second\<rparr>)"
    by (simp add: bench_state mget_Cons)
  with ipsc_nothing_outlives [OF bench_reachable _ refl, of "2 * second" second "\<lambda>_. second"]
    ipsc_nothing_outlives [OF bench_reachable _ refl, of "60 * second" second "\<lambda>_. second"]
  show ?thesis by (simp add: bench_state Sub_def minDuration_def maxDuration_def)
qed

lemma written_same [simp]:
  "il_peers (snd (write_batches out now bs l)) = il_peers l" "il_cfg (snd (write_batches out now bs l)) = il_cfg l"
  "il_peers (say_unread unread frame now l) = il_peers l" "il_cfg (say_unread unread frame now l) = il_cfg l"
proof -
  show "il_peers (snd (write_batches out now bs l)) = il_peers l" "il_cfg (snd (write_batches out now bs l)) = il_cfg l"
    by (induction bs arbitrary: l) (auto simp: Let_def case_prod_beta split: option.split)
  show "il_peers (say_unread unread frame now l) = il_peers l" "il_cfg (say_unread unread frame now l) = il_cfg l"
    by (induction unread arbitrary: l) (simp_all add: say_unread_def)
qed

text \<open>A frame relayed to the repeater; then a sweep and a frame of another stream that is relayed as well.\<close>

theorem ipsc_slot_held_witness:
  "let f = parrot_demo_frame 0; g = (parrot_demo_frame 0)\<lparr>d_StreamID := 78\<rparr>; quiet = (\<lambda>_ _. None);
       l = fold ipsc_happens [EvSweep (second + 1) second (\<lambda>_. second), EvRelay 0 g (\<lambda>_. second + 2) second quiet]
         (ipsc_happens (EvRelay 0 f (\<lambda>_. second) second quiet) bench)
   in fst (SendVoiceTo 7 g (second + 60000000) quiet l) = (Some ErrSlotBusy, [])"
proof -
  let ?f = "parrot_demo_frame 0" and ?g = "(parrot_demo_frame 0)\<lparr>d_StreamID := 78\<rparr>" and ?quiet = "\<lambda>_ _. None"
  let ?e = "EvRelay 0 ?f (\<lambda>_. second) second ?quiet"
  let ?es = "[EvSweep (second + 1) second (\<lambda>_. second), EvRelay 0 ?g (\<lambda>_. second + 2) second ?quiet]"
  have t: "\<not> IsTerminator ?f" "timely ?e" by (simp_all add: IsTerminator_def parrot_demo_frame_def)
  have e: "takes_slot 7 ?f second ?e bench" by (simp add: bench_state sendable_def mget_Cons)
  have p: "il_peers (ipsc_happens ?e bench) = il_peers bench" "il_cfg (ipsc_happens ?e bench) = il_cfg bench"
    by (simp_all add: SendVoice_def Let_def case_prod_beta)
  have r: "spares_run 7 (d_Timeslot ?f) (d_StreamID ?f) second ?es (ipsc_happens ?e bench)"
    unfolding spares_run.simps spares_slot.simps p
    by (simp add: bench_state mget_Cons spares_claim_def SlotHold_def parrot_demo_frame_def Sub_def minDuration_def maxDuration_def)
  from ipsc_slot_held [OF bench_reachable t(2) e t(1) r refl, of ?g "second + 60000000" ?quiet]
  show ?thesis by (simp add: Let_def SlotHold_def parrot_demo_frame_def)
qed

end
