(* ===== verification/Scheduler.thy ===== *)
theory Scheduler
  imports Prelude "HOL-Library.Product_Lexorder"
begin

text \<open>
  \<^verbatim>\<open>internal/scheduler/scheduler.go\<close>: which bridges carry traffic now.  A window is a weekday, a time of day and a
  time zone, resolved against the calendar at every evaluation.  A time zone is what Go's \<^verbatim>\<open>time.Location\<close> is, a list of
  offsets with the instant each begins, and \<open>zoneDate\<close> is the resolution of a wall time by \<^verbatim>\<open>time.Date\<close>, with its choice
  in the hour that is repeated and in the hour that is skipped.  A date is the number of a day, day 0 being
  the first of January of year 1, a Monday.  The lemmas show that the answer for an instant about which the clocks
  are regular is exactly that of the windows whose wall time came within their duration before it, which needs the look back
  over two days, what the two awkward hours come to, and where the look back is not enough.
\<close>

section \<open>Time zones\<close>

abbreviation day :: duration where "day \<equiv> 24 * hour"

record zone =
  zn_first :: duration
  zn_changes :: "(time \<times> duration) list"

fun zone_lookup :: "duration \<Rightarrow> time option \<Rightarrow> (time \<times> duration) list \<Rightarrow> time \<Rightarrow> duration \<times> time option \<times> time option" where
  "zone_lookup off start [] t = (off, start, None)"
| "zone_lookup off start ((s, o') # rest) t = (if t < s then (off, start, Some s) else zone_lookup o' (Some s) rest t)"

definition lookup :: "zone \<Rightarrow> time \<Rightarrow> duration \<times> time option \<times> time option" where
  "lookup z t = zone_lookup (zn_first z) None (zn_changes z) t"

definition zone_offset :: "zone \<Rightarrow> time \<Rightarrow> duration" where
  "zone_offset z t = fst (lookup z t)"

definition local_time :: "zone \<Rightarrow> time \<Rightarrow> int" where
  "local_time z t = t + zone_offset z t"

definition local_day :: "zone \<Rightarrow> time \<Rightarrow> int" where "local_day z t = local_time z t div day"
definition local_hour :: "zone \<Rightarrow> time \<Rightarrow> int" where "local_hour z t = local_time z t mod day div hour"
definition local_minute :: "zone \<Rightarrow> time \<Rightarrow> int" where "local_minute z t = local_time z t mod hour div minute"

text \<open>Sunday is 0.\<close>

definition Weekday :: "int \<Rightarrow> int" where "Weekday d = (d + 1) mod 7"

definition zoneDate :: "zone \<Rightarrow> int \<Rightarrow> duration \<Rightarrow> time" where
  "zoneDate z d clock =
     (let unix = d * day + clock;
          (off, start, end') = lookup z unix
      in if off = 0 then unix
         else
           let utc = unix - off
           in if (case start of None \<Rightarrow> False | Some s \<Rightarrow> utc < s) \<or> (case end' of None \<Rightarrow> False | Some e \<Rightarrow> utc \<ge> e)
              then unix - zone_offset z utc else utc)"

section \<open>Windows\<close>


record LocalTime =
  lt_Hour :: int
  lt_Minute :: int



record window =
  wi_Bridge :: string
  wi_Days :: "int list"
  wi_Start :: LocalTime
  wi_Duration :: duration
  wi_Timezone :: string
  wi_Enabled :: bool
  wi_loc :: "zone option"




definition UTC :: zone where "UTC = \<lparr>zn_first = 0, zn_changes = []\<rparr>"

definition Location :: "window \<Rightarrow> zone" where
  "Location w = (case wi_loc w of None \<Rightarrow> UTC | Some z \<Rightarrow> z)"

text \<open>A note says that the start does not exist, or at which local time a window ends instead of which other.\<close>

datatype occ_note = NoNote | DoesNotExist | ClocksChange "int \<times> int" "int \<times> int"

record occurrence =
  oc_Bridge :: string
  oc_Start :: time
  oc_End :: time
  oc_Skipped :: bool
  oc_Note :: occ_note

definition Contains :: "occurrence \<Rightarrow> time \<Rightarrow> bool" where
  "Contains oc t \<longleftrightarrow> \<not> oc_Skipped oc \<and> \<not> t < oc_Start oc \<and> t < oc_End oc"

definition runsOn :: "window \<Rightarrow> int \<Rightarrow> bool" where
  "runsOn w d = (d \<in> set (wi_Days w))"

definition occurrenceOn :: "window \<Rightarrow> time \<Rightarrow> occurrence" where
  "occurrenceOn w n =
     (let z = Location w; h = lt_Hour (wi_Start w); m = lt_Minute (wi_Start w);
          start = zoneDate z (local_day z n) (h * hour + m * minute);
          end' = start + wi_Duration w;
          oc = \<lparr>oc_Bridge = wi_Bridge w, oc_Start = start, oc_End = end', oc_Skipped = False, oc_Note = NoNote\<rparr>
      in if local_hour z start \<noteq> h \<or> local_minute z start \<noteq> m
         then oc\<lparr>oc_Skipped := True, oc_Note := DoesNotExist\<rparr>
         else if zone_offset z end' \<noteq> zone_offset z start
         then oc\<lparr>oc_Note := ClocksChange (local_hour z end', local_minute z end') ((h + wi_Duration w div hour) mod 24, m)\<rparr>
         else oc)"

definition AddDays :: "zone \<Rightarrow> time \<Rightarrow> int \<Rightarrow> time" where
  "AddDays z t days = zoneDate z (local_day z t + days) (local_time z t mod day)"

text \<open>Noon of the local day of an instant, so many days on.\<close>

definition noon :: "zone \<Rightarrow> time \<Rightarrow> int \<Rightarrow> time" where
  "noon z t days = AddDays z (zoneDate z (local_day z t) (12 * hour)) days"

definition occurrencesAround :: "window \<Rightarrow> time \<Rightarrow> occurrence list" where
  "occurrencesAround w t =
     (let z = Location w
      in map (occurrenceOn w) (filter (\<lambda>n. runsOn w (Weekday (local_day z n))) (map (\<lambda>back. noon z t (- back)) [2, 1, 0])))"

definition scheduler_ActiveAt :: "window list \<Rightarrow> time \<Rightarrow> string list" where
  "scheduler_ActiveAt windows t =
     map wi_Bridge (filter (\<lambda>w. wi_Enabled w \<and> list_ex (\<lambda>oc. Contains oc t) (occurrencesAround w t)) windows)"



fun preview_days :: "window \<Rightarrow> time \<Rightarrow> nat \<Rightarrow> int \<Rightarrow> nat \<Rightarrow> occurrence list" where
  "preview_days w t 0 offset wanted = []"
| "preview_days w t (Suc n) offset wanted =
     (if wanted = 0 then []
      else
        let d = noon (Location w) t offset in
        if \<not> runsOn w (Weekday (local_day (Location w) d)) then preview_days w t n (offset + 1) wanted
        else
          let oc = occurrenceOn w d
          in if oc_End oc < t then preview_days w t n (offset + 1) wanted
             else oc # preview_days w t n (offset + 1) (wanted - 1))"

text \<open>\<open>sort.Slice\<close> leaves open in which order equal elements come; here it is the order they were found in.\<close>

definition Preview :: "window list \<Rightarrow> time \<Rightarrow> nat \<Rightarrow> occurrence list" where
  "Preview windows t perWindow =
     (if perWindow = 0 then []
      else sort_key (\<lambda>oc. (oc_Start oc, oc_Bridge oc))
        (concat (map (\<lambda>w. preview_days w t (7 * perWindow + 8) 0 perWindow) (filter wi_Enabled windows))))"

definition scheduler_Bridges :: "window list \<Rightarrow> string list" where
  "scheduler_Bridges windows = sort (remdups (map wi_Bridge windows))"

section \<open>What a schedule means\<close>















section \<open>A net in Chicago\<close>

text \<open>Clocks go from six to five hours behind at eight o'clock UTC on 10 March 2024.\<close>

definition central :: zone where
  "central = \<lparr>zn_first = - 6 * hour, zn_changes = [(738954 * day + 8 * hour, - 5 * hour)]\<rparr>"




definition tuesday_net :: window where
  "tuesday_net = \<lparr>wi_Bridge = ''net'', wi_Days = [2], wi_Start = \<lparr>lt_Hour = 20, lt_Minute = 0\<rparr>, wi_Duration = hour,
     wi_Timezone = ''America/Chicago'', wi_Enabled = True, wi_loc = None\<rparr>"



section \<open>The awkward hours\<close>

text \<open>
  East of Greenwich a time that comes twice resolves to the second: half past two in Berlin on 27 October 2024, when
  the clocks go back from three to two at 01:00 UTC.
\<close>

definition berlin :: zone where
  "berlin = \<lparr>zn_first = 2 * hour, zn_changes = [(739185 * day + hour, hour)]\<rparr>"

lemma repeated_hour_resolves_to_second:
  "let s = zoneDate berlin 739185 (2 * hour + 30 * minute)
   in (local_hour berlin s, local_minute berlin s) = (2, 30) \<and>
      (local_hour berlin (s - hour), local_minute berlin (s - hour)) = (2, 30)"
  by (simp add: zoneDate_def lookup_def berlin_def local_hour_def local_minute_def local_time_def zone_offset_def)

text \<open>West of Greenwich a time that does not exist resolves to an hour before it and is skipped.\<close>

lemma skipped_hour:
  "let w = tuesday_net\<lparr>wi_Start := \<lparr>lt_Hour = 2, lt_Minute = 30\<rparr>, wi_loc := Some central\<rparr>;
       oc = occurrenceOn w (noon central (738954 * day + 20 * hour) 0)
   in oc_Skipped oc \<and> local_hour central (oc_Start oc) = 1"
  by code_simp

text \<open>
  The note about clocks that change during a window leaves out the minutes of its duration: ninety minutes from one
  o'clock are said to have ended at two.
\<close>

lemma note_drops_minutes:
  "let w = tuesday_net\<lparr>wi_Start := \<lparr>lt_Hour = 1, lt_Minute = 0\<rparr>, wi_Duration := 90 * minute, wi_loc := Some central\<rparr>;
       oc = occurrenceOn w (noon central (738954 * day + 20 * hour) 0)
   in oc_Note oc = ClocksChange (3, 30) (2, 0)"
  by code_simp

text \<open>
  Clocks that go back over midnight: in St John's on 7 November 2010 they went from one minute past midnight, two and a half hours
  behind UTC, back to a minute past eleven of the evening before.  A window of two hours from midnight opens, closes ten minutes
  later, when the local day is again the one before and the days looked at end with it, and opens again.
\<close>

definition st_johns :: zone where
  "st_johns = \<lparr>zn_first = - (2 * hour + 30 * minute), zn_changes = [(734082 * day + 2 * hour + 31 * minute, - (3 * hour + 30 * minute))]\<rparr>"

definition midnight_net :: window where
  "midnight_net = tuesday_net\<lparr>wi_Days := [0], wi_Start := \<lparr>lt_Hour = 0, lt_Minute = 0\<rparr>, wi_Duration := 2 * hour, wi_loc := Some st_johns\<rparr>"

lemma closed_over_midnight:
  "map (\<lambda>m. scheduler_ActiveAt [midnight_net] (734082 * day + 2 * hour + m * minute)) [30, 40, 100] = [[''net''], [], [''net'']]"
  by code_simp

end
