(* ===== verification/Password.thy ===== *)
theory Password
  imports Prelude
begin

text \<open>
  \<^verbatim>\<open>internal/auth/password.go\<close>: passwords of the console as PBKDF2-HMAC-SHA256 with a salt and a count of iterations,
  written as text.  SHA-256 is a parameter; HMAC, PBKDF2, the encoding in base 64 and the reading of a stored hash
  are computed.  The lemmas show that a stored hash verifies exactly the passwords that derive the same key, and
  that one made under the parameters in force is not made again.
\<close>

section \<open>Library\<close>

fun Split :: "char \<Rightarrow> string \<Rightarrow> string list" where
  "Split c [] = [[]]"
| "Split c (x # xs) = (if x = c then [] # Split c xs else case Split c xs of p # ps \<Rightarrow> (x # p) # ps | [] \<Rightarrow> [[x]])"

text \<open>\<open>strconv.Atoi\<close>: a sign, digits, and the range of an \<open>int\<close>.\<close>

definition Atoi :: "string \<Rightarrow> int option" where
  "Atoi s =
     (let (neg, ds) = (case s of [] \<Rightarrow> (False, []) | c # r \<Rightarrow> if c = CHR ''-'' then (True, r) else if c = CHR ''+'' then (False, r) else (False, s))
      in if ds = [] \<or> \<not> list_all is_digit ds then None
         else
           let n = (if neg then - int (decimal_value ds) else int (decimal_value ds))
           in if - (2 ^ 63) \<le> n \<and> n < 2 ^ 63 then Some n else None)"

definition b64_alphabet :: string where
  "b64_alphabet = ''ABCDEFGHIJKLMNOPQRSTUVWXYZabcdefghijklmnopqrstuvwxyz0123456789+/''"

definition b64_char :: "nat \<Rightarrow> char" where "b64_char n = b64_alphabet ! n"

fun index_of :: "char \<Rightarrow> string \<Rightarrow> nat option" where
  "index_of c [] = None"
| "index_of c (x # xs) = (if x = c then Some 0 else map_option Suc (index_of c xs))"

fun b64_encode :: "byte list \<Rightarrow> string" where
  "b64_encode [] = []"
| "b64_encode [a] = [b64_char (unat a div 4), b64_char (unat a mod 4 * 16)]"
| "b64_encode [a, b] = [b64_char (unat a div 4), b64_char (unat a mod 4 * 16 + unat b div 16), b64_char (unat b mod 16 * 4)]"
| "b64_encode (a # b # c # r) =
     [b64_char (unat a div 4), b64_char (unat a mod 4 * 16 + unat b div 16), b64_char (unat b mod 16 * 4 + unat c div 64),
      b64_char (unat c mod 64)] @ b64_encode r"

fun b64_join :: "nat list \<Rightarrow> byte list option" where
  "b64_join [] = Some []"
| "b64_join [x] = None"
| "b64_join [x, y] = Some [word_of_nat (x * 4 + y div 16)]"
| "b64_join [x, y, z] = Some [word_of_nat (x * 4 + y div 16), word_of_nat (y mod 16 * 16 + z div 4)]"
| "b64_join (x # y # z # w # r) = map_option (\<lambda>bs. word_of_nat (x * 4 + y div 16) # word_of_nat (y mod 16 * 16 + z div 4) #
     word_of_nat (z mod 4 * 64 + w) # bs) (b64_join r)"

text \<open>The decoder skips line breaks, and does not look at the bits left over at the end.\<close>

definition b64_decode :: "string \<Rightarrow> byte list option" where
  "b64_decode s =
     (let vs = map (\<lambda>c. index_of c b64_alphabet) (filter (\<lambda>c. c \<noteq> CHR 0x0A \<and> c \<noteq> CHR 0x0D) s)
      in if list_all (\<lambda>v. v \<noteq> None) vs then b64_join (map the vs) else None)"

text \<open>\<open>utf8.RuneCountInString\<close>: a sequence that is not UTF-8 counts one for its first octet.\<close>

definition cont :: "byte \<Rightarrow> byte \<Rightarrow> byte list \<Rightarrow> bool" where
  "cont lo hi r = (case r of [] \<Rightarrow> False | b # _ \<Rightarrow> lo \<le> b \<and> b \<le> hi)"

definition rune_len :: "byte list \<Rightarrow> nat" where
  "rune_len bs = (case bs of [] \<Rightarrow> 0 | b # r \<Rightarrow>
     let lo = (if b = 0xE0 then 0xA0 else if b = 0xF0 then 0x90 else 0x80);
         hi = (if b = 0xED then 0x9F else if b = 0xF4 then 0x8F else 0xBF)
     in if 0xC2 \<le> b \<and> b \<le> 0xDF \<and> cont 0x80 0xBF r then 2
        else if 0xE0 \<le> b \<and> b \<le> 0xEF \<and> cont lo hi r \<and> cont 0x80 0xBF (drop 1 r) then 3
        else if 0xF0 \<le> b \<and> b \<le> 0xF4 \<and> cont lo hi r \<and> cont 0x80 0xBF (drop 1 r) \<and> cont 0x80 0xBF (drop 2 r) then 4
        else 1)"

function RuneCount :: "byte list \<Rightarrow> nat" where
  "RuneCount bs = (if bs = [] then 0 else Suc (RuneCount (drop (rune_len bs) bs)))"
  by auto
termination
  by (relation "measure length") (auto simp: rune_len_def Let_def split: list.split)

declare RuneCount.simps [simp del]

definition hmac256 :: "(byte list \<Rightarrow> byte list) \<Rightarrow> byte list \<Rightarrow> byte list \<Rightarrow> byte list" where
  "hmac256 sha256 k m =
     (let k' = (if length k > 64 then sha256 k else k); k' = k' @ replicate (64 - length k') 0
      in sha256 (map (\<lambda>x. x XOR 0x5C) k' @ sha256 (map (\<lambda>x. x XOR 0x36) k' @ m)))"

section \<open>Hashing\<close>

definition AlgorithmPBKDF2SHA256 :: string where "AlgorithmPBKDF2SHA256 = ''pbkdf2-sha256''"
definition DefaultIterations :: int where "DefaultIterations = 600000"
definition DefaultSaltLength :: int where "DefaultSaltLength = 16"
definition DefaultKeyLength :: int where "DefaultKeyLength = 32"
definition MinIterations :: int where "MinIterations = 100000"
definition MinPasswordLength :: nat where "MinPasswordLength = 12"
definition MaxPasswordLength :: nat where "MaxPasswordLength = 1024"

datatype password_error = ErrMismatch | ErrMalformedHash | ErrPasswordTooShort | ErrPasswordTooLong | ErrUnsupportedAlgorithm

record pw_params =
  pp_Iterations :: int
  pp_SaltLength :: int
  pp_KeyLength :: int

definition DefaultParams :: pw_params where
  "DefaultParams = \<lparr>pp_Iterations = DefaultIterations, pp_SaltLength = DefaultSaltLength, pp_KeyLength = DefaultKeyLength\<rparr>"

definition ValidatePassword :: "byte list \<Rightarrow> password_error option" where
  "ValidatePassword password =
     (if RuneCount password < MinPasswordLength then Some ErrPasswordTooShort
      else if length password > MaxPasswordLength then Some ErrPasswordTooLong else None)"

fun pbkdf2_rounds :: "(byte list \<Rightarrow> byte list) \<Rightarrow> nat \<Rightarrow> byte list \<Rightarrow> byte list \<Rightarrow> byte list" where
  "pbkdf2_rounds prf 0 u block = block"
| "pbkdf2_rounds prf (Suc n) u block = (let u = prf u in pbkdf2_rounds prf n u (map2 (XOR) block u))"

definition be32 :: "nat \<Rightarrow> byte list" where
  "be32 i = [word_of_nat (i div 2 ^ 24), word_of_nat (i div 2 ^ 16), word_of_nat (i div 2 ^ 8), word_of_nat i]"

definition pbkdf2_block :: "(byte list \<Rightarrow> byte list) \<Rightarrow> byte list \<Rightarrow> nat \<Rightarrow> nat \<Rightarrow> byte list" where
  "pbkdf2_block prf salt iterations i = (let u = prf (salt @ be32 i) in pbkdf2_rounds prf (iterations - 1) u u)"

definition pbkdf2 :: "(byte list \<Rightarrow> byte list) \<Rightarrow> byte list \<Rightarrow> byte list \<Rightarrow> nat \<Rightarrow> nat \<Rightarrow> byte list" where
  "pbkdf2 sha256 password salt iterations keyLength =
     (let prf = hmac256 sha256 password; blocks = (keyLength + 31) div 32
      in take keyLength (concat (map (pbkdf2_block prf salt iterations) [1..<Suc blocks])))"

definition encode :: "string \<Rightarrow> int \<Rightarrow> byte list \<Rightarrow> byte list \<Rightarrow> string" where
  "encode alg iterations salt key =
     ''$'' @ alg @ ''$i='' @ Itoa iterations @ ''$'' @ b64_encode salt @ ''$'' @ b64_encode key"

definition decode :: "string \<Rightarrow> (string \<times> int \<times> byte list \<times> byte list) option" where
  "decode encoded = (case Split CHR ''$'' encoded of
      [p0, alg, p2, p3, p4] \<Rightarrow>
        if p0 \<noteq> [] then None
        else if take 2 p2 \<noteq> ''i='' then None
        else (case Atoi (drop 2 p2) of
            None \<Rightarrow> None
          | Some iterations \<Rightarrow>
              if iterations \<le> 0 then None
              else (case b64_decode p3 of None \<Rightarrow> None | Some salt \<Rightarrow> (case b64_decode p4 of None \<Rightarrow> None | Some key \<Rightarrow>
                if length salt = 0 \<or> length key = 0 then None else Some (alg, iterations, salt, key))))
    | _ \<Rightarrow> None)"

definition positive_or :: "int \<Rightarrow> int \<Rightarrow> int" where
  "positive_or x d = (if x \<le> 0 then d else x)"

text \<open>\<open>random n\<close> is what the random source gives for \<open>n\<close> octets of salt.\<close>

definition password_Hash :: "(byte list \<Rightarrow> byte list) \<Rightarrow> (nat \<Rightarrow> byte list) \<Rightarrow> byte list \<Rightarrow> pw_params \<Rightarrow> password_error + string" where
  "password_Hash sha256 random password p = (case ValidatePassword password of
      Some e \<Rightarrow> Inl e
    | None \<Rightarrow>
        let iterations = positive_or (pp_Iterations p) DefaultIterations;
            salt = random (nat (positive_or (pp_SaltLength p) DefaultSaltLength));
            key = pbkdf2 sha256 password salt (nat iterations) (nat (positive_or (pp_KeyLength p) DefaultKeyLength))
        in Inr (encode AlgorithmPBKDF2SHA256 iterations salt key))"

definition password_Verify :: "(byte list \<Rightarrow> byte list) \<Rightarrow> byte list \<Rightarrow> string \<Rightarrow> password_error option" where
  "password_Verify sha256 password encoded = (case decode encoded of
      None \<Rightarrow> Some ErrMalformedHash
    | Some (alg, iterations, salt, want) \<Rightarrow>
        if alg \<noteq> AlgorithmPBKDF2SHA256 then Some ErrUnsupportedAlgorithm
        else if length password > MaxPasswordLength then Some ErrMismatch
        else if pbkdf2 sha256 password salt (nat iterations) (length want) \<noteq> want then Some ErrMismatch
        else None)"

definition NeedsRehash :: "string \<Rightarrow> pw_params \<Rightarrow> bool" where
  "NeedsRehash encoded p = (case decode encoded of
      None \<Rightarrow> True
    | Some (alg, iterations, salt, key) \<Rightarrow>
        alg \<noteq> AlgorithmPBKDF2SHA256 \<or> iterations < pp_Iterations p \<or> iterations < MinIterations \<or>
        int (length salt) < pp_SaltLength p \<or> int (length key) < pp_KeyLength p)"

section \<open>Reading back what was written\<close>

lemma b64_char_index: "n < 64 \<Longrightarrow> index_of (b64_char n) b64_alphabet = Some n \<and>
    b64_char n \<notin> {CHR 0x0A, CHR 0x0D, CHR ''$''}"
proof -
  have "list_all (\<lambda>n. index_of (b64_char n) b64_alphabet = Some n \<and> b64_char n \<notin> {CHR 0x0A, CHR 0x0D, CHR ''$''}) [0..<64]"
    by code_simp
  then show "n < 64 \<Longrightarrow> ?thesis" by (simp add: list_all_iff)
qed

fun b64_split :: "byte list \<Rightarrow> nat list" where
  "b64_split [] = []"
| "b64_split [a] = [unat a div 4, unat a mod 4 * 16]"
| "b64_split [a, b] = [unat a div 4, unat a mod 4 * 16 + unat b div 16, unat b mod 16 * 4]"
| "b64_split (a # b # c # r) =
     [unat a div 4, unat a mod 4 * 16 + unat b div 16, unat b mod 16 * 4 + unat c div 64, unat c mod 64] @ b64_split r"

lemma b64_encode_split: "b64_encode bs = map b64_char (b64_split bs)"
  by (induction bs rule: b64_encode.induct) simp_all

lemma byte_bound: "unat (a :: byte) < 256"
  using unsigned_less [of a] by simp

lemma byte_parts:
  "unat (a :: byte) div 4 < 64" "unat (a :: byte) div 16 < 16" "unat (a :: byte) div 64 < 4"
  "unat (a :: byte) mod 4 < 4" "unat (a :: byte) mod 16 < 16" "unat (a :: byte) mod 64 < 64"
  using byte_bound [of a] by (simp_all add: less_mult_imp_div_less)

lemma sextets:
  fixes a b c :: byte
  shows "unat a mod 4 * 16 + unat b div 16 < 64" "unat b mod 16 * 4 + unat c div 64 < 64" "unat a mod 4 * 16 < 64" "unat b mod 16 * 4 < 64"
  using byte_parts(4) [of a] byte_parts(2,5) [of b] byte_parts(3) [of c] by linarith+

lemma b64_split_bound: "\<forall>x \<in> set (b64_split bs). x < 64"
  by (induction bs rule: b64_split.induct) (simp_all add: sextets byte_parts del: mod_less_divisor)

lemma word_back: "word_of_nat (unat a) = (a :: byte)"
  by simp

lemma b64_join_split: "b64_join (b64_split bs) = Some bs"
proof (induction bs rule: b64_split.induct)
  case (2 a)
  have "unat a div 4 * 4 + unat a mod 4 * 16 div 16 = unat a" by simp
  then show ?case by simp
next
  case (3 a b)
  have e: "unat a div 4 * 4 + (unat a mod 4 * 16 + unat b div 16) div 16 = unat a"
    "(unat a mod 4 * 16 + unat b div 16) mod 16 * 16 + unat b mod 16 * 4 div 4 = unat b"
    using byte_bound [of b] by simp_all
  then show ?case by (simp only: b64_split.simps b64_join.simps e word_back)
next
  case (4 a b c r)
  have e: "unat a div 4 * 4 + (unat a mod 4 * 16 + unat b div 16) div 16 = unat a"
    "(unat a mod 4 * 16 + unat b div 16) mod 16 * 16 + (unat b mod 16 * 4 + unat c div 64) div 4 = unat b"
    "(unat b mod 16 * 4 + unat c div 64) mod 4 * 64 + unat c mod 64 = unat c"
    using byte_bound [of b] byte_bound [of c] by simp_all
  show ?case by (simp only: b64_split.simps append.simps b64_join.simps e word_back 4 option.map)
qed simp

lemma b64_roundtrip: "b64_decode (b64_encode bs) = Some bs" "CHR ''$'' \<notin> set (b64_encode bs)"
proof -
  have ok: "index_of (b64_char x) b64_alphabet = Some x" "b64_char x \<notin> {CHR 0x0A, CHR 0x0D, CHR ''$''}" if "x \<in> set (b64_split bs)" for x
    using b64_char_index b64_split_bound that by blast+
  show "CHR ''$'' \<notin> set (b64_encode bs)" using ok(2) by (force simp: b64_encode_split)
  have f: "filter (\<lambda>c. c \<noteq> CHR 0x0A \<and> c \<noteq> CHR 0x0D) (b64_encode bs) = b64_encode bs"
    using ok(2) by (auto simp: b64_encode_split filter_id_conv)
  have v: "map (\<lambda>c. index_of c b64_alphabet) (b64_encode bs) = map Some (b64_split bs)"
    using ok(1) by (simp add: b64_encode_split)
  show "b64_decode (b64_encode bs) = Some bs"
    unfolding b64_decode_def f v by (simp add: list_all_iff b64_join_split)
qed

lemma Split_part: "c \<notin> set p \<Longrightarrow> Split c (p @ c # r) = p # Split c r" "c \<notin> set p \<Longrightarrow> Split c p = [p]"
  by (induction p) auto

lemma Itoa_digits: "0 < n \<Longrightarrow> \<forall>c \<in> set (Itoa n). is_digit c" "Itoa n \<noteq> []"
  using FormatUint_digits by (auto simp: Itoa_def)

lemma not_digit: "\<not> is_digit CHR ''$''" "\<not> is_digit CHR ''-''" "\<not> is_digit CHR ''+''"
  by (simp_all add: is_digit_def char_le_iff)

lemma Atoi_Itoa: "0 < n \<Longrightarrow> n < 2 ^ 63 \<Longrightarrow> Atoi (Itoa n) = Some n"
proof -
  assume n: "0 < n" "n < 2 ^ 63"
  obtain c r where cr: "Itoa n = c # r" using Itoa_digits(2) by (cases "Itoa n") auto
  have "c \<noteq> CHR ''-''" "c \<noteq> CHR ''+''" using Itoa_digits(1) [OF n(1)] not_digit cr by auto
  moreover have "list_all is_digit (Itoa n)" using Itoa_digits(1) [OF n(1)] by (simp add: list_all_iff)
  moreover have "int (decimal_value (Itoa n)) = n" using n(1) by (simp add: Itoa_def)
  ultimately show ?thesis using n cr by (simp add: Atoi_def)
qed

lemma decode_encode:
  assumes "CHR ''$'' \<notin> set alg" "0 < n" "n < 2 ^ 63" "salt \<noteq> []" "key \<noteq> []"
  shows "decode (encode alg n salt key) = Some (alg, n, salt, key)"
proof -
  have i: "CHR ''$'' \<notin> set (''i='' @ Itoa n)" using Itoa_digits(1) [OF assms(2)] not_digit by auto
  have "Split CHR ''$'' (encode alg n salt key) = [[], alg, ''i='' @ Itoa n, b64_encode salt, b64_encode key]"
    using Split_part(1) [OF assms(1), of "''i='' @ Itoa n @ CHR ''$'' # b64_encode salt @ CHR ''$'' # b64_encode key"]
      Split_part(1) [OF i, of "b64_encode salt @ CHR ''$'' # b64_encode key"]
      Split_part(1) [OF b64_roundtrip(2), of salt "b64_encode key"] Split_part(2) [OF b64_roundtrip(2), of key]
    by (simp add: encode_def)
  then show ?thesis using assms by (simp add: decode_def Atoi_Itoa b64_roundtrip)
qed

lemma length_rounds: "length u = 32 \<Longrightarrow> length block = 32 \<Longrightarrow> (\<And>x. length (prf x) = 32) \<Longrightarrow> length (pbkdf2_rounds prf n u block) = 32"
  by (induction n arbitrary: u block) (simp_all add: Let_def)

lemma length_pbkdf2:
  assumes "\<And>x. length (sha256 x) = 32"
  shows "length (pbkdf2 sha256 password salt n k) = k"
proof -
  have b: "length (pbkdf2_block (hmac256 sha256 password) salt n i) = 32" for i
    by (simp add: pbkdf2_block_def Let_def length_rounds hmac256_def assms)
  have "length (concat (map (pbkdf2_block (hmac256 sha256 password) salt n) is)) = length is * 32" for "is"
    by (induction "is") (simp_all add: b)
  moreover have "k \<le> (k + 31) div 32 * 32"
    using div_mult_mod_eq [of "k + 31" 32] mod_less_divisor [of 32 "k + 31"] by linarith
  ultimately show ?thesis by (simp add: pbkdf2_def Let_def del: upt_Suc)
qed

text \<open>
  C19: a stored password is checked for what it is.  From the hash of a password that may be set, however long the salt
  and the key and whatever the count of iterations, \<open>Verify\<close> accepts exactly the passwords within the length limit that
  derive the same key under the same salt, the password itself among them; and under the parameters it was made
  with it needs a new one exactly when their count of iterations is below the least one allowed today.
\<close>

theorem password_verify_exact:
  assumes "\<And>x. length (sha256 x) = 32" "\<And>n. length (random n) = n"
    and "password_Hash sha256 random password p = Inr e" "pp_Iterations p < 2 ^ 63"
    and "n = positive_or (pp_Iterations p) DefaultIterations" "k = nat (positive_or (pp_KeyLength p) DefaultKeyLength)"
    and "salt = random (nat (positive_or (pp_SaltLength p) DefaultSaltLength))"
  shows "(password_Verify sha256 candidate e = None \<longleftrightarrow> length candidate \<le> MaxPasswordLength \<and>
      pbkdf2 sha256 candidate salt (nat n) k = pbkdf2 sha256 password salt (nat n) k) \<and>
    password_Verify sha256 password e = None \<and> (NeedsRehash e p \<longleftrightarrow> n < MinIterations)"
proof -
  have len: "length password \<le> MaxPasswordLength"
    using assms(3) by (auto simp: password_Hash_def ValidatePassword_def split: if_splits)
  have e: "e = encode AlgorithmPBKDF2SHA256 n salt (pbkdf2 sha256 password salt (nat n) k)"
    using assms(3,5-7) by (auto simp: password_Hash_def Let_def split: option.splits)
  have pos: "0 < n" "n < 2 ^ 63" "0 < k" "salt \<noteq> []"
    using assms(2) [of "nat (positive_or (pp_SaltLength p) DefaultSaltLength)"] assms(4-7)
    by (auto simp: positive_or_def DefaultIterations_def DefaultKeyLength_def DefaultSaltLength_def split: if_splits)
  note l = length_pbkdf2 [of sha256 _ salt "nat n" k, OF assms(1)]
  have d: "decode e = Some (AlgorithmPBKDF2SHA256, n, salt, pbkdf2 sha256 password salt (nat n) k)"
    unfolding e by (rule decode_encode) (use pos l [of password] in \<open>auto simp: AlgorithmPBKDF2SHA256_def\<close>)
  have "NeedsRehash e p \<longleftrightarrow> n < MinIterations"
    using l [of password] assms(2) [of "nat (positive_or (pp_SaltLength p) DefaultSaltLength)"] assms(5-7)
    by (auto simp: NeedsRehash_def d positive_or_def DefaultIterations_def DefaultKeyLength_def DefaultSaltLength_def split: if_splits)
  then show ?thesis using len l by (auto simp: password_Verify_def d)
qed

theorem password_verify_exact_witness:
  "let e = encode AlgorithmPBKDF2SHA256 600000 (replicate 16 7) (pbkdf2 (\<lambda>_. replicate 32 0) (replicate 12 65) (replicate 16 7) 600000 32)
   in password_Verify (\<lambda>_. replicate 32 0) (replicate 12 65) e = None \<and> \<not> NeedsRehash e DefaultParams"
proof -
  let ?e = "encode AlgorithmPBKDF2SHA256 600000 (replicate 16 7) (pbkdf2 (\<lambda>_. replicate 32 0) (replicate 12 65) (replicate 16 7) 600000 32)"
  have "ValidatePassword (replicate 12 65) = None" by code_simp
  then have h: "password_Hash (\<lambda>_. replicate 32 0) (\<lambda>n. replicate n 7) (replicate 12 65) DefaultParams = Inr ?e"
    by (simp add: password_Hash_def DefaultParams_def positive_or_def DefaultIterations_def DefaultSaltLength_def DefaultKeyLength_def Let_def)
  from password_verify_exact [OF _ _ h _ refl refl refl, of "[]"]
  show ?thesis by (simp add: DefaultParams_def positive_or_def DefaultIterations_def MinIterations_def)
qed

end
