(* ===== verification/Spec2Isabelle.thy ===== *)
theory Spec2Isabelle
  imports Hbp_Codec Routing_Safety Peer_Throttle Master_Directory Link_Handshake Vocoder_Bridge Embedded_Lc Data_Blocks Talker_Alias
    Openbridge V24_Calls P25_Gateways Call_Tracker Ipsc_Roundtrip Ipsc_Link Scheduler Accounts
begin

text \<open>
  QSP, a linking server for DMR and P25 radio networks: a verification of its routing, of the protocols and error
  correction it speaks, of the links it keeps and of the admission to it.

  The program.  Repeaters and hotspots (peers) log in to the master over the Homebrew protocol (\<^verbatim>\<open>internal/protocol/hbp\<close>,
  \<^verbatim>\<open>internal/peers\<close>).  A frame the master accepts goes to the routing core (\<^verbatim>\<open>internal/routing\<close>), which asks the routing
  table where the call goes, applies access lists (\<^verbatim>\<open>internal/access\<close>), deduplication and contention, and returns what to send
  to which peers, links and vocoder channels; \<^verbatim>\<open>cmd/qsp/app.go\<close> wires the two together.  Bridges are opened by the schedule
  (\<^verbatim>\<open>internal/scheduler\<close>) and by triggers.  Servers are linked by the Homebrew protocol, which this server then speaks as a
  peer (\<^verbatim>\<open>internal/protocol/homebrew\<close>), and by OpenBridge (\<^verbatim>\<open>internal/protocol/openbridge\<close>).  Motorola repeaters reach the core
  through IP Site Connect (\<^verbatim>\<open>internal/protocol/ipsc\<close>, \<^verbatim>\<open>internal/ipscbridge\<close>, \<^verbatim>\<open>internal/ipsclink\<close>), which rebuilds every burst with
  the error correction of \<^verbatim>\<open>internal/dmrfec\<close>.  P25 repeaters on a V.24 tunnel (\<^verbatim>\<open>internal/v24link\<close>) and P25 gateways
  (\<^verbatim>\<open>internal/p25link\<close>) carry each other's calls.  \<^verbatim>\<open>internal/parrot\<close> plays a member's own audio back, \<^verbatim>\<open>internal/calls\<close> and
  \<^verbatim>\<open>internal/p25calls\<close> keep the list of calls, and \<^verbatim>\<open>internal/auth\<close> admits the operators of the console.

  How the code is modelled.  A struct is a record with the fields of the source under a two-letter prefix, an enumeration or a set
  of error values a datatype, a method a function from state to state and result, a Go map an association list with distinct keys,
  machine integers words of their width where they can wrap, and an instant the nanoseconds since Go's zero time.  What a function
  writes to a socket, publishes or logs for a reader is part of its result.  The mutex of a structure is not modelled: a
  method that holds it from entry to exit is one step, and a goroutine is the sequence of its steps, in any order with
  the others.  Code outside the repository is an argument: the hash SHA-256, the encoding of JSON, the time zone tables, the
  random source, the reading of addresses, the tables of Unicode, and which calls of a socket or the database fail.  SHA-1 and HMAC
  are computed.  No definition needs fuel: every loop is over a list or has a measure (\<open>search_go\<close>, \<open>popcount\<close>,
  \<open>alias_blocks\<close>, \<open>RuneCount\<close>), and a worker that waits is one step per tick.

  The theories, the files under \<^verbatim>\<open>src/\<close> they model, and what their lemmas show.

  \<^item> \<open>Prelude\<close>: machine types, Go maps, sorting, the parts of the standard library the sources use, and the interfaces
    \<open>go_less\<close> (a comparison for \<^verbatim>\<open>sort.Slice\<close>), \<open>expiring_table\<close> (a table with a sweep), \<open>wire_codec\<close> (an encoder and a parser)
    and \<open>safe_system\<close> (an invariant of the reachable states), which the components interpret.
  \<^item> \<open>Access\<close>: \<^verbatim>\<open>access/access.go\<close>.  Parsing, merging, lookup and rendering of the lists: a list means the IDs it names.
  \<^item> \<open>Hbp\<close>, \<open>Hbp_Codec\<close>: \<^verbatim>\<open>protocol/hbp\<close>.  Every message, and that parsing and encoding are inverse.
  \<^item> \<open>Routing_Table\<close>: \<^verbatim>\<open>routing/routing.go\<close>; \<open>Triggers\<close>: \<^verbatim>\<open>routing/trigger.go\<close>.  \<open>Route\<close> against a description by sets, and the
    bridges held open by activity.
  \<^item> \<open>Routing_Core\<close>: \<^verbatim>\<open>routing/core.go\<close>.  \<open>Routing_Laws\<close> and \<open>Routing_Safety\<close> are its properties: where deliveries go, one
    transmission for a destination, one path for a transmission, the loop rule, and the interface \<open>peer_directory\<close> through which the
    core sees the master.
  \<^item> \<open>Peer_Throttle\<close>: \<^verbatim>\<open>peers/throttle.go\<close>; \<open>Peers\<close>: \<^verbatim>\<open>peers/peer.go\<close>, \<^verbatim>\<open>continuation.go\<close>; \<open>Master\<close>: \<^verbatim>\<open>peers/master.go\<close>,
    \<^verbatim>\<open>subscribers.go\<close>, \<^verbatim>\<open>attachments.go\<close>.  \<open>Master_Login\<close> is the login of one station as a state machine and the master's refinement of
    it, \<open>Master_System\<close> the reachable states of the master, \<open>Master_Tables\<close> its answers, locations, attachments and
    sweeps, \<open>Master_Directory\<close> its wiring to the core.
  \<^item> \<open>Homebrew_Link\<close>: \<^verbatim>\<open>protocol/homebrew/link.go\<close>; \<open>Link_Handshake\<close>: the link as a system and its handshake with the master.
  \<^item> \<open>Dmr_Bits\<close>, \<open>Linear_Codes\<close>, \<open>Golay\<close>, \<open>Vocoder\<close>, \<open>Vocoder_Bridge\<close>, \<open>Bptc\<close>, \<open>Gf256\<close>, \<open>Link_Control\<close>, \<open>Data_Burst\<close>, \<open>Emb\<close>,
    \<open>Embedded_Lc\<close>, \<open>Crc\<close>, \<open>Control_Blocks\<close>, \<open>Trellis\<close>, \<open>Data_Blocks\<close>, \<open>Talker_Alias\<close>: \<^verbatim>\<open>dmrfec\<close>.  The codes with the errors they
    correct and detect, over the interfaces \<open>linear_code\<close> and \<open>crc_register\<close>, and the round trip of every block, burst, message
    and name.
  \<^item> \<open>Openbridge\<close>: \<^verbatim>\<open>protocol/openbridge\<close>.  Exactly the signed frames are accepted.
  \<^item> \<open>P25\<close>: \<^verbatim>\<open>protocol/p25\<close>, \<^verbatim>\<open>p25link/floor.go\<close>; \<open>V24_Wire\<close>: \<^verbatim>\<open>v24link/stun.go\<close>, \<^verbatim>\<open>hdlc.go\<close>; \<open>V24_Voice\<close>: \<^verbatim>\<open>voice.go\<close>, \<^verbatim>\<open>pacer.go\<close>;
    \<open>V24_Relay\<close>: \<^verbatim>\<open>relay.go\<close>, \<^verbatim>\<open>inbound.go\<close>, \<^verbatim>\<open>listener.go\<close>; \<open>V24_Calls\<close>: what each listener hears of them, whole calls that never
    interleave.
  \<^item> \<open>P25_Calls\<close>: \<^verbatim>\<open>p25calls/calls.go\<close>; \<open>P25_Gateways\<close>: \<^verbatim>\<open>p25link/listener.go\<close>, \<^verbatim>\<open>serve.go\<close>; \<open>Call_Tracker\<close>: \<^verbatim>\<open>calls/calls.go\<close>.
  \<^item> \<open>Ipsc\<close>: \<^verbatim>\<open>protocol/ipsc\<close>; \<open>Ipsc_Convert\<close>: \<^verbatim>\<open>ipscbridge/bridge.go\<close>, \<^verbatim>\<open>text.go\<close>; \<open>Ipsc_Encode\<close>: \<^verbatim>\<open>ipscbridge/encode.go\<close>;
    \<open>Ipsc_Roundtrip\<close>: the two together; \<open>Parrot\<close>: \<^verbatim>\<open>parrot\<close>; \<open>Ipsc_Link\<close>: \<^verbatim>\<open>ipsclink/listener.go\<close>, \<^verbatim>\<open>parrot.go\<close>.  Transmissions stay
    whole through the conversion, cross the bridge unchanged, and hold the timeslot they were granted; what the listener keeps is
    bounded and swept.
  \<^item> \<open>Scheduler\<close>: \<^verbatim>\<open>scheduler/scheduler.go\<close>.  The bridges open at an instant, against the days and local times of their windows,
    for instants about which the clocks are regular.
  \<^item> \<open>Password\<close>: \<^verbatim>\<open>auth/password.go\<close>; \<open>Accounts\<close>: \<^verbatim>\<open>auth/throttle.go\<close>, \<^verbatim>\<open>sqlrepo.go\<close>, \<^verbatim>\<open>accounts.go\<close>.  A hash verifies its own password,
    and an address that guesses is refused.

  Bounds.  The limits of the code (stations, half-open logins, addresses, warnings, gateways, history, frames of a recording)
  are the constants or configuration fields of the source, and the invariants show they hold.  A theorem that needs room in a
  table says so in its hypotheses.

  Where the code does not do what its comments or its purpose say, a lemma shows an instance: repeat passes the opt-in of
  transcoded audio (\<open>repeat_ignores_opt_in\<close>), a sweep closes a bridge a trigger holds open (\<open>Expire_closes_open_bridge\<close>), a repeater ID that
  reads as another message (\<open>Config_shadowed_by_close\<close>), a login that is no longer listed (\<open>tidied_login_is_unlisted\<close>), a frame
  lost for its parity bit (\<open>vocoder_refuses_parity_error\<close>), a block read in the wrong order (\<open>rate34_burst_misread\<close>), a gateway sent
  its own voice (\<open>own_voice_returned\<close>), a note that leaves out minutes (\<open>note_drops_minutes\<close>), a window that
  closes when the clocks go back over midnight (\<open>closed_over_midnight\<close>) and a session swept early
  (\<open>session_swept_early\<close>).

  Not modelled.  The socket loops of \<^verbatim>\<open>peers/listener.go\<close>, \<^verbatim>\<open>v24link\<close>, \<^verbatim>\<open>p25link\<close>, \<^verbatim>\<open>upstream\<close> and \<^verbatim>\<open>peering\<close>, whose handlers
  are modelled where they keep state of their own; \<^verbatim>\<open>config\<close>, field checks of the configuration file; \<^verbatim>\<open>server\<close>, the pages of the
  console; \<^verbatim>\<open>vocoderlink\<close>, \<^verbatim>\<open>ambe\<close>, \<^verbatim>\<open>audio\<close>, \<^verbatim>\<open>opus\<close>, \<^verbatim>\<open>dongle\<close> and \<^verbatim>\<open>zello\<close>, which drive hardware, codecs and an outside service;
  \<^verbatim>\<open>tms\<close> and \<^verbatim>\<open>weather\<close>; \<^verbatim>\<open>database\<close>, \<^verbatim>\<open>audit\<close>, \<^verbatim>\<open>events\<close>, \<^verbatim>\<open>health\<close>, \<^verbatim>\<open>logging\<close> and the other small services, which are input and output;
  the programs under \<^verbatim>\<open>cmd\<close>, but for the wiring named above; and the wording of log lines, notes and errors.
\<close>

section \<open>Properties that span components\<close>

text \<open>
  C20: The master and the core together: a frame the master accepted, routed against the registry as
  the master left it, is delivered only to peers that are configured there; and when no bridge names
  its talkgroup, it is never sent back to the peer it came from.
\<close>

theorem accepted_frame_reaches_configured_peers:
  assumes "master_ok m" "core_ok c"
    and "Handle sha256 j m b from now salt = (m', out)" "ou_Data out = Some f"
    and "Core_Route c (master_env m' now) (ou_From out) f now = (c', res)"
  shows "(\<forall>d \<in> set (rs_Deliveries res). \<exists>p. mget (ma_peers m') (dv_Peer d) = Some p \<and> pe_State p = StateConfigured) \<and>
    (dc_Targets (Route (co_table c) (peer_endpoint (ou_From out) (d_TargetID f) (d_Timeslot f))) = [] \<longrightarrow>
      ou_From out \<notin> dv_Peer ` set (rs_Deliveries res))"
proof -
  have ok: "master_ok m'" using ok_Handle [OF assms(1), of sha256 j b "from" now salt] assms(3) by simp
  then have good: "master_ok (fst (m', now))" by simp
  have "dv_Peer ` set (rs_Deliveries res) \<subseteq> set (readyPeers_ReadyPeers m')"
    using directory.deliveries_ready [OF good, of c "peer_endpoint (ou_From out) (d_TargetID f) (d_Timeslot f)" f now False]
      assms(5) by (simp add: Core_Route_def master_env_def)
  moreover have "ou_From out \<notin> dv_Peer ` set (rs_Deliveries res)"
    if "dc_Targets (Route (co_table c) (peer_endpoint (ou_From out) (d_TargetID f) (d_Timeslot f))) = []"
    using directory.no_echo [OF good assms(2) that, of now] assms(5) by simp
  ultimately show ?thesis using mem_ReadyPeers [OF ok] by blast
qed

text \<open>Two stations and a core that only repeats, for the witness.\<close>

definition demo_pair :: master where
  "demo_pair = put_peer ((new_peer 8 (demo_addr 3) zero_salt 10)\<lparr>pe_State := StateConfigured\<rparr>)
     (demo_master\<lparr>ma_cfg := (ma_cfg demo_master)\<lparr>mc_Subscription := (mc_Subscription demo_cfg)\<lparr>su_Enabled := False\<rparr>\<rparr>\<rparr>)"

definition pair_core :: core where
  "pair_core = NewCore \<lparr>op_NoRepeat = False, op_Access = demo_lists, op_Table = None, op_Timeout = 0, op_QSPLinks = []\<rparr>"

theorem accepted_frame_reaches_configured_peers_witness:
  "map dv_Peer (rs_Deliveries (snd (Core_Route pair_core
      (master_env (fst (Handle demo_sha demo_json demo_pair (Data_AppendTo station_frame) (demo_addr 1) 40 None)) 40) 7 station_frame 40))) = [8] \<and>
   7 \<notin> dv_Peer ` set (rs_Deliveries (snd (Core_Route pair_core
      (master_env (fst (Handle demo_sha demo_json demo_pair (Data_AppendTo station_frame) (demo_addr 1) 40 None)) 40) 7 station_frame 40)))"
proof -
  let ?h = "Handle demo_sha demo_json demo_pair (Data_AppendTo station_frame) (demo_addr 1) 40 None"
  have ok: "master_ok demo_pair" "ou_Data (snd ?h) = Some station_frame" "ou_From (snd ?h) = 7"
    "dc_Targets (Route (co_table pair_core) (peer_endpoint 7 (d_TargetID station_frame) (d_Timeslot station_frame))) = []"
    by code_simp+
  have dv: "map dv_Peer (rs_Deliveries (snd (Core_Route pair_core (master_env (fst ?h) 40) 7 station_frame 40))) = [8]"
    by code_simp
  have core: "core_ok pair_core" unfolding pair_core_def by (rule core_ok_NewCore)
  show ?thesis
    using dv accepted_frame_reaches_configured_peers [OF ok(1) core surjective_pairing ok(2) surjective_pairing] ok(3,4) by simp
qed

end
